(* ===== verification/Prelude.thy ===== *)
theory Prelude
  imports Main "HOL-Library.Word" "HOL-Library.Monad_Syntax"
begin

text \<open>
  Shared vocabulary of the EMBODIOS kernel development: the machine integer types of
  \<^verbatim>\<open>src/kernel/include/embodios/types.h\<close>, the wrap-around arithmetic of \<open>size_t\<close>,
  linked lists in a store, ring buffers, byte encodings, and the lemma collections that
  the component theories use.
\<close>

unbundle bit_operations_syntax

section \<open>Machine integers\<close>

type_synonym u8 = "8 word"
type_synonym u16 = "16 word"
type_synonym u32 = "32 word"
type_synonym u64 = "64 word"

named_theorems wrap_simps \<open>wrap-around arithmetic that does not wrap\<close>
named_theorems codec_simps \<open>byte encodings and their inverses\<close>

text \<open>
  \<open>size_t\<close> and \<open>uintptr_t\<close> values are natural numbers below \<open>2 ^ 64\<close>; the operations that
  can wrap in C are written with the reduction.
\<close>

abbreviation SIZE_MOD :: nat where
  "SIZE_MOD \<equiv> 18446744073709551616"

definition add64 :: "nat \<Rightarrow> nat \<Rightarrow> nat" where
  "add64 a b = (a + b) mod SIZE_MOD"

definition sub64 :: "nat \<Rightarrow> nat \<Rightarrow> nat" where
  "sub64 a b = (if b \<le> a then a - b else a + SIZE_MOD - b)"

lemma add64_exact [wrap_simps]: "a + b < SIZE_MOD \<Longrightarrow> add64 a b = a + b"
  by (simp add: add64_def)

lemma sub64_exact [wrap_simps]: "b \<le> a \<Longrightarrow> sub64 a b = a - b"
  by (simp add: sub64_def)

lemma add64_less: "add64 a b < SIZE_MOD"
  by (simp add: add64_def)

lemma add64_le_plus: "add64 a b \<le> a + b"
  by (simp add: add64_def)

lemma unsigned_less_nat: "unat (x :: 'a::len word) < 2 ^ LENGTH('a)"
  by (rule unsigned_less)

section \<open>Linked lists in a store\<close>

text \<open>
  \<open>chain nxt p xs\<close>: following \<open>nxt\<close> from the pointer \<open>p\<close> visits the nodes \<open>xs\<close> and then
  reaches NULL (\<open>None\<close>).
\<close>

fun chain :: "('a \<Rightarrow> 'a option) \<Rightarrow> 'a option \<Rightarrow> 'a list \<Rightarrow> bool" where
  "chain nxt p [] \<longleftrightarrow> p = None"
| "chain nxt p (x # xs) \<longleftrightarrow> p = Some x \<and> chain nxt (nxt x) xs"

lemma chain_None [simp]: "chain nxt None xs \<longleftrightarrow> xs = []"
  by (cases xs) auto

lemma chain_Some: "chain nxt (Some a) xs \<longleftrightarrow> (\<exists>ys. xs = a # ys \<and> chain nxt (nxt a) ys)"
  by (cases xs) auto

lemma chain_unique: "chain nxt p xs \<Longrightarrow> chain nxt p ys \<Longrightarrow> xs = ys"
  by (induction xs arbitrary: p ys) (auto simp: chain_Some)

lemma chain_suffix: "chain nxt p (xs @ a # ys) \<Longrightarrow> chain nxt (Some a) (a # ys)"
  by (induction xs arbitrary: p) auto

lemma chain_head_notin: "chain nxt (nxt a) xs \<Longrightarrow> a \<notin> set xs"
proof
  assume c: "chain nxt (nxt a) xs" and "a \<in> set xs"
  then obtain us vs where xs: "xs = us @ a # vs"
    by (meson split_list)
  with c have "chain nxt (Some a) (a # vs)"
    using chain_suffix by metis
  with c have "xs = vs"
    by (metis chain.simps(2) chain_unique)
  with xs show False
    by (metis append_Cons append_eq_append_conv_if length_append length_Cons
        add_Suc_right less_add_Suc2 less_irrefl)
qed

lemma chain_distinct: "chain nxt p xs \<Longrightarrow> distinct xs"
  by (induction xs arbitrary: p) (auto dest: chain_head_notin)

lemma chain_cong:
  "(\<And>x. x \<in> set xs \<Longrightarrow> f x = g x) \<Longrightarrow> chain f p xs = chain g p xs"
  by (induction xs arbitrary: p) auto

lemma chain_upd_other [simp]:
  "a \<notin> set xs \<Longrightarrow> chain (nxt(a := v)) p xs = chain nxt p xs"
  by (rule chain_cong) auto

text \<open>Searching a linked list for the last node before the first one that fails a test.\<close>

lemma chain_scan:
  assumes eq: "\<And>c. scan c = (case nxt c of None \<Rightarrow> Some c | Some n \<Rightarrow> if P n then scan n else Some c)"
    and "chain nxt (nxt c) ys"
  shows "scan c = Some (last (c # takeWhile P ys))"
  using assms(2)
proof (induction ys arbitrary: c)
  case Nil
  then show ?case by (simp add: eq [of c])
next
  case (Cons y ys)
  then show ?case by (auto simp: eq [of c])
qed

lemma chain_before:
  assumes eq: "\<And>c. before c = (case nxt c of None \<Rightarrow> Some None
                | Some n \<Rightarrow> if n = i then Some (Some c) else before n)"
    and "chain nxt (nxt c) ys"
  shows "before c = Some (if i \<in> set ys then Some (last (c # takeWhile (\<lambda>y. y \<noteq> i) ys)) else None)"
  using assms(2)
proof (induction ys arbitrary: c)
  case Nil
  then show ?case by (simp add: eq [of c])
next
  case (Cons y ys)
  then show ?case by (auto simp: eq [of c])
qed

text \<open>Splicing a node in after \<open>c\<close>, and out from behind \<open>c\<close>.\<close>

lemma chain_insert_after:
  assumes "chain nxt p (us @ c # vs)" "i \<notin> set (us @ c # vs)"
  shows "chain (nxt(i := nxt c, c := Some i)) p (us @ c # i # vs)"
  using assms
proof (induction us arbitrary: p)
  case Nil
  then show ?case
    using chain_head_notin [of nxt c vs] by (auto simp del: fun_upd_apply simp: fun_upd_same fun_upd_other)
next
  case (Cons u us)
  then have "u \<notin> set (us @ c # vs)"
    using chain_head_notin [of nxt u "us @ c # vs"] by simp
  with Cons show ?case by auto
qed

lemma chain_remove_after:
  assumes "chain nxt p (us @ c # i # vs)"
  shows "chain (nxt(c := nxt i, i := None)) p (us @ c # vs)"
  using assms
proof (induction us arbitrary: p)
  case Nil
  then show ?case
    using chain_head_notin [of nxt c "i # vs"] chain_head_notin [of nxt i vs]
    by (auto simp del: fun_upd_apply simp: fun_upd_same fun_upd_other)
next
  case (Cons u us)
  then have "u \<notin> set (us @ c # i # vs)"
    using chain_head_notin [of nxt u "us @ c # i # vs"] by simp
  with Cons show ?case by auto
qed

lemma chain_insert_front:
  "chain nxt p xs \<Longrightarrow> i \<notin> set xs \<Longrightarrow> chain (nxt(i := p)) (Some i) (i # xs)"
  by simp

lemma chain_remove_front:
  "chain nxt p (i # xs) \<Longrightarrow> chain (nxt(i := None)) (nxt i) xs"
  using chain_head_notin [of nxt i xs] by simp

section \<open>Ring buffers\<close>

text \<open>
  \<open>ring_list buf t h\<close> is the content of a ring buffer with read index \<open>t\<close> and write index
  \<open>h\<close>, oldest first. One slot stays free, so that \<open>t = h\<close> means empty.
\<close>

definition ring_len :: "'a list \<Rightarrow> nat \<Rightarrow> nat \<Rightarrow> nat" where
  "ring_len buf t h = (if t \<le> h then h - t else h + length buf - t)"

definition ring_list :: "'a list \<Rightarrow> nat \<Rightarrow> nat \<Rightarrow> 'a list" where
  "ring_list buf t h =
     map (\<lambda>k. buf ! ((t + k) mod length buf)) [0..<ring_len buf t h]"

lemma length_ring_list [simp]: "length (ring_list buf t h) = ring_len buf t h"
  by (simp add: ring_list_def)

lemma mod_succ_cases: "i < n \<Longrightarrow> Suc i mod n = (if Suc i = n then 0 else Suc i)" for i n :: nat
  by auto

lemma mod_double_cases: "a < 2 * n \<Longrightarrow> a mod n = (if a < n then a else a - n)" for a n :: nat
  by (simp add: mod_if)

lemma ring_len_empty_iff: "t < length buf \<Longrightarrow> ring_len buf t h = 0 \<longleftrightarrow> h = t"
  by (auto simp: ring_len_def split: if_splits)

lemma ring_len_bound: "t < length buf \<Longrightarrow> h < length buf \<Longrightarrow> ring_len buf t h \<le> length buf - 1"
  by (auto simp: ring_len_def)

lemma ring_full_iff:
  "t < length buf \<Longrightarrow> h < length buf \<Longrightarrow>
   Suc h mod length buf = t \<longleftrightarrow> ring_len buf t h = length buf - 1"
  by (auto simp: ring_len_def mod_succ_cases split: if_splits)

lemma ring_len_push:
  assumes "t < length buf" "h < length buf" "Suc h mod length buf \<noteq> t"
  shows "ring_len buf t (Suc h mod length buf) = ring_len buf t h + 1"
  using assms by (auto simp: ring_len_def mod_succ_cases split: if_splits)

lemma ring_len_pop:
  assumes "t < length buf" "h < length buf" "h \<noteq> t"
  shows "ring_len buf t h = Suc (ring_len buf (Suc t mod length buf) h)"
  using assms by (auto simp: ring_len_def mod_succ_cases split: if_splits)

lemma ring_index_head:
  assumes "t < length buf" "h < length buf"
  shows "(t + ring_len buf t h) mod length buf = h"
  using assms by (auto simp: ring_len_def)

lemma ring_index_neq:
  assumes "t < length buf" "h < length buf" "k < ring_len buf t h"
  shows "(t + k) mod length buf \<noteq> h"
  using assms mod_double_cases [of "t + k" "length buf"]
  by (auto simp: ring_len_def split: if_splits)

lemma ring_list_empty_iff:
  "t < length buf \<Longrightarrow> ring_list buf t h = [] \<longleftrightarrow> h = t"
  by (metis length_0_conv length_ring_list ring_len_empty_iff)

lemma ring_list_push:
  assumes "t < length buf" "h < length buf" "Suc h mod length buf \<noteq> t"
  shows "ring_list (buf[h := x]) t (Suc h mod length buf) = ring_list buf t h @ [x]"
proof -
  have len: "ring_len (buf[h := x]) t (Suc h mod length buf) = Suc (ring_len buf t h)"
    using ring_len_push [of t "buf[h := x]" h] assms by (auto simp: ring_len_def mod_succ_cases)
  show ?thesis
    using ring_index_head [OF assms(1,2)] assms(2)
    by (simp add: ring_list_def len nth_list_update)
      (use ring_index_neq [OF assms(1,2)] in fastforce)
qed

lemma ring_list_pop:
  assumes "t < length buf" "h < length buf" "h \<noteq> t"
  shows "ring_list buf t h = buf ! t # ring_list buf (Suc t mod length buf) h"
proof -
  have len: "ring_len buf t h = Suc (ring_len buf (Suc t mod length buf) h)"
    by (rule ring_len_pop [OF assms])
  have shift: "Suc (t + k) mod length buf = (Suc t mod length buf + k) mod length buf" for k
    by (metis add_Suc mod_add_left_eq)
  show ?thesis
    using assms(1)
    by (simp add: ring_list_def len upt_conv_Cons map_Suc_upt [symmetric] shift del: upt_Suc)
qed

end
