(* ===== verification/CString.thy ===== *)
theory CString
  imports Prelude "HOL-Library.Sublist"
begin

text \<open>
  The string library of \<^verbatim>\<open>src/kernel/lib/string.c\<close> on a byte-addressed memory. Pointers are
  addresses, so that overlapping buffers, the word-wise paths of \<open>memcpy\<close> and \<open>memset\<close> and
  writes past a buffer are visible. A loop that looks for a NUL that may not be there is a
  partial function; \<open>None\<close> means that it never returns.
\<close>

type_synonym mem = "nat \<Rightarrow> u8"

section \<open>Memory blocks\<close>

text \<open>The byte loops \<^verbatim>\<open>while (n--) *d++ = *s++;\<close> and \<^verbatim>\<open>while (n--) *p++ = val;\<close>.\<close>

fun copy_bytes :: "nat \<Rightarrow> nat \<Rightarrow> nat \<Rightarrow> mem \<Rightarrow> mem" where
  "copy_bytes d s 0 m = m"
| "copy_bytes d s (Suc n) m = copy_bytes (d + 1) (s + 1) n (m(d := m s))"

fun fill_bytes :: "nat \<Rightarrow> u8 \<Rightarrow> nat \<Rightarrow> mem \<Rightarrow> mem" where
  "fill_bytes p v 0 m = m"
| "fill_bytes p v (Suc n) m = fill_bytes (p + 1) v n (m(p := v))"

text \<open>A 64-bit load and store, little-endian.\<close>

definition load64 :: "nat \<Rightarrow> mem \<Rightarrow> u64" where
  "load64 a m =
     ucast (m a) OR push_bit 8 (ucast (m (a + 1))) OR push_bit 16 (ucast (m (a + 2)))
     OR push_bit 24 (ucast (m (a + 3))) OR push_bit 32 (ucast (m (a + 4)))
     OR push_bit 40 (ucast (m (a + 5))) OR push_bit 48 (ucast (m (a + 6)))
     OR push_bit 56 (ucast (m (a + 7)))"

definition store64 :: "nat \<Rightarrow> u64 \<Rightarrow> mem \<Rightarrow> mem" where
  "store64 a w m = m(a := ucast w, a + 1 := ucast (drop_bit 8 w), a + 2 := ucast (drop_bit 16 w),
     a + 3 := ucast (drop_bit 24 w), a + 4 := ucast (drop_bit 32 w),
     a + 5 := ucast (drop_bit 40 w), a + 6 := ucast (drop_bit 48 w),
     a + 7 := ucast (drop_bit 56 w))"

fun copy_words :: "nat \<Rightarrow> nat \<Rightarrow> nat \<Rightarrow> mem \<Rightarrow> mem" where
  "copy_words d s 0 m = m"
| "copy_words d s (Suc n) m = copy_words (d + 8) (s + 8) n (store64 d (load64 s m) m)"

fun fill_words :: "nat \<Rightarrow> u64 \<Rightarrow> nat \<Rightarrow> mem \<Rightarrow> mem" where
  "fill_words p w 0 m = m"
| "fill_words p w (Suc n) m = fill_words (p + 8) w n (store64 p w m)"

definition aligned8 :: "nat \<Rightarrow> bool" where
  "aligned8 a \<longleftrightarrow> a mod 8 = 0"

definition memcpy :: "nat \<Rightarrow> nat \<Rightarrow> nat \<Rightarrow> mem \<Rightarrow> mem" where
  "memcpy dest src n m =
     (if aligned8 dest \<and> aligned8 src \<and> aligned8 n then copy_words dest src (n div 8) m
      else copy_bytes dest src n m)"

definition spread64 :: "u8 \<Rightarrow> u64" where
  "spread64 v =
     (let w = ucast v; w = w OR push_bit 8 w; w = w OR push_bit 16 w in w OR push_bit 32 w)"

definition memset :: "nat \<Rightarrow> int \<Rightarrow> nat \<Rightarrow> mem \<Rightarrow> mem" where
  "memset s c n m =
     (let val = word_of_int c in
      if aligned8 s \<and> aligned8 n then fill_words s (spread64 val) (n div 8) m
      else fill_bytes s val n m)"

fun copy_back :: "nat \<Rightarrow> nat \<Rightarrow> nat \<Rightarrow> mem \<Rightarrow> mem" where
  "copy_back d s 0 m = m"
| "copy_back d s (Suc n) m = copy_back (d - 1) (s - 1) n (m(d - 1 := m (s - 1)))"

definition memmove :: "nat \<Rightarrow> nat \<Rightarrow> nat \<Rightarrow> mem \<Rightarrow> mem" where
  "memmove dest src n m =
     (if dest < src then copy_bytes dest src n m
      else if src < dest then copy_back (dest + n) (src + n) n m
      else m)"

fun memcmp :: "nat \<Rightarrow> nat \<Rightarrow> nat \<Rightarrow> mem \<Rightarrow> int" where
  "memcmp p1 p2 0 m = 0"
| "memcmp p1 p2 (Suc n) m =
     (if m p1 \<noteq> m p2 then uint (m p1) - uint (m p2) else memcmp (p1 + 1) (p2 + 1) n m)"

section \<open>Strings\<close>

partial_function (option) find_nul :: "nat \<Rightarrow> mem \<Rightarrow> nat option" where
  "find_nul p m = (if m p = 0 then Some p else find_nul (p + 1) m)"

definition strlen :: "nat \<Rightarrow> mem \<Rightarrow> nat option" where
  "strlen s m = do { p \<leftarrow> find_nul s m; Some (p - s) }"

partial_function (option) copy_string :: "nat \<Rightarrow> nat \<Rightarrow> mem \<Rightarrow> mem option" where
  "copy_string d s m =
     (if m s = 0 then Some (m(d := m s)) else copy_string (d + 1) (s + 1) (m(d := m s)))"

definition strcpy :: "nat \<Rightarrow> nat \<Rightarrow> mem \<Rightarrow> mem option" where
  "strcpy dest src m = copy_string dest src m"

text \<open>The copy loop of \<open>strlcpy\<close>: destination, source and length when it stops.\<close>

fun strlcpy_loop :: "nat \<Rightarrow> nat \<Rightarrow> nat \<Rightarrow> nat \<Rightarrow> mem \<Rightarrow> nat \<times> nat \<times> nat \<times> mem" where
  "strlcpy_loop dest src sz len m =
     (if m src \<noteq> 0 \<and> 1 < sz
      then strlcpy_loop (dest + 1) (src + 1) (sz - 1) (len + 1) (m(dest := m src))
      else (dest, src, len, m))"

definition strlcpy :: "nat \<Rightarrow> nat \<Rightarrow> nat \<Rightarrow> mem \<Rightarrow> (nat \<times> mem) option" where
  "strlcpy dest src sz m =
     (if sz = 0 then do { l \<leftarrow> strlen src m; Some (l, m) }
      else do {
        let (d, s, len, m) = strlcpy_loop dest src sz 0 m;
        let m = m(d := 0);
        rest \<leftarrow> strlen s m;
        Some (len + rest, m) })"

text \<open>
  \<open>strncpy\<close>: the copy loop \<^verbatim>\<open>while (n-- && (*d++ = *src++))\<close> decrements \<open>n\<close> also when it is
  0; the second loop pads with what is then left of \<open>n\<close>.
\<close>

fun strncpy_loop :: "nat \<Rightarrow> nat \<Rightarrow> nat \<Rightarrow> mem \<Rightarrow> nat \<times> nat \<times> mem" where
  "strncpy_loop d s 0 m = (d, sub64 0 1, m)"
| "strncpy_loop d s (Suc n) m =
     (if m s = 0 then (d + 1, n, m(d := m s)) else strncpy_loop (d + 1) (s + 1) n (m(d := m s)))"

definition strncpy :: "nat \<Rightarrow> nat \<Rightarrow> nat \<Rightarrow> mem \<Rightarrow> mem" where
  "strncpy dest src n m = (case strncpy_loop dest src n m of (d, left, m') \<Rightarrow> fill_bytes d 0 left m')"

partial_function (option) strcmp :: "nat \<Rightarrow> nat \<Rightarrow> mem \<Rightarrow> int option" where
  "strcmp s1 s2 m =
     (if m s1 \<noteq> 0 \<and> m s1 = m s2 then strcmp (s1 + 1) (s2 + 1) m
      else Some (uint (m s1) - uint (m s2)))"

fun strncmp_loop :: "nat \<Rightarrow> nat \<Rightarrow> nat \<Rightarrow> mem \<Rightarrow> nat \<times> nat \<times> nat" where
  "strncmp_loop s1 s2 0 m = (s1, s2, sub64 0 1)"
| "strncmp_loop s1 s2 (Suc n) m =
     (if m s1 \<noteq> 0 \<and> m s1 = m s2 then strncmp_loop (s1 + 1) (s2 + 1) n m else (s1, s2, n))"

definition strncmp :: "nat \<Rightarrow> nat \<Rightarrow> nat \<Rightarrow> mem \<Rightarrow> int" where
  "strncmp s1 s2 n m =
     (case strncmp_loop s1 s2 n m of (s1, s2, left) \<Rightarrow>
        if left = sub64 0 1 then 0 else uint (m s1) - uint (m s2))"

definition strcat :: "nat \<Rightarrow> nat \<Rightarrow> mem \<Rightarrow> mem option" where
  "strcat dest src m = do { d \<leftarrow> find_nul dest m; copy_string d src m }"

definition strlcat :: "nat \<Rightarrow> nat \<Rightarrow> nat \<Rightarrow> mem \<Rightarrow> (nat \<times> mem) option" where
  "strlcat dest src sz m = do {
     dest_len \<leftarrow> strlen dest m;
     src_len \<leftarrow> strlen src m;
     if sz \<le> dest_len then Some (add64 sz src_len, m)
     else do {
       let copy_len = sz - dest_len - 1;
       let copy_len = (if src_len < copy_len then src_len else copy_len);
       let m = memcpy (dest + dest_len) src copy_len m;
       let m = m(dest + dest_len + copy_len := 0);
       Some (dest_len + src_len, m) } }"

text \<open>
  \<open>strchr\<close> and \<open>strrchr\<close> compare a plain \<open>char\<close>, signed as on x86, with an \<open>int\<close>. Outer
  \<open>None\<close>: the search does not end; inner \<open>None\<close>: the null pointer.
\<close>

partial_function (option) strchr :: "nat \<Rightarrow> int \<Rightarrow> mem \<Rightarrow> nat option option" where
  "strchr s c m =
     (if m s = 0 then Some (if c = 0 then Some s else None)
      else if sint (m s) = c then Some (Some s) else strchr (s + 1) c m)"

partial_function (option) strrchr_loop :: "nat \<Rightarrow> int \<Rightarrow> nat option \<Rightarrow> mem \<Rightarrow> nat option option" where
  "strrchr_loop s c last_pos m =
     (if m s = 0 then Some (if c = 0 then Some s else last_pos)
      else strrchr_loop (s + 1) c (if sint (m s) = c then Some s else last_pos) m)"

definition strrchr :: "nat \<Rightarrow> int \<Rightarrow> mem \<Rightarrow> nat option option" where
  "strrchr s c m = strrchr_loop s c None m"

text \<open>The inner loop of \<open>strstr\<close>: does the needle stand at \<open>h\<close>?\<close>

partial_function (option) matches_at :: "nat \<Rightarrow> nat \<Rightarrow> mem \<Rightarrow> bool option" where
  "matches_at h n m =
     (if m h \<noteq> 0 \<and> m n \<noteq> 0 \<and> m h = m n then matches_at (h + 1) (n + 1) m else Some (m n = 0))"

partial_function (option) strstr_loop :: "nat \<Rightarrow> nat \<Rightarrow> mem \<Rightarrow> nat option option" where
  "strstr_loop haystack needle m =
     (if m haystack = 0 then Some None
      else do {
        b \<leftarrow> matches_at haystack needle m;
        if b then Some (Some haystack) else strstr_loop (haystack + 1) needle m })"

definition strstr :: "nat \<Rightarrow> nat \<Rightarrow> mem \<Rightarrow> nat option option" where
  "strstr haystack needle m =
     (if m needle = 0 then Some (Some haystack) else strstr_loop haystack needle m)"

section \<open>The word-wise paths\<close>

lemma bit_byte_less [dest]: "bit (x :: u8) n \<Longrightarrow> n < 8"
  using bit_imp_le_length by fastforce

lemma load64_bytes:
  "ucast (load64 a m) = m a" "ucast (drop_bit 8 (load64 a m)) = m (a + 1)"
  "ucast (drop_bit 16 (load64 a m)) = m (a + 2)" "ucast (drop_bit 24 (load64 a m)) = m (a + 3)"
  "ucast (drop_bit 32 (load64 a m)) = m (a + 4)" "ucast (drop_bit 40 (load64 a m)) = m (a + 5)"
  "ucast (drop_bit 48 (load64 a m)) = m (a + 6)" "ucast (drop_bit 56 (load64 a m)) = m (a + 7)"
  unfolding load64_def by (rule bit_word_eqI; auto simp: bit_simps)+

lemma spread64_bytes:
  "ucast (spread64 v) = v" "ucast (drop_bit 8 (spread64 v)) = v"
  "ucast (drop_bit 16 (spread64 v)) = v" "ucast (drop_bit 24 (spread64 v)) = v"
  "ucast (drop_bit 32 (spread64 v)) = v" "ucast (drop_bit 40 (spread64 v)) = v"
  "ucast (drop_bit 48 (spread64 v)) = v" "ucast (drop_bit 56 (spread64 v)) = v"
  unfolding spread64_def Let_def by (rule bit_word_eqI; auto simp: bit_simps)+

lemma copy_bytes_add: "copy_bytes d s (k + n) m = copy_bytes (d + k) (s + k) n (copy_bytes d s k m)"
  by (induction k arbitrary: d s m) (simp_all add: algebra_simps)

lemma fill_bytes_add: "fill_bytes p v (k + n) m = fill_bytes (p + k) v n (fill_bytes p v k m)"
  by (induction k arbitrary: p m) (simp_all add: algebra_simps)

lemma mod8_apart: "(d :: nat) mod 8 = s mod 8 \<Longrightarrow> 0 < k \<Longrightarrow> k < 8 \<Longrightarrow> d \<noteq> s + k"
  using mod_eq_dvd_iff_nat [of s "s + k" 8] by (auto dest: nat_dvd_not_less)

lemma copy_bytes_8:
  "copy_bytes d s 8 m = (let m1 = m(d := m s); m2 = m1(d + 1 := m1 (s + 1));
     m3 = m2(d + 2 := m2 (s + 2)); m4 = m3(d + 3 := m3 (s + 3)); m5 = m4(d + 4 := m4 (s + 4));
     m6 = m5(d + 5 := m5 (s + 5)); m7 = m6(d + 6 := m6 (s + 6)) in m7(d + 7 := m7 (s + 7)))"
  by (simp add: eval_nat_numeral)

lemma fill_bytes_8:
  "fill_bytes p v 8 m = m(p := v, p + 1 := v, p + 2 := v, p + 3 := v, p + 4 := v, p + 5 := v,
     p + 6 := v, p + 7 := v)"
  by (simp add: eval_nat_numeral)

lemma store64_copy:
  assumes "d mod 8 = s mod 8"
  shows "store64 d (load64 s m) m = copy_bytes d s 8 m"
  using mod8_apart [OF assms, of 1] mod8_apart [OF assms, of 2] mod8_apart [OF assms, of 3]
    mod8_apart [OF assms, of 4] mod8_apart [OF assms, of 5] mod8_apart [OF assms, of 6]
    mod8_apart [OF assms, of 7]
  by (simp add: store64_def load64_bytes copy_bytes_8 Let_def)

lemma copy_words_bytes: "d mod 8 = s mod 8 \<Longrightarrow> copy_words d s n m = copy_bytes d s (8 * n) m"
proof (induction n arbitrary: d s m)
  case (Suc n)
  have "copy_words d s (Suc n) m = copy_bytes (d + 8) (s + 8) (8 * n) (copy_bytes d s 8 m)"
    using Suc.IH [of "d + 8" "s + 8"] Suc.prems by (simp add: store64_copy)
  also have "\<dots> = copy_bytes d s (8 * Suc n) m"
    by (simp add: copy_bytes_add [of d s 8, symmetric])
  finally show ?case .
qed simp

lemma store64_fill: "store64 p (spread64 v) m = fill_bytes p v 8 m"
  by (simp add: store64_def spread64_bytes fill_bytes_8)

lemma fill_words_bytes: "fill_words p (spread64 v) n m = fill_bytes p v (8 * n) m"
proof (induction n arbitrary: p m)
  case (Suc n)
  then show ?case
    by (simp add: store64_fill fill_bytes_add [of p v 8, symmetric])
qed simp

lemma memcpy_bytes: "memcpy d s n m = copy_bytes d s n m"
  by (auto simp: memcpy_def aligned8_def copy_words_bytes)

lemma memset_bytes: "memset s c n m = fill_bytes s (word_of_int c) n m"
  by (auto simp: memset_def Let_def aligned8_def fill_words_bytes)

section \<open>Blocks of bytes\<close>

text \<open>\<open>bytes_at m p n\<close> reads a block, \<open>poke p bs m\<close> writes one.\<close>

definition bytes_at :: "mem \<Rightarrow> nat \<Rightarrow> nat \<Rightarrow> u8 list" where
  "bytes_at m p n = map (\<lambda>i. m (p + i)) [0..<n]"

definition poke :: "nat \<Rightarrow> u8 list \<Rightarrow> mem \<Rightarrow> mem" where
  "poke p bs m = (\<lambda>a. if p \<le> a \<and> a < p + length bs then bs ! (a - p) else m a)"

lemma length_bytes_at [simp]: "length (bytes_at m p n) = n"
  by (simp add: bytes_at_def)

lemma nth_bytes_at [simp]: "i < n \<Longrightarrow> bytes_at m p n ! i = m (p + i)"
  by (simp add: bytes_at_def)

lemma bytes_at_0 [simp]: "bytes_at m p 0 = []"
  by (simp add: bytes_at_def)

lemma bytes_at_Suc: "bytes_at m p (Suc n) = m p # bytes_at m (p + 1) n"
  by (simp add: bytes_at_def upt_conv_Cons map_Suc_upt [symmetric] del: upt_Suc)

lemma bytes_at_cong: "(\<And>i. i < n \<Longrightarrow> m (p + i) = m' (p + i)) \<Longrightarrow> bytes_at m p n = bytes_at m' p n"
  by (simp add: bytes_at_def)

lemma bytes_at_poke_other:
  "p + n \<le> q \<or> q + length bs \<le> p \<Longrightarrow> bytes_at (poke q bs m) p n = bytes_at m p n"
  by (rule bytes_at_cong) (auto simp: poke_def)

lemma bytes_at_poke_same: "bytes_at (poke p bs m) p (length bs) = bs"
  by (rule nth_equalityI) (auto simp: poke_def)

lemma poke_Nil [simp]: "poke p [] m = m"
  by (auto simp: poke_def fun_eq_iff)

lemma poke_Cons: "poke p (b # bs) m = poke (p + 1) bs (m(p := b))"
proof
  fix a show "poke p (b # bs) m a = poke (p + 1) bs (m(p := b)) a"
    by (cases "a = p") (auto simp: poke_def nth_Cons' Suc_le_eq)
qed

lemma poke_append: "poke p (as @ bs) m = poke (p + length as) bs (poke p as m)"
  by (induction as arbitrary: p m) (simp_all add: poke_Cons algebra_simps)

lemma poke_upd_before: "a < p \<Longrightarrow> poke p bs (m(a := v)) = (poke p bs m)(a := v)"
  by (auto simp: poke_def fun_eq_iff)

lemma fill_bytes_poke: "fill_bytes p v n m = poke p (replicate n v) m"
  by (induction n arbitrary: p m) (simp_all add: poke_Cons)

lemma copy_bytes_poke: "d \<le> s \<or> s + n \<le> d \<Longrightarrow> copy_bytes d s n m = poke d (bytes_at m s n) m"
proof (induction n arbitrary: d s m)
  case (Suc n)
  have "bytes_at (m(d := m s)) (s + 1) n = bytes_at m (s + 1) n"
    using Suc.prems by (intro bytes_at_cong) auto
  moreover have "d + 1 \<le> s + 1 \<or> s + 1 + n \<le> d + 1"
    using Suc.prems by auto
  ultimately show ?case
    using Suc.IH [of "d + 1" "s + 1" "m(d := m s)"]
    by (simp add: bytes_at_Suc poke_Cons del: fun_upd_apply)
qed simp

lemma bytes_at_snoc: "bytes_at m p (Suc n) = bytes_at m p n @ [m (p + n)]"
  by (simp add: bytes_at_def)

lemma copy_back_poke: "s < d \<Longrightarrow> copy_back (d + n) (s + n) n m = poke d (bytes_at m s n) m"
proof (induction n arbitrary: m)
  case (Suc n)
  let ?m = "m(d + n := m (s + n))"
  have "bytes_at ?m s n = bytes_at m s n"
    using Suc.prems by (intro bytes_at_cong) auto
  moreover have "poke d (bytes_at m s n) ?m = poke d (bytes_at m s (Suc n)) m"
    by (auto simp: poke_def bytes_at_snoc nth_append fun_eq_iff)
  ultimately show ?case using Suc by simp
qed simp

lemma memmove_poke: "memmove d s n m = poke d (bytes_at m s n) m"
proof -
  have "poke d (bytes_at m d n) m = m"
    by (auto simp: poke_def fun_eq_iff)
  then show ?thesis
    by (auto simp: memmove_def copy_bytes_poke copy_back_poke)
qed

section \<open>Strings in memory\<close>

text \<open>\<open>string_at m p s\<close>: the bytes \<open>s\<close>, none of them NUL, stand at \<open>p\<close> and a NUL follows.\<close>

fun string_at :: "mem \<Rightarrow> nat \<Rightarrow> u8 list \<Rightarrow> bool" where
  "string_at m p [] \<longleftrightarrow> m p = 0"
| "string_at m p (c # s) \<longleftrightarrow> m p = c \<and> c \<noteq> 0 \<and> string_at m (p + 1) s"

lemma string_at_cong:
  "(\<And>a. p \<le> a \<Longrightarrow> a \<le> p + length s \<Longrightarrow> m a = m' a) \<Longrightarrow> string_at m p s = string_at m' p s"
proof (induction s arbitrary: p)
  case (Cons c s)
  then have "string_at m (p + 1) s = string_at m' (p + 1) s" "m p = m' p"
    by auto
  then show ?case by simp
qed simp

lemma string_at_upd_other [simp]:
  "a < p \<or> p + length s < a \<Longrightarrow> string_at (m(a := v)) p s = string_at m p s"
  by (rule string_at_cong) auto

lemma string_at_poke_other:
  "a + length bs \<le> p \<or> p + length s < a \<Longrightarrow> string_at (poke a bs m) p s = string_at m p s"
  by (rule string_at_cong) (auto simp: poke_def)

lemma string_at_poke: "0 \<notin> set s \<Longrightarrow> string_at (poke p (s @ [0]) m) p s"
proof (induction s arbitrary: p m)
  case Nil then show ?case by (simp add: poke_Cons)
next
  case (Cons c s)
  then show ?case by (auto simp: poke_Cons) (simp add: poke_def)
qed

lemma string_at_drop: "string_at m p s \<Longrightarrow> k \<le> length s \<Longrightarrow> string_at m (p + k) (drop k s)"
proof (induction s arbitrary: p k)
  case (Cons c s)
  show ?case
  proof (cases k)
    case (Suc j)
    with Cons.IH [of "p + 1" j] Cons.prems show ?thesis by simp
  qed (use Cons.prems in simp)
qed simp

lemma string_at_nonzero: "string_at m p s \<Longrightarrow> 0 \<notin> set s"
  by (induction s arbitrary: p) auto

lemma string_at_bytes: "string_at m p s \<Longrightarrow> n \<le> length s \<Longrightarrow> bytes_at m p n = take n s"
proof (induction s arbitrary: p n)
  case (Cons c s)
  then show ?case by (cases n) (auto simp: bytes_at_Suc)
qed simp

lemma string_at_unique: "string_at m p s \<Longrightarrow> string_at m p t \<Longrightarrow> s = t"
proof (induction s arbitrary: p t)
  case Nil then show ?case by (cases t) auto
next
  case (Cons c s) then show ?case by (cases t) auto
qed

section \<open>Lengths, copies and comparisons\<close>

lemma find_nul_string: "string_at m p s \<Longrightarrow> find_nul p m = Some (p + length s)"
  by (induction s arbitrary: p) (simp_all add: find_nul.simps)

lemma strlen_string: "string_at m p s \<Longrightarrow> strlen p m = Some (length s)"
  by (simp add: strlen_def find_nul_string)

lemma copy_string_poke:
  "string_at m s t \<Longrightarrow> d \<le> s \<or> s + length t < d \<Longrightarrow> copy_string d s m = Some (poke d (t @ [0]) m)"
proof (induction t arbitrary: d s m)
  case Nil
  then show ?case by (simp add: copy_string.simps [of d s m] poke_Cons del: fun_upd_apply)
next
  case (Cons c t)
  then have "string_at (m(d := c)) (s + 1) t"
    by auto
  with Cons.IH [of "m(d := c)" "s + 1" "d + 1"] Cons.prems show ?case
    by (subst copy_string.simps) (auto simp: poke_Cons simp del: fun_upd_apply)
qed

lemma strcpy_copies:
  "string_at m src t \<Longrightarrow> dest \<le> src \<or> src + length t < dest \<Longrightarrow>
   strcpy dest src m = Some (poke dest (t @ [0]) m)"
  by (simp add: strcpy_def copy_string_poke)

lemma strcat_appends:
  assumes "string_at m dest u" "string_at m src t"
    "dest + length u \<le> src \<or> src + length t < dest + length u"
  shows "strcat dest src m = Some (poke (dest + length u) (t @ [0]) m)"
  using assms by (simp add: strcat_def find_nul_string copy_string_poke)

declare strlcpy_loop.simps [simp del]

lemma strlcpy_loop_string:
  assumes "string_at m s t" "d < s \<or> s + length t < d"
  shows "strlcpy_loop d s (Suc j) l m =
    (let k = min (length t) j in (d + k, s + k, l + k, poke d (take k t) m))"
  using assms
proof (induction t arbitrary: d s j l m)
  case Nil
  then show ?case by (simp add: strlcpy_loop.simps [of d s])
next
  case (Cons c t)
  show ?case
  proof (cases j)
    case 0
    then show ?thesis by (simp add: strlcpy_loop.simps [of d s])
  next
    case (Suc i)
    from Cons.prems have "string_at (m(d := c)) (s + 1) t" "d + 1 < s + 1 \<or> s + 1 + length t < d + 1"
      by auto
    with Cons.IH [of "m(d := c)" "s + 1" "d + 1" i "l + 1"] Cons.prems Suc show ?thesis
      by (subst strlcpy_loop.simps) (simp add: poke_Cons Let_def del: fun_upd_apply)
  qed
qed

lemma strlcpy_string:
  assumes t: "string_at m src t" and apart: "dest < src \<or> src + length t < dest" and n: "0 < n"
  shows "strlcpy dest src n m = Some (length t, poke dest (take (n - 1) t @ [0]) m)"
proof -
  define k where "k = min (length t) (n - 1)"
  have k: "k \<le> length t" "take k t = take (n - 1) t"
    by (auto simp: k_def min_def)
  let ?m = "poke dest (take (n - 1) t @ [0]) m"
  have "(poke dest (take k t) m)(dest + k := 0) = poke dest (take k t @ [0]) m"
    using k(1) by (simp add: poke_append poke_Cons min_absorb2 del: fun_upd_apply)
  then have m: "(poke dest (take k t) m)(dest + k := 0) = ?m"
    by (simp only: k(2))
  have "string_at ?m (src + k) (drop k t)"
    using string_at_drop [OF t k(1)] apart k by (subst string_at_poke_other) (auto simp: k_def)
  then have "strlen (src + k) ?m = Some (length t - k)"
    by (simp add: strlen_string)
  moreover have "strlcpy_loop dest src n 0 m = (dest + k, src + k, k, poke dest (take k t) m)"
    using strlcpy_loop_string [OF t apart, of "n - 1"] n by (simp add: k_def Let_def)
  ultimately show ?thesis
    using n k(1) m by (simp add: strlcpy_def Let_def del: fun_upd_apply)
qed

lemma strlcat_string:
  assumes u: "string_at m dest u" and t: "string_at m src t"
    and apart: "dest + n \<le> src \<or> src + length t < dest" and n: "length u < n"
  shows "strlcat dest src n m =
    Some (length u + length t, poke (dest + length u) (take (n - length u - 1) t @ [0]) m)"
proof -
  define k where "k = min (n - length u - 1) (length t)"
  have k: "(if length t < n - length u - 1 then length t else n - length u - 1) = k"
    "k \<le> length t" "take k t = take (n - length u - 1) t"
    by (auto simp: k_def min_def)
  have "memcpy (dest + length u) src k m = poke (dest + length u) (take k t) m"
    using apart n k(2) string_at_bytes [OF t k(2)]
    by (subst memcpy_bytes, subst copy_bytes_poke) auto
  moreover have "(poke (dest + length u) (take k t) m)(dest + length u + k := 0)
      = poke (dest + length u) (take k t @ [0]) m"
    using k(2) by (simp add: poke_append poke_Cons del: fun_upd_apply)
  moreover have "strlcat dest src n m = Some (length u + length t,
      (memcpy (dest + length u) src k m)(dest + length u + k := 0))"
    using n k(1) by (cases "length t < n - length u - 1")
      (simp_all add: strlcat_def strlen_string [OF u] strlen_string [OF t] Let_def del: fun_upd_apply)
  ultimately show ?thesis
    by (simp add: k(3))
qed

lemma sub64_0_1 [simp]: "sub64 0 (Suc 0) = 18446744073709551615"
  by (simp add: sub64_def)

lemma uint_compare [simp]:
  "uint a = uint b \<longleftrightarrow> a = b" "uint a < uint b \<longleftrightarrow> a < b" for a b :: "'a::len word"
  by (simp_all add: word_less_def word_uint_eq_iff)

lemma plus_Suc_left: "(+) (Suc p) = (\<lambda>x. Suc (p + x))"
  by auto

lemma find_upt_Suc:
  "find P [0..<Suc n] = (if P 0 then Some 0 else map_option Suc (find (\<lambda>i. P (Suc i)) [0..<n]))"
proof -
  have "find P (map Suc xs) = map_option Suc (find (\<lambda>i. P (Suc i)) xs)" for xs
    by (induction xs) auto
  then show ?thesis
    by (simp add: upt_conv_Cons map_Suc_upt [symmetric] del: upt_Suc)
qed

lemma strncmp_loop_string:
  "string_at m p s \<Longrightarrow> string_at m q t \<Longrightarrow> n < SIZE_MOD \<Longrightarrow>
   (case strncmp_loop p q n m of (a, b, left) \<Rightarrow> left = sub64 0 1 \<or> m a = m b) \<longleftrightarrow> take n s = take n t"
proof (induction p q n m arbitrary: s t rule: strncmp_loop.induct)
  case (1 p q m)
  then show ?case by simp
next
  case (2 p q n m)
  then show ?case
    by (cases s; cases t) (auto simp: sub64_0_1)
qed

lemma strncmp_string:
  assumes "string_at m p s" "string_at m q t" "n < SIZE_MOD"
  shows "strncmp p q n m = 0 \<longleftrightarrow> take n s = take n t"
  using strncmp_loop_string [OF assms] by (auto simp: strncmp_def split: prod.splits)

lemma strcmp_string:
  "string_at m p s \<Longrightarrow> string_at m q t \<Longrightarrow>
   \<exists>r. strcmp p q m = Some r \<and> (r = 0 \<longleftrightarrow> s = t) \<and> (r < 0 \<longleftrightarrow> ord_class.lexordp s t)"
proof (induction s arbitrary: p q t)
  case Nil
  then show ?case
    by (cases t) (auto simp: strcmp.simps [of p q] uint_0_iff word_less_def word_neq_0_conv)
next
  case (Cons c s)
  show ?case
  proof (cases t)
    case Nil
    with Cons.prems show ?thesis
      using word_gt_0 [of c] by (auto simp: strcmp.simps [of p q] word_less_def)
  next
    case (Cons d t')
    with Cons.prems have "m p = c" "m q = d" "c \<noteq> 0" by auto
    moreover have "c = d \<Longrightarrow> \<exists>r. strcmp (p + 1) (q + 1) m = Some r \<and> (r = 0 \<longleftrightarrow> s = t')
        \<and> (r < 0 \<longleftrightarrow> ord_class.lexordp s t')"
      using Cons.IH [of "p + 1" "q + 1" t'] Cons.prems Cons by auto
    ultimately show ?thesis
      unfolding Cons by (cases "c = d") (auto simp: strcmp.simps [of p q])
  qed
qed

lemma strchr_string:
  "string_at m p s \<Longrightarrow> strchr p c m = Some (if c = 0 then Some (p + length s)
     else map_option (\<lambda>i. p + i) (find (\<lambda>i. sint (s ! i) = c) [0..<length s]))"
proof (induction s arbitrary: p)
  case Nil
  then show ?case by (simp add: strchr.simps [of p])
next
  case (Cons b s)
  then show ?case
    by (subst strchr.simps)
      (auto simp: find_upt_Suc option.map_comp comp_def plus_Suc_left signed_eq_0_iff simp del: upt_Suc)
qed

lemma find_snoc: "find P (xs @ [y]) = (case find P xs of None \<Rightarrow> if P y then Some y else None | Some x \<Rightarrow> Some x)"
  by (induction xs) auto

lemma matches_at_string:
  "string_at m h t \<Longrightarrow> string_at m n u \<Longrightarrow> matches_at h n m = Some (prefix u t)"
proof (induction u arbitrary: h n t)
  case Nil
  then show ?case by (simp add: matches_at.simps [of h n])
next
  case (Cons c u)
  then show ?case
    by (cases t) (auto simp: matches_at.simps [of h n])
qed

text \<open>\<open>strstr\<close> finds the first place where the needle stands.\<close>

lemma strstr_loop_string:
  assumes "string_at m h t" "string_at m n u" "u \<noteq> []"
  shows "strstr_loop h n m = Some (map_option (\<lambda>i. h + i) (find (\<lambda>i. prefix u (drop i t)) [0..<length t]))"
  using assms
proof (induction t arbitrary: h)
  case Nil
  then show ?case by (simp add: strstr_loop.simps [of h])
next
  case (Cons c t)
  have "matches_at h n m = Some (prefix u (c # t))"
    by (rule matches_at_string [OF Cons.prems(1,2)])
  with Cons.IH [of "h + 1"] Cons.prems show ?case
    by (subst strstr_loop.simps) (simp add: find_upt_Suc option.map_comp comp_def plus_Suc_left signed_eq_0_iff del: upt_Suc)
qed

lemma strstr_string:
  assumes "string_at m h t" "string_at m n u"
  shows "strstr h n m = Some (map_option (\<lambda>i. h + i) (find (\<lambda>i. prefix u (drop i t)) [0..<length t + 1]))"
proof (cases u)
  case Nil
  with assms show ?thesis by (simp add: strstr_def upt_conv_Cons del: upt_Suc)
next
  case (Cons c v)
  with Cons assms strstr_loop_string [OF assms] show ?thesis
    by (simp add: strstr_def find_snoc split: option.splits)
qed

lemma strncpy_loop_copies:
  assumes "d \<le> s \<or> s + n \<le> d" "0 \<notin> set (bytes_at m s n)"
  shows "strncpy_loop d s n m = (d + n, sub64 0 1, poke d (bytes_at m s n) m)"
  using assms
proof (induction n arbitrary: d s m)
  case (Suc n)
  let ?m = "m(d := m s)"
  have eq: "bytes_at ?m (s + 1) n = bytes_at m (s + 1) n"
    using Suc.prems(1) by (intro bytes_at_cong) auto
  moreover have "strncpy_loop (d + 1) (s + 1) n ?m = (d + 1 + n, sub64 0 1, poke (d + 1) (bytes_at ?m (s + 1) n) ?m)"
  proof (rule Suc.IH)
    show "0 \<notin> set (bytes_at ?m (s + 1) n)"
      unfolding eq using Suc.prems(2) by (simp add: bytes_at_Suc)
  qed (use Suc.prems(1) in auto)
  ultimately show ?case
    using Suc.prems(2) by (simp add: bytes_at_Suc poke_Cons del: fun_upd_apply)
qed simp

section \<open>Properties\<close>

text \<open>
  C30. The word-wise path of \<open>memcpy\<close>, taken when both pointers and the length are multiples of 8,
  leaves the same memory as the byte loop, for all pointers and lengths, overlapping buffers
  included.
\<close>

theorem memcpy_is_bytewise: "memcpy dest src n m = copy_bytes dest src n m"
  by (rule memcpy_bytes)

text \<open>
  C31. A string put together with \<open>strlcpy\<close> and \<open>strlcat\<close> in a buffer of \<open>n\<close> bytes is the
  concatenation cut after \<open>n - 1\<close> characters, NUL included it stays inside the buffer, and the
  value of \<open>strlcat\<close> tells whether it was cut.
\<close>

theorem strlcpy_strlcat_fit:
  assumes "string_at m p s" "string_at m q t" "0 < n"
    and "d + n \<le> p \<or> p + length s < d" "d + n \<le> q \<or> q + length t < d"
  shows "\<exists>m1 m2. strlcpy d p n m = Some (length s, m1)
    \<and> strlcat d q n m1 = Some (min (length s) (n - 1) + length t, m2)
    \<and> string_at m2 d (take (n - 1) (s @ t))
    \<and> (\<forall>a. a < d \<or> d + n \<le> a \<longrightarrow> m2 a = m a)"
proof -
  define u where "u = take (n - 1) s"
  define v where "v = take (n - length u - 1) t"
  have len: "length u < n" "length u + length v < n" and uv: "take (n - 1) (s @ t) = u @ v"
    using assms(3) by (auto simp: u_def v_def min_def)
  have nz: "0 \<notin> set u" "0 \<notin> set v"
    using assms(1,2) by (auto simp: u_def v_def dest!: string_at_nonzero in_set_takeD)
  define m1 where "m1 = poke d (u @ [0]) m"
  define m2 where "m2 = poke (d + length u) (v @ [0]) m1"
  have "strlcpy d p n m = Some (length s, m1)"
    using strlcpy_string [OF assms(1), of d n] assms(3,4) by (auto simp: m1_def u_def)
  moreover have "string_at m1 d u" "string_at m1 q t"
    using assms(2,5) len nz by (auto simp: m1_def string_at_poke string_at_poke_other)
  then have "strlcat d q n m1 = Some (length u + length t, m2)"
    using strlcat_string [of m1 d u q t n] assms(5) len by (simp add: m2_def v_def)
  moreover have "poke d (u @ v @ [0]) m = m2"
    by (auto simp: m1_def m2_def poke_def nth_append fun_eq_iff)
  then have "string_at m2 d (u @ v)"
    using string_at_poke [of "u @ v" d m] nz by simp
  moreover have "\<forall>a. a < d \<or> d + n \<le> a \<longrightarrow> m2 a = m a"
    using len by (auto simp: m1_def m2_def poke_def)
  ultimately show ?thesis
    unfolding uv by (auto simp: u_def min_def)
qed

theorem strlcpy_strlcat_fit_witness:
  "\<exists>m1 m2. strlcpy 100 1 6 (\<lambda>a. [0, 97, 98, 99, 0, 120, 121, 122, 0] ! min a 8) = Some (3, m1)
    \<and> strlcat 100 5 6 m1 = Some (6, m2) \<and> string_at m2 100 [97, 98, 99, 120, 121]
    \<and> (\<forall>a. a < 100 \<or> 106 \<le> a \<longrightarrow> m2 a = [0, 97, 98, 99, 0, 120, 121, 122, 0] ! min a 8)"
  using strlcpy_strlcat_fit [of "\<lambda>a. [0, 97, 98, 99, 0, 120, 121, 122, 0] ! min a 8" 1
      "[97, 98, 99]" 5 "[120, 121, 122]" 6 100]
  by (simp add: Suc_1 take_Cons' del: One_nat_def flip: One_nat_def)

text \<open>
  C32. \<open>strncpy\<close> does not stop at the end of the buffer when the source is not shorter than it:
  the loop counter has wrapped to \<open>2 ^ 64 - 1\<close>, and so many bytes after the buffer are overwritten
  with NUL.
\<close>

theorem strncpy_overruns:
  assumes "d \<le> s \<or> s + n \<le> d" "0 \<notin> set (bytes_at m s n)"
    and "d + n \<le> a" "a < d + n + (SIZE_MOD - 1)"
  shows "strncpy d s n m a = 0"
  using assms(3,4) by (simp add: strncpy_def strncpy_loop_copies [OF assms(1,2)] fill_bytes_poke)
    (simp add: poke_def)

theorem strncpy_overruns_witness:
  "strncpy 64 8 4 (\<lambda>a. 65 + of_nat a) 1000000 = 0"
  using strncpy_overruns [of 64 8 4 "\<lambda>a. 65 + of_nat a" 1000000]
  by (simp add: bytes_at_def upt_rec)

end
