(* ===== verification/Interfaces.thy ===== *)
theory Interfaces
  imports Prelude
begin

text \<open>
  The interfaces on which components rely or which several components share, as locales:
  a queue of bounded capacity (the CAN transmit ring) and its extension with a consumer (the
  receive buffer of a socket), an ordered queue of linked nodes (the ready queue and the
  deadline list), a table read and written by ranges (the Modbus tables), a lookup table
  (the vocabulary of the tokenizer) and locks, exclusive or shared by readers. Each is
  interpreted in the theory of the component that provides it.
\<close>

section \<open>Queues of bounded capacity\<close>

text \<open>Pushing a list of entries, stopping at the first that does not fit.\<close>

fun push_list :: "('x \<Rightarrow> 's \<Rightarrow> 's option) \<Rightarrow> 'x list \<Rightarrow> 's \<Rightarrow> 's option" where
  "push_list push [] s = Some s"
| "push_list push (x # xs) s = (case push x s of None \<Rightarrow> None | Some s' \<Rightarrow> push_list push xs s')"

locale bounded_queue =
  fixes inv :: "'s \<Rightarrow> bool"
    and contents :: "'s \<Rightarrow> 'a list"
    and cap :: nat
    and valid :: "'x \<Rightarrow> bool"
    and items :: "'x \<Rightarrow> 'a list"
    and push :: "'x \<Rightarrow> 's \<Rightarrow> 's option"
  assumes push_fits: "inv s \<Longrightarrow> valid x \<Longrightarrow> length (contents s) + length (items x) \<le> cap \<Longrightarrow>
      \<exists>s'. push x s = Some s' \<and> inv s' \<and> contents s' = contents s @ items x"
    and push_full: "inv s \<Longrightarrow> valid x \<Longrightarrow> cap < length (contents s) + length (items x) \<Longrightarrow>
      push x s = None"
    and within_cap: "inv s \<Longrightarrow> length (contents s) \<le> cap"
begin

lemma push_Some_contents:
  assumes "inv s" "valid x" "push x s = Some s'"
  shows "inv s' \<and> contents s' = contents s @ items x"
  using push_fits [OF assms(1,2)] push_full [OF assms(1,2)] assms(3)
  by (cases "length (contents s) + length (items x) \<le> cap") auto

lemma push_list_fits:
  assumes "inv s" "\<And>x. x \<in> set xs \<Longrightarrow> valid x"
    and "length (contents s) + length (concat (map items xs)) \<le> cap"
  shows "\<exists>s'. push_list push xs s = Some s' \<and> inv s' \<and>
           contents s' = contents s @ concat (map items xs)"
  using assms
proof (induction xs arbitrary: s)
  case Nil
  then show ?case by simp
next
  case (Cons x xs)
  then obtain s1 where s1: "push x s = Some s1" "inv s1" "contents s1 = contents s @ items x"
    using push_fits [of s x] by auto
  then show ?case
    using Cons.IH [of s1] Cons.prems by auto
qed

lemma push_list_full:
  assumes "inv s" "\<And>x. x \<in> set xs \<Longrightarrow> valid x"
    and "cap < length (contents s) + length (concat (map items xs))"
  shows "push_list push xs s = None"
  using assms
proof (induction xs arbitrary: s)
  case Nil
  then show ?case using within_cap [of s] by simp
next
  case (Cons x xs)
  show ?case
  proof (cases "push x s")
    case None
    then show ?thesis by simp
  next
    case (Some s1)
    with Cons.prems push_Some_contents [of s x s1] show ?thesis
      by (simp add: Cons.IH)
  qed
qed

end

section \<open>Queues with a consumer\<close>

text \<open>\<open>pop n s\<close> takes at most \<open>n\<close> elements from the front.\<close>

locale stream_queue = bounded_queue +
  fixes pop :: "nat \<Rightarrow> 's \<Rightarrow> 'a list \<times> 's"
  assumes pop_takes: "inv s \<Longrightarrow> fst (pop n s) = take n (contents s)"
    and pop_drops: "inv s \<Longrightarrow> contents (snd (pop n s)) = drop n (contents s)"
    and pop_inv: "inv s \<Longrightarrow> inv (snd (pop n s))"
begin

lemma push_then_pop:
  assumes "inv s" "contents s = []" "valid x" "length (items x) \<le> cap"
  shows "\<exists>s'. push x s = Some s' \<and> fst (pop (length (items x)) s') = items x \<and>
           contents (snd (pop (length (items x)) s')) = []"
  using push_fits [of s x] assms by (auto simp: pop_takes pop_drops)

lemma pop_split:
  assumes "inv s"
  shows "fst (pop n s) @ contents (snd (pop n s)) = contents s"
  using assms by (simp add: pop_takes pop_drops)

lemma pop_twice:
  assumes "inv s"
  shows "fst (pop m s) @ fst (pop n (snd (pop m s))) = take (m + n) (contents s)"
  using assms pop_inv [OF assms] by (simp add: pop_takes pop_drops take_add)

end

section \<open>Ordered queues of linked nodes\<close>

text \<open>Insertion behind all entries whose key is not larger: FIFO among equal keys.\<close>

definition ordered_insert :: "('a \<Rightarrow> 'k::linorder) \<Rightarrow> 'a \<Rightarrow> 'a list \<Rightarrow> 'a list" where
  "ordered_insert k x xs = takeWhile (\<lambda>y. k y \<le> k x) xs @ x # dropWhile (\<lambda>y. k y \<le> k x) xs"

lemma set_ordered_insert [simp]: "set (ordered_insert k x xs) = insert x (set xs)"
proof -
  have "set (takeWhile P xs) \<union> set (dropWhile P xs) = set xs" for P
    by (metis set_append takeWhile_dropWhile_id)
  then show ?thesis by (auto simp: ordered_insert_def)
qed

lemma distinct_ordered_insert [simp]:
  "distinct (ordered_insert k x xs) \<longleftrightarrow> x \<notin> set xs \<and> distinct xs"
proof -
  have "distinct (ordered_insert k x xs) \<longleftrightarrow> distinct (x # takeWhile P xs @ dropWhile P xs)"
    if "P = (\<lambda>y. k y \<le> k x)" for P
    using that by (auto simp: ordered_insert_def simp del: takeWhile_dropWhile_id)
  then show ?thesis by simp
qed

lemma ordered_insert_cases:
  "ordered_insert k x (y # ys) =
     (if k x < k y then x # y # ys else y # ordered_insert k x ys)"
  by (auto simp: ordered_insert_def)

lemma sorted_ordered_insert:
  "sorted (map k xs) \<Longrightarrow> sorted (map k (ordered_insert k x xs))"
  by (induction xs) (auto simp: ordered_insert_cases ordered_insert_def [of k x "[]"])

text \<open>Among entries of one key, insertion appends.\<close>

lemma ordered_insert_fifo:
  assumes "sorted (map k xs)"
  shows "filter (\<lambda>y. k y = v) (ordered_insert k x xs) =
           filter (\<lambda>y. k y = v) xs @ (if k x = v then [x] else [])"
  using assms
proof (induction xs)
  case Nil
  then show ?case by (simp add: ordered_insert_def)
next
  case (Cons y ys)
  have "filter (\<lambda>z. k z = k x) (y # ys) = []" if "k x < k y"
    using Cons.prems that by (force simp: filter_empty_conv)
  with Cons show ?case
    by (auto simp: ordered_insert_cases)
qed

locale ordered_queue =
  fixes front :: "'s \<Rightarrow> nat option"
    and link :: "'s \<Rightarrow> nat \<Rightarrow> nat option"
    and key :: "'s \<Rightarrow> nat \<Rightarrow> 'k::linorder"
    and insertable :: "'s \<Rightarrow> nat \<Rightarrow> bool"
    and put :: "nat option \<Rightarrow> 's \<Rightarrow> 's option"
    and del :: "nat option \<Rightarrow> 's \<Rightarrow> 's option"
  assumes put_refines: "chain (link s) (front s) xs \<Longrightarrow> i \<notin> set xs \<Longrightarrow> insertable s i \<Longrightarrow>
      \<exists>s'. put (Some i) s = Some s' \<and> key s' = key s \<and>
           chain (link s') (front s') (ordered_insert (key s) i xs)"
    and del_refines: "chain (link s) (front s) xs \<Longrightarrow>
      \<exists>s'. del (Some i) s = Some s' \<and> key s' = key s \<and>
           chain (link s') (front s') (remove1 i xs)"
begin

lemma put_sorted:
  assumes "chain (link s) (front s) xs" "i \<notin> set xs" "insertable s i" "sorted (map (key s) xs)"
  shows "\<exists>s' ys. put (Some i) s = Some s' \<and> chain (link s') (front s') ys \<and>
           sorted (map (key s') ys) \<and> set ys = insert i (set xs) \<and>
           (\<forall>v. filter (\<lambda>j. key s j = v) ys =
                 filter (\<lambda>j. key s j = v) xs @ (if key s i = v then [i] else []))"
  using put_refines [OF assms(1-3)] sorted_ordered_insert [OF assms(4), of i]
    ordered_insert_fifo [OF assms(4), of _ i]
  by (metis set_ordered_insert)

lemma del_sorted:
  assumes "chain (link s) (front s) xs" "sorted (map (key s) xs)"
  shows "\<exists>s'. del (Some i) s = Some s' \<and> chain (link s') (front s') (remove1 i xs) \<and>
           sorted (map (key s') (remove1 i xs))"
  using del_refines [OF assms(1), of i] sorted_map_remove1 [OF assms(2), of i] by auto

lemma front_minimal:
  assumes "chain (link s) (front s) xs" "sorted (map (key s) xs)" "front s = Some h" "j \<in> set xs"
  shows "key s h \<le> key s j"
  using assms by (cases xs) auto

lemma put_then_del:
  assumes "chain (link s) (front s) xs" "i \<notin> set xs" "insertable s i"
  shows "\<exists>s1 s2. put (Some i) s = Some s1 \<and> del (Some i) s1 = Some s2 \<and>
           chain (link s2) (front s2) xs"
proof -
  obtain s1 where s1: "put (Some i) s = Some s1"
    "chain (link s1) (front s1) (ordered_insert (key s) i xs)"
    using put_refines [OF assms] by blast
  have "remove1 i (ordered_insert (key s) i xs) = xs"
    using assms(2) by (auto simp: ordered_insert_def remove1_append dest: set_takeWhileD)
  with del_refines [OF s1(2), of i] s1(1) show ?thesis by auto
qed

end

section \<open>Tables read and written by ranges\<close>

text \<open>
  The abstract array: writing a block at an offset, and a sequence of such writes. \<open>norm\<close> is
  what a cell keeps of a value.
\<close>

definition overlay :: "nat \<Rightarrow> 'v list \<Rightarrow> 'v list \<Rightarrow> 'v list" where
  "overlay a vs l = take a l @ vs @ drop (a + length vs) l"

fun overlay_all :: "('v \<Rightarrow> 'v) \<Rightarrow> (nat \<times> 'v list) list \<Rightarrow> 'v list \<Rightarrow> 'v list" where
  "overlay_all norm [] l = l"
| "overlay_all norm ((a, vs) # ws) l = overlay_all norm ws (overlay a (map norm vs) l)"

fun put_all :: "(nat \<Rightarrow> 'v list \<Rightarrow> 's \<Rightarrow> 's option) \<Rightarrow> (nat \<times> 'v list) list \<Rightarrow> 's \<Rightarrow> 's option" where
  "put_all put [] s = Some s"
| "put_all put ((a, vs) # ws) s = (case put a vs s of None \<Rightarrow> None | Some s' \<Rightarrow> put_all put ws s')"

lemma length_overlay [simp]: "a + length vs \<le> length l \<Longrightarrow> length (overlay a vs l) = length l"
  by (simp add: overlay_def)

lemma take_drop_overlay:
  "a + length vs \<le> length l \<Longrightarrow> take (length vs) (drop a (overlay a vs l)) = vs"
  by (simp add: overlay_def)

lemma overlay_same: "a + length vs \<le> length l \<Longrightarrow> length vs = length ws \<Longrightarrow>
    overlay a ws (overlay a vs l) = overlay a ws l"
  by (simp add: overlay_def)

locale data_table =
  fixes inv :: "'s \<Rightarrow> bool"
    and view :: "'s \<Rightarrow> 'v list"
    and put :: "nat \<Rightarrow> 'v list \<Rightarrow> 's \<Rightarrow> 's option"
    and get :: "nat \<Rightarrow> nat \<Rightarrow> 's \<Rightarrow> 'v list option"
    and norm :: "'v \<Rightarrow> 'v"
    and wmax :: nat
    and rmax :: nat
  assumes put_ok: "inv s \<Longrightarrow> vs \<noteq> [] \<Longrightarrow> length vs \<le> wmax \<Longrightarrow> a + length vs \<le> length (view s) \<Longrightarrow>
      \<exists>s'. put a vs s = Some s' \<and> inv s' \<and> view s' = overlay a (map norm vs) (view s)"
    and get_ok: "inv s \<Longrightarrow> 0 < n \<Longrightarrow> n \<le> rmax \<Longrightarrow> a + n \<le> length (view s) \<Longrightarrow>
      get a n s = Some (map norm (take n (drop a (view s))))"
    and norm_idem: "norm (norm v) = norm v"
    and write_readable: "wmax \<le> rmax"
begin

definition fits :: "nat \<Rightarrow> nat \<times> 'v list \<Rightarrow> bool" where
  "fits k w \<longleftrightarrow> snd w \<noteq> [] \<and> length (snd w) \<le> wmax \<and> fst w + length (snd w) \<le> k"

lemma put_all_ok:
  assumes "inv s" "\<forall>w\<in>set ws. fits (length (view s)) w"
  shows "\<exists>s'. put_all put ws s = Some s' \<and> inv s' \<and> view s' = overlay_all norm ws (view s)"
  using assms
proof (induction ws arbitrary: s)
  case Nil
  then show ?case by simp
next
  case (Cons w ws)
  obtain a vs where w: "w = (a, vs)" by (cases w)
  with Cons.prems have f: "vs \<noteq> []" "length vs \<le> wmax" "a + length vs \<le> length (view s)"
    by (simp_all add: fits_def)
  obtain s1 where s1: "put a vs s = Some s1" "inv s1" "view s1 = overlay a (map norm vs) (view s)"
    using put_ok [OF Cons.prems(1) f] by blast
  have "length (view s1) = length (view s)" using s1(3) f(3) by simp
  then show ?case using Cons.IH [OF s1(2)] Cons.prems(2) s1(1,3) by (simp add: w)
qed

lemma length_overlay_all:
  assumes "\<forall>w\<in>set ws. fits (length l) w"
  shows "length (overlay_all norm ws l) = length l"
  using assms by (induction norm ws l rule: overlay_all.induct) (simp_all add: fits_def)

lemma refines_array:
  assumes "inv s" "\<forall>w\<in>set ws. fits (length (view s)) w"
  shows "\<exists>s'. put_all put ws s = Some s' \<and> (\<forall>a n. 0 < n \<and> n \<le> rmax \<and> a + n \<le> length (view s) \<longrightarrow>
           get a n s' = Some (map norm (take n (drop a (overlay_all norm ws (view s))))))"
  using put_all_ok [OF assms] get_ok length_overlay_all [OF assms(2)] by metis

lemma get_put:
  assumes "inv s" "fits (length (view s)) (a, vs)" "put a vs s = Some s'"
  shows "get a (length vs) s' = Some (map norm vs)"
proof -
  have f: "vs \<noteq> []" "length vs \<le> wmax" "a + length vs \<le> length (view s)"
    using assms(2) by (simp_all add: fits_def)
  then have s': "inv s'" "view s' = overlay a (map norm vs) (view s)"
    using put_ok [OF assms(1) f] assms(3) by auto
  then have "get a (length vs) s' = Some (map norm (take (length vs) (drop a (view s'))))"
    using f write_readable by (intro get_ok) auto
  then show ?thesis
    using f(3) take_drop_overlay [of a "map norm vs" "view s"] s'(2) by (simp add: norm_idem)
qed

end

section \<open>Lookup tables\<close>

text \<open>
  A table of keys and values: a lookup answers what the last insertion of the key stored, and an
  insertion that is refused (\<open>None\<close>) is no insertion. Lookups may fail to return in a state that is
  not well-formed, so their result is optional.
\<close>

locale lookup_table =
  fixes inv :: "'s \<Rightarrow> bool"
    and view :: "'s \<Rightarrow> 'k \<Rightarrow> 'v option"
    and val :: "'x \<Rightarrow> 'v"
    and get :: "'k \<Rightarrow> 's \<Rightarrow> 'v option option"
    and put :: "'k \<Rightarrow> 'x \<Rightarrow> 's \<Rightarrow> 's option"
  assumes get_view: "inv s \<Longrightarrow> get k s = Some (view s k)"
    and put_inv: "inv s \<Longrightarrow> put k x s = Some s' \<Longrightarrow> inv s'"
    and put_view: "inv s \<Longrightarrow> put k x s = Some s' \<Longrightarrow> view s' = (view s)(k \<mapsto> val x)"
begin

text \<open>Inserting pairs in order; a refused pair is skipped.\<close>

fun puts :: "('k \<times> 'x) list \<Rightarrow> 's \<Rightarrow> 's" where
  "puts [] s = s"
| "puts ((k, x) # kxs) s = puts kxs (case put k x s of None \<Rightarrow> s | Some s' \<Rightarrow> s')"

fun stored :: "('k \<times> 'x) list \<Rightarrow> 's \<Rightarrow> ('k \<times> 'v) list" where
  "stored [] s = []"
| "stored ((k, x) # kxs) s =
     (case put k x s of None \<Rightarrow> stored kxs s | Some s' \<Rightarrow> (k, val x) # stored kxs s')"

lemma puts_append: "puts (kxs @ kys) s = puts kys (puts kxs s)"
  by (induction kxs s rule: puts.induct) auto

lemma puts_inv: "inv s \<Longrightarrow> inv (puts kxs s)"
  by (induction kxs s rule: puts.induct) (auto split: option.split dest: put_inv)

lemma puts_view: "inv s \<Longrightarrow> view (puts kxs s) = view s ++ map_of (rev (stored kxs s))"
proof (induction kxs s rule: puts.induct)
  case (2 k x kxs s)
  then show ?case
    by (cases "put k x s") (simp_all add: put_inv put_view [OF 2(2)] del: fun_upd_apply)
qed simp

text \<open>After a sequence of insertions the last one of a key counts.\<close>

lemma get_after_puts:
  assumes "inv s" "view s = Map.empty"
  shows "get k (puts kxs s) = Some (map_of (rev (stored kxs s)) k)"
  using assms by (simp add: get_view puts_inv puts_view)

end

section \<open>Locks\<close>

text \<open>Runs of a system of threads; \<open>step t\<close> is a step of thread \<open>t\<close>.\<close>

inductive runs :: "(nat \<Rightarrow> 's \<Rightarrow> 's \<Rightarrow> bool) \<Rightarrow> 's \<Rightarrow> 's \<Rightarrow> bool" for step where
  runs_refl: "runs step s s"
| runs_step: "runs step s s1 \<Longrightarrow> step t s1 s2 \<Longrightarrow> runs step s s2"

lemma runs_mono:
  assumes "runs step s s'" "\<And>t a b. step t a b \<Longrightarrow> f a \<le> (f b :: nat)"
  shows "f s \<le> f s'"
  using assms(1) by induction (auto intro: order_trans assms(2))

text \<open>
  A client of a lock: whoever holds it may read the shared counter and later write back one more
  than it read, and it lets the lock go only when it has written.
\<close>

record 's guarded =
  g_lock :: 's
  g_count :: nat
  g_local :: "nat \<Rightarrow> nat option"
  g_done :: nat

inductive guarded_step ::
    "(nat \<Rightarrow> 's \<Rightarrow> 's \<Rightarrow> bool) \<Rightarrow> ('s \<Rightarrow> nat \<Rightarrow> bool) \<Rightarrow> nat \<Rightarrow> 's guarded \<Rightarrow> 's guarded \<Rightarrow> bool"
  for step holds where
  g_lock_step: "step t (g_lock g) l \<Longrightarrow> g_local g t = None \<Longrightarrow> guarded_step step holds t g (g\<lparr>g_lock := l\<rparr>)"
| g_read: "holds (g_lock g) t \<Longrightarrow> g_local g t = None \<Longrightarrow>
    guarded_step step holds t g (g\<lparr>g_local := (g_local g)(t \<mapsto> g_count g)\<rparr>)"
| g_write: "g_local g t = Some v \<Longrightarrow>
    guarded_step step holds t g (g\<lparr>g_count := v + 1, g_local := (g_local g)(t := None), g_done := g_done g + 1\<rparr>)"

locale lock_protocol =
  fixes start :: "'s \<Rightarrow> bool"
    and step :: "nat \<Rightarrow> 's \<Rightarrow> 's \<Rightarrow> bool"
    and inv :: "'s \<Rightarrow> bool"
    and holds :: "'s \<Rightarrow> nat \<Rightarrow> bool"
  assumes start_inv: "start s \<Longrightarrow> inv s"
    and step_inv: "inv s \<Longrightarrow> step t s s' \<Longrightarrow> inv s'"
    and one_holder: "inv s \<Longrightarrow> holds s t \<Longrightarrow> holds s u \<Longrightarrow> t = u"
    and step_other: "step t s s' \<Longrightarrow> u \<noteq> t \<Longrightarrow> holds s' u = holds s u"
begin

lemma runs_inv: "runs step s s' \<Longrightarrow> start s \<Longrightarrow> inv s'"
  by (induction rule: runs.induct) (auto intro: start_inv step_inv)

lemma exclusion: "runs step s s' \<Longrightarrow> start s \<Longrightarrow> holds s' t \<Longrightarrow> holds s' u \<Longrightarrow> t = u"
  using runs_inv one_holder by blast

definition guarded_inv :: "'s guarded \<Rightarrow> bool" where
  "guarded_inv g \<longleftrightarrow> inv (g_lock g) \<and> g_count g = g_done g
     \<and> (\<forall>t v. g_local g t = Some v \<longrightarrow> holds (g_lock g) t \<and> v = g_count g)"

lemma guarded_step_inv:
  assumes "guarded_step step holds t g g'" "guarded_inv g"
  shows "guarded_inv g'"
  using assms
proof cases
  case (g_lock_step l)
  moreover have "holds l u" if "g_local g u = Some v" for u v
    using that g_lock_step step_other [of t "g_lock g" l u] assms(2)
    by (cases "u = t") (auto simp: guarded_inv_def)
  ultimately show ?thesis using assms(2) step_inv by (auto simp: guarded_inv_def)
next
  case g_read
  then show ?thesis using assms(2) by (auto simp: guarded_inv_def)
next
  case (g_write v)
  moreover have "g_local g u = None" if "u \<noteq> t" for u
    using that g_write assms(2) one_holder by (cases "g_local g u") (auto simp: guarded_inv_def)
  ultimately show ?thesis using assms(2) by (auto simp: guarded_inv_def)
qed

lemma no_lost_update:
  assumes "runs (guarded_step step holds) g g'" "start (g_lock g)" "g_count g = 0" "g_done g = 0" "g_local g = Map.empty"
  shows "g_count g' = g_done g'"
proof -
  have "guarded_inv g" using assms(2-5) start_inv by (simp add: guarded_inv_def)
  with assms(1) have "guarded_inv g'" by induction (auto intro: guarded_step_inv)
  then show ?thesis by (simp add: guarded_inv_def)
qed

end

text \<open>A lock that readers may share.\<close>

locale shared_lock_protocol = lock_protocol start step inv holds
  for start :: "'s \<Rightarrow> bool" and step :: "nat \<Rightarrow> 's \<Rightarrow> 's \<Rightarrow> bool"
    and inv :: "'s \<Rightarrow> bool" and holds :: "'s \<Rightarrow> nat \<Rightarrow> bool" +
  fixes reads :: "'s \<Rightarrow> nat \<Rightarrow> bool"
  assumes no_reader: "inv s \<Longrightarrow> holds s t \<Longrightarrow> \<not> reads s u"
begin

lemma readers_alone: "runs step s s' \<Longrightarrow> start s \<Longrightarrow> reads s' u \<Longrightarrow> \<not> holds s' t"
  using runs_inv no_reader by blast

end

end
