(* ===== verification/Can.thy ===== *)
theory Can
  imports Interfaces
begin

text \<open>
  The CAN bus driver \<^verbatim>\<open>src/kernel/drivers/can/can.c\<close>: frame validation, the acceptance
  filters, the transmit and receive rings and the controller state. The global \<open>g_can\<close> is the
  record \<open>can_dev\<close>, passed explicitly; console output is left out. The PCI subsystem appears
  in \<open>can_init\<close> as the two answers the driver gets from it.
\<close>

section \<open>Data\<close>

abbreviation CAN_MAX_DLC :: u8 where "CAN_MAX_DLC \<equiv> 8"
abbreviation CAN_MAX_STD_ID :: u32 where "CAN_MAX_STD_ID \<equiv> 0x7FF"
abbreviation CAN_MAX_EXT_ID :: u32 where "CAN_MAX_EXT_ID \<equiv> 0x1FFFFFFF"
abbreviation CAN_FLAG_EFF :: u32 where "CAN_FLAG_EFF \<equiv> 0x80000000"
abbreviation CAN_FLAG_RTR :: u32 where "CAN_FLAG_RTR \<equiv> 0x40000000"
abbreviation CAN_FLAG_ERR :: u32 where "CAN_FLAG_ERR \<equiv> 0x20000000"
abbreviation CAN_RX_QUEUE_SIZE :: nat where "CAN_RX_QUEUE_SIZE \<equiv> 64"
abbreviation CAN_TX_QUEUE_SIZE :: nat where "CAN_TX_QUEUE_SIZE \<equiv> 32"
abbreviation CAN_MAX_FILTERS :: nat where "CAN_MAX_FILTERS \<equiv> 16"

datatype can_rc =
    CAN_OK | CAN_ERR_NOT_INIT | CAN_ERR_INVALID | CAN_ERR_NO_DEVICE | CAN_ERR_FULL | CAN_ERR_EMPTY

datatype can_state =
    CAN_STATE_STOPPED | CAN_STATE_RUNNING | CAN_STATE_ERROR_ACTIVE | CAN_STATE_ERROR_PASSIVE
  | CAN_STATE_BUS_OFF

text \<open>The flag byte is 8 bits wide while the flag masks have their bits above bit 28.\<close>

record can_frame =
  cf_id :: u32
  cf_dlc :: u8
  cf_flags :: u8
  cf_reserved :: "u8 list"
  cf_data :: "u8 list"

record can_filter =
  flt_id :: u32
  flt_mask :: u32
  flt_extended :: bool
  flt_enabled :: bool

record can_config =
  baud_rate :: u32
  loopback :: bool
  listen_only :: bool
  auto_retransmit :: bool

record can_stats =
  rx_frames :: u64
  tx_frames :: u64
  rx_bytes :: u64
  tx_bytes :: u64
  rx_errors :: u64
  tx_errors :: u64
  bus_off :: u64
  error_warning :: u64
  rx_overrun :: u64
  tx_dropped :: u64

record can_dev =
  config :: can_config
  state :: can_state
  stats :: can_stats
  rx_queue :: "can_frame list"
  tx_queue :: "can_frame list"
  rx_head :: nat
  rx_tail :: nat
  tx_head :: nat
  tx_tail :: nat
  filters :: "can_filter list"
  filter_count :: u8
  initialized :: bool

definition zero_frame :: can_frame where
  "zero_frame = \<lparr>cf_id = 0, cf_dlc = 0, cf_flags = 0, cf_reserved = replicate 2 0,
     cf_data = replicate 8 0\<rparr>"

definition zero_can_stats :: can_stats where
  "zero_can_stats = \<lparr>rx_frames = 0, tx_frames = 0, rx_bytes = 0, tx_bytes = 0, rx_errors = 0,
     tx_errors = 0, bus_off = 0, error_warning = 0, rx_overrun = 0, tx_dropped = 0\<rparr>"

definition zero_can_dev :: can_dev where
  "zero_can_dev = \<lparr>config = \<lparr>baud_rate = 0, loopback = False, listen_only = False,
       auto_retransmit = False\<rparr>,
     state = CAN_STATE_STOPPED, stats = zero_can_stats,
     rx_queue = replicate CAN_RX_QUEUE_SIZE zero_frame,
     tx_queue = replicate CAN_TX_QUEUE_SIZE zero_frame,
     rx_head = 0, rx_tail = 0, tx_head = 0, tx_tail = 0,
     filters = replicate CAN_MAX_FILTERS
       \<lparr>flt_id = 0, flt_mask = 0, flt_extended = False, flt_enabled = False\<rparr>,
     filter_count = 0, initialized = False\<rparr>"

section \<open>Frames and filters\<close>

text \<open>\<open>frame->flags & MASK\<close>: the byte is promoted to 32 bits before the mask is applied.\<close>

definition flag_set :: "can_frame \<Rightarrow> u32 \<Rightarrow> bool" where
  "flag_set f m \<longleftrightarrow> (ucast (cf_flags f) AND m) \<noteq> 0"

definition can_validate_frame :: "can_frame option \<Rightarrow> can_rc" where
  "can_validate_frame frame =
     (case frame of
        None \<Rightarrow> CAN_ERR_INVALID
      | Some f \<Rightarrow>
          if CAN_MAX_DLC < cf_dlc f then CAN_ERR_INVALID
          else if flag_set f CAN_FLAG_EFF
          then (if CAN_MAX_EXT_ID < cf_id f then CAN_ERR_INVALID else CAN_OK)
          else (if CAN_MAX_STD_ID < cf_id f then CAN_ERR_INVALID else CAN_OK))"

definition can_frame_matches_filter :: "can_frame \<Rightarrow> can_filter \<Rightarrow> bool" where
  "can_frame_matches_filter f flt =
     (if \<not> flt_enabled flt then True
      else if flag_set f CAN_FLAG_EFF \<noteq> flt_extended flt then False
      else (cf_id f AND flt_mask flt) = (flt_id flt AND flt_mask flt))"

definition can_passes_filters :: "can_dev \<Rightarrow> can_frame \<Rightarrow> bool" where
  "can_passes_filters g f =
     (if filter_count g = 0 then True
      else list_ex (\<lambda>i. can_frame_matches_filter f (filters g ! i)) [0..<CAN_MAX_FILTERS])"

definition can_make_std_frame ::
  "u32 \<Rightarrow> (nat \<Rightarrow> u8) option \<Rightarrow> u8 \<Rightarrow> can_frame option \<Rightarrow> can_rc \<times> can_frame option" where
  "can_make_std_frame ident data dlc frame =
     (case frame of
        None \<Rightarrow> (CAN_ERR_INVALID, None)
      | Some f \<Rightarrow>
          if CAN_MAX_DLC < dlc \<or> CAN_MAX_STD_ID < ident then (CAN_ERR_INVALID, Some f)
          else (CAN_OK, Some (zero_frame\<lparr>cf_id := ident AND 0x7FF, cf_dlc := dlc, cf_flags := 0,
            cf_data := (case data of
                None \<Rightarrow> cf_data zero_frame
              | Some d \<Rightarrow> map d [0..<unat dlc] @ drop (unat dlc) (cf_data zero_frame))\<rparr>)))"

text \<open>The assignment \<open>frame->flags = CAN_FLAG_EFF\<close> converts the mask to 8 bits.\<close>

definition can_make_ext_frame ::
  "u32 \<Rightarrow> (nat \<Rightarrow> u8) option \<Rightarrow> u8 \<Rightarrow> can_frame option \<Rightarrow> can_rc \<times> can_frame option" where
  "can_make_ext_frame ident data dlc frame =
     (case frame of
        None \<Rightarrow> (CAN_ERR_INVALID, None)
      | Some f \<Rightarrow>
          if CAN_MAX_DLC < dlc \<or> CAN_MAX_EXT_ID < ident then (CAN_ERR_INVALID, Some f)
          else (CAN_OK, Some (zero_frame\<lparr>cf_id := ident AND 0x1FFFFFFF, cf_dlc := dlc,
            cf_flags := ucast CAN_FLAG_EFF,
            cf_data := (case data of
                None \<Rightarrow> cf_data zero_frame
              | Some d \<Rightarrow> map d [0..<unat dlc] @ drop (unat dlc) (cf_data zero_frame))\<rparr>)))"

definition can_is_extended :: "can_frame option \<Rightarrow> bool" where
  "can_is_extended frame = (case frame of None \<Rightarrow> False | Some f \<Rightarrow> flag_set f CAN_FLAG_EFF)"

definition can_is_rtr :: "can_frame option \<Rightarrow> bool" where
  "can_is_rtr frame = (case frame of None \<Rightarrow> False | Some f \<Rightarrow> flag_set f CAN_FLAG_RTR)"

definition can_is_error :: "can_frame option \<Rightarrow> bool" where
  "can_is_error frame = (case frame of None \<Rightarrow> False | Some f \<Rightarrow> flag_set f CAN_FLAG_ERR)"

section \<open>Initialisation and configuration\<close>

definition can_init :: "bool \<Rightarrow> bool \<Rightarrow> can_config option \<Rightarrow> can_rc \<times> can_dev" where
  "can_init pci_ready pci_registers cfg =
     (let g = zero_can_dev\<lparr>config := (case cfg of
                  Some c \<Rightarrow> c
                | None \<Rightarrow> \<lparr>baud_rate = 500000, loopback = False, listen_only = False,
                           auto_retransmit = True\<rparr>),
                rx_head := 0, rx_tail := 0, tx_head := 0, tx_tail := 0, filter_count := 0,
                filters := map (\<lambda>f. f\<lparr>flt_enabled := False\<rparr>) (filters zero_can_dev),
                state := CAN_STATE_STOPPED\<rparr>
      in if \<not> pci_ready then (CAN_ERR_NO_DEVICE, g)
         else if \<not> pci_registers then (CAN_ERR_NO_DEVICE, g)
         else (CAN_OK, g\<lparr>initialized := True\<rparr>))"

definition can_set_baud_rate :: "u32 \<Rightarrow> can_dev \<Rightarrow> can_rc \<times> can_dev" where
  "can_set_baud_rate b g =
     (if \<not> initialized g then (CAN_ERR_NOT_INIT, g)
      else if b \<noteq> 125000 \<and> b \<noteq> 250000 \<and> b \<noteq> 500000 \<and> b \<noteq> 1000000 then (CAN_ERR_INVALID, g)
      else (CAN_OK, g\<lparr>config := (config g)\<lparr>baud_rate := b\<rparr>\<rparr>))"

definition can_get_baud_rate :: "can_dev \<Rightarrow> u32" where
  "can_get_baud_rate g = baud_rate (config g)"

definition can_start :: "can_dev \<Rightarrow> can_rc \<times> can_dev" where
  "can_start g =
     (if \<not> initialized g then (CAN_ERR_NOT_INIT, g)
      else if state g = CAN_STATE_RUNNING then (CAN_OK, g)
      else (CAN_OK, g\<lparr>state := CAN_STATE_RUNNING\<rparr>))"

definition can_stop :: "can_dev \<Rightarrow> can_rc \<times> can_dev" where
  "can_stop g =
     (if \<not> initialized g then (CAN_ERR_NOT_INIT, g)
      else if state g = CAN_STATE_STOPPED then (CAN_OK, g)
      else (CAN_OK, g\<lparr>state := CAN_STATE_STOPPED\<rparr>))"

definition can_shutdown :: "can_dev \<Rightarrow> can_dev" where
  "can_shutdown g =
     (if \<not> initialized g then g
      else (snd (can_stop g))\<lparr>initialized := False, state := CAN_STATE_STOPPED\<rparr>)"

section \<open>Transmission and reception\<close>

definition can_send :: "can_frame option \<Rightarrow> can_dev \<Rightarrow> can_rc \<times> can_dev" where
  "can_send frame g =
     (if \<not> initialized g then (CAN_ERR_NOT_INIT, g)
      else if state g \<noteq> CAN_STATE_RUNNING then (CAN_ERR_INVALID, g)
      else if can_validate_frame frame \<noteq> CAN_OK then (can_validate_frame frame, g)
      else let f = the frame; next_head = (tx_head g + 1) mod CAN_TX_QUEUE_SIZE in
        if next_head = tx_tail g
        then (CAN_ERR_FULL, g\<lparr>stats := (stats g)\<lparr>tx_dropped := tx_dropped (stats g) + 1\<rparr>\<rparr>)
        else (CAN_OK, g\<lparr>tx_queue := (tx_queue g)[tx_head g := f], tx_head := next_head,
               stats := (stats g)\<lparr>tx_frames := tx_frames (stats g) + 1,
                                  tx_bytes := tx_bytes (stats g) + ucast (cf_dlc f)\<rparr>\<rparr>))"

text \<open>
  The polling loop of \<open>can_receive\<close> pops candidates until one passes the filters or the
  queue is empty; \<open>None\<close> would be a loop that does not end.
\<close>

partial_function (option) can_rx_loop :: "can_dev \<Rightarrow> (can_rc \<times> can_frame option \<times> can_dev) option" where
  "can_rx_loop g =
     (if rx_head g = rx_tail g then Some (CAN_ERR_EMPTY, None, g)
      else let candidate = rx_queue g ! rx_tail g;
               g' = g\<lparr>rx_tail := (rx_tail g + 1) mod CAN_RX_QUEUE_SIZE\<rparr>
           in if can_passes_filters g' candidate then Some (CAN_OK, Some candidate, g')
              else can_rx_loop g')"

text \<open>The flag tells whether the caller gave a buffer; the frame is what was stored there.\<close>

definition can_receive :: "bool \<Rightarrow> can_dev \<Rightarrow> (can_rc \<times> can_frame option \<times> can_dev) option" where
  "can_receive has_buffer g =
     (if \<not> initialized g then Some (CAN_ERR_NOT_INIT, None, g)
      else if \<not> has_buffer then Some (CAN_ERR_INVALID, None, g)
      else if state g \<noteq> CAN_STATE_RUNNING then Some (CAN_ERR_INVALID, None, g)
      else can_rx_loop g)"

section \<open>Acceptance filters\<close>

text \<open>
  The slot is overwritten before its enabled flag is compared with the new one, as in the
  source.
\<close>

definition can_set_filter :: "int \<Rightarrow> can_filter option \<Rightarrow> can_dev \<Rightarrow> can_rc \<times> can_dev" where
  "can_set_filter i flt g =
     (if \<not> initialized g then (CAN_ERR_NOT_INIT, g)
      else case flt of
        None \<Rightarrow> (CAN_ERR_INVALID, g)
      | Some f \<Rightarrow>
          if i < 0 \<or> int CAN_MAX_FILTERS \<le> i then (CAN_ERR_INVALID, g)
          else let g1 = g\<lparr>filters := (filters g)[nat i := f]\<rparr>;
                   g2 = (if flt_enabled f \<and> \<not> flt_enabled (filters g1 ! nat i)
                         then g1\<lparr>filter_count := filter_count g1 + 1\<rparr>
                         else if \<not> flt_enabled f \<and> flt_enabled (filters g1 ! nat i)
                         then g1\<lparr>filter_count := filter_count g1 - 1\<rparr>
                         else g1)
               in (CAN_OK, g2\<lparr>filters := (filters g2)[nat i :=
                     (filters g2 ! nat i)\<lparr>flt_enabled := flt_enabled f\<rparr>]\<rparr>))"

definition can_add_filter :: "can_filter option \<Rightarrow> can_dev \<Rightarrow> (can_rc + nat) \<times> can_dev" where
  "can_add_filter flt g =
     (if \<not> initialized g then (Inl CAN_ERR_NOT_INIT, g)
      else case flt of
        None \<Rightarrow> (Inl CAN_ERR_INVALID, g)
      | Some f \<Rightarrow>
          (case find (\<lambda>i. \<not> flt_enabled (filters g ! i)) [0..<CAN_MAX_FILTERS] of
             None \<Rightarrow> (Inl CAN_ERR_FULL, g)
           | Some i \<Rightarrow> (Inr i, g\<lparr>filters := (filters g)[i := f\<lparr>flt_enabled := True\<rparr>],
                               filter_count := filter_count g + 1\<rparr>)))"

definition can_remove_filter :: "int \<Rightarrow> can_dev \<Rightarrow> can_rc \<times> can_dev" where
  "can_remove_filter i g =
     (if \<not> initialized g then (CAN_ERR_NOT_INIT, g)
      else if i < 0 \<or> int CAN_MAX_FILTERS \<le> i then (CAN_ERR_INVALID, g)
      else if \<not> flt_enabled (filters g ! nat i) then (CAN_ERR_INVALID, g)
      else (CAN_OK, g\<lparr>filters := (filters g)[nat i := (filters g ! nat i)\<lparr>flt_enabled := False\<rparr>],
                      filter_count := filter_count g - 1\<rparr>))"

definition can_clear_filters :: "can_dev \<Rightarrow> can_dev" where
  "can_clear_filters g =
     (if \<not> initialized g then g
      else g\<lparr>filters := map (\<lambda>f. f\<lparr>flt_enabled := False\<rparr>) (take CAN_MAX_FILTERS (filters g)) @
                         drop CAN_MAX_FILTERS (filters g),
             filter_count := 0\<rparr>)"

definition can_reset_stats :: "can_dev \<Rightarrow> can_dev" where
  "can_reset_stats g = g\<lparr>stats := zero_can_stats\<rparr>"

definition can_send_async :: "can_frame option \<Rightarrow> can_dev \<Rightarrow> can_rc \<times> can_dev" where
  "can_send_async frame g = can_send frame g"

definition can_receive_async :: "bool \<Rightarrow> can_dev \<Rightarrow> (can_rc \<times> can_frame option \<times> can_dev) option" where
  "can_receive_async has_buffer g = can_receive has_buffer g"

section \<open>The device invariant\<close>

text \<open>Ring indices and array sizes; the operations of the driver keep it.\<close>

definition can_inv :: "can_dev \<Rightarrow> bool" where
  "can_inv g \<longleftrightarrow>
     length (rx_queue g) = CAN_RX_QUEUE_SIZE \<and> length (tx_queue g) = CAN_TX_QUEUE_SIZE \<and>
     rx_head g < CAN_RX_QUEUE_SIZE \<and> rx_tail g < CAN_RX_QUEUE_SIZE \<and>
     tx_head g < CAN_TX_QUEUE_SIZE \<and> tx_tail g < CAN_TX_QUEUE_SIZE \<and>
     length (filters g) = CAN_MAX_FILTERS"

definition rx_contents :: "can_dev \<Rightarrow> can_frame list" where
  "rx_contents g = ring_list (rx_queue g) (rx_tail g) (rx_head g)"

definition tx_contents :: "can_dev \<Rightarrow> can_frame list" where
  "tx_contents g = ring_list (tx_queue g) (tx_tail g) (tx_head g)"

lemma can_init_inv: "can_inv (snd (can_init a b c))"
  by (simp add: can_init_def can_inv_def zero_can_dev_def Let_def)

lemma can_config_inv [simp]:
  "can_inv (snd (can_set_baud_rate b g)) = can_inv g"
  "can_inv (snd (can_start g)) = can_inv g"
  "can_inv (snd (can_stop g)) = can_inv g"
  "can_inv (can_shutdown g) = can_inv g"
  "can_inv (can_reset_stats g) = can_inv g"
  by (simp_all add: can_inv_def can_set_baud_rate_def can_start_def can_stop_def can_shutdown_def
      can_reset_stats_def)

lemma can_filter_inv [simp]:
  "can_inv (snd (can_set_filter i f g)) = can_inv g"
  "can_inv (snd (can_add_filter f g)) = can_inv g"
  "can_inv (snd (can_remove_filter i g)) = can_inv g"
  by (auto simp: can_inv_def can_set_filter_def can_add_filter_def can_remove_filter_def Let_def
      split: option.splits)

lemma can_clear_filters_inv [simp]: "can_inv g \<Longrightarrow> can_inv (can_clear_filters g)"
  by (simp add: can_inv_def can_clear_filters_def)

lemma can_send_inv [intro]: "can_inv g \<Longrightarrow> can_inv (snd (can_send f g))"
  by (simp add: can_inv_def can_send_def Let_def)

section \<open>The transmit ring as a bounded queue\<close>

text \<open>
  The states that can transmit, the frames that may be sent, and sending as a push that
  fails when the code returns anything but \<open>CAN_OK\<close>.
\<close>

definition can_tx_ready :: "can_dev \<Rightarrow> bool" where
  "can_tx_ready g \<longleftrightarrow> can_inv g \<and> initialized g \<and> state g = CAN_STATE_RUNNING"

definition can_valid :: "can_frame \<Rightarrow> bool" where
  "can_valid f \<longleftrightarrow> can_validate_frame (Some f) = CAN_OK"

definition can_push :: "can_frame \<Rightarrow> can_dev \<Rightarrow> can_dev option" where
  "can_push f g = (case can_send (Some f) g of (CAN_OK, g') \<Rightarrow> Some g' | _ \<Rightarrow> None)"

lemma can_send_full:
  assumes "can_tx_ready g" "can_valid f" "length (tx_contents g) = 31"
  shows "can_send (Some f) g =
    (CAN_ERR_FULL, g\<lparr>stats := (stats g)\<lparr>tx_dropped := tx_dropped (stats g) + 1\<rparr>\<rparr>)"
  using assms ring_full_iff [of "tx_tail g" "tx_queue g" "tx_head g"]
  by (simp add: can_tx_ready_def can_inv_def can_valid_def tx_contents_def can_send_def Let_def)

lemma can_send_room:
  assumes "can_tx_ready g" "can_valid f" "length (tx_contents g) < 31"
  shows "\<exists>g'. can_send (Some f) g = (CAN_OK, g') \<and> can_tx_ready g' \<and>
           tx_contents g' = tx_contents g @ [f] \<and>
           tx_frames (stats g') = tx_frames (stats g) + 1 \<and>
           tx_bytes (stats g') = tx_bytes (stats g) + ucast (cf_dlc f)"
  using assms ring_full_iff [of "tx_tail g" "tx_queue g" "tx_head g"]
    ring_list_push [of "tx_tail g" "tx_queue g" "tx_head g" f]
  by (simp add: can_tx_ready_def can_inv_def can_valid_def tx_contents_def can_send_def Let_def)

lemma tx_contents_bound: "can_inv g \<Longrightarrow> length (tx_contents g) \<le> 31"
  using ring_len_bound [of "tx_tail g" "tx_queue g" "tx_head g"]
  by (simp add: can_inv_def tx_contents_def)

interpretation can_tx: bounded_queue can_tx_ready tx_contents 31 can_valid "\<lambda>f. [f]" can_push
proof unfold_locales
  fix g f
  assume "can_tx_ready g" "can_valid f" "length (tx_contents g) + length [f] \<le> 31"
  with can_send_room [of g f]
  show "\<exists>g'. can_push f g = Some g' \<and> can_tx_ready g' \<and> tx_contents g' = tx_contents g @ [f]"
    by (auto simp: can_push_def)
next
  fix g f
  assume a: "can_tx_ready g" "can_valid f" "31 < length (tx_contents g) + length [f]"
  then have "length (tx_contents g) = 31"
    using tx_contents_bound [of g] by (simp add: can_tx_ready_def)
  with a show "can_push f g = None"
    by (simp add: can_push_def can_send_full)
qed (simp add: can_tx_ready_def tx_contents_bound)

section \<open>Reception\<close>

lemma can_passes_rx_tail [simp]:
  "can_passes_filters (g\<lparr>rx_tail := t\<rparr>) f = can_passes_filters g f"
  by (simp add: can_passes_filters_def)

lemma rx_contents_pop:
  assumes "can_inv g" "rx_head g \<noteq> rx_tail g"
  shows "rx_contents g = rx_queue g ! rx_tail g #
           rx_contents (g\<lparr>rx_tail := (rx_tail g + 1) mod CAN_RX_QUEUE_SIZE\<rparr>)"
  using assms ring_list_pop [of "rx_tail g" "rx_queue g" "rx_head g"]
  by (simp add: can_inv_def rx_contents_def)

lemma rx_contents_empty: "can_inv g \<Longrightarrow> rx_contents g = [] \<longleftrightarrow> rx_head g = rx_tail g"
  by (simp add: can_inv_def rx_contents_def ring_list_empty_iff)

lemma can_rx_loop_spec:
  assumes "can_inv g"
  shows "\<exists>g'. can_inv g' \<and> can_rx_loop g =
    (case dropWhile (\<lambda>f. \<not> can_passes_filters g f) (rx_contents g) of
       [] \<Rightarrow> Some (CAN_ERR_EMPTY, None, g')
     | f # _ \<Rightarrow> Some (CAN_OK, Some f, g')) \<and>
    rx_contents g' = tl (dropWhile (\<lambda>f. \<not> can_passes_filters g f) (rx_contents g))"
  using assms
proof (induction "rx_contents g" arbitrary: g)
  case Nil
  then show ?case
    using rx_contents_empty [of g] by (auto simp: can_rx_loop.simps)
next
  case (Cons f fs)
  let ?g = "g\<lparr>rx_tail := (rx_tail g + 1) mod CAN_RX_QUEUE_SIZE\<rparr>"
  have ne: "rx_head g \<noteq> rx_tail g"
    using Cons rx_contents_empty by force
  have inv: "can_inv ?g"
    using Cons.prems by (simp add: can_inv_def)
  have f: "rx_queue g ! rx_tail g = f" "rx_contents ?g = fs"
    using rx_contents_pop [OF Cons.prems ne] Cons.hyps(2) by simp_all
  show ?case
  proof (cases "can_passes_filters g f")
    case True
    then show ?thesis
      using ne f inv Cons.hyps(2) [symmetric]
      by (subst can_rx_loop.simps) (simp add: Let_def)
  next
    case False
    then have step: "can_rx_loop g = can_rx_loop ?g"
      using ne f by (subst can_rx_loop.simps) (simp add: Let_def)
    show ?thesis
      using Cons.hyps(1) [OF f(2) [symmetric] inv] False Cons.hyps(2) [symmetric] f(2)
      by (simp add: step)
  qed
qed

section \<open>Filter accounting\<close>

lemma can_set_filter_count [simp]:
  "can_inv g \<Longrightarrow> filter_count (snd (can_set_filter i f g)) = filter_count g"
  by (auto simp: can_inv_def can_set_filter_def Let_def split: option.splits)

lemma can_passes_disabled:
  assumes "i < CAN_MAX_FILTERS" "\<not> flt_enabled (filters g ! i)"
  shows "can_passes_filters g f"
  using assms by (auto simp: can_passes_filters_def can_frame_matches_filter_def list_ex_iff)

lemma flag_set_high [simp]:
  "\<not> flag_set f CAN_FLAG_EFF" "\<not> flag_set f CAN_FLAG_RTR" "\<not> flag_set f CAN_FLAG_ERR"
proof -
  have "(ucast x :: u32) AND push_bit (n + 8) 1 = 0" for x :: u8 and n
    by (rule bit_word_eqI) (auto simp: bit_simps dest: bit_imp_le_length)
  from this [of "cf_flags f" 23] this [of "cf_flags f" 22] this [of "cf_flags f" 21]
  show "\<not> flag_set f CAN_FLAG_EFF" "\<not> flag_set f CAN_FLAG_RTR" "\<not> flag_set f CAN_FLAG_ERR"
    by (simp_all add: flag_set_def)
qed

lemma can_init_filters:
  "filters (snd (can_init a b c)) = replicate CAN_MAX_FILTERS
     \<lparr>flt_id = 0, flt_mask = 0, flt_extended = False, flt_enabled = False\<rparr>"
  "filter_count (snd (can_init a b c)) = 0"
  by (simp_all add: can_init_def zero_can_dev_def Let_def)

lemma can_set_filters_count:
  "can_inv g \<Longrightarrow> can_inv (foldl (\<lambda>d (i, flt). snd (can_set_filter i flt d)) g cfgs) \<and>
     filter_count (foldl (\<lambda>d (i, flt). snd (can_set_filter i flt d)) g cfgs) = filter_count g"
  by (induction cfgs arbitrary: g) (auto split: prod.splits)

lemma length_filter_update_le:
  "length (filter P (xs[i := x])) \<le> Suc (length (filter P xs))"
  by (induction xs arbitrary: i) (auto split: nat.splits intro: le_SucI)

lemma can_add_filters_enabled:
  "length (filter flt_enabled (filters (foldl (\<lambda>d flt. snd (can_add_filter flt d)) g flts)))
     \<le> length flts + length (filter flt_enabled (filters g))"
proof (induction flts arbitrary: g)
  case Nil
  then show ?case by simp
next
  case (Cons flt flts)
  have "length (filter flt_enabled (filters (snd (can_add_filter flt g))))
          \<le> Suc (length (filter flt_enabled (filters g)))"
    by (auto simp: can_add_filter_def length_filter_update_le le_SucI split: option.splits)
  with Cons.IH [of "snd (can_add_filter flt g)"] show ?case by simp
qed

lemma exists_disabled:
  assumes "length (filter P xs) < length xs"
  shows "\<exists>i < length xs. \<not> P (xs ! i)"
proof (rule ccontr)
  assume "\<not> ?thesis"
  then have "\<forall>x \<in> set xs. P x" by (auto simp: in_set_conv_nth)
  with assms show False by (simp add: filter_id_conv)
qed

lemma can_add_filters_inv [simp]:
  "can_inv g \<Longrightarrow> can_inv (foldl (\<lambda>d flt. snd (can_add_filter flt d)) g flts)"
  by (induction flts arbitrary: g) auto

section \<open>Properties\<close>

text \<open>
  C26. Transmission is a bounded FIFO: on a running controller a sequence of valid frames is
  accepted exactly when it fits in the 31 usable slots of the transmit ring, and then the
  ring holds its old content followed by the frames in order.
\<close>

theorem can_send_fifo:
  assumes "can_tx_ready g" "\<forall>f \<in> set fs. can_valid f"
  shows "if length (tx_contents g) + length fs \<le> 31
         then \<exists>g'. push_list can_push fs g = Some g' \<and> can_tx_ready g' \<and>
                   tx_contents g' = tx_contents g @ fs
         else push_list can_push fs g = None"
proof -
  have "concat (map (\<lambda>f. [f]) fs) = fs"
    by (induction fs) auto
  then show ?thesis
    using can_tx.push_list_fits [OF assms(1), of fs] can_tx.push_list_full [OF assms(1), of fs]
      assms(2) by auto
qed


definition can_demo :: can_dev where
  "can_demo = snd (can_start (snd (can_init True True None)))"

lemma can_demo_ready: "can_tx_ready can_demo"
  by (simp add: can_demo_def can_tx_ready_def can_inv_def can_init_def can_start_def
      zero_can_dev_def Let_def)

lemma can_demo_empty: "tx_contents can_demo = []"
  by (simp add: can_demo_def tx_contents_def ring_list_def ring_len_def can_init_def can_start_def
      zero_can_dev_def Let_def)

lemma zero_frame_valid: "can_valid zero_frame"
  by (simp add: can_valid_def can_validate_frame_def zero_frame_def)

theorem can_send_fifo_witness:
  "push_list can_push (replicate 32 zero_frame) can_demo = None \<and>
   (\<exists>g'. push_list can_push (replicate 31 zero_frame) can_demo = Some g' \<and>
         tx_contents g' = replicate 31 zero_frame)"
  using can_send_fifo [of can_demo "replicate 32 zero_frame"]
    can_send_fifo [of can_demo "replicate 31 zero_frame"]
  by (auto simp: can_demo_ready can_demo_empty zero_frame_valid)

text \<open>
  C25. Reception: on a running controller the polling loop of \<open>can_receive\<close> ends, drops the
  queued frames that the filters refuse, and returns the first frame that they accept,
  leaving exactly the frames behind it; when no queued frame is accepted the queue is drained
  and \<open>CAN_ERR_EMPTY\<close> is returned, not the \<open>CAN_ERR_TIMEOUT\<close> of the comment in the header file.
\<close>

theorem can_receive_first_accepted:
  assumes "can_inv g" "initialized g" "state g = CAN_STATE_RUNNING"
  shows "\<exists>g'. can_inv g' \<and> can_receive True g =
    (case dropWhile (\<lambda>f. \<not> can_passes_filters g f) (rx_contents g) of
       [] \<Rightarrow> Some (CAN_ERR_EMPTY, None, g')
     | f # _ \<Rightarrow> Some (CAN_OK, Some f, g')) \<and>
    rx_contents g' = tl (dropWhile (\<lambda>f. \<not> can_passes_filters g f) (rx_contents g))"
  using can_rx_loop_spec [OF assms(1)] assms(2,3) by (simp add: can_receive_def)

definition can_rx_demo :: can_dev where
  "can_rx_demo = can_demo\<lparr>rx_head := 2, rx_tail := 0, filter_count := 16,
     rx_queue := (rx_queue can_demo)[1 := zero_frame\<lparr>cf_id := 5\<rparr>],
     filters := replicate 16 \<lparr>flt_id = 5, flt_mask = 0x7FF, flt_extended = False,
       flt_enabled = True\<rparr>\<rparr>"

theorem can_receive_first_accepted_witness:
  "\<exists>g'. can_receive True can_rx_demo = Some (CAN_OK, Some (zero_frame\<lparr>cf_id := 5\<rparr>), g') \<and>
        rx_contents g' = []"
proof -
  have pre: "can_inv can_rx_demo" "initialized can_rx_demo" "state can_rx_demo = CAN_STATE_RUNNING"
    by (simp_all add: can_rx_demo_def can_demo_def can_inv_def can_init_def can_start_def
        zero_can_dev_def Let_def)
  have q: "rx_contents can_rx_demo = [zero_frame, zero_frame\<lparr>cf_id := 5\<rparr>]"
    by (simp add: can_rx_demo_def can_demo_def rx_contents_def ring_list_def ring_len_def
        can_init_def can_start_def zero_can_dev_def Let_def numeral_2_eq_2)
  have "\<not> can_passes_filters can_rx_demo zero_frame"
    "can_passes_filters can_rx_demo (zero_frame\<lparr>cf_id := 5\<rparr>)"
    by (simp_all add: can_passes_filters_def can_rx_demo_def can_frame_matches_filter_def
        zero_frame_def upt_rec)
  with can_receive_first_accepted [OF pre] q show ?thesis
    by auto
qed

text \<open>
  Extended frames cannot be sent: \<open>can_make_ext_frame\<close> stores the 32-bit mask
  \<open>CAN_FLAG_EFF\<close> in the 8-bit flag byte, so the frame it builds is not recognised as extended,
  and on a running controller \<open>can_send\<close> refuses it whenever its identifier needs more than
  11 bits.
\<close>

theorem can_extended_frames_rejected:
  assumes "CAN_MAX_STD_ID < ident" "ident \<le> CAN_MAX_EXT_ID" "dlc \<le> CAN_MAX_DLC"
    and "initialized g" "state g = CAN_STATE_RUNNING"
  shows "\<exists>f'. can_make_ext_frame ident data dlc (Some f) = (CAN_OK, Some f') \<and>
           \<not> can_is_extended (Some f') \<and> can_send (Some f') g = (CAN_ERR_INVALID, g)"
proof -
  have m: "ident AND 0x1FFFFFFF = ident"
  proof -
    have "unat ident < 2 ^ 29"
      using assms(2) by (simp add: word_le_nat_alt)
    then have "take_bit 29 ident = ident"
      by (simp add: take_bit_eq_mod unat_arith_simps(3) word_eq_iff_unsigned unat_mod_distrib)
    then show ?thesis
      by (simp add: take_bit_eq_mask mask_eq_exp_minus_1)
  qed
  with assms show ?thesis
    by (auto simp: can_make_ext_frame_def can_is_extended_def can_send_def can_validate_frame_def)
qed

theorem can_extended_frames_rejected_witness:
  "\<exists>f'. can_make_ext_frame 0x12345 None 4 (Some zero_frame) = (CAN_OK, Some f') \<and>
        can_send (Some f') can_demo = (CAN_ERR_INVALID, can_demo)"
proof -
  have "initialized can_demo" "state can_demo = CAN_STATE_RUNNING"
    using can_demo_ready by (simp_all add: can_tx_ready_def)
  then show ?thesis
    using can_extended_frames_rejected [where ident = "0x12345" and dlc = 4 and g = can_demo and data = None
        and f = zero_frame] by auto
qed

text \<open>
  Filters set through the driver's interface do not filter: after \<open>can_init\<close>, whatever
  sequence of \<open>can_set_filter\<close> calls follows, every frame passes (the enabled count stays 0,
  because the slot is overwritten before its old flag is read); and after fewer than 16
  \<open>can_add_filter\<close> calls every frame passes too, because a disabled slot accepts everything.
\<close>

theorem can_filters_inert:
  assumes "length flts < CAN_MAX_FILTERS"
  shows "can_passes_filters
           (foldl (\<lambda>d (i, flt). snd (can_set_filter i flt d)) (snd (can_init a b c)) cfgs) f \<and>
         can_passes_filters
           (foldl (\<lambda>d flt. snd (can_add_filter flt d)) (snd (can_init a b c)) flts) f"
proof
  show "can_passes_filters
      (foldl (\<lambda>d (i, flt). snd (can_set_filter i flt d)) (snd (can_init a b c)) cfgs) f"
    using can_set_filters_count [OF can_init_inv, of a b c cfgs]
    by (simp add: can_passes_filters_def can_init_filters)
next
  let ?g = "foldl (\<lambda>d flt. snd (can_add_filter flt d)) (snd (can_init a b c)) flts"
  have "length (filters ?g) = 16"
    using can_add_filters_inv [OF can_init_inv, of a b c flts] by (simp add: can_inv_def)
  moreover have "length (filter flt_enabled (filters ?g)) < 16"
    using can_add_filters_enabled [of "snd (can_init a b c)" flts] assms
    by (simp add: can_init_filters)
  ultimately show "can_passes_filters ?g f"
    using exists_disabled [of flt_enabled "filters ?g"] can_passes_disabled by auto
qed

theorem can_filters_inert_witness:
  "can_passes_filters
     (snd (can_add_filter (Some \<lparr>flt_id = 5, flt_mask = 0x7FF, flt_extended = False,
        flt_enabled = True\<rparr>) (snd (can_init True True None)))) (zero_frame\<lparr>cf_id := 6\<rparr>)"
  using can_filters_inert [where a = True and b = True and c = None and cfgs = "[]" and flts = "[Some \<lparr>flt_id = 5, flt_mask = 0x7FF, flt_extended = False,
        flt_enabled = True\<rparr>]" and f = "zero_frame\<lparr>cf_id := 6\<rparr>"]
  by simp

end
