(* ===== verification/TaskQueues.thy ===== *)
theory TaskQueues
  imports Interfaces
begin

text \<open>
  The task control blocks of \<^verbatim>\<open>src/kernel/core/task.c\<close> and its two intrusive lists: the
  ready queue, ordered by priority through \<open>next\<close>, and the deadline list, ordered by deadline
  through \<open>next_deadline\<close>. Tasks are numbered by their slot in the pool, a \<open>task_t *\<close> is a
  slot number or \<open>None\<close> for NULL. Loops over links are option-valued: \<open>None\<close> is a loop that
  does not end.
\<close>

section \<open>Tasks and scheduler state\<close>

abbreviation MAX_TASKS :: nat where "MAX_TASKS \<equiv> 16"
abbreviation TASK_STACK_SIZE :: nat where "TASK_STACK_SIZE \<equiv> 8192"

datatype task_state = TASK_READY | TASK_RUNNING | TASK_BLOCKED | TASK_DEAD

record task =
  tid :: u32
  tname :: string
  tstate :: task_state
  stack_base :: nat
  stack_pointer :: nat
  entry :: nat
  priority :: u8
  deadline :: u64
  next_task :: "nat option"
  next_deadline :: "nat option"
  cpu_id :: u32
  cpu_affinity :: u32
  original_priority :: u8
  blocked_on :: "nat option"
  waiting_tasks :: "nat option"

record sched =
  tasks :: "nat \<Rightarrow> task"
  current_task :: "nat option"
  task_list :: "nat option"
  ready_queue :: "nat option"
  deadline_list :: "nat option"
  next_tid :: u32
  sched_initialized :: bool
  ticks_remaining :: u32
  context_switches :: u64
  preemptions :: u64
  preemption_disable_count :: u32
  preemption_pending :: bool
  priority_inversions :: u64
  switch_in_progress :: bool
  stack_words :: "nat \<Rightarrow> u64"

definition upd_task :: "nat \<Rightarrow> (task \<Rightarrow> task) \<Rightarrow> sched \<Rightarrow> sched" where
  "upd_task i f s = s\<lparr>tasks := (tasks s)(i := f (tasks s i))\<rparr>"

abbreviation prio :: "sched \<Rightarrow> nat \<Rightarrow> u8" where "prio s i \<equiv> priority (tasks s i)"
abbreviation dline :: "sched \<Rightarrow> nat \<Rightarrow> u64" where "dline s i \<equiv> deadline (tasks s i)"
abbreviation st :: "sched \<Rightarrow> nat \<Rightarrow> task_state" where "st s i \<equiv> tstate (tasks s i)"
abbreviation rq_link :: "sched \<Rightarrow> nat \<Rightarrow> nat option" where "rq_link s i \<equiv> next_task (tasks s i)"
abbreviation dl_link :: "sched \<Rightarrow> nat \<Rightarrow> nat option" where "dl_link s i \<equiv> next_deadline (tasks s i)"

lemma upd_task_simps [simp]:
  "tasks (upd_task i f s) = (tasks s)(i := f (tasks s i))"
  "current_task (upd_task i f s) = current_task s"
  "task_list (upd_task i f s) = task_list s"
  "ready_queue (upd_task i f s) = ready_queue s"
  "deadline_list (upd_task i f s) = deadline_list s"
  "next_tid (upd_task i f s) = next_tid s"
  "sched_initialized (upd_task i f s) = sched_initialized s"
  "ticks_remaining (upd_task i f s) = ticks_remaining s"
  "context_switches (upd_task i f s) = context_switches s"
  "preemptions (upd_task i f s) = preemptions s"
  "preemption_disable_count (upd_task i f s) = preemption_disable_count s"
  "preemption_pending (upd_task i f s) = preemption_pending s"
  "priority_inversions (upd_task i f s) = priority_inversions s"
  "switch_in_progress (upd_task i f s) = switch_in_progress s"
  "stack_words (upd_task i f s) = stack_words s"
  by (simp_all add: upd_task_def)

section \<open>The ready queue\<close>

text \<open>The search for the insertion point.\<close>

partial_function (option) rq_scan :: "sched \<Rightarrow> u8 \<Rightarrow> nat \<Rightarrow> nat option" where
  "rq_scan s p cur =
     (case rq_link s cur of
        None \<Rightarrow> Some cur
      | Some n \<Rightarrow> if prio s n \<le> p then rq_scan s p n else Some cur)"

definition ready_queue_insert :: "nat option \<Rightarrow> sched \<Rightarrow> sched option" where
  "ready_queue_insert t s =
     (case t of
        None \<Rightarrow> Some s
      | Some i \<Rightarrow>
          if st s i \<noteq> TASK_READY then Some s
          else case ready_queue s of
            None \<Rightarrow> Some ((upd_task i (\<lambda>x. x\<lparr>next_task := None\<rparr>) s)\<lparr>ready_queue := Some i\<rparr>)
          | Some h \<Rightarrow>
              if prio s i < prio s h
              then Some ((upd_task i (\<lambda>x. x\<lparr>next_task := Some h\<rparr>) s)\<lparr>ready_queue := Some i\<rparr>)
              else do {
                cur \<leftarrow> rq_scan s (prio s i) h;
                let s1 = upd_task i (\<lambda>x. x\<lparr>next_task := rq_link s cur\<rparr>) s;
                Some (upd_task cur (\<lambda>x. x\<lparr>next_task := Some i\<rparr>) s1)
              })"

text \<open>The node before a task: \<open>Some None\<close> when the task is not found.\<close>

partial_function (option) rq_before :: "sched \<Rightarrow> nat \<Rightarrow> nat \<Rightarrow> nat option option" where
  "rq_before s i cur =
     (case rq_link s cur of
        None \<Rightarrow> Some None
      | Some n \<Rightarrow> if n = i then Some (Some cur) else rq_before s i n)"

definition ready_queue_remove :: "nat option \<Rightarrow> sched \<Rightarrow> sched option" where
  "ready_queue_remove t s =
     (case t of
        None \<Rightarrow> Some s
      | Some i \<Rightarrow>
          (case ready_queue s of
             None \<Rightarrow> Some s
           | Some h \<Rightarrow>
               if h = i
               then Some (upd_task i (\<lambda>x. x\<lparr>next_task := None\<rparr>) (s\<lparr>ready_queue := rq_link s i\<rparr>))
               else do {
                 found \<leftarrow> rq_before s i h;
                 (case found of
                    None \<Rightarrow> Some s
                  | Some cur \<Rightarrow>
                      Some (upd_task i (\<lambda>x. x\<lparr>next_task := None\<rparr>)
                             (upd_task cur (\<lambda>x. x\<lparr>next_task := rq_link s i\<rparr>) s)))
               }))"

section \<open>The deadline list\<close>

partial_function (option) dl_scan :: "sched \<Rightarrow> u64 \<Rightarrow> nat \<Rightarrow> nat option" where
  "dl_scan s d cur =
     (case dl_link s cur of
        None \<Rightarrow> Some cur
      | Some n \<Rightarrow> if dline s n \<le> d then dl_scan s d n else Some cur)"

definition deadline_list_insert :: "nat option \<Rightarrow> sched \<Rightarrow> sched option" where
  "deadline_list_insert t s =
     (case t of
        None \<Rightarrow> Some s
      | Some i \<Rightarrow>
          if dline s i = 0 then Some s
          else case deadline_list s of
            None \<Rightarrow> Some ((upd_task i (\<lambda>x. x\<lparr>next_deadline := None\<rparr>) s)\<lparr>deadline_list := Some i\<rparr>)
          | Some h \<Rightarrow>
              if dline s i < dline s h
              then Some ((upd_task i (\<lambda>x. x\<lparr>next_deadline := Some h\<rparr>) s)\<lparr>deadline_list := Some i\<rparr>)
              else do {
                cur \<leftarrow> dl_scan s (dline s i) h;
                let s1 = upd_task i (\<lambda>x. x\<lparr>next_deadline := dl_link s cur\<rparr>) s;
                Some (upd_task cur (\<lambda>x. x\<lparr>next_deadline := Some i\<rparr>) s1)
              })"

partial_function (option) dl_before :: "sched \<Rightarrow> nat \<Rightarrow> nat \<Rightarrow> nat option option" where
  "dl_before s i cur =
     (case dl_link s cur of
        None \<Rightarrow> Some None
      | Some n \<Rightarrow> if n = i then Some (Some cur) else dl_before s i n)"

definition deadline_list_remove :: "nat option \<Rightarrow> sched \<Rightarrow> sched option" where
  "deadline_list_remove t s =
     (case t of
        None \<Rightarrow> Some s
      | Some i \<Rightarrow>
          (case deadline_list s of
             None \<Rightarrow> Some s
           | Some h \<Rightarrow>
               if h = i
               then Some (upd_task i (\<lambda>x. x\<lparr>next_deadline := None\<rparr>) (s\<lparr>deadline_list := dl_link s i\<rparr>))
               else do {
                 found \<leftarrow> dl_before s i h;
                 (case found of
                    None \<Rightarrow> Some s
                  | Some cur \<Rightarrow>
                      Some (upd_task i (\<lambda>x. x\<lparr>next_deadline := None\<rparr>)
                             (upd_task cur (\<lambda>x. x\<lparr>next_deadline := dl_link s i\<rparr>) s)))
               }))"

section \<open>The two lists as ordered queues\<close>

lemma field_upd_simps [simp]:
  "(\<lambda>j. next_task ((t(i := x)) j)) = (\<lambda>j. next_task (t j))(i := next_task x)"
  "(\<lambda>j. next_task (if j = i then x else t j)) = (\<lambda>j. next_task (t j))(i := next_task x)"
  "(\<lambda>j. next_deadline ((t(i := x)) j)) = (\<lambda>j. next_deadline (t j))(i := next_deadline x)"
  "(\<lambda>j. next_deadline (if j = i then x else t j)) = (\<lambda>j. next_deadline (t j))(i := next_deadline x)"
  "(\<lambda>j. priority ((t(i := x)) j)) = (\<lambda>j. priority (t j))(i := priority x)"
  "(\<lambda>j. priority (if j = i then x else t j)) = (\<lambda>j. priority (t j))(i := priority x)"
  "(\<lambda>j. deadline ((t(i := x)) j)) = (\<lambda>j. deadline (t j))(i := deadline x)"
  "(\<lambda>j. deadline (if j = i then x else t j)) = (\<lambda>j. deadline (t j))(i := deadline x)"
  "(\<lambda>j. tstate ((t(i := x)) j)) = (\<lambda>j. tstate (t j))(i := tstate x)"
  "(\<lambda>j. tstate (if j = i then x else t j)) = (\<lambda>j. tstate (t j))(i := tstate x)"
  by (auto simp: fun_eq_iff)

lemma field_upd_triv [simp]:
  "(\<lambda>j. next_task (t j))(i := next_task (t i)) = (\<lambda>j. next_task (t j))"
  "(\<lambda>j. next_deadline (t j))(i := next_deadline (t i)) = (\<lambda>j. next_deadline (t j))"
  "(\<lambda>j. priority (t j))(i := priority (t i)) = (\<lambda>j. priority (t j))"
  "(\<lambda>j. deadline (t j))(i := deadline (t i)) = (\<lambda>j. deadline (t j))"
  "(\<lambda>j. tstate (t j))(i := tstate (t i)) = (\<lambda>j. tstate (t j))"
  by (auto simp: fun_eq_iff)

lemma last_take_split:
  assumes "h # t = xs" "P h"
  obtains us where "takeWhile P xs = us @ [last (h # takeWhile P t)]"
  using assms by (metis append_butlast_last_id list.distinct(1) takeWhile.simps(2))

text \<open>
  What an operation on one list leaves unchanged, whatever the shape of the lists: all fields
  but the links and the head of that list.
\<close>

definition rq_frame :: "sched \<Rightarrow> sched \<Rightarrow> bool" where
  "rq_frame s s' \<longleftrightarrow> s'\<lparr>tasks := tasks s, ready_queue := ready_queue s\<rparr> = s \<and>
     (\<forall>j. (tasks s' j)\<lparr>next_task := rq_link s j\<rparr> = tasks s j)"

definition dl_frame :: "sched \<Rightarrow> sched \<Rightarrow> bool" where
  "dl_frame s s' \<longleftrightarrow> s'\<lparr>tasks := tasks s, deadline_list := deadline_list s\<rparr> = s \<and>
     (\<forall>j. (tasks s' j)\<lparr>next_deadline := dl_link s j\<rparr> = tasks s j)"

lemma rq_frame_iff:
  "rq_frame s s' \<longleftrightarrow>
     (\<exists>nx h. s' = s\<lparr>tasks := \<lambda>j. (tasks s j)\<lparr>next_task := nx j\<rparr>, ready_queue := h\<rparr>)"
proof
  assume "rq_frame s s'"
  then have 1: "s'\<lparr>tasks := tasks s, ready_queue := ready_queue s\<rparr> = s"
    and 2: "\<And>j. (tasks s' j)\<lparr>next_task := rq_link s j\<rparr> = tasks s j"
    by (auto simp: rq_frame_def)
  have "(tasks s j)\<lparr>next_task := rq_link s' j\<rparr> = tasks s' j" for j
    using 2 [of j] by (metis task.surjective task.update_convs(9))
  moreover have "s' = s\<lparr>tasks := tasks s', ready_queue := ready_queue s'\<rparr>"
    using 1 by (metis sched.surjective sched.update_convs(1,4))
  ultimately have
    "s' = s\<lparr>tasks := \<lambda>j. (tasks s j)\<lparr>next_task := rq_link s' j\<rparr>, ready_queue := ready_queue s'\<rparr>"
    by simp
  then show "\<exists>nx h. s' = s\<lparr>tasks := \<lambda>j. (tasks s j)\<lparr>next_task := nx j\<rparr>, ready_queue := h\<rparr>"
    by (intro exI)
qed (auto simp: rq_frame_def)

lemma rq_frame_trans [trans]:
  assumes "rq_frame s s1" "rq_frame s1 s2"
  shows "rq_frame s s2"
proof -
  obtain nx h where "s2 = s\<lparr>tasks := \<lambda>j. (tasks s j)\<lparr>next_task := nx j\<rparr>, ready_queue := h\<rparr>"
    using assms by (auto simp: rq_frame_iff)
  then show ?thesis unfolding rq_frame_iff by (intro exI)
qed

lemma rq_frame_refl [simp]: "rq_frame s s"
  by (simp add: rq_frame_def)

lemma rq_frame_facts:
  assumes "rq_frame s s'"
  shows "prio s' = prio s" "dline s' = dline s" "st s' = st s" "dl_link s' = dl_link s"
    "deadline_list s' = deadline_list s" "current_task s' = current_task s"
    "sched_initialized s' = sched_initialized s"
    "preemption_disable_count s' = preemption_disable_count s"
  using assms by (auto simp: rq_frame_iff)

lemma rq_frame_at:
  assumes "rq_frame s s'"
  shows "prio s' i = prio s i" "dline s' i = dline s i" "st s' i = st s i"
    "dl_link s' i = dl_link s i"
  using assms by (auto simp: rq_frame_iff)

lemma dl_frame_iff:
  "dl_frame s s' \<longleftrightarrow>
     (\<exists>nx h. s' = s\<lparr>tasks := \<lambda>j. (tasks s j)\<lparr>next_deadline := nx j\<rparr>, deadline_list := h\<rparr>)"
proof
  assume "dl_frame s s'"
  then have 1: "s'\<lparr>tasks := tasks s, deadline_list := deadline_list s\<rparr> = s"
    and 2: "\<And>j. (tasks s' j)\<lparr>next_deadline := dl_link s j\<rparr> = tasks s j"
    by (auto simp: dl_frame_def)
  have "(tasks s j)\<lparr>next_deadline := dl_link s' j\<rparr> = tasks s' j" for j
    using 2 [of j] by (metis task.surjective task.update_convs(10))
  moreover have "s' = s\<lparr>tasks := tasks s', deadline_list := deadline_list s'\<rparr>"
    using 1 by (metis sched.surjective sched.update_convs(1,5))
  ultimately have
    "s' = s\<lparr>tasks := \<lambda>j. (tasks s j)\<lparr>next_deadline := dl_link s' j\<rparr>, deadline_list := deadline_list s'\<rparr>"
    by simp
  then show "\<exists>nx h. s' = s\<lparr>tasks := \<lambda>j. (tasks s j)\<lparr>next_deadline := nx j\<rparr>, deadline_list := h\<rparr>"
    by (intro exI)
qed (auto simp: dl_frame_def)

lemma dl_frame_trans [trans]:
  assumes "dl_frame s s1" "dl_frame s1 s2"
  shows "dl_frame s s2"
proof -
  obtain nx h where "s2 = s\<lparr>tasks := \<lambda>j. (tasks s j)\<lparr>next_deadline := nx j\<rparr>, deadline_list := h\<rparr>"
    using assms by (auto simp: dl_frame_iff)
  then show ?thesis unfolding dl_frame_iff by (intro exI)
qed

lemma dl_frame_refl [simp]: "dl_frame s s"
  by (simp add: dl_frame_def)

lemma dl_frame_facts:
  assumes "dl_frame s s'"
  shows "prio s' = prio s" "dline s' = dline s" "st s' = st s" "rq_link s' = rq_link s"
    "ready_queue s' = ready_queue s" "current_task s' = current_task s"
    "sched_initialized s' = sched_initialized s"
    "preemption_disable_count s' = preemption_disable_count s"
  using assms by (auto simp: dl_frame_iff)

lemma dl_frame_at:
  assumes "dl_frame s s'"
  shows "prio s' i = prio s i" "dline s' i = dline s i" "st s' i = st s i"
    "rq_link s' i = rq_link s i"
  using assms by (auto simp: dl_frame_iff)

lemma rq_frame_set_prio:
  assumes "rq_frame s s1"
  shows "rq_frame (upd_task i (\<lambda>x. x\<lparr>priority := p\<rparr>) s) (upd_task i (\<lambda>x. x\<lparr>priority := p\<rparr>) s1)"
proof -
  obtain nx h where s1: "s1 = s\<lparr>tasks := \<lambda>j. (tasks s j)\<lparr>next_task := nx j\<rparr>, ready_queue := h\<rparr>"
    using assms by (auto simp: rq_frame_iff)
  show ?thesis
    unfolding rq_frame_iff
    by (intro exI [of _ nx] exI [of _ h]) (auto simp: s1 upd_task_def fun_eq_iff)
qed

lemma ready_queue_insert_frame: "ready_queue_insert t s = Some s' \<Longrightarrow> rq_frame s s'"
  by (auto simp: ready_queue_insert_def rq_frame_def Let_def
      split: option.splits if_splits bind_splits)

lemma ready_queue_remove_frame: "ready_queue_remove t s = Some s' \<Longrightarrow> rq_frame s s'"
  by (auto simp: ready_queue_remove_def rq_frame_def Let_def
      split: option.splits if_splits bind_splits)

lemma deadline_list_insert_frame: "deadline_list_insert t s = Some s' \<Longrightarrow> dl_frame s s'"
  by (auto simp: deadline_list_insert_def dl_frame_def Let_def
      split: option.splits if_splits bind_splits)

lemma deadline_list_remove_frame: "deadline_list_remove t s = Some s' \<Longrightarrow> dl_frame s s'"
  by (auto simp: deadline_list_remove_def dl_frame_def Let_def
      split: option.splits if_splits bind_splits)

text \<open>Both searches succeed on a list that ends.\<close>

lemma rq_scan_last:
  "chain (rq_link s) (rq_link s c) ys \<Longrightarrow>
   rq_scan s p c = Some (last (c # takeWhile (\<lambda>y. prio s y \<le> p) ys))"
  by (rule chain_scan [where nxt = "rq_link s"]) (auto simp: rq_scan.simps [of s p])

lemma rq_before_last:
  "chain (rq_link s) (rq_link s c) ys \<Longrightarrow>
   rq_before s i c = Some (if i \<in> set ys then Some (last (c # takeWhile (\<lambda>y. y \<noteq> i) ys)) else None)"
  by (rule chain_before [where nxt = "rq_link s"]) (auto simp: rq_before.simps [of s i])

lemma dl_scan_last:
  "chain (dl_link s) (dl_link s c) ys \<Longrightarrow>
   dl_scan s p c = Some (last (c # takeWhile (\<lambda>y. dline s y \<le> p) ys))"
  by (rule chain_scan [where nxt = "dl_link s"]) (auto simp: dl_scan.simps [of s p])

lemma dl_before_last:
  "chain (dl_link s) (dl_link s c) ys \<Longrightarrow>
   dl_before s i c = Some (if i \<in> set ys then Some (last (c # takeWhile (\<lambda>y. y \<noteq> i) ys)) else None)"
  by (rule chain_before [where nxt = "dl_link s"]) (auto simp: dl_before.simps [of s i])

text \<open>How the two outcomes of a search split the list.\<close>

lemma insert_point:
  assumes "P h" "c = last (h # takeWhile P t)"
  shows "\<exists>us. h # t = us @ c # dropWhile P t \<and> takeWhile P (h # t) = us @ [c]"
proof -
  obtain us where us: "takeWhile P (h # t) = us @ [c]"
    using last_take_split [OF refl, of P h t] assms by auto
  then have "h # t = (us @ [c]) @ dropWhile P (h # t)"
    by (metis takeWhile_dropWhile_id)
  then have "h # t = us @ c # dropWhile P t"
    using assms(1) by simp
  with us show ?thesis by blast
qed

lemma remove_point:
  assumes "i \<in> set t" "i \<noteq> h" "distinct (h # t)" "c = last (h # takeWhile (\<lambda>y. y \<noteq> i) t)"
  shows "\<exists>us vs. h # t = us @ c # i # vs \<and> remove1 i (h # t) = us @ c # vs"
proof -
  obtain us where us: "h # t = us @ c # dropWhile (\<lambda>y. y \<noteq> i) t"
    "takeWhile (\<lambda>y. y \<noteq> i) (h # t) = us @ [c]"
    using insert_point [of "\<lambda>y. y \<noteq> i" h, OF assms(2) [THEN not_sym] assms(4)] by blast
  have "dropWhile (\<lambda>y. y \<noteq> i) t \<noteq> []"
    using assms(1) by (auto simp: dropWhile_eq_Nil_conv)
  then obtain vs where vs: "dropWhile (\<lambda>y. y \<noteq> i) t = i # vs"
    using hd_dropWhile [of "\<lambda>y. y \<noteq> i" t] by (cases "dropWhile (\<lambda>y. y \<noteq> i) t") auto
  with us(1) assms(3) have "remove1 i (h # t) = us @ c # vs"
    by (auto simp: remove1_append)
  with us vs show ?thesis by auto
qed

theorem ready_queue_insert_refines:
  assumes c: "chain (rq_link s) (ready_queue s) xs" and i: "i \<notin> set xs" "st s i = TASK_READY"
  shows "\<exists>s'. ready_queue_insert (Some i) s = Some s' \<and> prio s' = prio s \<and>
           chain (rq_link s') (ready_queue s') (ordered_insert (prio s) i xs)"
proof -
  have "\<exists>s'. ready_queue_insert (Some i) s = Some s' \<and>
          chain (rq_link s') (ready_queue s') (ordered_insert (prio s) i xs)"
  proof (cases xs)
    case Nil
    with c i(2) show ?thesis
      by (auto simp: ready_queue_insert_def ordered_insert_def)
  next
    case (Cons h t)
    show ?thesis
    proof (cases "prio s i < prio s h")
      case True
      with c i Cons show ?thesis
        by (auto simp: ready_queue_insert_def ordered_insert_def)
    next
      case False
      let ?P = "\<lambda>y. prio s y \<le> prio s i"
      obtain cur where cur: "cur = last (h # takeWhile ?P t)" by simp
      have scan: "rq_scan s (prio s i) h = Some cur"
        using c Cons by (simp add: rq_scan_last [of s h t] cur)
      obtain us where us: "h # t = us @ cur # dropWhile ?P t" "takeWhile ?P (h # t) = us @ [cur]"
        using insert_point [of ?P h, OF _ cur] False by (metis not_less)
      have "ordered_insert (prio s) i xs = us @ cur # i # dropWhile ?P t"
        unfolding ordered_insert_def Cons us(2) using False by simp
      then have "chain ((rq_link s)(i := rq_link s cur, cur := Some i)) (ready_queue s)
          (ordered_insert (prio s) i xs)"
        using chain_insert_after [of "rq_link s" "ready_queue s" us cur "dropWhile ?P t" i]
          c i(1) Cons us(1) by simp
      moreover have "ready_queue s = Some h"
        using c Cons by simp
      ultimately show ?thesis
        using scan i(2) False
        by (simp del: fun_upd_apply add: ready_queue_insert_def)
    qed
  qed
  then show ?thesis
    using ready_queue_insert_frame rq_frame_facts(1) by blast
qed

theorem ready_queue_remove_refines:
  assumes c: "chain (rq_link s) (ready_queue s) xs"
  shows "\<exists>s'. ready_queue_remove (Some i) s = Some s' \<and> prio s' = prio s \<and>
           chain (rq_link s') (ready_queue s') (remove1 i xs)"
proof -
  have "\<exists>s'. ready_queue_remove (Some i) s = Some s' \<and>
          chain (rq_link s') (ready_queue s') (remove1 i xs)"
  proof (cases xs)
    case Nil
    with c show ?thesis by (simp add: ready_queue_remove_def)
  next
    case (Cons h t)
    consider "h = i" | "h \<noteq> i" "i \<notin> set t" | "h \<noteq> i" "i \<in> set t" by blast
    then show ?thesis
    proof cases
      case 1
      with c Cons show ?thesis
        using chain_remove_front [of "rq_link s" "ready_queue s" i t]
        by (auto simp del: fun_upd_apply simp: ready_queue_remove_def)
    next
      case 2
      with c Cons show ?thesis
        by (simp add: ready_queue_remove_def rq_before_last [of s h t] remove1_idem)
    next
      case 3
      obtain cur where cur: "cur = last (h # takeWhile (\<lambda>y. y \<noteq> i) t)" by simp
      have "distinct (h # t)"
        using chain_distinct c Cons by blast
      then obtain us vs where us: "h # t = us @ cur # i # vs" "remove1 i (h # t) = us @ cur # vs"
        using remove_point [OF 3(2) 3(1) [symmetric] _ cur] by blast
      with chain_remove_after [of "rq_link s" "ready_queue s" us cur i vs] c Cons
      have "chain ((rq_link s)(cur := rq_link s i, i := None)) (ready_queue s) (remove1 i xs)"
        by simp
      moreover have "rq_before s i h = Some (Some cur)"
        using c Cons 3 cur by (simp add: rq_before_last [of s h t])
      moreover have "ready_queue s = Some h"
        using c Cons by simp
      ultimately show ?thesis
        using 3(1) by (simp del: fun_upd_apply add: ready_queue_remove_def)
    qed
  qed
  then show ?thesis
    using ready_queue_remove_frame rq_frame_facts(1) by blast
qed

theorem deadline_list_insert_refines:
  assumes c: "chain (dl_link s) (deadline_list s) xs" and i: "i \<notin> set xs" "dline s i \<noteq> 0"
  shows "\<exists>s'. deadline_list_insert (Some i) s = Some s' \<and> dline s' = dline s \<and>
           chain (dl_link s') (deadline_list s') (ordered_insert (dline s) i xs)"
proof -
  have "\<exists>s'. deadline_list_insert (Some i) s = Some s' \<and>
          chain (dl_link s') (deadline_list s') (ordered_insert (dline s) i xs)"
  proof (cases xs)
    case Nil
    with c i(2) show ?thesis
      by (auto simp: deadline_list_insert_def ordered_insert_def)
  next
    case (Cons h t)
    show ?thesis
    proof (cases "dline s i < dline s h")
      case True
      with c i Cons show ?thesis
        by (auto simp: deadline_list_insert_def ordered_insert_def)
    next
      case False
      let ?P = "\<lambda>y. dline s y \<le> dline s i"
      obtain cur where cur: "cur = last (h # takeWhile ?P t)" by simp
      have scan: "dl_scan s (dline s i) h = Some cur"
        using c Cons by (simp add: dl_scan_last [of s h t] cur)
      obtain us where us: "h # t = us @ cur # dropWhile ?P t" "takeWhile ?P (h # t) = us @ [cur]"
        using insert_point [of ?P h, OF _ cur] False by (metis not_less)
      have "ordered_insert (dline s) i xs = us @ cur # i # dropWhile ?P t"
        unfolding ordered_insert_def Cons us(2) using False by simp
      then have "chain ((dl_link s)(i := dl_link s cur, cur := Some i)) (deadline_list s)
          (ordered_insert (dline s) i xs)"
        using chain_insert_after [of "dl_link s" "deadline_list s" us cur "dropWhile ?P t" i]
          c i(1) Cons us(1) by simp
      moreover have "deadline_list s = Some h"
        using c Cons by simp
      ultimately show ?thesis
        using scan i(2) False
        by (simp del: fun_upd_apply add: deadline_list_insert_def)
    qed
  qed
  then show ?thesis
    using deadline_list_insert_frame dl_frame_facts(2) by blast
qed

theorem deadline_list_remove_refines:
  assumes c: "chain (dl_link s) (deadline_list s) xs"
  shows "\<exists>s'. deadline_list_remove (Some i) s = Some s' \<and> dline s' = dline s \<and>
           chain (dl_link s') (deadline_list s') (remove1 i xs)"
proof -
  have "\<exists>s'. deadline_list_remove (Some i) s = Some s' \<and>
          chain (dl_link s') (deadline_list s') (remove1 i xs)"
  proof (cases xs)
    case Nil
    with c show ?thesis by (simp add: deadline_list_remove_def)
  next
    case (Cons h t)
    consider "h = i" | "h \<noteq> i" "i \<notin> set t" | "h \<noteq> i" "i \<in> set t" by blast
    then show ?thesis
    proof cases
      case 1
      with c Cons show ?thesis
        using chain_remove_front [of "dl_link s" "deadline_list s" i t]
        by (auto simp del: fun_upd_apply simp: deadline_list_remove_def)
    next
      case 2
      with c Cons show ?thesis
        by (simp add: deadline_list_remove_def dl_before_last [of s h t] remove1_idem)
    next
      case 3
      obtain cur where cur: "cur = last (h # takeWhile (\<lambda>y. y \<noteq> i) t)" by simp
      have "distinct (h # t)"
        using chain_distinct c Cons by blast
      then obtain us vs where us: "h # t = us @ cur # i # vs" "remove1 i (h # t) = us @ cur # vs"
        using remove_point [OF 3(2) 3(1) [symmetric] _ cur] by blast
      with chain_remove_after [of "dl_link s" "deadline_list s" us cur i vs] c Cons
      have "chain ((dl_link s)(cur := dl_link s i, i := None)) (deadline_list s) (remove1 i xs)"
        by simp
      moreover have "dl_before s i h = Some (Some cur)"
        using c Cons 3 cur by (simp add: dl_before_last [of s h t])
      moreover have "deadline_list s = Some h"
        using c Cons by simp
      ultimately show ?thesis
        using 3(1) by (simp del: fun_upd_apply add: deadline_list_remove_def)
    qed
  qed
  then show ?thesis
    using deadline_list_remove_frame dl_frame_facts(2) by blast
qed

interpretation rq: ordered_queue ready_queue rq_link prio "\<lambda>s i. st s i = TASK_READY"
    ready_queue_insert ready_queue_remove
  by unfold_locales (rule ready_queue_insert_refines ready_queue_remove_refines; assumption)+

interpretation dl: ordered_queue deadline_list dl_link dline "\<lambda>s i. dline s i \<noteq> 0"
    deadline_list_insert deadline_list_remove
  by unfold_locales (rule deadline_list_insert_refines deadline_list_remove_refines; assumption)+

end
