(* ===== verification/Sched.thy ===== *)
theory Sched
  imports TaskQueues
begin

text \<open>
  The scheduler of \<^verbatim>\<open>src/kernel/core/task.c\<close>: deadline checks, priority inheritance,
  \<open>schedule\<close> and the task API, over the lists of \<^verbatim>\<open>TaskQueues\<close>. A context switch ends the
  run of the calling task, so \<open>schedule\<close> returns the switch it asks for
  (\<open>SwitchTo\<close>); what the code does when the task is resumed is \<open>schedule_resume\<close>. The
  timer is an argument (\<open>now\<close>), so are the address of the trampoline and the outcome of
  \<open>kmalloc\<close>. An operation is \<open>None\<close> when it does not return or writes outside its buffers.
\<close>

section \<open>Initialisation and task creation\<close>

definition zero_task :: task where
  "zero_task = \<lparr>tid = 0, tname = '''', tstate = TASK_READY, stack_base = 0, stack_pointer = 0,
     entry = 0, priority = 0, deadline = 0, next_task = None, next_deadline = None, cpu_id = 0,
     cpu_affinity = 0, original_priority = 0, blocked_on = None, waiting_tasks = None\<rparr>"

definition sched_static :: sched where
  "sched_static = \<lparr>tasks = (\<lambda>_. zero_task), current_task = None, task_list = None,
     ready_queue = None, deadline_list = None, next_tid = 1, sched_initialized = False,
     ticks_remaining = 0, context_switches = 0, preemptions = 0, preemption_disable_count = 0,
     preemption_pending = False, priority_inversions = 0, switch_in_progress = False,
     stack_words = (\<lambda>_. 0)\<rparr>"

definition scheduler_init :: "sched \<Rightarrow> sched" where
  "scheduler_init s =
     (fold (\<lambda>i. upd_task i (\<lambda>x. x\<lparr>tstate := TASK_DEAD, tid := 0\<rparr>)) [0..<MAX_TASKS] s)
       \<lparr>sched_initialized := True\<rparr>"

definition find_dead :: "sched \<Rightarrow> nat option" where
  "find_dead s = find (\<lambda>i. st s i = TASK_DEAD) [0..<MAX_TASKS]"

text \<open>The initial context frame, stored downwards from the top of the stack.\<close>

definition push_words :: "u64 list \<Rightarrow> nat \<times> (nat \<Rightarrow> u64) \<Rightarrow> nat \<times> (nat \<Rightarrow> u64)" where
  "push_words ws pm = fold (\<lambda>w (sp, m). (sp - 8, m(sp - 8 := w))) ws pm"

definition initial_frame :: "u64 \<Rightarrow> u64 list" where
  "initial_frame trampoline = [0, trampoline, 0x202, 0, 0, 0, 0, 0, 0]"

text \<open>
  \<open>stack\<close> is the outcome of \<open>kmalloc(TASK_STACK_SIZE)\<close>. A name of 31 characters or more
  makes \<open>strncpy\<close> of \<^verbatim>\<open>lib/string.c\<close> run past the buffer (see \<^verbatim>\<open>CString\<close>).
\<close>

definition task_create ::
    "u64 \<Rightarrow> nat option \<Rightarrow> string \<Rightarrow> nat \<Rightarrow> u8 \<Rightarrow> sched \<Rightarrow> (nat option \<times> sched) option" where
  "task_create trampoline stack name ent prio0 s =
     (case find_dead s of
        None \<Rightarrow> Some (None, s)
      | Some i \<Rightarrow>
          if 31 \<le> length name then None
          else
            let p = (if 31 < prio0 then 31 else prio0);
                s1 = (upd_task i (\<lambda>x. x\<lparr>tid := next_tid s, tname := name, entry := ent,
                        tstate := TASK_READY, priority := p, deadline := 0, next_deadline := None,
                        cpu_id := 0, cpu_affinity := 0xFFFFFFFF, original_priority := p,
                        blocked_on := None, waiting_tasks := None\<rparr>) s)
                       \<lparr>next_tid := next_tid s + 1\<rparr>
            in (case stack of
                  None \<Rightarrow> Some (None, upd_task i (\<lambda>x. x\<lparr>stack_base := 0, tstate := TASK_DEAD\<rparr>) s1)
                | Some base \<Rightarrow>
                    let (sp, m) = push_words (initial_frame trampoline)
                                    (base + TASK_STACK_SIZE, stack_words s1);
                        s2 = (upd_task i (\<lambda>x. x\<lparr>stack_base := base, stack_pointer := sp,
                                next_task := task_list s1\<rparr>) s1)
                               \<lparr>stack_words := m, task_list := Some i\<rparr>
                    in map_option (Pair (Some i)) (ready_queue_insert (Some i) s2)))"

section \<open>Changing the priority of a task\<close>

text \<open>
  The sequence the code uses wherever a priority changes: a ready task leaves the queue and
  enters it again with the new priority.
\<close>

definition reprioritise :: "nat \<Rightarrow> u8 \<Rightarrow> sched \<Rightarrow> sched option" where
  "reprioritise i p s =
     (if st s i = TASK_READY
      then do {
        s1 \<leftarrow> ready_queue_remove (Some i) s;
        ready_queue_insert (Some i) (upd_task i (\<lambda>x. x\<lparr>priority := p\<rparr>) s1)
      }
      else Some (upd_task i (\<lambda>x. x\<lparr>priority := p\<rparr>) s))"

definition task_set_priority :: "nat option \<Rightarrow> u8 \<Rightarrow> sched \<Rightarrow> sched option" where
  "task_set_priority t p s =
     (case t of None \<Rightarrow> Some s
      | Some i \<Rightarrow> reprioritise i (if 31 < p then 31 else p) s)"

definition task_get_priority :: "nat option \<Rightarrow> sched \<Rightarrow> u8" where
  "task_get_priority t s = (case t of None \<Rightarrow> 31 | Some i \<Rightarrow> prio s i)"

section \<open>Deadlines\<close>

partial_function (option) check_deadlines_from :: "u64 \<Rightarrow> nat option \<Rightarrow> sched \<Rightarrow> sched option" where
  "check_deadlines_from now t s =
     (case t of
        None \<Rightarrow> Some s
      | Some i \<Rightarrow>
          if dline s i = 0 then check_deadlines_from now (dl_link s i) s
          else if dline s i < now
          then check_deadlines_from now (dl_link s i) (upd_task i (\<lambda>x. x\<lparr>deadline := 0\<rparr>) s)
          else if dline s i - now < 10 \<and> 0 < prio s i
          then do {
            s1 \<leftarrow> reprioritise i 0 s;
            check_deadlines_from now (dl_link s1 i) s1
          }
          else check_deadlines_from now (dl_link s i) s)"

definition check_deadlines :: "u64 \<Rightarrow> sched \<Rightarrow> sched option" where
  "check_deadlines now s = check_deadlines_from now (deadline_list s) s"

definition task_set_deadline :: "nat option \<Rightarrow> u64 \<Rightarrow> sched \<Rightarrow> sched option" where
  "task_set_deadline t d s =
     (case t of None \<Rightarrow> Some s
      | Some i \<Rightarrow> do {
          s1 \<leftarrow> (if dline s i \<noteq> 0 then deadline_list_remove (Some i) s else Some s);
          let s2 = upd_task i (\<lambda>x. x\<lparr>deadline := d\<rparr>) s1;
          (if d \<noteq> 0 then deadline_list_insert (Some i) s2 else Some s2)
        })"

definition task_get_deadline :: "nat option \<Rightarrow> sched \<Rightarrow> u64" where
  "task_get_deadline t s = (case t of None \<Rightarrow> 0 | Some i \<Rightarrow> dline s i)"

section \<open>The scheduler\<close>

datatype outcome = Return | SwitchTo "nat option" nat

definition schedule :: "u64 \<Rightarrow> sched \<Rightarrow> (outcome \<times> sched) option" where
  "schedule now s =
     (if \<not> sched_initialized s then Some (Return, s)
      else do {
        s1 \<leftarrow> check_deadlines now s;
        let prev = current_task s1;
        let s2 = s1\<lparr>switch_in_progress := True\<rparr>;
        s3 \<leftarrow> (case prev of
                 None \<Rightarrow> Some s2
               | Some p \<Rightarrow>
                   if st s2 p = TASK_RUNNING
                   then ready_queue_insert (Some p) (upd_task p (\<lambda>x. x\<lparr>tstate := TASK_READY\<rparr>) s2)
                   else Some s2);
        (case ready_queue s3 of
           None \<Rightarrow> Some (Return, s3\<lparr>current_task := None, switch_in_progress := False\<rparr>)
         | Some n \<Rightarrow> do {
             s4 \<leftarrow> ready_queue_remove (Some n) s3;
             let s5 = (upd_task n (\<lambda>x. x\<lparr>tstate := TASK_RUNNING\<rparr>) s4)\<lparr>ticks_remaining := 10\<rparr>;
             (if prev \<noteq> Some n
              then Some (SwitchTo prev n,
                     s5\<lparr>context_switches := context_switches s4 + 1, current_task := Some n\<rparr>)
              else Some (Return, s5\<lparr>switch_in_progress := False\<rparr>))
           })
      })"

text \<open>The rest of \<open>schedule\<close>, run when the switched-out task \<open>p\<close> is resumed.\<close>

definition schedule_resume :: "nat \<Rightarrow> sched \<Rightarrow> sched" where
  "schedule_resume p s =
     (upd_task p (\<lambda>x. x\<lparr>tstate := TASK_RUNNING\<rparr>) s)\<lparr>switch_in_progress := False\<rparr>"

definition scheduler_tick :: "sched \<Rightarrow> sched" where
  "scheduler_tick s =
     (if \<not> sched_initialized s then s
      else case current_task s of
        None \<Rightarrow> s
      | Some c \<Rightarrow>
          let s1 = (if 0 < ticks_remaining s
                    then s\<lparr>ticks_remaining := ticks_remaining s - 1\<rparr> else s);
              higher = (case ready_queue s1 of None \<Rightarrow> False | Some h \<Rightarrow> prio s1 h < prio s1 c);
              peer = (case ready_queue s1 of None \<Rightarrow> False | Some h \<Rightarrow> prio s1 h \<le> prio s1 c)
          in if 0 < preemption_disable_count s1
             then (if higher then s1\<lparr>preemption_pending := True\<rparr> else s1)
             else if higher then s1\<lparr>preemption_pending := True\<rparr>
             else if ticks_remaining s1 = 0
             then (if peer then s1\<lparr>preemption_pending := True\<rparr> else s1\<lparr>ticks_remaining := 10\<rparr>)
             else s1)"

definition task_yield :: "u64 \<Rightarrow> sched \<Rightarrow> (outcome \<times> sched) option" where
  "task_yield now s = schedule now s"

definition task_block :: "u64 \<Rightarrow> sched \<Rightarrow> (outcome \<times> sched) option" where
  "task_block now s =
     (case current_task s of
        None \<Rightarrow> Some (Return, s)
      | Some c \<Rightarrow> schedule now (upd_task c (\<lambda>x. x\<lparr>tstate := TASK_BLOCKED\<rparr>) s))"

definition task_wake :: "nat option \<Rightarrow> sched \<Rightarrow> sched option" where
  "task_wake t s =
     (case t of
        None \<Rightarrow> Some s
      | Some i \<Rightarrow>
          if st s i \<noteq> TASK_BLOCKED then Some s
          else ready_queue_insert (Some i) (upd_task i (\<lambda>x. x\<lparr>tstate := TASK_READY\<rparr>) s))"

text \<open>\<open>task_exit\<close> halts the machine when \<open>schedule\<close> returns.\<close>

datatype exit_outcome = Exit_returns | Halted | Exit_switch "nat option" nat

definition task_exit :: "u64 \<Rightarrow> sched \<Rightarrow> (exit_outcome \<times> sched) option" where
  "task_exit now s =
     (case current_task s of
        None \<Rightarrow> Some (Exit_returns, s)
      | Some c \<Rightarrow> do {
          s1 \<leftarrow> ready_queue_remove (Some c) (upd_task c (\<lambda>x. x\<lparr>tstate := TASK_DEAD\<rparr>) s);
          s2 \<leftarrow> deadline_list_remove (Some c) s1;
          (r, s3) \<leftarrow> schedule now s2;
          Some ((case r of Return \<Rightarrow> Halted | SwitchTo p n \<Rightarrow> Exit_switch p n), s3)
        })"

definition scheduler_disable_preemption :: "sched \<Rightarrow> sched" where
  "scheduler_disable_preemption s =
     s\<lparr>preemption_disable_count := preemption_disable_count s + 1\<rparr>"

definition scheduler_enable_preemption :: "u64 \<Rightarrow> sched \<Rightarrow> (outcome \<times> sched) option" where
  "scheduler_enable_preemption now s =
     (if preemption_disable_count s = 0 then Some (Return, s)
      else
        let s1 = s\<lparr>preemption_disable_count := preemption_disable_count s - 1\<rparr>
        in if preemption_disable_count s1 = 0 \<and> preemption_pending s1
           then
             let s2 = s1\<lparr>preemption_pending := False\<rparr>
             in (case (ready_queue s2, current_task s2) of
                   (Some h, Some c) \<Rightarrow>
                     if prio s2 h < prio s2 c
                     then schedule now (s2\<lparr>preemptions := preemptions s2 + 1\<rparr>)
                     else Some (Return, s2)
                 | _ \<Rightarrow> Some (Return, s2))
           else Some (Return, s1))"

section \<open>CPU affinity\<close>

definition task_set_affinity :: "nat option \<Rightarrow> u32 \<Rightarrow> sched \<Rightarrow> sched" where
  "task_set_affinity t cpu_mask s =
     (case t of None \<Rightarrow> s | Some i \<Rightarrow> upd_task i (\<lambda>x. x\<lparr>cpu_affinity := cpu_mask\<rparr>) s)"

definition task_get_affinity :: "nat option \<Rightarrow> sched \<Rightarrow> u32" where
  "task_get_affinity t s = (case t of None \<Rightarrow> 0 | Some i \<Rightarrow> cpu_affinity (tasks s i))"

definition task_pin_to_cpu :: "nat option \<Rightarrow> u32 \<Rightarrow> sched \<Rightarrow> sched" where
  "task_pin_to_cpu t c s =
     (case t of None \<Rightarrow> s
      | Some i \<Rightarrow>
          if c < 32 then upd_task i (\<lambda>x. x\<lparr>cpu_affinity := push_bit (unat c) 1, cpu_id := c\<rparr>) s
          else s)"

definition task_get_cpu :: "nat option \<Rightarrow> sched \<Rightarrow> u32" where
  "task_get_cpu t s = (case t of None \<Rightarrow> 0 | Some i \<Rightarrow> cpu_id (tasks s i))"

section \<open>Priority inheritance\<close>

definition task_inherit_priority ::
    "u64 \<Rightarrow> nat option \<Rightarrow> nat option \<Rightarrow> sched \<Rightarrow> (outcome \<times> sched) option" where
  "task_inherit_priority now holder waiter s =
     (case (holder, waiter) of
        (Some h, Some w) \<Rightarrow>
          if prio s w < prio s h
          then do {
            s1 \<leftarrow> reprioritise h (prio s w) s;
            (case current_task s1 of
               None \<Rightarrow> Some (Return, s1)
             | Some c \<Rightarrow>
                 if st s1 h = TASK_READY \<and> prio s1 h < prio s1 c
                 then (if preemption_disable_count s1 = 0
                       then schedule now (s1\<lparr>preemptions := preemptions s1 + 1\<rparr>)
                       else Some (Return, s1\<lparr>preemption_pending := True\<rparr>))
                 else Some (Return, s1))
          }
          else Some (Return, s)
      | _ \<Rightarrow> Some (Return, s))"

partial_function (option) highest_waiter :: "sched \<Rightarrow> u8 \<Rightarrow> nat option \<Rightarrow> u8 option" where
  "highest_waiter s best w =
     (case w of
        None \<Rightarrow> Some best
      | Some i \<Rightarrow> highest_waiter s (if prio s i < best then prio s i else best) (rq_link s i))"

definition task_restore_priority :: "nat option \<Rightarrow> sched \<Rightarrow> sched option" where
  "task_restore_priority t s =
     (case t of
        None \<Rightarrow> Some s
      | Some i \<Rightarrow>
          if prio s i \<noteq> original_priority (tasks s i)
          then do {
            best \<leftarrow> highest_waiter s (original_priority (tasks s i)) (waiting_tasks (tasks s i));
            (if best \<noteq> prio s i then reprioritise i best s else Some s)
          }
          else Some s)"

definition task_add_waiter ::
    "u64 \<Rightarrow> nat option \<Rightarrow> nat option \<Rightarrow> sched \<Rightarrow> (outcome \<times> sched) option" where
  "task_add_waiter now holder waiter s =
     (case (holder, waiter) of
        (Some h, Some w) \<Rightarrow>
          let s1 = (if prio s w < prio s h
                    then s\<lparr>priority_inversions := priority_inversions s + 1\<rparr> else s);
              s2 = upd_task w (\<lambda>x. x\<lparr>next_task := waiting_tasks (tasks s1 h)\<rparr>) s1;
              s3 = upd_task h (\<lambda>x. x\<lparr>waiting_tasks := Some w\<rparr>) s2;
              s4 = upd_task w (\<lambda>x. x\<lparr>blocked_on := Some h\<rparr>) s3
          in task_inherit_priority now holder waiter s4
      | _ \<Rightarrow> Some (Return, s))"

definition task_remove_waiter :: "nat option \<Rightarrow> nat option \<Rightarrow> sched \<Rightarrow> sched option" where
  "task_remove_waiter holder waiter s =
     (case (holder, waiter) of
        (Some h, Some w) \<Rightarrow> do {
          s1 \<leftarrow> (if waiting_tasks (tasks s h) = Some w
                 then Some (upd_task h (\<lambda>x. x\<lparr>waiting_tasks := rq_link s w\<rparr>) s)
                 else (case waiting_tasks (tasks s h) of
                   None \<Rightarrow> Some s
                 | Some c \<Rightarrow> do {
                     found \<leftarrow> rq_before s w c;
                     (case found of
                        None \<Rightarrow> Some s
                      | Some cur \<Rightarrow> Some (upd_task cur (\<lambda>x. x\<lparr>next_task := rq_link s w\<rparr>) s))
                   }));
          let s2 = upd_task w (\<lambda>x. x\<lparr>blocked_on := None, next_task := None\<rparr>) s1;
          task_restore_priority (Some h) s2
        }
      | _ \<Rightarrow> Some s)"

section \<open>The invariant\<close>

definition rq_ok :: "sched \<Rightarrow> nat list \<Rightarrow> bool" where
  "rq_ok s xs \<longleftrightarrow> chain (rq_link s) (ready_queue s) xs \<and> sorted (map (prio s) xs) \<and>
     set xs = {i. i < MAX_TASKS \<and> st s i = TASK_READY}"

definition dl_ok :: "sched \<Rightarrow> nat list \<Rightarrow> bool" where
  "dl_ok s ys \<longleftrightarrow> chain (dl_link s) (deadline_list s) ys \<and> sorted (map (dline s) ys) \<and>
     set ys \<subseteq> {i. i < MAX_TASKS \<and> st s i \<noteq> TASK_DEAD} \<and>
     {i. i < MAX_TASKS \<and> st s i \<noteq> TASK_DEAD \<and> dline s i \<noteq> 0} \<subseteq> set ys"

definition cur_weak :: "sched \<Rightarrow> bool" where
  "cur_weak s \<longleftrightarrow>
     (\<forall>c. current_task s = Some c \<longrightarrow> c < MAX_TASKS \<and> st s c \<noteq> TASK_READY) \<and>
     (\<forall>i<MAX_TASKS. st s i = TASK_RUNNING \<longrightarrow> current_task s = Some i)"

definition prio_ok :: "sched \<Rightarrow> bool" where
  "prio_ok s \<longleftrightarrow> (\<forall>i<MAX_TASKS. st s i \<noteq> TASK_DEAD \<longrightarrow> prio s i \<le> 31)"

text \<open>What \<open>schedule\<close> needs on entry, and what holds between two API calls.\<close>

definition sched_entry :: "sched \<Rightarrow> bool" where
  "sched_entry s \<longleftrightarrow> sched_initialized s \<and> cur_weak s \<and> prio_ok s \<and>
     (\<exists>xs. rq_ok s xs) \<and> (\<exists>ys. dl_ok s ys)"

definition sched_inv :: "sched \<Rightarrow> bool" where
  "sched_inv s \<longleftrightarrow> sched_entry s \<and>
     (\<forall>c. current_task s = Some c \<longrightarrow> st s c = TASK_RUNNING)"

lemma ok_scalar_simps [simp]:
  "rq_ok (s\<lparr>current_task := a\<rparr>) = rq_ok s" "dl_ok (s\<lparr>current_task := a\<rparr>) = dl_ok s"
  "rq_ok (s\<lparr>ticks_remaining := b\<rparr>) = rq_ok s" "dl_ok (s\<lparr>ticks_remaining := b\<rparr>) = dl_ok s"
  "rq_ok (s\<lparr>switch_in_progress := c\<rparr>) = rq_ok s" "dl_ok (s\<lparr>switch_in_progress := c\<rparr>) = dl_ok s"
  "rq_ok (s\<lparr>context_switches := d\<rparr>) = rq_ok s" "dl_ok (s\<lparr>context_switches := d\<rparr>) = dl_ok s"
  "rq_ok (s\<lparr>preemptions := d\<rparr>) = rq_ok s" "dl_ok (s\<lparr>preemptions := d\<rparr>) = dl_ok s"
  "rq_ok (s\<lparr>preemption_pending := c\<rparr>) = rq_ok s" "dl_ok (s\<lparr>preemption_pending := c\<rparr>) = dl_ok s"
  "rq_ok (s\<lparr>preemption_disable_count := b\<rparr>) = rq_ok s"
  "dl_ok (s\<lparr>preemption_disable_count := b\<rparr>) = dl_ok s"
  by (auto simp: rq_ok_def dl_ok_def fun_eq_iff)

lemma rq_ok_distinct: "rq_ok s xs \<Longrightarrow> distinct xs"
  by (auto simp: rq_ok_def dest: chain_distinct)

lemma dl_ok_distinct: "dl_ok s ys \<Longrightarrow> distinct ys"
  by (auto simp: dl_ok_def dest: chain_distinct)

text \<open>A task becomes ready; the head of the queue is dispatched; a priority changes.\<close>

lemma make_ready:
  assumes "rq_ok s xs" "p < MAX_TASKS" "st s p \<noteq> TASK_READY"
    and "s' = upd_task p (\<lambda>x. x\<lparr>tstate := TASK_READY\<rparr>) s"
  shows "\<exists>s''. ready_queue_insert (Some p) s' = Some s'' \<and>
           rq_ok s'' (ordered_insert (prio s) p xs) \<and> rq_frame s' s''"
proof -
  have p: "p \<notin> set xs" using assms by (auto simp: rq_ok_def)
  have c: "chain (rq_link s') (ready_queue s') xs" "prio s' = prio s"
    using assms p by (simp_all add: rq_ok_def)
  obtain s'' where s'': "ready_queue_insert (Some p) s' = Some s''" "prio s'' = prio s'"
    "chain (rq_link s'') (ready_queue s'') (ordered_insert (prio s) p xs)"
    using ready_queue_insert_refines [OF c(1) p] c(2) assms(4) by auto
  then have f: "rq_frame s' s''" by (simp add: ready_queue_insert_frame)
  have "st s'' i = (if i = p then TASK_READY else st s i)" for i
    using rq_frame_at(3) [OF f] assms(4) by simp
  then have "insert p (set xs) = {i. i < MAX_TASKS \<and> st s'' i = TASK_READY}"
    using assms(1,2) by (auto simp: rq_ok_def)
  moreover have "sorted (map (prio s'') (ordered_insert (prio s) p xs))"
    using assms(1) s''(2) c(2) sorted_ordered_insert [of "prio s" xs p] by (simp add: rq_ok_def)
  ultimately have "rq_ok s'' (ordered_insert (prio s) p xs)"
    using s''(3) by (simp add: rq_ok_def)
  with s'' f show ?thesis by blast
qed

lemma dispatch:
  assumes "rq_ok s (n # xs)"
  shows "\<exists>s'. ready_queue_remove (Some n) s = Some s' \<and> rq_frame s s' \<and>
           rq_ok (upd_task n (\<lambda>x. x\<lparr>tstate := TASK_RUNNING\<rparr>) s') xs"
proof -
  obtain s' where s': "ready_queue_remove (Some n) s = Some s'" "prio s' = prio s"
    "chain (rq_link s') (ready_queue s') xs"
    using ready_queue_remove_refines [of s "n # xs" n] assms by (auto simp: rq_ok_def)
  then have f: "rq_frame s s'" by (simp add: ready_queue_remove_frame)
  have "n \<notin> set xs" using rq_ok_distinct [OF assms] by simp
  then have "rq_ok (upd_task n (\<lambda>x. x\<lparr>tstate := TASK_RUNNING\<rparr>) s') xs"
    using assms s' rq_frame_at(3) [OF f] by (auto simp: rq_ok_def)
  with s' f show ?thesis by blast
qed

text \<open>The elements for which \<open>P\<close> holds keep their order when one for which it does not is moved.\<close>

definition same_order :: "('a \<Rightarrow> bool) \<Rightarrow> 'a list \<Rightarrow> 'a list \<Rightarrow> bool" where
  "same_order P xs ys \<longleftrightarrow> filter P ys = filter P xs"

lemma same_order_trans: "same_order P xs ys \<Longrightarrow> same_order P ys zs \<Longrightarrow> same_order P xs zs"
  by (simp add: same_order_def)

lemma same_order_mono: "same_order P xs ys \<Longrightarrow> (\<And>j. Q j \<Longrightarrow> P j) \<Longrightarrow> same_order Q xs ys"
proof -
  assume o: "same_order P xs ys" and i: "\<And>j. Q j \<Longrightarrow> P j"
  have "filter Q zs = filter Q (filter P zs)" for zs using i by (auto intro: filter_cong)
  with o show "same_order Q xs ys" unfolding same_order_def by metis
qed

lemma same_order_reinsert: "same_order (\<lambda>j. j \<noteq> i) xs (ordered_insert k i (remove1 i xs))"
proof -
  have "filter (\<lambda>j. j \<noteq> i) (ordered_insert k i zs) = filter (\<lambda>j. j \<noteq> i) zs" for zs
  proof -
    have "filter (\<lambda>j. j \<noteq> i) (takeWhile Q zs) @ filter (\<lambda>j. j \<noteq> i) (dropWhile Q zs) = filter (\<lambda>j. j \<noteq> i) zs" for Q
      by (simp only: filter_append [symmetric] takeWhile_dropWhile_id)
    then show ?thesis by (simp add: ordered_insert_def)
  qed
  moreover have "filter (\<lambda>j. j \<noteq> i) (remove1 i xs) = filter (\<lambda>j. j \<noteq> i) xs" by (induction xs) auto
  ultimately show ?thesis by (simp add: same_order_def)
qed

lemma reprioritise_ok:
  assumes "rq_ok s xs" "i < MAX_TASKS"
  shows "\<exists>s' xs'. reprioritise i p s = Some s' \<and> rq_ok s' xs' \<and>
           rq_frame (upd_task i (\<lambda>x. x\<lparr>priority := p\<rparr>) s) s' \<and> same_order (\<lambda>j. j \<noteq> i) xs xs'"
proof (cases "st s i = TASK_READY")
  case False
  with assms have "i \<notin> set xs" by (auto simp: rq_ok_def)
  with assms False have "rq_ok (upd_task i (\<lambda>x. x\<lparr>priority := p\<rparr>) s) xs"
    by (auto simp: rq_ok_def)
  with False show ?thesis by (auto simp: reprioritise_def same_order_def)
next
  case True
  obtain s1 where s1: "ready_queue_remove (Some i) s = Some s1" "prio s1 = prio s"
    "chain (rq_link s1) (ready_queue s1) (remove1 i xs)"
    using ready_queue_remove_refines [of s xs i] assms by (auto simp: rq_ok_def)
  then have f1: "rq_frame s s1" by (simp add: ready_queue_remove_frame)
  let ?s2 = "upd_task i (\<lambda>x. x\<lparr>priority := p\<rparr>) s1"
  have i: "i \<notin> set (remove1 i xs)" using rq_ok_distinct [OF assms(1)] by simp
  have st2: "st ?s2 i = TASK_READY" using True by (simp add: rq_frame_at [OF f1])
  obtain s' where s': "ready_queue_insert (Some i) ?s2 = Some s'" "prio s' = prio ?s2"
    "chain (rq_link s') (ready_queue s') (ordered_insert (prio ?s2) i (remove1 i xs))"
    using ready_queue_insert_refines [of ?s2 "remove1 i xs" i] s1(3) i st2 by auto
  then have f2: "rq_frame ?s2 s'" by (simp add: ready_queue_insert_frame)
  have "sorted (map (prio ?s2) (remove1 i xs))"
    using assms(1) i s1(2) sorted_map_remove1 [of "prio s" xs i] by (simp add: rq_ok_def)
  then have "sorted (map (prio s') (ordered_insert (prio ?s2) i (remove1 i xs)))"
    using sorted_ordered_insert s'(2) by metis
  moreover have "set (ordered_insert (prio ?s2) i (remove1 i xs)) = {j. j < MAX_TASKS \<and> st s' j = TASK_READY}"
    using assms True rq_ok_distinct [OF assms(1)] rq_frame_at(3) [OF f2] rq_frame_at(3) [OF f1]
    by (auto simp: rq_ok_def)
  ultimately have "rq_ok s' (ordered_insert (prio ?s2) i (remove1 i xs))"
    using s'(3) by (simp add: rq_ok_def)
  moreover have "rq_frame (upd_task i (\<lambda>x. x\<lparr>priority := p\<rparr>) s) s'"
    using rq_frame_trans [OF rq_frame_set_prio [OF f1] f2] .
  moreover have "same_order (\<lambda>j. j \<noteq> i) xs (ordered_insert (prio ?s2) i (remove1 i xs))"
    by (rule same_order_reinsert)
  ultimately show ?thesis
    using s1 s' True by (auto simp: reprioritise_def)
qed


text \<open>What a deadline check makes of the deadline and the priority of a listed task.\<close>

definition checked_deadline :: "u64 \<Rightarrow> u64 \<Rightarrow> u64" where
  "checked_deadline now d = (if d < now then 0 else d)"

definition boosted :: "u64 \<Rightarrow> u64 \<Rightarrow> u8 \<Rightarrow> u8" where
  "boosted now d p = (if d \<noteq> 0 \<and> now \<le> d \<and> d - now < 10 then 0 else p)"

definition check_task :: "u64 \<Rightarrow> task \<Rightarrow> task" where
  "check_task now x =
     x\<lparr>deadline := checked_deadline now (deadline x), priority := boosted now (deadline x) (priority x)\<rparr>"

definition check_all :: "u64 \<Rightarrow> nat list \<Rightarrow> sched \<Rightarrow> sched" where
  "check_all now ys s = s\<lparr>tasks := \<lambda>i. if i \<in> set ys then check_task now (tasks s i) else tasks s i\<rparr>"

lemma rq_frame_check_all:
  assumes "rq_frame s s1"
  shows "rq_frame (check_all now ys s) (check_all now ys s1)"
proof -
  obtain nx h where s1: "s1 = s\<lparr>tasks := \<lambda>j. (tasks s j)\<lparr>next_task := nx j\<rparr>, ready_queue := h\<rparr>"
    using assms by (auto simp: rq_frame_iff)
  show ?thesis
    unfolding rq_frame_iff
    by (intro exI [of _ nx] exI [of _ h])
      (auto simp: s1 check_all_def check_task_def fun_eq_iff)
qed

lemma check_all_Cons:
  "y \<notin> set ys \<Longrightarrow> check_all now (y # ys) s = check_all now ys (upd_task y (check_task now) s)"
  by (auto simp: check_all_def upd_task_def fun_eq_iff intro!: arg_cong [where f = "\<lambda>t. s\<lparr>tasks := t\<rparr>"])

lemma check_deadlines_from_step:
  assumes "rq_ok s xs" "i < MAX_TASKS"
  shows "\<exists>s1 xs1. check_deadlines_from now (Some i) s = check_deadlines_from now (dl_link s i) s1 \<and>
           rq_ok s1 xs1 \<and> rq_frame (upd_task i (check_task now) s) s1 \<and>
           same_order (\<lambda>j. prio s1 j = prio s j) xs xs1"
proof -
  have skip: "upd_task i (check_task now) s = s"
    if "boosted now (dline s i) (prio s i) = prio s i" "checked_deadline now (dline s i) = dline s i"
    using that by (simp add: upd_task_def check_task_def)
  consider "dline s i = 0" | "dline s i \<noteq> 0" "dline s i < now"
    | "dline s i \<noteq> 0" "now \<le> dline s i" "dline s i - now < 10" "0 < prio s i"
    | "dline s i \<noteq> 0" "now \<le> dline s i" "\<not> (dline s i - now < 10 \<and> 0 < prio s i)"
    by fastforce
  then show ?thesis
  proof cases
    case 1
    then have "upd_task i (check_task now) s = s"
      by (intro skip) (auto simp: boosted_def checked_deadline_def)
    with 1 assms show ?thesis by (auto simp: same_order_def check_deadlines_from.simps [of now "Some i"])
  next
    case 2
    then have "upd_task i (check_task now) s = upd_task i (\<lambda>x. x\<lparr>deadline := 0\<rparr>) s"
      by (auto simp: upd_task_def check_task_def boosted_def checked_deadline_def)
    moreover have "rq_ok (upd_task i (\<lambda>x. x\<lparr>deadline := 0\<rparr>) s) xs"
      using assms by (auto simp: rq_ok_def)
    ultimately show ?thesis
      using 2 by (auto simp: same_order_def check_deadlines_from.simps [of now "Some i"])
  next
    case 3
    then have e: "upd_task i (check_task now) s = upd_task i (\<lambda>x. x\<lparr>priority := 0\<rparr>) s"
      by (auto simp: upd_task_def check_task_def boosted_def checked_deadline_def)
    obtain s1 xs1 where s1: "reprioritise i 0 s = Some s1" "rq_ok s1 xs1"
      "rq_frame (upd_task i (\<lambda>x. x\<lparr>priority := 0\<rparr>) s) s1" "same_order (\<lambda>j. j \<noteq> i) xs xs1"
      using reprioritise_ok [OF assms] by blast
    then have "dl_link s1 = dl_link s"
      using rq_frame_facts(4) [OF s1(3)] by simp
    moreover have "prio s1 i = 0" using rq_frame_at(1) [OF s1(3), of i] by simp
    then have "same_order (\<lambda>j. prio s1 j = prio s j) xs xs1"
      by (intro same_order_mono [OF s1(4)]) (use 3 in auto)
    ultimately show ?thesis
      using 3 s1(1-3) e by (auto simp: check_deadlines_from.simps [of now "Some i"] fun_eq_iff)
  next
    case 4
    then have "upd_task i (check_task now) s = s"
      by (intro skip) (auto simp: boosted_def checked_deadline_def word_gt_0)
    with 4 assms show ?thesis
      by (auto simp: same_order_def check_deadlines_from.simps [of now "Some i"])
  qed
qed

lemma check_deadlines_from_ok:
  assumes "chain (dl_link s) t ys" "rq_ok s xs" "set ys \<subseteq> {..<MAX_TASKS}"
  shows "\<exists>s' xs'. check_deadlines_from now t s = Some s' \<and> rq_ok s' xs' \<and>
           rq_frame (check_all now ys s) s' \<and> same_order (\<lambda>j. prio s' j = prio s j) xs xs'"
  using assms
proof (induction ys arbitrary: t s xs)
  case Nil
  then show ?case by (auto simp: same_order_def check_deadlines_from.simps [of now None] check_all_def)
next
  case (Cons i ys)
  then have t: "t = Some i" and c: "chain (dl_link s) (dl_link s i) ys" and i: "i < MAX_TASKS" by auto
  obtain s1 xs1 where s1:
    "check_deadlines_from now (Some i) s = check_deadlines_from now (dl_link s i) s1"
    "rq_ok s1 xs1" "rq_frame (upd_task i (check_task now) s) s1" "same_order (\<lambda>j. prio s1 j = prio s j) xs xs1"
    using check_deadlines_from_step [OF Cons.prems(2) i, of now] by blast
  have "dl_link s1 = dl_link s"
    using rq_frame_facts(4) [OF s1(3)] by (simp add: check_task_def)
  then obtain s' xs' where "check_deadlines_from now (dl_link s i) s1 = Some s'"
    "rq_ok s' xs'" and f': "rq_frame (check_all now ys s1) s'" and o': "same_order (\<lambda>j. prio s' j = prio s1 j) xs1 xs'"
    using Cons.IH [of s1 "dl_link s i" xs1] c s1(2) Cons.prems(3) by auto
  moreover have i': "i \<notin> set ys" using chain_head_notin [OF c] .
  moreover have "same_order (\<lambda>j. prio s' j = prio s j) xs xs'"
  proof (rule same_order_trans)
    have p: "prio s1 j = prio s j \<and> prio s' j = prio s1 j" if "prio s' j = prio s j" for j
      using that rq_frame_at(1,2) [OF f', of j] rq_frame_at(1,2) [OF s1(3), of j] i'
      by (cases "j = i") (auto simp: check_all_def check_task_def boosted_def split: if_splits)
    show "same_order (\<lambda>j. prio s' j = prio s j) xs xs1" by (rule same_order_mono [OF s1(4)]) (use p in blast)
    show "same_order (\<lambda>j. prio s' j = prio s j) xs1 xs'" by (rule same_order_mono [OF o']) (use p in blast)
  qed
  moreover have "rq_frame (check_all now (i # ys) s) s'"
    using rq_frame_trans [OF rq_frame_check_all [OF s1(3)] f'] check_all_Cons [OF i'] by metis
  ultimately show ?case
    using s1(1) t by metis
qed

lemma rq_frame_ok:
  assumes "rq_frame s s'"
  shows "dl_ok s' ys = dl_ok s ys" "cur_weak s' = cur_weak s" "prio_ok s' = prio_ok s"
    "sched_initialized s' = sched_initialized s"
  using rq_frame_facts [OF assms] rq_frame_at [OF assms]
  by (simp_all add: dl_ok_def cur_weak_def prio_ok_def)

lemma dl_ok_check_all:
  assumes "dl_ok s ys"
  shows "dl_ok (check_all now ys s) ys"
proof -
  have "sorted (map (dline (check_all now ys s)) ys)"
    using assms
    by (auto simp: dl_ok_def check_all_def check_task_def checked_deadline_def sorted_map
        elim!: sorted_wrt_mono_rel [rotated])
  moreover have "dl_link (check_all now ys s) = dl_link s"
    by (auto simp: check_all_def check_task_def fun_eq_iff)
  ultimately show ?thesis
    using assms
    by (auto simp: dl_ok_def check_all_def check_task_def checked_deadline_def split: if_splits)
qed

lemma ordered_insert_head:
  assumes "sorted (map k xs)" "ordered_insert k p xs = p # zs" "p \<notin> set xs" "y \<in> set xs"
  shows "k p < k y"
proof (cases xs)
  case (Cons x xs')
  with assms show ?thesis
    by (auto simp: ordered_insert_cases split: if_splits)
qed (use assms in simp)


lemma check_all_simps [simp]:
  "current_task (check_all now ys s) = current_task s"
  "sched_initialized (check_all now ys s) = sched_initialized s"
  "tstate (tasks (check_all now ys s) i) = st s i"
  "cur_weak (check_all now ys s) = cur_weak s"
  by (simp_all add: check_all_def check_task_def cur_weak_def)

lemma prio_ok_check_all: "prio_ok s \<Longrightarrow> prio_ok (check_all now ys s)"
  by (simp add: prio_ok_def check_all_def check_task_def boosted_def)

definition runnable :: "sched \<Rightarrow> nat \<Rightarrow> bool" where
  "runnable s i \<longleftrightarrow> i < MAX_TASKS \<and> st s i \<in> {TASK_READY, TASK_RUNNING}"

lemma check_deadlines_ok:
  assumes "sched_entry s" "dl_ok s ys" and xs: "rq_ok s xs"
  shows "\<exists>s' xs'. check_deadlines now s = Some s' \<and> sched_entry s' \<and> rq_frame (check_all now ys s) s' \<and>
    rq_ok s' xs' \<and> same_order (\<lambda>j. prio s' j = prio s j) xs xs'"
proof -
  have "set ys \<subseteq> {..<MAX_TASKS}" using assms by (auto simp: dl_ok_def)
  then obtain s' xs' where s': "check_deadlines_from now (deadline_list s) s = Some s'" "rq_ok s' xs'"
    and f: "rq_frame (check_all now ys s) s'" and o: "same_order (\<lambda>j. prio s' j = prio s j) xs xs'"
    using check_deadlines_from_ok [of s "deadline_list s" ys xs now] assms(2) xs
    by (auto simp: dl_ok_def)
  have "cur_weak (check_all now ys s)" "prio_ok (check_all now ys s)"
    using assms(1) by (simp_all add: sched_entry_def prio_ok_check_all)
  then have "sched_entry s'"
    using assms(1) s'(2) dl_ok_check_all [OF assms(2), of now]
    by (auto simp: sched_entry_def rq_frame_ok [OF f])
  with s' f o show ?thesis by (auto simp: check_deadlines_def)
qed

text \<open>The first half of \<open>schedule\<close>: the running task goes back to the queue.\<close>

definition requeue_current :: "sched \<Rightarrow> sched option" where
  "requeue_current s = (case current_task s of
       None \<Rightarrow> Some s
     | Some p \<Rightarrow>
         if st s p = TASK_RUNNING
         then ready_queue_insert (Some p) (upd_task p (\<lambda>x. x\<lparr>tstate := TASK_READY\<rparr>) s)
         else Some s)"

text \<open>The running task, as a list of at most one.\<close>

definition running :: "sched \<Rightarrow> nat list" where
  "running s = (case current_task s of None \<Rightarrow> [] | Some c \<Rightarrow> if st s c = TASK_RUNNING then [c] else [])"

lemma requeue_ok:
  assumes "sched_entry s" "rq_ok s xs"
  shows "\<exists>s' zs. requeue_current s = Some s' \<and> rq_ok s' zs \<and> set zs = {i. runnable s i} \<and>
           (\<forall>v. filter (\<lambda>j. prio s j = v) zs = filter (\<lambda>j. prio s j = v) (xs @ running s)) \<and>
           (\<forall>p ps. current_task s = Some p \<longrightarrow> zs = p # ps \<longrightarrow> (\<forall>i\<in>set ps. prio s p < prio s i)) \<and>
           (\<forall>i. st s' i = (if current_task s = Some i \<and> st s i = TASK_RUNNING then TASK_READY else st s i)) \<and>
           (\<forall>i. prio s' i = prio s i \<and> dline s' i = dline s i) \<and> dl_link s' = dl_link s \<and>
           deadline_list s' = deadline_list s \<and> current_task s' = current_task s \<and>
           sched_initialized s' = sched_initialized s"
proof (cases "\<exists>p. current_task s = Some p \<and> st s p = TASK_RUNNING")
  case True
  then obtain p where p: "current_task s = Some p" "st s p = TASK_RUNNING" by blast
  have p16: "p < MAX_TASKS" and uniq: "\<And>i. i < MAX_TASKS \<Longrightarrow> st s i = TASK_RUNNING \<Longrightarrow> i = p"
    using assms(1) p by (auto simp: sched_entry_def cur_weak_def)
  let ?s1 = "upd_task p (\<lambda>x. x\<lparr>tstate := TASK_READY\<rparr>) s"
  let ?zs = "ordered_insert (prio s) p xs"
  obtain s' where s': "ready_queue_insert (Some p) ?s1 = Some s'" "rq_ok s' ?zs" and f: "rq_frame ?s1 s'"
    using make_ready [OF assms(2) p16 _ refl] p(2) by auto
  have "p \<notin> set xs" using assms(2) p(2) by (auto simp: rq_ok_def)
  then have "\<forall>ps. ?zs = p # ps \<longrightarrow> (\<forall>i\<in>set ps. prio s p < prio s i)"
    using ordered_insert_head [of "prio s" xs p] assms(2)
    by (metis distinct.simps(2) distinct_ordered_insert insert_iff list.simps(15) rq_ok_def
        rq_ok_distinct set_ordered_insert)
  moreover have "set ?zs = {i. runnable s i}"
  proof -
    have "set xs = {i. i < MAX_TASKS \<and> st s i = TASK_READY}"
      using assms(2) by (simp only: rq_ok_def)
    then have "set ?zs = insert p {i. i < MAX_TASKS \<and> st s i = TASK_READY}" by simp
    also have "\<dots> = {i. runnable s i}"
      unfolding runnable_def using p(2) p16 uniq by blast
    finally show ?thesis .
  qed
  moreover have "\<forall>v. filter (\<lambda>j. prio s j = v) ?zs = filter (\<lambda>j. prio s j = v) (xs @ running s)"
    using ordered_insert_fifo [of "prio s" xs _ p] assms(2) p by (simp add: rq_ok_def running_def)
  moreover have "requeue_current s = Some s'"
    using p s'(1) by (simp add: requeue_current_def)
  moreover have "st s' i = (if current_task s = Some i \<and> st s i = TASK_RUNNING then TASK_READY else st s i)" for i
    using p by (simp add: rq_frame_at [OF f])
  moreover have "prio s' i = prio s i \<and> dline s' i = dline s i" for i
    by (simp add: rq_frame_at [OF f])
  moreover have "dl_link s' = dl_link s" "deadline_list s' = deadline_list s"
    "current_task s' = current_task s" "sched_initialized s' = sched_initialized s"
    by (simp_all add: rq_frame_facts [OF f])
  ultimately show ?thesis
    using s'(2) p(1) by (intro exI [of _ s'] exI [of _ ?zs]) simp
next
  case False
  have xs: "set xs = {i. i < MAX_TASKS \<and> st s i = TASK_READY}"
    using assms(2) by (simp only: rq_ok_def)
  moreover have "st s i \<noteq> TASK_RUNNING" if "i < MAX_TASKS" for i
    using assms(1) False that unfolding sched_entry_def cur_weak_def by blast
  ultimately have "set xs = {i. runnable s i}"
    unfolding runnable_def by blast
  moreover have "xs \<noteq> p # ps" if cur: "current_task s = Some p" for p ps
  proof
    assume "xs = p # ps"
    then have "st s p = TASK_READY" using xs by (metis (mono_tags, lifting) list.set_intros(1) mem_Collect_eq)
    moreover have "st s p \<noteq> TASK_READY"
      using assms(1) cur unfolding sched_entry_def cur_weak_def by blast
    ultimately show False by simp
  qed
  then have "\<forall>p ps. current_task s = Some p \<longrightarrow> xs = p # ps \<longrightarrow> (\<forall>i\<in>set ps. prio s p < prio s i)"
    by blast
  moreover have "running s = []"
    using False by (auto simp: running_def split: option.split)
  moreover have "requeue_current s = Some s"
    using False by (auto simp: requeue_current_def split: option.split)
  ultimately show ?thesis
    using assms(2) False by (intro exI [of _ s] exI [of _ xs]) simp
qed

text \<open>The second half: selection of the next task, and \<open>schedule\<close> as the two halves.\<close>

definition select_next :: "sched \<Rightarrow> (outcome \<times> sched) option" where
  "select_next s1 = do {
     s3 \<leftarrow> requeue_current (s1\<lparr>switch_in_progress := True\<rparr>);
     (case ready_queue s3 of
        None \<Rightarrow> Some (Return, s3\<lparr>current_task := None, switch_in_progress := False\<rparr>)
      | Some n \<Rightarrow> do {
          s4 \<leftarrow> ready_queue_remove (Some n) s3;
          let s5 = (upd_task n (\<lambda>x. x\<lparr>tstate := TASK_RUNNING\<rparr>) s4)\<lparr>ticks_remaining := 10\<rparr>;
          (if current_task s1 \<noteq> Some n
           then Some (SwitchTo (current_task s1) n,
                  s5\<lparr>context_switches := context_switches s4 + 1, current_task := Some n\<rparr>)
           else Some (Return, s5\<lparr>switch_in_progress := False\<rparr>))
        })
   }"

lemma schedule_eq:
  "sched_initialized s \<Longrightarrow> schedule now s = check_deadlines now s \<bind> select_next"
  by (simp add: schedule_def requeue_current_def Let_def select_next_def [abs_def])

lemma sched_entry_switch [simp]: "sched_entry (s\<lparr>switch_in_progress := b\<rparr>) = sched_entry s"
  by (simp add: sched_entry_def cur_weak_def prio_ok_def)

lemma sched_entryI:
  assumes "sched_initialized s" "rq_ok s xs" "dl_ok s ys" "prio_ok s" "cur_weak s"
  shows "sched_entry s"
  using assms unfolding sched_entry_def by blast

lemma dl_ok_transfer:
  assumes "dl_ok s ys" "dl_link s' = dl_link s" "deadline_list s' = deadline_list s"
    and "\<And>i. dline s' i = dline s i"
    and "\<And>i. i < MAX_TASKS \<Longrightarrow> (st s' i = TASK_DEAD) = (st s i = TASK_DEAD)"
  shows "dl_ok s' ys"
  using assms unfolding dl_ok_def by (auto simp: cong: conj_cong)

lemma prio_ok_transfer:
  assumes "prio_ok s" "\<And>i. prio s' i = prio s i"
    and "\<And>i. i < MAX_TASKS \<Longrightarrow> (st s' i = TASK_DEAD) = (st s i = TASK_DEAD)"
  shows "prio_ok s'"
  using assms unfolding prio_ok_def by auto

lemma cur_weakD:
  "cur_weak s \<Longrightarrow> i < MAX_TASKS \<Longrightarrow> st s i = TASK_RUNNING \<Longrightarrow> current_task s = Some i"
  unfolding cur_weak_def by blast

lemma cur_weakI:
  assumes "\<And>c. current_task s = Some c \<Longrightarrow> c < MAX_TASKS \<and> st s c \<noteq> TASK_READY"
    and "\<And>i. i < MAX_TASKS \<Longrightarrow> st s i = TASK_RUNNING \<Longrightarrow> current_task s = Some i"
  shows "cur_weak s"
  using assms unfolding cur_weak_def by blast

definition next_choice :: "sched \<Rightarrow> nat option \<Rightarrow> bool" where
  "next_choice s n = (case n of
       None \<Rightarrow> \<forall>i. \<not> runnable s i
     | Some n \<Rightarrow> runnable s n \<and> (\<forall>i. runnable s i \<longrightarrow> prio s n \<le> prio s i) \<and>
         (current_task s = Some n \<longrightarrow> (\<forall>i. runnable s i \<and> i \<noteq> n \<longrightarrow> prio s n < prio s i)))"

lemma select_next_ok:
  assumes "sched_entry s" and xs: "rq_ok s xs"
  shows "\<exists>r s'. select_next s = Some (r, s') \<and> sched_inv s' \<and> next_choice s (current_task s') \<and>
           (\<exists>ws. rq_ok s' ws \<and>
              (\<forall>v. filter (\<lambda>j. prio s j = v) (running s' @ ws) = filter (\<lambda>j. prio s j = v) (xs @ running s))) \<and>
           (\<forall>i. prio s' i = prio s i \<and> dline s' i = dline s i) \<and>
           (\<forall>i<MAX_TASKS. st s' i = (if current_task s' = Some i then TASK_RUNNING
                                      else if runnable s i then TASK_READY else st s i)) \<and>
           r = (case current_task s' of None \<Rightarrow> Return
                | Some n \<Rightarrow> if current_task s = Some n then Return else SwitchTo (current_task s) n)"
proof -
  have cw: "cur_weak s" and po: "prio_ok s" and ini: "sched_initialized s"
    using assms by (simp_all add: sched_entry_def)
  obtain ys where ys: "dl_ok s ys"
    using assms unfolding sched_entry_def by blast
  let ?s2 = "s\<lparr>switch_in_progress := True\<rparr>"
  have e2: "sched_entry ?s2" "rq_ok ?s2 xs" using assms xs by simp_all
  obtain s3 zs where s3: "requeue_current ?s2 = Some s3" "rq_ok s3 zs" "set zs = {i. runnable ?s2 i}"
    and turns: "\<forall>v. filter (\<lambda>j. prio ?s2 j = v) zs = filter (\<lambda>j. prio ?s2 j = v) (xs @ running ?s2)"
    and fifo: "\<forall>p ps. current_task ?s2 = Some p \<longrightarrow> zs = p # ps \<longrightarrow> (\<forall>i\<in>set ps. prio ?s2 p < prio ?s2 i)"
    and st3: "\<forall>i. st s3 i = (if current_task ?s2 = Some i \<and> st ?s2 i = TASK_RUNNING then TASK_READY else st ?s2 i)"
    and k3: "\<forall>i. prio s3 i = prio ?s2 i \<and> dline s3 i = dline ?s2 i" "dl_link s3 = dl_link ?s2"
      "deadline_list s3 = deadline_list ?s2" "current_task s3 = current_task ?s2"
      "sched_initialized s3 = sched_initialized ?s2"
    using requeue_ok [OF e2] by (elim exE conjE) (rule that; assumption)
  have run: "set zs = {i. runnable s i}" using s3(3) by (simp add: runnable_def)
  have st3': "st s3 i = (if runnable s i then TASK_READY else st s i)" if "i < MAX_TASKS" for i
    using cur_weakD [OF cw, of i] that by (cases "st s i") (simp_all add: st3 runnable_def)
  have dl3: "dl_ok s3 ys" and po3: "prio_ok s3"
    using dl_ok_transfer [OF ys, of s3] prio_ok_transfer [OF po, of s3] k3 st3' 
    by (auto simp: runnable_def)
  have turns': "\<forall>v. filter (\<lambda>j. prio s j = v) zs = filter (\<lambda>j. prio s j = v) (xs @ running s)"
  proof -
    have "running ?s2 = running s" by (simp add: running_def split: option.split)
    with turns show ?thesis by simp
  qed
  have fifo': "\<forall>p ps. current_task s = Some p \<longrightarrow> zs = p # ps \<longrightarrow> (\<forall>i\<in>set ps. prio s p < prio s i)"
    using fifo by simp
  have idle: "st s3 i \<noteq> TASK_RUNNING" if "i < MAX_TASKS" for i
    using st3' [OF that] by (simp add: runnable_def that)
  show ?thesis
  proof (cases zs)
    case Nil
    let ?s' = "s3\<lparr>current_task := None, switch_in_progress := False\<rparr>"
    have "ready_queue s3 = None" using s3(2) Nil by (simp add: rq_ok_def)
    then have "select_next s = Some (Return, ?s')"
      using s3(1) by (simp add: select_next_def)
    moreover have "cur_weak ?s'" "prio_ok ?s'"
      using idle po3 by (simp_all add: cur_weak_def prio_ok_def)
    then have "sched_inv ?s'"
      using sched_entryI [of ?s' "[]" ys] s3(2) Nil dl3 k3 ini by (simp add: sched_inv_def)
    moreover have "rq_ok ?s' zs" "running ?s' = []" using s3(2) by (simp_all add: running_def)
    then have "\<exists>ws. rq_ok ?s' ws \<and>
        (\<forall>v. filter (\<lambda>j. prio s j = v) (running ?s' @ ws) = filter (\<lambda>j. prio s j = v) (xs @ running s))"
      using turns' by auto
    moreover have "next_choice s (current_task ?s')" using run Nil by (simp add: next_choice_def)
    ultimately show ?thesis
      using Nil run k3(1) st3' by (intro exI [of _ Return] exI [of _ ?s']) auto
  next
    case (Cons n ps)
    have n: "runnable s n" using run Cons by auto
    then have n16: "n < MAX_TASKS" by (simp add: runnable_def)
    have sorted: "\<forall>i\<in>set ps. prio s n \<le> prio s i" 
      using s3(2) Cons k3(1) by (auto simp: rq_ok_def)
    have "ready_queue s3 = Some n" using s3(2) Cons by (simp add: rq_ok_def)
    moreover obtain s4 where s4: "ready_queue_remove (Some n) s3 = Some s4"
      "rq_ok (upd_task n (\<lambda>x. x\<lparr>tstate := TASK_RUNNING\<rparr>) s4) ps" and f: "rq_frame s3 s4"
      using dispatch [of s3 n ps] s3(2) Cons by auto
    let ?s5 = "(upd_task n (\<lambda>x. x\<lparr>tstate := TASK_RUNNING\<rparr>) s4)\<lparr>ticks_remaining := 10\<rparr>"
    obtain r s' where s': "(r, s') = (if current_task s \<noteq> Some n
           then (SwitchTo (current_task s) n,
                  ?s5\<lparr>context_switches := context_switches s4 + 1, current_task := Some n\<rparr>)
           else (Return, ?s5\<lparr>switch_in_progress := False\<rparr>))"
      by (metis surj_pair)
    ultimately have sel: "select_next s = Some (r, s')"
      using s3(1) s4(1) by (simp add: select_next_def split: if_splits)
    have cur': "current_task s' = Some n"
      using s' k3(4) rq_frame_facts(6) [OF f] by (auto split: if_splits)
    have t': "tasks s' = (tasks s4)(n := (tasks s4 n)\<lparr>tstate := TASK_RUNNING\<rparr>)"
      using s' by (auto split: if_splits)
    have l': "dl_link s' = dl_link s3"
      by (auto simp: t' rq_frame_at [OF f] fun_eq_iff)
    have k': "deadline_list s' = deadline_list s3"
      "sched_initialized s' = sched_initialized s3" "rq_ok s' = rq_ok ?s5"
      using s' rq_frame_facts [OF f] by (auto split: if_splits)
    have st': "st s' i = (if i = n then TASK_RUNNING else if runnable s i then TASK_READY else st s i)"
      if "i < MAX_TASKS" for i
      using st3' [OF that] by (simp add: t' rq_frame_at [OF f])
    have v': "prio s' i = prio s i" "dline s' i = dline s i" for i
      using k3(1) by (simp_all add: t' rq_frame_at [OF f])
    have dead: "(st s' i = TASK_DEAD) = (st s i = TASK_DEAD)" if "i < MAX_TASKS" for i
      using st' [OF that] n by (auto simp: runnable_def)
    have dl': "dl_ok s' ys"
      using dl_ok_transfer [OF ys, of s'] l' k' k3 v' dead by simp
    have po': "prio_ok s'"
      using prio_ok_transfer [OF po, of s'] v' dead by simp
    have cw': "cur_weak s'"
    proof (rule cur_weakI)
      show "st s' i = TASK_RUNNING \<Longrightarrow> current_task s' = Some i" if "i < MAX_TASKS" for i
        using st' [OF that] cur' that by (simp add: runnable_def split: if_splits)
      show "c < MAX_TASKS \<and> st s' c \<noteq> TASK_READY" if "current_task s' = Some c" for c
        using st' [OF n16] cur' n16 that by simp
    qed
    have "sched_entry s'"
      using sched_entryI [OF _ _ dl' po' cw', of ps] k' k3 ini s4(2) by simp
    then have "sched_inv s'"
      using cur' st' [OF n16] by (simp add: sched_inv_def)
    moreover have "next_choice s (current_task s')"
      using n run Cons sorted fifo' by (auto simp: next_choice_def cur')
    moreover have "r = (if current_task s = Some n then Return else SwitchTo (current_task s) n)"
      using s' by (auto split: if_splits)
    moreover have "rq_ok s' ps \<and> running s' @ ps = zs"
      using s4(2) k'(3) cur' st' [OF n16] Cons by (simp add: running_def)
    then have "\<exists>ws. rq_ok s' ws \<and>
        (\<forall>v. filter (\<lambda>j. prio s j = v) (running s' @ ws) = filter (\<lambda>j. prio s j = v) (xs @ running s))"
      using turns' by metis
    ultimately show ?thesis
      using sel v' st' by (intro exI [of _ r] exI [of _ s']) (simp add: cur')
  qed
qed

text \<open>
  \<open>schedule\<close> always returns. It boosts and clears by deadline, dispatches a runnable task of
  the smallest priority value, keeps the running task only when every other runnable task is
  strictly less urgent (so tasks of one priority take turns), and leaves the invariant.
\<close>

definition checked :: "u64 \<Rightarrow> sched \<Rightarrow> sched" where
  "checked now s = check_all now (filter (\<lambda>i. st s i \<noteq> TASK_DEAD) [0..<MAX_TASKS]) s"

lemma check_all_checked:
  assumes "dl_ok s ys"
  shows "tasks (check_all now ys s) i = tasks (checked now s) i"
proof (cases "i \<in> set ys")
  case True
  then have "i < MAX_TASKS \<and> st s i \<noteq> TASK_DEAD" using assms unfolding dl_ok_def by blast
  with True show ?thesis by (simp add: checked_def check_all_def)
next
  case False
  then have "i < MAX_TASKS \<Longrightarrow> st s i \<noteq> TASK_DEAD \<Longrightarrow> dline s i = 0"
    using assms unfolding dl_ok_def by blast
  then have "i < MAX_TASKS \<Longrightarrow> st s i \<noteq> TASK_DEAD \<Longrightarrow> check_task now (tasks s i) = tasks s i"
    by (simp add: check_task_def boosted_def checked_deadline_def)
  with False show ?thesis by (simp add: checked_def check_all_def)
qed

lemma checked_simps [simp]:
  "current_task (checked now s) = current_task s"
  "tstate (tasks (checked now s) i) = st s i"
  "runnable (checked now s) = runnable s"
  by (simp_all add: checked_def runnable_def fun_eq_iff)

text \<open>
  Tasks of one priority take turns: the task that runs afterwards and the queue behind it are the
  queue before, followed by the task that ran, for each priority and all tasks that kept theirs.
\<close>

definition takes_turns :: "sched \<Rightarrow> sched \<Rightarrow> bool" where
  "takes_turns s s' \<longleftrightarrow> (\<exists>xs ws. chain (rq_link s) (ready_queue s) xs \<and> chain (rq_link s') (ready_queue s') ws \<and>
     (\<forall>v. filter (\<lambda>j. prio s j = v \<and> prio s' j = v) (running s' @ ws) =
          filter (\<lambda>j. prio s j = v \<and> prio s' j = v) (xs @ running s)))"

lemma schedule_ok:
  assumes "sched_entry s"
  shows "\<exists>r s'. schedule now s = Some (r, s') \<and> sched_inv s' \<and> takes_turns s s' \<and>
           next_choice (checked now s) (current_task s') \<and>
           (\<forall>i. prio s' i = prio (checked now s) i \<and> dline s' i = dline (checked now s) i) \<and>
           (\<forall>i<MAX_TASKS. st s' i = (if current_task s' = Some i then TASK_RUNNING
                                      else if runnable s i then TASK_READY else st s i)) \<and>
           r = (case current_task s' of None \<Rightarrow> Return
                | Some n \<Rightarrow> if current_task s = Some n then Return else SwitchTo (current_task s) n)"
proof -
  obtain xs ys where xs: "rq_ok s xs" and ys: "dl_ok s ys" and ini: "sched_initialized s"
    using assms unfolding sched_entry_def by blast
  obtain s1 xs1 where s1: "check_deadlines now s = Some s1" "sched_entry s1"
    and f: "rq_frame (check_all now ys s) s1" and xs1: "rq_ok s1 xs1" and o: "same_order (\<lambda>j. prio s1 j = prio s j) xs xs1"
    using check_deadlines_ok [OF assms ys xs] by blast
  have c: "current_task s1 = current_task s"
    using rq_frame_facts(6) [OF f] by simp
  have at: "prio s1 i = prio (checked now s) i" "dline s1 i = dline (checked now s) i" for i
    using rq_frame_at [OF f, of i] by (simp_all add: check_all_checked [OF ys])
  have at_st: "st s1 i = st s i" for i
    using rq_frame_at(3) [OF f, of i] by simp
  have run: "runnable s1 = runnable s"
    by (auto simp: runnable_def at_st fun_eq_iff)
  have "next_choice s1 = next_choice (checked now s)"
    by (simp add: next_choice_def at run c fun_eq_iff split: option.split)
  moreover have "schedule now s = select_next s1"
    by (simp add: schedule_eq [OF ini] s1(1))
  moreover obtain r s' where s': "select_next s1 = Some (r, s')" "sched_inv s'" "next_choice s1 (current_task s')"
    "\<exists>ws. rq_ok s' ws \<and> (\<forall>v. filter (\<lambda>j. prio s1 j = v) (running s' @ ws) = filter (\<lambda>j. prio s1 j = v) (xs1 @ running s1))"
    "\<forall>i. prio s' i = prio s1 i \<and> dline s' i = dline s1 i"
    "\<forall>i<MAX_TASKS. st s' i = (if current_task s' = Some i then TASK_RUNNING else if runnable s1 i then TASK_READY else st s1 i)"
    "r = (case current_task s' of None \<Rightarrow> Return
       | Some n \<Rightarrow> if current_task s1 = Some n then Return else SwitchTo (current_task s1) n)"
    using select_next_ok [OF s1(2) xs1] by blast
  moreover have "takes_turns s s'"
  proof -
    from s'(4) obtain ws where ws: "rq_ok s' ws"
      "\<And>v. filter (\<lambda>j. prio s1 j = v) (running s' @ ws) = filter (\<lambda>j. prio s1 j = v) (xs1 @ running s1)" by blast
    have r1: "running s1 = running s" by (simp add: running_def c at_st split: option.split)
    have "filter (\<lambda>j. prio s j = v \<and> prio s' j = v) (running s' @ ws) =
        filter (\<lambda>j. prio s j = v \<and> prio s' j = v) (xs @ running s)" for v
    proof -
      have e: "filter (\<lambda>j. prio s j = v \<and> prio s' j = v) zs = filter (\<lambda>j. prio s j = v) (filter (\<lambda>j. prio s1 j = v) zs)" for zs
        using s'(5) by (auto intro: filter_cong)
      have "same_order (\<lambda>j. prio s j = v \<and> prio s' j = v) xs xs1"
        by (rule same_order_mono [OF o]) (use s'(5) in auto)
      then have "filter (\<lambda>j. prio s j = v \<and> prio s' j = v) (xs1 @ running s) =
          filter (\<lambda>j. prio s j = v \<and> prio s' j = v) (xs @ running s)"
        by (simp add: same_order_def)
      with ws(2) [of v] show ?thesis unfolding e r1 by simp
    qed
    then show ?thesis using xs ws(1) unfolding takes_turns_def rq_ok_def by blast
  qed
  ultimately show ?thesis
    unfolding at at_st c run by (intro exI [of _ r] exI [of _ s']) simp
qed


section \<open>Every API call keeps the invariant\<close>

lemma sched_invE:
  assumes "sched_inv s"
  obtains xs ys where "rq_ok s xs" "dl_ok s ys" "cur_weak s" "prio_ok s" "sched_initialized s"
    "\<And>c. current_task s = Some c \<Longrightarrow> c < MAX_TASKS \<and> st s c = TASK_RUNNING \<and> c \<notin> set xs"
proof -
  obtain xs ys where e: "rq_ok s xs" "dl_ok s ys" "cur_weak s" "prio_ok s" "sched_initialized s"
    using assms unfolding sched_inv_def sched_entry_def by blast
  have "c < MAX_TASKS \<and> st s c = TASK_RUNNING \<and> c \<notin> set xs" if "current_task s = Some c" for c
  proof -
    have "c < MAX_TASKS" "st s c = TASK_RUNNING"
      using assms that e(3) unfolding sched_inv_def cur_weak_def by blast+
    moreover have "c \<notin> set xs"
      using e(1) \<open>st s c = TASK_RUNNING\<close> unfolding rq_ok_def by auto
    ultimately show ?thesis by blast
  qed
  with e that show ?thesis by blast
qed

lemma sched_invI:
  assumes "rq_ok s xs" "dl_ok s ys" "prio_ok s" "sched_initialized s"
    and "\<And>c. current_task s = Some c \<Longrightarrow> c < MAX_TASKS \<and> st s c = TASK_RUNNING"
    and "\<And>i. i < MAX_TASKS \<Longrightarrow> st s i = TASK_RUNNING \<Longrightarrow> current_task s = Some i"
  shows "sched_inv s"
proof -
  have "cur_weak s" using assms(5,6) by (intro cur_weakI) auto
  then have "sched_entry s" using sched_entryI assms(1-4) by blast
  with assms(5) show ?thesis by (simp add: sched_inv_def)
qed

text \<open>The running task leaves the running state.\<close>

lemma cur_weak_leave:
  assumes "cur_weak s" "current_task s = Some c" "current_task s' = Some c"
    and "X = TASK_BLOCKED \<or> X = TASK_DEAD"
    and st: "\<And>i. st s' i = (if i = c then X else st s i)"
  shows "cur_weak s'"
proof (rule cur_weakI)
  show "d < MAX_TASKS \<and> st s' d \<noteq> TASK_READY" if "current_task s' = Some d" for d
    using assms that unfolding cur_weak_def by auto
  show "current_task s' = Some i" if "i < MAX_TASKS" "st s' i = TASK_RUNNING" for i
  proof -
    have "st s i = TASK_RUNNING" using that(2) assms(4) by (auto simp: st split: if_splits)
    then show ?thesis using cur_weakD [OF assms(1) that(1)] assms(2,3) by simp
  qed
qed

lemma block_entry:
  assumes "sched_inv s" "current_task s = Some c"
  shows "sched_entry (upd_task c (\<lambda>x. x\<lparr>tstate := TASK_BLOCKED\<rparr>) s)" (is "sched_entry ?s")
proof -
  obtain xs ys where e: "rq_ok s xs" "dl_ok s ys" "cur_weak s" "prio_ok s" "sched_initialized s"
    and c: "c < MAX_TASKS" "st s c = TASK_RUNNING" "c \<notin> set xs"
    using sched_invE [OF assms(1)] assms(2) by metis
  have "dl_ok ?s ys"
    by (rule dl_ok_transfer [OF e(2)]) (use c in auto)
  moreover have "prio_ok ?s"
    by (rule prio_ok_transfer [OF e(4)]) (use c in auto)
  moreover have "cur_weak ?s"
    by (rule cur_weak_leave [OF e(3) assms(2), where X = TASK_BLOCKED]) (simp_all add: assms(2))
  moreover have "{i. i < MAX_TASKS \<and> st ?s i = TASK_READY} = {i. i < MAX_TASKS \<and> st s i = TASK_READY}"
    using c(2) by auto
  then have "rq_ok ?s xs"
    using e(1) unfolding rq_ok_def by (simp del: upd_task_simps(1)) simp
  ultimately show ?thesis
    using sched_entryI e(5) by simp
qed

lemma exit_entry:
  assumes "sched_inv s" "current_task s = Some c"
  shows "\<exists>s1 s2. ready_queue_remove (Some c) (upd_task c (\<lambda>x. x\<lparr>tstate := TASK_DEAD\<rparr>) s) = Some s1 \<and>
           deadline_list_remove (Some c) s1 = Some s2 \<and> sched_entry s2 \<and> st s2 c = TASK_DEAD"
proof -
  obtain xs ys where e: "rq_ok s xs" "dl_ok s ys" "cur_weak s" "prio_ok s" "sched_initialized s"
    and c: "c < MAX_TASKS" "st s c = TASK_RUNNING" "c \<notin> set xs"
    using sched_invE [OF assms(1)] assms(2) by metis
  let ?s = "upd_task c (\<lambda>x. x\<lparr>tstate := TASK_DEAD\<rparr>) s"
  have rc: "chain (rq_link ?s) (ready_queue ?s) xs" and dc: "chain (dl_link ?s) (deadline_list ?s) ys"
    using e(1,2) by (simp_all add: rq_ok_def dl_ok_def)
  obtain s1 where s1: "ready_queue_remove (Some c) ?s = Some s1"
    "chain (rq_link s1) (ready_queue s1) xs"
    using ready_queue_remove_refines [OF rc, of c] remove1_idem [OF c(3)] by auto
  have f1: "rq_frame ?s s1" using s1(1) by (rule ready_queue_remove_frame)
  have dc1: "chain (dl_link s1) (deadline_list s1) ys"
    using dc rq_frame_facts(4,5) [OF f1] by simp
  obtain s2 where s2: "deadline_list_remove (Some c) s1 = Some s2"
    "chain (dl_link s2) (deadline_list s2) (remove1 c ys)"
    using deadline_list_remove_refines [OF dc1, of c] by auto
  have f2: "dl_frame s1 s2" using s2(1) by (rule deadline_list_remove_frame)
  have v: "prio s2 i = prio s i" "dline s2 i = dline s i"
    "st s2 i = (if i = c then TASK_DEAD else st s i)" for i
    by (simp_all add: dl_frame_at [OF f2] rq_frame_at [OF f1])
  have g: "current_task s2 = current_task s" "sched_initialized s2 = sched_initialized s"
    "rq_link s2 = rq_link s1" "ready_queue s2 = ready_queue s1"
    by (simp_all add: dl_frame_facts [OF f2] rq_frame_facts [OF f1])
  have "set xs = {i. i < MAX_TASKS \<and> st s i = TASK_READY}" "sorted (map (prio s) xs)"
    using e(1) by (simp_all only: rq_ok_def)
  moreover have "{i. i < MAX_TASKS \<and> st s2 i = TASK_READY} = {i. i < MAX_TASKS \<and> st s i = TASK_READY}"
    unfolding v using c(2) by (intro Collect_cong) simp
  ultimately have "rq_ok s2 xs"
    unfolding rq_ok_def using s1(2) by (simp only: g v)
  moreover have "set (remove1 c ys) = set ys - {c}"
    using dl_ok_distinct [OF e(2)] by simp
  then have "dl_ok s2 (remove1 c ys)"
    using e(2) s2(2) sorted_map_remove1 [of "dline s" ys c]
    unfolding dl_ok_def v by (intro conjI) (simp_all, blast+)
  moreover have "prio_ok s2" using e(4) by (simp add: prio_ok_def v)
  moreover have "cur_weak s2"
    by (rule cur_weak_leave [OF e(3) assms(2), where X = TASK_DEAD]) (simp_all add: assms(2) g v)
  ultimately have "sched_entry s2"
    using sched_entryI e(5) g by simp
  with s1 s2 v show ?thesis by auto
qed

lemma ready_inv:
  assumes "sched_inv s" "i < MAX_TASKS" "st s i = TASK_BLOCKED"
  shows "\<exists>s'. ready_queue_insert (Some i) (upd_task i (\<lambda>x. x\<lparr>tstate := TASK_READY\<rparr>) s) = Some s' \<and>
           sched_inv s'"
proof -
  obtain xs ys where e: "rq_ok s xs" "dl_ok s ys" "cur_weak s" "prio_ok s" "sched_initialized s"
    and c: "\<And>c. current_task s = Some c \<Longrightarrow> c < MAX_TASKS \<and> st s c = TASK_RUNNING \<and> c \<notin> set xs"
    using sched_invE [OF assms(1)] by metis
  obtain s' where s': "ready_queue_insert (Some i) (upd_task i (\<lambda>x. x\<lparr>tstate := TASK_READY\<rparr>) s) = Some s'"
    "rq_ok s' (ordered_insert (prio s) i xs)"
    and f: "rq_frame (upd_task i (\<lambda>x. x\<lparr>tstate := TASK_READY\<rparr>) s) s'"
    using make_ready [OF e(1) assms(2) _ refl] assms(3) by auto
  have v: "prio s' j = prio s j" "dline s' j = dline s j" "dl_link s' j = dl_link s j"
    "st s' j = (if j = i then TASK_READY else st s j)" for j
    by (simp_all add: rq_frame_at [OF f])
  have g: "current_task s' = current_task s" "sched_initialized s' = sched_initialized s"
    "deadline_list s' = deadline_list s"
    by (simp_all add: rq_frame_facts [OF f])
  have "sched_inv s'"
  proof (rule sched_invI)
    show "dl_ok s' ys"
      by (rule dl_ok_transfer [OF e(2)]) (simp_all add: v g assms(3))
    show "prio_ok s'"
      by (rule prio_ok_transfer [OF e(4)]) (simp_all add: v assms(3))
    show "d < MAX_TASKS \<and> st s' d = TASK_RUNNING" if "current_task s' = Some d" for d
      using c [of d] that assms(3) by (auto simp: v g)
    show "current_task s' = Some j" if "j < MAX_TASKS" "st s' j = TASK_RUNNING" for j
      using cur_weakD [OF e(3) that(1)] that(2) by (simp add: v g split: if_splits)
  qed (use s'(2) e(5) g in simp_all)
  with s'(1) show ?thesis by blast
qed

lemma reprioritise_inv:
  assumes "sched_inv s" "i < MAX_TASKS" "p \<le> 31"
  shows "\<exists>s'. reprioritise i p s = Some s' \<and> sched_inv s' \<and> prio s' i = p"
proof -
  obtain xs ys where e: "rq_ok s xs" "dl_ok s ys" "cur_weak s" "prio_ok s" "sched_initialized s"
    and c: "\<And>c. current_task s = Some c \<Longrightarrow> c < MAX_TASKS \<and> st s c = TASK_RUNNING \<and> c \<notin> set xs"
    using sched_invE [OF assms(1)] by metis
  obtain s' xs' where s': "reprioritise i p s = Some s'" "rq_ok s' xs'"
    and f: "rq_frame (upd_task i (\<lambda>x. x\<lparr>priority := p\<rparr>) s) s'"
    using reprioritise_ok [OF e(1) assms(2), of p] by blast
  have v: "prio s' j = (if j = i then p else prio s j)" "dline s' j = dline s j"
    "dl_link s' j = dl_link s j" "st s' j = st s j" for j
    by (simp_all add: rq_frame_at [OF f])
  have g: "current_task s' = current_task s" "sched_initialized s' = sched_initialized s"
    "deadline_list s' = deadline_list s"
    by (simp_all add: rq_frame_facts [OF f])
  have "sched_inv s'"
  proof (rule sched_invI)
    show "dl_ok s' ys"
      by (rule dl_ok_transfer [OF e(2)]) (simp_all add: v g)
    show "prio_ok s'"
      using e(4) assms(3) by (simp add: prio_ok_def v)
    show "d < MAX_TASKS \<and> st s' d = TASK_RUNNING" if "current_task s' = Some d" for d
      using c [of d] that by (simp add: v g)
    show "current_task s' = Some j" if "j < MAX_TASKS" "st s' j = TASK_RUNNING" for j
      using cur_weakD [OF e(3) that(1)] that(2) by (simp add: v g)
  qed (use s'(2) e(5) g in simp_all)
  with s'(1) v show ?thesis by auto
qed

lemma set_deadline_inv:
  assumes "sched_inv s" "i < MAX_TASKS" "st s i \<noteq> TASK_DEAD"
    and "dline s i = 0 \<Longrightarrow> \<exists>ys. chain (dl_link s) (deadline_list s) ys \<and> i \<notin> set ys"
  shows "\<exists>s'. task_set_deadline (Some i) d s = Some s' \<and> sched_inv s' \<and> dline s' i = d"
proof -
  obtain xs ys where e: "rq_ok s xs" "dl_ok s ys" "cur_weak s" "prio_ok s" "sched_initialized s"
    and c: "\<And>c. current_task s = Some c \<Longrightarrow> c < MAX_TASKS \<and> st s c = TASK_RUNNING \<and> c \<notin> set xs"
    using sched_invE [OF assms(1)] by metis
  have ch: "chain (dl_link s) (deadline_list s) ys" "sorted (map (dline s) ys)"
    using e(2) by (simp_all only: dl_ok_def)
  define zs where "zs = remove1 i ys"
  have zs: "i \<notin> set zs" "set zs = set ys - {i}"
    using dl_ok_distinct [OF e(2)] by (simp_all add: zs_def)
  have "\<exists>s1. (if dline s i \<noteq> 0 then deadline_list_remove (Some i) s else Some s) = Some s1 \<and>
          dl_frame s s1 \<and> chain (dl_link s1) (deadline_list s1) zs"
  proof (cases "dline s i = 0")
    case True
    then have "i \<notin> set ys" using assms(4) chain_unique ch(1) by blast
    with True ch(1) show ?thesis by (simp add: zs_def remove1_idem)
  next
    case False
    then show ?thesis
      using deadline_list_remove_refines [OF ch(1), of i] deadline_list_remove_frame
      by (auto simp: zs_def)
  qed
  then obtain s1 where s1:
    "(if dline s i \<noteq> 0 then deadline_list_remove (Some i) s else Some s) = Some s1"
    "chain (dl_link s1) (deadline_list s1) zs" and f1: "dl_frame s s1" by blast
  let ?s2 = "upd_task i (\<lambda>x. x\<lparr>deadline := d\<rparr>) s1"
  have so: "sorted (map (dline ?s2) zs)"
    using sorted_map_remove1 [OF ch(2), of i] zs(1)
    by (simp add: dl_frame_facts [OF f1] zs_def)
  have c2: "chain (dl_link ?s2) (deadline_list ?s2) zs"
    using s1(2) by simp
  have "\<exists>s' ws. (if d \<noteq> 0 then deadline_list_insert (Some i) ?s2 else Some ?s2) = Some s' \<and>
          dl_frame ?s2 s' \<and> chain (dl_link s') (deadline_list s') ws \<and> sorted (map (dline s') ws) \<and>
          set ws = (if d \<noteq> 0 then insert i (set zs) else set zs)"
  proof (cases "d = 0")
    case True
    with c2 so show ?thesis by auto
  next
    case False
    then have "dline ?s2 i \<noteq> 0" by simp
    from dl.put_sorted [OF c2 zs(1) this so] False show ?thesis
      by (metis deadline_list_insert_frame)
  qed
  then obtain s' ws where s': "(if d \<noteq> 0 then deadline_list_insert (Some i) ?s2 else Some ?s2) = Some s'"
    "chain (dl_link s') (deadline_list s') ws" "sorted (map (dline s') ws)"
    "set ws = (if d \<noteq> 0 then insert i (set zs) else set zs)" and f2: "dl_frame ?s2 s'" by blast
  have v: "prio s' j = prio s j" "dline s' j = (if j = i then d else dline s j)"
    "st s' j = st s j" for j
    by (simp_all add: dl_frame_at [OF f2] dl_frame_at [OF f1])
  have g: "current_task s' = current_task s" "sched_initialized s' = sched_initialized s"
    "ready_queue s' = ready_queue s"
    by (simp_all add: dl_frame_facts [OF f2] dl_frame_facts [OF f1])
  have l: "rq_link s' = rq_link s"
    by (simp add: fun_eq_iff dl_frame_at [OF f2] dl_frame_at [OF f1])
  have "sched_inv s'"
  proof (rule sched_invI)
    show "rq_ok s' xs" using e(1) unfolding rq_ok_def g v l by simp
    show "dl_ok s' ws"
      using e(2) s'(2-4) zs(2) assms(2,3) unfolding dl_ok_def v
      by (intro conjI) (simp_all, (auto split: if_splits))
    show "prio_ok s'" using e(4) by (simp add: prio_ok_def v)
    show "c' < MAX_TASKS \<and> st s' c' = TASK_RUNNING" if "current_task s' = Some c'" for c'
      using c [of c'] that by (simp add: v g)
    show "current_task s' = Some j" if "j < MAX_TASKS" "st s' j = TASK_RUNNING" for j
      using cur_weakD [OF e(3) that(1)] that(2) by (simp add: v g)
  qed (use e(5) g in simp)
  moreover have "task_set_deadline (Some i) d s = Some s'"
    using s1(1) s'(1) by (simp add: task_set_deadline_def Let_def)
  ultimately show ?thesis by (auto simp: v)
qed


text \<open>A free slot can be rewritten and stay free, or hold a blocked task without deadline.\<close>

lemma free_slot:
  assumes inv: "sched_inv s" and i: "i < MAX_TASKS" "st s i = TASK_DEAD"
    and t: "tasks s' = (tasks s)(i := x)"
      "tstate x = TASK_DEAD \<or> tstate x = TASK_BLOCKED \<and> deadline x = 0 \<and> priority x \<le> 31"
    and g: "current_task s' = current_task s" "sched_initialized s' = sched_initialized s"
      "ready_queue s' = ready_queue s" "deadline_list s' = deadline_list s"
  shows "sched_inv s'"
proof -
  obtain xs ys where e: "rq_ok s xs" "dl_ok s ys" "cur_weak s" "prio_ok s" "sched_initialized s"
    and c: "\<And>c. current_task s = Some c \<Longrightarrow> c < MAX_TASKS \<and> st s c = TASK_RUNNING \<and> c \<notin> set xs"
    using sched_invE [OF inv] by metis
  have xs: "set xs = {j. j < MAX_TASKS \<and> st s j = TASK_READY}"
    using e(1) by (simp only: rq_ok_def)
  have ys: "set ys \<subseteq> {j. j < MAX_TASKS \<and> st s j \<noteq> TASK_DEAD}"
    "{j. j < MAX_TASKS \<and> st s j \<noteq> TASK_DEAD \<and> dline s j \<noteq> 0} \<subseteq> set ys"
    using e(2) by (simp_all only: dl_ok_def)
  have n: "i \<notin> set xs" "i \<notin> set ys" using xs ys(1) i(2) by auto
  have at: "tasks s' j = (if j = i then x else tasks s j)" for j using t(1) by simp
  have ready: "{j. j < MAX_TASKS \<and> st s' j = TASK_READY} = {j. j < MAX_TASKS \<and> st s j = TASK_READY}"
    using i(2) t(2) by (intro Collect_cong) (auto simp: at)
  show ?thesis
  proof (rule sched_invI)
    show "rq_ok s' xs"
      using e(1) n(1) unfolding rq_ok_def g ready by (simp add: t(1))
    have "set ys \<subseteq> {j. j < MAX_TASKS \<and> st s' j \<noteq> TASK_DEAD}"
      "{j. j < MAX_TASKS \<and> st s' j \<noteq> TASK_DEAD \<and> dline s' j \<noteq> 0} \<subseteq> set ys"
      using ys n(2) t(2) by (auto simp: at split: if_splits)
    then show "dl_ok s' ys"
      using e(2) n(2) unfolding dl_ok_def g by (simp add: t(1))
    show "prio_ok s'" using e(4) t(2) unfolding prio_ok_def by (auto simp: at)
    show "d < MAX_TASKS \<and> st s' d = TASK_RUNNING" if "current_task s' = Some d" for d
      using c [of d] that i(2) by (auto simp: at g)
    show "current_task s' = Some j" if "j < MAX_TASKS" "st s' j = TASK_RUNNING" for j
      using cur_weakD [OF e(3) that(1)] that(2) t(2) by (auto simp: at g split: if_splits)
  qed (use e(5) g in simp)
qed

lemma find_deadD:
  assumes "find_dead s = Some i"
  shows "i < MAX_TASKS" "st s i = TASK_DEAD"
  using assms by (auto simp: find_dead_def find_Some_iff)

lemma create_inv:
  assumes inv: "sched_inv s" and len: "length name < 31"
  shows "\<exists>t s'. task_create trampoline stack name ent p s = Some (t, s') \<and> sched_inv s' \<and>
           (case t of None \<Rightarrow> stack = None \<or> find_dead s = None
            | Some i \<Rightarrow> find_dead s = Some i \<and> st s' i = TASK_READY \<and>
                prio s' i = (if 31 < p then 31 else p) \<and> dline s' i = 0)"
proof (cases "find_dead s")
  case None
  with inv show ?thesis by (simp add: task_create_def)
next
  case (Some i)
  note i = find_deadD [OF this]
  show ?thesis
  proof (cases stack)
    case None
    have "sched_inv (snd (the (task_create trampoline stack name ent p s)))"
      by (rule free_slot [OF inv i,
            where x = "tasks (snd (the (task_create trampoline stack name ent p s))) i"])
        (use Some None len in \<open>simp_all add: task_create_def Let_def\<close>)
    with Some None len show ?thesis by (simp add: task_create_def Let_def)
  next
    case (Some base)
    obtain sp m where pw: "push_words (initial_frame trampoline) (base + TASK_STACK_SIZE, stack_words s) = (sp, m)"
      by fastforce
    let ?p = "if 31 < p then 31 else p"
    let ?x = "(tasks s i)\<lparr>tid := next_tid s, tname := name, entry := ent,
                  tstate := TASK_BLOCKED, priority := ?p, deadline := 0, next_deadline := None,
                  cpu_id := 0, cpu_affinity := 0xFFFFFFFF, original_priority := ?p,
                  blocked_on := None, waiting_tasks := None, stack_base := base,
                  stack_pointer := sp, next_task := task_list s\<rparr>"
    let ?s0 = "s\<lparr>tasks := (tasks s)(i := ?x), next_tid := next_tid s + 1, stack_words := m, task_list := Some i\<rparr>"
    have inv0: "sched_inv ?s0"
      by (rule free_slot [OF inv i, where x = ?x]) (simp_all add: not_less)
    obtain s' where s': "ready_queue_insert (Some i) (upd_task i (\<lambda>x. x\<lparr>tstate := TASK_READY\<rparr>) ?s0) = Some s'"
      "sched_inv s'"
      using ready_inv [OF inv0 i(1)] by auto
    have f: "rq_frame (upd_task i (\<lambda>x. x\<lparr>tstate := TASK_READY\<rparr>) ?s0) s'"
      using s'(1) by (rule ready_queue_insert_frame)
    let ?s1 = "(upd_task i (\<lambda>x. x\<lparr>tid := next_tid s, tname := name, entry := ent,
                  tstate := TASK_READY, priority := ?p, deadline := 0, next_deadline := None,
                  cpu_id := 0, cpu_affinity := 0xFFFFFFFF, original_priority := ?p,
                  blocked_on := None, waiting_tasks := None\<rparr>) s)\<lparr>next_tid := next_tid s + 1\<rparr>"
    have "(upd_task i (\<lambda>x. x\<lparr>stack_base := base, stack_pointer := sp, next_task := task_list s\<rparr>) ?s1)
            \<lparr>stack_words := m, task_list := Some i\<rparr> = upd_task i (\<lambda>x. x\<lparr>tstate := TASK_READY\<rparr>) ?s0"
      by (cases s, cases "tasks s i") (simp add: upd_task_def)
    then have "task_create trampoline stack name ent p s = Some (Some i, s')"
      using \<open>find_dead s = Some i\<close> Some len pw s'(1)
      by (simp add: task_create_def Let_def)
    with s'(2) show ?thesis
      using \<open>find_dead s = Some i\<close> by (simp add: rq_frame_at [OF f])
  qed
qed


text \<open>The API as one datatype of operations; \<open>exec\<close> runs one.\<close>

datatype sched_op =
    Create u64 "nat option" string nat u8
  | Yield u64
  | Block u64
  | Exit_task u64
  | Wake nat
  | Set_priority nat u8
  | Set_deadline nat u64
  | Tick
  | Disable_preemption
  | Enable_preemption u64
  | Resume

fun exec :: "sched_op \<Rightarrow> sched \<Rightarrow> sched option" where
  "exec (Create tramp stack name ent p) s = map_option snd (task_create tramp stack name ent p s)"
| "exec (Yield now) s = map_option snd (task_yield now s)"
| "exec (Block now) s = map_option snd (task_block now s)"
| "exec (Exit_task now) s = map_option snd (task_exit now s)"
| "exec (Wake i) s = task_wake (Some i) s"
| "exec (Set_priority i p) s = task_set_priority (Some i) p s"
| "exec (Set_deadline i d) s = task_set_deadline (Some i) d s"
| "exec Tick s = Some (scheduler_tick s)"
| "exec Disable_preemption s = Some (scheduler_disable_preemption s)"
| "exec (Enable_preemption now) s = map_option snd (scheduler_enable_preemption now s)"
| "exec Resume s = Some (case current_task s of None \<Rightarrow> s | Some c \<Rightarrow> schedule_resume c s)"

text \<open>
  The calls the kernel may make: handles of pool slots, names that fit, and no deadline for a
  task whose missed deadline is still listed.
\<close>

definition missed_listed :: "sched \<Rightarrow> nat \<Rightarrow> bool" where
  "missed_listed s i \<longleftrightarrow> dline s i = 0 \<and> (deadline_list s = Some i \<or> (\<exists>j<MAX_TASKS. dl_link s j = Some i))"

fun op_ok :: "sched_op \<Rightarrow> sched \<Rightarrow> bool" where
  "op_ok (Create tramp stack name ent p) s \<longleftrightarrow> length name < 31"
| "op_ok (Wake i) s \<longleftrightarrow> i < MAX_TASKS"
| "op_ok (Set_priority i p) s \<longleftrightarrow> i < MAX_TASKS"
| "op_ok (Set_deadline i d) s \<longleftrightarrow> i < MAX_TASKS \<and> st s i \<noteq> TASK_DEAD \<and> \<not> missed_listed s i"
| "op_ok _ s \<longleftrightarrow> True"

lemma chain_member: "chain nxt p xs \<Longrightarrow> i \<in> set xs \<Longrightarrow> p = Some i \<or> (\<exists>j\<in>set xs. nxt j = Some i)"
  by (induction xs arbitrary: p) auto

lemma not_missed_listed:
  assumes "sched_inv s" "\<not> missed_listed s i" "dline s i = 0"
  shows "\<exists>ys. chain (dl_link s) (deadline_list s) ys \<and> i \<notin> set ys"
proof -
  obtain ys where "dl_ok s ys" using assms(1) unfolding sched_inv_def sched_entry_def by blast
  then have c: "chain (dl_link s) (deadline_list s) ys" and s: "set ys \<subseteq> {j. j < MAX_TASKS \<and> st s j \<noteq> TASK_DEAD}"
    by (simp_all only: dl_ok_def)
  have "i \<notin> set ys"
    using chain_member [OF c, of i] s assms(2,3) unfolding missed_listed_def by blast
  with c show ?thesis by blast
qed

lemma sched_inv_scalars:
  assumes "tasks s' = tasks s" "current_task s' = current_task s" "ready_queue s' = ready_queue s"
    "deadline_list s' = deadline_list s" "sched_initialized s' = sched_initialized s"
  shows "sched_inv s' = sched_inv s"
  using assms by (simp add: sched_inv_def sched_entry_def rq_ok_def dl_ok_def cur_weak_def prio_ok_def)

lemma sched_inv_entry: "sched_inv s \<Longrightarrow> sched_entry s"
  by (simp add: sched_inv_def)

lemma schedule_inv: "sched_entry s \<Longrightarrow> \<exists>r s'. schedule now s = Some (r, s') \<and> sched_inv s'"
  using schedule_ok by blast

lemma tick_inv: "sched_inv s \<Longrightarrow> sched_inv (scheduler_tick s)"
  by (subst sched_inv_scalars [of _ s]) (auto simp: scheduler_tick_def Let_def split: option.split)

lemma enable_inv:
  assumes "sched_inv s"
  shows "\<exists>r s'. scheduler_enable_preemption now s = Some (r, s') \<and> sched_inv s'"
proof -
  have i: "sched_inv s'" if "tasks s' = tasks s" "current_task s' = current_task s"
    "ready_queue s' = ready_queue s" "deadline_list s' = deadline_list s"
    "sched_initialized s' = sched_initialized s" for s'
    using sched_inv_scalars [OF that] assms by simp
  show ?thesis
    unfolding scheduler_enable_preemption_def Let_def
    by (auto split: option.split intro!: i assms schedule_inv sched_inv_entry)
qed

lemma resume_inv:
  assumes "sched_inv s" "current_task s = Some c"
  shows "sched_inv (schedule_resume c s)"
proof -
  have "st s c = TASK_RUNNING" using assms by (auto simp: sched_inv_def)
  then have "(tasks s c)\<lparr>tstate := TASK_RUNNING\<rparr> = tasks s c"
    by (cases "tasks s c") simp
  then have "upd_task c (\<lambda>x. x\<lparr>tstate := TASK_RUNNING\<rparr>) s = s"
    by (simp add: upd_task_def)
  then have "schedule_resume c s = s\<lparr>switch_in_progress := False\<rparr>"
    by (simp add: schedule_resume_def)
  with assms(1) show ?thesis
    by (simp add: sched_inv_scalars [of "s\<lparr>switch_in_progress := False\<rparr>" s])
qed

theorem exec_inv:
  assumes "sched_inv s" "op_ok op s"
  shows "\<exists>s'. exec op s = Some s' \<and> sched_inv s'"
proof (cases op)
  case (Create tramp stack name ent p)
  with create_inv [OF assms(1), of name] assms(2) show ?thesis by force
next
  case (Yield now)
  with schedule_inv [OF sched_inv_entry [OF assms(1)], of now] show ?thesis
    by (auto simp: task_yield_def)
next
  case (Block now)
  show ?thesis
  proof (cases "current_task s")
    case (Some c)
    with schedule_inv [OF block_entry [OF assms(1) this], of now] Block show ?thesis
      by (auto simp: task_block_def)
  qed (use Block assms(1) in \<open>simp add: task_block_def\<close>)
next
  case (Exit_task now)
  show ?thesis
  proof (cases "current_task s")
    case (Some c)
    obtain s1 s2 where "ready_queue_remove (Some c) (upd_task c (\<lambda>x. x\<lparr>tstate := TASK_DEAD\<rparr>) s) = Some s1"
      "deadline_list_remove (Some c) s1 = Some s2" "sched_entry s2"
      using exit_entry [OF assms(1) Some] by blast
    with schedule_inv [of s2 now] Exit_task Some show ?thesis
      by (auto simp: task_exit_def)
  qed (use Exit_task assms(1) in \<open>simp add: task_exit_def\<close>)
next
  case (Wake i)
  with ready_inv [OF assms(1), of i] assms show ?thesis by (auto simp: task_wake_def)
next
  case (Set_priority i p)
  have "(if 31 < p then 31 else p) \<le> 31" by (simp add: not_less)
  with reprioritise_inv [OF assms(1), of i "if 31 < p then 31 else p"] assms(2) Set_priority
  show ?thesis by (auto simp: task_set_priority_def)
next
  case (Set_deadline i d)
  with set_deadline_inv [OF assms(1), of i d] not_missed_listed [OF assms(1), of i] assms(2)
  show ?thesis by auto
next
  case Tick
  with tick_inv [OF assms(1)] show ?thesis by simp
next
  case Disable_preemption
  with assms(1) show ?thesis
    by (simp add: scheduler_disable_preemption_def
        sched_inv_scalars [of "s\<lparr>preemption_disable_count := preemption_disable_count s + 1\<rparr>" s])
next
  case (Enable_preemption now)
  with enable_inv [OF assms(1), of now] show ?thesis by auto
next
  case Resume
  with resume_inv assms(1) show ?thesis by (auto split: option.split)
qed

inductive sched_reach :: "sched \<Rightarrow> bool" where
  boot: "sched_reach (scheduler_init sched_static)"
| step: "sched_reach s \<Longrightarrow> op_ok op s \<Longrightarrow> exec op s = Some s' \<Longrightarrow> sched_reach s'"

lemma fold_upd_task:
  assumes "\<And>x. f (f x) = f x"
  shows "fold (\<lambda>i. upd_task i f) is s = s\<lparr>tasks := \<lambda>j. if j \<in> set is then f (tasks s j) else tasks s j\<rparr>"
  using assms by (induction "is" arbitrary: s) (auto simp: upd_task_def fun_eq_iff intro!: arg_cong [where f = "\<lambda>t. s\<lparr>tasks := t\<rparr>" for s])

lemma init_inv: "sched_inv (scheduler_init sched_static)"
proof -
  let ?s = "scheduler_init sched_static"
  have f: "?s = sched_static\<lparr>tasks := \<lambda>j. if j \<in> set [0..<MAX_TASKS]
      then zero_task\<lparr>tstate := TASK_DEAD, tid := 0\<rparr> else zero_task, sched_initialized := True\<rparr>"
    unfolding scheduler_init_def
    by (subst fold_upd_task) (simp_all add: sched_static_def fun_eq_iff)
  have dead: "st ?s i = TASK_DEAD" if "i < MAX_TASKS" for i
    using that by (simp add: f del: upt_rec_numeral)
  have g: "ready_queue ?s = None" "deadline_list ?s = None" "current_task ?s = None"
    "sched_initialized ?s"
    by (simp_all add: f) (simp_all add: sched_static_def)
  show ?thesis
  proof (rule sched_invI [where xs = "[]" and ys = "[]"])
    show "rq_ok ?s []" using dead g by (auto simp: rq_ok_def)
    show "dl_ok ?s []" using dead g by (auto simp: dl_ok_def)
    show "prio_ok ?s" using dead by (simp add: prio_ok_def)
  qed (use dead g in auto)
qed

text \<open>Every state the API can reach satisfies the invariant.\<close>

lemma reach_inv: "sched_reach s \<Longrightarrow> sched_inv s"
proof (induction rule: sched_reach.induct)
  case boot
  then show ?case by (rule init_inv)
next
  case (step s op s')
  with exec_inv [of s op] show ?case by auto
qed

section \<open>Properties\<close>

text \<open>
  C1. In every state reached by calls that meet \<open>op_ok\<close>, every further such call of the scheduler
  API returns and keeps the ready queue sorted by priority and equal to the ready tasks, the
  deadline list sorted and complete, and at most one task running, the current one. \<open>op_ok\<close> asks
  for task handles from the pool, names of fewer than 31 characters, a task that is not dead for a
  new deadline, and no new deadline for a task whose missed deadline is still in the list: that
  call is accepted by the code and makes the next \<open>schedule\<close> loop.
\<close>

theorem scheduler_calls_return:
  assumes "sched_reach s" "op_ok op s"
  shows "\<exists>s'. exec op s = Some s' \<and> sched_inv s'"
  using exec_inv [OF reach_inv [OF assms(1)] assms(2)] .

theorem scheduler_calls_return_witness:
  "\<exists>s'. exec (Create 0x1000 (Some 0x8000) ''worker'' 0x2000 7) (scheduler_init sched_static) = Some s' \<and>
        sched_inv s'"
  by (rule scheduler_calls_return) (auto intro: sched_reach.boot)

text \<open>
  C2. \<open>schedule\<close> clears missed deadlines, raises tasks within 10 ticks of their deadline to
  priority 0, and dispatches a runnable task of the smallest priority value; the running task
  keeps the processor only when all others are strictly less urgent. Within a priority the tasks
  take turns: the new running task and the queue behind it are, for each priority and the tasks
  whose priority was not raised, the old queue followed by the task that ran.
\<close>

theorem schedule_dispatches_most_urgent:
  assumes "sched_inv s"
  shows "\<exists>r s'. schedule now s = Some (r, s') \<and> sched_inv s' \<and> takes_turns s s' \<and>
           next_choice (checked now s) (current_task s') \<and>
           (\<forall>i. prio s' i = prio (checked now s) i \<and> dline s' i = dline (checked now s) i) \<and>
           (\<forall>i<MAX_TASKS. st s' i = (if current_task s' = Some i then TASK_RUNNING
                                      else if runnable s i then TASK_READY else st s i)) \<and>
           r = (case current_task s' of None \<Rightarrow> Return
                | Some n \<Rightarrow> if current_task s = Some n then Return else SwitchTo (current_task s) n)"
  using schedule_ok [OF sched_inv_entry [OF assms]] .

theorem schedule_dispatches_most_urgent_witness:
  "\<exists>s' r s''. exec (Create 0x1000 (Some 0x8000) ''worker'' 0x2000 7) (scheduler_init sched_static) = Some s' \<and>
     schedule 3 s' = Some (r, s'') \<and> sched_inv s'' \<and>
     next_choice (checked 3 s') (current_task s'')"
proof -
  obtain s' where "exec (Create 0x1000 (Some 0x8000) ''worker'' 0x2000 7) (scheduler_init sched_static) = Some s'"
    "sched_inv s'"
    using exec_inv [OF init_inv, of "Create 0x1000 (Some 0x8000) ''worker'' 0x2000 7"] by auto
  with schedule_dispatches_most_urgent [of s' 3] show ?thesis by blast
qed

text \<open>
  C19. The ready queue is a priority queue with FIFO order inside a priority: inserting a ready
  task puts it behind all queued tasks that are at least as urgent and before the others.
\<close>

theorem ready_queue_priority_fifo:
  assumes "chain (rq_link s) (ready_queue s) xs" "sorted (map (prio s) xs)"
    and "i \<notin> set xs" "st s i = TASK_READY"
  shows "\<exists>s' ys. ready_queue_insert (Some i) s = Some s' \<and> chain (rq_link s') (ready_queue s') ys \<and>
           sorted (map (prio s') ys) \<and> set ys = insert i (set xs) \<and>
           (\<forall>v. filter (\<lambda>j. prio s j = v) ys =
                 filter (\<lambda>j. prio s j = v) xs @ (if prio s i = v then [i] else []))"
  using assms by (intro rq.put_sorted)

definition queue_of_one :: sched where
  "queue_of_one = sched_static\<lparr>tasks := (\<lambda>_. zero_task\<lparr>priority := 4\<rparr>), ready_queue := Some 3\<rparr>"

theorem ready_queue_priority_fifo_witness:
  "\<exists>s' ys. ready_queue_insert (Some 5) queue_of_one = Some s' \<and>
      chain (rq_link s') (ready_queue s') ys \<and> sorted (map (prio s') ys) \<and> set ys = {5, 3} \<and>
      (\<forall>v. filter (\<lambda>j. prio queue_of_one j = v) ys =
           filter (\<lambda>j. prio queue_of_one j = v) [3] @ (if prio queue_of_one 5 = v then [5] else []))"
  using ready_queue_priority_fifo [of queue_of_one "[3]" 5]
  by (simp add: queue_of_one_def zero_task_def)

section \<open>A re-armed missed deadline\<close>

text \<open>A deadline list that loops makes the check diverge.\<close>

lemma deadline_loop_diverges:
  assumes "check_deadlines_from now t s = Some r"
  shows "\<not> (t = Some i \<and> dl_link s i = Some i \<and> now \<le> dline s i \<and> st s i = TASK_RUNNING)"
proof (rule check_deadlines_from.raw_induct [OF _ assms])
  fix f now t s r
  assume IH: "\<And>now t s r. f now t s = Some r \<Longrightarrow>
      \<not> (t = Some i \<and> dl_link s i = Some i \<and> now \<le> dline s i \<and> st s i = TASK_RUNNING)"
    and step: "(case t of None \<Rightarrow> Some s
      | Some i \<Rightarrow>
          if dline s i = 0 then f now (dl_link s i) s
          else if dline s i < now then f now (dl_link s i) (upd_task i (\<lambda>x. x\<lparr>deadline := 0\<rparr>) s)
          else if dline s i - now < 10 \<and> 0 < prio s i
          then reprioritise i 0 s \<bind> (\<lambda>s1. f now (dl_link s1 i) s1)
          else f now (dl_link s i) s) = Some r"
  show "\<not> (t = Some i \<and> dl_link s i = Some i \<and> now \<le> dline s i \<and> st s i = TASK_RUNNING)"
  proof
    assume a: "t = Some i \<and> dl_link s i = Some i \<and> now \<le> dline s i \<and> st s i = TASK_RUNNING"
    then have "reprioritise i 0 s = Some (upd_task i (\<lambda>x. x\<lparr>priority := 0\<rparr>) s)"
      by (simp add: reprioritise_def)
    with a step have "f now (Some i) s = Some r \<or>
        f now (Some i) (upd_task i (\<lambda>x. x\<lparr>priority := 0\<rparr>) s) = Some r"
      by (auto split: if_splits)
    with IH [of now "Some i" s r] IH [of now "Some i" "upd_task i (\<lambda>x. x\<lparr>priority := 0\<rparr>) s" r] a
    show False by auto
  qed
qed

text \<open>
  C40. A task whose deadline was missed stays in the deadline list with deadline 0. When it is
  the only one listed and sets a new deadline, it is linked to itself, and the next call of
  \<open>schedule\<close> never returns.
\<close>

theorem rearmed_deadline_hangs_schedule:
  assumes "sched_initialized s" "current_task s = Some i" "st s i = TASK_RUNNING"
    and "deadline_list s = Some i" "dl_link s i = None" "dline s i = 0"
    and "d \<noteq> 0" "now \<le> d"
  shows "\<exists>s'. task_set_deadline (Some i) d s = Some s' \<and> schedule now s' = None"
proof -
  let ?s2 = "upd_task i (\<lambda>x. x\<lparr>deadline := d\<rparr>) s"
  let ?s' = "upd_task i (\<lambda>x. x\<lparr>next_deadline := Some i\<rparr>)
               (upd_task i (\<lambda>x. x\<lparr>next_deadline := None\<rparr>) ?s2)"
  have "dl_scan ?s2 d i = Some i"
    using assms(5) by (simp add: dl_scan.simps)
  then have s': "task_set_deadline (Some i) d s = Some ?s'"
    using assms(4-7) by (simp add: task_set_deadline_def deadline_list_insert_def)
  have "check_deadlines now ?s' = None"
    using deadline_loop_diverges [of now "Some i" ?s' _ i] assms(3,4,8)
    by (cases "check_deadlines now ?s'") (auto simp: check_deadlines_def)
  then have "schedule now ?s' = None"
    using assms(1) by (simp add: schedule_eq)
  with s' show ?thesis by blast
qed

definition missed_once :: sched where
  "missed_once = (let s = scheduler_init sched_static in
     s\<lparr>tasks := (tasks s)(0 := zero_task\<lparr>tstate := TASK_RUNNING\<rparr>), current_task := Some 0,
       deadline_list := Some 0, ready_queue := None\<rparr>)"

theorem rearmed_deadline_hangs_schedule_witness:
  "\<exists>s'. task_set_deadline (Some 0) 20 missed_once = Some s' \<and> schedule 7 s' = None"
  by (rule rearmed_deadline_hangs_schedule)
    (simp_all add: missed_once_def Let_def zero_task_def scheduler_init_def fold_upd_task del: upt_rec_numeral)

definition tick_preserved :: "sched \<Rightarrow> sched \<Rightarrow> bool" where
  "tick_preserved s s' \<longleftrightarrow> tasks s' = tasks s \<and> current_task s' = current_task s \<and>
     ready_queue s' = ready_queue s \<and> deadline_list s' = deadline_list s \<and>
     sched_initialized s' = sched_initialized s \<and>
     preemption_disable_count s' = preemption_disable_count s"

lemma ticks_preserve: "tick_preserved s ((scheduler_tick ^^ k) s)"
  by (induction k) (auto simp: tick_preserved_def scheduler_tick_def Let_def split: option.split)

lemma tick_pending:
  assumes "sched_initialized s" "current_task s = Some c" "ready_queue s = Some h" "prio s h < prio s c"
  shows "preemption_pending (scheduler_tick s)"
  using assms by (simp add: scheduler_tick_def Let_def)

lemma next_choice_cong:
  assumes "tasks s' = tasks s" "current_task s' = current_task s"
  shows "next_choice s' = next_choice s"
proof -
  have "runnable s' = runnable s" using assms(1) by (simp add: runnable_def fun_eq_iff)
  with assms show ?thesis by (intro ext) (simp add: next_choice_def split: option.split)
qed

text \<open>
  While preemption is disabled, timer ticks change no task and no queue, and a more urgent
  ready task is remembered; the matching enable then schedules.
\<close>

theorem preemption_deferred:
  assumes "sched_inv s" "preemption_disable_count s = 1" "current_task s = Some c"
    and "ready_queue s = Some h" "prio s h < prio s c"
  shows "let s1 = (scheduler_tick ^^ Suc k) s in tasks s1 = tasks s \<and> current_task s1 = Some c \<and>
           (\<exists>r s'. scheduler_enable_preemption now s1 = Some (r, s') \<and> sched_inv s' \<and>
              next_choice (checked now s) (current_task s'))"
proof -
  let ?s0 = "(scheduler_tick ^^ k) s" and ?s1 = "(scheduler_tick ^^ Suc k) s"
  have p0: "tick_preserved s ?s0" and p1: "tick_preserved s ?s1"
    by (rule ticks_preserve)+
  have ini: "sched_initialized s" using assms(1) by (simp add: sched_inv_def sched_entry_def)
  have pend: "preemption_pending ?s1"
    using tick_pending [of ?s0 c h] p0 ini assms by (simp add: tick_preserved_def)
  let ?s2 = "?s1\<lparr>preemption_disable_count := 0, preemption_pending := False,
               preemptions := preemptions ?s1 + 1\<rparr>"
  have e: "scheduler_enable_preemption now ?s1 = schedule now ?s2"
    using p1 pend assms by (simp add: scheduler_enable_preemption_def Let_def tick_preserved_def)
  have "sched_inv ?s2"
    using sched_inv_scalars [of ?s2 s] p1 assms(1) by (simp add: tick_preserved_def)
  then obtain r s' where "schedule now ?s2 = Some (r, s')" "sched_inv s'"
    "next_choice (checked now ?s2) (current_task s')"
    using schedule_ok [OF sched_inv_entry] by blast
  moreover have "next_choice (checked now ?s2) = next_choice (checked now s)"
    by (rule next_choice_cong) (use p1 in \<open>simp_all add: tick_preserved_def checked_def check_all_def
        cong: if_cong del: funpow.simps\<close>)
  ultimately show ?thesis
    using e p1 assms(3) by (auto simp: tick_preserved_def Let_def)
qed


definition two_tasks :: sched where
  "two_tasks = sched_static\<lparr>sched_initialized := True, preemption_disable_count := 1,
     tasks := (\<lambda>_. zero_task\<lparr>tstate := TASK_DEAD\<rparr>)
       (0 := zero_task\<lparr>tstate := TASK_RUNNING, priority := 7\<rparr>, 1 := zero_task\<lparr>priority := 3\<rparr>),
     current_task := Some 0, ready_queue := Some 1\<rparr>"

lemma two_tasks_inv: "sched_inv two_tasks"
proof (rule sched_invI [where xs = "[1]" and ys = "[]"])
  show "rq_ok two_tasks [1]"
    by (auto simp: rq_ok_def two_tasks_def zero_task_def)
qed (auto simp: two_tasks_def zero_task_def sched_static_def dl_ok_def prio_ok_def split: if_splits)

theorem preemption_deferred_witness:
  "let s1 = (scheduler_tick ^^ Suc 4) two_tasks in tasks s1 = tasks two_tasks \<and> current_task s1 = Some 0 \<and>
     (\<exists>r s'. scheduler_enable_preemption 9 s1 = Some (r, s') \<and> sched_inv s' \<and>
        next_choice (checked 9 two_tasks) (current_task s'))"
  by (rule preemption_deferred [where h = 1])
    (rule two_tasks_inv, simp_all add: two_tasks_def zero_task_def sched_static_def)

end
