(* ===== verification/NetCodec.thy ===== *)
theory NetCodec
  imports Prelude
begin

text \<open>
  The byte level of \<^verbatim>\<open>src/kernel/net/tcpip.c\<close>: byte order conversion, textual
  addresses, the internet checksum, and the headers of
  \<^verbatim>\<open>src/kernel/include/embodios/tcpip.h\<close> as the byte sequences the packed structs have in
  memory. The targets are little-endian: storing a \<open>uint16_t\<close> writes its low byte first.
\<close>

section \<open>Byte order\<close>

definition htons :: "u16 \<Rightarrow> u16" where
  "htons v = push_bit 8 (v AND 0xFF) OR (drop_bit 8 v AND 0xFF)"

definition ntohs :: "u16 \<Rightarrow> u16" where
  "ntohs v = htons v"

definition htonl :: "u32 \<Rightarrow> u32" where
  "htonl v = push_bit 24 (v AND 0xFF) OR push_bit 8 (v AND 0xFF00) OR
     (drop_bit 8 v AND 0xFF00) OR (drop_bit 24 v AND 0xFF)"

definition ntohl :: "u32 \<Rightarrow> u32" where
  "ntohl v = htonl v"

text \<open>The masks of the code as \<open>mask\<close>, and the two swaps bit by bit.\<close>

lemma byte_masks:
  "(0xFF :: 'a::len word) = mask 8" "(0xFF00 :: 'a word) = push_bit 8 (mask 8)"
  by (simp_all add: mask_numeral push_bit_eq_mult)

lemma bit_htons: "bit (htons v) n \<longleftrightarrow> n < 16 \<and> bit v (if n < 8 then n + 8 else n - 8)"
  using bit_imp_le_length [of v "n + 8"] bit_imp_le_length [of v "n - 8"]
  by (auto simp: htons_def byte_masks bit_simps add.commute)

lemma bit_htonl:
  "bit (htonl v) n \<longleftrightarrow> n < 32 \<and>
     bit v (if n < 8 then n + 24 else if n < 16 then n + 8 else if n < 24 then n - 8 else n - 24)"
  using bit_imp_le_length [of v "n + 8"] bit_imp_le_length [of v "n + 24"]
  by (auto simp: htonl_def byte_masks bit_simps add.commute)

lemma htons_htons [simp]: "htons (htons v) = v"
  by (rule bit_word_eqI) (auto simp: bit_htons)

lemma htonl_htonl [simp]: "htonl (htonl v) = v"
  by (rule bit_word_eqI) (auto simp: bit_htonl)

lemma ntohs_htons [simp]: "ntohs (htons v) = v" "htons (ntohs v) = v"
  by (simp_all add: ntohs_def)

lemma ntohl_htonl [simp]: "ntohl (htonl v) = v" "htonl (ntohl v) = v"
  by (simp_all add: ntohl_def)

section \<open>Fields in memory\<close>

definition le16 :: "u16 \<Rightarrow> u8 list" where
  "le16 v = [ucast v, ucast (drop_bit 8 v)]"

definition le32 :: "u32 \<Rightarrow> u8 list" where
  "le32 v = [ucast v, ucast (drop_bit 8 v), ucast (drop_bit 16 v), ucast (drop_bit 24 v)]"

definition get16 :: "u8 list \<Rightarrow> nat \<Rightarrow> u16" where
  "get16 p i = ucast (p ! i) OR push_bit 8 (ucast (p ! (i + 1)))"

definition get32 :: "u8 list \<Rightarrow> nat \<Rightarrow> u32" where
  "get32 p i = ucast (p ! i) OR push_bit 8 (ucast (p ! (i + 1))) OR
     push_bit 16 (ucast (p ! (i + 2))) OR push_bit 24 (ucast (p ! (i + 3)))"

lemma length_le [simp]: "length (le16 v) = 2" "length (le32 w) = 4"
  by (simp_all add: le16_def le32_def)

lemma get16_le16 [codec_simps]: "get16 (le16 v) 0 = v"
  by (rule bit_word_eqI) (auto simp: get16_def le16_def bit_simps)

lemma get32_le32 [codec_simps]: "get32 (le32 v) 0 = v"
proof (rule bit_word_eqI)
  fix n assume "n < LENGTH(32)"
  consider "n < 8" | "8 \<le> n" "n < 16" | "16 \<le> n" "n < 24" | "24 \<le> n" by linarith
  then show "bit (get32 (le32 v) 0) n = bit v n"
    using \<open>n < LENGTH(32)\<close> by cases (auto simp: get32_def le32_def bit_simps)
qed

lemma get16_append [codec_simps]:
  "length xs \<le> i \<Longrightarrow> get16 (xs @ ys) i = get16 ys (i - length xs)"
  "i + 1 < length xs \<Longrightarrow> get16 (xs @ ys) i = get16 xs i"
  by (simp_all add: get16_def nth_append Suc_diff_le)

lemma get32_append [codec_simps]:
  "length xs \<le> i \<Longrightarrow> get32 (xs @ ys) i = get32 ys (i - length xs)"
  "i + 3 < length xs \<Longrightarrow> get32 (xs @ ys) i = get32 xs i"
  by (simp_all add: get32_def nth_append numeral_3_eq_3 numeral_2_eq_2 Suc_diff_le)

lemma get_Cons [codec_simps]:
  "0 < i \<Longrightarrow> get16 (x # ys) i = get16 ys (i - 1)"
  "0 < i \<Longrightarrow> get32 (x # ys) i = get32 ys (i - 1)"
  by (simp_all add: get16_def get32_def nth_Cons')

section \<open>The internet checksum\<close>

fun sum16 :: "u8 list \<Rightarrow> u32 \<Rightarrow> u32" where
  "sum16 (a # b # r) s = sum16 r (s + ucast (get16 [a, b] 0))"
| "sum16 [a] s = s + ucast a"
| "sum16 [] s = s"

lemma unat_lo16: "unat ((s :: u32) AND 0xFFFF) = unat s mod 65536"
proof -
  have "s AND 0xFFFF = s mod 65536"
    using take_bit_eq_mask [of 16 s] by (simp add: mask_numeral take_bit_eq_mod)
  then show ?thesis by (simp add: unat_mod_distrib)
qed

lemma unat_hi16: "unat (drop_bit 16 (s :: u32)) = unat s div 65536"
  by (simp add: drop_bit_eq_div unat_div_distrib)

lemma unat_ucast_u32 [simp]: "unat (ucast (x :: u16) :: u32) = unat x" "unat (ucast (y :: u8) :: u32) = unat y"
  using unsigned_less_nat [of x] unsigned_less_nat [of y]
  by (simp_all add: unsigned_ucast_eq take_bit_nat_eq_self)

lemma carry_step:
  fixes s :: u32
  shows "unat ((s AND 0xFFFF) + drop_bit 16 s) = unat s mod 65536 + unat s div 65536"
proof -
  have "unat s < 4294967296" using unsigned_less_nat [of s] by simp
  then have "unat s mod 65536 + unat s div 65536 < 4294967296" by linarith
  then show ?thesis by (simp add: unat_word_ariths unat_lo16 unat_hi16)
qed

lemma carry_less:
  assumes "drop_bit 16 (s :: u32) \<noteq> 0"
  shows "unat ((s AND 0xFFFF) + drop_bit 16 s) < unat s"
proof -
  have "unat s div 65536 \<noteq> 0" using assms unat_hi16 [of s] by (metis unat_eq_zero)
  then show ?thesis
    unfolding carry_step using mult_div_mod_eq [of 65536 "unat s"] by linarith
qed

function fold_carry :: "u32 \<Rightarrow> u32" where
  "fold_carry s = (if drop_bit 16 s \<noteq> 0 then fold_carry ((s AND 0xFFFF) + drop_bit 16 s) else s)"
  by auto
termination by (relation "measure unat") (use carry_less in auto)

declare fold_carry.simps [simp del]

definition checksum :: "u8 list \<Rightarrow> u16" where
  "checksum d = NOT (ucast (fold_carry (sum16 d 0)))"

text \<open>The sum of the little-endian words of a byte sequence, without wrap-around.\<close>

fun words_sum :: "u8 list \<Rightarrow> nat" where
  "words_sum (a # b # r) = unat (get16 [a, b] 0) + words_sum r"
| "words_sum [a] = unat a"
| "words_sum [] = 0"

lemma words_sum_bound: "words_sum d \<le> 65535 * length d"
proof (induction d rule: words_sum.induct)
  case (1 a b r)
  moreover have "unat (get16 [a, b] 0) \<le> 65535"
    using unsigned_less_nat [of "get16 [a, b] 0"] by simp
  ultimately show ?case by simp
next
  case (2 a)
  then show ?case using unsigned_less_nat [of a] by simp
qed simp

lemma sum16_exact:
  "unat s + words_sum d < 2 ^ 32 \<Longrightarrow> unat (sum16 d s) = unat s + words_sum d"
proof (induction d s rule: sum16.induct)
  case (1 a b r s)
  have "unat (s + ucast (get16 [a, b] 0)) = unat s + unat (get16 [a, b] 0)"
    using 1(2) by (simp add: unat_word_ariths)
  with 1 show ?case by simp
qed (simp_all add: unat_word_ariths)

lemma words_sum_append: "even (length xs) \<Longrightarrow> words_sum (xs @ ys) = words_sum xs + words_sum ys"
  by (induction xs rule: words_sum.induct) auto

text \<open>Folding keeps the residue modulo 65535 and ends in the range of 16 bits, in 0 only from 0.\<close>

lemma fold_carry_spec:
  "unat (fold_carry s) < 65536 \<and> unat (fold_carry s) mod 65535 = unat s mod 65535 \<and>
   (fold_carry s = 0 \<longleftrightarrow> s = 0)"
proof (induction s rule: fold_carry.induct)
  case (1 s)
  show ?case
  proof (cases "drop_bit 16 s = 0")
    case True
    then have "unat s div 65536 = 0" using unat_hi16 [of s] by simp
    then have "unat s < 65536" by (simp add: div_eq_0_iff)
    with True show ?thesis by (simp add: fold_carry.simps [of s])
  next
    case False
    let ?t = "(s AND 0xFFFF) + drop_bit 16 s"
    have hi: "unat s div 65536 \<noteq> 0" using False unat_hi16 [of s] by (metis unat_eq_zero)
    have "unat s = unat ?t + 65535 * (unat s div 65536)"
      unfolding carry_step using mult_div_mod_eq [of 65536 "unat s"] by linarith
    then have "unat s mod 65535 = unat ?t mod 65535"
      by (metis mod_mult_self2)
    moreover have "?t \<noteq> 0"
      using hi carry_step [of s] by (metis add_is_0 unat_0)
    moreover have "s \<noteq> 0" using hi by auto
    ultimately show ?thesis
      using 1 [OF False] False by (simp add: fold_carry.simps [of s])
  qed
qed

text \<open>
  A checksum stored in a field that was zero, at an even offset, makes the checksum of the
  whole zero: the receiver's test.
\<close>

lemma checksum_zero_iff: "checksum d = 0 \<longleftrightarrow> unat (fold_carry (sum16 d 0)) = 65535"
proof -
  have "unat (ucast (fold_carry (sum16 d 0)) :: u16) = unat (fold_carry (sum16 d 0))"
    using fold_carry_spec [of "sum16 d 0"] by (simp add: unsigned_ucast_eq take_bit_nat_eq_self)
  moreover have "checksum d = 0 \<longleftrightarrow> (ucast (fold_carry (sum16 d 0)) :: u16) = - 1"
    unfolding checksum_def by (metis bit.compl_zero bit.double_compl)
  moreover have "unat (- 1 :: u16) = 65535" by (simp add: unsigned_minus_1_eq_mask mask_eq_exp_minus_1)
  ultimately show ?thesis by (metis word_unat_eq_iff)
qed

lemma checksum_sum: "unat (checksum d) + unat (fold_carry (sum16 d 0)) = 65535"
proof -
  let ?f = "ucast (fold_carry (sum16 d 0)) :: u16"
  have "unat ?f = unat (fold_carry (sum16 d 0))"
    using fold_carry_spec [of "sum16 d 0"] by (simp add: unsigned_ucast_eq take_bit_nat_eq_self)
  moreover have "unat (NOT ?f) + unat ?f = 65535"
  proof -
    have m: "unat (- 1 :: u16) = 65535" by (simp add: unsigned_minus_1_eq_mask mask_eq_exp_minus_1)
    have "NOT ?f = - 1 - ?f" by (simp add: not_eq_complement)
    then have "unat (NOT ?f) = 65535 - unat ?f"
      using unat_sub [of ?f "- 1"] m unsigned_less_nat [of ?f] by (simp add: word_le_nat_alt)
    then show ?thesis using unsigned_less_nat [of ?f] by simp
  qed
  ultimately show ?thesis by (simp add: checksum_def)
qed

lemma checksum_verifies:
  assumes "even (length xs)" "length xs + length ys < 60000"
  shows "checksum (xs @ le16 (checksum (xs @ [0, 0] @ ys)) @ ys) = 0"
proof -
  define c where "c = checksum (xs @ [0, 0] @ ys)"
  define s0 s1 where "s0 = sum16 (xs @ [0, 0] @ ys) 0" and "s1 = sum16 (xs @ le16 c @ ys) 0"
  have small: "words_sum d < 2 ^ 32" if "length d < 60002" for d
    using words_sum_bound [of d] that by simp
  have s0: "unat s0 = words_sum xs + words_sum ys"
    using sum16_exact [of 0 "xs @ [0, 0] @ ys"] small [of "xs @ [0, 0] @ ys"] assms
    by (simp add: s0_def words_sum_append get16_def)
  have g: "get16 [ucast c, ucast (drop_bit 8 c)] 0 = c"
    using get16_le16 [of c] by (simp add: le16_def)
  have s1: "unat s1 = words_sum xs + words_sum ys + unat c"
    using sum16_exact [of 0 "xs @ le16 c @ ys"] small [of "xs @ le16 c @ ys"] assms
    by (simp add: s1_def words_sum_append le16_def g)
  have f: "unat c + unat (fold_carry s0) = 65535"
    using checksum_sum [of "xs @ [0, 0] @ ys"] by (simp add: c_def s0_def)
  have "unat (fold_carry s1) mod 65535 = (unat s0 + unat c) mod 65535"
    using fold_carry_spec [of s1] s0 s1 by simp
  also have "\<dots> = (unat (fold_carry s0) + unat c) mod 65535"
    using fold_carry_spec [of s0] by (metis mod_add_left_eq)
  also have "\<dots> = 0" using f by (simp add: add.commute)
  finally have "unat (fold_carry s1) mod 65535 = 0" .
  moreover have "s1 \<noteq> 0"
  proof
    assume "s1 = 0"
    then have "unat c = 0" "unat s0 = 0" using s0 s1 by simp_all
    then have "fold_carry s0 = 0" using fold_carry_spec [of s0] by (metis unat_eq_zero)
    with f \<open>unat c = 0\<close> show False by simp
  qed
  then have "unat (fold_carry s1) \<noteq> 0" using fold_carry_spec [of s1] by (metis unat_eq_zero)
  ultimately have "unat (fold_carry s1) = 65535"
    using fold_carry_spec [of s1] by (auto simp: mod_eq_0_iff_dvd dvd_def)
  then show ?thesis by (simp add: checksum_zero_iff s1_def c_def)
qed

section \<open>Addresses as text\<close>

text \<open>
  \<open>ip_from_string\<close> on the characters before the terminating NUL. The state of its loop is
  the address so far, the octet being read and the shift of the next octet; the shift turns
  negative at the fourth dot, which ends the loop.
\<close>

definition is_digit :: "char \<Rightarrow> bool" where
  "is_digit c \<longleftrightarrow> 48 \<le> (of_char c :: nat) \<and> (of_char c :: nat) \<le> 57"

fun ip_from_chars :: "string \<Rightarrow> u32 \<Rightarrow> u32 \<Rightarrow> int \<Rightarrow> u32" where
  "ip_from_chars [] ip octet shift = ip OR octet"
| "ip_from_chars (c # cs) ip octet shift =
     (if shift < 0 then ip OR octet
      else if is_digit c then ip_from_chars cs ip (octet * 10 + of_nat (of_char c - 48)) shift
      else if c = CHR ''.'' then ip_from_chars cs (ip OR push_bit (nat shift) octet) 0 (shift - 8)
      else ip_from_chars cs ip octet shift)"

definition ip_from_string :: "string \<Rightarrow> u32" where
  "ip_from_string str = ip_from_chars str 0 0 24"

definition octet_digits :: "u8 \<Rightarrow> string" where
  "octet_digits o8 =
     (let n = unat o8; digit = (\<lambda>d. char_of (48 + d :: nat)) in
      (if 100 \<le> n then [digit (n div 100)] else []) @
      (if 10 \<le> n then [digit (n div 10 mod 10)] else []) @ [digit (n mod 10)])"

text \<open>Nothing is written to buffers below 16 bytes.\<close>

definition ip_to_string :: "u32 \<Rightarrow> nat \<Rightarrow> string option" where
  "ip_to_string ip len =
     (if len < 16 then None
      else Some (octet_digits (ucast (drop_bit 24 ip)) @ ''.'' @ octet_digits (ucast (drop_bit 16 ip)) @ ''.'' @
                 octet_digits (ucast (drop_bit 8 ip)) @ ''.'' @ octet_digits (ucast ip)))"

lemma digit_facts:
  "d < 10 \<Longrightarrow> is_digit (char_of (48 + d :: nat))"
  "d < 10 \<Longrightarrow> of_char (char_of (48 + d :: nat)) - 48 = d"
  by (simp_all add: is_digit_def)

lemma parse_digit:
  "d < 10 \<Longrightarrow> 0 \<le> sh \<Longrightarrow> ip_from_chars (char_of (48 + d :: nat) # cs) ip v sh =
     ip_from_chars cs ip (v * 10 + of_nat d) sh"
  using digit_facts [of d] by simp

lemma parse_octet:
  assumes "0 \<le> sh"
  shows "ip_from_chars (octet_digits o8 @ cs) ip 0 sh = ip_from_chars cs ip (ucast o8) sh"
proof -
  define n where "n = unat o8"
  have n: "n < 256" using unsigned_less_nat [of o8] by (simp add: n_def)
  have u: "(ucast o8 :: u32) = of_nat n" by (simp add: n_def)
  have d: "n div 100 < 10" "n div 10 mod 10 < 10" "n mod 10 < 10" using n by auto
  have t: "(of_nat (n mod 10) + 10 * of_nat (n div 10) :: u32) = of_nat n"
  proof -
    have "(of_nat (n mod 10) + 10 * of_nat (n div 10) :: u32) = of_nat (n mod 10 + 10 * (n div 10))"
      by (simp only: of_nat_add of_nat_mult of_nat_numeral)
    also have "\<dots> = of_nat n" by simp
    finally show ?thesis .
  qed
  have w: "ip_from_chars (octet_digits o8 @ cs) ip 0 sh = ip_from_chars cs ip (of_nat m) sh"
    if "m = (if 100 \<le> n then (n div 100 * 10 + n div 10 mod 10) * 10 + n mod 10
             else if 10 \<le> n then n div 10 mod 10 * 10 + n mod 10 else n mod 10)" for m
    using d unfolding octet_digits_def Let_def n_def [symmetric] that
    by (simp add: parse_digit assms del: ip_from_chars.simps) (simp add: algebra_simps, simp only: t, blast)
  have "(if 100 \<le> n then (n div 100 * 10 + n div 10 mod 10) * 10 + n mod 10
         else if 10 \<le> n then n div 10 mod 10 * 10 + n mod 10 else n mod 10) = n"
  proof -
    have "n div 100 * 10 + n div 10 mod 10 = n div 10"
      using div_mult_mod_eq [of "n div 10" 10] by (simp add: div_mult2_eq [symmetric])
    moreover have "n < 100 \<Longrightarrow> n div 10 mod 10 = n div 10" by (simp add: div_less_mono)
    moreover have "n div 10 * 10 + n mod 10 = n" by simp
    ultimately show ?thesis by simp
  qed
  with w [of n] u show ?thesis by simp
qed

lemma octets_join:
  "((push_bit 24 (ucast (ucast (drop_bit 24 ip) :: u8)) OR push_bit 16 (ucast (ucast (drop_bit 16 ip) :: u8))) OR
    push_bit 8 (ucast (ucast (drop_bit 8 ip) :: u8))) OR ucast (ucast ip :: u8) = (ip :: u32)"
proof (rule bit_word_eqI)
  fix n assume n: "n < LENGTH(32)"
  consider "n < 8" | "8 \<le> n" "n < 16" | "16 \<le> n" "n < 24" | "24 \<le> n" by linarith
  then show "bit (((push_bit 24 (ucast (ucast (drop_bit 24 ip) :: u8)) OR push_bit 16 (ucast (ucast (drop_bit 16 ip) :: u8))) OR
    push_bit 8 (ucast (ucast (drop_bit 8 ip) :: u8))) OR ucast (ucast ip :: u8) :: u32) n = bit ip n"
    using n by cases (auto simp: bit_simps)
qed

lemma parse_dot: "0 \<le> sh \<Longrightarrow> ip_from_chars (CHR ''.'' # cs) ip v sh =
    ip_from_chars cs (ip OR push_bit (nat sh) v) 0 (sh - 8)"
  by (simp add: is_digit_def)

text \<open>
  Printing an address and parsing the text gives the address back.
\<close>

theorem ip_string_roundtrip: "\<exists>str. ip_to_string ip 16 = Some str \<and> length str < 16 \<and> ip_from_string str = ip"
proof -
  have len: "length (octet_digits b) \<le> 3" for b by (simp add: octet_digits_def Let_def)
  let ?s = "octet_digits (ucast (drop_bit 24 ip)) @ ''.'' @ octet_digits (ucast (drop_bit 16 ip)) @ ''.'' @
            octet_digits (ucast (drop_bit 8 ip)) @ ''.'' @ octet_digits (ucast ip)"
  have "ip_from_string ?s = ip"
    unfolding ip_from_string_def
    using parse_octet [of 0 "ucast ip" "[]"] octets_join [of ip]
    by (simp add: parse_octet parse_dot del: ip_from_chars.simps(2))
  moreover have "length ?s < 16"
    using len [of "ucast (drop_bit 24 ip)"] len [of "ucast (drop_bit 16 ip)"]
      len [of "ucast (drop_bit 8 ip)"] len [of "ucast ip"] by simp
  ultimately show ?thesis by (simp add: ip_to_string_def)
qed

section \<open>Headers\<close>

text \<open>The frames the stack builds, field by field in the order of the packed structs.\<close>

definition eth_header :: "u8 list \<Rightarrow> u8 list \<Rightarrow> u16 \<Rightarrow> u8 list" where
  "eth_header dst src ty = dst @ src @ le16 (htons ty)"

definition arp_header :: "u16 \<Rightarrow> u8 list \<Rightarrow> u32 \<Rightarrow> u8 list \<Rightarrow> u32 \<Rightarrow> u8 list" where
  "arp_header op smac sip tmac tip =
     le16 (htons 1) @ le16 (htons 0x0800) @ [6, 4] @ le16 (htons op) @
     smac @ le32 sip @ tmac @ le32 tip"

text \<open>Identification and addresses are given as they are in memory.\<close>

definition ip_header :: "u16 \<Rightarrow> u16 \<Rightarrow> u8 \<Rightarrow> u32 \<Rightarrow> u32 \<Rightarrow> u8 list" where
  "ip_header tlen ident proto src dst =
     (let front = [0x45, 0] @ le16 (htons tlen) @ le16 ident @ le16 0 @ [64, proto];
          back = le32 src @ le32 dst
      in front @ le16 (checksum (front @ [0, 0] @ back)) @ back)"

definition icmp_echo :: "u8 \<Rightarrow> u8 \<Rightarrow> u8 list \<Rightarrow> u8 list" where
  "icmp_echo ty code rest = [ty, code] @ le16 (checksum ([ty, code] @ [0, 0] @ rest)) @ rest"

definition udp_header :: "u16 \<Rightarrow> u16 \<Rightarrow> u16 \<Rightarrow> u8 list" where
  "udp_header sport dport tlen =
     le16 (htons sport) @ le16 (htons dport) @ le16 (htons tlen) @ le16 0"

definition tcp_header :: "u16 \<Rightarrow> u16 \<Rightarrow> u32 \<Rightarrow> u32 \<Rightarrow> u8 \<Rightarrow> u8 list" where
  "tcp_header sport dport sq ak flags =
     le16 (htons sport) @ le16 (htons dport) @ le32 (htonl sq) @ le32 (htonl ak) @
     [0x50, flags] @ le16 (htons 8192) @ le16 0 @ le16 0"

lemma length_headers [simp]:
  "length (ip_header t i p s d) = 20" "length (udp_header sp dp t) = 8"
  "length (tcp_header sp dp sq ak f) = 20"
  "length dst = 6 \<Longrightarrow> length src = 6 \<Longrightarrow> length (eth_header dst src ty) = 14"
  "length sm = 6 \<Longrightarrow> length tm = 6 \<Longrightarrow> length (arp_header op sm si tm ti) = 28"
  "length (icmp_echo ity code rest) = 4 + length rest"
  by (simp_all add: ip_header_def udp_header_def tcp_header_def eth_header_def arp_header_def
      icmp_echo_def Let_def)

text \<open>Every IP header and every ICMP message the stack builds passes the receiver's checksum test.\<close>

theorem built_checksums_verify:
  "checksum (ip_header tlen ident proto src dst) = 0 \<and>
   (length rest < 2000 \<longrightarrow> checksum (icmp_echo ty code rest) = 0)"
  using checksum_verifies [of "[0x45, 0] @ le16 (htons tlen) @ le16 ident @ le16 0 @ [64, proto]"
      "le32 src @ le32 dst"] checksum_verifies [of "[ty, code]" rest]
  by (simp add: ip_header_def icmp_echo_def Let_def)

theorem built_checksums_verify_witness:
  "checksum (icmp_echo 8 0 (le16 7 @ le16 1)) = 0"
  using built_checksums_verify [of 0 0 0 0 0 "le16 7 @ le16 1" 8 0] by simp

end
