(* ===== verification/Tcpip.thy ===== *)
theory Tcpip
  imports NetCodec Interfaces
begin

text \<open>
  The state and the operations of \<^verbatim>\<open>src/kernel/net/tcpip.c\<close>: configuration, ARP cache,
  sockets, the packet handlers, timeouts and the socket API. Sent frames are logged in
  \<open>sent\<close>; the network driver's send function is the field \<open>net_send\<close>, which sees the frames
  sent before; clock readings are arguments. An operation is \<open>None\<close> when the code reads
  outside the receive buffer or writes outside the transmit buffer, both of
  \<open>ETH_FRAME_MAX\<close> bytes.
\<close>

section \<open>State\<close>

abbreviation ETH_FRAME_MAX :: nat where "ETH_FRAME_MAX \<equiv> 1514"
abbreviation ARP_CACHE_SIZE :: nat where "ARP_CACHE_SIZE \<equiv> 16"
abbreviation MAX_SOCKETS :: nat where "MAX_SOCKETS \<equiv> 16"
abbreviation SOCKET_BUFFER_SIZE :: nat where "SOCKET_BUFFER_SIZE \<equiv> 4096"
abbreviation SOCK_STREAM :: int where "SOCK_STREAM \<equiv> 1"
abbreviation SOCK_DGRAM :: int where "SOCK_DGRAM \<equiv> 2"

abbreviation "TCP_FIN \<equiv> 0x01 :: u8"
abbreviation "TCP_SYN \<equiv> 0x02 :: u8"
abbreviation "TCP_RST \<equiv> 0x04 :: u8"
abbreviation "TCP_PSH \<equiv> 0x08 :: u8"
abbreviation "TCP_ACK \<equiv> 0x10 :: u8"

abbreviation "NET_OK \<equiv> 0 :: int"
abbreviation "NET_ERR_INIT \<equiv> - 1 :: int"
abbreviation "NET_ERR_UNREACHABLE \<equiv> - 5 :: int"
abbreviation "NET_ERR_NOSOCKET \<equiv> - 6 :: int"
abbreviation "NET_ERR_INVALID \<equiv> - 7 :: int"

datatype tcp_state = TCP_CLOSED | TCP_LISTEN | TCP_SYN_SENT | TCP_SYN_RECEIVED | TCP_ESTABLISHED |
  TCP_FIN_WAIT_1 | TCP_FIN_WAIT_2 | TCP_CLOSE_WAIT | TCP_CLOSING | TCP_LAST_ACK | TCP_TIME_WAIT

record arp_entry =
  a_ip :: u32
  a_mac :: "u8 list"
  a_timestamp :: u32
  a_valid :: bool

record sock =
  s_fd :: nat
  s_type :: int
  s_protocol :: int
  s_state :: tcp_state
  s_local_ip :: u32
  s_local_port :: u16
  s_remote_ip :: u32
  s_remote_port :: u16
  s_seq :: u32
  s_ack :: u32
  s_last_activity :: u64
  s_timeout :: u32
  s_rx_buffer :: "u8 list"
  s_rx_len :: nat
  s_active :: bool

record net_config =
  ip_addr :: u32
  netmask :: u32
  gateway :: u32
  dns_server :: u32
  mac_addr :: "u8 list"
  dhcp_enabled :: bool

record net_stats =
  rx_packets :: u64
  tx_packets :: u64
  rx_bytes :: u64
  tx_bytes :: u64
  rx_errors :: u64
  tx_errors :: u64
  arp_requests :: u64
  arp_replies :: u64
  icmp_echo_req :: u64
  icmp_echo_reply :: u64
  tcp_connections :: u64
  udp_datagrams :: u64
  tcp_sockets_created :: u64
  tcp_sockets_closed :: u64
  tcp_sockets_leaked :: u64

record net =
  tcpip_initialized :: bool
  cfg :: net_config
  nstats :: net_stats
  arp_cache :: "arp_entry list"
  sockets :: "sock list"
  next_ephemeral_port :: u16
  rng_state :: u32
  rx_buf :: "u8 list"
  net_send :: "u8 list list \<Rightarrow> u8 list \<Rightarrow> int"
  sent :: "u8 list list"

text \<open>The clock readings an operation may make.\<close>

record clock =
  c_ticks :: u64
  c_us :: u64
  c_ms :: u64

definition zero_sock :: sock where
  "zero_sock = \<lparr>s_fd = 0, s_type = 0, s_protocol = 0, s_state = TCP_CLOSED, s_local_ip = 0,
     s_local_port = 0, s_remote_ip = 0, s_remote_port = 0, s_seq = 0, s_ack = 0,
     s_last_activity = 0, s_timeout = 0, s_rx_buffer = replicate SOCKET_BUFFER_SIZE 0,
     s_rx_len = 0, s_active = False\<rparr>"

definition zero_arp :: arp_entry where
  "zero_arp = \<lparr>a_ip = 0, a_mac = replicate 6 0, a_timestamp = 0, a_valid = False\<rparr>"

definition zero_stats :: net_stats where
  "zero_stats = \<lparr>rx_packets = 0, tx_packets = 0, rx_bytes = 0, tx_bytes = 0, rx_errors = 0,
     tx_errors = 0, arp_requests = 0,
     arp_replies = 0, icmp_echo_req = 0, icmp_echo_reply = 0, tcp_connections = 0,
     udp_datagrams = 0, tcp_sockets_created = 0, tcp_sockets_closed = 0, tcp_sockets_leaked = 0\<rparr>"

definition upd_sock :: "nat \<Rightarrow> (sock \<Rightarrow> sock) \<Rightarrow> net \<Rightarrow> net" where
  "upd_sock i f n = n\<lparr>sockets := (sockets n)[i := f (sockets n ! i)]\<rparr>"

definition upd_stats :: "(net_stats \<Rightarrow> net_stats) \<Rightarrow> net \<Rightarrow> net" where
  "upd_stats f n = n\<lparr>nstats := f (nstats n)\<rparr>"

section \<open>Random numbers and ARP\<close>

definition random_u32 :: "clock \<Rightarrow> net \<Rightarrow> u32 \<times> net" where
  "random_u32 c n =
     (let r = rng_state n XOR ucast (c_ticks c AND 0xFFFFFFFF);
          r = r XOR ucast (drop_bit 32 (c_ticks c));
          r = r XOR ucast (c_us c AND 0xFFFFFFFF);
          r = r * 1664525 + 1013904223
      in (r, n\<lparr>rng_state := r\<rparr>))"

definition tcp_generate_isn :: "clock \<Rightarrow> net \<Rightarrow> u32 \<times> net" where
  "tcp_generate_isn c n = random_u32 c n"

definition arp_lookup :: "u32 \<Rightarrow> net \<Rightarrow> arp_entry option" where
  "arp_lookup ip n = find (\<lambda>e. a_valid e \<and> a_ip e = ip) (arp_cache n)"

definition arp_slot :: "u32 \<Rightarrow> net \<Rightarrow> nat" where
  "arp_slot ip n =
     (case find (\<lambda>i. \<not> a_valid (arp_cache n ! i) \<or> a_ip (arp_cache n ! i) = ip) [0..<ARP_CACHE_SIZE] of
        None \<Rightarrow> 0 | Some i \<Rightarrow> i)"

definition arp_add :: "u32 \<Rightarrow> u8 list \<Rightarrow> net \<Rightarrow> net" where
  "arp_add ip mac n =
     n\<lparr>arp_cache := (arp_cache n)[arp_slot ip n :=
         \<lparr>a_ip = ip, a_mac = mac, a_timestamp = 0, a_valid = True\<rparr>]\<rparr>"

text \<open>Handing a frame built in the transmit buffer to the driver.\<close>

definition transmit :: "u8 list \<Rightarrow> net \<Rightarrow> (int \<times> net) option" where
  "transmit f n =
     (if ETH_FRAME_MAX < length f then None
      else Some (net_send n (sent n) f, n\<lparr>sent := sent n @ [f]\<rparr>))"

definition arp_request :: "u32 \<Rightarrow> net \<Rightarrow> (int \<times> net) option" where
  "arp_request target_ip n =
     transmit (eth_header (replicate 6 0xFF) (mac_addr (cfg n)) 0x0806 @
               arp_header 1 (mac_addr (cfg n)) (htonl (ip_addr (cfg n))) (replicate 6 0) (htonl target_ip))
       (upd_stats (\<lambda>x. x\<lparr>arp_requests := arp_requests x + 1\<rparr>) n)"

section \<open>Sending\<close>

definition next_hop :: "u32 \<Rightarrow> net \<Rightarrow> u32" where
  "next_hop dst n =
     (if (dst AND netmask (cfg n)) \<noteq> (ip_addr (cfg n) AND netmask (cfg n)) then gateway (cfg n) else dst)"

definition udp_frame :: "u8 list \<Rightarrow> net_config \<Rightarrow> u32 \<Rightarrow> u16 \<Rightarrow> u16 \<Rightarrow> u8 list \<Rightarrow> u8 list" where
  "udp_frame mac c dst_ip dst_port src_port d =
     eth_header mac (mac_addr c) 0x0800 @
     ip_header (of_nat (28 + length d)) 0 17 (htonl (ip_addr c)) (htonl dst_ip) @
     udp_header src_port dst_port (of_nat (8 + length d)) @ d"

definition tcp_frame ::
    "u8 list \<Rightarrow> net_config \<Rightarrow> u32 \<Rightarrow> u16 \<Rightarrow> u16 \<Rightarrow> u32 \<Rightarrow> u32 \<Rightarrow> u8 \<Rightarrow> u8 list \<Rightarrow> u8 list" where
  "tcp_frame mac c dst_ip dst_port src_port sq ak flags d =
     eth_header mac (mac_addr c) 0x0800 @
     ip_header (of_nat (40 + length d)) 0 6 (htonl (ip_addr c)) (htonl dst_ip) @
     tcp_header src_port dst_port sq ak flags @ d"

definition count_tx :: "nat \<Rightarrow> net \<Rightarrow> net" where
  "count_tx l = upd_stats (\<lambda>x. x\<lparr>tx_packets := tx_packets x + 1, tx_bytes := tx_bytes x + of_nat l\<rparr>)"

definition tcpip_send_udp :: "u32 \<Rightarrow> u16 \<Rightarrow> u16 \<Rightarrow> u8 list \<Rightarrow> net \<Rightarrow> (int \<times> net) option" where
  "tcpip_send_udp dst_ip dst_port src_port d n =
     (if \<not> tcpip_initialized n then Some (NET_ERR_INIT, n)
      else case arp_lookup (next_hop dst_ip n) n of
        None \<Rightarrow> map_option (\<lambda>(_, n1). (NET_ERR_UNREACHABLE, n1)) (arp_request (next_hop dst_ip n) n)
      | Some e \<Rightarrow>
          let f = udp_frame (a_mac e) (cfg n) dst_ip dst_port src_port d
          in transmit f (count_tx (length f) n))"

definition tcpip_ping :: "u32 \<Rightarrow> u16 \<Rightarrow> u16 \<Rightarrow> net \<Rightarrow> (int \<times> net) option" where
  "tcpip_ping dst_ip ident sq n =
     (if \<not> tcpip_initialized n then Some (NET_ERR_INIT, n)
      else case arp_lookup (next_hop dst_ip n) n of
        None \<Rightarrow> map_option (\<lambda>(_, n1). (NET_ERR_UNREACHABLE, n1)) (arp_request (next_hop dst_ip n) n)
      | Some e \<Rightarrow>
          transmit (eth_header (a_mac e) (mac_addr (cfg n)) 0x0800 @
            ip_header 28 0 1 (htonl (ip_addr (cfg n))) (htonl dst_ip) @
            icmp_echo 8 0 (le16 (htons ident) @ le16 (htons sq))) n)"

definition tcp_send_packet ::
    "u32 \<Rightarrow> u16 \<Rightarrow> u16 \<Rightarrow> u32 \<Rightarrow> u32 \<Rightarrow> u8 \<Rightarrow> u8 list \<Rightarrow> net \<Rightarrow> (int \<times> net) option" where
  "tcp_send_packet dst_ip dst_port src_port sq ak flags d n =
     (if \<not> tcpip_initialized n then Some (NET_ERR_INIT, n)
      else case arp_lookup (next_hop dst_ip n) n of
        None \<Rightarrow> map_option (\<lambda>(_, n1). (NET_ERR_UNREACHABLE, n1)) (arp_request (next_hop dst_ip n) n)
      | Some e \<Rightarrow>
          let f = tcp_frame (a_mac e) (cfg n) dst_ip dst_port src_port sq ak flags d
          in transmit f (count_tx (length f) n))"

text \<open>A segment without data, sent from a socket; the caller ignores the result.\<close>

definition tcp_reply :: "nat \<Rightarrow> u8 \<Rightarrow> net \<Rightarrow> net option" where
  "tcp_reply i flags n =
     (let s = sockets n ! i in
      map_option snd (tcp_send_packet (s_remote_ip s) (s_remote_port s) (s_local_port s)
                        (s_seq s) (s_ack s) flags [] n))"

section \<open>Sockets\<close>

definition leak_update :: "net_stats \<Rightarrow> net_stats" where
  "leak_update x = x\<lparr>tcp_sockets_leaked := tcp_sockets_created x - tcp_sockets_closed x\<rparr>"

definition socket_create :: "int \<Rightarrow> int \<Rightarrow> net \<Rightarrow> int \<times> net" where
  "socket_create ty proto n =
     (case find (\<lambda>i. \<not> s_active (sockets n ! i)) [0..<MAX_SOCKETS] of
        None \<Rightarrow> (NET_ERR_NOSOCKET, n)
      | Some i \<Rightarrow>
          let n1 = upd_sock i (\<lambda>_. zero_sock\<lparr>s_fd := i, s_type := ty,
                     s_protocol := (if ty = SOCK_STREAM then 6 else 17),
                     s_state := TCP_CLOSED, s_active := True\<rparr>) n
          in (int i,
              if ty = SOCK_STREAM
              then upd_stats (\<lambda>x. leak_update (x\<lparr>tcp_sockets_created := tcp_sockets_created x + 1\<rparr>)) n1
              else n1))"

definition bad_fd :: "int \<Rightarrow> net \<Rightarrow> bool" where
  "bad_fd fd n \<longleftrightarrow> fd < 0 \<or> int MAX_SOCKETS \<le> fd \<or> \<not> s_active (sockets n ! nat fd)"

definition socket_bind :: "int \<Rightarrow> u32 \<Rightarrow> u16 \<Rightarrow> net \<Rightarrow> int \<times> net" where
  "socket_bind fd ip port n =
     (if bad_fd fd n then (NET_ERR_INVALID, n)
      else (NET_OK, upd_sock (nat fd) (\<lambda>s. s\<lparr>s_local_ip := ip, s_local_port := port\<rparr>) n))"

definition socket_listen :: "int \<Rightarrow> int \<Rightarrow> net \<Rightarrow> int \<times> net" where
  "socket_listen fd backlog n =
     (if bad_fd fd n then (NET_ERR_INVALID, n)
      else (NET_OK, upd_sock (nat fd) (\<lambda>s. s\<lparr>s_state := TCP_LISTEN\<rparr>) n))"

definition bind_ephemeral :: "nat \<Rightarrow> net \<Rightarrow> net" where
  "bind_ephemeral i n =
     (if s_local_port (sockets n ! i) = 0
      then
        let p = next_ephemeral_port n + 1
        in (upd_sock i (\<lambda>s. s\<lparr>s_local_port := next_ephemeral_port n\<rparr>) n)
             \<lparr>next_ephemeral_port := (if p = 0 \<or> p < 49152 then 49152 else p)\<rparr>
      else n)"

definition socket_connect :: "clock \<Rightarrow> int \<Rightarrow> u32 \<Rightarrow> u16 \<Rightarrow> net \<Rightarrow> (int \<times> net) option" where
  "socket_connect c fd ip port n =
     (if bad_fd fd n then Some (NET_ERR_INVALID, n)
      else
        let i = nat fd;
            n1 = upd_sock i (\<lambda>s. s\<lparr>s_remote_ip := ip, s_remote_port := port\<rparr>) (bind_ephemeral i n)
        in if s_type (sockets n1 ! i) = SOCK_DGRAM then Some (NET_OK, n1)
           else
             let (isn, n2) = tcp_generate_isn c n1;
                 n3 = upd_sock i (\<lambda>s. s\<lparr>s_seq := isn, s_state := TCP_SYN_SENT\<rparr>) n2;
                 s = sockets n3 ! i
             in map_option (\<lambda>(_, n4). (NET_OK, n4))
                  (tcp_send_packet (s_remote_ip s) (s_remote_port s) (s_local_port s) (s_seq s) 0
                     TCP_SYN [] n3))"

text \<open>The peer's address is returned with the result.\<close>

definition socket_accept :: "int \<Rightarrow> net \<Rightarrow> int \<times> (u32 \<times> u16) option \<times> net" where
  "socket_accept fd n =
     (if bad_fd fd n \<or> s_state (sockets n ! nat fd) \<noteq> TCP_SYN_RECEIVED
      then (NET_ERR_INVALID, None, n)
      else (fd, Some (s_remote_ip (sockets n ! nat fd), s_remote_port (sockets n ! nat fd)),
            upd_sock (nat fd) (\<lambda>s. s\<lparr>s_state := TCP_ESTABLISHED\<rparr>) n))"

definition socket_send :: "clock \<Rightarrow> int \<Rightarrow> u8 list \<Rightarrow> net \<Rightarrow> (int \<times> net) option" where
  "socket_send c fd d n =
     (if bad_fd fd n then Some (NET_ERR_INVALID, n)
      else
        let s = sockets n ! nat fd
        in if s_type s = SOCK_DGRAM
           then tcpip_send_udp (s_remote_ip s) (s_remote_port s) (s_local_port s) d n
           else if s_state s \<noteq> TCP_ESTABLISHED then Some (NET_ERR_INVALID, n)
           else do {
             (r, n1) \<leftarrow> tcp_send_packet (s_remote_ip s) (s_remote_port s) (s_local_port s)
                          (s_seq s) (s_ack s) (TCP_PSH OR TCP_ACK) d n;
             Some (r, if 0 \<le> r
                      then upd_sock (nat fd) (\<lambda>s. s\<lparr>s_seq := s_seq s + of_nat (length d),
                             s_last_activity := c_ms c\<rparr>) n1
                      else n1)
           })"

text \<open>The receive buffer of a socket: appending a block, and taking one from the front.\<close>

definition rx_append :: "u8 list \<Rightarrow> sock \<Rightarrow> sock" where
  "rx_append d s = s\<lparr>s_rx_buffer := take (s_rx_len s) (s_rx_buffer s) @ d @
                       drop (s_rx_len s + length d) (s_rx_buffer s),
                     s_rx_len := s_rx_len s + length d\<rparr>"

definition rx_take :: "nat \<Rightarrow> sock \<Rightarrow> u8 list \<times> sock" where
  "rx_take len s =
     (let to_copy = (if len < s_rx_len s then len else s_rx_len s);
          rest = s_rx_len s - to_copy
      in (take to_copy (s_rx_buffer s),
          s\<lparr>s_rx_len := rest,
            s_rx_buffer := (if 0 < rest
              then take rest (drop to_copy (s_rx_buffer s)) @ drop rest (s_rx_buffer s)
              else s_rx_buffer s)\<rparr>))"

definition socket_recv :: "clock \<Rightarrow> int \<Rightarrow> nat \<Rightarrow> net \<Rightarrow> int \<times> u8 list \<times> net" where
  "socket_recv c fd len n =
     (if bad_fd fd n then (NET_ERR_INVALID, [], n)
      else if s_rx_len (sockets n ! nat fd) = 0 then (0, [], n)
      else
        let (d, s) = rx_take len (sockets n ! nat fd)
        in (int (length d), d, upd_sock (nat fd) (\<lambda>_. s\<lparr>s_last_activity := c_ms c\<rparr>) n))"

definition socket_cleanup :: "nat \<Rightarrow> net \<Rightarrow> net" where
  "socket_cleanup i n =
     (let was_tcp = (s_type (sockets n ! i) = SOCK_STREAM);
          n1 = upd_sock i (\<lambda>_. zero_sock) n
      in if was_tcp
         then upd_stats (\<lambda>x. leak_update (x\<lparr>tcp_sockets_closed := tcp_sockets_closed x + 1\<rparr>)) n1
         else n1)"

definition send_fin :: "nat \<Rightarrow> tcp_state \<Rightarrow> net \<Rightarrow> net option" where
  "send_fin i st' n =
     map_option (upd_sock i (\<lambda>s. s\<lparr>s_seq := s_seq s + 1, s_state := st'\<rparr>))
       (tcp_reply i (TCP_FIN OR TCP_ACK) n)"

definition socket_close :: "int \<Rightarrow> net \<Rightarrow> (int \<times> net) option" where
  "socket_close fd n =
     (if fd < 0 \<or> int MAX_SOCKETS \<le> fd then Some (NET_ERR_INVALID, n)
      else
        let i = nat fd; s = sockets n ! i
        in if s_type s = SOCK_STREAM \<and> s_active s \<and> s_state s = TCP_ESTABLISHED
           then map_option (Pair NET_OK) (send_fin i TCP_FIN_WAIT_1 n)
           else if s_type s = SOCK_STREAM \<and> s_active s \<and> s_state s = TCP_CLOSE_WAIT
           then map_option (Pair NET_OK) (send_fin i TCP_LAST_ACK n)
           else Some (NET_OK, socket_cleanup i n))"

section \<open>Timeouts\<close>

definition check_timeout :: "u64 \<Rightarrow> nat \<Rightarrow> net \<Rightarrow> net option" where
  "check_timeout now i n =
     (let s = sockets n ! i in
      if \<not> s_active s \<or> s_timeout s = 0 then Some n
      else if ucast (s_timeout s) < now - s_last_activity s
      then map_option snd (socket_close (int i) n)
      else Some n)"

fun check_timeouts_from :: "u64 \<Rightarrow> nat list \<Rightarrow> net \<Rightarrow> net option" where
  "check_timeouts_from now [] n = Some n"
| "check_timeouts_from now (i # is) n = check_timeout now i n \<bind> check_timeouts_from now is"

definition tcpip_check_timeouts :: "clock \<Rightarrow> net \<Rightarrow> net option" where
  "tcpip_check_timeouts c n = check_timeouts_from (c_ms c) [0..<MAX_SOCKETS] n"

section \<open>Packet handlers\<close>

text \<open>
  The packet lies at the start of the receive buffer \<open>rx_buf\<close>; handlers get the offset of
  their header and a length computed from header fields, as in the code. \<open>rx_slice\<close> is a
  \<open>memcpy\<close> from the buffer.
\<close>

definition rx_slice :: "nat \<Rightarrow> nat \<Rightarrow> net \<Rightarrow> u8 list option" where
  "rx_slice off len n =
     (if off + len \<le> length (rx_buf n) then Some (take len (drop off (rx_buf n))) else None)"

definition handle_arp :: "nat \<Rightarrow> net \<Rightarrow> net option" where
  "handle_arp len n =
     (if len < 42 then Some n
      else
        let p = rx_buf n;
            opcode = ntohs (get16 p 20);
            sender_mac = take 6 (drop 22 p);
            sender_ip = ntohl (get32 p 28);
            target_ip = ntohl (get32 p 38);
            n1 = arp_add sender_ip sender_mac n
        in if opcode = 1 \<and> target_ip = ip_addr (cfg n1)
           then map_option (\<lambda>(_, n2). upd_stats (\<lambda>x. x\<lparr>arp_replies := arp_replies x + 1\<rparr>) n2)
                  (transmit (eth_header (take 6 (drop 6 p)) (mac_addr (cfg n1)) 0x0806 @
                     arp_header 2 (mac_addr (cfg n1)) (htonl (ip_addr (cfg n1))) sender_mac (get32 p 28)) n1)
           else Some n1)"

text \<open>\<open>off\<close> is the offset of the ICMP, UDP or TCP header; the IP header starts at 14.\<close>

definition handle_icmp :: "nat \<Rightarrow> nat \<Rightarrow> net \<Rightarrow> net option" where
  "handle_icmp off len n =
     (if len < 8 then Some n
      else if rx_buf n ! off \<noteq> 8 then Some n
      else
        let n1 = upd_stats (\<lambda>x. x\<lparr>icmp_echo_req := icmp_echo_req x + 1\<rparr>) n;
            src_ip = ntohl (get32 (rx_buf n) 26)
        in (case arp_lookup src_ip n1 of
              None \<Rightarrow> map_option snd (arp_request src_ip n1)
            | Some e \<Rightarrow> do {
                msg \<leftarrow> rx_slice off len n1;
                (_, n2) \<leftarrow> transmit (eth_header (a_mac e) (mac_addr (cfg n1)) 0x0800 @
                    ip_header (of_nat (20 + len)) (get16 (rx_buf n) 18) 1
                      (htonl (ip_addr (cfg n1))) (get32 (rx_buf n) 26) @
                    icmp_echo 0 (msg ! 1) (drop 4 msg)) n1;
                Some (upd_stats (\<lambda>x. x\<lparr>icmp_echo_reply := icmp_echo_reply x + 1\<rparr>) n2)
              }))"

definition find_sock :: "int \<Rightarrow> u16 \<Rightarrow> net \<Rightarrow> nat option" where
  "find_sock ty port n =
     find (\<lambda>i. s_active (sockets n ! i) \<and> s_type (sockets n ! i) = ty \<and>
               s_local_port (sockets n ! i) = port) [0..<MAX_SOCKETS]"

definition handle_udp :: "nat \<Rightarrow> nat \<Rightarrow> net \<Rightarrow> net option" where
  "handle_udp off len n =
     (if len < 8 then Some n
      else
        let p = rx_buf n;
            dst_port = ntohs (get16 p (off + 2));
            data_len = unat (ntohs (get16 p (off + 4)) - 8);
            n1 = upd_stats (\<lambda>x. x\<lparr>udp_datagrams := udp_datagrams x + 1\<rparr>) n
        in (case find_sock SOCK_DGRAM dst_port n1 of
              None \<Rightarrow> Some n1
            | Some i \<Rightarrow>
                if s_rx_len (sockets n1 ! i) + data_len \<le> SOCKET_BUFFER_SIZE
                then do {
                  d \<leftarrow> rx_slice (off + 8) data_len n1;
                  Some (upd_sock i (\<lambda>s. (rx_append d s)
                          \<lparr>s_remote_ip := ntohl (get32 p 26), s_remote_port := ntohs (get16 p off)\<rparr>) n1)
                }
                else Some n1))"

definition has :: "u8 \<Rightarrow> u8 \<Rightarrow> bool" where
  "has flags m \<longleftrightarrow> flags AND m \<noteq> 0"

definition reset_sock :: "nat \<Rightarrow> net \<Rightarrow> net option" where
  "reset_sock i n = map_option snd (socket_close (int i) (upd_sock i (\<lambda>s. s\<lparr>s_state := TCP_CLOSED\<rparr>) n))"

text \<open>The switch over the state of the socket the segment is for.\<close>

definition tcp_segment :: "clock \<Rightarrow> nat \<Rightarrow> nat \<Rightarrow> nat \<Rightarrow> net \<Rightarrow> net option" where
  "tcp_segment c i off len n =
     (let p = rx_buf n;
          flags = p ! (off + 13);
          sq = ntohl (get32 p (off + 4));
          s = sockets n ! i
      in case s_state s of
        TCP_LISTEN \<Rightarrow>
          if has flags TCP_SYN
          then
            let n1 = upd_sock i (\<lambda>s. s\<lparr>s_remote_ip := ntohl (get32 p 26),
                       s_remote_port := ntohs (get16 p off), s_ack := sq + 1\<rparr>) n;
                (isn, n2) = tcp_generate_isn c n1
            in tcp_reply i (TCP_SYN OR TCP_ACK)
                 (upd_sock i (\<lambda>s. s\<lparr>s_seq := isn, s_state := TCP_SYN_RECEIVED\<rparr>) n2)
          else Some n
      | TCP_SYN_SENT \<Rightarrow>
          if has flags TCP_RST then reset_sock i n
          else if flags AND (TCP_SYN OR TCP_ACK) = TCP_SYN OR TCP_ACK
          then tcp_reply i TCP_ACK
                 (upd_sock i (\<lambda>s. s\<lparr>s_ack := sq + 1, s_state := TCP_ESTABLISHED\<rparr>) n)
          else Some n
      | TCP_SYN_RECEIVED \<Rightarrow>
          if has flags TCP_RST
          then Some (upd_sock i (\<lambda>s. s\<lparr>s_state := TCP_LISTEN, s_remote_ip := 0, s_remote_port := 0\<rparr>) n)
          else Some n
      | TCP_ESTABLISHED \<Rightarrow>
          if has flags TCP_RST then reset_sock i n
          else if has flags TCP_FIN
          then tcp_reply i TCP_ACK (upd_sock i (\<lambda>s. s\<lparr>s_state := TCP_CLOSE_WAIT\<rparr>) n)
          else if has flags TCP_ACK
          then
            let header_len = unat (drop_bit 4 (p ! (off + 12))) * 4;
                data_len = sub64 len header_len
            in if 0 < data_len \<and> add64 (s_rx_len s) data_len \<le> SOCKET_BUFFER_SIZE
               then do {
                 d \<leftarrow> rx_slice (off + header_len) data_len n;
                 Some (upd_sock i (\<lambda>s. (rx_append d s)\<lparr>s_ack := sq + of_nat data_len\<rparr>) n)
               }
               else Some n
          else Some n
      | TCP_FIN_WAIT_1 \<Rightarrow>
          if has flags TCP_RST then reset_sock i n
          else if flags AND (TCP_FIN OR TCP_ACK) = TCP_FIN OR TCP_ACK
          then tcp_reply i TCP_ACK
                 (upd_sock i (\<lambda>s. s\<lparr>s_ack := sq + 1, s_state := TCP_TIME_WAIT\<rparr>) n)
          else if has flags TCP_ACK
          then Some (upd_sock i (\<lambda>s. s\<lparr>s_state := TCP_FIN_WAIT_2\<rparr>) n)
          else Some n
      | TCP_FIN_WAIT_2 \<Rightarrow>
          if has flags TCP_RST then reset_sock i n
          else if has flags TCP_FIN
          then tcp_reply i TCP_ACK
                 (upd_sock i (\<lambda>s. s\<lparr>s_ack := sq + 1, s_state := TCP_TIME_WAIT\<rparr>) n)
          else Some n
      | TCP_CLOSE_WAIT \<Rightarrow> if has flags TCP_RST then reset_sock i n else Some n
      | TCP_CLOSING \<Rightarrow> if has flags TCP_RST then reset_sock i n else Some n
      | TCP_LAST_ACK \<Rightarrow>
          if has flags TCP_RST then reset_sock i n
          else if has flags TCP_ACK then reset_sock i n
          else Some n
      | TCP_TIME_WAIT \<Rightarrow>
          if has flags TCP_RST then reset_sock i n
          else
            let n1 = (if s_timeout s = 0 then upd_sock i (\<lambda>s. s\<lparr>s_timeout := 60000\<rparr>) n else n)
            in if has flags TCP_FIN then tcp_reply i TCP_ACK n1 else Some n1
      | TCP_CLOSED \<Rightarrow> Some n)"

definition handle_tcp :: "clock \<Rightarrow> nat \<Rightarrow> nat \<Rightarrow> net \<Rightarrow> net option" where
  "handle_tcp c off len n =
     (if len < 20 then Some n
      else
        let dst_port = ntohs (get16 (rx_buf n) (off + 2));
            n1 = upd_stats (\<lambda>x. x\<lparr>tcp_connections := tcp_connections x + 1\<rparr>) n
        in (case find_sock SOCK_STREAM dst_port n1 of
              None \<Rightarrow> Some n1
            | Some i \<Rightarrow>
                tcp_segment c i off len (upd_sock i (\<lambda>s. s\<lparr>s_last_activity := c_ms c\<rparr>) n1)))"

definition handle_ip :: "clock \<Rightarrow> nat \<Rightarrow> net \<Rightarrow> net option" where
  "handle_ip c len n =
     (if len < 34 then Some n
      else
        let p = rx_buf n; dst_ip = ntohl (get32 p 30)
        in if drop_bit 4 (p ! 14) \<noteq> 4 then Some n
           else if dst_ip \<noteq> ip_addr (cfg n) \<and> dst_ip \<noteq> 0xFFFFFFFF then Some n
           else
             let ip_hdr_len = unat (p ! 14 AND 0x0F) * 4;
                 off = 14 + ip_hdr_len;
                 payload_len = sub64 (unat (ntohs (get16 p 16))) ip_hdr_len
             in if p ! 23 = 1 then handle_icmp off payload_len n
                else if p ! 23 = 17 then handle_udp off payload_len n
                else if p ! 23 = 6 then handle_tcp c off payload_len n
                else Some n)"

text \<open>One frame delivered by the driver: it overwrites the front of the receive buffer.\<close>

definition receive_frame :: "clock \<Rightarrow> u8 list \<Rightarrow> net \<Rightarrow> net option" where
  "receive_frame c f n =
     (let n1 = upd_stats (\<lambda>x. x\<lparr>rx_packets := rx_packets x + 1, rx_bytes := rx_bytes x + of_nat (length f)\<rparr>)
                 (n\<lparr>rx_buf := f @ drop (length f) (rx_buf n)\<rparr>)
      in if length f < 14 then Some n1
         else
           let ty = ntohs (get16 (rx_buf n1) 12)
           in if ty = 0x0806 then handle_arp (length f) n1
              else if ty = 0x0800 then handle_ip c (length f) n1
              else Some n1)"

text \<open>\<open>frames\<close> are the frames \<open>net_recv\<close> delivers until it returns 0.\<close>

fun poll_frames :: "clock \<Rightarrow> u8 list list \<Rightarrow> net \<Rightarrow> (int \<times> net) option" where
  "poll_frames c [] n = Some (0, n)"
| "poll_frames c (f # fs) n = do {
     n1 \<leftarrow> receive_frame c f n;
     (k, n2) \<leftarrow> poll_frames c fs n1;
     Some ((if length f < 14 then 0 else 1) + k, n2)
   }"

definition tcpip_poll :: "clock \<Rightarrow> u8 list list \<Rightarrow> net \<Rightarrow> (int \<times> net) option" where
  "tcpip_poll c frames n =
     (if \<not> tcpip_initialized n then Some (0, n)
      else do {
        (k, n1) \<leftarrow> poll_frames c frames n;
        n2 \<leftarrow> tcpip_check_timeouts c n1;
        Some (k, n2)
      })"

section \<open>Configuration\<close>

text \<open>The driver chosen at initialisation, with its address; \<open>None\<close> when none is ready.\<close>

definition tcpip_init :: "((u8 list list \<Rightarrow> u8 list \<Rightarrow> int) \<times> u8 list) option \<Rightarrow> net \<Rightarrow> int \<times> net" where
  "tcpip_init drv n =
     (if tcpip_initialized n then (NET_OK, n)
      else
        let n1 = n\<lparr>cfg := \<lparr>ip_addr = 0, netmask = 0, gateway = 0, dns_server = 0, mac_addr = replicate 6 0,
       dhcp_enabled = False\<rparr>,
                   nstats := zero_stats, arp_cache := replicate ARP_CACHE_SIZE zero_arp,
                   sockets := replicate MAX_SOCKETS zero_sock\<rparr>
        in (case drv of
              None \<Rightarrow> (NET_ERR_INIT, n1)
            | Some (snd_fn, mac) \<Rightarrow>
                (NET_OK, n1\<lparr>net_send := snd_fn, tcpip_initialized := True,
                   cfg := \<lparr>ip_addr = 0x0A00020F, netmask = 0xFFFFFF00, gateway = 0x0A000202,
                     dns_server = 0, mac_addr = mac, dhcp_enabled = False\<rparr>\<rparr>)))"

definition tcpip_configure :: "net_config option \<Rightarrow> net \<Rightarrow> int \<times> net" where
  "tcpip_configure c n =
     (case c of
        None \<Rightarrow> (NET_ERR_INVALID, n)
      | Some c \<Rightarrow> (NET_OK, n\<lparr>cfg := (cfg n)\<lparr>ip_addr := ip_addr c, netmask := netmask c,
                     gateway := gateway c, dns_server := dns_server c\<rparr>\<rparr>))"

definition tcpip_set_ip :: "string option \<Rightarrow> string option \<Rightarrow> string option \<Rightarrow> net \<Rightarrow> int \<times> net" where
  "tcpip_set_ip ip mask_str gw n =
     (let set = (\<lambda>f v c. case v of None \<Rightarrow> c | Some str \<Rightarrow> f (\<lambda>_. ip_from_string str) c)
      in (NET_OK, n\<lparr>cfg := set gateway_update gw (set netmask_update mask_str (set ip_addr_update ip (cfg n)))\<rparr>))"

definition net_static :: net where
  "net_static = \<lparr>tcpip_initialized = False,
     cfg = \<lparr>ip_addr = 0, netmask = 0, gateway = 0, dns_server = 0, mac_addr = replicate 6 0,
       dhcp_enabled = False\<rparr>,
     nstats = zero_stats, arp_cache = replicate ARP_CACHE_SIZE zero_arp,
     sockets = replicate MAX_SOCKETS zero_sock, next_ephemeral_port = 49152, rng_state = 0,
     rx_buf = replicate ETH_FRAME_MAX 0, net_send = (\<lambda>_ _. 0), sent = []\<rparr>"

section \<open>Reading back the frames the stack builds\<close>

lemma ip_header_fields [codec_simps]:
  "ip_header t i p s d ! 0 = 0x45" "get16 (ip_header t i p s d) 2 = htons t"
  "get16 (ip_header t i p s d) 4 = i" "ip_header t i p s d ! 9 = p"
  "get32 (ip_header t i p s d) 12 = s" "get32 (ip_header t i p s d) 16 = d"
  by (simp_all add: ip_header_def Let_def codec_simps nth_append)

lemma udp_header_fields [codec_simps]:
  "get16 (udp_header sp dp t) 0 = htons sp" "get16 (udp_header sp dp t) 2 = htons dp"
  "get16 (udp_header sp dp t) 4 = htons t"
  by (simp_all add: udp_header_def codec_simps)

lemma tcp_header_fields [codec_simps]:
  "get16 (tcp_header sp dp sq ak f) 0 = htons sp" "get16 (tcp_header sp dp sq ak f) 2 = htons dp"
  "get32 (tcp_header sp dp sq ak f) 4 = htonl sq" "get32 (tcp_header sp dp sq ak f) 8 = htonl ak"
  "tcp_header sp dp sq ak f ! 12 = 0x50" "tcp_header sp dp sq ak f ! 13 = f"
  by (simp_all add: tcp_header_def codec_simps nth_append)

lemma eth_header_type [codec_simps]:
  "length dst = 6 \<Longrightarrow> length src = 6 \<Longrightarrow> get16 (eth_header dst src ty) 12 = htons ty"
  by (simp add: eth_header_def codec_simps)

lemma take_drop_at: "length a = k \<Longrightarrow> take (length b) (drop k (a @ b @ c)) = b"
  by simp

lemma tcp_frame_fields:
  assumes f: "f = tcp_frame mac cf dst dp sp sq ak fl d @ r"
    and m: "length mac = 6" "length (mac_addr cf) = 6"
  shows "get16 f 12 = htons 0x0800" "f ! 14 = 0x45" "get16 f 16 = htons (of_nat (40 + length d))"
    "f ! 23 = 6" "get32 f 26 = htonl (ip_addr cf)" "get32 f 30 = htonl dst"
    "get16 f 34 = htons sp" "get16 f 36 = htons dp" "get32 f 38 = htonl sq" "get32 f 42 = htonl ak"
    "f ! 46 = 0x50" "f ! 47 = fl" "take (length d) (drop 54 f) = d"
  using m by (simp_all add: f tcp_frame_def codec_simps nth_append)

lemma udp_frame_fields:
  assumes f: "f = udp_frame mac cf dst dp sp d @ r"
    and m: "length mac = 6" "length (mac_addr cf) = 6"
  shows "get16 f 12 = htons 0x0800" "f ! 14 = 0x45" "get16 f 16 = htons (of_nat (28 + length d))"
    "f ! 23 = 17" "get32 f 26 = htonl (ip_addr cf)" "get32 f 30 = htonl dst"
    "get16 f 34 = htons sp" "get16 f 36 = htons dp" "get16 f 38 = htons (of_nat (8 + length d))"
    "take (length d) (drop 42 f) = d"
  using m by (simp_all add: f udp_frame_def codec_simps nth_append)

section \<open>The receive buffer is a queue\<close>

definition rx_inv :: "sock \<Rightarrow> bool" where
  "rx_inv s \<longleftrightarrow> length (s_rx_buffer s) = SOCKET_BUFFER_SIZE \<and> s_rx_len s \<le> SOCKET_BUFFER_SIZE"

definition rx_contents :: "sock \<Rightarrow> u8 list" where
  "rx_contents s = take (s_rx_len s) (s_rx_buffer s)"

text \<open>What the TCP handler does with the data of a segment.\<close>

definition rx_push :: "u8 list \<Rightarrow> sock \<Rightarrow> sock option" where
  "rx_push d s = (if 0 < length d \<and> s_rx_len s + length d \<le> SOCKET_BUFFER_SIZE
                  then Some (rx_append d s) else None)"

lemma rx_append_facts:
  assumes "rx_inv s" "s_rx_len s + length d \<le> SOCKET_BUFFER_SIZE"
  shows "rx_inv (rx_append d s)" "rx_contents (rx_append d s) = rx_contents s @ d"
    "s_rx_len (rx_append d s) = s_rx_len s + length d"
  using assms by (simp_all add: rx_inv_def rx_append_def rx_contents_def)

lemma rx_take_facts:
  assumes "rx_inv s"
  shows "fst (rx_take n s) = take n (rx_contents s)"
    "rx_contents (snd (rx_take n s)) = drop n (rx_contents s)" "rx_inv (snd (rx_take n s))"
  using assms by (auto simp: rx_inv_def rx_take_def rx_contents_def Let_def min_def drop_take)

interpretation rxq: stream_queue rx_inv rx_contents SOCKET_BUFFER_SIZE "\<lambda>d. d \<noteq> []" "\<lambda>d. d" rx_push rx_take
proof unfold_locales
  fix s d assume "rx_inv s" "(d :: u8 list) \<noteq> []"
  then show "length (rx_contents s) + length d \<le> SOCKET_BUFFER_SIZE \<Longrightarrow>
      \<exists>s'. rx_push d s = Some s' \<and> rx_inv s' \<and> rx_contents s' = rx_contents s @ d"
    using rx_append_facts [of s d] by (auto simp: rx_push_def rx_contents_def rx_inv_def)
  show "SOCKET_BUFFER_SIZE < length (rx_contents s) + length d \<Longrightarrow> rx_push d s = None"
    using \<open>rx_inv s\<close> by (auto simp: rx_push_def rx_contents_def rx_inv_def)
qed (auto simp: rx_take_facts, simp add: rx_inv_def rx_contents_def)

section \<open>Receiving a TCP segment\<close>

lemma upd_sock_simps [simp]:
  "cfg (upd_sock i f n) = cfg n" "arp_cache (upd_sock i f n) = arp_cache n"
  "tcpip_initialized (upd_sock i f n) = tcpip_initialized n"
  "net_send (upd_sock i f n) = net_send n" "sent (upd_sock i f n) = sent n"
  "rx_buf (upd_sock i f n) = rx_buf n" "nstats (upd_sock i f n) = nstats n"
  "rng_state (upd_sock i f n) = rng_state n"
  "sockets (upd_sock i f n) = (sockets n)[i := f (sockets n ! i)]"
  by (simp_all add: upd_sock_def)

lemma upd_stats_simps [simp]:
  "cfg (upd_stats g n) = cfg n" "arp_cache (upd_stats g n) = arp_cache n"
  "tcpip_initialized (upd_stats g n) = tcpip_initialized n"
  "net_send (upd_stats g n) = net_send n" "sent (upd_stats g n) = sent n"
  "rx_buf (upd_stats g n) = rx_buf n" "sockets (upd_stats g n) = sockets n"
  "rng_state (upd_stats g n) = rng_state n" "nstats (upd_stats g n) = g (nstats n)"
  by (simp_all add: upd_stats_def)

lemma lookup_hop_cong:
  assumes "cfg n' = cfg n" "arp_cache n' = arp_cache n"
  shows "next_hop ip n' = next_hop ip n" "arp_lookup h n' = arp_lookup h n"
  using assms by (simp_all add: next_hop_def arp_lookup_def)

lemma find_sock_cong: "sockets n' = sockets n \<Longrightarrow> find_sock ty p n' = find_sock ty p n"
  by (simp add: find_sock_def)

definition tcp_arrival :: "clock \<Rightarrow> nat \<Rightarrow> u8 list \<Rightarrow> net \<Rightarrow> net" where
  "tcp_arrival c i f n =
     upd_sock i (\<lambda>s. s\<lparr>s_last_activity := c_ms c\<rparr>)
       (upd_stats (\<lambda>x. x\<lparr>rx_packets := rx_packets x + 1, rx_bytes := rx_bytes x + of_nat (length f),
                         tcp_connections := tcp_connections x + 1\<rparr>)
         (n\<lparr>rx_buf := f @ drop (length f) (rx_buf n)\<rparr>))"

lemma length_tcp_frame [simp]:
  "length mac = 6 \<Longrightarrow> length (mac_addr cf) = 6 \<Longrightarrow>
   length (tcp_frame mac cf dst dp sp sq ak fl d) = 54 + length d"
  by (simp add: tcp_frame_def)

lemma handle_ip_tcp:
  assumes p: "rx_buf n = tcp_frame mac cf (ip_addr (cfg n)) dp sp sq ak fl d @ r"
    and m: "length mac = 6" "length (mac_addr cf) = 6" "length d \<le> 1460"
  shows "handle_ip c (54 + length d) n = handle_tcp c 34 (20 + length d) n"
proof -
  note fields = tcp_frame_fields [OF p m(1,2)]
  have total: "sub64 (unat (of_nat (40 + length d) :: u16)) 20 = 20 + length d"
  proof -
    have "unat (of_nat (40 + length d) :: u16) = 40 + length d"
      using m(3) by (simp only: unat_of_nat) simp
    then show ?thesis by (simp only: sub64_def) simp
  qed
  have hl: "unat ((0x45 :: u8) AND 0x0F) * 4 = 20" "drop_bit 4 (0x45 :: u8) = 4" by simp_all
  show ?thesis
    using total hl by (simp add: handle_ip_def Let_def fields)
qed

lemma receive_tcp_frame:
  assumes f: "f = tcp_frame mac cf (ip_addr (cfg n)) dp sp sq ak fl d"
    and m: "length mac = 6" "length (mac_addr cf) = 6" "length d \<le> 1460"
    and i: "find_sock SOCK_STREAM dp n = Some i"
  shows "receive_frame c f n = tcp_segment c i 34 (20 + length d) (tcp_arrival c i f n)"
proof -
  define n1 where "n1 = upd_stats (\<lambda>x. x\<lparr>rx_packets := rx_packets x + 1, rx_bytes := rx_bytes x + of_nat (length f)\<rparr>)
         (n\<lparr>rx_buf := f @ drop (length f) (rx_buf n)\<rparr>)"
  have len: "length f = 54 + length d" using f m by simp
  have p: "rx_buf n1 = tcp_frame mac cf (ip_addr (cfg n1)) dp sp sq ak fl d @ drop (length f) (rx_buf n)"
    using f by (simp add: n1_def)
  note fields = tcp_frame_fields [OF p m(1,2)]
  have "receive_frame c f n = handle_ip c (54 + length d) n1"
    unfolding receive_frame_def Let_def n1_def [symmetric] using len fields(1) by simp
  also have "\<dots> = handle_tcp c 34 (20 + length d) n1"
    by (rule handle_ip_tcp [OF p m])
  also have "\<dots> = tcp_segment c i 34 (20 + length d) (tcp_arrival c i f n)"
  proof -
    let ?n2 = "upd_stats (\<lambda>x. x\<lparr>tcp_connections := tcp_connections x + 1\<rparr>) n1"
    have port: "ntohs (get16 (rx_buf n1) 36) = dp" using fields by simp
    have "find_sock SOCK_STREAM dp ?n2 = Some i" using i by (simp add: find_sock_def n1_def)
    moreover have "upd_sock i (\<lambda>s. s\<lparr>s_last_activity := c_ms c\<rparr>) ?n2 = tcp_arrival c i f n"
      by (simp add: n1_def tcp_arrival_def upd_stats_def)
    ultimately show ?thesis using port by (simp add: handle_tcp_def Let_def)
  qed
  finally show ?thesis .
qed

end
