(* ===== verification/TcpFlow.thy ===== *)
theory TcpFlow
  imports Tcpip
begin

text \<open>
  Two stacks connected by a wire: what the frames built by one do to the other. Delivery of
  data, the handshake, the orderly close, and what hostile frames can do.
\<close>

section \<open>Sending succeeds\<close>

definition can_reach :: "net \<Rightarrow> u32 \<Rightarrow> u8 list \<Rightarrow> bool" where
  "can_reach n ip mac \<longleftrightarrow> tcpip_initialized n \<and> length (mac_addr (cfg n)) = 6 \<and> length mac = 6 \<and>
     (\<exists>e. arp_lookup (next_hop ip n) n = Some e \<and> a_mac e = mac)"

definition after_send :: "u8 list \<Rightarrow> net \<Rightarrow> net" where
  "after_send f n = (count_tx (length f) n)\<lparr>sent := sent n @ [f]\<rparr>"

lemma after_send_simps [simp]:
  "cfg (after_send f n) = cfg n" "arp_cache (after_send f n) = arp_cache n"
  "tcpip_initialized (after_send f n) = tcpip_initialized n" "net_send (after_send f n) = net_send n"
  "sent (after_send f n) = sent n @ [f]" "rx_buf (after_send f n) = rx_buf n"
  "sockets (after_send f n) = sockets n" "rng_state (after_send f n) = rng_state n"
  by (simp_all add: after_send_def count_tx_def)

lemma can_reach_cong:
  assumes "cfg n' = cfg n" "arp_cache n' = arp_cache n" "tcpip_initialized n' = tcpip_initialized n"
  shows "can_reach n' ip mac = can_reach n ip mac"
  using assms by (simp add: can_reach_def next_hop_def arp_lookup_def)

lemma tcp_send_packet_ok:
  assumes "can_reach n dst mac" "length d \<le> 1460"
    and "f = tcp_frame mac (cfg n) dst dport sport sq ak fl d"
  shows "tcp_send_packet dst dport sport sq ak fl d n = Some (net_send n (sent n) f, after_send f n)"
  using assms by (auto simp: can_reach_def tcp_send_packet_def transmit_def Let_def after_send_def count_tx_def)

lemma tcp_reply_ok:
  assumes "can_reach n (s_remote_ip (sockets n ! i)) mac"
  shows "tcp_reply i fl n = Some (after_send (tcp_frame mac (cfg n) (s_remote_ip (sockets n ! i))
           (s_remote_port (sockets n ! i)) (s_local_port (sockets n ! i)) (s_seq (sockets n ! i))
           (s_ack (sockets n ! i)) fl []) n)"
  using tcp_send_packet_ok [OF assms _ refl, of "[]"] by (simp add: tcp_reply_def Let_def)

lemma tcp_arrival_simps [simp]:
  "cfg (tcp_arrival c i f n) = cfg n" "arp_cache (tcp_arrival c i f n) = arp_cache n"
  "tcpip_initialized (tcp_arrival c i f n) = tcpip_initialized n"
  "net_send (tcp_arrival c i f n) = net_send n" "sent (tcp_arrival c i f n) = sent n"
  "rx_buf (tcp_arrival c i f n) = f @ drop (length f) (rx_buf n)"
  "sockets (tcp_arrival c i f n) = (sockets n)[i := (sockets n ! i)\<lparr>s_last_activity := c_ms c\<rparr>]"
  "rng_state (tcp_arrival c i f n) = rng_state n"
  by (simp_all add: tcp_arrival_def)

lemma find_sock_Some:
  "find_sock ty p n = Some i \<Longrightarrow> i < MAX_SOCKETS \<and> s_active (sockets n ! i) \<and>
     s_type (sockets n ! i) = ty \<and> s_local_port (sockets n ! i) = p"
  by (auto simp: find_sock_def find_Some_iff)

text \<open>Updates that keep a socket's identity do not change the search.\<close>

lemma find_cong_set: "(\<And>x. x \<in> set xs \<Longrightarrow> P x = Q x) \<Longrightarrow> find P xs = find Q xs"
  by (induction xs) auto

lemma find_sock_update:
  assumes "sockets n' = (sockets n)[i := s]" "s_active s = s_active (sockets n ! i)"
    "s_type s = s_type (sockets n ! i)" "s_local_port s = s_local_port (sockets n ! i)"
  shows "find_sock ty p n' = find_sock ty p n"
  unfolding find_sock_def
  by (rule find_cong_set) (cases "i < length (sockets n)"; auto simp: assms nth_list_update list_update_beyond)

section \<open>Data transfer\<close>

definition transfer :: "clock \<Rightarrow> int \<Rightarrow> u8 list \<Rightarrow> net \<times> net \<Rightarrow> (net \<times> net) option" where
  "transfer c fd d ab = do {
     (r, a1) \<leftarrow> socket_send c fd d (fst ab);
     b1 \<leftarrow> receive_frame c (last (sent a1)) (snd ab);
     Some (a1, b1)
   }"

definition sock_link :: "net \<Rightarrow> nat \<Rightarrow> net \<Rightarrow> nat \<Rightarrow> u8 list \<Rightarrow> bool" where
  "sock_link a i b j mac \<longleftrightarrow>
     length (sockets a) = MAX_SOCKETS \<and> length (sockets b) = MAX_SOCKETS \<and> i < MAX_SOCKETS \<and>
     s_active (sockets a ! i) \<and> s_type (sockets a ! i) = SOCK_STREAM \<and>
     s_state (sockets a ! i) = TCP_ESTABLISHED \<and> can_reach a (s_remote_ip (sockets a ! i)) mac \<and>
     (\<forall>log f. 0 \<le> net_send a log f) \<and> s_remote_ip (sockets a ! i) = ip_addr (cfg b) \<and>
     find_sock SOCK_STREAM (s_remote_port (sockets a ! i)) b = Some j \<and>
     s_state (sockets b ! j) = TCP_ESTABLISHED \<and> rx_inv (sockets b ! j) \<and>
     length (rx_buf b) = ETH_FRAME_MAX"

lemma socket_send_ok:
  assumes l: "sock_link a i b j mac" and d: "length d \<le> 1460"
    and f: "f = tcp_frame mac (cfg a) (ip_addr (cfg b)) (s_remote_port (sockets a ! i))
              (s_local_port (sockets a ! i)) (s_seq (sockets a ! i)) (s_ack (sockets a ! i))
              (TCP_PSH OR TCP_ACK) d"
  shows "\<exists>r. socket_send c (int i) d a = Some (r,
           upd_sock i (\<lambda>s. s\<lparr>s_seq := s_seq s + of_nat (length d), s_last_activity := c_ms c\<rparr>) (after_send f a))"
proof -
  note l' = l [unfolded sock_link_def]
  have "tcp_send_packet (ip_addr (cfg b)) (s_remote_port (sockets a ! i)) (s_local_port (sockets a ! i))
      (s_seq (sockets a ! i)) (s_ack (sockets a ! i)) (TCP_PSH OR TCP_ACK) d a
      = Some (net_send a (sent a) f, after_send f a)"
    using l' d f by (intro tcp_send_packet_ok) auto
  moreover have "0 \<le> net_send a (sent a) f" using l' by blast
  ultimately show ?thesis
    using l' by (simp add: socket_send_def bad_fd_def Let_def)
qed

lemma segment_data:
  assumes n: "rx_buf n = tcp_frame mac cf dst dp sp sq ak (TCP_PSH OR TCP_ACK) d @ r"
    and m: "length mac = 6" "length (mac_addr cf) = 6" "0 < length d"
    and s: "s_state (sockets n ! i) = TCP_ESTABLISHED"
      "s_rx_len (sockets n ! i) + length d < SIZE_MOD"
  shows "tcp_segment c i 34 (20 + length d) n =
    (if s_rx_len (sockets n ! i) + length d \<le> SOCKET_BUFFER_SIZE
     then Some (upd_sock i (\<lambda>s. (rx_append d s)\<lparr>s_ack := sq + of_nat (length d)\<rparr>) n)
     else Some n)"
proof -
  note fields = tcp_frame_fields [OF n m(1,2)]
  have hl: "unat (drop_bit 4 (0x50 :: u8)) * 4 = 20" by simp
  have flags: "\<not> has (TCP_PSH OR TCP_ACK) TCP_RST" "\<not> has (TCP_PSH OR TCP_ACK) TCP_FIN"
    "has (TCP_PSH OR TCP_ACK) TCP_ACK"
    by (simp_all add: has_def)
  have "length (rx_buf n) = 54 + length d + length r" using n m by simp
  then have slice: "rx_slice 54 (length d) n = Some d"
    by (simp add: rx_slice_def fields)
  show ?thesis
    using s m(3) hl flags slice
    by (simp add: tcp_segment_def Let_def fields sub64_def add64_exact del: One_nat_def)
qed

lemma receive_data:
  assumes l: "sock_link a i b j mac" and d: "0 < length d" "length d \<le> 1460"
    and f: "f = tcp_frame mac (cfg a) (ip_addr (cfg b)) (s_remote_port (sockets a ! i)) sp sq ak
              (TCP_PSH OR TCP_ACK) d"
  shows "receive_frame c f b =
    (if s_rx_len (sockets b ! j) + length d \<le> SOCKET_BUFFER_SIZE
     then Some (upd_sock j (\<lambda>s. (rx_append d s)\<lparr>s_ack := sq + of_nat (length d)\<rparr>) (tcp_arrival c j f b))
     else Some (tcp_arrival c j f b))"
proof -
  note l' = l [unfolded sock_link_def]
  have m: "length mac = 6" "length (mac_addr (cfg a)) = 6"
    using l' by (simp_all add: can_reach_def)
  have j: "j < length (sockets b)"
    using l' find_sock_Some by fastforce
  have "receive_frame c f b = tcp_segment c j 34 (20 + length d) (tcp_arrival c j f b)"
    using l' f m d by (intro receive_tcp_frame) auto
  also have "\<dots> = (if s_rx_len (sockets (tcp_arrival c j f b) ! j) + length d \<le> SOCKET_BUFFER_SIZE
     then Some (upd_sock j (\<lambda>s. (rx_append d s)\<lparr>s_ack := sq + of_nat (length d)\<rparr>) (tcp_arrival c j f b))
     else Some (tcp_arrival c j f b))"
    using l' m d f j
    by (intro segment_data [where r = "drop (length f) (rx_buf b)"]) (auto simp: rx_inv_def)
  finally show ?thesis using j by simp
qed

lemma sock_link_update:
  assumes l: "sock_link a i b j mac"
    and a: "sockets a' = (sockets a)[i := (sockets a ! i)\<lparr>s_seq := sq, s_last_activity := t\<rparr>]"
      "cfg a' = cfg a" "arp_cache a' = arp_cache a" "tcpip_initialized a' = tcpip_initialized a"
      "net_send a' = net_send a"
    and b: "sockets b' = (sockets b)[j := s]" "cfg b' = cfg b" "length (rx_buf b') = ETH_FRAME_MAX"
      "s_active s = s_active (sockets b ! j)" "s_type s = s_type (sockets b ! j)"
      "s_local_port s = s_local_port (sockets b ! j)" "s_state s = s_state (sockets b ! j)" "rx_inv s"
  shows "sock_link a' i b' j mac"
proof -
  note l' = l [unfolded sock_link_def]
  have "can_reach a' ip mac' = can_reach a ip mac'" for ip mac'
    by (rule can_reach_cong) (use a in simp_all)
  moreover have "find_sock SOCK_STREAM p b' = find_sock SOCK_STREAM p b" for p
    by (rule find_sock_update [OF b(1,4,5,6)])
  moreover have "j < MAX_SOCKETS" using l' find_sock_Some by blast
  ultimately show ?thesis
    using l' a b by (auto simp: sock_link_def)
qed

text \<open>
  What the receive buffer makes of a segment: it is appended when it fits and dropped when not.
\<close>

definition push_bytes :: "u8 list \<Rightarrow> u8 list \<Rightarrow> u8 list" where
  "push_bytes d q = (if length q + length d \<le> SOCKET_BUFFER_SIZE then q @ d else q)"

text \<open>One chunk crosses the wire.\<close>

lemma transfer_step:
  assumes l: "sock_link a i b j mac" and d: "0 < length d" "length d \<le> 1460"
  shows "\<exists>a' b'. transfer c (int i) d (a, b) = Some (a', b') \<and> sock_link a' i b' j mac \<and>
           rx_contents (sockets b' ! j) = push_bytes d (rx_contents (sockets b ! j))"
proof -
  note l' = l [unfolded sock_link_def]
  have j: "j < length (sockets b)" "j < MAX_SOCKETS" using l' find_sock_Some by fastforce+
  have ri: "rx_inv (sockets b ! j)" using l' by simp
  then have rl: "length (rx_contents (sockets b ! j)) = s_rx_len (sockets b ! j)"
    by (simp add: rx_inv_def rx_contents_def)
  let ?sq = "s_seq (sockets a ! i)"
  define f where "f = tcp_frame mac (cfg a) (ip_addr (cfg b)) (s_remote_port (sockets a ! i))
              (s_local_port (sockets a ! i)) ?sq (s_ack (sockets a ! i)) (TCP_PSH OR TCP_ACK) d"
  let ?a = "upd_sock i (\<lambda>s. s\<lparr>s_seq := s_seq s + of_nat (length d), s_last_activity := c_ms c\<rparr>) (after_send f a)"
  obtain r where send: "socket_send c (int i) d a = Some (r, ?a)"
    using socket_send_ok [OF l d(2) f_def] by blast
  have lf: "length f \<le> ETH_FRAME_MAX" using l' d by (simp add: f_def can_reach_def)
  let ?s0 = "(sockets b ! j)\<lparr>s_last_activity := c_ms c\<rparr>"
  have rs: "rx_inv ?s0" "rx_contents ?s0 = rx_contents (sockets b ! j)"
    using ri by (simp_all add: rx_inv_def rx_contents_def)
  show ?thesis
  proof (cases "s_rx_len (sockets b ! j) + length d \<le> SOCKET_BUFFER_SIZE")
    case True
    let ?b = "upd_sock j (\<lambda>s. (rx_append d s)\<lparr>s_ack := ?sq + of_nat (length d)\<rparr>) (tcp_arrival c j f b)"
    let ?s = "(rx_append d ?s0)\<lparr>s_ack := ?sq + of_nat (length d)\<rparr>"
    have t: "transfer c (int i) d (a, b) = Some (?a, ?b)"
      using receive_data [OF l d f_def] True by (simp add: transfer_def send)
    have s: "rx_inv ?s" "rx_contents ?s = rx_contents (sockets b ! j) @ d"
      using rx_append_facts [OF rs(1), of d] True by (simp_all add: rx_inv_def rx_contents_def)
    have "sock_link ?a i ?b j mac"
      using l' j s(1) lf by (intro sock_link_update [OF l, where s = ?s]) (auto simp: rx_append_def)
    with t s j True rl show ?thesis
      by (intro exI [of _ ?a] exI [of _ ?b]) (simp add: push_bytes_def)
  next
    case False
    let ?b = "tcp_arrival c j f b"
    have t: "transfer c (int i) d (a, b) = Some (?a, ?b)"
      using receive_data [OF l d f_def] False by (simp add: transfer_def send)
    have "sock_link ?a i ?b j mac"
      using l' j rs(1) lf by (intro sock_link_update [OF l, where s = ?s0]) auto
    with t rs(2) j False rl show ?thesis
      by (intro exI [of _ ?a] exI [of _ ?b]) (simp add: push_bytes_def)
  qed
qed

text \<open>The reader takes bytes from the front.\<close>

lemma recv_step:
  assumes l: "sock_link a i b j mac"
  shows "\<exists>b'. socket_recv c (int j) n b = (int (length (take n (rx_contents (sockets b ! j)))), take n (rx_contents (sockets b ! j)), b') \<and>
    sock_link a i b' j mac \<and> rx_contents (sockets b' ! j) = drop n (rx_contents (sockets b ! j))"
proof -
  note l' = l [unfolded sock_link_def]
  have f: "find_sock SOCK_STREAM (s_remote_port (sockets a ! i)) b = Some j" using l' by blast
  have j: "j < MAX_SOCKETS" "j < length (sockets b)" "s_active (sockets b ! j)"
    using find_sock_Some [OF f] l' by simp_all
  let ?s = "sockets b ! j"
  have inv: "rx_inv ?s" using l' by simp
  have rl: "length (rx_contents ?s) = s_rx_len ?s" using inv by (simp add: rx_inv_def rx_contents_def)
  show ?thesis
  proof (cases "s_rx_len ?s = 0")
    case True
    then have "rx_contents ?s = []" using rl by simp
    with True j l show ?thesis by (simp add: socket_recv_def bad_fd_def)
  next
    case False
    obtain d s' where s': "rx_take n ?s = (d, s')" by (cases "rx_take n ?s")
    note t = rx_take_facts [OF inv, of n, unfolded s', simplified]
    have k: "s_active s' = s_active ?s" "s_type s' = s_type ?s" "s_local_port s' = s_local_port ?s" "s_state s' = s_state ?s"
      using s' by (auto simp: rx_take_def Let_def)
    let ?s' = "s'\<lparr>s_last_activity := c_ms c\<rparr>"
    let ?b = "upd_sock j (\<lambda>_. ?s') b"
    have r: "socket_recv c (int j) n b = (int (length d), d, ?b)"
      using False j s' by (simp add: socket_recv_def bad_fd_def)
    have "rx_inv ?s'" "rx_contents ?s' = rx_contents s'" using t(3) by (simp_all add: rx_inv_def rx_contents_def)
    moreover have "sock_link a i ?b j mac"
      using k l' \<open>rx_inv ?s'\<close>
      by (intro sock_link_update [OF l, where s = ?s' and sq = "s_seq (sockets a ! i)" and t = "s_last_activity (sockets a ! i)"]) auto
    ultimately show ?thesis using r t j by (intro exI [of _ ?b]) simp
  qed
qed

text \<open>
  A connection in use: one side writes chunks, each carried over the wire at once, the other reads.
  The reads are collected in order. Beside it the queue of bytes it is meant to be.
\<close>

datatype stream_op = Write clock "u8 list" | Read clock nat

fun stream_run :: "int \<Rightarrow> int \<Rightarrow> stream_op list \<Rightarrow> net \<times> net \<Rightarrow> ((int \<times> u8 list) list \<times> net \<times> net) option" where
  "stream_run fd fd' [] ab = Some ([], ab)"
| "stream_run fd fd' (Write c d # ops) ab = transfer c fd d ab \<bind> stream_run fd fd' ops"
| "stream_run fd fd' (Read c n # ops) (a, b) =
     (let (r, d, b') = socket_recv c fd' n b
      in map_option (\<lambda>(out, ab). ((r, d) # out, ab)) (stream_run fd fd' ops (a, b')))"

fun stream_spec :: "stream_op list \<Rightarrow> u8 list \<Rightarrow> u8 list list \<times> u8 list" where
  "stream_spec [] q = ([], q)"
| "stream_spec (Write c d # ops) q = stream_spec ops (push_bytes d q)"
| "stream_spec (Read c n # ops) q = (let (out, q') = stream_spec ops (drop n q) in (take n q # out, q'))"

fun written :: "stream_op list \<Rightarrow> u8 list" where
  "written [] = []"
| "written (Write c d # ops) = d @ written ops"
| "written (Read c n # ops) = written ops"

lemma stream_run_spec:
  assumes "sock_link a i b j mac" "\<forall>c d. Write c d \<in> set ops \<longrightarrow> 0 < length d \<and> length d \<le> 1460"
    and "stream_spec ops (rx_contents (sockets b ! j)) = (outs, q)"
  shows "\<exists>a' b'. stream_run (int i) (int j) ops (a, b) = Some (map (\<lambda>d. (int (length d), d)) outs, a', b') \<and>
    sock_link a' i b' j mac \<and> rx_contents (sockets b' ! j) = q"
  using assms
proof (induction ops arbitrary: a b outs q)
  case (Cons op ops)
  show ?case
  proof (cases op)
    case (Write c d)
    then have "0 < length d" "length d \<le> 1460" using Cons.prems(2) by auto
    from transfer_step [OF Cons.prems(1) this, of c] obtain a1 b1 where
      1: "transfer c (int i) d (a, b) = Some (a1, b1)" "sock_link a1 i b1 j mac"
        "rx_contents (sockets b1 ! j) = push_bytes d (rx_contents (sockets b ! j))" by blast
    with Cons.IH [OF 1(2)] Cons.prems(2,3) Write show ?thesis by auto
  next
    case (Read c n)
    from recv_step [OF Cons.prems(1), of c n] obtain b1 where
      1: "socket_recv c (int j) n b = (int (length (take n (rx_contents (sockets b ! j)))), take n (rx_contents (sockets b ! j)), b1)"
        "sock_link a i b1 j mac" "rx_contents (sockets b1 ! j) = drop n (rx_contents (sockets b ! j))" by blast
    obtain outs' where o: "stream_spec ops (rx_contents (sockets b1 ! j)) = (outs', q)" "outs = take n (rx_contents (sockets b ! j)) # outs'"
      using Cons.prems(3) Read 1(3) by (auto simp: Let_def split: prod.splits)
    from Cons.IH [OF 1(2) _ o(1)] Cons.prems(2) obtain a' b' where
      "stream_run (int i) (int j) ops (a, b1) = Some (map (\<lambda>d. (int (length d), d)) outs', a', b')"
      "sock_link a' i b' j mac" "rx_contents (sockets b' ! j) = q" by auto
    with Read 1(1) o(2) show ?thesis by (simp add: Let_def)
  qed
qed auto

lemma stream_spec_lossless:
  "length q + length (written ops) \<le> SOCKET_BUFFER_SIZE \<Longrightarrow> stream_spec ops q = (outs, q') \<Longrightarrow> concat outs @ q' = q @ written ops"
proof (induction ops q arbitrary: outs rule: stream_spec.induct)
  case (2 c d ops q)
  then show ?case by (auto simp: push_bytes_def)
next
  case (3 c n ops q)
  obtain outs' where o: "stream_spec ops (drop n q) = (outs', q')" "outs = take n q # outs'"
    using 3(3) by (auto simp: Let_def split: prod.splits)
  from "3.IH" [OF _ o(1)] 3(2) have "concat outs' @ q' = drop n q @ written ops" by auto
  then have "concat outs @ q' = take n q @ (drop n q @ written ops)" by (simp add: o(2))
  then show ?case by simp
qed auto

section \<open>Connection setup and teardown\<close>

text \<open>A segment without data, as the receiver sees it.\<close>

lemma control_segment:
  assumes f: "f = tcp_frame mac cf (ip_addr (cfg n)) dp sp sq ak fl []"
    and m: "length mac = 6" "length (mac_addr cf) = 6" and i: "find_sock SOCK_STREAM dp n = Some i"
    and n1: "n1 = tcp_arrival c i f n"
  shows "receive_frame c f n = tcp_segment c i 34 20 n1"
    "rx_buf n1 ! 47 = fl" "get32 (rx_buf n1) 38 = htonl sq" "get32 (rx_buf n1) 26 = htonl (ip_addr cf)"
    "get16 (rx_buf n1) 34 = htons sp"
proof -
  show "receive_frame c f n = tcp_segment c i 34 20 n1"
    using receive_tcp_frame [OF f m _ i] by (simp add: n1)
  have p: "rx_buf n1 = tcp_frame mac cf (ip_addr (cfg n)) dp sp sq ak fl [] @ drop (length f) (rx_buf n)"
    using f by (simp add: n1)
  show "rx_buf n1 ! 47 = fl" "get32 (rx_buf n1) 38 = htonl sq" "get32 (rx_buf n1) 26 = htonl (ip_addr cf)"
    "get16 (rx_buf n1) 34 = htons sp"
    using tcp_frame_fields [OF p m] by simp_all
qed

lemma connect_ok:
  assumes "i < MAX_SOCKETS" "length (sockets a) = MAX_SOCKETS" "s_active (sockets a ! i)"
    "s_type (sockets a ! i) = SOCK_STREAM" "s_local_port (sockets a ! i) = p" "p \<noteq> 0"
    and r: "can_reach a ip mac"
    and isn: "tcp_generate_isn c a = (isn, a0)"
    and f: "f = tcp_frame mac (cfg a) ip port p isn 0 TCP_SYN []"
  shows "socket_connect c (int i) ip port a = Some (NET_OK, after_send f
     (upd_sock i (\<lambda>s. s\<lparr>s_remote_ip := ip, s_remote_port := port, s_seq := isn, s_state := TCP_SYN_SENT\<rparr>)
       (a\<lparr>rng_state := isn\<rparr>)))"
proof -
  let ?n = "upd_sock i (\<lambda>s. s\<lparr>s_remote_ip := ip, s_remote_port := port, s_seq := isn, s_state := TCP_SYN_SENT\<rparr>)
       (a\<lparr>rng_state := isn\<rparr>)"
  have "can_reach ?n ip mac" using r by (subst can_reach_cong [of _ a]) simp_all
  then have send: "tcp_send_packet ip port p isn 0 TCP_SYN [] ?n = Some (net_send ?n (sent ?n) f, after_send f ?n)"
    using f by (intro tcp_send_packet_ok) simp_all
  have isn': "tcp_generate_isn c (upd_sock i g a) = (isn, (upd_sock i g a)\<lparr>rng_state := isn\<rparr>)" for g
    using isn by (auto simp: tcp_generate_isn_def random_u32_def Let_def)
  have merge: "upd_sock i (\<lambda>s. s\<lparr>s_seq := isn, s_state := TCP_SYN_SENT\<rparr>)
      ((upd_sock i (\<lambda>s. s\<lparr>s_remote_ip := ip, s_remote_port := port\<rparr>) a)\<lparr>rng_state := isn\<rparr>) = ?n"
    using assms(1,2) by (simp add: upd_sock_def)
  show ?thesis
    using assms(1-6) send
    by (simp add: socket_connect_def bad_fd_def bind_ephemeral_def Let_def isn' merge)
qed

lemma listen_syn:
  assumes "s_state (sockets n1 ! j) = TCP_LISTEN" "j < length (sockets n1)"
    and v: "rx_buf n1 ! 47 = TCP_SYN" "get32 (rx_buf n1) 38 = htonl sq" "get32 (rx_buf n1) 26 = htonl ip"
      "get16 (rx_buf n1) 34 = htons sp"
    and r: "can_reach n1 ip mac" and isn: "tcp_generate_isn c n1 = (isn, n0)"
    and f: "f = tcp_frame mac (cfg n1) ip sp (s_local_port (sockets n1 ! j)) isn (sq + 1) (TCP_SYN OR TCP_ACK) []"
  shows "tcp_segment c j 34 20 n1 = Some (after_send f
     (upd_sock j (\<lambda>s. s\<lparr>s_remote_ip := ip, s_remote_port := sp, s_ack := sq + 1, s_seq := isn,
                        s_state := TCP_SYN_RECEIVED\<rparr>) (n1\<lparr>rng_state := isn\<rparr>)))"
proof -
  let ?n = "upd_sock j (\<lambda>s. s\<lparr>s_remote_ip := ip, s_remote_port := sp, s_ack := sq + 1, s_seq := isn,
                        s_state := TCP_SYN_RECEIVED\<rparr>) (n1\<lparr>rng_state := isn\<rparr>)"
  have isn': "tcp_generate_isn c (upd_sock j g n1) = (isn, (upd_sock j g n1)\<lparr>rng_state := isn\<rparr>)" for g
    using isn by (auto simp: tcp_generate_isn_def random_u32_def Let_def)
  have merge: "upd_sock j (\<lambda>s. s\<lparr>s_seq := isn, s_state := TCP_SYN_RECEIVED\<rparr>)
      ((upd_sock j (\<lambda>s. s\<lparr>s_remote_ip := ip, s_remote_port := sp, s_ack := sq + 1\<rparr>) n1)\<lparr>rng_state := isn\<rparr>) = ?n"
    using assms(2) by (simp add: upd_sock_def)
  have "can_reach ?n ip mac" using r by (subst can_reach_cong [of _ n1]) simp_all
  then have "tcp_reply j (TCP_SYN OR TCP_ACK) ?n = Some (after_send f ?n)"
    using tcp_reply_ok [of ?n j mac] assms(2) f by simp
  then show ?thesis
    using assms(1) v by (simp add: tcp_segment_def Let_def has_def isn' merge)
qed

lemma syn_sent_synack:
  assumes "s_state (sockets n1 ! i) = TCP_SYN_SENT" "i < length (sockets n1)"
    and v: "rx_buf n1 ! 47 = TCP_SYN OR TCP_ACK" "get32 (rx_buf n1) 38 = htonl sq"
    and r: "can_reach n1 (s_remote_ip (sockets n1 ! i)) mac"
    and f: "f = tcp_frame mac (cfg n1) (s_remote_ip (sockets n1 ! i)) (s_remote_port (sockets n1 ! i))
              (s_local_port (sockets n1 ! i)) (s_seq (sockets n1 ! i)) (sq + 1) TCP_ACK []"
  shows "tcp_segment c i 34 20 n1 = Some (after_send f
     (upd_sock i (\<lambda>s. s\<lparr>s_ack := sq + 1, s_state := TCP_ESTABLISHED\<rparr>) n1))"
proof -
  let ?n = "upd_sock i (\<lambda>s. s\<lparr>s_ack := sq + 1, s_state := TCP_ESTABLISHED\<rparr>) n1"
  have "can_reach ?n (s_remote_ip (sockets ?n ! i)) mac"
    using r assms(2) by (subst can_reach_cong [of _ n1]) simp_all
  then have "tcp_reply i TCP_ACK ?n = Some (after_send f ?n)"
    using tcp_reply_ok [of ?n i mac] assms(2) f by simp
  then show ?thesis
    using assms(1) v by (simp add: tcp_segment_def Let_def has_def)
qed

text \<open>A client socket and a listening server that can reach each other.\<close>

definition ready_to_connect :: "net \<Rightarrow> nat \<Rightarrow> u16 \<Rightarrow> net \<Rightarrow> nat \<Rightarrow> u16 \<Rightarrow> u8 list \<Rightarrow> u8 list \<Rightarrow> bool" where
  "ready_to_connect a i p b j port mac mac' \<longleftrightarrow>
     length (sockets a) = MAX_SOCKETS \<and> length (sockets b) = MAX_SOCKETS \<and> p \<noteq> 0 \<and>
     find_sock SOCK_STREAM p a = Some i \<and> find_sock SOCK_STREAM port b = Some j \<and>
     s_state (sockets b ! j) = TCP_LISTEN \<and>
     can_reach a (ip_addr (cfg b)) mac \<and> can_reach b (ip_addr (cfg a)) mac'"

definition handshake :: "clock \<Rightarrow> int \<Rightarrow> u16 \<Rightarrow> int \<Rightarrow> net \<times> net \<Rightarrow> (net \<times> net) option" where
  "handshake c fd port gd ab = do {
     (_, a1) \<leftarrow> socket_connect c fd (ip_addr (cfg (snd ab))) port (fst ab);
     b1 \<leftarrow> receive_frame c (last (sent a1)) (snd ab);
     a2 \<leftarrow> receive_frame c (last (sent b1)) a1;
     b2 \<leftarrow> receive_frame c (last (sent a2)) b1;
     (case socket_accept gd b2 of (r, _, b3) \<Rightarrow> if 0 \<le> r then Some (a2, b3) else None)
   }"

lemma handshake_ok:
  assumes ready: "ready_to_connect a i p b j port mac mac'"
  shows "\<exists>a' b'. handshake c (int i) port (int j) (a, b) = Some (a', b') \<and>
     s_state (sockets a' ! i) = TCP_ESTABLISHED \<and> s_state (sockets b' ! j) = TCP_ESTABLISHED \<and>
     s_remote_ip (sockets a' ! i) = ip_addr (cfg b) \<and> s_remote_port (sockets a' ! i) = port \<and>
     s_remote_ip (sockets b' ! j) = ip_addr (cfg a) \<and> s_remote_port (sockets b' ! j) = p \<and>
     s_ack (sockets b' ! j) = s_seq (sockets a' ! i) + 1 \<and>
     s_ack (sockets a' ! i) = s_seq (sockets b' ! j) + 1"
proof -
  note r = ready [unfolded ready_to_connect_def]
  have i: "i < MAX_SOCKETS" "s_active (sockets a ! i)" "s_type (sockets a ! i) = SOCK_STREAM"
      "s_local_port (sockets a ! i) = p"
    and j: "j < MAX_SOCKETS" "s_active (sockets b ! j)" "s_type (sockets b ! j) = SOCK_STREAM"
      "s_local_port (sockets b ! j) = port"
    using r find_sock_Some by blast+
  have la: "i < length (sockets a)" and lb: "j < length (sockets b)" using r i j by simp_all
  have mac: "length mac = 6" "length mac' = 6" "length (mac_addr (cfg a)) = 6" "length (mac_addr (cfg b)) = 6"
    using r by (simp_all add: can_reach_def)
  let ?ipa = "ip_addr (cfg a)" and ?ipb = "ip_addr (cfg b)"
  obtain isn a0 where isn: "tcp_generate_isn c a = (isn, a0)" by fastforce
  define f1 where "f1 = tcp_frame mac (cfg a) ?ipb port p isn 0 TCP_SYN []"
  define a1 where "a1 = after_send f1
     (upd_sock i (\<lambda>s. s\<lparr>s_remote_ip := ?ipb, s_remote_port := port, s_seq := isn, s_state := TCP_SYN_SENT\<rparr>)
       (a\<lparr>rng_state := isn\<rparr>))"
  have s1: "socket_connect c (int i) ?ipb port a = Some (NET_OK, a1)"
    unfolding a1_def using r i isn by (intro connect_ok [where p = p]) (auto simp: f1_def)
  text \<open>The server answers.\<close>
  define b0 where "b0 = tcp_arrival c j f1 b"
  note c1 = control_segment [OF f1_def mac(1,3) _ b0_def]
  obtain isn' b9 where isn': "tcp_generate_isn c b0 = (isn', b9)" by fastforce
  define f2 where "f2 = tcp_frame mac' (cfg b) ?ipa p port isn' (isn + 1) (TCP_SYN OR TCP_ACK) []"
  define b1 where "b1 = after_send f2
     (upd_sock j (\<lambda>s. s\<lparr>s_remote_ip := ?ipa, s_remote_port := p, s_ack := isn + 1, s_seq := isn',
                        s_state := TCP_SYN_RECEIVED\<rparr>) (b0\<lparr>rng_state := isn'\<rparr>))"
  have "can_reach b0 ?ipa mac'"
    using r by (subst can_reach_cong [of _ b]) (simp_all add: b0_def)
  then have "tcp_segment c j 34 20 b0 = Some b1"
    unfolding b1_def using r c1 lb j isn'
    by (intro listen_syn [where isn = isn' and mac = mac']) (auto simp: b0_def f2_def)
  then have s2: "receive_frame c f1 b = Some b1" using c1(1) r by simp
  text \<open>The client completes.\<close>
  define a2 where "a2 = tcp_arrival c i f2 a1"
  have sa1: "sockets a1 = (sockets a)[i := (sockets a ! i)\<lparr>s_remote_ip := ?ipb, s_remote_port := port,
      s_seq := isn, s_state := TCP_SYN_SENT\<rparr>]"
    by (simp add: a1_def)
  then have fa: "find_sock SOCK_STREAM p a1 = Some i"
    using find_sock_update [OF sa1] r by simp
  have f2': "f2 = tcp_frame mac' (cfg b) (ip_addr (cfg a1)) p port isn' (isn + 1) (TCP_SYN OR TCP_ACK) []"
    by (simp add: f2_def a1_def)
  note c2 = control_segment [OF f2' mac(2,4) fa a2_def]
  define f3 where "f3 = tcp_frame mac (cfg a2) ?ipb port p isn (isn' + 1) TCP_ACK []"
  define a3 where "a3 = after_send f3 (upd_sock i (\<lambda>s. s\<lparr>s_ack := isn' + 1, s_state := TCP_ESTABLISHED\<rparr>) a2)"
  have sa2: "sockets a2 ! i = (sockets a ! i)\<lparr>s_remote_ip := ?ipb, s_remote_port := port, s_seq := isn,
      s_state := TCP_SYN_SENT, s_last_activity := c_ms c\<rparr>" "i < length (sockets a2)"
    using la by (simp_all add: a2_def a1_def)
  have "can_reach a2 ?ipb mac"
    using r by (subst can_reach_cong [of _ a]) (simp_all add: a2_def a1_def)
  then have "tcp_segment c i 34 20 a2 = Some a3"
    unfolding a3_def using sa2 c2 i by (intro syn_sent_synack [where mac = mac]) (auto simp: f3_def)
  then have s3: "receive_frame c f2 a1 = Some a3" using c2(1) by simp
  text \<open>The final acknowledgement changes nothing but the timestamp.\<close>
  define b2 where "b2 = tcp_arrival c j f3 b1"
  have sb1: "sockets b1 = (sockets b)[j := (sockets b ! j)\<lparr>s_last_activity := c_ms c, s_remote_ip := ?ipa,
      s_remote_port := p, s_ack := isn + 1, s_seq := isn', s_state := TCP_SYN_RECEIVED\<rparr>]"
    using lb by (simp add: b1_def b0_def)
  then have fb: "find_sock SOCK_STREAM port b1 = Some j"
    using find_sock_update [OF sb1] r by simp
  have f3': "f3 = tcp_frame mac (cfg a2) (ip_addr (cfg b1)) port p isn (isn' + 1) TCP_ACK []"
    by (simp add: f3_def b1_def b0_def)
  have mac2: "length (mac_addr (cfg a2)) = 6" using mac by (simp add: a2_def a1_def)
  note c3 = control_segment [OF f3' mac(1) mac2 fb b2_def]
  have sb2: "sockets b2 ! j = (sockets b ! j)\<lparr>s_remote_ip := ?ipa, s_remote_port := p, s_ack := isn + 1,
      s_seq := isn', s_state := TCP_SYN_RECEIVED, s_last_activity := c_ms c\<rparr>" "j < length (sockets b2)"
    using lb by (simp_all add: b2_def b1_def b0_def)
  have "tcp_segment c j 34 20 b2 = Some b2"
    using c3 sb2 by (simp add: tcp_segment_def Let_def has_def)
  then have s4: "receive_frame c f3 b1 = Some b2" using c3(1) by simp
  let ?b3 = "upd_sock j (\<lambda>s. s\<lparr>s_state := TCP_ESTABLISHED\<rparr>) b2"
  have s5: "socket_accept (int j) b2 = (int j, Some (?ipa, p), ?b3)"
    using sb2 j by (simp add: socket_accept_def bad_fd_def)
  have last: "last (sent a1) = f1" "last (sent b1) = f2" "last (sent a3) = f3"
    by (simp_all add: a1_def b1_def a3_def)
  have "handshake c (int i) port (int j) (a, b) = Some (a3, ?b3)"
    by (simp add: handshake_def s1 s2 s3 s4 s5 last)
  then show ?thesis
    using sa2 sb2 by (intro exI [of _ a3] exI [of _ ?b3]) (simp add: a3_def)
qed

section \<open>The orderly close\<close>

text \<open>Two established sockets connected to each other.\<close>

definition duplex :: "net \<Rightarrow> nat \<Rightarrow> net \<Rightarrow> nat \<Rightarrow> u8 list \<Rightarrow> u8 list \<Rightarrow> bool" where
  "duplex a i b j mac mac' \<longleftrightarrow>
     length (sockets a) = MAX_SOCKETS \<and> length (sockets b) = MAX_SOCKETS \<and>
     find_sock SOCK_STREAM (s_local_port (sockets a ! i)) a = Some i \<and>
     find_sock SOCK_STREAM (s_local_port (sockets b ! j)) b = Some j \<and>
     s_remote_ip (sockets a ! i) = ip_addr (cfg b) \<and> s_remote_ip (sockets b ! j) = ip_addr (cfg a) \<and>
     s_remote_port (sockets a ! i) = s_local_port (sockets b ! j) \<and>
     s_remote_port (sockets b ! j) = s_local_port (sockets a ! i) \<and>
     can_reach a (ip_addr (cfg b)) mac \<and> can_reach b (ip_addr (cfg a)) mac'"

lemma duplex_index:
  assumes "duplex a i b j mac mac'"
  shows "i < MAX_SOCKETS" "i < length (sockets a)" "s_active (sockets a ! i)"
    "s_type (sockets a ! i) = SOCK_STREAM"
proof -
  have "find_sock SOCK_STREAM (s_local_port (sockets a ! i)) a = Some i" "length (sockets a) = MAX_SOCKETS"
    using assms unfolding duplex_def by blast+
  then show "i < MAX_SOCKETS" "i < length (sockets a)" "s_active (sockets a ! i)"
    "s_type (sockets a ! i) = SOCK_STREAM"
    using find_sock_Some by (metis, metis, metis, metis)
qed

text \<open>A step of one side: new socket contents, one more frame sent, the rest unchanged.\<close>

definition tcp_step :: "net \<Rightarrow> nat \<Rightarrow> sock \<Rightarrow> u8 list list \<Rightarrow> net \<Rightarrow> bool" where
  "tcp_step n i s fs n' \<longleftrightarrow> sockets n' = (sockets n)[i := s] \<and> sent n' = sent n @ fs \<and> cfg n' = cfg n \<and>
     arp_cache n' = arp_cache n \<and> tcpip_initialized n' = tcpip_initialized n"

lemma duplex_step:
  assumes d: "duplex a i b j mac mac'" and s: "tcp_step a i s fs a'"
    and k: "s_active s = s_active (sockets a ! i)" "s_type s = s_type (sockets a ! i)"
      "s_local_port s = s_local_port (sockets a ! i)" "s_remote_ip s = s_remote_ip (sockets a ! i)"
      "s_remote_port s = s_remote_port (sockets a ! i)"
  shows "duplex a' i b j mac mac'" "sockets a' ! i = s"
proof -
  note d' = d [unfolded duplex_def]
  have s': "sockets a' = (sockets a)[i := s]" "cfg a' = cfg a" "arp_cache a' = arp_cache a"
    "tcpip_initialized a' = tcpip_initialized a"
    using s by (simp_all add: tcp_step_def)
  have i: "i < length (sockets a)" by (rule duplex_index [OF d])
  then show si: "sockets a' ! i = s" by (simp add: s'(1))
  have "find_sock SOCK_STREAM p a' = find_sock SOCK_STREAM p a" for p
    by (rule find_sock_update [OF s'(1) k(1-3)])
  moreover have "can_reach a' ip m = can_reach a ip m" for ip m
    by (rule can_reach_cong [OF s'(2-4)])
  moreover have "length (sockets a') = length (sockets a)" by (simp add: s'(1))
  ultimately show "duplex a' i b j mac mac'"
    using d' unfolding duplex_def si s'(2) k by simp
qed

lemma duplex_sym: "duplex a i b j mac mac' \<Longrightarrow> duplex b j a i mac' mac"
  by (auto simp: duplex_def)

text \<open>The control segment sent for a socket.\<close>

definition sock_frame :: "net_config \<Rightarrow> sock \<Rightarrow> u8 list \<Rightarrow> u8 \<Rightarrow> u8 list" where
  "sock_frame cf s mac fl =
     tcp_frame mac cf (s_remote_ip s) (s_remote_port s) (s_local_port s) (s_seq s) (s_ack s) fl []"

lemma reply_step:
  assumes d: "duplex a i b j mac mac'" and n: "tcp_step a i s [] n"
    and k: "s_remote_ip s = ip_addr (cfg b)"
  shows "\<exists>a'. tcp_reply i fl n = Some a' \<and> tcp_step a i s [sock_frame (cfg a) s mac fl] a'"
proof -
  note d' = d [unfolded duplex_def]
  have n': "sockets n = (sockets a)[i := s]" "sent n = sent a" "cfg n = cfg a"
    "arp_cache n = arp_cache a" "tcpip_initialized n = tcpip_initialized a"
    using n by (simp_all add: tcp_step_def)
  have "i < length (sockets a)" by (rule duplex_index [OF d])
  then have si: "sockets n ! i = s" by (simp add: n'(1))
  have "can_reach n (ip_addr (cfg b)) mac"
    using d' can_reach_cong [OF n'(3-5)] by simp
  then have "tcp_reply i fl n = Some (after_send (sock_frame (cfg a) s mac fl) n)"
    using tcp_reply_ok [of n i mac fl] unfolding si k by (simp add: sock_frame_def si k n'(3))
  then show ?thesis using n' by (simp add: tcp_step_def)
qed

lemma close_established:
  assumes d: "duplex a i b j mac mac'"
    and st: "s_state (sockets a ! i) = TCP_ESTABLISHED \<and> st' = TCP_FIN_WAIT_1 \<or>
             s_state (sockets a ! i) = TCP_CLOSE_WAIT \<and> st' = TCP_LAST_ACK"
  shows "\<exists>a'. socket_close (int i) a = Some (NET_OK, a') \<and>
           tcp_step a i ((sockets a ! i)\<lparr>s_seq := s_seq (sockets a ! i) + 1, s_state := st'\<rparr>)
             [sock_frame (cfg a) (sockets a ! i) mac (TCP_FIN OR TCP_ACK)] a'"
proof -
  note d' = d [unfolded duplex_def]
  have i: "i < MAX_SOCKETS \<and> s_active (sockets a ! i) \<and> s_type (sockets a ! i) = SOCK_STREAM"
    using duplex_index [OF d] by blast
  have "tcp_step a i (sockets a ! i) [] a" by (simp add: tcp_step_def)
  then obtain a1 where a1: "tcp_reply i (TCP_FIN OR TCP_ACK) a = Some a1"
    "tcp_step a i (sockets a ! i) [sock_frame (cfg a) (sockets a ! i) mac (TCP_FIN OR TCP_ACK)] a1"
    using reply_step [OF d] d' by blast
  let ?a' = "upd_sock i (\<lambda>s. s\<lparr>s_seq := s_seq s + 1, s_state := st'\<rparr>) a1"
  have "socket_close (int i) a = Some (NET_OK, ?a')"
    using i st a1(1) by (auto simp: socket_close_def send_fin_def Let_def)
  moreover have "tcp_step a i ((sockets a ! i)\<lparr>s_seq := s_seq (sockets a ! i) + 1, s_state := st'\<rparr>)
      [sock_frame (cfg a) (sockets a ! i) mac (TCP_FIN OR TCP_ACK)] ?a'"
    using a1(2) by (auto simp: tcp_step_def)
  ultimately show ?thesis by blast
qed

text \<open>Reception of a control segment that the peer sent for the socket.\<close>

lemma peer_segment:
  assumes d: "duplex a i b j mac mac'" and f: "f = sock_frame (cfg a) s mac fl"
    and s: "s_remote_ip s = s_remote_ip (sockets a ! i)" "s_remote_port s = s_remote_port (sockets a ! i)"
    and n: "n = tcp_arrival c j f b"
  shows "receive_frame c f b = tcp_segment c j 34 20 n" "rx_buf n ! 47 = fl"
    "get32 (rx_buf n) 38 = htonl (s_seq s)"
    "tcp_step b j ((sockets b ! j)\<lparr>s_last_activity := c_ms c\<rparr>) [] n"
    "sockets n ! j = (sockets b ! j)\<lparr>s_last_activity := c_ms c\<rparr>"
proof -
  note d' = d [unfolded duplex_def]
  have m: "length mac = 6" "length (mac_addr (cfg a)) = 6"
    using d' by (simp_all add: can_reach_def)
  have f': "f = tcp_frame mac (cfg a) (ip_addr (cfg b)) (s_local_port (sockets b ! j))
      (s_local_port s) (s_seq s) (s_ack s) fl []"
    using d' s by (simp add: f sock_frame_def)
  have j: "find_sock SOCK_STREAM (s_local_port (sockets b ! j)) b = Some j" using d' by blast
  show "receive_frame c f b = tcp_segment c j 34 20 n" "rx_buf n ! 47 = fl"
    "get32 (rx_buf n) 38 = htonl (s_seq s)"
    using control_segment [OF f' m j n] by blast+
  show "tcp_step b j ((sockets b ! j)\<lparr>s_last_activity := c_ms c\<rparr>) [] n"
    by (simp add: tcp_step_def n)
  show "sockets n ! j = (sockets b ! j)\<lparr>s_last_activity := c_ms c\<rparr>"
    using duplex_index(2) [OF duplex_sym [OF d]] by (simp add: n)
qed

text \<open>The reaction of the state machine to such a segment, when it answers with ACK.\<close>

lemma segment_acked:
  assumes d: "duplex a i b j mac mac'" and f: "f = sock_frame (cfg a) s mac fl"
    and s: "s_remote_ip s = s_remote_ip (sockets a ! i)" "s_remote_port s = s_remote_port (sockets a ! i)"
    and upd: "\<And>n. rx_buf n ! 47 = fl \<Longrightarrow> get32 (rx_buf n) 38 = htonl (s_seq s) \<Longrightarrow>
        s_state (sockets n ! j) = s_state (sockets b ! j) \<Longrightarrow>
        tcp_segment c j 34 20 n = tcp_reply j TCP_ACK (upd_sock j g n)"
    and g: "\<And>x. s_remote_ip (g x) = s_remote_ip x"
  shows "\<exists>b' t. receive_frame c f b = Some b' \<and> t = g ((sockets b ! j)\<lparr>s_last_activity := c_ms c\<rparr>) \<and>
           tcp_step b j t [sock_frame (cfg b) t mac' TCP_ACK] b'"
proof -
  define n where "n = tcp_arrival c j f b"
  note p = peer_segment [OF d f s n_def]
  let ?t = "g ((sockets b ! j)\<lparr>s_last_activity := c_ms c\<rparr>)"
  have st: "tcp_step b j ?t [] (upd_sock j g n)"
    using p(4) p(5) by (simp add: tcp_step_def)
  have "s_remote_ip ?t = ip_addr (cfg a)"
    using d by (simp add: g duplex_def)
  then obtain b' where "tcp_reply j TCP_ACK (upd_sock j g n) = Some b'"
    "tcp_step b j ?t [sock_frame (cfg b) ?t mac' TCP_ACK] b'"
    using reply_step [OF duplex_sym [OF d] st] by blast
  moreover have "tcp_segment c j 34 20 n = tcp_reply j TCP_ACK (upd_sock j g n)"
    by (rule upd) (use p in simp_all)
  ultimately show ?thesis using p(1) by auto
qed

definition orderly_close :: "clock \<Rightarrow> int \<Rightarrow> int \<Rightarrow> net \<times> net \<Rightarrow> (net \<times> net) option" where
  "orderly_close c fd gd ab = do {
     (_, a1) \<leftarrow> socket_close fd (fst ab);
     b1 \<leftarrow> receive_frame c (last (sent a1)) (snd ab);
     a2 \<leftarrow> receive_frame c (last (sent b1)) a1;
     (_, b2) \<leftarrow> socket_close gd b1;
     a3 \<leftarrow> receive_frame c (last (sent b2)) a2;
     b3 \<leftarrow> receive_frame c (last (sent a3)) b2;
     Some (a3, b3)
   }"

lemma tcp_step_last: "tcp_step n i s (fs @ [f]) n' \<Longrightarrow> last (sent n') = f"
  by (simp add: tcp_step_def)

lemma tcp_step_cfg: "tcp_step n i s fs n' \<Longrightarrow> cfg n' = cfg n"
  by (simp add: tcp_step_def)

lemma orderly_close_ok:
  assumes d: "duplex a i b j mac mac'"
    and est: "s_state (sockets a ! i) = TCP_ESTABLISHED" "s_state (sockets b ! j) = TCP_ESTABLISHED"
  shows "\<exists>a' b'. orderly_close c (int i) (int j) (a, b) = Some (a', b') \<and>
           s_state (sockets a' ! i) = TCP_TIME_WAIT \<and> s_active (sockets a' ! i) \<and>
           s_timeout (sockets a' ! i) = s_timeout (sockets a ! i) \<and>
           sockets b' ! j = zero_sock"
proof -
  text \<open>The first FIN.\<close>
  let ?sa1 = "(sockets a ! i)\<lparr>s_seq := s_seq (sockets a ! i) + 1, s_state := TCP_FIN_WAIT_1\<rparr>"
  let ?f1 = "sock_frame (cfg a) (sockets a ! i) mac (TCP_FIN OR TCP_ACK)"
  obtain a1 where a1: "socket_close (int i) a = Some (NET_OK, a1)" "tcp_step a i ?sa1 [?f1] a1"
    using close_established [OF d, of TCP_FIN_WAIT_1] est by blast
  have d1: "duplex a1 i b j mac mac'" and sa1: "sockets a1 ! i = ?sa1"
    using duplex_step [OF d a1(2)] by simp_all
  obtain b1 t1 where b1: "receive_frame c ?f1 b = Some b1"
      "t1 = (\<lambda>s. s\<lparr>s_state := TCP_CLOSE_WAIT\<rparr>) ((sockets b ! j)\<lparr>s_last_activity := c_ms c\<rparr>)"
      "tcp_step b j t1 [sock_frame (cfg b) t1 mac' TCP_ACK] b1"
    using segment_acked [OF d refl refl refl, of "TCP_FIN OR TCP_ACK" c "\<lambda>s. s\<lparr>s_state := TCP_CLOSE_WAIT\<rparr>"]
      est(2) by (auto simp: tcp_segment_def Let_def has_def)
  have d2: "duplex a1 i b1 j mac mac'" and sb1: "sockets b1 ! j = t1"
    using duplex_step [OF duplex_sym [OF d1] b1(3)] b1(2) duplex_sym by simp_all
  text \<open>Its acknowledgement.\<close>
  let ?f2 = "sock_frame (cfg b) t1 mac' TCP_ACK"
  define n2 where "n2 = tcp_arrival c i ?f2 a1"
  have f2: "?f2 = sock_frame (cfg b1) t1 mac' TCP_ACK" using tcp_step_cfg [OF b1(3)] by simp
  note p2 = peer_segment [OF duplex_sym [OF d2] f2 _ _ n2_def, unfolded sb1, OF refl refl]
  let ?a2 = "upd_sock i (\<lambda>s. s\<lparr>s_state := TCP_FIN_WAIT_2\<rparr>) n2"
  have "tcp_segment c i 34 20 n2 = Some ?a2"
    using p2 sa1 by (simp add: tcp_segment_def Let_def has_def)
  then have a2: "receive_frame c ?f2 a1 = Some ?a2" using p2(1) by simp
  let ?sa2 = "?sa1\<lparr>s_last_activity := c_ms c, s_state := TCP_FIN_WAIT_2\<rparr>"
  have st2: "tcp_step a1 i ?sa2 [] ?a2"
    using p2(4,5) sa1 by (simp add: tcp_step_def)
  have d3: "duplex ?a2 i b1 j mac mac'" and sa2: "sockets ?a2 ! i = ?sa2"
    using duplex_step [OF d2 st2] sa1 by simp_all
  text \<open>The second FIN and its acknowledgement.\<close>
  let ?f3 = "sock_frame (cfg b1) (sockets b1 ! j) mac' (TCP_FIN OR TCP_ACK)"
  let ?sb2 = "t1\<lparr>s_seq := s_seq t1 + 1, s_state := TCP_LAST_ACK\<rparr>"
  obtain b2 where b2: "socket_close (int j) b1 = Some (NET_OK, b2)" "tcp_step b1 j ?sb2 [?f3] b2"
    using close_established [OF duplex_sym [OF d3], of TCP_LAST_ACK] sb1 b1(2) by auto
  have d4: "duplex ?a2 i b2 j mac mac'" and sb2: "sockets b2 ! j = ?sb2"
    using duplex_step [OF duplex_sym [OF d3] b2(2)] sb1 duplex_sym by simp_all
  obtain a3 t3 where a3: "receive_frame c ?f3 ?a2 = Some a3"
      "t3 = (\<lambda>s. s\<lparr>s_ack := s_seq (sockets b1 ! j) + 1, s_state := TCP_TIME_WAIT\<rparr>)
              ((sockets ?a2 ! i)\<lparr>s_last_activity := c_ms c\<rparr>)"
      "tcp_step ?a2 i t3 [sock_frame (cfg ?a2) t3 mac TCP_ACK] a3"
    using segment_acked [OF duplex_sym [OF d3] refl refl refl, of "TCP_FIN OR TCP_ACK" c
        "\<lambda>s. s\<lparr>s_ack := s_seq (sockets b1 ! j) + 1, s_state := TCP_TIME_WAIT\<rparr>"] sa2
    by (auto simp: tcp_segment_def Let_def has_def simp del: upd_sock_simps)
  have d5: "duplex a3 i b2 j mac mac'" and sa3: "sockets a3 ! i = t3"
    using duplex_step [OF d4 a3(3)] a3(2) by simp_all
  text \<open>The last acknowledgement releases the socket.\<close>
  let ?f4 = "sock_frame (cfg ?a2) t3 mac TCP_ACK"
  define n4 where "n4 = tcp_arrival c j ?f4 b2"
  have f4: "?f4 = sock_frame (cfg a3) t3 mac TCP_ACK" using tcp_step_cfg [OF a3(3)] by simp
  note p4 = peer_segment [OF d5 f4 _ _ n4_def, unfolded sa3, OF refl refl]
  have j: "j < MAX_SOCKETS" "j < length (sockets n4)" using duplex_index [OF duplex_sym [OF d5]] by (simp_all add: n4_def)
  let ?b3 = "socket_cleanup j (upd_sock j (\<lambda>s. s\<lparr>s_state := TCP_CLOSED\<rparr>) n4)"
  have "tcp_segment c j 34 20 n4 = Some ?b3"
    using p4 sb2 j by (simp add: tcp_segment_def Let_def has_def reset_sock_def socket_close_def)
  then have b3: "receive_frame c ?f4 b2 = Some ?b3" using p4(1) by simp
  have "sockets ?b3 ! j = zero_sock" using j by (simp add: socket_cleanup_def Let_def)
  moreover have "orderly_close c (int i) (int j) (a, b) = Some (a3, ?b3)"
    using a1 b1 a2 b2 a3 b3 tcp_step_last [of _ _ _ "[]"]
    by (simp add: orderly_close_def tcp_step_def)
  ultimately show ?thesis
    using sa3 sa2 a3(2) duplex_index(3) [OF d]
    by (intro exI [of _ a3] exI [of _ ?b3]) (simp del: upd_sock_simps)
qed

section \<open>Properties of connections\<close>

text \<open>Two hosts of one network that know each other's address.\<close>

definition host :: "u32 \<Rightarrow> u8 \<Rightarrow> u32 \<Rightarrow> u8 \<Rightarrow> sock \<Rightarrow> net" where
  "host ip m peer pm s = net_static\<lparr>tcpip_initialized := True,
     cfg := \<lparr>ip_addr = ip, netmask = 0xFFFFFF00, gateway = 0, dns_server = 0,
             mac_addr = replicate 6 m, dhcp_enabled = False\<rparr>,
     arp_cache := \<lparr>a_ip = peer, a_mac = replicate 6 pm, a_timestamp = 0, a_valid = True\<rparr> # replicate 15 zero_arp,
     sockets := s # replicate 15 zero_sock\<rparr>"

definition tcp_sock :: "u16 \<Rightarrow> u32 \<Rightarrow> u16 \<Rightarrow> tcp_state \<Rightarrow> sock" where
  "tcp_sock lp rip rp st = zero_sock\<lparr>s_type := SOCK_STREAM, s_protocol := 6, s_state := st,
     s_local_port := lp, s_remote_ip := rip, s_remote_port := rp, s_active := True\<rparr>"

lemma host_reach:
  "peer AND 0xFFFFFF00 = ip AND 0xFFFFFF00 \<Longrightarrow> can_reach (host ip m peer pm s) peer (replicate 6 pm)"
  by (simp add: can_reach_def host_def next_hop_def arp_lookup_def)

lemma host_sock:
  "sockets (host ip m peer pm s) ! 0 = s" "length (sockets (host ip m peer pm s)) = MAX_SOCKETS"
  "s_active s \<Longrightarrow> s_type s = ty \<Longrightarrow> s_local_port s = p \<Longrightarrow> find_sock ty p (host ip m peer pm s) = Some 0"
  "ip_addr (cfg (host ip m peer pm s)) = ip" "length (rx_buf (host ip m peer pm s)) = ETH_FRAME_MAX"
  "net_send (host ip m peer pm s) log f = 0"
  by (simp_all add: host_def net_static_def find_sock_def upt_conv_Cons)

abbreviation clock0 :: clock where "clock0 \<equiv> \<lparr>c_ticks = 0, c_us = 0, c_ms = 0\<rparr>"
abbreviation "ip_a \<equiv> 0x0A000201 :: u32"
abbreviation "ip_b \<equiv> 0x0A000202 :: u32"

text \<open>
  C23. The TCP handshake: connecting to a listening socket, with the three segments delivered
  and the connection accepted, leaves both ends established and pointing at each other. Each
  end acknowledges one more than the sequence number the other end goes on to use.
\<close>

theorem tcp_handshake:
  assumes "ready_to_connect a i p b j port mac mac'"
  shows "\<exists>a' b'. handshake c (int i) port (int j) (a, b) = Some (a', b') \<and>
     s_state (sockets a' ! i) = TCP_ESTABLISHED \<and> s_state (sockets b' ! j) = TCP_ESTABLISHED \<and>
     s_remote_ip (sockets a' ! i) = ip_addr (cfg b) \<and> s_remote_port (sockets a' ! i) = port \<and>
     s_remote_ip (sockets b' ! j) = ip_addr (cfg a) \<and> s_remote_port (sockets b' ! j) = p \<and>
     s_ack (sockets b' ! j) = s_seq (sockets a' ! i) + 1 \<and>
     s_ack (sockets a' ! i) = s_seq (sockets b' ! j) + 1"
  using handshake_ok [OF assms] .

theorem tcp_handshake_witness:
  "\<exists>a' b'. handshake clock0 (int 0) 502 (int 0)
       (host ip_a 1 ip_b 2 (tcp_sock 50000 0 0 TCP_CLOSED), host ip_b 2 ip_a 1 (tcp_sock 502 0 0 TCP_LISTEN)) = Some (a', b') \<and>
     s_state (sockets a' ! 0) = TCP_ESTABLISHED \<and> s_state (sockets b' ! 0) = TCP_ESTABLISHED"
  using tcp_handshake [of "host ip_a 1 ip_b 2 (tcp_sock 50000 0 0 TCP_CLOSED)" 0 50000
      "host ip_b 2 ip_a 1 (tcp_sock 502 0 0 TCP_LISTEN)" 0 502 "replicate 6 2" "replicate 6 1" clock0]
    host_reach [of ip_b ip_a 1 2] host_reach [of ip_a ip_b 2 1]
  by (auto simp: ready_to_connect_def host_sock tcp_sock_def)

text \<open>
  C3. Over a wire that delivers every frame, an established connection is a queue of bytes: each
  chunk of 1 to 1460 bytes that is written is appended to the receive buffer of the peer when it
  fits in its 4096 bytes and is silently dropped when it does not, and each read takes bytes from
  the front, in any order of writes and reads. Nothing is lost when the bytes waiting and the bytes
  written are at most 4096 in all.
\<close>

theorem tcp_stream_delivered:
  assumes "sock_link a i b j mac" "\<forall>c d. Write c d \<in> set ops \<longrightarrow> 0 < length d \<and> length d \<le> 1460"
    and "stream_spec ops (rx_contents (sockets b ! j)) = (outs, q)"
  shows "\<exists>a' b'. stream_run (int i) (int j) ops (a, b) = Some (map (\<lambda>d. (int (length d), d)) outs, a', b') \<and>
    rx_contents (sockets b' ! j) = q \<and>
    (length (rx_contents (sockets b ! j)) + length (written ops) \<le> SOCKET_BUFFER_SIZE \<longrightarrow>
       concat outs @ q = rx_contents (sockets b ! j) @ written ops)"
  using stream_run_spec [OF assms] stream_spec_lossless [OF _ assms(3)] by blast

theorem tcp_stream_delivered_witness:
  "\<exists>a' b'. stream_run (int 0) (int 0) [Write clock0 [1, 2], Read clock0 1, Write clock0 [3], Read clock0 9]
       (host ip_a 1 ip_b 2 (tcp_sock 50000 ip_b 502 TCP_ESTABLISHED),
        host ip_b 2 ip_a 1 (tcp_sock 502 ip_a 50000 TCP_ESTABLISHED)) = Some ([(1, [1]), (2, [2, 3])], a', b')"
proof -
  let ?a = "host ip_a 1 ip_b 2 (tcp_sock 50000 ip_b 502 TCP_ESTABLISHED)"
  let ?b = "host ip_b 2 ip_a 1 (tcp_sock 502 ip_a 50000 TCP_ESTABLISHED)"
  let ?ops = "[Write clock0 [1, 2], Read clock0 1, Write clock0 [3], Read clock0 9]"
  have "sock_link ?a 0 ?b 0 (replicate 6 2)"
    using host_reach [of ip_b ip_a 1 2]
    by (simp add: sock_link_def host_sock tcp_sock_def zero_sock_def rx_inv_def)
  moreover have "rx_contents (sockets ?b ! 0) = []"
    by (simp add: host_sock tcp_sock_def zero_sock_def rx_contents_def)
  then have "stream_spec ?ops (rx_contents (sockets ?b ! 0)) = ([[1], [2, 3]], [])"
    by (simp add: push_bytes_def)
  moreover have "\<forall>c d. Write c d \<in> set ?ops \<longrightarrow> 0 < length d \<and> length d \<le> 1460" by auto
  ultimately show ?thesis
    using tcp_stream_delivered [of ?a 0 ?b 0 "replicate 6 2" ?ops "[[1], [2, 3]]" "[]"]
    by (fastforce simp del: stream_run.simps)
qed

lemma cleanup_other: "k \<noteq> i \<Longrightarrow> sockets (socket_cleanup k n) ! i = sockets n ! i"
  by (simp add: socket_cleanup_def Let_def)

lemma transmit_sockets: "transmit f n = Some (r, n') \<Longrightarrow> sockets n' = sockets n"
  by (auto simp: transmit_def split: if_splits)

lemma arp_request_sockets: "arp_request ip n = Some (r, n') \<Longrightarrow> sockets n' = sockets n"
  by (auto simp: arp_request_def dest: transmit_sockets)

lemma tcp_send_packet_sockets: "tcp_send_packet d dp sp sq ak fl x n = Some (r, n') \<Longrightarrow> sockets n' = sockets n"
  by (auto simp: tcp_send_packet_def Let_def count_tx_def split: if_splits option.splits
      dest!: transmit_sockets arp_request_sockets)

lemma tcp_reply_sockets: "tcp_reply i fl n = Some n' \<Longrightarrow> sockets n' = sockets n"
  by (auto simp: tcp_reply_def Let_def dest: tcp_send_packet_sockets)

lemma close_other:
  assumes "socket_close (int k) n = Some (r, n')" "k \<noteq> i"
  shows "sockets n' ! i = sockets n ! i"
  using assms
  by (auto simp: socket_close_def Let_def send_fin_def cleanup_other split: if_splits
      dest: tcp_reply_sockets)

lemma check_timeout_keeps:
  assumes "check_timeout now k n = Some n'" "k \<noteq> i \<or> s_timeout (sockets n ! i) = 0"
  shows "sockets n' ! i = sockets n ! i"
  using assms by (cases "k = i") (auto simp: check_timeout_def Let_def close_other split: if_splits)

lemma check_timeouts_keep:
  "check_timeouts_from now ks n = Some n' \<Longrightarrow> s_timeout (sockets n ! i) = 0 \<Longrightarrow>
   sockets n' ! i = sockets n ! i"
proof (induction ks arbitrary: n)
  case (Cons k ks)
  then obtain n1 where n1: "check_timeout now k n = Some n1" "check_timeouts_from now ks n1 = Some n'"
    by (auto split: bind_splits)
  with Cons check_timeout_keeps [OF n1(1), of i] show ?case by auto
qed simp

text \<open>
  The orderly close: both applications close, the four segments are delivered, and the
  passive side releases its socket. The active side is left in TIME_WAIT, and when no timeout
  was set before, no timeout check releases it, however late: the timer is only armed by a
  further segment.
\<close>

theorem orderly_close_time_wait:
  assumes "duplex a i b j mac mac'"
    and "s_state (sockets a ! i) = TCP_ESTABLISHED" "s_state (sockets b ! j) = TCP_ESTABLISHED"
    and "s_timeout (sockets a ! i) = 0"
  shows "\<exists>a' b'. orderly_close c (int i) (int j) (a, b) = Some (a', b') \<and>
           s_state (sockets a' ! i) = TCP_TIME_WAIT \<and> s_active (sockets a' ! i) \<and>
           sockets b' ! j = zero_sock \<and>
           (\<forall>c' a''. tcpip_check_timeouts c' a' = Some a'' \<longrightarrow> sockets a'' ! i = sockets a' ! i)"
proof -
  obtain a' b' where "orderly_close c (int i) (int j) (a, b) = Some (a', b')"
    "s_state (sockets a' ! i) = TCP_TIME_WAIT" "s_active (sockets a' ! i)"
    "s_timeout (sockets a' ! i) = 0" "sockets b' ! j = zero_sock"
    using orderly_close_ok [OF assms(1-3), of c] assms(4) by auto
  then show ?thesis
    using check_timeouts_keep unfolding tcpip_check_timeouts_def by blast
qed

theorem orderly_close_time_wait_witness:
  "\<exists>a' b'. orderly_close clock0 (int 0) (int 0)
       (host ip_a 1 ip_b 2 (tcp_sock 50000 ip_b 502 TCP_ESTABLISHED),
        host ip_b 2 ip_a 1 (tcp_sock 502 ip_a 50000 TCP_ESTABLISHED)) = Some (a', b') \<and>
     s_state (sockets a' ! 0) = TCP_TIME_WAIT \<and> sockets b' ! 0 = zero_sock"
proof -
  let ?a = "host ip_a 1 ip_b 2 (tcp_sock 50000 ip_b 502 TCP_ESTABLISHED)"
  let ?b = "host ip_b 2 ip_a 1 (tcp_sock 502 ip_a 50000 TCP_ESTABLISHED)"
  have "duplex ?a 0 ?b 0 (replicate 6 2) (replicate 6 1)"
    using host_reach [of ip_b ip_a 1 2] host_reach [of ip_a ip_b 2 1]
    by (simp add: duplex_def host_sock tcp_sock_def)
  moreover have "s_timeout (sockets ?a ! 0) = 0" "s_state (sockets ?a ! 0) = TCP_ESTABLISHED"
    "s_state (sockets ?b ! 0) = TCP_ESTABLISHED"
    by (simp_all add: host_sock tcp_sock_def zero_sock_def)
  ultimately show ?thesis
    using orderly_close_time_wait [of ?a 0 ?b 0 "replicate 6 2" "replicate 6 1" clock0] by blast
qed

section \<open>Hostile segments\<close>

text \<open>
  A segment from the peer of an established connection whose header length field says more
  than the segment holds.
\<close>

definition short_segment :: "u8 list \<Rightarrow> net_config \<Rightarrow> u32 \<Rightarrow> u16 \<Rightarrow> u16 \<Rightarrow> u8 list" where
  "short_segment mac cf dst dp sp = (tcp_frame mac cf dst dp sp 0 0 TCP_ACK [])[46 := 0xF0]"

lemma get_update [codec_simps]:
  "k \<noteq> i \<Longrightarrow> k \<noteq> i + 1 \<Longrightarrow> get16 (p[k := v]) i = get16 p i"
  "k \<noteq> i \<Longrightarrow> k \<noteq> i + 1 \<Longrightarrow> k \<noteq> i + 2 \<Longrightarrow> k \<noteq> i + 3 \<Longrightarrow> get32 (p[k := v]) i = get32 p i"
  by (simp_all add: get16_def get32_def)

text \<open>
  Such a segment makes the length of the data wrap around; when at least 40 bytes wait
  in the receive buffer the bounds check passes, and the copy runs out of the packet buffer.
\<close>

theorem short_segment_faults:
  assumes m: "length mac = 6" "length (mac_addr cf) = 6"
    and i: "find_sock SOCK_STREAM dp n = Some i" "i < length (sockets n)"
    and st: "s_state (sockets n ! i) = TCP_ESTABLISHED"
    and rx: "40 \<le> s_rx_len (sockets n ! i)" "s_rx_len (sockets n ! i) \<le> SOCKET_BUFFER_SIZE"
    and buf: "length (rx_buf n) = ETH_FRAME_MAX"
  shows "receive_frame c (short_segment mac cf (ip_addr (cfg n)) dp sp) n = None"
proof -
  define r where "r = drop 54 (rx_buf n)"
  define p where "p = tcp_frame mac cf (ip_addr (cfg n)) dp sp 0 0 TCP_ACK [] @ r"
  define f where "f = short_segment mac cf (ip_addr (cfg n)) dp sp"
  define n1 where "n1 = upd_stats (\<lambda>x. x\<lparr>rx_packets := rx_packets x + 1, rx_bytes := rx_bytes x + of_nat (length f)\<rparr>)
         (n\<lparr>rx_buf := f @ drop (length f) (rx_buf n)\<rparr>)"
  note fields = tcp_frame_fields [OF p_def m]
  have len: "length f = 54" using m by (simp add: f_def short_segment_def)
  then have b: "rx_buf n1 = p[46 := 0xF0]"
    using m by (simp add: n1_def r_def p_def f_def short_segment_def list_update_append)
  have lp: "length p = ETH_FRAME_MAX" using m buf by (simp add: p_def r_def)
  let ?n2 = "upd_sock i (\<lambda>s. s\<lparr>s_last_activity := c_ms c\<rparr>)
     (upd_stats (\<lambda>x. x\<lparr>tcp_connections := tcp_connections x + 1\<rparr>) n1)"
  have "receive_frame c f n = handle_ip c 54 n1"
    unfolding receive_frame_def Let_def n1_def [symmetric] using len fields(1)
    by (simp add: b codec_simps)
  also have "\<dots> = handle_tcp c 34 20 n1"
  proof -
    have "cfg n1 = cfg n" by (simp add: n1_def)
    then show ?thesis
      using fields by (simp add: handle_ip_def Let_def b codec_simps sub64_def)
  qed
  also have "\<dots> = tcp_segment c i 34 20 ?n2"
  proof -
    have "ntohs (get16 (rx_buf n1) 36) = dp" using fields by (simp add: b codec_simps)
    moreover have "find_sock SOCK_STREAM dp (upd_stats g n1) = Some i" for g
      using i by (simp add: find_sock_def n1_def)
    ultimately show ?thesis by (simp add: handle_tcp_def Let_def)
  qed
  also have "\<dots> = None"
  proof -
    have s: "sockets ?n2 ! i = (sockets n ! i)\<lparr>s_last_activity := c_ms c\<rparr>"
      using i by (simp add: n1_def)
    have hl: "unat (drop_bit 4 (0xF0 :: u8)) * 4 = 60" by simp
    have "sub64 20 60 = SIZE_MOD - 40" by (simp add: sub64_def)
    moreover have "add64 (s_rx_len (sockets n ! i)) (SIZE_MOD - 40) = s_rx_len (sockets n ! i) - 40"
      using rx by (simp add: add64_def mod_if)
    moreover have "rx_slice 94 (SIZE_MOD - 40) ?n2 = None"
      using lp by (simp add: rx_slice_def b)
    moreover have "rx_buf ?n2 ! 47 = TCP_ACK" "rx_buf ?n2 ! 46 = 0xF0"
      using fields lp by (simp_all add: b)
    ultimately show ?thesis
      using st rx hl s by (simp add: tcp_segment_def Let_def has_def)
  qed
  finally show ?thesis by (simp add: f_def)
qed

theorem short_segment_faults_witness:
  "receive_frame clock0 (short_segment (replicate 6 9) (cfg (host ip_a 1 ip_b 2 zero_sock)) ip_b 502 50000)
     (host ip_b 2 ip_a 1 ((tcp_sock 502 ip_a 50000 TCP_ESTABLISHED)\<lparr>s_rx_len := 100\<rparr>)) = None"
proof -
  let ?s = "(tcp_sock 502 ip_a 50000 TCP_ESTABLISHED)\<lparr>s_rx_len := 100\<rparr>"
  let ?n = "host ip_b 2 ip_a 1 ?s"
  have s: "s_active ?s" "s_type ?s = SOCK_STREAM" "s_local_port ?s = 502" "s_state ?s = TCP_ESTABLISHED"
    "s_rx_len ?s = 100"
    by (simp_all add: tcp_sock_def)
  have "find_sock SOCK_STREAM 502 ?n = Some 0" by (rule host_sock(3) [OF s(1-3)])
  moreover have "0 < length (sockets ?n)" "s_state (sockets ?n ! 0) = TCP_ESTABLISHED"
    "40 \<le> s_rx_len (sockets ?n ! 0)" "s_rx_len (sockets ?n ! 0) \<le> SOCKET_BUFFER_SIZE"
    "length (rx_buf ?n) = ETH_FRAME_MAX" "ip_addr (cfg ?n) = ip_b"
    "length (mac_addr (cfg (host ip_a 1 ip_b 2 zero_sock))) = 6"
    by (simp_all only: host_sock s) (simp_all add: host_def)
  ultimately show ?thesis
    using short_segment_faults [of "replicate 6 9" "cfg (host ip_a 1 ip_b 2 zero_sock)" 502 ?n 0 clock0 50000]
    by simp
qed

section \<open>Datagrams\<close>

text \<open>
  A datagram sent to a bound socket of a reachable host is appended to its receive buffer
  when it fits, with the sender's address; otherwise it is dropped.
\<close>

theorem udp_delivered:
  assumes r: "can_reach a (ip_addr (cfg b)) mac" and d: "length d \<le> 1472"
    and j: "find_sock SOCK_DGRAM dport b = Some j" "j < length (sockets b)" "rx_inv (sockets b ! j)"
  shows "\<exists>r a' b'. tcpip_send_udp (ip_addr (cfg b)) dport sport d a = Some (r, a') \<and>
           receive_frame c (last (sent a')) b = Some b' \<and>
           (if s_rx_len (sockets b ! j) + length d \<le> SOCKET_BUFFER_SIZE
            then rx_contents (sockets b' ! j) = rx_contents (sockets b ! j) @ d \<and>
                 s_remote_ip (sockets b' ! j) = ip_addr (cfg a) \<and> s_remote_port (sockets b' ! j) = sport
            else sockets b' = sockets b)"
proof -
  define f where "f = udp_frame mac (cfg a) (ip_addr (cfg b)) dport sport d"
  have m: "length mac = 6" "length (mac_addr (cfg a)) = 6" using r by (simp_all add: can_reach_def)
  have len: "length f = 42 + length d" using m by (simp add: f_def udp_frame_def)
  have send: "tcpip_send_udp (ip_addr (cfg b)) dport sport d a = Some (net_send a (sent a) f, after_send f a)"
    using r d len
    by (auto simp: can_reach_def tcpip_send_udp_def transmit_def Let_def after_send_def count_tx_def f_def)
  define b1 where "b1 = upd_stats (\<lambda>x. x\<lparr>rx_packets := rx_packets x + 1, rx_bytes := rx_bytes x + of_nat (length f)\<rparr>)
         (b\<lparr>rx_buf := f @ drop (length f) (rx_buf b)\<rparr>)"
  have p: "rx_buf b1 = udp_frame mac (cfg a) (ip_addr (cfg b)) dport sport d @ drop (length f) (rx_buf b)"
    by (simp add: b1_def f_def)
  note fields = udp_frame_fields [OF p m]
  have w: "unat (of_nat (28 + length d) :: u16) = 28 + length d" "unat (of_nat (8 + length d) - 8 :: u16) = length d"
  proof -
    show "unat (of_nat (28 + length d) :: u16) = 28 + length d"
      using d by (simp only: unat_of_nat) simp
    have "(of_nat (8 + length d) - 8 :: u16) = of_nat (length d)" by simp
    then show "unat (of_nat (8 + length d) - 8 :: u16) = length d"
      using d by (simp only: unat_of_nat) simp
  qed
  have "receive_frame c f b = handle_ip c (42 + length d) b1"
    unfolding receive_frame_def Let_def b1_def [symmetric] using len fields(1) by simp
  also have "\<dots> = handle_udp 34 (8 + length d) b1"
  proof -
    have "sub64 (28 + length d) 20 = 8 + length d" by (simp add: sub64_def)
    moreover have "cfg b1 = cfg b" by (simp add: b1_def)
    ultimately show ?thesis
      using w(1) by (simp add: handle_ip_def Let_def fields)
  qed
  finally have recv: "receive_frame c f b = handle_udp 34 (8 + length d) b1" .
  let ?b2 = "upd_stats (\<lambda>x. x\<lparr>udp_datagrams := udp_datagrams x + 1\<rparr>) b1"
  have fs: "find_sock SOCK_DGRAM dport ?b2 = Some j" and so: "sockets ?b2 = sockets b"
    using j(1) by (simp_all add: find_sock_def b1_def)
  have slice: "rx_slice 42 (length d) ?b2 = Some d"
  proof -
    have "42 + length d \<le> length (rx_buf b1)" using len by (simp add: b1_def)
    then show ?thesis using fields(10) by (simp add: rx_slice_def)
  qed
  have udp: "handle_udp 34 (8 + length d) b1 =
     Some (if s_rx_len (sockets b ! j) + length d \<le> SOCKET_BUFFER_SIZE
           then upd_sock j (\<lambda>s. (rx_append d s)\<lparr>s_remote_ip := ip_addr (cfg a), s_remote_port := sport\<rparr>) ?b2
           else ?b2)"
  proof -
    have "unat (ntohs (get16 (rx_buf b1) 38) - 8) = length d" using fields(9) w(2) by simp
    then show ?thesis
      using fs so slice fields by (simp add: handle_udp_def Let_def)
  qed
  show ?thesis
    using send recv udp rx_append_facts(2) [OF j(3), of d] so j(2)
    by (simp add: f_def [symmetric] rx_contents_def)
qed

theorem udp_delivered_witness:
  "\<exists>r a' b'. tcpip_send_udp ip_b 4000 4001 [1, 2] (host ip_a 1 ip_b 2 zero_sock) = Some (r, a') \<and>
     receive_frame clock0 (last (sent a')) (host ip_b 2 ip_a 1 (zero_sock\<lparr>s_type := SOCK_DGRAM, s_local_port := 4000,
       s_active := True\<rparr>)) = Some b' \<and> rx_contents (sockets b' ! 0) = [1, 2]"
proof -
  let ?s = "zero_sock\<lparr>s_type := SOCK_DGRAM, s_local_port := 4000, s_active := True\<rparr>"
  let ?a = "host ip_a 1 ip_b 2 zero_sock" and ?b = "host ip_b 2 ip_a 1 ?s"
  have "can_reach ?a (ip_addr (cfg ?b)) (replicate 6 2)"
    using host_reach [of ip_b ip_a 1 2] by (simp add: host_sock)
  moreover have "find_sock SOCK_DGRAM 4000 ?b = Some 0" by (rule host_sock(3)) simp_all
  moreover have "rx_inv ?s" "s_rx_len ?s = 0" "rx_contents ?s = []"
    by (simp_all add: rx_inv_def zero_sock_def rx_contents_def)
  ultimately show ?thesis
    using udp_delivered [of ?a ?b "replicate 6 2" "[1, 2]" 4000 0 4001 clock0]
    by (simp add: host_sock) blast
qed

end
