(* ===== verification/TcpSockets.thy ===== *)
theory TcpSockets
  imports TcpFlow
begin

text \<open>
  The socket table of the stack under any sequence of API calls and received frames: its
  shape, the bounds of the receive buffers, and the leak counter of the statistics.
\<close>

section \<open>The invariant\<close>

definition stream_count :: "net \<Rightarrow> nat" where
  "stream_count n = length (filter (\<lambda>s. s_active s \<and> s_type s = SOCK_STREAM) (sockets n))"

definition sock_ok :: "sock \<Rightarrow> bool" where
  "sock_ok s \<longleftrightarrow> rx_inv s \<and> (s_type s = SOCK_STREAM \<longrightarrow> s_active s)"

definition sockets_ok :: "net \<Rightarrow> bool" where
  "sockets_ok n \<longleftrightarrow> length (sockets n) = MAX_SOCKETS \<and> (\<forall>s\<in>set (sockets n). sock_ok s) \<and>
     tcp_sockets_created (nstats n) - tcp_sockets_closed (nstats n) = of_nat (stream_count n) \<and>
     tcp_sockets_leaked (nstats n) = of_nat (stream_count n) \<and> length (rx_buf n) = ETH_FRAME_MAX"

text \<open>What most steps keep: the sockets up to fields that do not matter, and the counters.\<close>

definition leak_stats :: "net \<Rightarrow> u64 \<times> u64 \<times> u64 \<times> nat" where
  "leak_stats n = (tcp_sockets_created (nstats n), tcp_sockets_closed (nstats n),
     tcp_sockets_leaked (nstats n), length (rx_buf n))"

lemma sockets_ok_cong:
  assumes "sockets_ok n" "sockets n' = sockets n" "leak_stats n' = leak_stats n"
  shows "sockets_ok n'"
  using assms by (simp add: sockets_ok_def stream_count_def leak_stats_def)

lemma length_filter_update_same:
  "i < length xs \<Longrightarrow> P y = P (xs ! i) \<Longrightarrow> length (filter P (xs[i := y])) = length (filter P xs)"
  by (induction xs arbitrary: i) (auto split: nat.splits)

lemma sockets_ok_upd:
  assumes "sockets_ok n" "i < MAX_SOCKETS"
    and "\<And>s. s_active (f s) = s_active s \<and> s_type (f s) = s_type s" "\<And>s. rx_inv s \<Longrightarrow> rx_inv (f s)"
  shows "sockets_ok (upd_sock i f n)"
proof -
  have i: "i < length (sockets n)" using assms(1,2) by (simp add: sockets_ok_def)
  then have "sock_ok (sockets n ! i)" using assms(1) by (simp add: sockets_ok_def)
  then have "sock_ok (f (sockets n ! i))" using assms(3,4) by (simp add: sock_ok_def)
  then have "\<forall>s\<in>set ((sockets n)[i := f (sockets n ! i)]). sock_ok s"
    using assms(1) set_update_subset_insert [of "sockets n" i] by (fastforce simp: sockets_ok_def)
  moreover have "stream_count (upd_sock i f n) = stream_count n"
    using i assms(3) by (simp add: stream_count_def length_filter_update_same)
  ultimately show ?thesis
    using assms(1) by (simp add: sockets_ok_def)
qed

lemma sockets_ok_stats:
  assumes "sockets_ok n"
    and "\<And>x. tcp_sockets_created (g x) = tcp_sockets_created x \<and>
            tcp_sockets_closed (g x) = tcp_sockets_closed x \<and> tcp_sockets_leaked (g x) = tcp_sockets_leaked x"
  shows "sockets_ok (upd_stats g n)"
  using assms by (simp add: sockets_ok_def stream_count_def)

text \<open>Sending frames.\<close>

lemma transmit_ok: "transmit f n = Some (r, n') \<Longrightarrow> sockets n' = sockets n \<and> leak_stats n' = leak_stats n"
  by (auto simp: transmit_def leak_stats_def split: if_splits)

lemma arp_request_ok:
  "arp_request ip n = Some (r, n') \<Longrightarrow> sockets n' = sockets n \<and> leak_stats n' = leak_stats n"
  unfolding arp_request_def by (drule transmit_ok) (simp add: leak_stats_def)

lemma send_ok:
  "tcp_send_packet d dp sp sq ak fl x n = Some (r, n') \<Longrightarrow> sockets n' = sockets n \<and> leak_stats n' = leak_stats n"
  "tcpip_send_udp d dp sp x n = Some (r, n') \<Longrightarrow> sockets n' = sockets n \<and> leak_stats n' = leak_stats n"
  "tcpip_ping d idn isq n = Some (r, n') \<Longrightarrow> sockets n' = sockets n \<and> leak_stats n' = leak_stats n"
  by (auto simp: tcp_send_packet_def tcpip_send_udp_def tcpip_ping_def Let_def count_tx_def leak_stats_def
      split: if_splits option.splits dest!: transmit_ok arp_request_ok)

lemma reply_ok: "tcp_reply i fl n = Some n' \<Longrightarrow> sockets_ok n \<Longrightarrow> sockets_ok n'"
  by (auto simp: tcp_reply_def Let_def dest!: send_ok intro: sockets_ok_cong)

text \<open>Creation and release.\<close>

lemma zero_sock_ok: "sock_ok zero_sock" "\<not> s_active zero_sock"
  by (simp_all add: sock_ok_def rx_inv_def zero_sock_def)

lemma count_update:
  assumes "i < length xs"
  shows "length (filter P (xs[i := y])) + (if P (xs ! i) then 1 else 0) = length (filter P xs) + (if P y then 1 else 0)"
  using assms
proof (induction xs arbitrary: i)
  case (Cons x xs)
  then show ?case using Cons.IH [of "i - 1"] by (cases i) auto
qed simp

lemma stream_count_stats [simp]: "stream_count (upd_stats g n) = stream_count n"
  by (simp add: stream_count_def)

lemma replace_sock:
  assumes n: "sockets_ok n" and i: "i < MAX_SOCKETS" and s: "sock_ok s"
  defines "n' \<equiv> upd_sock i (\<lambda>_. s) n"
  shows "length (sockets n') = MAX_SOCKETS \<and> (\<forall>s\<in>set (sockets n'). sock_ok s)"
    and "stream_count n' + (if s_type (sockets n ! i) = SOCK_STREAM then 1 else 0) =
         stream_count n + (if s_type s = SOCK_STREAM then 1 else 0)"
proof -
  have len: "i < length (sockets n)" using n i by (simp add: sockets_ok_def)
  then have "sock_ok (sockets n ! i)" using n by (simp add: sockets_ok_def)
  with s have "s_active (sockets n ! i) \<and> s_type (sockets n ! i) = SOCK_STREAM \<longleftrightarrow> s_type (sockets n ! i) = SOCK_STREAM"
    "s_active s \<and> s_type s = SOCK_STREAM \<longleftrightarrow> s_type s = SOCK_STREAM"
    by (auto simp: sock_ok_def)
  then show "stream_count n' + (if s_type (sockets n ! i) = SOCK_STREAM then 1 else 0) =
         stream_count n + (if s_type s = SOCK_STREAM then 1 else 0)"
    using count_update [OF len, of "\<lambda>s. s_active s \<and> s_type s = SOCK_STREAM" s]
    by (simp only: stream_count_def n'_def upd_sock_simps)
  show "length (sockets n') = MAX_SOCKETS \<and> (\<forall>s\<in>set (sockets n'). sock_ok s)"
    using n s set_update_subset_insert [of "sockets n" i s] by (fastforce simp: sockets_ok_def n'_def)
qed

lemma create_ok:
  assumes n: "sockets_ok n"
  shows "sockets_ok (snd (socket_create ty pr n))"
proof (cases "find (\<lambda>i. \<not> s_active (sockets n ! i)) [0..<MAX_SOCKETS]")
  case None
  with n show ?thesis by (simp add: socket_create_def)
next
  case (Some i)
  then have i: "i < MAX_SOCKETS" "\<not> s_active (sockets n ! i)" by (auto simp: find_Some_iff)
  define s where "s = zero_sock\<lparr>s_fd := i, s_type := ty, s_protocol := (if ty = SOCK_STREAM then 6 else 17),
                     s_state := TCP_CLOSED, s_active := True\<rparr>"
  define n' where "n' = upd_sock i (\<lambda>_. s) n"
  have s: "sock_ok s" "s_type s = ty" using zero_sock_ok by (simp_all add: s_def sock_ok_def rx_inv_def)
  have "sock_ok (sockets n ! i)" using n i by (simp add: sockets_ok_def)
  then have "s_type (sockets n ! i) \<noteq> SOCK_STREAM" using i(2) by (auto simp: sock_ok_def)
  then have c: "stream_count n' = stream_count n + (if ty = SOCK_STREAM then 1 else 0)"
    and l: "length (sockets n') = MAX_SOCKETS \<and> (\<forall>s\<in>set (sockets n'). sock_ok s)"
    using replace_sock [OF n i(1) s(1)] s(2) by (simp_all add: n'_def)
  have st: "nstats n' = nstats n" "rx_buf n' = rx_buf n" by (simp_all add: n'_def)
  have "snd (socket_create ty pr n) = (if ty = SOCK_STREAM
      then upd_stats (\<lambda>x. leak_update (x\<lparr>tcp_sockets_created := tcp_sockets_created x + 1\<rparr>)) n' else n')"
    using Some by (simp add: socket_create_def Let_def n'_def s_def)
  then show ?thesis
    using n c l st by (auto simp: sockets_ok_def leak_update_def algebra_simps)
qed

lemma cleanup_ok:
  assumes n: "sockets_ok n" and i: "i < MAX_SOCKETS"
  shows "sockets_ok (socket_cleanup i n)"
proof -
  define n' where "n' = upd_sock i (\<lambda>_. zero_sock) n"
  have z: "s_type zero_sock \<noteq> SOCK_STREAM" by (simp add: zero_sock_def)
  have c: "stream_count n = stream_count n' + (if s_type (sockets n ! i) = SOCK_STREAM then 1 else 0)"
    and l: "length (sockets n') = MAX_SOCKETS \<and> (\<forall>s\<in>set (sockets n'). sock_ok s)"
    using replace_sock [OF n i zero_sock_ok(1)] z by (simp_all add: n'_def)
  have st: "nstats n' = nstats n" "rx_buf n' = rx_buf n" by (simp_all add: n'_def)
  have "socket_cleanup i n = (if s_type (sockets n ! i) = SOCK_STREAM
      then upd_stats (\<lambda>x. leak_update (x\<lparr>tcp_sockets_closed := tcp_sockets_closed x + 1\<rparr>)) n' else n')"
    by (simp add: socket_cleanup_def Let_def n'_def)
  then show ?thesis
    using n c l st by (auto simp: sockets_ok_def leak_update_def algebra_simps)
qed

lemma upd_plain:
  assumes "sockets_ok n" "i < MAX_SOCKETS"
    and "\<And>s. s_active (f s) = s_active s \<and> s_type (f s) = s_type s \<and> s_rx_buffer (f s) = s_rx_buffer s \<and> s_rx_len (f s) = s_rx_len s"
  shows "sockets_ok (upd_sock i f n)"
  by (rule sockets_ok_upd [OF assms(1,2)]) (use assms(3) in \<open>simp_all add: rx_inv_def\<close>)

lemma close_ok:
  assumes "socket_close fd n = Some (r, n')" "sockets_ok n"
  shows "sockets_ok n'"
proof (cases "fd < 0 \<or> int MAX_SOCKETS \<le> fd")
  case True
  with assms show ?thesis by (auto simp: socket_close_def)
next
  case False
  then have i: "nat fd < MAX_SOCKETS" by linarith
  have fin: "sockets_ok m'" if "send_fin (nat fd) st' n = Some m'" for st' m'
  proof -
    show ?thesis
    proof (cases "tcp_reply (nat fd) (TCP_FIN OR TCP_ACK) n")
      case (Some m)
      then have "m' = upd_sock (nat fd) (\<lambda>s. s\<lparr>s_seq := s_seq s + 1, s_state := st'\<rparr>) m"
        using that by (simp add: send_fin_def)
      with upd_plain [OF reply_ok [OF Some assms(2)] i] show ?thesis by simp
    qed (use that in \<open>simp add: send_fin_def\<close>)
  qed
  consider st' where "map_option (Pair NET_OK) (send_fin (nat fd) st' n) = Some (r, n')"
    | "n' = socket_cleanup (nat fd) n"
    using assms(1) False unfolding socket_close_def Let_def by (auto split: if_splits)
  then show ?thesis
    using fin cleanup_ok [OF assms(2) i] by cases auto
qed


section \<open>Handlers\<close>

text \<open>Invariant-keeping continuations, so that each handler is one application of rules.\<close>

definition keeps :: "net option \<Rightarrow> bool" where
  "keeps r \<longleftrightarrow> (\<forall>n'. r = Some n' \<longrightarrow> sockets_ok n')"

lemma keeps_Some: "sockets_ok n \<Longrightarrow> keeps (Some n)"
  by (simp add: keeps_def)

lemma keeps_None: "keeps None"
  by (simp add: keeps_def)

lemma keeps_reply: "sockets_ok n \<Longrightarrow> keeps (tcp_reply i fl n)"
  using reply_ok by (auto simp: keeps_def)

lemma keeps_if: "(b \<Longrightarrow> keeps x) \<Longrightarrow> (\<not> b \<Longrightarrow> keeps y) \<Longrightarrow> keeps (if b then x else y)"
  by simp

lemma keeps_same_sockets:
  "(\<And>n'. r = Some n' \<Longrightarrow> sockets n' = sockets n \<and> leak_stats n' = leak_stats n) \<Longrightarrow> sockets_ok n \<Longrightarrow> keeps r"
  using sockets_ok_cong by (auto simp: keeps_def)

lemma keeps_reset: "sockets_ok n \<Longrightarrow> i < MAX_SOCKETS \<Longrightarrow> keeps (reset_sock i n)"
  unfolding keeps_def reset_sock_def map_option_eq_Some
  by (auto simp: rx_inv_def dest!: close_ok intro: sockets_ok_upd)

lemma sockets_ok_rng: "sockets_ok n \<Longrightarrow> sockets_ok (n\<lparr>rng_state := r\<rparr>)"
  by (simp add: sockets_ok_def stream_count_def)

text \<open>Appending keeps the buffer bounds only when the data fits, so the socket is named.\<close>

lemma append_ok:
  assumes "sockets_ok n" "i < MAX_SOCKETS" "s_rx_len (sockets n ! i) + length d \<le> SOCKET_BUFFER_SIZE"
    and "\<And>s. s_active (g s) = s_active s \<and> s_type (g s) = s_type s \<and> s_rx_buffer (g s) = s_rx_buffer s \<and> s_rx_len (g s) = s_rx_len s"
  shows "sockets_ok (upd_sock i (\<lambda>s. g (rx_append d s)) n)"
proof -
  let ?s = "sockets n ! i"
  have "i < length (sockets n)" using assms(1,2) by (simp add: sockets_ok_def)
  then have ok: "sock_ok ?s" using assms(1) by (simp add: sockets_ok_def)
  have "sock_ok (g (rx_append d ?s))"
  proof -
    have "rx_inv (rx_append d ?s)" using rx_append_facts(1) [of ?s d] ok assms(3) by (simp add: sock_ok_def)
    then show ?thesis using ok assms(4) by (simp add: sock_ok_def rx_inv_def rx_append_def)
  qed
  then have r: "sockets_ok (upd_sock i (\<lambda>_. g (rx_append d ?s)) n)"
    using replace_sock [OF assms(1,2), of "g (rx_append d ?s)"] assms(1,4)
    by (auto simp: sockets_ok_def rx_append_def)
  then show ?thesis by (simp add: upd_sock_def)
qed

lemma isn_eq: "tcp_generate_isn c n = (fst (random_u32 c n), n\<lparr>rng_state := fst (random_u32 c n)\<rparr>)"
  by (simp add: tcp_generate_isn_def random_u32_def Let_def)

lemma tcp_segment_keeps:
  assumes n: "sockets_ok n" and i: "i < MAX_SOCKETS"
  shows "keeps (tcp_segment c i off len n)"
proof -
  note rules = keeps_if keeps_reply keeps_reset keeps_Some upd_plain n i
  show ?thesis
  proof (cases "s_state (sockets n ! i)")
    case TCP_LISTEN
    show ?thesis
      unfolding tcp_segment_def Let_def TCP_LISTEN isn_eq
      by (simp, intro conjI impI keeps_reply keeps_Some upd_plain sockets_ok_rng n i; simp)
  next
    case TCP_ESTABLISHED
    have data: "keeps (rx_slice o' l n \<bind> (\<lambda>d. Some (upd_sock i (\<lambda>s. (rx_append d s)\<lparr>s_ack := a\<rparr>) n)))"
      if "add64 (s_rx_len (sockets n ! i)) l \<le> SOCKET_BUFFER_SIZE" for o' l a
    proof (cases "rx_slice o' l n")
      case (Some d)
      then have l: "l \<le> ETH_FRAME_MAX" "length d = l"
        using n by (auto simp: rx_slice_def sockets_ok_def split: if_splits)
      have "sock_ok (sockets n ! i)" using n i by (simp add: sockets_ok_def)
      then have "s_rx_len (sockets n ! i) + l \<le> SOCKET_BUFFER_SIZE"
        using that l by (simp add: sock_ok_def rx_inv_def add64_exact)
      then have "sockets_ok (upd_sock i (\<lambda>s. (rx_append d s)\<lparr>s_ack := a\<rparr>) n)"
        using append_ok [OF n i, of d "\<lambda>s. s\<lparr>s_ack := a\<rparr>"] l by simp
      with Some show ?thesis by (simp add: keeps_Some)
    qed (simp add: keeps_None)
    show ?thesis
      unfolding tcp_segment_def Let_def TCP_ESTABLISHED
      by (simp, intro conjI impI keeps_reply keeps_Some keeps_reset upd_plain data n i; simp)
  qed (unfold tcp_segment_def Let_def, simp_all, (intro conjI impI keeps_reply keeps_Some keeps_reset upd_plain n i; simp)+)
qed

lemma keeps_same:
  assumes "sockets_ok n" "sockets n' = sockets n" "leak_stats n' = leak_stats n"
  shows "keeps (Some n')"
  using sockets_ok_cong [OF assms] by (rule keeps_Some)

lemma keeps_map_stats:
  assumes "\<And>r n'. x = Some (r, n') \<Longrightarrow> sockets n' = sockets n \<and> leak_stats n' = leak_stats n"
    and "sockets_ok n" and "\<And>m. leak_stats (upd_stats g m) = leak_stats m"
  shows "keeps (map_option (\<lambda>(_, n'). upd_stats g n') x)"
proof (cases x)
  case (Some p)
  obtain r m where p: "p = (r, m)" by (cases p)
  with Some assms(1) have m: "sockets m = sockets n" "leak_stats m = leak_stats n" by auto
  have "keeps (Some (upd_stats g m))"
    by (rule keeps_same [OF assms(2)]) (simp_all add: m assms(3))
  with Some p show ?thesis by simp
qed (simp add: keeps_None)

lemma handle_arp_keeps:
  assumes n: "sockets_ok n"
  shows "keeps (handle_arp len n)"
proof -
  have a: "sockets_ok (arp_add ip mac n)" for ip mac
    using n by (rule sockets_ok_cong) (simp_all add: arp_add_def leak_stats_def)
  show ?thesis
    unfolding handle_arp_def Let_def
    by (intro keeps_if keeps_Some n a keeps_map_stats [OF transmit_ok a]) (simp_all add: leak_stats_def)
qed

lemma handle_icmp_keeps:
  assumes n: "sockets_ok n"
  shows "keeps (handle_icmp off len n)"
proof -
  let ?n1 = "upd_stats (\<lambda>x. x\<lparr>icmp_echo_req := icmp_echo_req x + 1\<rparr>) n"
  have n1: "sockets_ok ?n1" by (rule sockets_ok_stats [OF n]) simp
  have a: "keeps (map_option snd (arp_request ip ?n1))" for ip
    by (rule keeps_same_sockets [OF _ n1]) (auto dest: arp_request_ok)
  have t: "keeps (Some (upd_stats (\<lambda>x. x\<lparr>icmp_echo_reply := icmp_echo_reply x + 1\<rparr>) m))"
    if "transmit f ?n1 = Some (r, m)" for f r m
    using transmit_ok [OF that] by (intro keeps_same [OF n1]) (simp_all add: leak_stats_def)
  show ?thesis
    unfolding handle_icmp_def Let_def
    by (intro keeps_if keeps_Some n)
      (auto split: option.split bind_split intro: a t keeps_None)
qed

lemma handle_udp_keeps:
  assumes n: "sockets_ok n"
  shows "keeps (handle_udp off len n)"
proof -
  let ?n1 = "upd_stats (\<lambda>x. x\<lparr>udp_datagrams := udp_datagrams x + 1\<rparr>) n"
  have n1: "sockets_ok ?n1" by (rule sockets_ok_stats [OF n]) simp
  have u: "keeps (rx_slice o' l ?n1 \<bind> (\<lambda>d. Some (upd_sock i (\<lambda>s. (rx_append d s)
             \<lparr>s_remote_ip := a, s_remote_port := p\<rparr>) ?n1)))"
    if "find_sock SOCK_DGRAM port ?n1 = Some i" "s_rx_len (sockets ?n1 ! i) + l \<le> SOCKET_BUFFER_SIZE"
    for o' l i a p port
  proof (cases "rx_slice o' l ?n1")
    case (Some d)
    then have "length d = l" by (auto simp: rx_slice_def split: if_splits)
    with append_ok [OF n1, of i d "\<lambda>s. s\<lparr>s_remote_ip := a, s_remote_port := p\<rparr>"] that find_sock_Some
    have "sockets_ok (upd_sock i (\<lambda>s. (rx_append d s)\<lparr>s_remote_ip := a, s_remote_port := p\<rparr>) ?n1)"
      by fastforce
    with Some show ?thesis by (simp add: keeps_Some)
  qed (simp add: keeps_None)
  show ?thesis
    unfolding handle_udp_def Let_def
    by (intro keeps_if keeps_Some n) (simp only: split: option.split, intro conjI allI impI keeps_if keeps_Some n1 u; assumption)
qed

lemma handle_tcp_keeps:
  assumes n: "sockets_ok n"
  shows "keeps (handle_tcp c off len n)"
proof -
  let ?n1 = "upd_stats (\<lambda>x. x\<lparr>tcp_connections := tcp_connections x + 1\<rparr>) n"
  have n1: "sockets_ok ?n1" by (rule sockets_ok_stats [OF n]) simp
  have s: "keeps (tcp_segment c i off len (upd_sock i (\<lambda>s. s\<lparr>s_last_activity := c_ms c\<rparr>) ?n1))"
    if "find_sock SOCK_STREAM port ?n1 = Some i" for i port
    using find_sock_Some [OF that] by (intro tcp_segment_keeps upd_plain n1) auto
  show ?thesis
    unfolding handle_tcp_def Let_def
    by (intro keeps_if keeps_Some n) (simp only: split: option.split, intro conjI allI impI keeps_Some n1 s; assumption)
qed

lemma handle_ip_keeps: "sockets_ok n \<Longrightarrow> keeps (handle_ip c len n)"
  unfolding handle_ip_def Let_def
  by (intro keeps_if keeps_Some handle_icmp_keeps handle_udp_keeps handle_tcp_keeps)

lemma receive_frame_keeps:
  assumes n: "sockets_ok n" and f: "length f \<le> ETH_FRAME_MAX"
  shows "keeps (receive_frame c f n)"
proof -
  have "length (f @ drop (length f) (rx_buf n)) = ETH_FRAME_MAX"
    using n f by (simp add: sockets_ok_def)
  then have "sockets_ok (upd_stats (\<lambda>x. x\<lparr>rx_packets := rx_packets x + 1, rx_bytes := rx_bytes x + of_nat (length f)\<rparr>)
                 (n\<lparr>rx_buf := f @ drop (length f) (rx_buf n)\<rparr>))"
    using n by (intro sockets_ok_stats) (simp_all add: sockets_ok_def stream_count_def)
  then show ?thesis
    unfolding receive_frame_def Let_def
    by (intro keeps_if keeps_Some handle_arp_keeps handle_ip_keeps)
qed


text \<open>Timeouts, the socket API, and sequences of calls.\<close>

lemma check_timeouts_keep_ok: "sockets_ok n \<Longrightarrow> keeps (check_timeouts_from now ks n)"
proof (induction ks arbitrary: n)
  case Nil
  then show ?case by (simp add: keeps_Some)
next
  case (Cons k ks)
  have "sockets_ok n1" if "check_timeout now k n = Some n1" for n1
    using that Cons.prems close_ok by (auto simp: check_timeout_def Let_def split: if_splits)
  with Cons.IH show ?case
    by (auto simp: keeps_None split: bind_split)
qed

datatype net_op =
    Create int int
  | Bind int u32 u16
  | Listen int int
  | Connect clock int u32 u16
  | Accept int
  | Send clock int "u8 list"
  | Recv clock int nat
  | Close int
  | Udp u32 u16 u16 "u8 list"
  | Ping u32 u16 u16
  | Frame clock "u8 list"
  | Timeouts clock

fun net_exec :: "net_op \<Rightarrow> net \<Rightarrow> net option" where
  "net_exec (Create ty pr) n = Some (snd (socket_create ty pr n))"
| "net_exec (Bind fd ip port) n = Some (snd (socket_bind fd ip port n))"
| "net_exec (Listen fd bl) n = Some (snd (socket_listen fd bl n))"
| "net_exec (Connect c fd ip port) n = map_option snd (socket_connect c fd ip port n)"
| "net_exec (Accept fd) n = Some (snd (snd (socket_accept fd n)))"
| "net_exec (Send c fd d) n = map_option snd (socket_send c fd d n)"
| "net_exec (Recv c fd len) n = Some (snd (snd (socket_recv c fd len n)))"
| "net_exec (Close fd) n = map_option snd (socket_close fd n)"
| "net_exec (Udp ip dp sp d) n = map_option snd (tcpip_send_udp ip dp sp d n)"
| "net_exec (Ping ip idn sq) n = map_option snd (tcpip_ping ip idn sq n)"
| "net_exec (Frame c f) n = receive_frame c f n"
| "net_exec (Timeouts c) n = tcpip_check_timeouts c n"

text \<open>Frames are what a driver can put in the receive buffer.\<close>

fun net_op_ok :: "net_op \<Rightarrow> bool" where
  "net_op_ok (Frame c f) \<longleftrightarrow> length f \<le> ETH_FRAME_MAX"
| "net_op_ok _ \<longleftrightarrow> True"

inductive net_reach :: "net \<Rightarrow> bool" where
  init: "tcpip_init (Some drv) net_static = (NET_OK, n) \<Longrightarrow> net_reach n"
| step: "net_reach n \<Longrightarrow> net_op_ok op \<Longrightarrow> net_exec op n = Some n' \<Longrightarrow> net_reach n'"

lemma keeps_map_snd:
  assumes "\<And>r n'. x = Some (r, n') \<Longrightarrow> sockets n' = sockets n \<and> leak_stats n' = leak_stats n" "sockets_ok n"
  shows "keeps (map_option snd x)"
  by (rule keeps_same_sockets [OF _ assms(2)]) (use assms(1) in auto)

lemma fd_range: "\<not> bad_fd fd n \<Longrightarrow> nat fd < MAX_SOCKETS"
  by (auto simp: bad_fd_def)

lemma connect_keeps:
  assumes n: "sockets_ok n"
  shows "keeps (map_option snd (socket_connect c fd ip port n))"
proof (cases "bad_fd fd n")
  case True
  with n show ?thesis by (simp add: socket_connect_def keeps_Some)
next
  case False
  note i = fd_range [OF False]
  define n1 where "n1 = upd_sock (nat fd) (\<lambda>s. s\<lparr>s_remote_ip := ip, s_remote_port := port\<rparr>) (bind_ephemeral (nat fd) n)"
  have "sockets_ok (n\<lparr>next_ephemeral_port := x\<rparr>)" for x
    using n by (simp add: sockets_ok_def stream_count_def)
  then have "sockets_ok (bind_ephemeral (nat fd) n)"
    using upd_plain [OF n i, of "\<lambda>s. s\<lparr>s_local_port := next_ephemeral_port n\<rparr>"] n
    by (auto simp: bind_ephemeral_def Let_def sockets_ok_def stream_count_def)
  then have n1: "sockets_ok n1" unfolding n1_def by (rule upd_plain [OF _ i]) simp
  define n3 where "n3 = upd_sock (nat fd) (\<lambda>s. s\<lparr>s_seq := fst (random_u32 c n1), s_state := TCP_SYN_SENT\<rparr>)
      (n1\<lparr>rng_state := fst (random_u32 c n1)\<rparr>)"
  have n3: "sockets_ok n3" unfolding n3_def by (rule upd_plain [OF sockets_ok_rng [OF n1] i]) simp
  have "keeps (map_option snd (map_option (\<lambda>(_, n4). (NET_OK, n4)) x))"
    if "\<And>r n'. x = Some (r, n') \<Longrightarrow> sockets n' = sockets n3 \<and> leak_stats n' = leak_stats n3"
    for x :: "(int \<times> net) option"
    by (rule keeps_map_snd [OF _ n3]) (use that in auto)
  then show ?thesis
    using False n1 send_ok(1)
    unfolding socket_connect_def Let_def n1_def [symmetric] isn_eq
    by (simp add: keeps_Some n3_def)
qed

lemma send_keeps:
  assumes n: "sockets_ok n"
  shows "keeps (map_option snd (socket_send c fd d n))"
proof (cases "bad_fd fd n")
  case True
  with n show ?thesis by (simp add: socket_send_def keeps_Some)
next
  case False
  note i = fd_range [OF False]
  have u: "keeps (map_option snd (tcpip_send_udp a b e d n))" for a b e
    by (rule keeps_map_snd [OF send_ok(2) n])
  have t: "sockets_ok (upd_sock (nat fd) (\<lambda>s. s\<lparr>s_seq := s_seq s + of_nat (length d), s_last_activity := c_ms c\<rparr>) n1) \<and> sockets_ok n1"
    if "tcp_send_packet a b e sq ak fl d n = Some (r, n1)" for a b e sq ak fl r n1
  proof -
    have n1: "sockets_ok n1" using sockets_ok_cong [OF n] send_ok(1) [OF that] by blast
    with upd_plain [OF n1 i] show ?thesis by simp
  qed
  show ?thesis
    using False u t n
    by (auto simp: socket_send_def Let_def keeps_Some keeps_None split: bind_split)
qed

lemma recv_keeps:
  assumes n: "sockets_ok n"
  shows "sockets_ok (snd (snd (socket_recv c fd len n)))"
proof (cases "bad_fd fd n \<or> s_rx_len (sockets n ! nat fd) = 0")
  case True
  with n show ?thesis by (auto simp: socket_recv_def)
next
  case False
  then have i: "nat fd < MAX_SOCKETS" using fd_range by blast
  obtain d s where t: "rx_take len (sockets n ! nat fd) = (d, s)" by fastforce
  have "nat fd < length (sockets n)" using n i by (simp add: sockets_ok_def)
  then have ok: "sock_ok (sockets n ! nat fd)" using n by (simp add: sockets_ok_def)
  then have "rx_inv s" using rx_take_facts(3) [of "sockets n ! nat fd" len] t by (simp add: sock_ok_def)
  moreover have k: "s_active s = s_active (sockets n ! nat fd)" "s_type s = s_type (sockets n ! nat fd)"
    using t by (auto simp: rx_take_def Let_def)
  ultimately have s: "sock_ok (s\<lparr>s_last_activity := c_ms c\<rparr>)"
    using ok by (simp add: sock_ok_def rx_inv_def)
  have "sockets_ok (upd_sock (nat fd) (\<lambda>_. s\<lparr>s_last_activity := c_ms c\<rparr>) n)"
    using replace_sock [OF n i s] n k by (simp add: sockets_ok_def)
  with False t show ?thesis by (simp add: socket_recv_def)
qed

lemma net_exec_ok:
  assumes n: "sockets_ok n" and "net_op_ok op" "net_exec op n = Some n'"
  shows "sockets_ok n'"
proof -
  have "keeps (net_exec op n)"
  proof (cases op)
    case (Bind fd ip port)
    then show ?thesis using n fd_range by (auto simp: socket_bind_def intro!: keeps_Some upd_plain)
  next
    case (Listen fd bl)
    then show ?thesis using n fd_range by (auto simp: socket_listen_def intro!: keeps_Some upd_plain)
  next
    case (Accept fd)
    then show ?thesis using n fd_range by (auto simp: socket_accept_def intro!: keeps_Some upd_plain)
  next
    case (Close fd)
    then show ?thesis using n close_ok by (auto simp: keeps_def)
  next
    case (Udp ip dp sp d)
    then show ?thesis using keeps_map_snd [OF send_ok(2) n] by simp
  next
    case (Ping ip idn sq)
    then show ?thesis using keeps_map_snd [OF send_ok(3) n] by simp
  qed (use n assms(2) in \<open>auto simp: tcpip_check_timeouts_def intro: keeps_Some create_ok
        connect_keeps send_keeps recv_keeps receive_frame_keeps check_timeouts_keep_ok\<close>)
  with assms(3) show ?thesis by (simp add: keeps_def)
qed

section \<open>Properties\<close>

lemma init_ok: "tcpip_init (Some drv) net_static = (NET_OK, n) \<Longrightarrow> sockets_ok n"
  using zero_sock_ok
  by (auto simp: tcpip_init_def net_static_def sockets_ok_def stream_count_def zero_stats_def
      split: prod.splits)

lemma net_reach_ok: "net_reach n \<Longrightarrow> sockets_ok n"
  by (induction rule: net_reach.induct) (auto intro: init_ok net_exec_ok)

text \<open>
  C4. After any sequence of API calls, received frames and timeout checks that the stack
  survives, every receive buffer is within bounds and the leak counter of the statistics is
  the number of TCP sockets in use.
\<close>

theorem leak_counter_exact:
  assumes "net_reach n"
  shows "tcp_sockets_leaked (nstats n) = of_nat (stream_count n) \<and>
         (\<forall>s\<in>set (sockets n). s_rx_len s \<le> SOCKET_BUFFER_SIZE \<and> length (s_rx_buffer s) = SOCKET_BUFFER_SIZE)"
  using net_reach_ok [OF assms] by (simp add: sockets_ok_def sock_ok_def rx_inv_def)

theorem leak_counter_exact_witness:
  "tcp_sockets_leaked (nstats (snd (socket_create SOCK_STREAM 0
     (snd (tcpip_init (Some (\<lambda>_ _. 0, replicate 6 1)) net_static))))) =
   of_nat (stream_count (snd (socket_create SOCK_STREAM 0
     (snd (tcpip_init (Some (\<lambda>_ _. 0, replicate 6 1)) net_static)))))"
proof -
  let ?n = "snd (tcpip_init (Some (\<lambda>_ _. 0, replicate 6 1)) net_static)"
  have "net_reach ?n"
    by (rule net_reach.init [of "(\<lambda>_ _. 0, replicate 6 1)"]) (simp add: tcpip_init_def net_static_def)
  then have "net_reach (snd (socket_create SOCK_STREAM 0 ?n))"
    by (rule net_reach.step [of _ "Create SOCK_STREAM 0"]) simp_all
  from leak_counter_exact [OF this] show ?thesis by blast
qed

end
