(* ===== verification/ModbusPdu.thy ===== *)
theory ModbusPdu
  imports NetCodec
begin

text \<open>
  The message level of \<^verbatim>\<open>src/kernel/net/modbus.c\<close>: big-endian conversion, the CRC of the
  serial variant, the encoders of requests and exceptions, the decoders of responses and the
  MBAP header. A PDU under construction is the list of the bytes written; a function that
  returns a length or a negative code returns \<open>Inr\<close> the bytes or \<open>Inl\<close> the code.
\<close>

section \<open>Constants\<close>

abbreviation (input) MODBUS_MAX_PDU_SIZE :: nat where "MODBUS_MAX_PDU_SIZE \<equiv> 253"
abbreviation (input) MODBUS_MAX_ADU_SIZE :: nat where "MODBUS_MAX_ADU_SIZE \<equiv> 260"
abbreviation (input) MODBUS_MBAP_SIZE :: nat where "MODBUS_MBAP_SIZE \<equiv> 7"
abbreviation (input) MODBUS_MAX_COILS :: nat where "MODBUS_MAX_COILS \<equiv> 2000"
abbreviation (input) MODBUS_MAX_REGISTERS :: nat where "MODBUS_MAX_REGISTERS \<equiv> 125"
abbreviation (input) MODBUS_MAX_WRITE_COILS :: nat where "MODBUS_MAX_WRITE_COILS \<equiv> 1968"
abbreviation (input) MODBUS_MAX_WRITE_REGS :: nat where "MODBUS_MAX_WRITE_REGS \<equiv> 123"

abbreviation (input) "FC_READ_COILS \<equiv> 0x01 :: u8"
abbreviation (input) "FC_READ_DISCRETE_INPUTS \<equiv> 0x02 :: u8"
abbreviation (input) "FC_READ_HOLDING_REGS \<equiv> 0x03 :: u8"
abbreviation (input) "FC_READ_INPUT_REGS \<equiv> 0x04 :: u8"
abbreviation (input) "FC_WRITE_SINGLE_COIL \<equiv> 0x05 :: u8"
abbreviation (input) "FC_WRITE_SINGLE_REG \<equiv> 0x06 :: u8"
abbreviation (input) "FC_WRITE_MULTIPLE_COILS \<equiv> 0x0F :: u8"
abbreviation (input) "FC_WRITE_MULTIPLE_REGS \<equiv> 0x10 :: u8"
abbreviation (input) "EXCEPTION_OFFSET \<equiv> 0x80 :: u8"

abbreviation (input) "EXC_ILLEGAL_FUNCTION \<equiv> 0x01 :: u8"
abbreviation (input) "EXC_ILLEGAL_DATA_ADDRESS \<equiv> 0x02 :: u8"
abbreviation (input) "EXC_ILLEGAL_DATA_VALUE \<equiv> 0x03 :: u8"

abbreviation (input) "MODBUS_OK \<equiv> 0 :: int"
abbreviation (input) "MODBUS_ERROR \<equiv> - 1 :: int"
abbreviation (input) "MODBUS_TIMEOUT \<equiv> - 2 :: int"
abbreviation (input) "MODBUS_INVALID_ARG \<equiv> - 3 :: int"
abbreviation (input) "MODBUS_NOT_CONNECTED \<equiv> - 4 :: int"
abbreviation (input) "MODBUS_CONN_FAILED \<equiv> - 5 :: int"
abbreviation (input) "MODBUS_EXCEPTION \<equiv> - 6 :: int"
abbreviation (input) "MODBUS_INVALID_RESP \<equiv> - 8 :: int"

section \<open>Byte order and CRC\<close>

definition modbus_htons :: "u16 \<Rightarrow> u16" where
  "modbus_htons v = push_bit 8 (v AND 0xFF) OR (drop_bit 8 v AND 0xFF)"

definition modbus_ntohs :: "u16 \<Rightarrow> u16" where
  "modbus_ntohs v = modbus_htons v"

definition crc_shift :: "u16 \<Rightarrow> u16" where
  "crc_shift crc = (if crc AND 1 \<noteq> 0 then drop_bit 1 crc XOR 0xA001 else drop_bit 1 crc)"

definition crc_byte :: "u8 \<Rightarrow> u16 \<Rightarrow> u16" where
  "crc_byte b crc = (crc_shift ^^ 8) (crc XOR ucast b)"

definition modbus_calc_crc :: "u8 list \<Rightarrow> u16" where
  "modbus_calc_crc data = fold crc_byte data 0xFFFF"

section \<open>Encoding requests\<close>

definition encode_read_bits :: "nat \<Rightarrow> u8 \<Rightarrow> u16 \<Rightarrow> u16 \<Rightarrow> int + u8 list" where
  "encode_read_bits max_len fc start_addr quantity =
     (if max_len < 5 then Inl MODBUS_ERROR
      else Inr (fc # le16 (modbus_htons start_addr) @ le16 (modbus_htons quantity)))"

definition encode_read_regs :: "nat \<Rightarrow> u8 \<Rightarrow> u16 \<Rightarrow> u16 \<Rightarrow> int + u8 list" where
  "encode_read_regs max_len fc start_addr quantity =
     (if max_len < 5 then Inl MODBUS_ERROR
      else Inr (fc # le16 (modbus_htons start_addr) @ le16 (modbus_htons quantity)))"

definition encode_write_single_coil :: "nat \<Rightarrow> u16 \<Rightarrow> bool \<Rightarrow> int + u8 list" where
  "encode_write_single_coil max_len addr v =
     (if max_len < 5 then Inl MODBUS_ERROR
      else Inr (FC_WRITE_SINGLE_COIL # le16 (modbus_htons addr) @
                le16 (modbus_htons (if v then 0xFF00 else 0x0000))))"

definition encode_write_single_reg :: "nat \<Rightarrow> u16 \<Rightarrow> u16 \<Rightarrow> int + u8 list" where
  "encode_write_single_reg max_len addr v =
     (if max_len < 5 then Inl MODBUS_ERROR
      else Inr (FC_WRITE_SINGLE_REG # le16 (modbus_htons addr) @ le16 (modbus_htons v)))"

text \<open>\<open>values\<close> is the caller's array; copying past its end is \<open>None\<close>.\<close>

definition encode_write_multiple_coils ::
    "nat \<Rightarrow> u16 \<Rightarrow> u16 \<Rightarrow> u8 list \<Rightarrow> (int + u8 list) option" where
  "encode_write_multiple_coils max_len start_addr quantity values =
     (let byte_count = (unat quantity + 7) div 8; total_len = 6 + byte_count
      in if max_len < total_len then Some (Inl MODBUS_ERROR)
         else if MODBUS_MAX_WRITE_COILS < unat quantity then Some (Inl MODBUS_INVALID_ARG)
         else if length values < byte_count then None
         else Some (Inr (FC_WRITE_MULTIPLE_COILS # le16 (modbus_htons start_addr) @
                le16 (modbus_htons quantity) @ [of_nat byte_count] @ take byte_count values)))"

definition encode_regs :: "u16 list \<Rightarrow> u8 list" where
  "encode_regs vs = concat (map (\<lambda>v. le16 (modbus_htons v)) vs)"

definition encode_write_multiple_regs ::
    "nat \<Rightarrow> u16 \<Rightarrow> u16 \<Rightarrow> u16 list \<Rightarrow> (int + u8 list) option" where
  "encode_write_multiple_regs max_len start_addr quantity values =
     (let byte_count = unat quantity * 2; total_len = 6 + byte_count
      in if max_len < total_len then Some (Inl MODBUS_ERROR)
         else if MODBUS_MAX_WRITE_REGS < unat quantity then Some (Inl MODBUS_INVALID_ARG)
         else if length values < unat quantity then None
         else Some (Inr (FC_WRITE_MULTIPLE_REGS # le16 (modbus_htons start_addr) @
                le16 (modbus_htons quantity) @ [of_nat byte_count] @
                encode_regs (take (unat quantity) values))))"

definition encode_exception :: "nat \<Rightarrow> u8 \<Rightarrow> u8 \<Rightarrow> int + u8 list" where
  "encode_exception max_len function_code exception_code =
     (if max_len < 2 then Inl MODBUS_ERROR
      else Inr [function_code OR EXCEPTION_OFFSET, exception_code])"

section \<open>Decoding responses\<close>

text \<open>
  \<open>p\<close> is the memory from the start of the PDU on, \<open>pdu_len\<close> the length of the PDU; the
  result is an error code or what is stored at the destination.
\<close>

definition is_exception :: "u8 list \<Rightarrow> bool" where
  "is_exception p \<longleftrightarrow> (p ! 0) AND EXCEPTION_OFFSET \<noteq> 0"

definition decode_read_bits_response :: "u8 list \<Rightarrow> nat \<Rightarrow> u16 \<Rightarrow> int + u8 list" where
  "decode_read_bits_response p pdu_len expected_quantity =
     (if pdu_len < 2 then Inl MODBUS_INVALID_RESP
      else if is_exception p then Inl MODBUS_EXCEPTION
      else
        let expected_bytes = (unat expected_quantity + 7) div 8; byte_count = unat (p ! 1)
        in if byte_count \<noteq> expected_bytes then Inl MODBUS_INVALID_RESP
           else if pdu_len < 2 + byte_count then Inl MODBUS_INVALID_RESP
           else Inr (take byte_count (drop 2 p)))"

definition decode_regs :: "u8 list \<Rightarrow> nat \<Rightarrow> u16 list" where
  "decode_regs d n = map (\<lambda>i. modbus_ntohs (get16 d (2 * i))) [0..<n]"

definition decode_read_regs_response :: "u8 list \<Rightarrow> nat \<Rightarrow> u16 \<Rightarrow> int + u16 list" where
  "decode_read_regs_response p pdu_len expected_quantity =
     (if pdu_len < 2 then Inl MODBUS_INVALID_RESP
      else if is_exception p then Inl MODBUS_EXCEPTION
      else
        let expected_bytes = unat expected_quantity * 2; byte_count = unat (p ! 1)
        in if byte_count \<noteq> expected_bytes then Inl MODBUS_INVALID_RESP
           else if pdu_len < 2 + byte_count then Inl MODBUS_INVALID_RESP
           else Inr (decode_regs (drop 2 p) (unat expected_quantity)))"

definition decode_write_response :: "u8 list \<Rightarrow> nat \<Rightarrow> int + (u16 \<times> u16)" where
  "decode_write_response p pdu_len =
     (if pdu_len < 5 then Inl MODBUS_INVALID_RESP
      else if is_exception p then Inl MODBUS_EXCEPTION
      else Inr (modbus_ntohs (get16 p 1), modbus_ntohs (get16 p 3)))"

definition decode_exception_code :: "u8 list \<Rightarrow> nat \<Rightarrow> u8" where
  "decode_exception_code p pdu_len =
     (if pdu_len < 2 then 0 else if is_exception p then p ! 1 else 0)"

section \<open>The MBAP header\<close>

definition encode_mbap_header :: "nat \<Rightarrow> u16 \<Rightarrow> u8 \<Rightarrow> u16 \<Rightarrow> int + u8 list" where
  "encode_mbap_header max_len transaction_id unit_id pdu_length =
     (if max_len < MODBUS_MBAP_SIZE then Inl MODBUS_ERROR
      else Inr (le16 (modbus_htons transaction_id) @ le16 (modbus_htons 0) @
                le16 (modbus_htons (pdu_length + 1)) @ [unit_id]))"

definition decode_mbap_header :: "u8 list \<Rightarrow> nat \<Rightarrow> int + (u16 \<times> u8 \<times> u16)" where
  "decode_mbap_header p buf_len =
     (if buf_len < MODBUS_MBAP_SIZE then Inl MODBUS_INVALID_RESP
      else
        let len = modbus_ntohs (get16 p 4)
        in if modbus_ntohs (get16 p 2) \<noteq> 0 then Inl MODBUS_INVALID_RESP
           else Inr (modbus_ntohs (get16 p 0), p ! 6, if 0 < len then len - 1 else 0))"

section \<open>Packed bits\<close>

text \<open>The packing loop after \<open>n\<close> of its iterations.\<close>

definition pack_prefix :: "u8 list \<Rightarrow> nat \<Rightarrow> u8 list" where
  "pack_prefix vs n =
     fold (\<lambda>i d. if vs ! i \<noteq> 0 then d[i div 8 := d ! (i div 8) OR push_bit (i mod 8) 1] else d)
       [0..<n] (replicate ((length vs + 7) div 8) 0)"

definition pack_bits :: "u8 list \<Rightarrow> u8 list" where
  "pack_bits vs = pack_prefix vs (length vs)"

definition unpack_bits :: "u8 list \<Rightarrow> nat \<Rightarrow> u8 list" where
  "unpack_bits d n = map (\<lambda>i. if d ! (i div 8) AND push_bit (i mod 8) 1 \<noteq> 0 then 1 else 0) [0..<n]"

section \<open>Facts about the encodings\<close>

lemma modbus_htons_eq: "modbus_htons = htons" "modbus_ntohs = htons"
  by (simp_all add: fun_eq_iff modbus_htons_def modbus_ntohs_def htons_def)

lemma modbus_swap [codec_simps]: "modbus_ntohs (modbus_htons v) = v"
  by (simp add: modbus_htons_eq)

lemma get16_le16_append [codec_simps]: "get16 (le16 v @ r) 0 = v"
  by (simp add: get16_append get16_le16)

lemma length_encode_regs [simp]: "length (encode_regs vs) = 2 * length vs"
  by (induction vs) (simp_all add: encode_regs_def)

lemma encode_regs_nth:
  "i < length vs \<Longrightarrow> get16 (encode_regs vs @ r) (2 * i) = modbus_htons (vs ! i)"
proof (induction vs arbitrary: i)
  case (Cons v vs)
  then show ?case
    by (cases i) (simp_all add: encode_regs_def codec_simps)
qed simp

lemma decode_encode_regs [codec_simps]: "decode_regs (encode_regs vs @ r) (length vs) = vs"
  by (rule nth_equalityI) (simp_all add: decode_regs_def encode_regs_nth modbus_swap)

lemma mbap_roundtrip:
  assumes "encode_mbap_header m t u l = Inr h" "l \<noteq> 0xFFFF"
  shows "decode_mbap_header (h @ r) MODBUS_MBAP_SIZE = Inr (t, u, l)" "length h = MODBUS_MBAP_SIZE"
proof -
  have "l + 1 \<noteq> 0"
  proof
    assume "l + 1 = 0"
    then have "l = - 1" by (simp add: eq_neg_iff_add_eq_0)
    with assms(2) show False by simp
  qed
  then have "0 < l + 1" by (simp add: word_gt_0)
  then show "decode_mbap_header (h @ r) MODBUS_MBAP_SIZE = Inr (t, u, l)" "length h = MODBUS_MBAP_SIZE"
    using assms(1)
    by (auto simp: encode_mbap_header_def decode_mbap_header_def codec_simps Let_def nth_append split: if_splits)
qed

section \<open>The CRC\<close>

lemma odd_flag: "(c :: u16) AND 1 \<noteq> 0 \<longleftrightarrow> bit c 0"
  by (simp add: and_one_eq mod_2_eq_odd bit_0)

lemma crc_shift_low_clear:
  "(\<And>i. i < n \<Longrightarrow> \<not> bit c i) \<Longrightarrow> (crc_shift ^^ n) c = drop_bit n c"
proof (induction n)
  case (Suc n)
  then have "(crc_shift ^^ n) c = drop_bit n c" by simp
  moreover have "crc_shift (drop_bit n c) = drop_bit 1 (drop_bit n c)"
    using Suc.prems [of n] by (simp add: crc_shift_def odd_flag bit_drop_bit_eq)
  ultimately show ?case by simp
qed simp

lemma bit_poly: "bit (0xA001 :: u16) k \<longleftrightarrow> k = 0 \<or> k = 13 \<or> k = 15"
proof -
  have "(0xA001 :: u16) = push_bit 0 1 OR push_bit 13 1 OR push_bit 15 1" by simp
  then show ?thesis by (simp only: bit_or_iff bit_push_bit_iff bit_1_iff) auto
qed

lemma bit_crc_shift: "bit (crc_shift c) k \<longleftrightarrow> (bit c (Suc k) \<noteq> (bit c 0 \<and> (k = 0 \<or> k = 13 \<or> k = 15)))"
proof -
  have "bit (drop_bit 1 c XOR 0xA001) k \<longleftrightarrow> (bit c (Suc k) \<noteq> (k = 0 \<or> k = 13 \<or> k = 15))"
    by (simp only: bit_xor_iff bit_drop_bit_eq bit_poly) simp
  then show ?thesis unfolding crc_shift_def odd_flag by (auto simp: bit_drop_bit_eq)
qed

lemma crc_shift_inj: "crc_shift c = crc_shift d \<Longrightarrow> c = d"
proof (rule bit_word_eqI)
  fix n assume eq: "crc_shift c = crc_shift d" and "n < LENGTH(16)"
  have b: "bit (crc_shift c) k = bit (crc_shift d) k" for k using eq by simp
  have top: "\<not> bit c 16" "\<not> bit d 16" using bit_imp_le_length [of c 16] bit_imp_le_length [of d 16] by auto
  have z: "bit c 0 = bit d 0" using b [of 15] top by (simp add: bit_crc_shift)
  show "bit c n = bit d n"
    using z b [of "n - 1"] by (cases n) (auto simp: bit_crc_shift)
qed

lemma crc_shifts_inj: "(crc_shift ^^ n) c = (crc_shift ^^ n) d \<Longrightarrow> c = d"
  by (induction n) (auto dest: crc_shift_inj)

lemma xor_cancel: "x XOR z = y XOR z \<longleftrightarrow> x = y" for x :: "'a::len word"
  by (metis xor.assoc xor.right_neutral xor_self_eq)

lemma ucast_down: "(ucast (ucast (a :: u8) :: u16) :: u8) = a"
  by (rule bit_word_eqI) (simp add: bit_simps)

lemma crc_byte_inj: "crc_byte b c = crc_byte b d \<longleftrightarrow> c = d"
  by (auto simp: crc_byte_def xor_cancel dest!: crc_shifts_inj)

lemma crc_byte_inj_byte: "crc_byte a c = crc_byte b c \<longleftrightarrow> a = b"
proof
  assume "crc_byte a c = crc_byte b c"
  then have "c XOR ucast a = c XOR ucast b" by (simp add: crc_byte_def crc_shifts_inj)
  then have "(ucast a :: u16) = ucast b" by (simp add: xor_cancel xor.commute [of c])
  then have "(ucast (ucast a :: u16) :: u8) = ucast (ucast b :: u16)" by (rule arg_cong)
  then show "a = b" by (simp only: ucast_down)
qed simp

lemma fold_crc_inj: "fold crc_byte r c = fold crc_byte r d \<longleftrightarrow> c = d"
  by (induction r arbitrary: c d) (simp_all add: crc_byte_inj)

lemma crc_residue: "fold crc_byte (le16 c) c = 0"
proof -
  let ?h = "drop_bit 8 c"
  have lo: "c XOR ucast (ucast c :: u8) = push_bit 8 ?h"
    by (rule bit_word_eqI) (auto simp: bit_simps)
  have "crc_byte (ucast c) c = drop_bit 8 (push_bit 8 ?h)"
    unfolding crc_byte_def lo by (rule crc_shift_low_clear) (simp add: bit_simps)
  also have "\<dots> = ?h"
    by (rule bit_word_eqI) (auto simp: bit_simps dest: bit_imp_le_length)
  finally have 1: "crc_byte (ucast c) c = ?h" .
  have "(ucast (ucast ?h :: u8) :: u16) = ?h"
    by (rule bit_word_eqI) (auto simp: bit_simps dest: bit_imp_le_length)
  then have "crc_byte (ucast ?h) ?h = drop_bit 8 0"
    by (simp add: crc_byte_def crc_shift_low_clear)
  with 1 show ?thesis by (simp add: le16_def)
qed

lemma crc_shift_linear: "crc_shift (x XOR y) = crc_shift x XOR crc_shift y"
  by (rule bit_word_eqI) (auto simp: bit_crc_shift bit_xor_iff)

lemma crc_shifts_linear: "(crc_shift ^^ n) (x XOR y) = (crc_shift ^^ n) x XOR (crc_shift ^^ n) y"
  by (induction n) (simp_all add: crc_shift_linear)

lemma byte_high: "drop_bit 8 (push_bit 8 (ucast (b :: u8))) = (ucast b :: u16)"
  by (rule bit_word_eqI) (auto simp: bit_simps dest: bit_imp_le_length)

lemma crc_two_bytes:
  "crc_byte b (crc_byte a c) = (crc_shift ^^ 16) (c XOR (ucast a XOR push_bit 8 (ucast b)))"
proof -
  have "(crc_shift ^^ 16) x = (crc_shift ^^ 8) ((crc_shift ^^ 8) x)" for x
    using funpow_add [of 8 8 crc_shift] by simp
  moreover have "(crc_shift ^^ 8) (push_bit 8 (ucast b)) = ucast b"
    using crc_shift_low_clear [of 8 "push_bit 8 (ucast b)"] by (simp add: bit_simps byte_high)
  ultimately show ?thesis
    unfolding crc_byte_def by (simp only: crc_shifts_linear xor.assoc)
qed

lemma two_bytes_inj:
  fixes a b :: u8
  assumes "(ucast a XOR push_bit 8 (ucast b) :: u16) = ucast a' XOR push_bit 8 (ucast b')"
  shows "a = a' \<and> b = b'"
proof -
  have lo: "ucast (ucast a XOR push_bit 8 (ucast b) :: u16) = a" for a b :: u8
    by (rule bit_word_eqI) (auto simp: bit_simps)
  have hi: "ucast (drop_bit 8 (ucast a XOR push_bit 8 (ucast b) :: u16)) = b" for a b :: u8
    by (rule bit_word_eqI) (auto simp: bit_simps dest: bit_imp_le_length)
  show ?thesis
    using arg_cong [OF assms, of "ucast :: u16 \<Rightarrow> u8"] arg_cong [OF assms, of "\<lambda>x. ucast (drop_bit 8 x) :: u8"]
    by (simp only: lo hi)
qed

text \<open>
  The CRC detects every error confined to two adjacent bytes, and a frame followed by its
  own CRC, low byte first, has CRC zero.
\<close>

theorem crc_burst_and_residue:
  "(modbus_calc_crc (xs @ [a, b] @ ys) = modbus_calc_crc (xs @ [a', b'] @ ys) \<longleftrightarrow> a = a' \<and> b = b') \<and>
   modbus_calc_crc (d @ le16 (modbus_calc_crc d)) = 0"
proof
  show "modbus_calc_crc (xs @ [a, b] @ ys) = modbus_calc_crc (xs @ [a', b'] @ ys) \<longleftrightarrow> a = a' \<and> b = b'"
    by (auto simp: modbus_calc_crc_def fold_crc_inj crc_two_bytes xor_cancel xor.commute [of "fold _ _ _"]
        dest!: crc_shifts_inj two_bytes_inj)
  show "modbus_calc_crc (d @ le16 (modbus_calc_crc d)) = 0"
    by (simp add: modbus_calc_crc_def crc_residue)
qed

section \<open>Packing and unpacking\<close>

lemma pack_prefix_Suc:
  "pack_prefix vs (Suc n) = (let d = pack_prefix vs n in
     if vs ! n \<noteq> 0 then d[n div 8 := d ! (n div 8) OR push_bit (n mod 8) 1] else d)"
  by (simp add: pack_prefix_def Let_def)

lemma length_pack_prefix [simp]: "length (pack_prefix vs n) = (length vs + 7) div 8"
  by (induction n) (simp_all add: pack_prefix_Suc Let_def, simp add: pack_prefix_def)

lemma length_pack_bits [simp]: "length (pack_bits vs) = (length vs + 7) div 8"
  by (simp add: pack_bits_def)

lemma bit_pack_prefix:
  assumes "n \<le> length vs" "k < (length vs + 7) div 8" "b < 8"
  shows "bit (pack_prefix vs n ! k) b \<longleftrightarrow> 8 * k + b < n \<and> vs ! (8 * k + b) \<noteq> 0"
  using assms(1)
proof (induction n)
  case 0
  then show ?case using assms(2) by (simp add: pack_prefix_def)
next
  case (Suc n)
  then have n: "n div 8 < (length vs + 7) div 8" by linarith
  have eq: "n = 8 * k + b \<longleftrightarrow> n div 8 = k \<and> n mod 8 = b" using assms(3) by auto
  have one: "bit (2 ^ m :: u8) b \<longleftrightarrow> m = b" for m using assms(3) by (auto simp: bit_exp_iff)
  show ?case
    using Suc n assms(3) eq
    by (auto simp: one pack_prefix_Suc Let_def nth_list_update bit_or_iff bit_push_bit_iff bit_1_iff less_Suc_eq)
qed

lemma unpack_pack [codec_simps]:
  "unpack_bits (pack_bits vs @ r) (length vs) = map (\<lambda>v. if v \<noteq> 0 then 1 else 0) vs"
proof (rule nth_equalityI)
  fix i assume "i < length (unpack_bits (pack_bits vs @ r) (length vs))"
  then have i: "i < length vs" by (simp add: unpack_bits_def)
  then have k: "i div 8 < (length vs + 7) div 8" by linarith
  have "bit (pack_bits vs ! (i div 8)) (i mod 8) \<longleftrightarrow> vs ! i \<noteq> 0"
    using bit_pack_prefix [OF order_refl k, of "i mod 8"] i by (simp add: pack_bits_def)
  moreover have "x AND push_bit m 1 \<noteq> 0 \<longleftrightarrow> bit x m" if "m < 8" for x :: u8 and m
    using that by (metis bit_iff_and_push_bit_not_eq_0)
  ultimately show "unpack_bits (pack_bits vs @ r) (length vs) ! i = map (\<lambda>v. if v \<noteq> 0 then 1 else 0) vs ! i"
    using i k by (simp add: unpack_bits_def nth_append)
qed (simp add: unpack_bits_def)

end
