(* ===== verification/Modbus.thy ===== *)
theory Modbus
  imports ModbusPdu TcpSockets
begin

text \<open>
  The Modbus TCP client and server of \<^verbatim>\<open>src/kernel/net/modbus.c\<close> over the socket API of
  \<open>Tcpip\<close>. The context is \<open>mb_ctx\<close> (\<open>None\<close> is the NULL pointer), the register and coil
  tables are the caller's arrays (\<open>None\<close> when not set), the global statistics and the network
  stack are part of the state. An operation is \<open>None\<close> when it accesses memory outside a buffer
  or table.
\<close>

section \<open>State\<close>

datatype modbus_state = MODBUS_STATE_DISCONNECTED | MODBUS_STATE_CONNECTING |
  MODBUS_STATE_CONNECTED | MODBUS_STATE_ERROR

datatype modbus_mode = MODBUS_MODE_TCP | MODBUS_MODE_RTU

record modbus_ctx =
  m_mode :: modbus_mode
  m_state :: modbus_state
  socket_fd :: int
  m_remote_ip :: u32
  m_remote_port :: u16
  unit_id :: u8
  transaction_id :: u16
  timeout_ms :: u32
  mtx_buffer :: "u8 list"
  mrx_buffer :: "u8 list"
  mrx_length :: nat
  holding_regs :: "u16 list option"
  input_regs :: "u16 list option"
  coils :: "u8 list option"
  discrete_inputs :: "u8 list option"
  num_holding_regs :: u16
  num_input_regs :: u16
  num_coils :: u16
  num_discrete_inputs :: u16

record modbus_stats =
  requests_sent :: u64
  responses_received :: u64
  requests_received :: u64
  responses_sent :: u64
  exceptions_sent :: u64
  exceptions_received :: u64
  timeouts :: u64
  crc_errors :: u64
  invalid_responses :: u64
  bytes_sent :: u64
  bytes_received :: u64

record modbus =
  mb_ctx :: "modbus_ctx option"
  mb_stats :: modbus_stats
  modbus_initialized :: bool
  mb_net :: net

definition zero_mstats :: modbus_stats where
  "zero_mstats = \<lparr>requests_sent = 0, responses_received = 0, requests_received = 0,
     responses_sent = 0, exceptions_sent = 0, exceptions_received = 0, timeouts = 0,
     crc_errors = 0, invalid_responses = 0, bytes_sent = 0, bytes_received = 0\<rparr>"

definition upd_ctx :: "(modbus_ctx \<Rightarrow> modbus_ctx) \<Rightarrow> modbus \<Rightarrow> modbus" where
  "upd_ctx f w = w\<lparr>mb_ctx := map_option f (mb_ctx w)\<rparr>"

definition upd_mstats :: "(modbus_stats \<Rightarrow> modbus_stats) \<Rightarrow> modbus \<Rightarrow> modbus" where
  "upd_mstats f w = w\<lparr>mb_stats := f (mb_stats w)\<rparr>"

lemma upd_simps [simp]:
  "mb_ctx (upd_ctx f w) = map_option f (mb_ctx w)" "mb_stats (upd_ctx f w) = mb_stats w"
  "mb_net (upd_ctx f w) = mb_net w"
  "mb_ctx (upd_mstats g w) = mb_ctx w" "mb_stats (upd_mstats g w) = g (mb_stats w)"
  "mb_net (upd_mstats g w) = mb_net w"
  by (simp_all add: upd_ctx_def upd_mstats_def)

section \<open>Tables\<close>

definition table_read :: "'a list \<Rightarrow> nat \<Rightarrow> nat \<Rightarrow> 'a list option" where
  "table_read t a n = (if a + n \<le> length t then Some (take n (drop a t)) else None)"

definition table_write :: "'a list \<Rightarrow> nat \<Rightarrow> 'a list \<Rightarrow> 'a list option" where
  "table_write t a vs =
     (if a + length vs \<le> length t then Some (take a t @ vs @ drop (a + length vs) t) else None)"

section \<open>Request handlers of the server\<close>

text \<open>
  A handler gets the memory from the start of the request PDU on and the length of the PDU. It
  returns a negative code or the response PDU, and the context.
\<close>

type_synonym handler_result = "((int + u8 list) \<times> modbus_ctx) option"

definition reply_exception :: "nat \<Rightarrow> u8 list \<Rightarrow> u8 \<Rightarrow> modbus_ctx \<Rightarrow> handler_result" where
  "reply_exception max_resp req exc c = Some (encode_exception max_resp (req ! 0) exc, c)"

definition handle_read_bits ::
    "u8 list option \<Rightarrow> u16 \<Rightarrow> modbus_ctx \<Rightarrow> u8 list \<Rightarrow> nat \<Rightarrow> nat \<Rightarrow> handler_result" where
  "handle_read_bits table num c req req_len max_resp =
     (if req_len < 5 then Some (Inl MODBUS_INVALID_RESP, c)
      else
        let start_addr = unat (modbus_ntohs (get16 req 1));
            quantity = unat (modbus_ntohs (get16 req 3))
        in if quantity = 0 \<or> MODBUS_MAX_COILS < quantity
           then reply_exception max_resp req EXC_ILLEGAL_DATA_VALUE c
           else (case table of
             None \<Rightarrow> reply_exception max_resp req EXC_ILLEGAL_DATA_ADDRESS c
           | Some t \<Rightarrow>
               if unat num < start_addr + quantity
               then reply_exception max_resp req EXC_ILLEGAL_DATA_ADDRESS c
               else
                 let byte_count = (quantity + 7) div 8
                 in if max_resp < 2 + byte_count then Some (Inl MODBUS_ERROR, c)
                    else do {
                      vs \<leftarrow> table_read t start_addr quantity;
                      Some (Inr (req ! 0 # of_nat byte_count # pack_bits vs), c)
                    }))"

definition handle_read_coils :: "modbus_ctx \<Rightarrow> u8 list \<Rightarrow> nat \<Rightarrow> nat \<Rightarrow> handler_result" where
  "handle_read_coils c = handle_read_bits (coils c) (num_coils c) c"

definition handle_read_discrete_inputs :: "modbus_ctx \<Rightarrow> u8 list \<Rightarrow> nat \<Rightarrow> nat \<Rightarrow> handler_result" where
  "handle_read_discrete_inputs c = handle_read_bits (discrete_inputs c) (num_discrete_inputs c) c"

definition handle_read_regs ::
    "u16 list option \<Rightarrow> u16 \<Rightarrow> modbus_ctx \<Rightarrow> u8 list \<Rightarrow> nat \<Rightarrow> nat \<Rightarrow> handler_result" where
  "handle_read_regs table num c req req_len max_resp =
     (if req_len < 5 then Some (Inl MODBUS_INVALID_RESP, c)
      else
        let start_addr = unat (modbus_ntohs (get16 req 1));
            quantity = unat (modbus_ntohs (get16 req 3))
        in if quantity = 0 \<or> MODBUS_MAX_REGISTERS < quantity
           then reply_exception max_resp req EXC_ILLEGAL_DATA_VALUE c
           else (case table of
             None \<Rightarrow> reply_exception max_resp req EXC_ILLEGAL_DATA_ADDRESS c
           | Some t \<Rightarrow>
               if unat num < start_addr + quantity
               then reply_exception max_resp req EXC_ILLEGAL_DATA_ADDRESS c
               else
                 let byte_count = quantity * 2
                 in if max_resp < 2 + byte_count then Some (Inl MODBUS_ERROR, c)
                    else do {
                      vs \<leftarrow> table_read t start_addr quantity;
                      Some (Inr (req ! 0 # of_nat byte_count # encode_regs vs), c)
                    }))"

definition handle_read_holding_registers :: "modbus_ctx \<Rightarrow> u8 list \<Rightarrow> nat \<Rightarrow> nat \<Rightarrow> handler_result" where
  "handle_read_holding_registers c = handle_read_regs (holding_regs c) (num_holding_regs c) c"

definition handle_read_input_registers :: "modbus_ctx \<Rightarrow> u8 list \<Rightarrow> nat \<Rightarrow> nat \<Rightarrow> handler_result" where
  "handle_read_input_registers c = handle_read_regs (input_regs c) (num_input_regs c) c"

definition handle_write_single_coil :: "modbus_ctx \<Rightarrow> u8 list \<Rightarrow> nat \<Rightarrow> nat \<Rightarrow> handler_result" where
  "handle_write_single_coil c req req_len max_resp =
     (if req_len < 5 then Some (Inl MODBUS_INVALID_RESP, c)
      else
        let addr = modbus_ntohs (get16 req 1); v = modbus_ntohs (get16 req 3)
        in if v \<noteq> 0x0000 \<and> v \<noteq> 0xFF00 then reply_exception max_resp req EXC_ILLEGAL_DATA_VALUE c
           else (case coils c of
             None \<Rightarrow> reply_exception max_resp req EXC_ILLEGAL_DATA_ADDRESS c
           | Some t \<Rightarrow>
               if num_coils c \<le> addr then reply_exception max_resp req EXC_ILLEGAL_DATA_ADDRESS c
               else do {
                 t' \<leftarrow> table_write t (unat addr) [if v = 0xFF00 then 1 else 0];
                 Some (if max_resp < 5 then Inl MODBUS_ERROR else Inr (take 5 req),
                       c\<lparr>coils := Some t'\<rparr>)
               }))"

definition handle_write_single_register :: "modbus_ctx \<Rightarrow> u8 list \<Rightarrow> nat \<Rightarrow> nat \<Rightarrow> handler_result" where
  "handle_write_single_register c req req_len max_resp =
     (if req_len < 5 then Some (Inl MODBUS_INVALID_RESP, c)
      else
        let addr = modbus_ntohs (get16 req 1); v = modbus_ntohs (get16 req 3)
        in (case holding_regs c of
             None \<Rightarrow> reply_exception max_resp req EXC_ILLEGAL_DATA_ADDRESS c
           | Some t \<Rightarrow>
               if num_holding_regs c \<le> addr
               then reply_exception max_resp req EXC_ILLEGAL_DATA_ADDRESS c
               else do {
                 t' \<leftarrow> table_write t (unat addr) [v];
                 Some (if max_resp < 5 then Inl MODBUS_ERROR else Inr (take 5 req),
                       c\<lparr>holding_regs := Some t'\<rparr>)
               }))"

definition handle_write_multiple_coils :: "modbus_ctx \<Rightarrow> u8 list \<Rightarrow> nat \<Rightarrow> nat \<Rightarrow> handler_result" where
  "handle_write_multiple_coils c req req_len max_resp =
     (if req_len < 6 then Some (Inl MODBUS_INVALID_RESP, c)
      else
        let start_addr = unat (modbus_ntohs (get16 req 1));
            quantity = unat (modbus_ntohs (get16 req 3));
            byte_count = unat (req ! 5)
        in if quantity = 0 \<or> MODBUS_MAX_WRITE_COILS < quantity
           then reply_exception max_resp req EXC_ILLEGAL_DATA_VALUE c
           else if byte_count \<noteq> (quantity + 7) div 8
           then reply_exception max_resp req EXC_ILLEGAL_DATA_VALUE c
           else if req_len < 6 + byte_count then Some (Inl MODBUS_INVALID_RESP, c)
           else (case coils c of
             None \<Rightarrow> reply_exception max_resp req EXC_ILLEGAL_DATA_ADDRESS c
           | Some t \<Rightarrow>
               if unat (num_coils c) < start_addr + quantity
               then reply_exception max_resp req EXC_ILLEGAL_DATA_ADDRESS c
               else do {
                 t' \<leftarrow> table_write t start_addr (unpack_bits (drop 6 req) quantity);
                 Some (if max_resp < 5 then Inl MODBUS_ERROR else Inr (take 5 req),
                       c\<lparr>coils := Some t'\<rparr>)
               }))"

definition handle_write_multiple_registers :: "modbus_ctx \<Rightarrow> u8 list \<Rightarrow> nat \<Rightarrow> nat \<Rightarrow> handler_result" where
  "handle_write_multiple_registers c req req_len max_resp =
     (if req_len < 6 then Some (Inl MODBUS_INVALID_RESP, c)
      else
        let start_addr = unat (modbus_ntohs (get16 req 1));
            quantity = unat (modbus_ntohs (get16 req 3));
            byte_count = unat (req ! 5)
        in if quantity = 0 \<or> MODBUS_MAX_WRITE_REGS < quantity
           then reply_exception max_resp req EXC_ILLEGAL_DATA_VALUE c
           else if byte_count \<noteq> quantity * 2
           then reply_exception max_resp req EXC_ILLEGAL_DATA_VALUE c
           else if req_len < 6 + byte_count then Some (Inl MODBUS_INVALID_RESP, c)
           else (case holding_regs c of
             None \<Rightarrow> reply_exception max_resp req EXC_ILLEGAL_DATA_ADDRESS c
           | Some t \<Rightarrow>
               if unat (num_holding_regs c) < start_addr + quantity
               then reply_exception max_resp req EXC_ILLEGAL_DATA_ADDRESS c
               else do {
                 t' \<leftarrow> table_write t start_addr (decode_regs (drop 6 req) quantity);
                 Some (if max_resp < 5 then Inl MODBUS_ERROR else Inr (take 5 req),
                       c\<lparr>holding_regs := Some t'\<rparr>)
               }))"

definition handle_request :: "modbus_ctx \<Rightarrow> u8 list \<Rightarrow> nat \<Rightarrow> nat \<Rightarrow> handler_result" where
  "handle_request c req req_len max_resp =
     (if req_len < 1 then Some (Inl MODBUS_INVALID_RESP, c)
      else
        let fc = req ! 0
        in if fc = FC_READ_COILS then handle_read_coils c req req_len max_resp
           else if fc = FC_READ_DISCRETE_INPUTS then handle_read_discrete_inputs c req req_len max_resp
           else if fc = FC_READ_HOLDING_REGS then handle_read_holding_registers c req req_len max_resp
           else if fc = FC_READ_INPUT_REGS then handle_read_input_registers c req req_len max_resp
           else if fc = FC_WRITE_SINGLE_COIL then handle_write_single_coil c req req_len max_resp
           else if fc = FC_WRITE_SINGLE_REG then handle_write_single_register c req req_len max_resp
           else if fc = FC_WRITE_MULTIPLE_COILS then handle_write_multiple_coils c req req_len max_resp
           else if fc = FC_WRITE_MULTIPLE_REGS then handle_write_multiple_registers c req req_len max_resp
           else reply_exception max_resp req EXC_ILLEGAL_FUNCTION c)"

section \<open>Context and connection\<close>

text \<open>\<open>ok\<close> is whether the allocation succeeds.\<close>

definition modbus_new_tcp :: "bool \<Rightarrow> u32 \<Rightarrow> u16 \<Rightarrow> u8 \<Rightarrow> modbus \<Rightarrow> modbus" where
  "modbus_new_tcp ok ip port unit w =
     (if \<not> ok then w\<lparr>mb_ctx := None\<rparr>
      else
        let w1 = w\<lparr>mb_ctx := Some \<lparr>m_mode = MODBUS_MODE_TCP, m_state = MODBUS_STATE_DISCONNECTED,
               socket_fd = - 1, m_remote_ip = ip, m_remote_port = (if port \<noteq> 0 then port else 502),
               unit_id = unit, transaction_id = 1, timeout_ms = 1000,
               mtx_buffer = replicate MODBUS_MAX_ADU_SIZE 0, mrx_buffer = replicate MODBUS_MAX_ADU_SIZE 0,
               mrx_length = 0, holding_regs = None, input_regs = None, coils = None,
               discrete_inputs = None, num_holding_regs = 0, num_input_regs = 0, num_coils = 0,
               num_discrete_inputs = 0\<rparr>\<rparr>
        in if modbus_initialized w1 then w1
           else w1\<lparr>mb_stats := zero_mstats, modbus_initialized := True\<rparr>)"

definition modbus_set_timeout :: "u32 \<Rightarrow> modbus \<Rightarrow> int \<times> modbus" where
  "modbus_set_timeout t w =
     (case mb_ctx w of
        None \<Rightarrow> (MODBUS_INVALID_ARG, w)
      | Some _ \<Rightarrow> (MODBUS_OK, upd_ctx (\<lambda>c. c\<lparr>timeout_ms := t\<rparr>) w))"

definition modbus_is_connected :: "modbus \<Rightarrow> bool" where
  "modbus_is_connected w =
     (case mb_ctx w of None \<Rightarrow> False | Some c \<Rightarrow> m_state c = MODBUS_STATE_CONNECTED)"

text \<open>Closing the socket of the context; the callers ignore the result.\<close>

definition close_socket :: "modbus \<Rightarrow> modbus option" where
  "close_socket w =
     (case mb_ctx w of
        None \<Rightarrow> Some w
      | Some c \<Rightarrow> do {
          (_, n) \<leftarrow> socket_close (socket_fd c) (mb_net w);
          Some (upd_ctx (\<lambda>c. c\<lparr>socket_fd := - 1\<rparr>) (w\<lparr>mb_net := n\<rparr>))
        })"

definition modbus_connect :: "clock \<Rightarrow> modbus \<Rightarrow> (int \<times> modbus) option" where
  "modbus_connect clk w =
     (case mb_ctx w of
        None \<Rightarrow> Some (MODBUS_INVALID_ARG, w)
      | Some c \<Rightarrow>
          if m_state c = MODBUS_STATE_CONNECTED then Some (MODBUS_OK, w)
          else if m_mode c \<noteq> MODBUS_MODE_TCP then Some (MODBUS_ERROR, w)
          else
            let (fd, n) = socket_create SOCK_STREAM 6 (mb_net w);
                w1 = upd_ctx (\<lambda>c. c\<lparr>socket_fd := fd\<rparr>) (w\<lparr>mb_net := n\<rparr>)
            in if fd < 0
               then Some (MODBUS_CONN_FAILED, upd_ctx (\<lambda>c. c\<lparr>m_state := MODBUS_STATE_ERROR\<rparr>) w1)
               else do {
                 let w2 = upd_ctx (\<lambda>c. c\<lparr>m_state := MODBUS_STATE_CONNECTING\<rparr>) w1;
                 (r, n2) \<leftarrow> socket_connect clk fd (m_remote_ip c) (m_remote_port c) n;
                 let w3 = w2\<lparr>mb_net := n2\<rparr>;
                 if r \<noteq> NET_OK
                 then do {
                   w4 \<leftarrow> close_socket w3;
                   Some (MODBUS_CONN_FAILED, upd_ctx (\<lambda>c. c\<lparr>m_state := MODBUS_STATE_ERROR\<rparr>) w4)
                 }
                 else Some (MODBUS_OK, upd_ctx (\<lambda>c. c\<lparr>m_state := MODBUS_STATE_CONNECTED\<rparr>) w3)
               })"

definition modbus_disconnect :: "modbus \<Rightarrow> (int \<times> modbus) option" where
  "modbus_disconnect w =
     (case mb_ctx w of
        None \<Rightarrow> Some (MODBUS_INVALID_ARG, w)
      | Some c \<Rightarrow> do {
          w1 \<leftarrow> (if 0 \<le> socket_fd c then close_socket w else Some w);
          Some (MODBUS_OK, upd_ctx (\<lambda>c. c\<lparr>m_state := MODBUS_STATE_DISCONNECTED\<rparr>) w1)
        })"

definition modbus_free :: "modbus \<Rightarrow> modbus option" where
  "modbus_free w =
     (case mb_ctx w of
        None \<Rightarrow> Some w
      | Some c \<Rightarrow> do {
          w1 \<leftarrow> (if m_state c = MODBUS_STATE_CONNECTED then map_option snd (modbus_disconnect w) else Some w);
          Some (w1\<lparr>mb_ctx := None\<rparr>)
        })"

section \<open>Raw transfer\<close>

definition modbus_send_raw :: "clock \<Rightarrow> u8 list \<Rightarrow> modbus \<Rightarrow> (int \<times> modbus) option" where
  "modbus_send_raw clk d w =
     (case mb_ctx w of
        None \<Rightarrow> Some (MODBUS_INVALID_ARG, w)
      | Some c \<Rightarrow>
          if \<not> modbus_is_connected w then Some (MODBUS_NOT_CONNECTED, w)
          else do {
            (r, n) \<leftarrow> socket_send clk (socket_fd c) d (mb_net w);
            let w1 = w\<lparr>mb_net := n\<rparr>;
            Some (if r < 0 then (MODBUS_ERROR, w1)
                  else (r, upd_mstats (\<lambda>s. s\<lparr>bytes_sent := bytes_sent s + of_nat (length d)\<rparr>) w1))
          })"

text \<open>The received bytes are stored in the context's receive buffer at \<open>off\<close>.\<close>

definition store_rx :: "nat \<Rightarrow> u8 list \<Rightarrow> modbus_ctx \<Rightarrow> modbus_ctx" where
  "store_rx off d c = c\<lparr>mrx_buffer := take off (mrx_buffer c) @ d @ drop (off + length d) (mrx_buffer c)\<rparr>"

definition modbus_receive_raw :: "clock \<Rightarrow> nat \<Rightarrow> nat \<Rightarrow> modbus \<Rightarrow> int \<times> modbus" where
  "modbus_receive_raw clk off max_length w =
     (case mb_ctx w of
        None \<Rightarrow> (MODBUS_INVALID_ARG, w)
      | Some c \<Rightarrow>
          if \<not> modbus_is_connected w then (MODBUS_NOT_CONNECTED, w)
          else
            let (r, d, n) = socket_recv clk (socket_fd c) max_length (mb_net w);
                w1 = upd_ctx (store_rx off d) (w\<lparr>mb_net := n\<rparr>)
            in if r < 0 then (MODBUS_ERROR, w1)
               else (r, upd_mstats (\<lambda>s. s\<lparr>bytes_received := bytes_received s + of_int r\<rparr>) w1))"

section \<open>Client\<close>

definition next_transaction :: "u16 \<Rightarrow> u16" where
  "next_transaction t = (if t + 1 = 0 then 1 else t + 1)"

definition modbus_send_request :: "clock \<Rightarrow> u8 list \<Rightarrow> modbus \<Rightarrow> (int \<times> modbus) option" where
  "modbus_send_request clk pdu w =
     (case mb_ctx w of
        None \<Rightarrow> Some (MODBUS_INVALID_ARG, w)
      | Some c \<Rightarrow>
          (case encode_mbap_header MODBUS_MAX_ADU_SIZE (transaction_id c) (unit_id c) (of_nat (length pdu)) of
             Inl e \<Rightarrow> Some (e, w)
           | Inr h \<Rightarrow>
               if MODBUS_MAX_ADU_SIZE < MODBUS_MBAP_SIZE + length pdu
               then Some (MODBUS_ERROR, upd_ctx (\<lambda>c. c\<lparr>mtx_buffer := h @ drop 7 (mtx_buffer c)\<rparr>) w)
               else do {
                 let w1 = upd_ctx (\<lambda>c. c\<lparr>mtx_buffer := h @ pdu @ drop (7 + length pdu) (mtx_buffer c)\<rparr>) w;
                 (r, w2) \<leftarrow> modbus_send_raw clk (h @ pdu) w1;
                 Some (if r < 0 then (r, w2)
                       else (MODBUS_OK, upd_mstats (\<lambda>s. s\<lparr>requests_sent := requests_sent s + 1\<rparr>)
                          (upd_ctx (\<lambda>c. c\<lparr>transaction_id := next_transaction (transaction_id c)\<rparr>) w2)))
               }))"

text \<open>The result is an error code or the length of the PDU, which starts at offset 7 of the
  receive buffer. The transaction is compared as \<open>int\<close>: the expected value may be \<open>-1\<close>.\<close>

definition modbus_receive_response :: "clock \<Rightarrow> modbus \<Rightarrow> (int + nat) \<times> modbus" where
  "modbus_receive_response clk w =
     (case mb_ctx w of
        None \<Rightarrow> (Inl MODBUS_INVALID_ARG, w)
      | Some c \<Rightarrow>
          let (r, w1) = modbus_receive_raw clk 0 MODBUS_MBAP_SIZE w
          in if r < int MODBUS_MBAP_SIZE then (Inl MODBUS_TIMEOUT, w1)
             else (case decode_mbap_header (mrx_buffer (the (mb_ctx w1))) MODBUS_MBAP_SIZE of
               Inl _ \<Rightarrow> (Inl MODBUS_INVALID_RESP, w1)
             | Inr (t, u, l) \<Rightarrow>
                 if uint t \<noteq> uint (transaction_id c) - 1 then (Inl MODBUS_INVALID_RESP, w1)
                 else if MODBUS_MAX_PDU_SIZE < unat l then (Inl MODBUS_INVALID_RESP, w1)
                 else
                   let (r2, w2) = modbus_receive_raw clk MODBUS_MBAP_SIZE (unat l) w1
                   in if r2 < uint l then (Inl MODBUS_TIMEOUT, w2)
                      else (Inr (unat l),
                        upd_mstats (\<lambda>s. s\<lparr>responses_received := responses_received s + 1\<rparr>) w2)))"

text \<open>Sending a request and receiving its response, up to the check for an exception: common to
  the client functions.\<close>

definition transact :: "clock \<Rightarrow> u8 list \<Rightarrow> modbus \<Rightarrow> ((int + u8 list \<times> nat) \<times> modbus) option" where
  "transact clk pdu w = do {
     (r, w1) \<leftarrow> modbus_send_request clk pdu w;
     if r \<noteq> MODBUS_OK then Some (Inl r, w1)
     else
       (case modbus_receive_response clk w1 of
          (Inl e, w2) \<Rightarrow> Some (Inl e, w2)
        | (Inr l, w2) \<Rightarrow>
            let resp = drop 7 (mrx_buffer (the (mb_ctx w2)))
            in if is_exception resp
               then Some (Inl MODBUS_EXCEPTION,
                 upd_mstats (\<lambda>s. s\<lparr>exceptions_received := exceptions_received s + 1\<rparr>) w2)
               else Some (Inr (resp, l), w2))
   }"

text \<open>The guards at the start of the client functions.\<close>

definition client_guard :: "bool \<Rightarrow> nat \<Rightarrow> u16 \<Rightarrow> modbus \<Rightarrow> int option" where
  "client_guard buf limit count w =
     (if mb_ctx w = None \<or> \<not> buf then Some MODBUS_INVALID_ARG
      else if limit < unat count then Some MODBUS_INVALID_ARG
      else if \<not> modbus_is_connected w then Some MODBUS_NOT_CONNECTED
      else None)"

text \<open>Reading: the result is an error code or what is stored at \<open>dest\<close>.\<close>

definition client_read ::
    "(int + u8 list) \<Rightarrow> (u8 list \<Rightarrow> nat \<Rightarrow> int + 'a list) \<Rightarrow> clock \<Rightarrow> modbus \<Rightarrow> ((int + 'a list) \<times> modbus) option" where
  "client_read req decode clk w =
     (case req of
        Inl e \<Rightarrow> Some (Inl e, w)
      | Inr pdu \<Rightarrow> do {
          (r, w1) \<leftarrow> transact clk pdu w;
          Some (case r of Inl e \<Rightarrow> Inl e | Inr (resp, l) \<Rightarrow> decode resp l, w1)
        })"

definition modbus_read_coils ::
    "clock \<Rightarrow> u16 \<Rightarrow> u16 \<Rightarrow> bool \<Rightarrow> modbus \<Rightarrow> ((int + u8 list) \<times> modbus) option" where
  "modbus_read_coils clk addr count dest w =
     (case client_guard dest MODBUS_MAX_COILS count w of
        Some e \<Rightarrow> Some (Inl e, w)
      | None \<Rightarrow> client_read (encode_read_bits MODBUS_MAX_PDU_SIZE FC_READ_COILS addr count)
                  (\<lambda>resp l. decode_read_bits_response resp l count) clk w)"

definition modbus_read_discrete_inputs ::
    "clock \<Rightarrow> u16 \<Rightarrow> u16 \<Rightarrow> bool \<Rightarrow> modbus \<Rightarrow> ((int + u8 list) \<times> modbus) option" where
  "modbus_read_discrete_inputs clk addr count dest w =
     (case client_guard dest MODBUS_MAX_COILS count w of
        Some e \<Rightarrow> Some (Inl e, w)
      | None \<Rightarrow> client_read (encode_read_bits MODBUS_MAX_PDU_SIZE FC_READ_DISCRETE_INPUTS addr count)
                  (\<lambda>resp l. decode_read_bits_response resp l count) clk w)"

definition modbus_read_holding_registers ::
    "clock \<Rightarrow> u16 \<Rightarrow> u16 \<Rightarrow> bool \<Rightarrow> modbus \<Rightarrow> ((int + u16 list) \<times> modbus) option" where
  "modbus_read_holding_registers clk addr count dest w =
     (case client_guard dest MODBUS_MAX_REGISTERS count w of
        Some e \<Rightarrow> Some (Inl e, w)
      | None \<Rightarrow> client_read (encode_read_regs MODBUS_MAX_PDU_SIZE FC_READ_HOLDING_REGS addr count)
                  (\<lambda>resp l. decode_read_regs_response resp l count) clk w)"

definition modbus_read_input_registers ::
    "clock \<Rightarrow> u16 \<Rightarrow> u16 \<Rightarrow> bool \<Rightarrow> modbus \<Rightarrow> ((int + u16 list) \<times> modbus) option" where
  "modbus_read_input_registers clk addr count dest w =
     (case client_guard dest MODBUS_MAX_REGISTERS count w of
        Some e \<Rightarrow> Some (Inl e, w)
      | None \<Rightarrow> client_read (encode_read_regs MODBUS_MAX_PDU_SIZE FC_READ_INPUT_REGS addr count)
                  (\<lambda>resp l. decode_read_regs_response resp l count) clk w)"

text \<open>Writing: the request may be a memory fault of the encoder.\<close>

definition client_write ::
    "(int + u8 list) option \<Rightarrow> (u8 list \<Rightarrow> nat \<Rightarrow> int) \<Rightarrow> clock \<Rightarrow> modbus \<Rightarrow> (int \<times> modbus) option" where
  "client_write req verify clk w = do {
     e \<leftarrow> req;
     (case e of
        Inl e \<Rightarrow> Some (e, w)
      | Inr pdu \<Rightarrow> do {
          (r, w1) \<leftarrow> transact clk pdu w;
          Some (case r of Inl e \<Rightarrow> e | Inr (resp, l) \<Rightarrow> verify resp l, w1)
        })
   }"

definition verify_echo :: "u8 list \<Rightarrow> nat \<Rightarrow> int" where
  "verify_echo resp l = (if l < 5 then MODBUS_INVALID_RESP else MODBUS_OK)"

definition verify_range :: "u16 \<Rightarrow> u16 \<Rightarrow> u8 list \<Rightarrow> nat \<Rightarrow> int" where
  "verify_range addr count resp l =
     (case decode_write_response resp l of
        Inl e \<Rightarrow> e
      | Inr (a, q) \<Rightarrow> if a \<noteq> addr \<or> q \<noteq> count then MODBUS_INVALID_RESP else MODBUS_OK)"

definition modbus_write_coil :: "clock \<Rightarrow> u16 \<Rightarrow> bool \<Rightarrow> modbus \<Rightarrow> (int \<times> modbus) option" where
  "modbus_write_coil clk addr v w =
     (case client_guard True 0 0 w of
        Some e \<Rightarrow> Some (e, w)
      | None \<Rightarrow> client_write (Some (encode_write_single_coil MODBUS_MAX_PDU_SIZE addr v)) verify_echo clk w)"

definition modbus_write_register :: "clock \<Rightarrow> u16 \<Rightarrow> u16 \<Rightarrow> modbus \<Rightarrow> (int \<times> modbus) option" where
  "modbus_write_register clk addr v w =
     (case client_guard True 0 0 w of
        Some e \<Rightarrow> Some (e, w)
      | None \<Rightarrow> client_write (Some (encode_write_single_reg MODBUS_MAX_PDU_SIZE addr v)) verify_echo clk w)"

definition modbus_write_coils :: "clock \<Rightarrow> u16 \<Rightarrow> u16 \<Rightarrow> u8 list option \<Rightarrow> modbus \<Rightarrow> (int \<times> modbus) option" where
  "modbus_write_coils clk addr count src w =
     (case client_guard (src \<noteq> None) MODBUS_MAX_WRITE_COILS count w of
        Some e \<Rightarrow> Some (e, w)
      | None \<Rightarrow> client_write (encode_write_multiple_coils MODBUS_MAX_PDU_SIZE addr count (the src))
                  (verify_range addr count) clk w)"

definition modbus_write_registers :: "clock \<Rightarrow> u16 \<Rightarrow> u16 \<Rightarrow> u16 list option \<Rightarrow> modbus \<Rightarrow> (int \<times> modbus) option" where
  "modbus_write_registers clk addr count src w =
     (case client_guard (src \<noteq> None) MODBUS_MAX_WRITE_REGS count w of
        Some e \<Rightarrow> Some (e, w)
      | None \<Rightarrow> client_write (encode_write_multiple_regs MODBUS_MAX_PDU_SIZE addr count (the src))
                  (verify_range addr count) clk w)"

section \<open>Server\<close>

definition modbus_server_init :: "u16 \<Rightarrow> modbus \<Rightarrow> (int \<times> modbus) option" where
  "modbus_server_init port w =
     (case mb_ctx w of
        None \<Rightarrow> Some (MODBUS_INVALID_ARG, w)
      | Some _ \<Rightarrow>
          let p = (if port \<noteq> 0 then port else 502);
              (fd, n) = socket_create SOCK_STREAM 6 (mb_net w);
              w1 = upd_ctx (\<lambda>c. c\<lparr>m_mode := MODBUS_MODE_TCP, m_remote_port := p,
                     m_state := MODBUS_STATE_DISCONNECTED, socket_fd := fd\<rparr>) (w\<lparr>mb_net := n\<rparr>)
          in if fd < 0 then Some (MODBUS_ERROR, w1)
             else
               let (r, n2) = socket_bind fd 0 p n; w2 = w1\<lparr>mb_net := n2\<rparr>
               in if r \<noteq> NET_OK
                  then map_option (Pair MODBUS_ERROR) (close_socket w2)
                  else Some (MODBUS_OK, w2))"

definition modbus_server_start :: "modbus \<Rightarrow> int \<times> modbus" where
  "modbus_server_start w =
     (case mb_ctx w of
        None \<Rightarrow> (MODBUS_INVALID_ARG, w)
      | Some c \<Rightarrow>
          if socket_fd c < 0 then (MODBUS_ERROR, w)
          else
            let (r, n) = socket_listen (socket_fd c) 1 (mb_net w)
            in if r \<noteq> NET_OK then (MODBUS_ERROR, w\<lparr>mb_net := n\<rparr>)
               else (MODBUS_OK, upd_ctx (\<lambda>c. c\<lparr>m_state := MODBUS_STATE_CONNECTED\<rparr>) (w\<lparr>mb_net := n\<rparr>)))"

definition modbus_server_stop :: "modbus \<Rightarrow> (int \<times> modbus) option" where
  "modbus_server_stop w = modbus_disconnect w"

definition modbus_server_set_data ::
    "u16 list option \<Rightarrow> u16 \<Rightarrow> u16 list option \<Rightarrow> u16 \<Rightarrow> u8 list option \<Rightarrow> u16 \<Rightarrow> u8 list option \<Rightarrow> u16 \<Rightarrow>
     modbus \<Rightarrow> int \<times> modbus" where
  "modbus_server_set_data hr nh ir ni co nc di nd w =
     (case mb_ctx w of
        None \<Rightarrow> (MODBUS_INVALID_ARG, w)
      | Some _ \<Rightarrow> (MODBUS_OK, upd_ctx (\<lambda>c. c\<lparr>holding_regs := hr, num_holding_regs := nh, input_regs := ir,
          num_input_regs := ni, coils := co, num_coils := nc, discrete_inputs := di,
          num_discrete_inputs := nd\<rparr>) w))"

text \<open>Answering one request whose PDU has been received: the response ADU, or a negative code.\<close>

definition server_answer :: "u16 \<Rightarrow> u8 \<Rightarrow> nat \<Rightarrow> modbus_ctx \<Rightarrow> modbus \<Rightarrow> ((int + u8 list) \<times> modbus) option" where
  "server_answer t u pdu_length c w = do {
     (r, c') \<leftarrow> handle_request c (drop 7 (mrx_buffer c)) pdu_length MODBUS_MAX_PDU_SIZE;
     let w1 = upd_ctx (\<lambda>_. c') w;
     (case r of
        Inl e \<Rightarrow> Some (Inl e, w1)
      | Inr resp \<Rightarrow>
          let w2 = (if is_exception resp
                    then upd_mstats (\<lambda>s. s\<lparr>exceptions_sent := exceptions_sent s + 1\<rparr>) w1 else w1)
          in (case encode_mbap_header MODBUS_MAX_ADU_SIZE t u (of_nat (length resp)) of
                Inl e \<Rightarrow> Some (Inl e, w2)
              | Inr h \<Rightarrow>
                  if MODBUS_MAX_ADU_SIZE < MODBUS_MBAP_SIZE + length resp
                  then Some (Inl MODBUS_ERROR, upd_ctx (\<lambda>c. c\<lparr>mtx_buffer := h @ drop 7 (mtx_buffer c)\<rparr>) w2)
                  else Some (Inr (h @ resp),
                    upd_ctx (\<lambda>c. c\<lparr>mtx_buffer := h @ resp @ drop (7 + length resp) (mtx_buffer c)\<rparr>) w2)))
   }"

definition modbus_server_process :: "clock \<Rightarrow> modbus \<Rightarrow> (int \<times> modbus) option" where
  "modbus_server_process clk w =
     (case mb_ctx w of
        None \<Rightarrow> Some (MODBUS_INVALID_ARG, w)
      | Some c \<Rightarrow>
          if m_state c \<noteq> MODBUS_STATE_CONNECTED then Some (MODBUS_NOT_CONNECTED, w)
          else
            let (r, d, n) = socket_recv clk (socket_fd c) MODBUS_MBAP_SIZE (mb_net w);
                c1 = store_rx 0 d c; w1 = upd_ctx (\<lambda>_. c1) (w\<lparr>mb_net := n\<rparr>);
                bad = upd_mstats (\<lambda>s. s\<lparr>invalid_responses := invalid_responses s + 1\<rparr>) w1
            in if r < int MODBUS_MBAP_SIZE then Some (MODBUS_OK, w1)
               else (case decode_mbap_header (mrx_buffer c1) MODBUS_MBAP_SIZE of
                 Inl _ \<Rightarrow> Some (MODBUS_INVALID_RESP, bad)
               | Inr (t, u, l) \<Rightarrow>
                   if MODBUS_MAX_PDU_SIZE < unat l then Some (MODBUS_INVALID_RESP, bad)
                   else
                     let (r2, d2, n2) = socket_recv clk (socket_fd c) (unat l) n;
                         c2 = store_rx 7 d2 c1; w2 = upd_ctx (\<lambda>_. c2) (w1\<lparr>mb_net := n2\<rparr>)
                     in if r2 < uint l
                        then Some (MODBUS_TIMEOUT, upd_mstats (\<lambda>s. s\<lparr>timeouts := timeouts s + 1\<rparr>) w2)
                        else do {
                          (a, w3) \<leftarrow> server_answer t u (unat l) c2
                             (upd_mstats (\<lambda>s. s\<lparr>requests_received := requests_received s + 1\<rparr>) w2);
                          (case a of
                             Inl e \<Rightarrow> Some (e, w3)
                           | Inr adu \<Rightarrow> do {
                               (r3, n3) \<leftarrow> socket_send clk (socket_fd c) adu (mb_net w3);
                               let w4 = w3\<lparr>mb_net := n3\<rparr>;
                               Some (if r3 < 0 then (MODBUS_ERROR, w4)
                                     else (MODBUS_OK, upd_mstats (\<lambda>s. s\<lparr>responses_sent := responses_sent s + 1,
                                             bytes_sent := bytes_sent s + of_nat (length adu)\<rparr>) w4))
                             })
                        }))"

definition modbus_reset_stats :: "modbus \<Rightarrow> modbus" where
  "modbus_reset_stats w = w\<lparr>mb_stats := zero_mstats\<rparr>"

section \<open>Requests are answered safely\<close>

definition table_ok :: "'a list option \<Rightarrow> u16 \<Rightarrow> bool" where
  "table_ok t n \<longleftrightarrow> (\<forall>l. t = Some l \<longrightarrow> unat n \<le> length l)"

text \<open>The tables given to \<open>modbus_server_set_data\<close> are as long as the caller says.\<close>

definition tables_ok :: "modbus_ctx \<Rightarrow> bool" where
  "tables_ok c \<longleftrightarrow> table_ok (holding_regs c) (num_holding_regs c) \<and> table_ok (input_regs c) (num_input_regs c) \<and>
     table_ok (coils c) (num_coils c) \<and> table_ok (discrete_inputs c) (num_discrete_inputs c)"

text \<open>What a handler may change.\<close>

definition same_layout :: "modbus_ctx \<Rightarrow> modbus_ctx \<Rightarrow> bool" where
  "same_layout c c' \<longleftrightarrow> (\<exists>hr co. c' = c\<lparr>holding_regs := hr, coils := co\<rparr> \<and>
     map_option length hr = map_option length (holding_regs c) \<and>
     map_option length co = map_option length (coils c))"

definition pdu_ok :: "int + u8 list \<Rightarrow> bool" where
  "pdu_ok r \<longleftrightarrow> (case r of Inl e \<Rightarrow> e < 0 | Inr p \<Rightarrow> 2 \<le> length p \<and> length p \<le> MODBUS_MAX_PDU_SIZE)"

definition answered :: "modbus_ctx \<Rightarrow> handler_result \<Rightarrow> bool" where
  "answered c res \<longleftrightarrow> (\<exists>r c'. res = Some (r, c') \<and> pdu_ok r \<and> same_layout c c' \<and>
     (case r of Inl _ \<Rightarrow> c' = c | Inr p \<Rightarrow> is_exception p \<longrightarrow> c' = c))"

lemma table_ok_same: "table_ok t n \<Longrightarrow> map_option length t' = map_option length t \<Longrightarrow> table_ok t' n"
  by (cases t; cases t') (auto simp: table_ok_def)

lemma same_layout_ok: "same_layout c c' \<Longrightarrow> tables_ok c \<Longrightarrow> tables_ok c'"
  by (auto simp: same_layout_def tables_ok_def intro: table_ok_same)

lemma same_layout_refl: "same_layout c c"
  unfolding same_layout_def by (rule exI [of _ "holding_regs c"], rule exI [of _ "coils c"]) simp

lemma answered_code [intro]: "e < 0 \<Longrightarrow> answered c (Some (Inl e, c))"
  by (simp add: answered_def pdu_ok_def same_layout_refl)

lemma answered_exception [intro]: "answered c (reply_exception MODBUS_MAX_PDU_SIZE req e c)"
  by (simp add: answered_def reply_exception_def encode_exception_def pdu_ok_def same_layout_refl)

lemma answered_pdu: "2 \<le> length p \<Longrightarrow> length p \<le> MODBUS_MAX_PDU_SIZE \<Longrightarrow> answered c (Some (Inr p, c))"
  by (simp add: answered_def pdu_ok_def same_layout_refl)

lemma table_read_ok: "table_ok (Some t) n \<Longrightarrow> a + k \<le> unat n \<Longrightarrow>
    \<exists>vs. table_read t a k = Some vs \<and> length vs = k"
  by (auto simp: table_ok_def table_read_def)

lemma table_write_ok: "table_ok (Some t) n \<Longrightarrow> a + length vs \<le> unat n \<Longrightarrow>
    \<exists>t'. table_write t a vs = Some t' \<and> length t' = length t"
  by (auto simp: table_ok_def table_write_def)

lemma read_bits_answered:
  assumes "table_ok t n"
  shows "answered c (handle_read_bits t n c req l MODBUS_MAX_PDU_SIZE)"
proof -
  let ?a = "unat (modbus_ntohs (get16 req 1))" and ?q = "unat (modbus_ntohs (get16 req 3))"
  have "answered c (do { vs \<leftarrow> table_read t' ?a ?q; Some (Inr (req ! 0 # of_nat ((?q + 7) div 8) # pack_bits vs), c) })"
    if t: "t = Some t'" "\<not> unat n < ?a + ?q" "\<not> MODBUS_MAX_COILS < ?q" for t'
  proof -
    obtain vs where "table_read t' ?a ?q = Some vs" "length vs = ?q"
      using table_read_ok [of t' n ?a ?q] assms t by auto
    then show ?thesis using t(3) by (auto intro!: answered_pdu)
  qed
  then show ?thesis
    unfolding handle_read_bits_def Let_def by (auto split: option.split)
qed

lemma read_regs_answered:
  assumes "table_ok t n"
  shows "answered c (handle_read_regs t n c req l MODBUS_MAX_PDU_SIZE)"
proof -
  let ?a = "unat (modbus_ntohs (get16 req 1))" and ?q = "unat (modbus_ntohs (get16 req 3))"
  have "answered c (do { vs \<leftarrow> table_read t' ?a ?q; Some (Inr (req ! 0 # of_nat (?q * 2) # encode_regs vs), c) })"
    if t: "t = Some t'" "\<not> unat n < ?a + ?q" "\<not> MODBUS_MAX_REGISTERS < ?q" for t'
  proof -
    obtain vs where "table_read t' ?a ?q = Some vs" "length vs = ?q"
      using table_read_ok [of t' n ?a ?q] assms t by auto
    then show ?thesis using t(3) by (auto intro!: answered_pdu)
  qed
  then show ?thesis
    unfolding handle_read_regs_def Let_def by (auto split: option.split)
qed

lemma answered_write_regs:
  assumes "tables_ok c" "holding_regs c = Some t" "a + length vs \<le> unat (num_holding_regs c)" "5 \<le> length req"
    and "\<not> is_exception req"
  shows "answered c (do { t' \<leftarrow> table_write t a vs; Some (Inr (take 5 req), c\<lparr>holding_regs := Some t'\<rparr>) })"
proof -
  obtain t' where "table_write t a vs = Some t'" "length t' = length t"
    using table_write_ok [of t "num_holding_regs c" a vs] assms by (auto simp: tables_ok_def)
  moreover have "same_layout c (c\<lparr>holding_regs := Some t'\<rparr>)" if "length t' = length t"
    unfolding same_layout_def using that assms(2)
    by (intro exI [of _ "Some t'"] exI [of _ "coils c"]) simp
  ultimately show ?thesis using assms(4,5) by (simp add: answered_def pdu_ok_def is_exception_def)
qed

lemma answered_write_coils:
  assumes "tables_ok c" "coils c = Some t" "a + length vs \<le> unat (num_coils c)" "5 \<le> length req"
    and "\<not> is_exception req"
  shows "answered c (do { t' \<leftarrow> table_write t a vs; Some (Inr (take 5 req), c\<lparr>coils := Some t'\<rparr>) })"
proof -
  obtain t' where "table_write t a vs = Some t'" "length t' = length t"
    using table_write_ok [of t "num_coils c" a vs] assms by (auto simp: tables_ok_def)
  moreover have "same_layout c (c\<lparr>coils := Some t'\<rparr>)" if "length t' = length t"
    unfolding same_layout_def using that assms(2)
    by (intro exI [of _ "holding_regs c"] exI [of _ "Some t'"]) simp
  ultimately show ?thesis using assms(4,5) by (simp add: answered_def pdu_ok_def is_exception_def)
qed

lemma length_unpack_bits [simp]: "length (unpack_bits d n) = n"
  by (simp add: unpack_bits_def)

lemma length_decode_regs [simp]: "length (decode_regs d n) = n"
  by (simp add: decode_regs_def)

lemma below_num: "\<not> n \<le> (a :: u16) \<Longrightarrow> unat a + 1 \<le> unat n"
  by (simp add: word_le_nat_alt)

lemma single_coil_answered:
  assumes "tables_ok c" "l \<le> length req" "\<not> is_exception req"
  shows "answered c (handle_write_single_coil c req l MODBUS_MAX_PDU_SIZE)"
proof -
  let ?a = "modbus_ntohs (get16 req 1)"
  show ?thesis
    using answered_write_coils [OF assms(1), of _ "unat ?a" "[_]" req] assms(2,3) below_num [of "num_coils c" ?a]
    unfolding handle_write_single_coil_def Let_def by (auto split: option.split)
qed

lemma single_register_answered:
  assumes "tables_ok c" "l \<le> length req" "\<not> is_exception req"
  shows "answered c (handle_write_single_register c req l MODBUS_MAX_PDU_SIZE)"
proof -
  let ?a = "modbus_ntohs (get16 req 1)"
  show ?thesis
    using answered_write_regs [OF assms(1), of _ "unat ?a" "[_]" req] assms(2,3) below_num [of "num_holding_regs c" ?a]
    unfolding handle_write_single_register_def Let_def by (auto split: option.split)
qed

lemma multiple_coils_answered:
  assumes "tables_ok c" "l \<le> length req" "\<not> is_exception req"
  shows "answered c (handle_write_multiple_coils c req l MODBUS_MAX_PDU_SIZE)"
  using answered_write_coils [OF assms(1), of _ "unat (modbus_ntohs (get16 req 1))"
      "unpack_bits (drop 6 req) (unat (modbus_ntohs (get16 req 3)))" req] assms(2,3)
  unfolding handle_write_multiple_coils_def Let_def by (auto split: option.split)

lemma multiple_registers_answered:
  assumes "tables_ok c" "l \<le> length req" "\<not> is_exception req"
  shows "answered c (handle_write_multiple_registers c req l MODBUS_MAX_PDU_SIZE)"
  using answered_write_regs [OF assms(1), of _ "unat (modbus_ntohs (get16 req 1))"
      "decode_regs (drop 6 req) (unat (modbus_ntohs (get16 req 3)))" req] assms(2,3)
  unfolding handle_write_multiple_registers_def Let_def by (auto split: option.split)

lemmas handlers_answered = single_coil_answered single_register_answered multiple_coils_answered
  multiple_registers_answered

lemma request_answered:
  assumes "tables_ok c" "l \<le> length req"
  shows "answered c (handle_request c req l MODBUS_MAX_PDU_SIZE)"
  using handlers_answered [OF assms] assms(1)
  unfolding handle_request_def Let_def handle_read_coils_def handle_read_discrete_inputs_def
    handle_read_holding_registers_def handle_read_input_registers_def tables_ok_def
  by (auto simp: is_exception_def intro: read_bits_answered read_regs_answered)

section \<open>Requests against the tables\<close>

lemma pdu_fields [codec_simps]:
  "get16 (fc # le16 x @ r) (Suc 0) = x" "get16 (fc # le16 x @ le16 y @ r) 3 = y"
  "get16 (fc # le16 x @ le16 y) 3 = y" "(fc # le16 x @ le16 y @ b # r) ! 5 = b"
  "(le16 x @ le16 y @ b # r) ! 4 = b" "drop 6 (fc # le16 x @ le16 y @ b # r) = r" "get16 (fc # le16 x) (Suc 0) = x"
  "take 5 (fc # le16 x @ le16 y @ r) = fc # le16 x @ le16 y"
  by (simp_all add: codec_simps nth_append)

lemma decode_regs_exact [codec_simps]: "decode_regs (encode_regs vs) (length vs) = vs"
  using decode_encode_regs [of vs "[]"] by simp

lemma unpack_pack_exact [codec_simps]:
  "unpack_bits (pack_bits vs) (length vs) = map (\<lambda>v. if v \<noteq> 0 then 1 else 0) vs"
  using unpack_pack [of vs "[]"] by simp

text \<open>The view of a table: the entries the server admits.\<close>

definition table_view :: "'a list option \<Rightarrow> u16 \<Rightarrow> 'a list" where
  "table_view t n = take (unat n) (case t of None \<Rightarrow> [] | Some l \<Rightarrow> l)"

text \<open>A read or write request made by the encoders of the client, served, and checked as the
  client does.\<close>

definition put_regs :: "nat \<Rightarrow> u16 list \<Rightarrow> modbus_ctx \<Rightarrow> modbus_ctx option" where
  "put_regs a vs c =
     (case encode_write_multiple_regs MODBUS_MAX_PDU_SIZE (of_nat a) (of_nat (length vs)) vs of
        Some (Inr pdu) \<Rightarrow>
          (case handle_request c pdu (length pdu) MODBUS_MAX_PDU_SIZE of
             Some (Inr resp, c') \<Rightarrow>
               if verify_range (of_nat a) (of_nat (length vs)) resp (length resp) = MODBUS_OK then Some c' else None
           | _ \<Rightarrow> None)
      | _ \<Rightarrow> None)"

definition get_regs :: "nat \<Rightarrow> nat \<Rightarrow> modbus_ctx \<Rightarrow> u16 list option" where
  "get_regs a n c =
     (case encode_read_regs MODBUS_MAX_PDU_SIZE FC_READ_HOLDING_REGS (of_nat a) (of_nat n) of
        Inr pdu \<Rightarrow>
          (case handle_request c pdu (length pdu) MODBUS_MAX_PDU_SIZE of
             Some (Inr resp, _) \<Rightarrow>
               (case decode_read_regs_response resp (length resp) (of_nat n) of Inr vs \<Rightarrow> Some vs | _ \<Rightarrow> None)
           | _ \<Rightarrow> None)
      | _ \<Rightarrow> None)"

definition put_coils :: "nat \<Rightarrow> u8 list \<Rightarrow> modbus_ctx \<Rightarrow> modbus_ctx option" where
  "put_coils a vs c =
     (case encode_write_multiple_coils MODBUS_MAX_PDU_SIZE (of_nat a) (of_nat (length vs)) (pack_bits vs) of
        Some (Inr pdu) \<Rightarrow>
          (case handle_request c pdu (length pdu) MODBUS_MAX_PDU_SIZE of
             Some (Inr resp, c') \<Rightarrow>
               if verify_range (of_nat a) (of_nat (length vs)) resp (length resp) = MODBUS_OK then Some c' else None
           | _ \<Rightarrow> None)
      | _ \<Rightarrow> None)"

definition get_coils :: "nat \<Rightarrow> nat \<Rightarrow> modbus_ctx \<Rightarrow> u8 list option" where
  "get_coils a n c =
     (case encode_read_bits MODBUS_MAX_PDU_SIZE FC_READ_COILS (of_nat a) (of_nat n) of
        Inr pdu \<Rightarrow>
          (case handle_request c pdu (length pdu) MODBUS_MAX_PDU_SIZE of
             Some (Inr resp, _) \<Rightarrow>
               (case decode_read_bits_response resp (length resp) (of_nat n) of
                  Inr d \<Rightarrow> Some (unpack_bits d n) | _ \<Rightarrow> None)
           | _ \<Rightarrow> None)
      | _ \<Rightarrow> None)"

lemma table_write_view:
  assumes "table_ok (Some t) n" "a + length vs \<le> unat n" "table_write t a vs = Some t'"
  shows "table_view (Some t') n = take a (table_view (Some t) n) @ vs @
           drop (a + length vs) (table_view (Some t) n)"
proof -
  have "a \<le> unat n" "length vs \<le> unat n - a" using assms(2) by simp_all
  with assms show ?thesis
    by (auto simp: table_ok_def table_write_def table_view_def drop_take split: if_splits)
qed

lemma table_read_view:
  assumes "table_ok (Some t) n" "a + k \<le> unat n"
  shows "table_read t a k = Some (take k (drop a (table_view (Some t) n)))"
  using assms by (simp add: table_ok_def table_read_def table_view_def drop_take min_def)

lemma u16_small: "k < 65536 \<Longrightarrow> unat (of_nat k :: u16) = k"
  by (simp add: unat_of_nat)

lemma u8_small: "k < 256 \<Longrightarrow> unat (of_nat k :: u8) = k"
  by (simp add: unat_of_nat)

lemma u16_bound: "unat (n :: u16) < 65536"
  using unsigned_less_nat [of n] by simp

lemma put_regs_ok:
  assumes ok: "tables_ok c" "holding_regs c = Some t"
    and vs: "vs \<noteq> []" "length vs \<le> MODBUS_MAX_WRITE_REGS" "a + length vs \<le> unat (num_holding_regs c)"
  shows "\<exists>t'. put_regs a vs c = Some (c\<lparr>holding_regs := Some t'\<rparr>) \<and> table_write t a vs = Some t' \<and>
           length t' = length t"
proof -
  have tok: "table_ok (Some t) (num_holding_regs c)" using ok by (simp add: tables_ok_def)
  obtain t' where t': "table_write t a vs = Some t'" "length t' = length t"
    using table_write_ok [OF tok vs(3)] by auto
  have n: "unat (of_nat (length vs) :: u16) = length vs" "unat (of_nat a :: u16) = a"
    "unat (of_nat (length vs) * 2 :: u8) = length vs * 2"
    using vs u16_bound [of "num_holding_regs c"] u8_small [of "length vs * 2"] by (auto intro!: u16_small)
  define pdu where "pdu = FC_WRITE_MULTIPLE_REGS # le16 (modbus_htons (of_nat a)) @
      le16 (modbus_htons (of_nat (length vs))) @ of_nat (length vs * 2) # encode_regs vs"
  have enc: "encode_write_multiple_regs MODBUS_MAX_PDU_SIZE (of_nat a) (of_nat (length vs)) vs = Some (Inr pdu)"
    using vs(2) by (simp add: encode_write_multiple_regs_def n pdu_def Let_def)
  have "handle_request c pdu (length pdu) MODBUS_MAX_PDU_SIZE = Some (Inr (take 5 pdu), c\<lparr>holding_regs := Some t'\<rparr>)"
    using vs t' ok(2)
    by (simp add: handle_request_def handle_write_multiple_registers_def Let_def pdu_def codec_simps n)
  moreover have "verify_range (of_nat a) (of_nat (length vs)) (take 5 pdu) 5 = MODBUS_OK"
    by (simp add: verify_range_def decode_write_response_def is_exception_def pdu_def codec_simps)
  moreover have "length (take 5 pdu) = 5" by (simp add: pdu_def)
  ultimately show ?thesis using t' by (simp add: put_regs_def enc del: length_take)
qed

lemma get_regs_ok:
  assumes ok: "tables_ok c" "holding_regs c = Some t"
    and n: "0 < n" "n \<le> MODBUS_MAX_REGISTERS" "a + n \<le> unat (num_holding_regs c)"
  shows "get_regs a n c = table_read t a n"
proof -
  have tok: "table_ok (Some t) (num_holding_regs c)" using ok by (simp add: tables_ok_def)
  obtain vs where vs: "table_read t a n = Some vs" "length vs = n"
    using table_read_ok [OF tok n(3)] by auto
  have u: "unat (of_nat n :: u16) = n" "unat (of_nat a :: u16) = a" "unat (of_nat n * 2 :: u8) = n * 2"
    using n u16_bound [of "num_holding_regs c"] u8_small [of "n * 2"] by (auto intro!: u16_small)
  define pdu where "pdu = FC_READ_HOLDING_REGS # le16 (modbus_htons (of_nat a)) @ le16 (modbus_htons (of_nat n))"
  define resp where "resp = FC_READ_HOLDING_REGS # of_nat n * 2 # encode_regs vs"
  have "encode_read_regs MODBUS_MAX_PDU_SIZE FC_READ_HOLDING_REGS (of_nat a) (of_nat n) = Inr pdu"
    by (simp add: encode_read_regs_def pdu_def)
  moreover have "handle_request c pdu (length pdu) MODBUS_MAX_PDU_SIZE = Some (Inr resp, c)"
    using n vs ok(2)
    by (simp add: handle_request_def handle_read_holding_registers_def handle_read_regs_def Let_def
        pdu_def resp_def codec_simps u)
  moreover have "decode_read_regs_response resp (length resp) (of_nat n) = Inr vs"
    using vs(2) by (auto simp: decode_read_regs_response_def is_exception_def resp_def u codec_simps)
  ultimately show ?thesis by (simp add: get_regs_def vs(1))
qed

lemma put_coils_ok:
  assumes ok: "tables_ok c" "coils c = Some t"
    and vs: "vs \<noteq> []" "length vs \<le> MODBUS_MAX_WRITE_COILS" "a + length vs \<le> unat (num_coils c)"
  defines "bs \<equiv> map (\<lambda>v. if v \<noteq> 0 then 1 else 0) vs"
  shows "\<exists>t'. put_coils a vs c = Some (c\<lparr>coils := Some t'\<rparr>) \<and> table_write t a bs = Some t' \<and>
           length t' = length t"
proof -
  let ?b = "(length vs + 7) div 8"
  have tok: "table_ok (Some t) (num_coils c)" using ok by (simp add: tables_ok_def)
  obtain t' where t': "table_write t a bs = Some t'" "length t' = length t"
    using table_write_ok [OF tok, of a bs] vs(3) by (auto simp: bs_def)
  have b: "?b < 256" using vs(2) by linarith
  have n: "unat (of_nat (length vs) :: u16) = length vs" "unat (of_nat a :: u16) = a" "unat (of_nat ?b :: u8) = ?b"
    using vs u16_bound [of "num_coils c"] by (auto intro!: u16_small u8_small [OF b])
  define pdu where "pdu = FC_WRITE_MULTIPLE_COILS # le16 (modbus_htons (of_nat a)) @
      le16 (modbus_htons (of_nat (length vs))) @ of_nat ?b # pack_bits vs"
  have enc: "encode_write_multiple_coils MODBUS_MAX_PDU_SIZE (of_nat a) (of_nat (length vs)) (pack_bits vs) = Some (Inr pdu)"
    using vs(2) by (simp add: encode_write_multiple_coils_def n pdu_def Let_def)
  have "handle_request c pdu (length pdu) MODBUS_MAX_PDU_SIZE = Some (Inr (take 5 pdu), c\<lparr>coils := Some t'\<rparr>)"
    using vs t' ok(2)
    by (simp add: handle_request_def handle_write_multiple_coils_def Let_def pdu_def codec_simps n bs_def)
  moreover have "verify_range (of_nat a) (of_nat (length vs)) (take 5 pdu) 5 = MODBUS_OK"
    by (simp add: verify_range_def decode_write_response_def is_exception_def pdu_def codec_simps)
  moreover have "length (take 5 pdu) = 5" by (simp add: pdu_def)
  ultimately show ?thesis using t' by (simp add: put_coils_def enc del: length_take)
qed

lemma get_coils_ok:
  assumes ok: "tables_ok c" "coils c = Some t"
    and n: "0 < n" "n \<le> MODBUS_MAX_COILS" "a + n \<le> unat (num_coils c)"
  shows "get_coils a n c = map_option (map (\<lambda>v. if v \<noteq> 0 then 1 else 0)) (table_read t a n)"
proof -
  let ?b = "(n + 7) div 8"
  have tok: "table_ok (Some t) (num_coils c)" using ok by (simp add: tables_ok_def)
  obtain vs where vs: "table_read t a n = Some vs" "length vs = n"
    using table_read_ok [OF tok n(3)] by auto
  have b: "?b < 256" using n(2) by linarith
  have u: "unat (of_nat n :: u16) = n" "unat (of_nat a :: u16) = a" "unat (of_nat ?b :: u8) = ?b"
    using n u16_bound [of "num_coils c"] by (auto intro!: u16_small u8_small [OF b])
  define pdu where "pdu = FC_READ_COILS # le16 (modbus_htons (of_nat a)) @ le16 (modbus_htons (of_nat n))"
  define resp where "resp = FC_READ_COILS # of_nat ?b # pack_bits vs"
  have "encode_read_bits MODBUS_MAX_PDU_SIZE FC_READ_COILS (of_nat a) (of_nat n) = Inr pdu"
    by (simp add: encode_read_bits_def pdu_def)
  moreover have "handle_request c pdu (length pdu) MODBUS_MAX_PDU_SIZE = Some (Inr resp, c)"
    using n vs ok(2)
    by (simp add: handle_request_def handle_read_coils_def handle_read_bits_def Let_def
        pdu_def resp_def codec_simps u)
  moreover have "decode_read_bits_response resp (length resp) (of_nat n) = Inr (pack_bits vs)"
    using vs(2) by (simp add: decode_read_bits_response_def is_exception_def resp_def u)
  moreover have "unpack_bits (pack_bits vs) n = map (\<lambda>v. if v \<noteq> 0 then 1 else 0) vs"
    using unpack_pack_exact [of vs] vs(2) by simp
  ultimately show ?thesis by (simp add: get_coils_def vs(1))
qed

section \<open>The tables as arrays\<close>

definition regs_view :: "modbus_ctx \<Rightarrow> u16 list" where
  "regs_view c = table_view (holding_regs c) (num_holding_regs c)"

definition coils_view :: "modbus_ctx \<Rightarrow> u8 list" where
  "coils_view c = table_view (coils c) (num_coils c)"

definition coil_value :: "u8 \<Rightarrow> u8" where
  "coil_value v = (if v \<noteq> 0 then 1 else 0)"

lemma view_some: "tables_ok c \<Longrightarrow> 0 < n \<Longrightarrow> a + n \<le> length (regs_view c) \<Longrightarrow>
    \<exists>t. holding_regs c = Some t \<and> a + n \<le> unat (num_holding_regs c)"
  "tables_ok c \<Longrightarrow> 0 < n \<Longrightarrow> a + n \<le> length (coils_view c) \<Longrightarrow>
    \<exists>t. coils c = Some t \<and> a + n \<le> unat (num_coils c)"
  by (auto simp: regs_view_def coils_view_def table_view_def split: option.splits)

interpretation regs: data_table tables_ok regs_view put_regs get_regs id MODBUS_MAX_WRITE_REGS MODBUS_MAX_REGISTERS
proof
  fix c a and vs :: "u16 list"
  assume ok: "tables_ok c" and vs: "vs \<noteq> []" "length vs \<le> MODBUS_MAX_WRITE_REGS" "a + length vs \<le> length (regs_view c)"
  obtain t where t: "holding_regs c = Some t" "a + length vs \<le> unat (num_holding_regs c)"
    using view_some(1) [OF ok, of "length vs" a] vs by auto
  then obtain t' where t': "put_regs a vs c = Some (c\<lparr>holding_regs := Some t'\<rparr>)" "table_write t a vs = Some t'"
    "length t' = length t"
    using put_regs_ok [OF ok t(1) vs(1,2)] by auto
  have tok: "table_ok (Some t) (num_holding_regs c)" using ok t by (simp add: tables_ok_def)
  have "regs_view (c\<lparr>holding_regs := Some t'\<rparr>) = overlay a vs (regs_view c)"
    using table_write_view [OF tok t(2) t'(2)] t(1) by (simp add: regs_view_def overlay_def)
  moreover have "tables_ok (c\<lparr>holding_regs := Some t'\<rparr>)"
    using ok t(1) t'(3) by (simp add: tables_ok_def table_ok_def)
  ultimately show "\<exists>c'. put_regs a vs c = Some c' \<and> tables_ok c' \<and> regs_view c' = overlay a (map id vs) (regs_view c)"
    using t'(1) by simp
next
  fix c a n
  assume ok: "tables_ok c" and n: "0 < n" "n \<le> MODBUS_MAX_REGISTERS" "a + n \<le> length (regs_view c)"
  obtain t where t: "holding_regs c = Some t" "a + n \<le> unat (num_holding_regs c)"
    using view_some(1) [OF ok n(1,3)] by auto
  then show "get_regs a n c = Some (map id (take n (drop a (regs_view c))))"
    using get_regs_ok [OF ok t(1) n(1,2) t(2)] table_read_view [of t "num_holding_regs c" a n] ok
    by (simp add: regs_view_def tables_ok_def)
qed simp_all

interpretation bits: data_table tables_ok coils_view put_coils get_coils coil_value MODBUS_MAX_WRITE_COILS MODBUS_MAX_COILS
proof
  fix c a and vs :: "u8 list"
  assume ok: "tables_ok c" and vs: "vs \<noteq> []" "length vs \<le> MODBUS_MAX_WRITE_COILS" "a + length vs \<le> length (coils_view c)"
  let ?bs = "map coil_value vs"
  obtain t where t: "coils c = Some t" "a + length vs \<le> unat (num_coils c)"
    using view_some(2) [OF ok, of "length vs" a] vs by auto
  then obtain t' where t': "put_coils a vs c = Some (c\<lparr>coils := Some t'\<rparr>)" "table_write t a ?bs = Some t'"
    "length t' = length t"
    using put_coils_ok [OF ok t(1) vs(1,2)] unfolding coil_value_def by auto
  have tok: "table_ok (Some t) (num_coils c)" using ok t by (simp add: tables_ok_def)
  have "coils_view (c\<lparr>coils := Some t'\<rparr>) = overlay a ?bs (coils_view c)"
    using table_write_view [OF tok _ t'(2)] t by (simp add: coils_view_def overlay_def)
  moreover have "tables_ok (c\<lparr>coils := Some t'\<rparr>)"
    using ok t(1) t'(3) by (simp add: tables_ok_def table_ok_def)
  ultimately show "\<exists>c'. put_coils a vs c = Some c' \<and> tables_ok c' \<and> coils_view c' = overlay a ?bs (coils_view c)"
    using t'(1) by simp
next
  fix c a n
  assume ok: "tables_ok c" and n: "0 < n" "n \<le> MODBUS_MAX_COILS" "a + n \<le> length (coils_view c)"
  obtain t where t: "coils c = Some t" "a + n \<le> unat (num_coils c)"
    using view_some(2) [OF ok n(1,3)] by auto
  then show "get_coils a n c = Some (map coil_value (take n (drop a (coils_view c))))"
    using get_coils_ok [OF ok t(1) n(1,2) t(2)] table_read_view [of t "num_coils c" a n] ok
    by (simp add: coils_view_def tables_ok_def coil_value_def fun_eq_iff)
qed (simp_all add: coil_value_def)

section \<open>Properties of the request handlers\<close>

text \<open>
  C38. The server answers every request, whatever its bytes, without leaving the tables: it
  returns a negative code or a response that fits in the PDU buffer, the tables keep their
  sizes, and a request that is refused changes nothing.
\<close>

theorem modbus_requests_safe:
  assumes "tables_ok c" "l \<le> length req"
  shows "\<exists>r c'. handle_request c req l MODBUS_MAX_PDU_SIZE = Some (r, c') \<and> tables_ok c' \<and>
           (case r of Inl e \<Rightarrow> e < 0 \<and> c' = c
            | Inr p \<Rightarrow> 2 \<le> length p \<and> length p \<le> MODBUS_MAX_PDU_SIZE \<and> (is_exception p \<longrightarrow> c' = c))"
proof -
  obtain r c' where "handle_request c req l MODBUS_MAX_PDU_SIZE = Some (r, c')" "pdu_ok r" "same_layout c c'"
    "case r of Inl _ \<Rightarrow> c' = c | Inr p \<Rightarrow> is_exception p \<longrightarrow> c' = c"
    using request_answered [OF assms] unfolding answered_def by blast
  then show ?thesis
    using same_layout_ok [of c c'] assms(1) by (cases r) (simp_all add: pdu_ok_def)
qed

text \<open>A server with four registers and nine coils.\<close>

definition mctx0 :: modbus_ctx where
  "mctx0 = \<lparr>m_mode = MODBUS_MODE_TCP, m_state = MODBUS_STATE_CONNECTED, socket_fd = 0, m_remote_ip = 0,
     m_remote_port = 502, unit_id = 1, transaction_id = 1, timeout_ms = 1000,
     mtx_buffer = replicate MODBUS_MAX_ADU_SIZE 0, mrx_buffer = replicate MODBUS_MAX_ADU_SIZE 0,
     mrx_length = 0, holding_regs = Some [10, 11, 12, 13], input_regs = None,
     coils = Some [0, 1, 0, 7, 0, 0, 0, 0, 1], discrete_inputs = None, num_holding_regs = 4,
     num_input_regs = 0, num_coils = 9, num_discrete_inputs = 0\<rparr>"

lemma mctx0_ok: "tables_ok mctx0" "regs_view mctx0 = [10, 11, 12, 13]"
  "coils_view mctx0 = [0, 1, 0, 7, 0, 0, 0, 0, 1]"
  by (simp_all add: tables_ok_def table_ok_def mctx0_def regs_view_def coils_view_def table_view_def)

theorem modbus_requests_safe_witness:
  "\<exists>r c'. handle_request mctx0 [6, 0, 1, 0, 42] 5 MODBUS_MAX_PDU_SIZE = Some (r, c') \<and> tables_ok c'"
  using modbus_requests_safe [OF mctx0_ok(1), of 5 "[6, 0, 1, 0, 42]"] by auto

text \<open>
  C7. The holding registers refine an array: any sequence of write requests made by the client's
  encoder within the table is accepted, and every read request then returns the registers as the
  writes left them.
\<close>

theorem modbus_registers_refine_array:
  assumes "tables_ok c"
    and "\<forall>(a, vs) \<in> set ws. vs \<noteq> [] \<and> length vs \<le> MODBUS_MAX_WRITE_REGS \<and> a + length vs \<le> length (regs_view c)"
  shows "\<exists>c'. put_all put_regs ws c = Some c' \<and>
           (\<forall>a n. 0 < n \<and> n \<le> MODBUS_MAX_REGISTERS \<and> a + n \<le> length (regs_view c) \<longrightarrow>
              get_regs a n c' = Some (take n (drop a (overlay_all id ws (regs_view c)))))"
proof -
  have "\<forall>w\<in>set ws. regs.fits (length (regs_view c)) w"
    using assms(2) by (auto simp: regs.fits_def)
  from regs.refines_array [OF assms(1) this] show ?thesis by simp
qed

theorem modbus_registers_refine_array_witness:
  "\<exists>c'. put_all put_regs [(1, [7, 8]), (2, [9])] mctx0 = Some c' \<and> get_regs 0 4 c' = Some [10, 7, 9, 13]"
  using modbus_registers_refine_array [OF mctx0_ok(1), of "[(1, [7, 8]), (2, [9])]"]
  by (auto simp: mctx0_ok(2) overlay_def)

text \<open>
  The coils refine an array of bits in the same way: a written value is kept as 0 or 1,
  through the packing of eight coils to a byte in both directions.
\<close>

theorem modbus_coils_refine_array:
  assumes "tables_ok c"
    and "\<forall>(a, vs) \<in> set ws. vs \<noteq> [] \<and> length vs \<le> MODBUS_MAX_WRITE_COILS \<and> a + length vs \<le> length (coils_view c)"
  shows "\<exists>c'. put_all put_coils ws c = Some c' \<and>
           (\<forall>a n. 0 < n \<and> n \<le> MODBUS_MAX_COILS \<and> a + n \<le> length (coils_view c) \<longrightarrow>
              get_coils a n c' = Some (map coil_value (take n (drop a (overlay_all coil_value ws (coils_view c))))))"
proof -
  have "\<forall>w\<in>set ws. bits.fits (length (coils_view c)) w"
    using assms(2) by (auto simp: bits.fits_def)
  from bits.refines_array [OF assms(1) this] show ?thesis .
qed

theorem modbus_coils_refine_array_witness:
  "\<exists>c'. put_all put_coils [(0, [1, 0, 1])] mctx0 = Some c' \<and>
     get_coils 0 9 c' = Some [1, 0, 1, 1, 0, 0, 0, 0, 1]"
  using modbus_coils_refine_array [OF mctx0_ok(1), of "[(0, [1, 0, 1])]"]
  by (auto simp: mctx0_ok(3) overlay_def coil_value_def)

end
