(* ===== verification/ModbusFlow.thy ===== *)
theory ModbusFlow
  imports Modbus
begin

text \<open>
  The Modbus client and server of \<open>Modbus\<close> running on sockets: what the client gets back,
  how responses are matched to requests, and what the server does with the bytes of a
  connection.
\<close>

section \<open>The client\<close>

lemma socket_recv_empty:
  "\<not> bad_fd fd n \<Longrightarrow> s_rx_len (sockets n ! nat fd) = 0 \<Longrightarrow> socket_recv c fd k n = (0, [], n)"
  by (simp add: socket_recv_def)

text \<open>Sending does not touch the receive side of a socket.\<close>

lemma socket_send_rx:
  assumes "socket_send c fd d n = Some (r, n')" "\<not> bad_fd fd n" "s_type (sockets n ! nat fd) = SOCK_STREAM"
    and "length (sockets n) = MAX_SOCKETS"
  shows "s_rx_len (sockets n' ! nat fd) = s_rx_len (sockets n ! nat fd) \<and>
    s_active (sockets n' ! nat fd) = s_active (sockets n ! nat fd)"
proof -
  have i: "nat fd < length (sockets n)" using assms(2,4) by (auto simp: bad_fd_def)
  show ?thesis
  proof (cases "s_state (sockets n ! nat fd) = TCP_ESTABLISHED")
    case True
    then obtain n1 where "tcp_send_packet (s_remote_ip (sockets n ! nat fd)) (s_remote_port (sockets n ! nat fd))
        (s_local_port (sockets n ! nat fd)) (s_seq (sockets n ! nat fd)) (s_ack (sockets n ! nat fd))
        (TCP_PSH OR TCP_ACK) d n = Some (r, n1)"
      and "n' = (if 0 \<le> r then upd_sock (nat fd) (\<lambda>s. s\<lparr>s_seq := s_seq s + of_nat (length d),
                             s_last_activity := c_ms c\<rparr>) n1 else n1)"
      using assms(1-3) by (auto simp: socket_send_def Let_def bind_eq_Some_conv)
    then show ?thesis using tcp_send_packet_sockets i by (auto simp: upd_sock_def)
  next
    case False
    then show ?thesis using assms(1-3) by (simp add: socket_send_def Let_def)
  qed
qed

text \<open>\<open>fd\<close> is an open stream socket in state \<open>st\<close> whose receive queue holds \<open>q\<close>.\<close>

definition conn :: "int \<Rightarrow> tcp_state \<Rightarrow> u8 list \<Rightarrow> net \<Rightarrow> bool" where
  "conn fd st q n \<longleftrightarrow> 0 \<le> fd \<and> fd < int MAX_SOCKETS \<and> length (sockets n) = MAX_SOCKETS \<and>
     s_active (sockets n ! nat fd) \<and> s_type (sockets n ! nat fd) = SOCK_STREAM \<and>
     s_state (sockets n ! nat fd) = st \<and> rx_inv (sockets n ! nat fd) \<and>
     rx_contents (sockets n ! nat fd) = q"

lemma conn_fd: "conn fd st q n \<Longrightarrow> \<not> bad_fd fd n \<and> nat fd < length (sockets n)"
  by (auto simp: conn_def bad_fd_def)

lemma rx_len_contents: "rx_inv s \<Longrightarrow> s_rx_len s = length (rx_contents s)"
  by (simp add: rx_inv_def rx_contents_def)

lemma rx_take_same:
  "s_state (snd (rx_take k s)) = s_state s" "s_type (snd (rx_take k s)) = s_type s"
  "s_active (snd (rx_take k s)) = s_active s"
  by (simp_all add: rx_take_def Let_def)

lemma recv_conn:
  assumes "conn fd st q n"
  shows "\<exists>n'. socket_recv c fd k n = (int (length (take k q)), take k q, n') \<and> conn fd st (drop k q) n'"
proof -
  let ?s = "sockets n ! nat fd"
  note l = assms [unfolded conn_def] and fd = conn_fd [OF assms]
  have len: "s_rx_len ?s = length q" using l rx_len_contents by blast
  show ?thesis
  proof (cases "q = []")
    case True
    then show ?thesis using socket_recv_empty [of fd n c k] fd len assms by simp
  next
    case False
    let ?n = "upd_sock (nat fd) (\<lambda>_. (snd (rx_take k ?s))\<lparr>s_last_activity := c_ms c\<rparr>) n"
    have t: "fst (rx_take k ?s) = take k q" "rx_contents (snd (rx_take k ?s)) = drop k q"
      "rx_inv (snd (rx_take k ?s))"
      using rx_take_facts [of ?s k] l by auto
    have r: "socket_recv c fd k n = (int (length (take k q)), take k q, ?n)"
      using fd False len t(1) by (simp add: socket_recv_def split_beta)
    have "conn fd st (drop k q) ?n"
      using l fd t(2,3) by (simp add: conn_def rx_take_same rx_inv_def rx_contents_def)
    with r show ?thesis by blast
  qed
qed

lemma send_conn:
  assumes "conn fd st q n" "socket_send c fd d n = Some (r, n')"
  shows "conn fd st q n'"
proof -
  let ?i = "nat fd"
  note l = assms(1) [unfolded conn_def] and fd = conn_fd [OF assms(1)]
  show ?thesis
  proof (cases "st = TCP_ESTABLISHED")
    case True
    then obtain n1 where p: "tcp_send_packet (s_remote_ip (sockets n ! ?i)) (s_remote_port (sockets n ! ?i))
        (s_local_port (sockets n ! ?i)) (s_seq (sockets n ! ?i)) (s_ack (sockets n ! ?i))
        (TCP_PSH OR TCP_ACK) d n = Some (r, n1)"
      and n': "n' = (if 0 \<le> r then upd_sock ?i (\<lambda>s. s\<lparr>s_seq := s_seq s + of_nat (length d),
                             s_last_activity := c_ms c\<rparr>) n1 else n1)"
      using assms(2) l fd by (auto simp: socket_send_def Let_def bind_eq_Some_conv)
    have "sockets n1 = sockets n" using tcp_send_packet_sockets [OF p] .
    then show ?thesis using l fd n' by (simp add: conn_def rx_inv_def rx_contents_def)
  next
    case False
    then show ?thesis using assms l fd by (simp add: socket_send_def Let_def)
  qed
qed

text \<open>The context \<open>c\<close> is connected over such a socket.\<close>

definition client :: "modbus_ctx \<Rightarrow> tcp_state \<Rightarrow> u8 list \<Rightarrow> modbus \<Rightarrow> bool" where
  "client c st q w \<longleftrightarrow> mb_ctx w = Some c \<and> m_state c = MODBUS_STATE_CONNECTED \<and>
     length (mrx_buffer c) = MODBUS_MAX_ADU_SIZE \<and> conn (socket_fd c) st q (mb_net w)"

lemma receive_raw_client:
  assumes "client c st q w"
  shows "\<exists>w'. modbus_receive_raw clk off k w = (int (length (take k q)), w') \<and>
           mb_ctx w' = Some (store_rx off (take k q) c) \<and> conn (socket_fd c) st (drop k q) (mb_net w') \<and>
           requests_sent (mb_stats w') = requests_sent (mb_stats w)"
proof -
  obtain n' where n': "socket_recv clk (socket_fd c) k (mb_net w) = (int (length (take k q)), take k q, n')"
    "conn (socket_fd c) st (drop k q) n'"
    using recv_conn assms unfolding client_def by blast
  then show ?thesis
    using assms by (simp add: modbus_receive_raw_def client_def modbus_is_connected_def Let_def)
qed

lemma store_rx_simps [simp]:
  "m_state (store_rx off d c) = m_state c" "socket_fd (store_rx off d c) = socket_fd c"
  "transaction_id (store_rx off d c) = transaction_id c"
  by (simp_all add: store_rx_def)

lemma send_request_client:
  assumes "client c st q w" "modbus_send_request clk pdu w = Some (r, w')"
  shows "r \<noteq> MODBUS_OK \<and> r < 0 \<or> r = MODBUS_OK \<and>
    (\<exists>c'. client c' st q w' \<and> transaction_id c' = next_transaction (transaction_id c) \<and>
       requests_sent (mb_stats w') = requests_sent (mb_stats w) + 1)"
proof -
  obtain h where h: "encode_mbap_header MODBUS_MAX_ADU_SIZE (transaction_id c) (unit_id c) (of_nat (length pdu)) = Inr h"
    by (simp add: encode_mbap_header_def)
  let ?w1 = "upd_ctx (\<lambda>c. c\<lparr>mtx_buffer := h @ pdu @ drop (7 + length pdu) (mtx_buffer c)\<rparr>) w"
  note l = assms(1) [unfolded client_def]
  show ?thesis
  proof (cases "MODBUS_MAX_ADU_SIZE < MODBUS_MBAP_SIZE + length pdu")
    case True
    then show ?thesis using assms(2) l h by (simp add: modbus_send_request_def)
  next
    case False
    obtain r1 w2 where send: "modbus_send_raw clk (h @ pdu) ?w1 = Some (r1, w2)"
      and res: "(r, w') = (if r1 < 0 then (r1, w2)
                       else (MODBUS_OK, upd_mstats (\<lambda>s. s\<lparr>requests_sent := requests_sent s + 1\<rparr>)
                          (upd_ctx (\<lambda>c. c\<lparr>transaction_id := next_transaction (transaction_id c)\<rparr>) w2)))"
      using assms(2) l h False by (auto simp: modbus_send_request_def Let_def bind_eq_Some_conv)
    obtain r2 n2 where s: "socket_send clk (socket_fd c) (h @ pdu) (mb_net w) = Some (r2, n2)"
      "r1 < 0 \<longleftrightarrow> r2 < 0"
      "r2 < 0 \<or> w2 = upd_mstats (\<lambda>s. s\<lparr>bytes_sent := bytes_sent s + of_nat (length (h @ pdu))\<rparr>) (?w1\<lparr>mb_net := n2\<rparr>)"
      using send l by (auto simp: modbus_send_raw_def modbus_is_connected_def Let_def bind_eq_Some_conv split: if_splits)
    have "conn (socket_fd c) st q n2" using send_conn s(1) l by blast
    then show ?thesis using res s(2,3) l by (auto simp: client_def)
  qed
qed

lemma mbap_length: "encode_mbap_header m t u l = Inr h \<Longrightarrow> length h = 7"
  by (auto simp: encode_mbap_header_def split: if_splits)

lemma store_rx_front: "length d \<le> length (mrx_buffer c) \<Longrightarrow> take (length d) (mrx_buffer (store_rx 0 d c)) = d"
  by (simp add: store_rx_def)

lemma store_rx_at:
  "off + length d \<le> length (mrx_buffer c) \<Longrightarrow>
     take off (mrx_buffer (store_rx off d c)) = take off (mrx_buffer c) \<and>
     drop off (mrx_buffer (store_rx off d c)) = d @ drop (off + length d) (mrx_buffer c) \<and>
     length (mrx_buffer (store_rx off d c)) = length (mrx_buffer c)"
  by (simp add: store_rx_def)

text \<open>A header read back from the receive buffer.\<close>

lemma stored_header:
  assumes "encode_mbap_header m t u (of_nat (length pdu)) = Inr h" "length pdu \<le> MODBUS_MAX_PDU_SIZE"
    and "length (mrx_buffer c) = MODBUS_MAX_ADU_SIZE"
  shows "decode_mbap_header (mrx_buffer (store_rx 0 h c)) MODBUS_MBAP_SIZE = Inr (t, u, of_nat (length pdu))"
    "unat (of_nat (length pdu) :: u16) = length pdu"
proof -
  show l: "unat (of_nat (length pdu) :: u16) = length pdu"
    using assms(2) by (intro u16_small) simp
  have "(of_nat (length pdu) :: u16) \<noteq> 0xFFFF"
  proof
    assume "(of_nat (length pdu) :: u16) = 0xFFFF"
    then have "unat (of_nat (length pdu) :: u16) = unat (0xFFFF :: u16)" by (rule arg_cong)
    with l assms(2) show False by simp
  qed
  from mbap_roundtrip(1) [OF assms(1) this]
  show "decode_mbap_header (mrx_buffer (store_rx 0 h c)) MODBUS_MBAP_SIZE = Inr (t, u, of_nat (length pdu))"
    by (simp add: store_rx_def)
qed

lemma receive_response_spec:
  assumes cl: "client c st (h @ pdu @ rest) w"
    and h: "encode_mbap_header MODBUS_MAX_ADU_SIZE t u (of_nat (length pdu)) = Inr h"
    and len: "length pdu \<le> MODBUS_MAX_PDU_SIZE"
  shows "\<exists>w'. modbus_receive_response clk w =
           (if uint t = uint (transaction_id c) - 1 then Inr (length pdu) else Inl MODBUS_INVALID_RESP, w') \<and>
         conn (socket_fd c) st (if uint t = uint (transaction_id c) - 1 then rest else pdu @ rest) (mb_net w') \<and>
         (uint t = uint (transaction_id c) - 1 \<longrightarrow>
            take (length pdu) (drop 7 (mrx_buffer (the (mb_ctx w')))) = pdu)"
proof -
  note c = cl [unfolded client_def]
  have hl: "length h = 7" using mbap_length [OF h] .
  obtain w1 where w1: "modbus_receive_raw clk 0 7 w = (7, w1)" "mb_ctx w1 = Some (store_rx 0 h c)"
    "conn (socket_fd c) st (pdu @ rest) (mb_net w1)"
    using receive_raw_client [OF cl, of clk 0 7] hl by auto
  let ?c1 = "store_rx 0 h c"
  have dec: "decode_mbap_header (mrx_buffer ?c1) MODBUS_MBAP_SIZE = Inr (t, u, of_nat (length pdu))"
    and ul: "unat (of_nat (length pdu) :: u16) = length pdu"
    using stored_header [OF h len, of c] c by auto
  have cl1: "client ?c1 st (pdu @ rest) w1"
    using w1 c hl by (simp add: client_def) (simp add: store_rx_def)
  obtain w2 where w2: "modbus_receive_raw clk 7 (length pdu) w1 = (int (length pdu), w2)"
    "mb_ctx w2 = Some (store_rx 7 pdu ?c1)" "conn (socket_fd c) st rest (mb_net w2)"
    using receive_raw_client [OF cl1, of clk 7 "length pdu"] by auto
  have ui: "uint (of_nat (length pdu) :: u16) = int (length pdu)"
    using ul by (metis uint_nat)
  have "take (length pdu) (drop 7 (mrx_buffer (store_rx 7 pdu ?c1))) = pdu"
    using len c hl by (simp add: store_rx_def)
  then show ?thesis
    using w1 w2 dec ul ui c len by (simp add: modbus_receive_response_def)
qed

lemma receive_response_empty:
  assumes "client c st [] w"
  shows "\<exists>w'. modbus_receive_response clk w = (Inl MODBUS_TIMEOUT, w') \<and>
           requests_sent (mb_stats w') = requests_sent (mb_stats w)"
proof -
  obtain w1 where "modbus_receive_raw clk 0 7 w = (0, w1)" "requests_sent (mb_stats w1) = requests_sent (mb_stats w)"
    using receive_raw_client [OF assms, of clk 0 7] by auto
  with assms show ?thesis by (simp add: modbus_receive_response_def client_def)
qed

text \<open>
  A client call that failed with \<open>e\<close>: an error code, and MODBUS_TIMEOUT when the request was sent,
  as the statistics count it.
\<close>

definition gave_up :: "modbus \<Rightarrow> int \<Rightarrow> modbus \<Rightarrow> bool" where
  "gave_up w e w' \<longleftrightarrow> e < 0 \<and> (requests_sent (mb_stats w') = requests_sent (mb_stats w) \<or>
     requests_sent (mb_stats w') = requests_sent (mb_stats w) + 1 \<and> e = MODBUS_TIMEOUT)"

text \<open>The hardware addresses in the stack have six bytes, as their type in the code says.\<close>

definition macs_ok :: "net \<Rightarrow> bool" where
  "macs_ok n \<longleftrightarrow> length (mac_addr (cfg n)) = 6 \<and> (\<forall>e \<in> set (arp_cache n). length (a_mac e) = 6)"

lemma transmit_fits: "length f \<le> ETH_FRAME_MAX \<Longrightarrow> \<exists>r n'. transmit f n = Some (r, n')"
  by (simp add: transmit_def)

lemma tcp_send_packet_returns:
  assumes "macs_ok n" "length d \<le> 1460"
  shows "\<exists>r n'. tcp_send_packet dst dport sport sq ak fl d n = Some (r, n')"
proof (cases "arp_lookup (next_hop dst n) n")
  case None
  have "length (eth_header (replicate 6 0xFF) (mac_addr (cfg n)) 0x0806 @
      arp_header 1 (mac_addr (cfg n)) (htonl (ip_addr (cfg n))) (replicate 6 0) (htonl (next_hop dst n))) \<le> ETH_FRAME_MAX"
    using assms(1) by (simp add: macs_ok_def arp_header_def)
  then show ?thesis using None by (simp add: tcp_send_packet_def arp_request_def transmit_def)
next
  case (Some e)
  then have "e \<in> set (arp_cache n)" by (auto simp: arp_lookup_def find_Some_iff)
  then have "length (a_mac e) = 6" using assms(1) by (simp add: macs_ok_def)
  then have "length (tcp_frame (a_mac e) (cfg n) dst dport sport sq ak fl d) \<le> ETH_FRAME_MAX"
    using assms by (simp add: macs_ok_def)
  from transmit_fits [OF this] Some show ?thesis by (simp add: tcp_send_packet_def Let_def)
qed

lemma socket_send_returns:
  assumes "conn fd st q n" "macs_ok n" "length d \<le> 1460"
  shows "\<exists>r n'. socket_send c fd d n = Some (r, n')"
proof -
  let ?s = "sockets n ! nat fd"
  obtain r n' where "tcp_send_packet (s_remote_ip ?s) (s_remote_port ?s) (s_local_port ?s) (s_seq ?s) (s_ack ?s)
      (TCP_PSH OR TCP_ACK) d n = Some (r, n')"
    using tcp_send_packet_returns [OF assms(2,3)] by blast
  then show ?thesis
    using conn_fd [OF assms(1)] assms(1) by (simp add: socket_send_def conn_def Let_def)
qed

lemma send_request_returns:
  assumes "client c st q w" "macs_ok (mb_net w)"
  shows "\<exists>r w'. modbus_send_request clk pdu w = Some (r, w') \<and>
    (r \<noteq> MODBUS_OK \<longrightarrow> requests_sent (mb_stats w') = requests_sent (mb_stats w))"
proof -
  obtain h where h: "encode_mbap_header MODBUS_MAX_ADU_SIZE (transaction_id c) (unit_id c) (of_nat (length pdu)) = Inr h"
    by (simp add: encode_mbap_header_def)
  note l = assms(1) [unfolded client_def]
  show ?thesis
  proof (cases "MODBUS_MAX_ADU_SIZE < MODBUS_MBAP_SIZE + length pdu")
    case True
    then show ?thesis using l h by (simp add: modbus_send_request_def)
  next
    case False
    then have "length (h @ pdu) \<le> 1460" using mbap_length [OF h] by simp
    then obtain r n' where "socket_send clk (socket_fd c) (h @ pdu) (mb_net w) = Some (r, n')"
      using socket_send_returns assms(2) l by blast
    with False l h show ?thesis
      by (simp add: modbus_send_request_def modbus_send_raw_def modbus_is_connected_def Let_def)
  qed
qed

lemma transact_empty:
  assumes "client c st [] w" "macs_ok (mb_net w)"
  shows "\<exists>e w'. transact clk pdu w = Some (Inl e, w') \<and> gave_up w e w' \<and>
    (\<forall>w1. modbus_send_request clk pdu w = Some (MODBUS_OK, w1) \<longrightarrow> e = MODBUS_TIMEOUT)"
proof -
  obtain r1 w1 where s: "modbus_send_request clk pdu w = Some (r1, w1)"
    and n: "r1 \<noteq> MODBUS_OK \<longrightarrow> requests_sent (mb_stats w1) = requests_sent (mb_stats w)"
    using send_request_returns [OF assms, of clk pdu] by blast
  from send_request_client [OF assms(1) s] show ?thesis
  proof (elim disjE conjE exE)
    assume "r1 \<noteq> MODBUS_OK" "r1 < 0"
    then show ?thesis using s n by (simp add: transact_def gave_up_def)
  next
    fix c' assume r1: "r1 = MODBUS_OK" and c': "client c' st [] w1"
      and sent: "requests_sent (mb_stats w1) = requests_sent (mb_stats w) + 1"
    from receive_response_empty [OF c', of clk] r1 s sent show ?thesis
      by (auto simp: transact_def gave_up_def)
  qed
qed

lemma guard_gave_up: "client_guard b m k w = Some e \<Longrightarrow> gave_up w e w"
  by (auto simp: client_guard_def gave_up_def split: if_splits)

text \<open>A reading or a writing function behind its guards.\<close>

lemma client_read_empty:
  assumes "client c st [] w" "macs_ok (mb_net w)" "\<exists>pdu. req = Inr pdu"
  shows "\<exists>e w'. (case client_guard b m k w of Some e \<Rightarrow> Some (Inl e, w) | None \<Rightarrow> client_read req decode clk w) = Some (Inl e, w') \<and>
    gave_up w e w'"
proof (cases "client_guard b m k w")
  case None
  obtain pdu where "req = Inr pdu" using assms(3) by blast
  with None transact_empty [OF assms(1,2), of clk pdu] show ?thesis by (auto simp: client_read_def)
qed (auto dest: guard_gave_up)

lemma client_write_empty:
  assumes "client c st [] w" "macs_ok (mb_net w)"
    and "client_guard b m k w = None \<Longrightarrow> (\<exists>pdu. req = Some (Inr pdu)) \<or> (\<exists>e<0. req = Some (Inl e))"
  shows "\<exists>e w'. (case client_guard b m k w of Some e \<Rightarrow> Some (e, w) | None \<Rightarrow> client_write req verify clk w) = Some (e, w') \<and>
    gave_up w e w'"
proof (cases "client_guard b m k w")
  case None
  from assms(3) [OF this] show ?thesis
  proof (elim disjE exE conjE)
    fix pdu assume "req = Some (Inr pdu)"
    with None transact_empty [OF assms(1,2), of clk pdu] show ?thesis by (auto simp: client_write_def)
  next
    fix e :: int assume "e < 0" "req = Some (Inl e)"
    with None show ?thesis by (simp add: client_write_def gave_up_def)
  qed
qed (auto dest: guard_gave_up)

lemma requests_encoded:
  "\<exists>pdu. encode_read_bits MODBUS_MAX_PDU_SIZE fc a n = Inr pdu" "\<exists>pdu. encode_read_regs MODBUS_MAX_PDU_SIZE fc a n = Inr pdu"
  "\<exists>pdu. encode_write_single_coil MODBUS_MAX_PDU_SIZE a x = Inr pdu" "\<exists>pdu. encode_write_single_reg MODBUS_MAX_PDU_SIZE a v = Inr pdu"
  by (simp_all add: encode_read_bits_def encode_read_regs_def encode_write_single_coil_def encode_write_single_reg_def)

lemma write_requests_encoded:
  "(unat n + 7) div 8 \<le> length bs \<Longrightarrow> (\<exists>pdu. encode_write_multiple_coils m a n bs = Some (Inr pdu)) \<or>
     (\<exists>e<0. encode_write_multiple_coils m a n bs = Some (Inl e))"
  "unat n \<le> length vs \<Longrightarrow> (\<exists>pdu. encode_write_multiple_regs m a n vs = Some (Inr pdu)) \<or>
     (\<exists>e<0. encode_write_multiple_regs m a n vs = Some (Inl e))"
  by (simp_all add: encode_write_multiple_coils_def encode_write_multiple_regs_def Let_def)

lemma array_encoded:
  "client_guard (src \<noteq> None) m k w = None \<Longrightarrow> \<forall>bs. src = Some bs \<longrightarrow> (unat n + 7) div 8 \<le> length bs \<Longrightarrow>
     (\<exists>pdu. encode_write_multiple_coils l a n (the src) = Some (Inr pdu)) \<or>
     (\<exists>e<0. encode_write_multiple_coils l a n (the src) = Some (Inl e))"
  "client_guard (src' \<noteq> None) m k w = None \<Longrightarrow> \<forall>vs. src' = Some vs \<longrightarrow> unat n \<le> length vs \<Longrightarrow>
     (\<exists>pdu. encode_write_multiple_regs l a n (the src') = Some (Inr pdu)) \<or>
     (\<exists>e<0. encode_write_multiple_regs l a n (the src') = Some (Inl e))"
  by (cases src; simp add: client_guard_def write_requests_encoded)
    (cases src'; simp add: client_guard_def write_requests_encoded)

section \<open>Properties of the client\<close>

text \<open>
  C39. The client functions look for the response immediately after sending the request, without
  polling the network: on a connection where nothing is waiting in the socket each of the eight
  functions returns with an error code, whatever its arguments, and the code is MODBUS_TIMEOUT
  whenever the request was sent. The two functions that write several values are given an array as
  long as their count says.
\<close>

theorem modbus_client_does_not_wait:
  assumes "client c st [] w" "macs_ok (mb_net w)"
    and "\<forall>bs. coil_src = Some bs \<longrightarrow> (unat n + 7) div 8 \<le> length bs"
    and "\<forall>vs. reg_src = Some vs \<longrightarrow> unat n \<le> length vs"
  shows "(\<exists>e w'. modbus_read_coils clk addr n dest w = Some (Inl e, w') \<and> gave_up w e w') \<and>
    (\<exists>e w'. modbus_read_discrete_inputs clk addr n dest w = Some (Inl e, w') \<and> gave_up w e w') \<and>
    (\<exists>e w'. modbus_read_holding_registers clk addr n dest w = Some (Inl e, w') \<and> gave_up w e w') \<and>
    (\<exists>e w'. modbus_read_input_registers clk addr n dest w = Some (Inl e, w') \<and> gave_up w e w') \<and>
    (\<exists>e w'. modbus_write_coil clk addr x w = Some (e, w') \<and> gave_up w e w') \<and>
    (\<exists>e w'. modbus_write_register clk addr v w = Some (e, w') \<and> gave_up w e w') \<and>
    (\<exists>e w'. modbus_write_coils clk addr n coil_src w = Some (e, w') \<and> gave_up w e w') \<and>
    (\<exists>e w'. modbus_write_registers clk addr n reg_src w = Some (e, w') \<and> gave_up w e w') \<and>
    (\<exists>e w'. transact clk pdu w = Some (Inl e, w') \<and> gave_up w e w' \<and>
      (\<forall>w1. modbus_send_request clk pdu w = Some (MODBUS_OK, w1) \<longrightarrow> e = MODBUS_TIMEOUT))"
proof -
  note rd = client_read_empty [OF assms(1,2)] and wr = client_write_empty [OF assms(1,2)]
  have single: "(\<exists>pdu. Some (encode_write_single_coil MODBUS_MAX_PDU_SIZE addr x) = Some (Inr pdu)) \<or>
      (\<exists>e<0. Some (encode_write_single_coil MODBUS_MAX_PDU_SIZE addr x) = Some (Inl e))"
    "(\<exists>pdu. Some (encode_write_single_reg MODBUS_MAX_PDU_SIZE addr v) = Some (Inr pdu)) \<or>
      (\<exists>e<0. Some (encode_write_single_reg MODBUS_MAX_PDU_SIZE addr v) = Some (Inl e))"
    using requests_encoded by simp_all
  have many: "client_guard (coil_src \<noteq> None) m k w = None \<Longrightarrow>
      (\<exists>pdu. encode_write_multiple_coils MODBUS_MAX_PDU_SIZE addr n (the coil_src) = Some (Inr pdu)) \<or>
      (\<exists>e<0. encode_write_multiple_coils MODBUS_MAX_PDU_SIZE addr n (the coil_src) = Some (Inl e))"
    "client_guard (reg_src \<noteq> None) m k w = None \<Longrightarrow>
      (\<exists>pdu. encode_write_multiple_regs MODBUS_MAX_PDU_SIZE addr n (the reg_src) = Some (Inr pdu)) \<or>
      (\<exists>e<0. encode_write_multiple_regs MODBUS_MAX_PDU_SIZE addr n (the reg_src) = Some (Inl e))" for m k
    by (rule array_encoded(1) [OF _ assms(3)], assumption) (rule array_encoded(2) [OF _ assms(4)], assumption)
  show ?thesis
    unfolding modbus_read_coils_def modbus_read_discrete_inputs_def modbus_read_holding_registers_def
      modbus_read_input_registers_def modbus_write_coil_def modbus_write_register_def modbus_write_coils_def
      modbus_write_registers_def
    by (intro conjI rd requests_encoded wr [OF single(1)] wr [OF single(2)] wr [OF many(1)] wr [OF many(2)]
        transact_empty [OF assms(1,2)])
qed

definition mclient :: "u8 list \<Rightarrow> modbus" where
  "mclient q = \<lparr>mb_ctx = Some mctx0, mb_stats = zero_mstats, modbus_initialized = True,
     mb_net = host ip_a 1 ip_b 2 ((tcp_sock 50000 ip_b 502 TCP_ESTABLISHED)
       \<lparr>s_rx_buffer := q @ replicate (SOCKET_BUFFER_SIZE - length q) 0, s_rx_len := length q\<rparr>)\<rparr>"

lemma mclient_ok: "length q \<le> SOCKET_BUFFER_SIZE \<Longrightarrow> client mctx0 TCP_ESTABLISHED q (mclient q)"
  by (simp add: client_def mclient_def mctx0_def conn_def host_sock tcp_sock_def rx_inv_def rx_contents_def)

lemma mclient_send:
  "length q \<le> SOCKET_BUFFER_SIZE \<Longrightarrow> length pdu \<le> 253 \<Longrightarrow>
    \<exists>w1. modbus_send_request clock0 pdu (mclient q) = Some (MODBUS_OK, w1)"
proof -
  assume q: "length q \<le> SOCKET_BUFFER_SIZE" and pdu: "length pdu \<le> 253"
  let ?s = "(tcp_sock 50000 ip_b 502 TCP_ESTABLISHED)
       \<lparr>s_rx_buffer := q @ replicate (SOCKET_BUFFER_SIZE - length q) 0, s_rx_len := length q\<rparr>"
  let ?n = "host ip_a 1 ip_b 2 ?s"
  obtain h where h: "encode_mbap_header MODBUS_MAX_ADU_SIZE 1 1 (of_nat (length pdu)) = Inr h"
    by (simp add: encode_mbap_header_def)
  define d where "d = h @ pdu"
  have "length d \<le> 1460" using mbap_length [OF h] pdu by (simp add: d_def)
  from tcp_send_packet_ok [OF host_reach [of ip_b ip_a 1 2 ?s] this refl]
  have "\<exists>n'. socket_send clock0 0 d ?n = Some (0, n')"
    by (simp add: socket_send_def bad_fd_def host_sock tcp_sock_def Let_def)
  then show ?thesis
    using h pdu by (auto simp: modbus_send_request_def mclient_def mctx0_def upd_ctx_def modbus_send_raw_def
        modbus_is_connected_def Let_def d_def upd_mstats_def)
qed

lemma mclient_macs: "macs_ok (mb_net (mclient q))"
  by (simp add: macs_ok_def mclient_def host_def zero_arp_def)

theorem modbus_client_does_not_wait_witness:
  "\<exists>w'. transact clock0 [3, 0, 0, 0, 2] (mclient []) = Some (Inl MODBUS_TIMEOUT, w')"
proof -
  have cl: "client mctx0 TCP_ESTABLISHED [] (mclient [])" using mclient_ok [of "[]"] by simp
  obtain w1 where w1: "modbus_send_request clock0 [3, 0, 0, 0, 2] (mclient []) = Some (MODBUS_OK, w1)"
    using mclient_send [of "[]" "[3, 0, 0, 0, 2]"] by auto
  from modbus_client_does_not_wait [OF cl mclient_macs, of None 0 None clock0 0 True True 0 "[3, 0, 0, 0, 2]"] w1
  show ?thesis by auto
qed

lemma transaction_step:
  "uint t = uint (next_transaction t0) - 1 \<longleftrightarrow> t = (if t0 = 0xFFFF then 0 else t0)"
proof -
  have eq: "x = y \<longleftrightarrow> uint x = uint y" for x y :: u16 by (rule word_uint_eq_iff)
  have i: "uint x = int (unat x)" for x :: u16 by (rule uint_nat)
  show ?thesis
  proof (cases "t0 = 0xFFFF")
    case True
    then show ?thesis by (simp add: next_transaction_def uint_0_iff)
  next
    case False
    then have "unat t0 \<noteq> unat (0xFFFF :: u16)" unfolding word_unat_eq_iff .
    then have n: "unat (t0 + 1) = unat t0 + 1" using u16_bound [of t0] by (simp add: unat_word_ariths)
    then have "t0 + 1 \<noteq> 0" by (metis Suc_eq_plus1 nat.distinct(1) unat_0)
    then have "next_transaction t0 = t0 + 1" by (simp add: next_transaction_def)
    moreover have "uint (t0 + 1) = uint t0 + 1" unfolding i n by simp
    ultimately show ?thesis using False eq by simp
  qed
qed

text \<open>
  A response is matched to its request by the transaction identifier of the request before
  the counter's step: after a request with identifier \<open>t0\<close>, the response with identifier \<open>t\<close>
  is accepted and its PDU delivered exactly when \<open>t = t0\<close>, except after the identifier
  0xFFFF, when the counter skips 0 and the right response is refused and one with identifier 0
  accepted.
\<close>

theorem modbus_response_matching:
  assumes "client c st (h @ pdu @ rest) w" "transaction_id c = next_transaction t0"
    and "encode_mbap_header MODBUS_MAX_ADU_SIZE t u (of_nat (length pdu)) = Inr h"
    and "length pdu \<le> MODBUS_MAX_PDU_SIZE"
  shows "\<exists>w'. if t = (if t0 = 0xFFFF then 0 else t0)
    then modbus_receive_response clk w = (Inr (length pdu), w') \<and>
         take (length pdu) (drop 7 (mrx_buffer (the (mb_ctx w')))) = pdu \<and>
         conn (socket_fd c) st rest (mb_net w')
    else modbus_receive_response clk w = (Inl MODBUS_INVALID_RESP, w')"
proof -
  have m: "uint t = uint (next_transaction t0) - 1 \<longleftrightarrow> t = (if t0 = 0xFFFF then 0 else t0)"
    by (rule transaction_step)
  from receive_response_spec [OF assms(1,3,4), of clk] show ?thesis
    unfolding assms(2) m by (auto split: if_splits)
qed


theorem modbus_response_matching_witness:
  "\<exists>w'. modbus_receive_response clock0
     (upd_ctx (\<lambda>c. c\<lparr>transaction_id := 1\<rparr>) (mclient [255, 255, 0, 0, 0, 3, 1, 131, 2])) = (Inl MODBUS_INVALID_RESP, w')"
proof -
  let ?h = "[255, 255, 0, 0, 0, 3, 1] :: u8 list" and ?p = "[131, 2] :: u8 list"
  let ?w = "upd_ctx (\<lambda>c. c\<lparr>transaction_id := 1\<rparr>) (mclient (?h @ ?p @ []))"
  have "encode_mbap_header MODBUS_MAX_ADU_SIZE 0xFFFF 1 (of_nat (length ?p)) = Inr ?h"
    by (simp add: encode_mbap_header_def le16_def modbus_htons_def)
  moreover have "client (mctx0\<lparr>transaction_id := 1\<rparr>) TCP_ESTABLISHED (?h @ ?p @ []) ?w"
    using mclient_ok [of "?h @ ?p @ []"] by (simp add: client_def mctx0_def)
  moreover have "transaction_id (mctx0\<lparr>transaction_id := 1\<rparr>) = next_transaction 0xFFFF"
    by (simp add: next_transaction_def)
  ultimately show ?thesis
    using modbus_response_matching [of "mctx0\<lparr>transaction_id := 1\<rparr>" TCP_ESTABLISHED ?h ?p "[]" ?w "0xFFFF" "0xFFFF" 1 clock0]
    by simp
qed

end
