(* ===== verification/ModbusServer.thy ===== *)
theory ModbusServer
  imports ModbusFlow
begin

text \<open>
  The Modbus server on a connection, and the loop that runs it in the \<open>modbustest\<close> command of
  \<^verbatim>\<open>src/kernel/core/stubs.c\<close>, which polls the network and processes requests.
\<close>

section \<open>A socket nobody accepts\<close>

text \<open>
  A listening socket, or one with a handshake answered but not accepted, without data and
  without a timeout.
\<close>

definition waiting :: "nat \<Rightarrow> net \<Rightarrow> bool" where
  "waiting i n \<longleftrightarrow> i < MAX_SOCKETS \<and> length (sockets n) = MAX_SOCKETS \<and> s_active (sockets n ! i) \<and>
     s_type (sockets n ! i) = SOCK_STREAM \<and> s_state (sockets n ! i) \<in> {TCP_LISTEN, TCP_SYN_RECEIVED} \<and>
     s_rx_len (sockets n ! i) = 0 \<and> s_timeout (sockets n ! i) = 0"

definition stays :: "nat \<Rightarrow> net option \<Rightarrow> bool" where
  "stays i r \<longleftrightarrow> (\<forall>n'. r = Some n' \<longrightarrow> waiting i n')"

lemma waiting_cong: "waiting i n \<Longrightarrow> sockets n' = sockets n \<Longrightarrow> waiting i n'"
  by (simp add: waiting_def)

lemma stays_Some: "waiting i n \<Longrightarrow> stays i (Some n)"
  by (simp add: stays_def)

lemma stays_None: "stays i None"
  by (simp add: stays_def)

lemma stays_if: "(b \<Longrightarrow> stays i x) \<Longrightarrow> (\<not> b \<Longrightarrow> stays i y) \<Longrightarrow> stays i (if b then x else y)"
  by simp

lemma stays_same: "(\<And>n'. r = Some n' \<Longrightarrow> sockets n' = sockets n) \<Longrightarrow> waiting i n \<Longrightarrow> stays i r"
  by (auto simp: stays_def dest: waiting_cong)

lemma stays_map_same:
  "(\<And>r n'. x = Some (r, n') \<Longrightarrow> sockets (f (r, n')) = sockets n) \<Longrightarrow> waiting i n \<Longrightarrow> stays i (map_option f x)"
  by (rule stays_same) auto

lemma stays_reply: "waiting i n \<Longrightarrow> stays i (tcp_reply j fl n)"
  by (rule stays_same [OF tcp_reply_sockets])

lemma waiting_stats: "waiting i n \<Longrightarrow> waiting i (upd_stats g n)"
  by (erule waiting_cong) simp

lemma waiting_rng: "waiting i n \<Longrightarrow> waiting i (n\<lparr>rng_state := r\<rparr>)"
  by (simp add: waiting_def)

lemma waiting_other: "waiting i n \<Longrightarrow> j \<noteq> i \<Longrightarrow> waiting i (upd_sock j f n)"
  by (simp add: waiting_def)

lemma waiting_plain:
  assumes "waiting i n"
    and "\<And>s. s_active (f s) = s_active s \<and> s_type (f s) = s_type s \<and> s_state (f s) = s_state s \<and>
           s_rx_len (f s) = s_rx_len s \<and> s_timeout (f s) = s_timeout s"
  shows "waiting i (upd_sock j f n)"
proof (cases "j = i")
  case True
  with assms show ?thesis by (auto simp: waiting_def)
next
  case False
  with assms(1) show ?thesis by (rule waiting_other)
qed

lemma close_length: "socket_close fd n = Some (r, n') \<Longrightarrow> length (sockets n') = length (sockets n)"
  by (auto simp: socket_close_def Let_def send_fin_def socket_cleanup_def split: if_splits dest!: tcp_reply_sockets)

lemma stays_close:
  assumes "waiting i n" "j \<noteq> i"
  shows "stays i (map_option snd (socket_close (int j) n))"
  using assms close_other [of j n _ _ i] close_length [of "int j" n]
  by (auto simp: stays_def waiting_def)

lemma stays_reset: "waiting i n \<Longrightarrow> j \<noteq> i \<Longrightarrow> stays i (reset_sock j n)"
  unfolding reset_sock_def by (intro stays_close waiting_other)

lemma tcp_segment_stays:
  assumes w: "waiting i n"
  shows "stays i (tcp_segment c j off len n)"
proof (cases "j = i")
  case True
  have up: "waiting i (upd_sock i f m)"
    if "waiting i m" "\<And>s. s_active (f s) = s_active s \<and> s_type (f s) = s_type s \<and>
           s_rx_len (f s) = s_rx_len s \<and> s_timeout (f s) = s_timeout s"
      "\<And>s. s_state (f s) = s_state s \<or> s_state (f s) = TCP_LISTEN \<or> s_state (f s) = TCP_SYN_RECEIVED" for f m
    using that(1,2) that(3) [of "sockets m ! i"] by (auto simp: waiting_def)
  consider "s_state (sockets n ! i) = TCP_LISTEN" | "s_state (sockets n ! i) = TCP_SYN_RECEIVED"
    using w by (auto simp: waiting_def)
  then show ?thesis
  proof cases
    case 1
    show ?thesis
      unfolding tcp_segment_def Let_def True 1 isn_eq
      by (simp, intro conjI impI stays_reply stays_Some up waiting_rng w; simp)
  next
    case 2
    show ?thesis
      unfolding tcp_segment_def Let_def True 2
      by (simp, intro conjI impI stays_Some up w; simp)
  qed
next
  case False
  have data: "stays i (rx_slice o' l n \<bind> (\<lambda>d. Some (upd_sock j (g d) n)))" for o' l g
    using waiting_other [OF w False] by (auto simp: stays_def bind_eq_Some_conv)
  show ?thesis
    unfolding tcp_segment_def Let_def isn_eq
    by (cases "s_state (sockets n ! j)"; simp;
        intro conjI impI stays_reply stays_Some stays_reset waiting_other waiting_rng data w False)
qed

lemma handlers_stay:
  assumes w: "waiting i n"
  shows "stays i (handle_arp len n)" "stays i (handle_icmp off len n)" "stays i (handle_udp off len n)"
    "stays i (handle_tcp c off len n)"
proof -
  have a: "waiting i (arp_add ip mac n)" for ip mac
    using w by (rule waiting_cong) (simp add: arp_add_def)
  show "stays i (handle_arp len n)"
    unfolding handle_arp_def Let_def
    by (intro stays_if stays_Some w a stays_map_same [OF _ a]) (auto dest: transmit_sockets)
  have t: "stays i (Some (upd_stats g b))" if "transmit f (upd_stats h n) = Some (r, b)" for f g h r b
    by (rule stays_Some, rule waiting_cong [OF w]) (simp add: transmit_sockets [OF that])
  show "stays i (handle_icmp off len n)"
    unfolding handle_icmp_def Let_def
    by (intro stays_if stays_Some w; simp only: split: option.split bind_split)
      (auto intro!: waiting_stats [OF w] stays_map_same [OF _ waiting_stats [OF w]] stays_None dest: arp_request_sockets intro: t)
  have ne: "j \<noteq> i" if "find_sock SOCK_DGRAM port (upd_stats g n) = Some j" for j port g
    using find_sock_Some [OF that] w by (auto simp: waiting_def)
  have u: "stays i (rx_slice o' l m \<bind> (\<lambda>d. Some (upd_sock j (f d) m)))" if "waiting i m" "j \<noteq> i" for o' l f j m
    using that waiting_other by (auto simp: stays_def bind_eq_Some_conv)
  show "stays i (handle_udp off len n)"
    unfolding handle_udp_def Let_def
    by (intro stays_if stays_Some w; simp only: split: option.split)
      (intro conjI allI impI stays_if stays_Some u waiting_stats w; erule ne)
  show "stays i (handle_tcp c off len n)"
    unfolding handle_tcp_def Let_def
    by (intro stays_if stays_Some w; simp only: split: option.split)
      (intro conjI allI impI stays_Some tcp_segment_stays waiting_stats waiting_plain w; simp)
qed

lemma handle_ip_stays: "waiting i n \<Longrightarrow> stays i (handle_ip c len n)"
  unfolding handle_ip_def Let_def by (intro stays_if stays_Some handlers_stay)

lemma receive_frame_stays:
  assumes w: "waiting i n"
  shows "stays i (receive_frame c f n)"
proof -
  have "waiting i (n\<lparr>rx_buf := f @ drop (length f) (rx_buf n)\<rparr>)"
    using w by (rule waiting_cong) simp
  then show ?thesis
    unfolding receive_frame_def Let_def
    by (intro stays_if stays_Some handlers_stay handle_ip_stays waiting_stats)
qed

lemma poll_frames_stays: "waiting i n \<Longrightarrow> poll_frames c fs n = Some (k, n') \<Longrightarrow> waiting i n'"
proof (induction fs arbitrary: n k)
  case (Cons f fs)
  then show ?case
    using receive_frame_stays [of i n c f] by (auto simp: stays_def bind_eq_Some_conv)
qed simp

lemma check_timeouts_stays: "waiting i n \<Longrightarrow> stays i (check_timeouts_from now ks n)"
proof (induction ks arbitrary: n)
  case (Cons k ks)
  have "stays i (check_timeout now k n)"
  proof (cases "k = i")
    case True
    then show ?thesis using Cons.prems by (simp add: check_timeout_def waiting_def stays_def)
  next
    case False
    then show ?thesis unfolding check_timeout_def Let_def using Cons.prems
      by (intro stays_if stays_Some stays_close)
  qed
  with Cons.IH show ?case by (auto simp: stays_def bind_eq_Some_conv)
qed (simp add: stays_Some)

lemma tcpip_poll_stays:
  assumes "waiting i n" "tcpip_poll c fs n = Some (k, n')"
  shows "waiting i n'"
proof (cases "tcpip_initialized n")
  case True
  then obtain j n1 where n1: "poll_frames c fs n = Some (j, n1)" "tcpip_check_timeouts c n1 = Some n'"
    using assms(2) by (auto simp: tcpip_poll_def bind_eq_Some_conv)
  have "waiting i n1" using poll_frames_stays [OF assms(1) n1(1)] .
  from check_timeouts_stays [OF this] n1(2) show ?thesis
    by (simp add: tcpip_check_timeouts_def stays_def)
next
  case False
  with assms show ?thesis by (simp add: tcpip_poll_def)
qed

section \<open>The server loop\<close>

text \<open>Each iteration polls the network, which delivers the given frames, and processes requests.\<close>

fun server_loop :: "(clock \<times> u8 list list) list \<Rightarrow> modbus \<Rightarrow> modbus option" where
  "server_loop [] w = Some w"
| "server_loop ((c, frames) # rest) w = do {
     (_, n) \<leftarrow> tcpip_poll c frames (mb_net w);
     (_, w1) \<leftarrow> modbus_server_process c (w\<lparr>mb_net := n\<rparr>);
     server_loop rest w1
   }"

lemma server_process_waiting:
  assumes "mb_ctx w = Some c" "m_state c = MODBUS_STATE_CONNECTED" "0 \<le> socket_fd c"
    and "waiting (nat (socket_fd c)) (mb_net w)"
  shows "modbus_server_process clk w = Some (MODBUS_OK, upd_ctx (\<lambda>_. store_rx 0 [] c) w)"
proof -
  have "\<not> bad_fd (socket_fd c) (mb_net w)" "s_rx_len (sockets (mb_net w) ! nat (socket_fd c)) = 0"
    using assms(3,4) by (auto simp: bad_fd_def waiting_def)
  from socket_recv_empty [OF this] assms(1,2) show ?thesis
    by (simp add: modbus_server_process_def)
qed

lemma store_nothing: "store_rx 0 [] c = c"
  by (simp add: store_rx_def)

lemma server_loop_waiting:
  assumes "mb_ctx w = Some c" "m_state c = MODBUS_STATE_CONNECTED" "0 \<le> socket_fd c"
    and "waiting (nat (socket_fd c)) (mb_net w)" "server_loop steps w = Some w'"
  shows "mb_ctx w' = Some c \<and> mb_stats w' = mb_stats w \<and> waiting (nat (socket_fd c)) (mb_net w')"
  using assms
proof (induction steps arbitrary: w)
  case (Cons st steps)
  obtain clk fs where st: "st = (clk, fs)" by (cases st)
  with Cons.prems(5) obtain k n where n: "tcpip_poll clk fs (mb_net w) = Some (k, n)"
    by (auto simp: bind_eq_Some_conv)
  let ?w = "w\<lparr>mb_net := n\<rparr>"
  have n': "waiting (nat (socket_fd c)) (mb_net ?w)"
    using tcpip_poll_stays [OF Cons.prems(4) n] by simp
  have p: "modbus_server_process clk ?w = Some (MODBUS_OK, ?w)"
    using server_process_waiting [OF _ Cons.prems(2,3) n'] Cons.prems(1)
    by (simp add: store_nothing upd_ctx_def)
  with Cons.prems(5) n st have "server_loop steps ?w = Some w'" by simp
  from Cons.IH [OF _ Cons.prems(2,3) n' this] Cons.prems(1) show ?case by simp
qed simp

lemma create_waits:
  assumes "length (sockets n) = MAX_SOCKETS" "socket_create SOCK_STREAM 6 n = (fd, n')" "0 \<le> fd"
  shows "fd < int MAX_SOCKETS \<and> length (sockets n') = MAX_SOCKETS \<and> s_active (sockets n' ! nat fd) \<and>
    s_type (sockets n' ! nat fd) = SOCK_STREAM \<and> s_rx_len (sockets n' ! nat fd) = 0 \<and>
    s_timeout (sockets n' ! nat fd) = 0"
proof -
  obtain i where i: "find (\<lambda>i. \<not> s_active (sockets n ! i)) [0..<MAX_SOCKETS] = Some i" "fd = int i"
    using assms(2,3) by (auto simp: socket_create_def Let_def split: option.splits)
  then have "i < MAX_SOCKETS" by (auto simp: find_Some_iff)
  with i assms(1,2) show ?thesis
    by (auto simp: socket_create_def Let_def zero_sock_def simp del: upt_rec_numeral)
qed

lemma server_started_waits:
  assumes "length (sockets (mb_net w)) = MAX_SOCKETS" "mb_ctx w = Some c"
    and "modbus_server_init port w = Some (MODBUS_OK, w1)" "modbus_server_start w1 = (MODBUS_OK, w2)"
  shows "\<exists>c'. mb_ctx w2 = Some c' \<and> m_state c' = MODBUS_STATE_CONNECTED \<and> 0 \<le> socket_fd c' \<and>
           waiting (nat (socket_fd c')) (mb_net w2) \<and> mb_stats w2 = mb_stats w"
proof -
  obtain fd n where cr: "socket_create SOCK_STREAM 6 (mb_net w) = (fd, n)" by (cases "socket_create SOCK_STREAM 6 (mb_net w)")
  have fd: "0 \<le> fd" using assms(2,3) cr by (auto simp: modbus_server_init_def Let_def split: if_splits)
  note s = create_waits [OF assms(1) cr fd]
  have nb: "\<not> bad_fd fd n" using s fd by (simp add: bad_fd_def)
  let ?p = "if port \<noteq> 0 then port else 502"
  let ?n1 = "upd_sock (nat fd) (\<lambda>s. s\<lparr>s_local_ip := 0, s_local_port := ?p\<rparr>) n"
  have w1: "mb_ctx w1 = Some (c\<lparr>m_mode := MODBUS_MODE_TCP, m_remote_port := ?p,
        m_state := MODBUS_STATE_DISCONNECTED, socket_fd := fd\<rparr>)" "mb_net w1 = ?n1" "mb_stats w1 = mb_stats w"
    using assms(2,3) cr fd nb by (auto simp: modbus_server_init_def socket_bind_def upd_ctx_def Let_def)
  have fdn: "nat fd < MAX_SOCKETS" using s fd by (simp add: nat_less_iff)
  have nb1: "\<not> bad_fd fd ?n1" using s fd fdn by (simp add: bad_fd_def)
  show ?thesis
    using assms(4) w1 nb1 s fd fdn by (auto simp: modbus_server_start_def socket_listen_def waiting_def)
qed

text \<open>
  C37. The Modbus server never answers: nothing in the program accepts a connection, so after
  \<open>modbus_server_init\<close> and \<open>modbus_server_start\<close>, whatever frames arrive, the loop of the test
  command leaves the socket listening or half-open and all statistics unchanged: no request
  is ever received.
\<close>

theorem modbus_server_never_answers:
  assumes "length (sockets (mb_net w)) = MAX_SOCKETS" "mb_ctx w = Some c"
    and "modbus_server_init port w = Some (MODBUS_OK, w1)" "modbus_server_start w1 = (MODBUS_OK, w2)"
    and "server_loop steps w2 = Some w'"
  shows "mb_stats w' = mb_stats w \<and>
    (\<exists>c'. mb_ctx w' = Some c' \<and> s_state (sockets (mb_net w') ! nat (socket_fd c')) \<in> {TCP_LISTEN, TCP_SYN_RECEIVED})"
  using server_started_waits [OF assms(1-4)] server_loop_waiting [OF _ _ _ _ assms(5)]
  unfolding waiting_def by metis

lemma check_timeouts_idle:
  "\<forall>k\<in>set ks. s_timeout (sockets n ! k) = 0 \<Longrightarrow> check_timeouts_from now ks n = Some n"
  by (induction ks) (simp_all add: check_timeout_def)

definition idle_server :: modbus where
  "idle_server = (mclient [])\<lparr>mb_net := host ip_a 1 ip_b 2 zero_sock\<rparr>"

lemma idle_server_starts:
  "\<exists>w1 w2. modbus_server_init 502 idle_server = Some (MODBUS_OK, w1) \<and> modbus_server_start w1 = (MODBUS_OK, w2) \<and>
     tcpip_poll clock0 [[1, 2, 3]] (mb_net w2) \<noteq> None"
proof -
  let ?n = "host ip_a 1 ip_b 2 zero_sock"
  let ?s = "zero_sock\<lparr>s_type := SOCK_STREAM, s_protocol := 6, s_active := True\<rparr>"
  have cr: "\<exists>n1. socket_create SOCK_STREAM 6 ?n = (0, n1) \<and> sockets n1 = ?s # replicate 15 zero_sock"
    by (simp add: socket_create_def host_sock upt_conv_Cons zero_sock_def Let_def) (simp add: host_def zero_sock_def)
  then obtain n1 where n1: "socket_create SOCK_STREAM 6 ?n = (0, n1)" "sockets n1 = ?s # replicate 15 zero_sock"
    by blast
  then have nb: "\<not> bad_fd 0 n1" by (simp add: bad_fd_def)
  let ?n2 = "upd_sock 0 (\<lambda>s. s\<lparr>s_local_ip := 0, s_local_port := 502\<rparr>) n1"
  let ?n3 = "upd_sock 0 (\<lambda>s. s\<lparr>s_state := TCP_LISTEN\<rparr>) ?n2"
  have nb2: "\<not> bad_fd 0 ?n2" using n1 by (simp add: bad_fd_def)
  obtain w1 where w1: "modbus_server_init 502 idle_server = Some (MODBUS_OK, w1)" "mb_net w1 = ?n2"
    "\<exists>c. mb_ctx w1 = Some c \<and> socket_fd c = 0"
    using n1 nb by (simp add: modbus_server_init_def idle_server_def mclient_def socket_bind_def upd_ctx_def Let_def)
  obtain w2 where w2: "modbus_server_start w1 = (MODBUS_OK, w2)" "mb_net w2 = ?n3"
    using w1(2,3) nb2 by (auto simp: modbus_server_start_def socket_listen_def)
  have "s_timeout (sockets ?n3 ! k) = 0" if "k < 16" for k
    using that n1(2) by (cases k) (simp_all add: zero_sock_def)
  then have "tcpip_poll clock0 [[1, 2, 3]] ?n3 \<noteq> None"
    by (auto simp: tcpip_poll_def receive_frame_def tcpip_check_timeouts_def check_timeouts_idle simp del: upt_rec_numeral)
  with w1 w2 show ?thesis by auto
qed

theorem modbus_server_never_answers_witness:
  "\<exists>w2 w'. server_loop [(clock0, [[1, 2, 3]])] w2 = Some w' \<and> mb_stats w' = mb_stats idle_server"
proof -
  obtain w1 w2 where w: "modbus_server_init 502 idle_server = Some (MODBUS_OK, w1)"
    "modbus_server_start w1 = (MODBUS_OK, w2)" and p: "tcpip_poll clock0 [[1, 2, 3]] (mb_net w2) \<noteq> None"
    using idle_server_starts by blast
  obtain k n where n: "tcpip_poll clock0 [[1, 2, 3]] (mb_net w2) = Some (k, n)" using p by auto
  have i: "length (sockets (mb_net idle_server)) = MAX_SOCKETS" "mb_ctx idle_server = Some mctx0"
    by (simp_all add: idle_server_def mclient_def host_sock)
  from server_started_waits [OF i w] obtain c' where c': "mb_ctx w2 = Some c'"
    "m_state c' = MODBUS_STATE_CONNECTED" "0 \<le> socket_fd c'" "waiting (nat (socket_fd c')) (mb_net w2)"
    by blast
  have "waiting (nat (socket_fd c')) (mb_net (w2\<lparr>mb_net := n\<rparr>))"
    using tcpip_poll_stays [OF c'(4) n] by simp
  from server_process_waiting [OF _ c'(2,3) this, of clock0] c'(1)
  obtain w' where "server_loop [(clock0, [[1, 2, 3]])] w2 = Some w'" by (simp add: n)
  with modbus_server_never_answers [OF i w this] show ?thesis by blast
qed

section \<open>Serving a request\<close>

text \<open>The handlers read only the PDU, not what follows it in the receive buffer.\<close>

lemma prefix_fields:
  "0 < length p \<Longrightarrow> (p @ r) ! 0 = p ! 0" "5 \<le> length p \<Longrightarrow> get16 (p @ r) (Suc 0) = get16 p (Suc 0)"
  "5 \<le> length p \<Longrightarrow> get16 (p @ r) 3 = get16 p 3" "6 \<le> length p \<Longrightarrow> (p @ r) ! 5 = p ! 5"
  "5 \<le> length p \<Longrightarrow> take 5 (p @ r) = take 5 p" "6 \<le> length p \<Longrightarrow> drop 6 (p @ r) = drop 6 p @ r"
  by (simp_all add: get16_def nth_append)

lemma unpack_prefix: "(n + 7) div 8 \<le> length d \<Longrightarrow> unpack_bits (d @ r) n = unpack_bits d n"
proof -
  assume d: "(n + 7) div 8 \<le> length d"
  have "i div 8 < length d" if "i < n" for i using d that by linarith
  then show ?thesis by (simp add: unpack_bits_def nth_append)
qed

lemma decode_prefix: "2 * n \<le> length d \<Longrightarrow> decode_regs (d @ r) n = decode_regs d n"
  by (simp add: decode_regs_def get16_def nth_append)

lemma handle_request_prefix:
  "handle_request c (p @ r) (length p) m = handle_request c p (length p) m"
proof (cases "5 \<le> length p")
  case True
  have nz: "p \<noteq> []" using True by auto
  note f = prefix_fields [of p r]
  have bits: "handle_read_bits t n c (p @ r) (length p) m = handle_read_bits t n c p (length p) m" for t n
    using True f nz by (simp add: handle_read_bits_def reply_exception_def Let_def split: option.split)
  have regs: "handle_read_regs t n c (p @ r) (length p) m = handle_read_regs t n c p (length p) m" for t n
    using True f nz by (simp add: handle_read_regs_def reply_exception_def Let_def split: option.split)
  have single: "handle_write_single_coil c (p @ r) (length p) m = handle_write_single_coil c p (length p) m"
    "handle_write_single_register c (p @ r) (length p) m = handle_write_single_register c p (length p) m"
    using True f nz by (simp_all add: handle_write_single_coil_def handle_write_single_register_def reply_exception_def Let_def split: option.split)
  have mc: "handle_write_multiple_coils c (p @ r) (length p) m = handle_write_multiple_coils c p (length p) m"
    using True f nz unpack_prefix [of _ "drop 6 p" r]
    by (simp add: handle_write_multiple_coils_def reply_exception_def Let_def split: option.split)
  have mr: "handle_write_multiple_registers c (p @ r) (length p) m = handle_write_multiple_registers c p (length p) m"
    using True f nz decode_prefix [of _ "drop 6 p" r]
    by (simp add: handle_write_multiple_registers_def reply_exception_def Let_def split: option.split)
  with f(1) nz show ?thesis
    by (simp add: handle_request_def handle_read_coils_def handle_read_discrete_inputs_def
        handle_read_holding_registers_def handle_read_input_registers_def bits regs single mc mr
        reply_exception_def Let_def)
next
  case False
  show ?thesis
  proof (cases "p = []")
    case False
    with \<open>\<not> 5 \<le> length p\<close> show ?thesis
      by (simp add: handle_request_def handle_read_coils_def handle_read_discrete_inputs_def
        handle_read_holding_registers_def handle_read_input_registers_def handle_read_bits_def handle_read_regs_def
        handle_write_single_coil_def handle_write_single_register_def handle_write_multiple_coils_def
        handle_write_multiple_registers_def reply_exception_def Let_def nth_append)
  qed (simp add: handle_request_def)
qed

text \<open>What receiving leaves unchanged in the stack.\<close>

definition same_link :: "int \<Rightarrow> net \<Rightarrow> net \<Rightarrow> bool" where
  "same_link fd n n' \<longleftrightarrow> cfg n' = cfg n \<and> arp_cache n' = arp_cache n \<and>
     tcpip_initialized n' = tcpip_initialized n \<and> net_send n' = net_send n \<and> sent n' = sent n \<and>
     s_remote_ip (sockets n' ! nat fd) = s_remote_ip (sockets n ! nat fd)"

lemma recv_link:
  assumes "socket_recv c fd k n = (r, d, n')" "nat fd < length (sockets n)"
  shows "same_link fd n n'"
  using assms by (auto simp: socket_recv_def same_link_def rx_take_def Let_def split: if_splits prod.splits)

lemma send_established:
  assumes "conn fd TCP_ESTABLISHED q n" "can_reach n (s_remote_ip (sockets n ! nat fd)) mac"
    and "\<forall>log f. 0 \<le> net_send n log f" "length d \<le> 1460"
  shows "\<exists>r n'. socket_send c fd d n = Some (r, n') \<and> 0 \<le> r \<and> conn fd TCP_ESTABLISHED q n' \<and>
    sent n' = sent n @ [tcp_frame mac (cfg n) (s_remote_ip (sockets n ! nat fd)) (s_remote_port (sockets n ! nat fd))
      (s_local_port (sockets n ! nat fd)) (s_seq (sockets n ! nat fd)) (s_ack (sockets n ! nat fd))
      (TCP_PSH OR TCP_ACK) d]"
proof -
  let ?s = "sockets n ! nat fd"
  have "\<exists>n'. socket_send c fd d n = Some (net_send n (sent n) (tcp_frame mac (cfg n) (s_remote_ip ?s) (s_remote_port ?s)
      (s_local_port ?s) (s_seq ?s) (s_ack ?s) (TCP_PSH OR TCP_ACK) d), n') \<and>
    sent n' = sent n @ [tcp_frame mac (cfg n) (s_remote_ip ?s) (s_remote_port ?s)
      (s_local_port ?s) (s_seq ?s) (s_ack ?s) (TCP_PSH OR TCP_ACK) d]"
    using conn_fd [OF assms(1)] assms(1,3) tcp_send_packet_ok [OF assms(2,4) refl]
    by (simp add: socket_send_def Let_def conn_def)
  then show ?thesis using send_conn [OF assms(1)] assms(3) by blast
qed

lemma same_link_trans: "same_link fd a b \<Longrightarrow> same_link fd b c \<Longrightarrow> same_link fd a c"
  by (simp add: same_link_def)

lemma server_answer_reply:
  assumes "handle_request c (drop 7 (mrx_buffer c)) l MODBUS_MAX_PDU_SIZE = Some (Inr resp, c')"
    and "length resp \<le> MODBUS_MAX_PDU_SIZE" "mb_ctx w = Some c"
    and "encode_mbap_header MODBUS_MAX_ADU_SIZE t u (of_nat (length resp)) = Inr h"
  shows "\<exists>w1 x. server_answer t u l c w = Some (Inr (h @ resp), w1) \<and> mb_net w1 = mb_net w \<and>
    mb_ctx w1 = Some (c'\<lparr>mtx_buffer := x\<rparr>)"
  using assms by (auto simp: server_answer_def Let_def)

text \<open>
  C24. A request at the head of an established connection is served: the server takes exactly
  that request from the stream, applies it to its tables, and sends one segment with a response
  that repeats the transaction and unit identifiers.
\<close>

theorem modbus_server_serves_request:
  assumes cl: "client c TCP_ESTABLISHED (h @ pdu @ rest) w"
    and h: "encode_mbap_header MODBUS_MAX_ADU_SIZE t u (of_nat (length pdu)) = Inr h"
    and len: "length pdu \<le> MODBUS_MAX_PDU_SIZE"
    and req: "handle_request (store_rx 7 pdu (store_rx 0 h c)) pdu (length pdu) MODBUS_MAX_PDU_SIZE = Some (Inr resp, c')"
    and resp: "length resp \<le> MODBUS_MAX_PDU_SIZE"
    and link: "can_reach (mb_net w) (s_remote_ip (sockets (mb_net w) ! nat (socket_fd c))) mac"
      "\<forall>log f. 0 \<le> net_send (mb_net w) log f"
  shows "\<exists>w' h' x port lport sq ak. modbus_server_process clk w = Some (MODBUS_OK, w') \<and>
    encode_mbap_header MODBUS_MAX_ADU_SIZE t u (of_nat (length resp)) = Inr h' \<and>
    conn (socket_fd c) TCP_ESTABLISHED rest (mb_net w') \<and> mb_ctx w' = Some (c'\<lparr>mtx_buffer := x\<rparr>) \<and>
    sent (mb_net w') = sent (mb_net w) @ [tcp_frame mac (cfg (mb_net w))
      (s_remote_ip (sockets (mb_net w) ! nat (socket_fd c))) port lport sq ak (TCP_PSH OR TCP_ACK) (h' @ resp)]"
proof -
  let ?fd = "socket_fd c" and ?n = "mb_net w"
  note k = cl [unfolded client_def]
  have hl: "length h = 7" using mbap_length [OF h] .
  obtain h' where h': "encode_mbap_header MODBUS_MAX_ADU_SIZE t u (of_nat (length resp)) = Inr h'"
    by (simp add: encode_mbap_header_def)
  have hl': "length h' = 7" using mbap_length [OF h'] .
  obtain n1 where n1: "socket_recv clk ?fd 7 ?n = (7, h, n1)" "conn ?fd TCP_ESTABLISHED (pdu @ rest) n1"
    using recv_conn [of ?fd TCP_ESTABLISHED "h @ pdu @ rest" ?n clk 7] k hl by auto
  obtain n2 where n2: "socket_recv clk ?fd (length pdu) n1 = (int (length pdu), pdu, n2)"
    "conn ?fd TCP_ESTABLISHED rest n2"
    using recv_conn [OF n1(2), of clk "length pdu"] by auto
  have sl: "same_link ?fd ?n n2"
    using recv_link [OF n1(1)] recv_link [OF n2(1)] conn_fd k n1(2) by (blast intro: same_link_trans)
  let ?c1 = "store_rx 0 h c" let ?c2 = "store_rx 7 pdu ?c1"
  have dec: "decode_mbap_header (mrx_buffer ?c1) MODBUS_MBAP_SIZE = Inr (t, u, of_nat (length pdu))"
    and ul: "unat (of_nat (length pdu) :: u16) = length pdu"
    using stored_header [OF h len, of c] k by auto
  have ui: "uint (of_nat (length pdu) :: u16) = int (length pdu)" using ul by (metis uint_nat)
  have "drop 7 (mrx_buffer ?c2) = pdu @ drop (7 + length pdu) (mrx_buffer ?c1)"
    using len k hl by (simp add: store_rx_def)
  then have req': "handle_request ?c2 (drop 7 (mrx_buffer ?c2)) (length pdu) MODBUS_MAX_PDU_SIZE = Some (Inr resp, c')"
    using req handle_request_prefix by simp
  define w2 where "w2 = upd_mstats (\<lambda>s. s\<lparr>requests_received := requests_received s + 1\<rparr>)
      (upd_ctx (\<lambda>_. ?c2) ((upd_ctx (\<lambda>_. ?c1) (w\<lparr>mb_net := n1\<rparr>))\<lparr>mb_net := n2\<rparr>))"
  have w2: "mb_ctx w2 = Some ?c2" "mb_net w2 = n2" using k by (simp_all add: w2_def)
  obtain w3 x where w3: "server_answer t u (length pdu) ?c2 w2 = Some (Inr (h' @ resp), w3)" "mb_net w3 = n2"
    "mb_ctx w3 = Some (c'\<lparr>mtx_buffer := x\<rparr>)"
    using server_answer_reply [OF req' resp w2(1) h'] w2(2) by auto
  have reach: "can_reach n2 (s_remote_ip (sockets n2 ! nat ?fd)) mac" "\<forall>log f. 0 \<le> net_send n2 log f"
    using link sl can_reach_cong [of n2 ?n] by (simp_all add: same_link_def)
  have "length (h' @ resp) \<le> 1460" using resp hl' by simp
  from send_established [OF n2(2) reach this, of clk] obtain r n3 where
    n3: "socket_send clk ?fd (h' @ resp) n2 = Some (r, n3)" "0 \<le> r" "conn ?fd TCP_ESTABLISHED rest n3"
    "sent n3 = sent n2 @ [tcp_frame mac (cfg n2) (s_remote_ip (sockets n2 ! nat ?fd)) (s_remote_port (sockets n2 ! nat ?fd))
      (s_local_port (sockets n2 ! nat ?fd)) (s_seq (sockets n2 ! nat ?fd)) (s_ack (sockets n2 ! nat ?fd))
      (TCP_PSH OR TCP_ACK) (h' @ resp)]"
    by blast
  have "modbus_server_process clk w = Some (MODBUS_OK,
      upd_mstats (\<lambda>s. s\<lparr>responses_sent := responses_sent s + 1,
        bytes_sent := bytes_sent s + of_nat (length (h' @ resp))\<rparr>) (w3\<lparr>mb_net := n3\<rparr>))"
    using k n1(1) dec ul ui len n2(1) w3 n3(1,2)
    by (simp add: modbus_server_process_def w2_def Let_def)
  then show ?thesis
    using h' n3(3,4) sl w3(3) unfolding same_link_def by fastforce
qed

theorem modbus_server_serves_request_witness:
  "\<exists>w' x. modbus_server_process clock0 (mclient [0, 9, 0, 0, 0, 6, 1, 6, 0, 1, 0, 42]) = Some (MODBUS_OK, w') \<and>
     mb_ctx w' = Some ((store_rx 7 [6, 0, 1, 0, 42] (store_rx 0 [0, 9, 0, 0, 0, 6, 1] mctx0))
       \<lparr>holding_regs := Some [10, 42, 12, 13], mtx_buffer := x\<rparr>)"
proof -
  let ?h = "[0, 9, 0, 0, 0, 6, 1] :: u8 list" and ?p = "[6, 0, 1, 0, 42] :: u8 list"
  let ?c = "store_rx 7 ?p (store_rx 0 ?h mctx0)"
  let ?s = "(tcp_sock 50000 ip_b 502 TCP_ESTABLISHED)
       \<lparr>s_rx_buffer := (?h @ ?p @ []) @ replicate (SOCKET_BUFFER_SIZE - length (?h @ ?p @ [])) 0, s_rx_len := length (?h @ ?p @ [])\<rparr>"
  have net: "mb_net (mclient (?h @ ?p @ [])) = host ip_a 1 ip_b 2 ?s" by (simp add: mclient_def)
  have "encode_mbap_header MODBUS_MAX_ADU_SIZE 9 1 (of_nat (length ?p)) = Inr ?h"
    by (simp add: encode_mbap_header_def le16_def modbus_htons_def)
  moreover have "handle_request ?c ?p (length ?p) MODBUS_MAX_PDU_SIZE = Some (Inr ?p, ?c\<lparr>holding_regs := Some [10, 42, 12, 13]\<rparr>)"
    by (simp add: handle_request_def handle_write_single_register_def mctx0_def store_rx_def Let_def get16_def
        modbus_ntohs_def modbus_htons_def table_write_def word_le_nat_alt)
  moreover have "client mctx0 TCP_ESTABLISHED (?h @ ?p @ []) (mclient (?h @ ?p @ []))"
    by (rule mclient_ok) simp
  moreover have "can_reach (mb_net (mclient (?h @ ?p @ []))) (s_remote_ip (sockets (mb_net (mclient (?h @ ?p @ []))) ! nat (socket_fd mctx0))) (replicate 6 2)"
    unfolding net using host_reach [of ip_b ip_a 1 2] by (simp add: host_sock mctx0_def tcp_sock_def)
  moreover have "\<forall>log f. 0 \<le> net_send (mb_net (mclient (?h @ ?p @ []))) log f"
    unfolding net by (simp add: host_sock)
  ultimately show ?thesis
    using modbus_server_serves_request [of mctx0 ?h ?p "[]" "mclient (?h @ ?p @ [])" 9 1 ?p _ "replicate 6 2" clock0]
    by fastforce
qed

end
