(* ===== verification/Ethercat.thy ===== *)
theory Ethercat
  imports NetCodec
begin

text \<open>
  The EtherCAT slave of \<^verbatim>\<open>src/kernel/net/ethercat.c\<close>: registers, datagrams, frames, the
  application layer state machine and process data. The slave pointer of the public functions
  is the field \<open>slave\<close> of the state (\<open>None\<close> is NULL); the register space is the list
  \<open>registers\<close>, whose length is \<open>register_size\<close>, set once when it is allocated. Frames are
  processed in place: the functions return the new bytes. An operation is \<open>None\<close> when it
  accesses memory outside a buffer.
\<close>

section \<open>State\<close>

abbreviation (input) "ECAT_TYPE_DATAGRAM \<equiv> 0x01 :: u16"
abbreviation (input) "ECAT_STATE_INIT \<equiv> 0x01 :: u8"
abbreviation (input) "ECAT_STATE_PREOP \<equiv> 0x02 :: u8"
abbreviation (input) "ECAT_STATE_BOOT \<equiv> 0x03 :: u8"
abbreviation (input) "ECAT_STATE_SAFEOP \<equiv> 0x04 :: u8"
abbreviation (input) "ECAT_STATE_OP \<equiv> 0x08 :: u8"
abbreviation (input) "ECAT_STATE_ERROR \<equiv> 0x10 :: u8"
abbreviation (input) "AL_STATUS_OK \<equiv> 0x0000 :: u16"
abbreviation (input) "AL_STATUS_INVALID_SETUP \<equiv> 0x0004 :: u16"
abbreviation (input) "AL_STATUS_INVALID_SYNC \<equiv> 0x0007 :: u16"
abbreviation (input) "REG_FMMU_COUNT \<equiv> 0x0004 :: u16"
abbreviation (input) "REG_SYNC_COUNT \<equiv> 0x0005 :: u16"
abbreviation (input) "REG_STATION_ADDR \<equiv> 0x0010 :: u16"
abbreviation (input) "REG_STATION_ALIAS \<equiv> 0x0012 :: u16"
abbreviation (input) "REG_AL_CONTROL \<equiv> 0x0120 :: u16"
abbreviation (input) "REG_AL_STATUS \<equiv> 0x0130 :: u16"
abbreviation (input) "REG_AL_STATUS_CODE \<equiv> 0x0134 :: u16"
abbreviation (input) "ECAT_FLAG_MORE \<equiv> 0x8000 :: u16"
abbreviation (input) ECAT_MAX_DATAGRAMS :: nat where "ECAT_MAX_DATAGRAMS \<equiv> 15"
abbreviation (input) ECAT_FMMU_MAX :: nat where "ECAT_FMMU_MAX \<equiv> 16"
abbreviation (input) ECAT_SM_MAX :: nat where "ECAT_SM_MAX \<equiv> 16"
abbreviation (input) SM_MBOX_OUT :: nat where "SM_MBOX_OUT \<equiv> 0"
abbreviation (input) SM_MBOX_IN :: nat where "SM_MBOX_IN \<equiv> 1"
abbreviation (input) SM_PROC_OUT :: nat where "SM_PROC_OUT \<equiv> 2"
abbreviation (input) SM_PROC_IN :: nat where "SM_PROC_IN \<equiv> 3"

record ecat_fmmu =
  logical_start :: u32
  fmmu_length :: u16
  logical_start_bit :: u8
  logical_end_bit :: u8
  fmmu_physical_start :: u16
  physical_start_bit :: u8
  fmmu_type :: u8
  fmmu_activate :: u8

record ecat_sm =
  sm_physical_start :: u16
  sm_length :: u16
  sm_control :: u8
  sm_status :: u8
  sm_activate :: u8
  pdi_control :: u8

record ecat_slave_config =
  station_address :: u16
  station_alias :: u16
  vendor_id :: u32
  product_code :: u32
  revision :: u32
  serial :: u32
  port_count :: u8
  fmmu_count :: u8
  sm_count :: u8
  dc_supported :: u8
  input_size :: u16
  output_size :: u16
  input_data :: "u8 list option"
  output_data :: "u8 list option"
  mbox_out_addr :: u16
  mbox_out_size :: u16
  mbox_in_addr :: u16
  mbox_in_size :: u16
  mailbox_supported :: bool
  coe_supported :: bool
  foe_supported :: bool
  eoe_supported :: bool
  soe_supported :: bool

record ecat_slave =
  config :: ecat_slave_config
  al_state :: u8
  requested_state :: u8
  al_status_code :: u16
  state_change_time :: u32
  registers :: "u8 list option"
  fmmu :: "ecat_fmmu list"
  sm :: "ecat_sm list"
  dc_system_time :: u64
  dc_time_offset :: u32
  dc_sync_active :: bool
  wd_divider :: u16
  wd_time_pdi :: u16
  wd_time_proc :: u16
  wd_last_trigger :: u32
  mbox_out_buf :: "u8 list option"
  mbox_in_buf :: "u8 list option"
  mbox_out_ready :: bool
  mbox_in_ready :: bool
  netif :: "nat option"
  emac_addr :: "u8 list"
  slave_active :: bool

record ecat_stats =
  frames_received :: u64
  frames_sent :: u64
  datagrams_processed :: u64
  ebytes_received :: u64
  ebytes_sent :: u64
  aprd_count :: u64
  apwr_count :: u64
  fprd_count :: u64
  fpwr_count :: u64
  brd_count :: u64
  bwr_count :: u64
  lrd_count :: u64
  lwr_count :: u64
  lrw_count :: u64
  state_transitions :: u64
  state_init :: u64
  state_preop :: u64
  state_safeop :: u64
  state_op :: u64
  pdo_cycles :: u64
  mailbox_sent :: u64
  mailbox_received :: u64
  eerrors :: u64
  wkc_errors :: u64
  frame_errors :: u64
  watchdog_triggers :: u64
  dc_sync_errors :: u64

record ecat =
  slave :: "ecat_slave option"
  ecat_stats :: ecat_stats
  ethercat_initialized :: bool

definition zero_estats :: ecat_stats where
  "zero_estats = \<lparr>frames_received = 0, frames_sent = 0, datagrams_processed = 0, ebytes_received = 0,
     ebytes_sent = 0, aprd_count = 0, apwr_count = 0, fprd_count = 0, fpwr_count = 0, brd_count = 0,
     bwr_count = 0, lrd_count = 0, lwr_count = 0, lrw_count = 0, state_transitions = 0,
     state_init = 0, state_preop = 0, state_safeop = 0, state_op = 0, pdo_cycles = 0,
     mailbox_sent = 0, mailbox_received = 0, eerrors = 0, wkc_errors = 0, frame_errors = 0,
     watchdog_triggers = 0, dc_sync_errors = 0\<rparr>"

definition zero_fmmu :: ecat_fmmu where
  "zero_fmmu = \<lparr>logical_start = 0, fmmu_length = 0, logical_start_bit = 0, logical_end_bit = 0,
     fmmu_physical_start = 0, physical_start_bit = 0, fmmu_type = 0, fmmu_activate = 0\<rparr>"

definition zero_sm :: ecat_sm where
  "zero_sm = \<lparr>sm_physical_start = 0, sm_length = 0, sm_control = 0, sm_status = 0, sm_activate = 0,
     pdi_control = 0\<rparr>"

definition register_size :: "ecat_slave \<Rightarrow> nat" where
  "register_size s = (case registers s of None \<Rightarrow> 0 | Some r \<Rightarrow> length r)"

definition put_bytes :: "nat \<Rightarrow> u8 list \<Rightarrow> u8 list \<Rightarrow> u8 list" where
  "put_bytes a bs l = take a l @ bs @ drop (a + length bs) l"

section \<open>Registers\<close>

definition ecat_reg_read8 :: "ecat_slave \<Rightarrow> u16 \<Rightarrow> u8" where
  "ecat_reg_read8 s a =
     (case registers s of None \<Rightarrow> 0 | Some r \<Rightarrow> if length r \<le> unat a then 0 else r ! unat a)"

definition ecat_reg_read16 :: "ecat_slave \<Rightarrow> u16 \<Rightarrow> u16" where
  "ecat_reg_read16 s a =
     (case registers s of None \<Rightarrow> 0 | Some r \<Rightarrow> if length r \<le> unat a + 1 then 0 else get16 r (unat a))"

definition ecat_reg_read32 :: "ecat_slave \<Rightarrow> u16 \<Rightarrow> u32" where
  "ecat_reg_read32 s a =
     (case registers s of None \<Rightarrow> 0 | Some r \<Rightarrow> if length r \<le> unat a + 3 then 0 else get32 r (unat a))"

definition ecat_reg_write8 :: "u16 \<Rightarrow> u8 \<Rightarrow> ecat_slave \<Rightarrow> ecat_slave" where
  "ecat_reg_write8 a v s =
     (case registers s of
        None \<Rightarrow> s
      | Some r \<Rightarrow> if length r \<le> unat a then s else s\<lparr>registers := Some (r[unat a := v])\<rparr>)"

definition ecat_reg_write16 :: "u16 \<Rightarrow> u16 \<Rightarrow> ecat_slave \<Rightarrow> ecat_slave" where
  "ecat_reg_write16 a v s =
     (case registers s of
        None \<Rightarrow> s
      | Some r \<Rightarrow>
          if length r \<le> unat a + 1 then s
          else
            let s1 = s\<lparr>registers := Some (put_bytes (unat a) (le16 v) r)\<rparr>
            in if a = REG_AL_CONTROL then s1\<lparr>requested_state := ucast (v AND 0x0F)\<rparr> else s1)"

definition ecat_reg_write32 :: "u16 \<Rightarrow> u32 \<Rightarrow> ecat_slave \<Rightarrow> ecat_slave" where
  "ecat_reg_write32 a v s =
     (case registers s of
        None \<Rightarrow> s
      | Some r \<Rightarrow>
          if length r \<le> unat a + 3 then s
          else s\<lparr>registers := Some (put_bytes (unat a) (le32 v) r)\<rparr>)"

section \<open>Datagrams\<close>

text \<open>
  The helpers of the datagram commands get the data of the datagram and return the increment of
  the working counter, the new data, the slave and the statistics.
\<close>

type_synonym dg_result = "nat \<times> u8 list \<times> ecat_slave \<times> ecat_stats"

definition process_register_read :: "ecat_slave \<Rightarrow> u16 \<Rightarrow> nat \<Rightarrow> u8 list" where
  "process_register_read s a len = map (\<lambda>i. ecat_reg_read8 s (a + of_nat i)) [0..<len]"

definition process_register_write :: "u16 \<Rightarrow> u8 list \<Rightarrow> ecat_slave \<Rightarrow> ecat_slave" where
  "process_register_write a d s =
     fold (\<lambda>i. ecat_reg_write8 (a + of_nat i) (d ! i)) [0..<length d] s"

definition reg_part :: "u32 \<Rightarrow> u16" where
  "reg_part addr = ucast (addr AND 0xFFFF)"

definition station_part :: "u32 \<Rightarrow> u16" where
  "station_part addr = ucast (drop_bit 16 addr AND 0xFFFF)"

definition not_for_us :: "u32 \<Rightarrow> ecat_slave \<Rightarrow> bool" where
  "not_for_us addr s \<longleftrightarrow> station_part addr \<noteq> station_address (config s) \<and>
     station_part addr \<noteq> station_alias (config s)"

definition process_aprd :: "u32 \<Rightarrow> u8 list \<Rightarrow> ecat_slave \<Rightarrow> ecat_stats \<Rightarrow> dg_result" where
  "process_aprd addr d s st =
     (1, process_register_read s (reg_part addr) (length d), s, st\<lparr>aprd_count := aprd_count st + 1\<rparr>)"

definition process_apwr :: "u32 \<Rightarrow> u8 list \<Rightarrow> ecat_slave \<Rightarrow> ecat_stats \<Rightarrow> dg_result" where
  "process_apwr addr d s st =
     (1, d, process_register_write (reg_part addr) d s, st\<lparr>apwr_count := apwr_count st + 1\<rparr>)"

definition process_fprd :: "u32 \<Rightarrow> u8 list \<Rightarrow> ecat_slave \<Rightarrow> ecat_stats \<Rightarrow> dg_result" where
  "process_fprd addr d s st =
     (if not_for_us addr s then (0, d, s, st)
      else (1, process_register_read s (reg_part addr) (length d), s, st\<lparr>fprd_count := fprd_count st + 1\<rparr>))"

definition process_fpwr :: "u32 \<Rightarrow> u8 list \<Rightarrow> ecat_slave \<Rightarrow> ecat_stats \<Rightarrow> dg_result" where
  "process_fpwr addr d s st =
     (if not_for_us addr s then (0, d, s, st)
      else (1, d, process_register_write (reg_part addr) d s, st\<lparr>fpwr_count := fpwr_count st + 1\<rparr>))"

definition process_brd :: "u32 \<Rightarrow> u8 list \<Rightarrow> ecat_slave \<Rightarrow> ecat_stats \<Rightarrow> dg_result" where
  "process_brd addr d s st =
     (1, process_register_read s (reg_part addr) (length d), s, st\<lparr>brd_count := brd_count st + 1\<rparr>)"

definition process_bwr :: "u32 \<Rightarrow> u8 list \<Rightarrow> ecat_slave \<Rightarrow> ecat_stats \<Rightarrow> dg_result" where
  "process_bwr addr d s st =
     (1, d, process_register_write (reg_part addr) d s, st\<lparr>bwr_count := bwr_count st + 1\<rparr>)"

text \<open>Logical access is not implemented in the code; it only counts.\<close>

definition process_lrd :: "u32 \<Rightarrow> u8 list \<Rightarrow> ecat_slave \<Rightarrow> ecat_stats \<Rightarrow> dg_result" where
  "process_lrd addr d s st = (0, d, s, st\<lparr>lrd_count := lrd_count st + 1\<rparr>)"

definition process_lwr :: "u32 \<Rightarrow> u8 list \<Rightarrow> ecat_slave \<Rightarrow> ecat_stats \<Rightarrow> dg_result" where
  "process_lwr addr d s st = (0, d, s, st\<lparr>lwr_count := lwr_count st + 1\<rparr>)"

definition process_lrw :: "u32 \<Rightarrow> u8 list \<Rightarrow> ecat_slave \<Rightarrow> ecat_stats \<Rightarrow> dg_result" where
  "process_lrw addr d s st = (0, d, s, st\<lparr>lrw_count := lrw_count st + 1\<rparr>)"

text \<open>The combined commands: the second half runs when the first one counted.\<close>

definition then_write ::
    "(u32 \<Rightarrow> u8 list \<Rightarrow> ecat_slave \<Rightarrow> ecat_stats \<Rightarrow> dg_result) \<Rightarrow> u32 \<Rightarrow> dg_result \<Rightarrow> dg_result" where
  "then_write f addr r = (case r of (k, d, s, st) \<Rightarrow> if 0 < k then f addr d s st else (k, d, s, st))"

text \<open>The switch over the command; \<open>None\<close> is an unknown command.\<close>

definition run_command :: "u8 \<Rightarrow> u32 \<Rightarrow> u8 list \<Rightarrow> ecat_slave \<Rightarrow> ecat_stats \<Rightarrow> dg_result option" where
  "run_command cmd addr d s st =
     (if cmd = 0x00 then Some (0, d, s, st)
      else if cmd = 0x01 then Some (process_aprd addr d s st)
      else if cmd = 0x02 then Some (process_apwr addr d s st)
      else if cmd = 0x03 then Some (then_write process_apwr addr (process_aprd addr d s st))
      else if cmd = 0x04 then Some (process_fprd addr d s st)
      else if cmd = 0x05 then Some (process_fpwr addr d s st)
      else if cmd = 0x06 then Some (then_write process_fpwr addr (process_fprd addr d s st))
      else if cmd = 0x07 then Some (process_brd addr d s st)
      else if cmd = 0x08 then Some (process_bwr addr d s st)
      else if cmd = 0x09 then Some (then_write process_bwr addr (process_brd addr d s st))
      else if cmd = 0x0A then Some (process_lrd addr d s st)
      else if cmd = 0x0B then Some (process_lwr addr d s st)
      else if cmd = 0x0C then Some (process_lrw addr d s st)
      else if cmd = 0x0D \<or> cmd = 0x0E then Some (0, d, s, st)
      else None)"

text \<open>\<open>mem\<close> is the memory from the data of the datagram on; the working counter follows the data.\<close>

definition frame_error :: "ecat_stats \<Rightarrow> ecat_stats" where
  "frame_error st = st\<lparr>frame_errors := frame_errors st + 1\<rparr>"

definition process_datagram ::
    "u8 \<Rightarrow> u32 \<Rightarrow> u16 \<Rightarrow> u8 list \<Rightarrow> nat \<Rightarrow> ecat_slave \<Rightarrow> ecat_stats \<Rightarrow>
     (int \<times> u8 list \<times> ecat_slave \<times> ecat_stats) option" where
  "process_datagram cmd addr len_flags mem len s st =
     (let data_len = unat (len_flags AND 0x07FF)
      in if sub64 len 2 < data_len then Some (- 1, mem, s, frame_error st)
         else if length mem < data_len + 2 then None
         else
           (case run_command cmd addr (take data_len mem) s st of
              None \<Rightarrow> Some (- 1, mem, s, frame_error st)
            | Some (k, d, s', st') \<Rightarrow>
                let mem1 = put_bytes 0 d mem;
                    wkc = get16 mem data_len;
                    mem2 = (if 0 < k then put_bytes data_len (le16 (wkc + of_nat k)) mem1 else mem1)
                in Some (0, mem2, s', st'\<lparr>datagrams_processed := datagrams_processed st' + 1\<rparr>)))"

definition ecat_process_datagram ::
    "(u8 \<times> u32 \<times> u16) option \<Rightarrow> u8 list option \<Rightarrow> nat \<Rightarrow> ecat \<Rightarrow> (int \<times> u8 list option \<times> ecat) option" where
  "ecat_process_datagram dg data len e =
     (case (slave e, dg, data) of
        (Some s, Some (cmd, addr, lf), Some mem) \<Rightarrow> do {
          (r, mem', s', st') \<leftarrow> process_datagram cmd addr lf mem len s (ecat_stats e);
          Some (r, Some mem', e\<lparr>slave := Some s', ecat_stats := st'\<rparr>)
        }
      | _ \<Rightarrow> Some (- 1, data, e))"

section \<open>Frames\<close>

text \<open>
  The loop over the datagrams of a frame: \<open>off\<close> is the offset of the next one in the frame. It
  ends because \<open>remaining\<close> decreases.
\<close>

function ecat_datagrams ::
    "nat \<Rightarrow> nat \<Rightarrow> nat \<Rightarrow> u8 list \<Rightarrow> ecat_slave \<Rightarrow> ecat_stats \<Rightarrow>
     (nat \<times> u8 list \<times> ecat_slave \<times> ecat_stats) option" where
  "ecat_datagrams off remaining count frame s st =
     (if remaining < 10 then Some (count, frame, s, st)
      else
        let len_flags = get16 frame (off + 6);
            data_len = unat (len_flags AND 0x07FF);
            dg_total_len = 10 + data_len + 2
        in if remaining < dg_total_len then Some (count, frame, s, frame_error st)
           else do {
             (r, mem, s1, st1) \<leftarrow> process_datagram (frame ! off) (get32 frame (off + 2)) len_flags
                                   (drop (off + 10) frame) (data_len + 2) s st;
             let frame1 = take (off + 10) frame @ mem;
             let st2 = (if r < 0 then frame_error st1 else st1);
             if len_flags AND ECAT_FLAG_MORE = 0 then Some (count + 1, frame1, s1, st2)
             else if ECAT_MAX_DATAGRAMS \<le> count + 1 then Some (count + 1, frame1, s1, st2)
             else ecat_datagrams (off + dg_total_len) (remaining - dg_total_len) (count + 1) frame1 s1 st2
           })"
  by pat_completeness auto
termination by (relation "measure (\<lambda>(off, remaining, count, frame, s, st). remaining)") auto

declare ecat_datagrams.simps [simp del]

definition process_frame ::
    "u8 list \<Rightarrow> nat \<Rightarrow> ecat_slave \<Rightarrow> ecat_stats \<Rightarrow> (int \<times> u8 list \<times> ecat_slave \<times> ecat_stats) option" where
  "process_frame frame len s st =
     (if len < 2 then Some (- 1, frame, s, st)
      else
        let length_type = get16 frame 0;
            frame_len = unat (length_type AND 0x07FF);
            frame_type = drop_bit 12 length_type AND 0x0F
        in if frame_type \<noteq> ECAT_TYPE_DATAGRAM then Some (- 1, frame, s, frame_error st)
           else if len < frame_len + 2 then Some (- 1, frame, s, frame_error st)
           else do {
             (n, frame', s', st') \<leftarrow> ecat_datagrams 2 frame_len 0 frame s st;
             Some (int n, frame', s', st'\<lparr>frames_received := frames_received st' + 1,
                     ebytes_received := ebytes_received st' + of_nat len\<rparr>)
           })"

definition ecat_process_frame ::
    "u8 list option \<Rightarrow> nat \<Rightarrow> ecat \<Rightarrow> (int \<times> u8 list option \<times> ecat) option" where
  "ecat_process_frame frame len e =
     (case (slave e, frame) of
        (Some s, Some f) \<Rightarrow> do {
          (r, f', s', st') \<leftarrow> process_frame f len s (ecat_stats e);
          Some (r, Some f', e\<lparr>slave := Some s', ecat_stats := st'\<rparr>)
        }
      | _ \<Rightarrow> Some (- 1, frame, e))"

section \<open>Life cycle\<close>

text \<open>\<open>ok1\<close> and \<open>ok2\<close> are whether the allocations of the slave and of its registers succeed.\<close>

definition ecat_slave_create :: "ecat_slave_config option \<Rightarrow> bool \<Rightarrow> bool \<Rightarrow> ecat \<Rightarrow> ecat" where
  "ecat_slave_create cfg ok1 ok2 e =
     (case cfg of
        None \<Rightarrow> e\<lparr>slave := None\<rparr>
      | Some c \<Rightarrow>
          if \<not> ok1 \<or> \<not> ok2 then e\<lparr>slave := None\<rparr>
          else
            let s = \<lparr>config = c, al_state = ECAT_STATE_INIT, requested_state = ECAT_STATE_INIT,
                  al_status_code = AL_STATUS_OK, state_change_time = 0,
                  registers = Some (replicate 65536 0),
                  fmmu = replicate ECAT_FMMU_MAX zero_fmmu, sm = replicate ECAT_SM_MAX zero_sm,
                  dc_system_time = 0, dc_time_offset = 0, dc_sync_active = False, wd_divider = 0,
                  wd_time_pdi = 0, wd_time_proc = 0, wd_last_trigger = 0, mbox_out_buf = None,
                  mbox_in_buf = None, mbox_out_ready = False, mbox_in_ready = False, netif = None,
                  emac_addr = replicate 6 0, slave_active = False\<rparr>;
                e1 = e\<lparr>slave := Some s\<rparr>
            in if ethercat_initialized e1 then e1
               else e1\<lparr>ecat_stats := zero_estats, ethercat_initialized := True\<rparr>)"

definition ecat_slave_destroy :: "ecat \<Rightarrow> ecat" where
  "ecat_slave_destroy e = e\<lparr>slave := None\<rparr>"

text \<open>An operation on a slave that is not NULL; the result is -1 when it is.\<close>

definition on_slave :: "(ecat_slave \<Rightarrow> int \<times> ecat_slave) \<Rightarrow> ecat \<Rightarrow> int \<times> ecat" where
  "on_slave f e =
     (case slave e of
        None \<Rightarrow> (- 1, e)
      | Some s \<Rightarrow> (case f s of (r, s') \<Rightarrow> (r, e\<lparr>slave := Some s'\<rparr>)))"

definition write_al_status :: "ecat_slave \<Rightarrow> ecat_slave" where
  "write_al_status s =
     (let s1 = ecat_reg_write16 REG_AL_STATUS (ucast (al_state s)) s
      in ecat_reg_write16 REG_AL_STATUS_CODE (al_status_code s1) s1)"

definition slave_init :: "ecat_slave \<Rightarrow> ecat_slave" where
  "slave_init s =
     (let s = s\<lparr>registers := map_option (\<lambda>r. replicate (length r) 0) (registers s)\<rparr>;
          s = ecat_reg_write16 REG_STATION_ADDR (station_address (config s)) s;
          s = ecat_reg_write16 REG_STATION_ALIAS (station_alias (config s)) s;
          s = ecat_reg_write8 REG_FMMU_COUNT (fmmu_count (config s)) s;
          s = ecat_reg_write8 REG_SYNC_COUNT (sm_count (config s)) s;
          s = s\<lparr>al_state := ECAT_STATE_INIT, requested_state := ECAT_STATE_INIT, al_status_code := AL_STATUS_OK\<rparr>
      in (write_al_status s)\<lparr>slave_active := True\<rparr>)"

definition ecat_slave_init :: "ecat \<Rightarrow> int \<times> ecat" where
  "ecat_slave_init = on_slave (\<lambda>s. (0, slave_init s))"

definition deactivate_all :: "ecat_slave \<Rightarrow> ecat_slave" where
  "deactivate_all s = s\<lparr>fmmu := map (\<lambda>f. f\<lparr>fmmu_activate := 0\<rparr>) (fmmu s),
                        sm := map (\<lambda>m. m\<lparr>sm_activate := 0\<rparr>) (sm s)\<rparr>"

definition ecat_slave_reset :: "ecat \<Rightarrow> int \<times> ecat" where
  "ecat_slave_reset = on_slave (\<lambda>s.
     (0, deactivate_all (write_al_status
           (s\<lparr>al_state := ECAT_STATE_INIT, requested_state := ECAT_STATE_INIT, al_status_code := AL_STATUS_OK\<rparr>))))"

section \<open>The application layer state machine\<close>

definition is_valid_state_transition :: "u8 \<Rightarrow> u8 \<Rightarrow> bool" where
  "is_valid_state_transition from_state to_state =
     (let f = from_state AND 0x0F; t = to_state AND 0x0F
      in if f = ECAT_STATE_INIT
         then t = ECAT_STATE_INIT \<or> t = ECAT_STATE_PREOP \<or> t = ECAT_STATE_BOOT \<or> t = ECAT_STATE_SAFEOP \<or> t = ECAT_STATE_OP
         else if f = ECAT_STATE_PREOP
         then t = ECAT_STATE_INIT \<or> t = ECAT_STATE_PREOP \<or> t = ECAT_STATE_BOOT \<or> t = ECAT_STATE_SAFEOP
         else if f = ECAT_STATE_BOOT then t = ECAT_STATE_INIT \<or> t = ECAT_STATE_BOOT
         else if f = ECAT_STATE_SAFEOP
         then t = ECAT_STATE_INIT \<or> t = ECAT_STATE_PREOP \<or> t = ECAT_STATE_SAFEOP \<or> t = ECAT_STATE_OP
         else if f = ECAT_STATE_OP then t = ECAT_STATE_INIT \<or> t = ECAT_STATE_SAFEOP \<or> t = ECAT_STATE_OP
         else False)"

definition upd_sm :: "nat \<Rightarrow> (ecat_sm \<Rightarrow> ecat_sm) \<Rightarrow> ecat_slave \<Rightarrow> ecat_slave" where
  "upd_sm i f s = s\<lparr>sm := (sm s)[i := f (sm s ! i)]\<rparr>"

definition state_enter_init :: "ecat_slave \<Rightarrow> int \<times> ecat_slave" where
  "state_enter_init s = (0, deactivate_all s)"

definition state_enter_preop :: "ecat_slave \<Rightarrow> int \<times> ecat_slave" where
  "state_enter_preop s =
     (let on = (\<lambda>m. m\<lparr>sm_activate := 1\<rparr>)
      in if mailbox_supported (config s)
         then
           let s1 = (if 0 < mbox_out_size (config s) then upd_sm SM_MBOX_OUT on s else s);
               s2 = (if 0 < mbox_in_size (config s) then upd_sm SM_MBOX_IN on s1 else s1)
           in (0, s2)
         else (0, s))"

text \<open>Clearing the outputs is \<open>None\<close> when the application's buffer is shorter than declared.\<close>

definition state_enter_safeop :: "ecat_slave \<Rightarrow> (int \<times> ecat_slave) option" where
  "state_enter_safeop s =
     (let on = (\<lambda>m. m\<lparr>sm_activate := 1\<rparr>); ins = input_size (config s); outs = output_size (config s)
      in if 0 < ins \<and> sm_length (sm s ! SM_PROC_IN) = 0
         then Some (- 1, s\<lparr>al_status_code := AL_STATUS_INVALID_SYNC\<rparr>)
         else if 0 < outs \<and> sm_length (sm s ! SM_PROC_OUT) = 0
         then Some (- 1, s\<lparr>al_status_code := AL_STATUS_INVALID_SYNC\<rparr>)
         else
           let s1 = (if 0 < ins then upd_sm SM_PROC_IN on s else s)
           in if 0 < outs
              then
                let s2 = upd_sm SM_PROC_OUT on s1
                in (case output_data (config s2) of
                      None \<Rightarrow> Some (0, s2)
                    | Some d \<Rightarrow>
                        if length d < unat outs then None
                        else Some (0, s2\<lparr>config := (config s2)\<lparr>output_data :=
                               Some (put_bytes 0 (replicate (unat outs) 0) d)\<rparr>\<rparr>))
              else Some (0, s1))"

definition state_enter_op :: "ecat_slave \<Rightarrow> int \<times> ecat_slave" where
  "state_enter_op s = (0, s)"

definition ecat_slave_set_state :: "u8 \<Rightarrow> ecat \<Rightarrow> int \<times> ecat" where
  "ecat_slave_set_state state =
     on_slave (\<lambda>s. (0, ecat_reg_write16 REG_AL_CONTROL (ucast state) (s\<lparr>requested_state := state AND 0x0F\<rparr>)))"

definition ecat_slave_get_state :: "ecat \<Rightarrow> u8" where
  "ecat_slave_get_state e = (case slave e of None \<Rightarrow> 0 | Some s \<Rightarrow> al_state s)"

definition enter_state :: "u8 \<Rightarrow> ecat_slave \<Rightarrow> (int \<times> ecat_slave) option" where
  "enter_state requested s =
     (if requested = ECAT_STATE_INIT then Some (state_enter_init s)
      else if requested = ECAT_STATE_PREOP then Some (state_enter_preop s)
      else if requested = ECAT_STATE_BOOT then Some (0, s)
      else if requested = ECAT_STATE_SAFEOP then state_enter_safeop s
      else if requested = ECAT_STATE_OP then Some (state_enter_op s)
      else Some (- 1, s\<lparr>al_status_code := AL_STATUS_INVALID_SETUP\<rparr>))"

definition count_transition :: "u8 \<Rightarrow> ecat_stats \<Rightarrow> ecat_stats" where
  "count_transition requested st =
     (let st = st\<lparr>state_transitions := state_transitions st + 1\<rparr>
      in if requested = ECAT_STATE_INIT then st\<lparr>state_init := state_init st + 1\<rparr>
         else if requested = ECAT_STATE_PREOP then st\<lparr>state_preop := state_preop st + 1\<rparr>
         else if requested = ECAT_STATE_SAFEOP then st\<lparr>state_safeop := state_safeop st + 1\<rparr>
         else if requested = ECAT_STATE_OP then st\<lparr>state_op := state_op st + 1\<rparr>
         else st)"

definition transition :: "ecat_slave \<Rightarrow> ecat_stats \<Rightarrow> (int \<times> ecat_slave \<times> ecat_stats) option" where
  "transition s st =
     (let current = al_state s AND 0x0F; requested = requested_state s AND 0x0F
      in if current = requested then Some (0, s, st)
         else if \<not> is_valid_state_transition current requested
         then Some (- 1, write_al_status (s\<lparr>al_status_code := AL_STATUS_INVALID_SETUP,
                            al_state := current OR ECAT_STATE_ERROR\<rparr>), st)
         else do {
           (ret, s1) \<leftarrow> enter_state requested s;
           let (s2, st2) = (if ret = 0
              then (s1\<lparr>al_state := requested, al_status_code := AL_STATUS_OK\<rparr>, count_transition requested st)
              else (s1\<lparr>al_state := current OR ECAT_STATE_ERROR\<rparr>, st));
           Some (ret, write_al_status s2, st2)
         })"

definition ecat_slave_transition :: "ecat \<Rightarrow> (int \<times> ecat) option" where
  "ecat_slave_transition e =
     (case slave e of
        None \<Rightarrow> Some (- 1, e)
      | Some s \<Rightarrow> do {
          (r, s', st') \<leftarrow> transition s (ecat_stats e);
          Some (r, e\<lparr>slave := Some s', ecat_stats := st'\<rparr>)
        })"

section \<open>FMMUs and sync managers\<close>

definition upd_fmmu :: "nat \<Rightarrow> (ecat_fmmu \<Rightarrow> ecat_fmmu) \<Rightarrow> ecat_slave \<Rightarrow> ecat_slave" where
  "upd_fmmu i f s = s\<lparr>fmmu := (fmmu s)[i := f (fmmu s ! i)]\<rparr>"

definition ecat_fmmu_config :: "u8 \<Rightarrow> ecat_fmmu option \<Rightarrow> ecat \<Rightarrow> int \<times> ecat" where
  "ecat_fmmu_config i f = on_slave (\<lambda>s.
     if ECAT_FMMU_MAX \<le> unat i \<or> f = None then (- 1, s) else (0, upd_fmmu (unat i) (\<lambda>_. the f) s))"

definition ecat_fmmu_activate :: "u8 \<Rightarrow> ecat \<Rightarrow> int \<times> ecat" where
  "ecat_fmmu_activate i = on_slave (\<lambda>s.
     if ECAT_FMMU_MAX \<le> unat i then (- 1, s) else (0, upd_fmmu (unat i) (\<lambda>f. f\<lparr>fmmu_activate := 1\<rparr>) s))"

definition ecat_fmmu_deactivate :: "u8 \<Rightarrow> ecat \<Rightarrow> int \<times> ecat" where
  "ecat_fmmu_deactivate i = on_slave (\<lambda>s.
     if ECAT_FMMU_MAX \<le> unat i then (- 1, s) else (0, upd_fmmu (unat i) (\<lambda>f. f\<lparr>fmmu_activate := 0\<rparr>) s))"

definition ecat_sm_config :: "u8 \<Rightarrow> ecat_sm option \<Rightarrow> ecat \<Rightarrow> int \<times> ecat" where
  "ecat_sm_config i m = on_slave (\<lambda>s.
     if ECAT_SM_MAX \<le> unat i \<or> m = None then (- 1, s) else (0, upd_sm (unat i) (\<lambda>_. the m) s))"

definition ecat_sm_activate :: "u8 \<Rightarrow> ecat \<Rightarrow> int \<times> ecat" where
  "ecat_sm_activate i = on_slave (\<lambda>s.
     if ECAT_SM_MAX \<le> unat i then (- 1, s) else (0, upd_sm (unat i) (\<lambda>m. m\<lparr>sm_activate := 1\<rparr>) s))"

definition ecat_sm_deactivate :: "u8 \<Rightarrow> ecat \<Rightarrow> int \<times> ecat" where
  "ecat_sm_deactivate i = on_slave (\<lambda>s.
     if ECAT_SM_MAX \<le> unat i then (- 1, s) else (0, upd_sm (unat i) (\<lambda>m. m\<lparr>sm_activate := 0\<rparr>) s))"

section \<open>Process data\<close>

text \<open>The outputs: -1, or the slave with the application's output buffer filled.\<close>

definition exchange_outputs :: "ecat_slave \<Rightarrow> (int \<times> ecat_slave) option" where
  "exchange_outputs s =
     (case output_data (config s) of
        None \<Rightarrow> Some (0, s)
      | Some d \<Rightarrow>
          let outs = unat (output_size (config s)); m = sm s ! SM_PROC_OUT; phys = unat (sm_physical_start m)
          in if outs = 0 \<or> sm_activate m = 0 then Some (0, s)
             else if unat (sm_length m) < outs then Some (- 1, s)
             else if phys + outs \<le> register_size s
             then
               if length d < outs then None
               else Some (0, s\<lparr>config := (config s)\<lparr>output_data :=
                      Some (put_bytes 0 (take outs (drop phys (the (registers s)))) d)\<rparr>\<rparr>)
             else Some (0, s))"

definition exchange_inputs :: "ecat_slave \<Rightarrow> (int \<times> ecat_slave) option" where
  "exchange_inputs s =
     (case input_data (config s) of
        None \<Rightarrow> Some (0, s)
      | Some d \<Rightarrow>
          let ins = unat (input_size (config s)); m = sm s ! SM_PROC_IN; phys = unat (sm_physical_start m)
          in if ins = 0 \<or> sm_activate m = 0 then Some (0, s)
             else if unat (sm_length m) < ins then Some (- 1, s)
             else if phys + ins \<le> register_size s
             then
               if length d < ins then None
               else Some (0, s\<lparr>registers := Some (put_bytes phys (take ins d) (the (registers s)))\<rparr>)
             else Some (0, s))"

definition pdo_exchange :: "ecat_slave \<Rightarrow> ecat_stats \<Rightarrow> (int \<times> ecat_slave \<times> ecat_stats) option" where
  "pdo_exchange s st =
     (let state = al_state s AND 0x0F
      in if state \<noteq> ECAT_STATE_SAFEOP \<and> state \<noteq> ECAT_STATE_OP then Some (- 1, s, st)
         else do {
           (r1, s1) \<leftarrow> exchange_outputs s;
           if r1 \<noteq> 0 then Some (- 1, s1, st)
           else do {
             (r2, s2) \<leftarrow> exchange_inputs s1;
             if r2 \<noteq> 0 then Some (- 1, s2, st)
             else Some (0, s2, st\<lparr>pdo_cycles := pdo_cycles st + 1\<rparr>)
           }
         })"

definition ecat_pdo_exchange :: "ecat \<Rightarrow> (int \<times> ecat) option" where
  "ecat_pdo_exchange e =
     (case slave e of
        None \<Rightarrow> Some (- 1, e)
      | Some s \<Rightarrow> do {
          (r, s', st') \<leftarrow> pdo_exchange s (ecat_stats e);
          Some (r, e\<lparr>slave := Some s', ecat_stats := st'\<rparr>)
        })"

text \<open>Reading the inputs: the result and the bytes copied; \<open>ok\<close> is whether the caller's buffer is not NULL.\<close>

definition ecat_pdo_read :: "bool \<Rightarrow> nat \<Rightarrow> ecat \<Rightarrow> (int \<times> u8 list) option" where
  "ecat_pdo_read ok len e =
     (case slave e of
        None \<Rightarrow> Some (- 1, [])
      | Some s \<Rightarrow>
          if \<not> ok then Some (- 1, [])
          else
            (case input_data (config s) of
               None \<Rightarrow> Some (0, [])
             | Some d \<Rightarrow>
                 if input_size (config s) = 0 then Some (0, [])
                 else
                   let n = (if len < unat (input_size (config s)) then len else unat (input_size (config s)))
                   in if length d < n then None else Some (int n, take n d)))"

definition ecat_pdo_write :: "u8 list option \<Rightarrow> nat \<Rightarrow> ecat \<Rightarrow> (int \<times> ecat) option" where
  "ecat_pdo_write data len e =
     (case (slave e, data) of
        (Some s, Some src) \<Rightarrow>
          (case output_data (config s) of
             None \<Rightarrow> Some (0, e)
           | Some d \<Rightarrow>
               if output_size (config s) = 0 then Some (0, e)
               else
                 let n = (if len < unat (output_size (config s)) then len else unat (output_size (config s)))
                 in if length src < n \<or> length d < n then None
                    else Some (int n, e\<lparr>slave := Some (s\<lparr>config := (config s)\<lparr>output_data :=
                           Some (put_bytes 0 (take n src) d)\<rparr>\<rparr>)\<rparr>))
      | _ \<Rightarrow> Some (- 1, e))"

section \<open>Clock, watchdog, statistics and network interface\<close>

definition ecat_dc_init :: "ecat \<Rightarrow> int \<times> ecat" where
  "ecat_dc_init = on_slave (\<lambda>s. (0, s\<lparr>dc_system_time := 0, dc_time_offset := 0, dc_sync_active := False\<rparr>))"

definition ecat_dc_sync :: "u64 \<Rightarrow> ecat \<Rightarrow> int \<times> ecat" where
  "ecat_dc_sync t = on_slave (\<lambda>s. (0, s\<lparr>dc_system_time := t\<rparr>))"

definition ecat_dc_set_sync_mode :: "bool \<Rightarrow> ecat \<Rightarrow> int \<times> ecat" where
  "ecat_dc_set_sync_mode b = on_slave (\<lambda>s. (0, s\<lparr>dc_sync_active := b\<rparr>))"

definition ecat_watchdog_init :: "u16 \<Rightarrow> u16 \<Rightarrow> u16 \<Rightarrow> ecat \<Rightarrow> int \<times> ecat" where
  "ecat_watchdog_init dv pdi proc =
     on_slave (\<lambda>s. (0, s\<lparr>wd_divider := dv, wd_time_pdi := pdi, wd_time_proc := proc\<rparr>))"

definition ecat_watchdog_trigger :: "ecat \<Rightarrow> int \<times> ecat" where
  "ecat_watchdog_trigger = on_slave (\<lambda>s. (0, s\<lparr>wd_last_trigger := 0\<rparr>))"

definition ecat_reset_stats :: "ecat \<Rightarrow> ecat" where
  "ecat_reset_stats e = e\<lparr>ecat_stats := zero_estats\<rparr>"

definition ecat_bind_netif :: "nat option \<Rightarrow> ecat \<Rightarrow> int \<times> ecat" where
  "ecat_bind_netif n = on_slave (\<lambda>s. (0, s\<lparr>netif := n\<rparr>))"

definition ecat_unbind_netif :: "ecat \<Rightarrow> int \<times> ecat" where
  "ecat_unbind_netif = on_slave (\<lambda>s. (0, s\<lparr>netif := None\<rparr>))"

end
