(* ===== verification/EthercatFlow.thy ===== *)
theory EthercatFlow
  imports Ethercat
begin

text \<open>
  What the EtherCAT slave of \<open>Ethercat\<close> guarantees: memory safety of frame processing, register
  access over the bus, the state machine, and process data from the wire to the application.
\<close>

section \<open>Bytes\<close>

lemma length_put_bytes [simp]: "a + length bs \<le> length l \<Longrightarrow> length (put_bytes a bs l) = length l"
  by (simp add: put_bytes_def)

lemma put_bytes_front: "length d = n \<Longrightarrow> length x = n \<Longrightarrow> put_bytes 0 d (x @ r) = d @ r"
  by (simp add: put_bytes_def)

lemma put_bytes_at: "length d = n \<Longrightarrow> length w = length v \<Longrightarrow> put_bytes n w (d @ v @ r) = d @ w @ r"
  by (simp add: put_bytes_def)

lemma word_offset_inj:
  assumes "i < 65536" "j < 65536" "(a :: u16) + of_nat i = a + of_nat j"
  shows "i = j"
proof -
  have "(of_nat i :: u16) = of_nat j" using assms(3) by simp
  then have "unat (of_nat i :: u16) = unat (of_nat j :: u16)" by simp
  then show ?thesis using assms(1,2) by (simp add: unat_of_nat)
qed

section \<open>Registers\<close>

text \<open>\<open>s'\<close> is \<open>s\<close> with the contents of the register space changed.\<close>

definition regs_only :: "ecat_slave \<Rightarrow> ecat_slave \<Rightarrow> bool" where
  "regs_only s s' \<longleftrightarrow> (\<exists>rs. s' = s\<lparr>registers := rs\<rparr> \<and> map_option length rs = map_option length (registers s))"

lemma regs_only_refl [simp]: "regs_only s s"
  unfolding regs_only_def by (rule exI [of _ "registers s"]) simp

lemma regs_only_trans: "regs_only a b \<Longrightarrow> regs_only b c \<Longrightarrow> regs_only a c"
  unfolding regs_only_def by auto

lemma regs_only_fields:
  assumes "regs_only s s'"
  shows "config s' = config s" "al_state s' = al_state s" "requested_state s' = requested_state s"
    "fmmu s' = fmmu s" "sm s' = sm s" "register_size s' = register_size s"
proof -
  obtain rs where r: "s' = s\<lparr>registers := rs\<rparr>" "map_option length rs = map_option length (registers s)"
    using assms by (auto simp: regs_only_def)
  show "config s' = config s" "al_state s' = al_state s" "requested_state s' = requested_state s"
    "fmmu s' = fmmu s" "sm s' = sm s" by (simp_all add: r(1))
  show "register_size s' = register_size s"
    using r by (cases rs; cases "registers s") (simp_all add: register_size_def)
qed

lemma write8_regs_only [simp]: "regs_only s (ecat_reg_write8 a v s)"
proof (cases "registers s")
  case (Some r)
  then show ?thesis
    unfolding regs_only_def
    by (cases "length r \<le> unat a")
      (auto simp: ecat_reg_write8_def intro: exI [of _ "registers s"] exI [of _ "Some (r[unat a := v])"])
qed (simp add: ecat_reg_write8_def)

lemma fold_write_regs_only: "regs_only s (fold (\<lambda>i. ecat_reg_write8 (f i) (g i)) is s)"
proof (induction "is" arbitrary: s)
  case (Cons i "is")
  show ?case by (simp, rule regs_only_trans [OF write8_regs_only Cons.IH])
qed simp

lemma register_write_regs_only [simp]: "regs_only s (process_register_write a d s)"
  unfolding process_register_write_def by (rule fold_write_regs_only)

text \<open>A full register space.\<close>

definition full_regs :: "ecat_slave \<Rightarrow> bool" where
  "full_regs s \<longleftrightarrow> (\<exists>r. registers s = Some r \<and> length r = 65536)"

lemma full_regs_only: "regs_only s s' \<Longrightarrow> full_regs s \<Longrightarrow> full_regs s'"
proof -
  assume "regs_only s s'" "full_regs s"
  then obtain rs r where "s' = s\<lparr>registers := rs\<rparr>" "map_option length rs = Some 65536"
    by (auto simp: regs_only_def full_regs_def)
  then show "full_regs s'" by (auto simp: full_regs_def)
qed

text \<open>Writing a block of registers, and reading it back.\<close>

lemma read8_write8:
  assumes "full_regs s"
  shows "ecat_reg_read8 (ecat_reg_write8 a v s) b = (if a = b then v else ecat_reg_read8 s b)"
proof -
  obtain r where r: "registers s = Some r" "length r = 65536" using assms by (auto simp: full_regs_def)
  have "unat a < 65536" "unat b < 65536" using unsigned_less_nat [of a] unsigned_less_nat [of b] by simp_all
  moreover have "unat a = unat b \<longleftrightarrow> a = b" by (rule word_unat_eq_iff [symmetric])
  ultimately show ?thesis using r by (simp add: ecat_reg_read8_def ecat_reg_write8_def nth_list_update)
qed

lemma full_regs_write8 [simp]: "full_regs s \<Longrightarrow> full_regs (ecat_reg_write8 a v s)"
  using full_regs_only write8_regs_only by blast

lemma read8_written:
  assumes "full_regs s" "n \<le> 65536" "j < n"
  shows "ecat_reg_read8 (fold (\<lambda>i. ecat_reg_write8 (a + of_nat i) (g i)) [0..<n] s) (a + of_nat j) = g j"
  using assms(2,3)
proof (induction n)
  case (Suc n)
  let ?s = "fold (\<lambda>i. ecat_reg_write8 (a + of_nat i) (g i)) [0..<n] s"
  have f: "full_regs ?s" using full_regs_only [OF fold_write_regs_only assms(1)] .
  show ?case
  proof (cases "j = n")
    case True
    then show ?thesis by (simp add: read8_write8 [OF f])
  next
    case False
    then have "a + of_nat n \<noteq> a + of_nat j" using word_offset_inj [of n j a] Suc.prems by auto
    then show ?thesis using Suc False by (simp add: read8_write8 [OF f])
  qed
qed simp

lemma register_write_read:
  assumes "full_regs s" "length d \<le> 65536"
  shows "process_register_read (process_register_write a d s) a (length d) = d"
  unfolding process_register_read_def process_register_write_def
  by (rule nth_equalityI) (simp_all add: read8_written [OF assms])

text \<open>Writing back what was read changes nothing.\<close>

lemma write8_same:
  assumes "full_regs s" "v = ecat_reg_read8 s a"
  shows "ecat_reg_write8 a v s = s"
proof -
  obtain r where r: "registers s = Some r" "length r = 65536" using assms(1) by (auto simp: full_regs_def)
  have "unat a < 65536" using unsigned_less_nat [of a] by simp
  then show ?thesis using r assms(2) by (simp add: ecat_reg_read8_def ecat_reg_write8_def)
qed

lemma register_rewrite:
  assumes "full_regs s"
  shows "process_register_write a (process_register_read s a n) s = s"
proof -
  have "fold (\<lambda>i. ecat_reg_write8 (a + of_nat i) (process_register_read s a n ! i)) [0..<m] s = s" if "m \<le> n" for m
    using that
  proof (induction m)
    case (Suc m)
    then have "process_register_read s a n ! m = ecat_reg_read8 s (a + of_nat m)"
      by (simp add: process_register_read_def)
    with Suc write8_same [OF assms] show ?case by simp
  qed simp
  then show ?thesis by (simp add: process_register_write_def process_register_read_def)
qed

lemma length_register_read [simp]: "length (process_register_read s a n) = n"
  by (simp add: process_register_read_def)

section \<open>Datagrams and frames\<close>

lemmas command_defs = process_aprd_def process_apwr_def process_fprd_def process_fpwr_def process_brd_def
  process_bwr_def process_lrd_def process_lwr_def process_lrw_def then_write_def

lemma run_command_frame:
  assumes "run_command cmd addr d s st = Some (k, d', s', st')"
  shows "regs_only s s' \<and> length d' = length d"
  using assms unfolding run_command_def command_defs
  by (auto split: if_splits)

lemma process_datagram_frame:
  assumes "process_datagram cmd addr lf mem len s st = Some (r, mem', s', st')"
  shows "regs_only s s' \<and> length mem' = length mem"
  using assms unfolding process_datagram_def Let_def
  by (auto split: if_splits option.splits prod.splits dest!: run_command_frame)

lemma process_datagram_ok:
  assumes "unat (lf AND 0x07FF) + 2 \<le> length mem"
  shows "process_datagram cmd addr lf mem len s st \<noteq> None"
  using assms by (auto simp: process_datagram_def Let_def split: option.split)

lemma ecat_datagrams_ok:
  assumes "off + remaining \<le> length frame" "count < ECAT_MAX_DATAGRAMS"
  shows "\<exists>n frame' s' st'. ecat_datagrams off remaining count frame s st = Some (n, frame', s', st') \<and>
    length frame' = length frame \<and> n \<le> ECAT_MAX_DATAGRAMS \<and> regs_only s s'"
  using assms
proof (induction remaining arbitrary: off count frame s st rule: less_induct)
  case (less remaining)
  define lf where "lf = get16 frame (off + 6)"
  define dl where "dl = unat (lf AND 0x07FF)"
  show ?case
  proof (cases "remaining < 10 \<or> remaining < 10 + dl + 2")
    case True
    then show ?thesis
      using less.prems by (subst ecat_datagrams.simps) (auto simp: Let_def lf_def dl_def)
  next
    case False
    let ?mem = "drop (off + 10) frame"
    have room: "unat (lf AND 0x07FF) + 2 \<le> length ?mem"
      using False less.prems(1) unfolding dl_def length_drop by linarith
    obtain r mem s1 st1 where p: "process_datagram (frame ! off) (get32 frame (off + 2)) lf ?mem (dl + 2) s st = Some (r, mem, s1, st1)"
      using process_datagram_ok [OF room, of "frame ! off" "get32 frame (off + 2)" "dl + 2" s st] by auto
    note fr = process_datagram_frame [OF p]
    let ?frame = "take (off + 10) frame @ mem"
    have len: "length ?frame = length frame" using fr False less.prems(1) by simp
    let ?st = "if r < 0 then frame_error st1 else st1"
    have unfold: "ecat_datagrams off remaining count frame s st =
      (if lf AND ECAT_FLAG_MORE = 0 \<or> ECAT_MAX_DATAGRAMS \<le> count + 1 then Some (count + 1, ?frame, s1, ?st)
       else ecat_datagrams (off + (10 + dl + 2)) (remaining - (10 + dl + 2)) (count + 1) ?frame s1 ?st)"
      using False p by (subst ecat_datagrams.simps) (simp add: Let_def lf_def dl_def)
    show ?thesis
    proof (cases "lf AND ECAT_FLAG_MORE = 0 \<or> ECAT_MAX_DATAGRAMS \<le> count + 1")
      case True
      then show ?thesis using unfold fr len less.prems(2) by auto
    next
      case more: False
      have "\<exists>n frame' s' st'. ecat_datagrams (off + (10 + dl + 2)) (remaining - (10 + dl + 2)) (count + 1) ?frame s1 ?st
          = Some (n, frame', s', st') \<and> length frame' = length ?frame \<and> n \<le> ECAT_MAX_DATAGRAMS \<and> regs_only s1 s'"
        using False more less.prems len by (intro less.IH) auto
      then obtain n frame' s' st' where rec: "ecat_datagrams (off + (10 + dl + 2)) (remaining - (10 + dl + 2)) (count + 1) ?frame s1 ?st
          = Some (n, frame', s', st')" "length frame' = length frame" "n \<le> ECAT_MAX_DATAGRAMS" "regs_only s1 s'"
        unfolding len by blast
      have "regs_only s s'" using fr rec(4) by (blast intro: regs_only_trans)
      moreover have "ecat_datagrams off remaining count frame s st = Some (n, frame', s', st')"
        unfolding unfold rec(1) using more by simp
      ultimately show ?thesis using rec(2,3) by blast
    qed
  qed
qed

lemma process_frame_ok:
  assumes "len \<le> length frame"
  shows "\<exists>r frame' s' st'. process_frame frame len s st = Some (r, frame', s', st') \<and>
    length frame' = length frame \<and> - 1 \<le> r \<and> r \<le> int ECAT_MAX_DATAGRAMS \<and> regs_only s s'"
proof (cases "len < 2 \<or> drop_bit 12 (get16 frame 0) AND 0x0F \<noteq> ECAT_TYPE_DATAGRAM \<or>
    len < unat (get16 frame 0 AND 0x07FF) + 2")
  case True
  then show ?thesis by (auto simp: process_frame_def Let_def)
next
  case False
  let ?fl = "unat (get16 frame 0 AND 0x07FF)"
  obtain n frame' s' st' where "ecat_datagrams 2 ?fl 0 frame s st = Some (n, frame', s', st')"
    "length frame' = length frame" "n \<le> ECAT_MAX_DATAGRAMS" "regs_only s s'"
    using ecat_datagrams_ok [of 2 ?fl frame 0 s st] False assms by auto
  with False show ?thesis by (auto simp: process_frame_def Let_def)
qed

text \<open>
  C33. Processing a frame is memory safe and ends: whatever the bytes, as long as the length given is
  that of the buffer at most, the call returns, keeps the frame's size, processes at most 15
  datagrams, and changes nothing of the slave but the contents of its register space.
\<close>

theorem ecat_frame_safe:
  assumes "slave e = Some s" "len \<le> length frame"
  shows "\<exists>r frame' s' st'. ecat_process_frame (Some frame) len e =
      Some (r, Some frame', e\<lparr>slave := Some s', ecat_stats := st'\<rparr>) \<and>
    length frame' = length frame \<and> - 1 \<le> r \<and> r \<le> int ECAT_MAX_DATAGRAMS \<and> regs_only s s'"
proof -
  obtain r frame' s' st' where "process_frame frame len s (ecat_stats e) = Some (r, frame', s', st')"
    and b: "length frame' = length frame" "- 1 \<le> r" "r \<le> int ECAT_MAX_DATAGRAMS" "regs_only s s'"
    using process_frame_ok [OF assms(2)] by blast
  then have "ecat_process_frame (Some frame) len e = Some (r, Some frame', e\<lparr>slave := Some s', ecat_stats := st'\<rparr>)"
    using assms(1) by (simp add: ecat_process_frame_def)
  with b show ?thesis by blast
qed

text \<open>A slave after \<open>ecat_slave_create\<close> and \<open>ecat_slave_init\<close>, with four bytes of outputs and two of inputs.\<close>

definition demo_config :: ecat_slave_config where
  "demo_config = \<lparr>station_address = 0x1001, station_alias = 0, vendor_id = 1, product_code = 2,
     revision = 1, serial = 7, port_count = 2, fmmu_count = 4, sm_count = 4, dc_supported = 0,
     input_size = 2, output_size = 4, input_data = Some [21, 22], output_data = Some [0, 0, 0, 0],
     mbox_out_addr = 0, mbox_out_size = 0, mbox_in_addr = 0, mbox_in_size = 0,
     mailbox_supported = False, coe_supported = False, foe_supported = False, eoe_supported = False,
     soe_supported = False\<rparr>"

definition demo_ecat :: ecat where
  "demo_ecat = snd (ecat_slave_init (ecat_slave_create (Some demo_config) True True
     \<lparr>slave = None, ecat_stats = zero_estats, ethercat_initialized = False\<rparr>))"

lemma demo_ecat_slave: "\<exists>s. slave demo_ecat = Some s"
  by (simp add: demo_ecat_def ecat_slave_init_def ecat_slave_create_def on_slave_def)

theorem ecat_frame_safe_witness:
  "\<exists>r frame' e'. ecat_process_frame (Some [1, 2, 3]) 3 demo_ecat = Some (r, Some frame', e') \<and> length frame' = 3"
proof -
  obtain s where s: "slave demo_ecat = Some s" using demo_ecat_slave by blast
  from ecat_frame_safe [OF s, of 3 "[1, 2, 3]"] show ?thesis by fastforce
qed

text \<open>The slave of the example.\<close>

definition demo_slave :: ecat_slave where
  "demo_slave = the (slave demo_ecat)"

lemma slave_demo_ecat: "slave demo_ecat = Some demo_slave"
  using demo_ecat_slave by (auto simp: demo_slave_def)

lemma write16_full: "full_regs s \<Longrightarrow> full_regs (ecat_reg_write16 a v s)"
  using unsigned_less_nat [of a]
  by (auto simp: full_regs_def ecat_reg_write16_def Let_def put_bytes_def le16_def)

lemma write_al_status_full: "full_regs s \<Longrightarrow> full_regs (write_al_status s)"
  unfolding write_al_status_def Let_def by (intro write16_full)

lemma slave_init_full: "full_regs s \<Longrightarrow> full_regs (slave_init s)"
proof -
  assume "full_regs s"
  then have "full_regs (s\<lparr>registers := map_option (\<lambda>r. replicate (length r) 0) (registers s)\<rparr>)"
    by (auto simp: full_regs_def)
  moreover have "full_regs (s\<lparr>al_state := x, requested_state := y, al_status_code := z\<rparr>) = full_regs s" for s x y z
    by (simp add: full_regs_def)
  moreover have "full_regs (s\<lparr>slave_active := b\<rparr>) = full_regs s" for s b
    by (simp add: full_regs_def)
  ultimately show ?thesis
    by (simp add: slave_init_def Let_def write_al_status_full write16_full)
qed

lemma demo_slave_full: "full_regs demo_slave"
proof -
  have "full_regs (slave_init s)" if "registers s = Some (replicate 65536 0)" for s
    by (rule slave_init_full) (simp add: full_regs_def that)
  then show ?thesis
    by (simp add: demo_slave_def demo_ecat_def ecat_slave_init_def ecat_slave_create_def on_slave_def)
qed

section \<open>Register access over the bus\<close>

lemma sub64_back: "n < 65536 \<Longrightarrow> sub64 (Suc (Suc n)) 2 = n"
  by (simp add: sub64_def)

text \<open>A datagram whose length field is that of its data, with its working counter.\<close>

lemma datagram_counts:
  assumes "run_command cmd addr d s st = Some (1, d', s', st')" "length d' = length d"
    and "unat (lf AND 0x07FF) = length d"
  shows "process_datagram cmd addr lf (d @ le16 w) (length d + 2) s st =
    Some (0, d' @ le16 (w + 1), s', st'\<lparr>datagrams_processed := datagrams_processed st' + 1\<rparr>)"
proof -
  have "unat (lf AND 0x07FF) < 65536" using unsigned_less_nat [of "lf AND 0x07FF"] by simp
  then have n: "length d < 65536" using assms(3) by simp
  have "get16 (d @ le16 w) (length d) = w" by (simp add: codec_simps)
  moreover have "put_bytes 0 d' (d @ le16 w) = d' @ le16 w"
    using assms(2) by (simp add: put_bytes_def)
  moreover have "put_bytes (length d) (le16 (w + 1)) (d' @ le16 w) = d' @ le16 (w + 1)"
    using assms(2) by (simp add: put_bytes_def)
  ultimately show ?thesis
    using assms n by (simp add: process_datagram_def Let_def sub64_back)
qed

lemma data_len_bound: "unat (lf AND 0x07FF :: u16) < 65536"
  using unsigned_less_nat [of "lf AND 0x07FF"] by simp

text \<open>
  C34. Registers written by a datagram are read back by one: after an auto-increment physical
  write of \<open>d\<close> a read of the same address returns \<open>d\<close>, and each counts one on the working
  counter. Addresses run over the 64 KB register space and wrap at its end.
\<close>

theorem ecat_register_write_read:
  assumes "full_regs s" "unat (lf AND 0x07FF) = length d" "length x = length d"
  shows "\<exists>s' st1 st2.
    process_datagram 0x02 addr lf (d @ le16 w) (length d + 2) s st = Some (0, d @ le16 (w + 1), s', st1) \<and>
    process_datagram 0x01 addr lf (x @ le16 v) (length d + 2) s' st1 = Some (0, d @ le16 (v + 1), s', st2)"
proof -
  let ?a = "reg_part addr" let ?s = "process_register_write ?a d s"
  have n: "length d \<le> 65536" using data_len_bound [of lf] assms(2) by simp
  have "run_command 0x02 addr d s st = Some (1, d, ?s, st\<lparr>apwr_count := apwr_count st + 1\<rparr>)"
    by (simp add: run_command_def process_apwr_def)
  from datagram_counts [OF this refl assms(2), of w] obtain st1 where
    w: "process_datagram 0x02 addr lf (d @ le16 w) (length d + 2) s st = Some (0, d @ le16 (w + 1), ?s, st1)" by blast
  have "run_command 0x01 addr x ?s st1 = Some (1, d, ?s, st1\<lparr>aprd_count := aprd_count st1 + 1\<rparr>)"
    using register_write_read [OF assms(1) n, of ?a] assms(3) by (simp add: run_command_def process_aprd_def)
  from datagram_counts [OF this, of lf v] assms(2,3) w show ?thesis by auto
qed

theorem ecat_register_write_read_witness:
  "\<exists>s s' st1 st2.
    process_datagram 0x02 0x1100 2 ([7, 9] @ le16 0) 4 s zero_estats = Some (0, [7, 9] @ le16 (0 + 1), s', st1) \<and>
    process_datagram 0x01 0x1100 2 ([0, 0] @ le16 3) 4 s' st1 = Some (0, [7, 9] @ le16 (3 + 1), s', st2)"
proof -
  have "length [7 :: u8, 9] + 2 = 4" "unat ((2 :: u16) AND 0x07FF) = length [7 :: u8, 9]" "length [0 :: u8, 0] = length [7 :: u8, 9]"
    by simp_all
  then show ?thesis
    using ecat_register_write_read [OF demo_slave_full, of 2 "[7, 9]" "[0, 0]" "0x1100" 0 zero_estats 3] by metis
qed

text \<open>
  The combined read-write commands never write: each reads the registers into the data
  first and then writes that data back, so the register space is unchanged and the data sent by
  the master is lost.
\<close>

theorem ecat_read_write_never_writes:
  assumes "full_regs s" "cmd \<in> {0x03, 0x06, 0x09}"
  shows "\<exists>k d' st'. run_command cmd addr d s st = Some (k, d', s, st') \<and>
    (0 < k \<longrightarrow> d' = process_register_read s (reg_part addr) (length d))"
  using assms(2) register_rewrite [OF assms(1), of "reg_part addr" "length d"]
  by (auto simp: run_command_def command_defs)

theorem ecat_read_write_never_writes_witness:
  "\<exists>s k d' st'. run_command 0x03 0x1100 [7, 9] s zero_estats = Some (k, d', s, st') \<and>
    (0 < k \<longrightarrow> d' = process_register_read s (reg_part 0x1100) (length [7 :: u8, 9]))"
  using ecat_read_write_never_writes [OF demo_slave_full, of 3 "0x1100" "[7, 9]" zero_estats] by blast

end
