(* ===== verification/EthercatStates.thy ===== *)
theory EthercatStates
  imports EthercatFlow
begin

text \<open>
  The application layer state machine of the EtherCAT slave: the transitions, the invariant of
  every operation, what the bus can and cannot change, and process data from the wire to the
  application.
\<close>

section \<open>Transitions\<close>

text \<open>The valid states, and the transitions the code allows.\<close>

definition al_states :: "u8 set" where
  "al_states = {ECAT_STATE_INIT, ECAT_STATE_PREOP, ECAT_STATE_BOOT, ECAT_STATE_SAFEOP, ECAT_STATE_OP}"

inductive al_step :: "u8 \<Rightarrow> u8 \<Rightarrow> bool" where
  to_init: "a \<in> al_states \<Longrightarrow> al_step a ECAT_STATE_INIT"
| from_init: "b \<in> al_states \<Longrightarrow> al_step ECAT_STATE_INIT b"
| preop_boot: "al_step ECAT_STATE_PREOP ECAT_STATE_BOOT"
| preop_safeop: "al_step ECAT_STATE_PREOP ECAT_STATE_SAFEOP"
| safeop_preop: "al_step ECAT_STATE_SAFEOP ECAT_STATE_PREOP"
| safeop_op: "al_step ECAT_STATE_SAFEOP ECAT_STATE_OP"
| op_safeop: "al_step ECAT_STATE_OP ECAT_STATE_SAFEOP"

lemma al_states_iff: "x \<in> al_states \<longleftrightarrow> x = 1 \<or> x = 2 \<or> x = 3 \<or> x = 4 \<or> x = (8 :: u8)"
  by (auto simp: al_states_def)

lemma al_states_nibble: "x \<in> al_states \<Longrightarrow> x AND 0x0F = x"
  by (auto simp: al_states_iff)

lemma valid_transition_iff:
  assumes "a \<in> al_states" "a \<noteq> b" "b AND 0x0F = b"
  shows "is_valid_state_transition a b \<longleftrightarrow> al_step a b"
  using assms al_states_nibble [OF assms(1)]
  unfolding is_valid_state_transition_def Let_def al_step.simps al_states_iff
  by auto

text \<open>What every slave of the program satisfies, and what writing the status keeps.\<close>

definition al_error :: "u8 \<Rightarrow> bool" where
  "al_error x \<longleftrightarrow> x AND ECAT_STATE_ERROR \<noteq> 0"

definition slave_ok :: "ecat_slave \<Rightarrow> bool" where
  "slave_ok s \<longleftrightarrow> full_regs s \<and> length (fmmu s) = ECAT_FMMU_MAX \<and> length (sm s) = ECAT_SM_MAX \<and>
     (\<exists>a \<in> al_states. al_state s = a \<and> al_status_code s = AL_STATUS_OK \<or>
        al_state s = a OR ECAT_STATE_ERROR \<and> al_status_code s \<noteq> AL_STATUS_OK) \<and>
     requested_state s AND 0x0F = requested_state s"

definition buffers_ok :: "ecat_slave \<Rightarrow> bool" where
  "buffers_ok s \<longleftrightarrow>
     (\<forall>d. output_data (config s) = Some d \<longrightarrow> unat (output_size (config s)) \<le> length d) \<and>
     (\<forall>d. input_data (config s) = Some d \<longrightarrow> unat (input_size (config s)) \<le> length d)"

lemma write16_regs_only: "a \<noteq> REG_AL_CONTROL \<Longrightarrow> regs_only s (ecat_reg_write16 a v s)"
proof (cases "registers s")
  case (Some r)
  assume "a \<noteq> REG_AL_CONTROL"
  then show ?thesis
    unfolding regs_only_def using Some
    by (cases "length r \<le> unat a + 1")
      (auto simp: ecat_reg_write16_def Let_def le16_def put_bytes_def
        intro: exI [of _ "registers s"] exI [of _ "Some (put_bytes (unat a) (le16 v) r)"])
qed (simp add: ecat_reg_write16_def)

lemma write_al_status_regs_only: "regs_only s (write_al_status s)"
  unfolding write_al_status_def Let_def
  by (rule regs_only_trans; rule write16_regs_only; simp)

lemma regs_only_code: "regs_only s s' \<Longrightarrow> al_status_code s' = al_status_code s"
  by (auto simp: regs_only_def)

lemma slave_ok_regs_only: "regs_only s s' \<Longrightarrow> slave_ok s \<Longrightarrow> slave_ok s'"
  unfolding slave_ok_def using full_regs_only [of s s'] regs_only_fields [of s s'] regs_only_code [of s s'] by auto

lemma buffers_ok_regs_only: "regs_only s s' \<Longrightarrow> buffers_ok s \<Longrightarrow> buffers_ok s'"
  unfolding buffers_ok_def using regs_only_fields [of s s'] by auto

text \<open>The status registers show the state.\<close>

lemma length_le16 [simp]: "length (le16 v) = 2"
  by (simp add: le16_def)

lemma get16_put: "n + 2 \<le> length r \<Longrightarrow> get16 (put_bytes n (le16 v) r) n = v"
  by (simp add: put_bytes_def codec_simps)

lemma nth_put_bytes:
  "n + length bs \<le> length r \<Longrightarrow> i < length r \<Longrightarrow>
   put_bytes n bs r ! i = (if n \<le> i \<and> i < n + length bs then bs ! (i - n) else r ! i)"
  by (auto simp: put_bytes_def nth_append min_def)

lemma get16_put_other:
  "n + length bs \<le> length r \<Longrightarrow> i + 2 \<le> n \<Longrightarrow> get16 (put_bytes n bs r) i = get16 r i"
  by (simp add: get16_def nth_put_bytes)

lemma status_shown:
  assumes "full_regs s"
  shows "ecat_reg_read16 (write_al_status s) REG_AL_STATUS = ucast (al_state s)"
    "ecat_reg_read16 (write_al_status s) REG_AL_STATUS_CODE = al_status_code s"
  using assms
  by (auto simp: full_regs_def write_al_status_def ecat_reg_read16_def ecat_reg_write16_def Let_def get16_put get16_put_other)

text \<open>The state after a transition, with the error flag when it failed.\<close>

lemma al_or_error [simp]: "a \<in> al_states \<Longrightarrow> (a OR ECAT_STATE_ERROR) AND 0x0F = a"
  by (auto simp: al_states_iff)

lemma slave_ok_nibble: "slave_ok s \<Longrightarrow> al_state s AND 0x0F \<in> al_states"
  unfolding slave_ok_def using al_states_nibble by auto

lemma slave_ok_state:
  assumes "slave_ok s"
  shows "a \<in> al_states \<Longrightarrow> slave_ok (s\<lparr>al_state := a, al_status_code := AL_STATUS_OK\<rparr>)"
    "a \<in> al_states \<Longrightarrow> c \<noteq> AL_STATUS_OK \<Longrightarrow>
     slave_ok (s\<lparr>al_status_code := c, al_state := a OR ECAT_STATE_ERROR\<rparr>)"
  using assms by (auto simp: slave_ok_def full_regs_def)

text \<open>Entering a state touches the sync managers, the mappings and the application's outputs.\<close>

lemma enter_state_cases:
  assumes "slave_ok s" "buffers_ok s" "requested \<in> al_states"
  shows "\<exists>r s1. enter_state requested s = Some (r, s1) \<and>
    (r = 0 \<and> slave_ok s1 \<and> buffers_ok s1 \<and> al_state s1 = al_state s \<and> registers s1 = registers s \<or>
     r = - 1 \<and> requested = ECAT_STATE_SAFEOP \<and> s1 = s\<lparr>al_status_code := AL_STATUS_INVALID_SYNC\<rparr> \<and>
     (input_size (config s) \<noteq> 0 \<and> sm_length (sm s ! SM_PROC_IN) = 0 \<or>
      output_size (config s) \<noteq> 0 \<and> sm_length (sm s ! SM_PROC_OUT) = 0))"
proof -
  have r: "requested = 1 \<or> requested = 2 \<or> requested = 3 \<or> requested = 4 \<or> requested = 8"
    using assms(3) by (simp add: al_states_iff)
  note defs = enter_state_def state_enter_init_def state_enter_preop_def state_enter_safeop_def state_enter_op_def
    deactivate_all_def upd_sm_def slave_ok_def full_regs_def buffers_ok_def Let_def word_gt_0
  from r show ?thesis
    using assms(1,2) by (elim disjE) (auto simp: defs put_bytes_def split: option.split)
qed

text \<open>A full description of a transition.\<close>

definition transition_result :: "ecat_slave \<Rightarrow> int \<Rightarrow> ecat_slave \<Rightarrow> bool" where
  "transition_result s r s' =
     (let cur = al_state s AND 0x0F; req = requested_state s
      in if cur = req then r = 0 \<and> s' = s
         else if r = 0 then al_step cur req \<and> al_state s' = req
         else r = - 1 \<and> al_state s' = cur OR ECAT_STATE_ERROR \<and>
           (\<not> al_step cur req \<or> req = ECAT_STATE_SAFEOP \<and>
             (input_size (config s) \<noteq> 0 \<and> sm_length (sm s ! SM_PROC_IN) = 0 \<or>
              output_size (config s) \<noteq> 0 \<and> sm_length (sm s ! SM_PROC_OUT) = 0)))"

lemma status_written:
  assumes "slave_ok t" "buffers_ok t"
  shows "slave_ok (write_al_status t) \<and> buffers_ok (write_al_status t) \<and> al_state (write_al_status t) = al_state t \<and>
    ecat_reg_read16 (write_al_status t) REG_AL_STATUS = ucast (al_state t) \<and>
    ecat_reg_read16 (write_al_status t) REG_AL_STATUS_CODE = al_status_code (write_al_status t)"
proof -
  have "full_regs t" using assms(1) by (simp add: slave_ok_def)
  moreover note ro = write_al_status_regs_only [of t]
  ultimately show ?thesis
    by (simp add: slave_ok_regs_only [OF ro assms(1)] buffers_ok_regs_only [OF ro assms(2)]
        regs_only_fields(2) [OF ro] regs_only_code [OF ro] status_shown)
qed

lemma buffers_ok_state [simp]:
  "buffers_ok (t\<lparr>al_status_code := c, al_state := a\<rparr>) = buffers_ok t"
  "buffers_ok (t\<lparr>al_state := a, al_status_code := c\<rparr>) = buffers_ok t"
  by (simp_all add: buffers_ok_def)

lemma transition_ok:
  assumes "slave_ok s" "buffers_ok s"
  shows "\<exists>r s' st'. transition s st = Some (r, s', st') \<and> slave_ok s' \<and> buffers_ok s' \<and>
    transition_result s r s' \<and>
    (al_state s AND 0x0F \<noteq> requested_state s \<longrightarrow>
      ecat_reg_read16 s' REG_AL_STATUS = ucast (al_state s') \<and>
      ecat_reg_read16 s' REG_AL_STATUS_CODE = al_status_code s')"
proof -
  let ?cur = "al_state s AND 0x0F" let ?req = "requested_state s"
  have cur: "?cur \<in> al_states" and req: "?req AND 0x0F = ?req"
    using slave_ok_nibble [OF assms(1)] assms(1) by (simp_all add: slave_ok_def)
  consider "?cur = ?req" | "?cur \<noteq> ?req" "\<not> al_step ?cur ?req" | "?cur \<noteq> ?req" "al_step ?cur ?req" by blast
  then show ?thesis
  proof cases
    case 1
    then show ?thesis using assms req by (simp add: transition_def transition_result_def)
  next
    case 2
    let ?t = "s\<lparr>al_status_code := AL_STATUS_INVALID_SETUP, al_state := ?cur OR ECAT_STATE_ERROR\<rparr>"
    have ok: "slave_ok ?t" "buffers_ok ?t" using slave_ok_state(2) [OF assms(1) cur] assms(2) by simp_all
    have "transition s st = Some (- 1, write_al_status ?t, st)"
      using 2 req valid_transition_iff [OF cur 2(1) req] by (simp add: transition_def Let_def)
    then show ?thesis using status_written [OF ok] 2 by (simp add: transition_result_def Let_def)
  next
    case 3
    then have reqs: "?req \<in> al_states" by (auto simp: al_step.simps al_states_def)
    obtain r s1 where e: "enter_state ?req s = Some (r, s1)"
      and d: "r = 0 \<and> slave_ok s1 \<and> buffers_ok s1 \<and> al_state s1 = al_state s \<or>
       r = - 1 \<and> ?req = ECAT_STATE_SAFEOP \<and> s1 = s\<lparr>al_status_code := AL_STATUS_INVALID_SYNC\<rparr> \<and>
       (input_size (config s) \<noteq> 0 \<and> sm_length (sm s ! SM_PROC_IN) = 0 \<or>
        output_size (config s) \<noteq> 0 \<and> sm_length (sm s ! SM_PROC_OUT) = 0)"
      using enter_state_cases [OF assms reqs] by blast
    define t where "t = (if r = 0 then s1\<lparr>al_state := ?req, al_status_code := AL_STATUS_OK\<rparr> else s1\<lparr>al_state := ?cur OR ECAT_STATE_ERROR\<rparr>)"
    have ok: "slave_ok t" "buffers_ok t"
      unfolding t_def using d slave_ok_state(1) [of s1, OF _ reqs] slave_ok_state(2) [OF assms(1) cur, of AL_STATUS_INVALID_SYNC]
        assms(2) by auto
    obtain st' where tr: "transition s st = Some (r, write_al_status t, st')"
      unfolding t_def using 3 req valid_transition_iff [OF cur 3(1) req] e d by (auto simp: transition_def Let_def)
    have "transition_result s r (write_al_status t)"
      using status_written [OF ok] 3 d by (auto simp: transition_result_def Let_def t_def)
    with tr status_written [OF ok] show ?thesis by auto
  qed
qed

lemma reg_write_fields:
  "al_state (ecat_reg_write8 a b s) = al_state s" "al_state (ecat_reg_write16 a v s) = al_state s"
  "fmmu (ecat_reg_write8 a b s) = fmmu s" "fmmu (ecat_reg_write16 a v s) = fmmu s"
  "sm (ecat_reg_write8 a b s) = sm s" "sm (ecat_reg_write16 a v s) = sm s"
  "config (ecat_reg_write8 a b s) = config s" "config (ecat_reg_write16 a v s) = config s"
  "al_status_code (ecat_reg_write8 a b s) = al_status_code s"
  "al_status_code (ecat_reg_write16 a v s) = al_status_code s"
  by (simp_all add: ecat_reg_write8_def ecat_reg_write16_def Let_def split: option.split)

lemma slave_init_ok:
  assumes "full_regs s" "length (fmmu s) = ECAT_FMMU_MAX" "length (sm s) = ECAT_SM_MAX"
  shows "slave_ok (slave_init s) \<and> config (slave_init s) = config s \<and> al_state (slave_init s) = ECAT_STATE_INIT \<and>
    requested_state (slave_init s) = ECAT_STATE_INIT \<and> sm (slave_init s) = sm s"
proof -
  have "full_regs (slave_init s)" by (rule slave_init_full [OF assms(1)])
  moreover have "requested_state (ecat_reg_write16 a v t) = requested_state t" if "a \<noteq> REG_AL_CONTROL" for a v t
    using regs_only_fields(3) [OF write16_regs_only [OF that]] .
  ultimately show ?thesis
    using assms(2,3)
    by (simp add: slave_ok_def slave_init_def Let_def write_al_status_def reg_write_fields al_states_def)
qed

lemma demo_slave_ok: "slave_ok demo_slave \<and> buffers_ok demo_slave \<and> requested_state demo_slave = ECAT_STATE_INIT \<and>
   al_state demo_slave = ECAT_STATE_INIT"
proof -
  define s0 where "s0 = the (slave (ecat_slave_create (Some demo_config) True True
     \<lparr>slave = None, ecat_stats = zero_estats, ethercat_initialized = False\<rparr>))"
  have s0: "full_regs s0" "length (fmmu s0) = ECAT_FMMU_MAX" "length (sm s0) = ECAT_SM_MAX" "config s0 = demo_config"
    by (simp_all add: s0_def ecat_slave_create_def full_regs_def)
  have d: "demo_slave = slave_init s0"
    by (simp add: s0_def demo_slave_def demo_ecat_def ecat_slave_init_def on_slave_def ecat_slave_create_def)
  show ?thesis
    using slave_init_ok [OF s0(1-3)] s0(4) by (simp add: d buffers_ok_def demo_config_def)
qed

lemma slave_ok_request:
  "slave_ok s \<Longrightarrow> r AND 0x0F = r \<Longrightarrow> slave_ok (s\<lparr>requested_state := r\<rparr>)"
  "buffers_ok (s\<lparr>requested_state := r\<rparr>) = buffers_ok s"
  by (simp_all add: slave_ok_def full_regs_def buffers_ok_def)

text \<open>
  C15. The state machine: from a well-formed slave every transition returns. Success moves along
  an edge of the application layer state machine; a failure keeps the state and sets the error
  flag with a code, and happens only when the request is no edge or process data is declared
  without a sync manager for it. The AL status register shows the new state.
\<close>

theorem ecat_transition_refines:
  assumes "slave_ok s" "buffers_ok s"
  shows "\<exists>r s' st'. transition s st = Some (r, s', st') \<and> slave_ok s' \<and> buffers_ok s' \<and>
    transition_result s r s' \<and>
    (al_state s AND 0x0F \<noteq> requested_state s \<longrightarrow>
      ecat_reg_read16 s' REG_AL_STATUS = ucast (al_state s') \<and>
      ecat_reg_read16 s' REG_AL_STATUS_CODE = al_status_code s')"
  by (rule transition_ok [OF assms])

theorem ecat_transition_refines_witness:
  "\<exists>s r s' st'. requested_state s = ECAT_STATE_PREOP \<and> al_state s = ECAT_STATE_INIT \<and>
    transition s zero_estats = Some (r, s', st') \<and> transition_result s r s'"
proof -
  let ?s = "demo_slave\<lparr>requested_state := ECAT_STATE_PREOP\<rparr>"
  have "slave_ok ?s" "buffers_ok ?s" using demo_slave_ok by (simp_all add: slave_ok_request)
  then obtain r s' st' where "transition ?s zero_estats = Some (r, s', st')" "transition_result ?s r s'"
    using ecat_transition_refines [of ?s zero_estats] by blast
  then show ?thesis using demo_slave_ok by (intro exI [of _ ?s] exI [of _ r] exI [of _ s'] exI [of _ st']) simp
qed

section \<open>Every operation keeps the slave well-formed\<close>

text \<open>The operations of the application and the frames of the bus, as steps.\<close>

inductive ecat_step :: "ecat \<Rightarrow> ecat \<Rightarrow> bool" where
  frame: "len \<le> length f \<Longrightarrow> ecat_process_frame (Some f) len e = Some (r, f', e') \<Longrightarrow> ecat_step e e'"
| init: "ecat_step e (snd (ecat_slave_init e))"
| reset: "ecat_step e (snd (ecat_slave_reset e))"
| set_state: "ecat_step e (snd (ecat_slave_set_state v e))"
| transition: "ecat_slave_transition e = Some (r, e') \<Longrightarrow> ecat_step e e'"
| fmmu_config: "ecat_step e (snd (ecat_fmmu_config i fm e))"
| fmmu_activate: "ecat_step e (snd (ecat_fmmu_activate i e))"
| fmmu_deactivate: "ecat_step e (snd (ecat_fmmu_deactivate i e))"
| sm_config: "ecat_step e (snd (ecat_sm_config i m e))"
| sm_activate: "ecat_step e (snd (ecat_sm_activate i e))"
| sm_deactivate: "ecat_step e (snd (ecat_sm_deactivate i e))"
| pdo_exchange: "ecat_pdo_exchange e = Some (r, e') \<Longrightarrow> ecat_step e e'"
| pdo_write: "ecat_pdo_write data len e = Some (r, e') \<Longrightarrow> ecat_step e e'"
| dc_init: "ecat_step e (snd (ecat_dc_init e))"
| dc_sync: "ecat_step e (snd (ecat_dc_sync t e))"
| dc_mode: "ecat_step e (snd (ecat_dc_set_sync_mode b e))"
| watchdog_init: "ecat_step e (snd (ecat_watchdog_init dv p1 p2 e))"
| watchdog: "ecat_step e (snd (ecat_watchdog_trigger e))"
| stats: "ecat_step e (ecat_reset_stats e)"
| bind: "ecat_step e (snd (ecat_bind_netif n e))"
| unbind: "ecat_step e (snd (ecat_unbind_netif e))"

inductive ecat_reach :: "ecat_slave_config \<Rightarrow> ecat \<Rightarrow> bool" for cfg where
  created: "ecat_reach cfg (ecat_slave_create (Some cfg) True True e)"
| step: "ecat_reach cfg e \<Longrightarrow> ecat_step e e' \<Longrightarrow> ecat_reach cfg e'"

inductive_cases ecat_stepE: "ecat_step e e'"

definition ecat_ok :: "ecat \<Rightarrow> bool" where
  "ecat_ok e \<longleftrightarrow> (\<exists>s. slave e = Some s \<and> slave_ok s \<and> buffers_ok s)"

lemma on_slave_ok:
  assumes "ecat_ok e" "\<And>s. slave_ok s \<Longrightarrow> buffers_ok s \<Longrightarrow> slave_ok (snd (f s)) \<and> buffers_ok (snd (f s))"
  shows "ecat_ok (snd (on_slave f e))"
  using assms by (force simp: ecat_ok_def on_slave_def split: prod.split)

lemma exchange_ok:
  assumes "slave_ok s" "buffers_ok s"
  shows "\<exists>r s'. exchange_outputs s = Some (r, s') \<and> slave_ok s' \<and> buffers_ok s'"
    "\<exists>r s'. exchange_inputs s = Some (r, s') \<and> slave_ok s' \<and> buffers_ok s'"
  using assms
  by (auto simp: exchange_outputs_def exchange_inputs_def Let_def slave_ok_def buffers_ok_def full_regs_def
      register_size_def put_bytes_def split: option.split)

lemma pdo_exchange_ok:
  assumes "slave_ok s" "buffers_ok s"
  shows "\<exists>r s' st'. pdo_exchange s st = Some (r, s', st') \<and> slave_ok s' \<and> buffers_ok s'"
proof -
  obtain r1 s1 where 1: "exchange_outputs s = Some (r1, s1)" "slave_ok s1" "buffers_ok s1"
    using exchange_ok(1) [OF assms] by blast
  obtain r2 s2 where 2: "exchange_inputs s1 = Some (r2, s2)" "slave_ok s2" "buffers_ok s2"
    using exchange_ok(2) [OF 1(2,3)] by blast
  show ?thesis using 1 2 assms by (simp add: pdo_exchange_def Let_def)
qed

lemma set_state_ok:
  assumes "slave_ok s" "buffers_ok s"
  shows "slave_ok (ecat_reg_write16 REG_AL_CONTROL v (s\<lparr>requested_state := r\<rparr>)) \<and>
    buffers_ok (ecat_reg_write16 REG_AL_CONTROL v (s\<lparr>requested_state := r\<rparr>))"
proof -
  have "(ucast (v AND 0x0F) :: u8) AND 0x0F = ucast (v AND 0x0F)"
    by (rule bit_word_eqI) (auto simp: bit_simps)
  then show ?thesis
    using assms by (auto simp: slave_ok_def buffers_ok_def full_regs_def ecat_reg_write16_def Let_def put_bytes_def)
qed

lemmas on_slave_ops = ecat_fmmu_config_def ecat_fmmu_activate_def ecat_fmmu_deactivate_def
  ecat_sm_config_def ecat_sm_activate_def ecat_sm_deactivate_def ecat_dc_init_def ecat_dc_sync_def
  ecat_dc_set_sync_mode_def ecat_watchdog_init_def ecat_watchdog_trigger_def ecat_bind_netif_def
  ecat_unbind_netif_def

lemmas slave_fields = slave_ok_def buffers_ok_def full_regs_def upd_fmmu_def upd_sm_def

lemma slave_init_keeps:
  assumes "slave_ok s" "buffers_ok s"
  shows "slave_ok (slave_init s) \<and> buffers_ok (slave_init s)"
proof -
  have "full_regs s" "length (fmmu s) = ECAT_FMMU_MAX" "length (sm s) = ECAT_SM_MAX"
    using assms(1) by (simp_all add: slave_ok_def)
  from slave_init_ok [OF this] have "slave_ok (slave_init s)" "config (slave_init s) = config s" by simp_all
  then show ?thesis using assms(2) by (simp add: buffers_ok_def)
qed

lemma slave_reset_keeps:
  assumes "slave_ok s" "buffers_ok s"
  shows "slave_ok (s\<lparr>al_state := ECAT_STATE_INIT, requested_state := ECAT_STATE_INIT, al_status_code := AL_STATUS_OK\<rparr>) \<and>
    buffers_ok (s\<lparr>al_state := ECAT_STATE_INIT, requested_state := ECAT_STATE_INIT, al_status_code := AL_STATUS_OK\<rparr>)"
  using assms by (simp add: slave_ok_def full_regs_def buffers_ok_def al_states_def)

lemma deactivate_keeps:
  "slave_ok t \<Longrightarrow> slave_ok (deactivate_all t)" "buffers_ok t \<Longrightarrow> buffers_ok (deactivate_all t)"
  by (simp_all add: deactivate_all_def slave_ok_def full_regs_def buffers_ok_def)

lemma ecat_step_ok:
  assumes "ecat_step e e'" "ecat_ok e"
  shows "ecat_ok e'"
  using assms
proof (induction rule: ecat_step.induct)
  case (frame len f e r f' e')
  then obtain s where s: "slave e = Some s" "slave_ok s" "buffers_ok s" by (auto simp: ecat_ok_def)
  obtain r1 f1 s1 st1 where "process_frame f len s (ecat_stats e) = Some (r1, f1, s1, st1)" "regs_only s s1"
    using process_frame_ok [OF frame(1)] by blast
  moreover from this have "e' = e\<lparr>slave := Some s1, ecat_stats := st1\<rparr>"
    using frame(2) s(1) by (simp add: ecat_process_frame_def)
  ultimately show ?case using s slave_ok_regs_only buffers_ok_regs_only by (auto simp: ecat_ok_def)
next
  case (init e)
  then show ?case unfolding ecat_slave_init_def
    by (rule on_slave_ok) (simp add: slave_init_keeps)
next
  case (reset e)
  then show ?case unfolding ecat_slave_reset_def
    by (rule on_slave_ok) (simp add: deactivate_keeps status_written slave_reset_keeps)
next
  case (set_state v e)
  then show ?case unfolding ecat_slave_set_state_def by (rule on_slave_ok) (simp add: set_state_ok)
next
  case (transition e r e')
  then obtain s where s: "slave e = Some s" "slave_ok s" "buffers_ok s" by (auto simp: ecat_ok_def)
  obtain r1 s1 st1 where "transition s (ecat_stats e) = Some (r1, s1, st1)" "slave_ok s1" "buffers_ok s1"
    using transition_ok [OF s(2,3)] by blast
  then show ?case using transition(1) s(1) by (auto simp: ecat_slave_transition_def ecat_ok_def)
next
  case (pdo_exchange e r e')
  then obtain s where s: "slave e = Some s" "slave_ok s" "buffers_ok s" by (auto simp: ecat_ok_def)
  obtain r1 s1 st1 where "pdo_exchange s (ecat_stats e) = Some (r1, s1, st1)" "slave_ok s1" "buffers_ok s1"
    using pdo_exchange_ok [OF s(2,3)] by blast
  then show ?case using pdo_exchange(1) s(1) by (auto simp: ecat_pdo_exchange_def ecat_ok_def)
next
  case (pdo_write data len e r e')
  then show ?case
    by (auto simp: ecat_pdo_write_def ecat_ok_def slave_fields Let_def put_bytes_def split: option.splits if_splits)
next
  case (stats e)
  then show ?case by (simp add: ecat_reset_stats_def ecat_ok_def)
qed (unfold on_slave_ops, (erule on_slave_ok, simp add: slave_fields)+)

lemma ecat_reach_ok:
  assumes "ecat_reach cfg e"
    and "\<And>d. output_data cfg = Some d \<Longrightarrow> unat (output_size cfg) \<le> length d"
    and "\<And>d. input_data cfg = Some d \<Longrightarrow> unat (input_size cfg) \<le> length d"
  shows "ecat_ok e"
  using assms(1)
proof induction
  case (created e)
  show ?case using assms(2,3)
    by (simp add: ecat_slave_create_def ecat_ok_def slave_ok_def buffers_ok_def full_regs_def al_states_def Let_def)
next
  case (step e e')
  then show ?case using ecat_step_ok by blast
qed

text \<open>
  C10. Every reachable slave is well-formed and no operation on it can fail to return: whatever
  frames arrive and whatever the application calls, in any order, the AL state is one of the five
  states with the error flag set exactly when the AL status code is not OK, the register space
  keeps its 64 KB, and frames, transitions and process data exchanges stay inside their buffers.
\<close>

theorem ecat_reachable_safe:
  assumes "ecat_reach cfg e"
    and "\<And>d. output_data cfg = Some d \<Longrightarrow> unat (output_size cfg) \<le> length d"
    and "\<And>d. input_data cfg = Some d \<Longrightarrow> unat (input_size cfg) \<le> length d"
  shows "\<exists>s. slave e = Some s \<and> register_size s = 65536 \<and> al_state s AND 0x0F \<in> al_states \<and>
    (al_error (al_state s) \<longleftrightarrow> al_status_code s \<noteq> AL_STATUS_OK) \<and>
    ecat_slave_transition e \<noteq> None \<and> ecat_pdo_exchange e \<noteq> None \<and>
    (\<forall>f. ecat_process_frame (Some f) (length f) e \<noteq> None)"
proof -
  obtain s where s: "slave e = Some s" "slave_ok s" "buffers_ok s"
    using ecat_reach_ok [OF assms] by (auto simp: ecat_ok_def)
  have "register_size s = 65536" using s(2) by (auto simp: slave_ok_def full_regs_def register_size_def)
  moreover have "al_error (al_state s) \<longleftrightarrow> al_status_code s \<noteq> AL_STATUS_OK"
    using s(2) by (auto simp: slave_ok_def al_error_def al_states_iff)
  moreover have "ecat_slave_transition e \<noteq> None"
    using transition_ok [OF s(2,3), of "ecat_stats e"] s(1) by (auto simp: ecat_slave_transition_def)
  moreover have "ecat_pdo_exchange e \<noteq> None"
    using pdo_exchange_ok [OF s(2,3), of "ecat_stats e"] s(1) by (auto simp: ecat_pdo_exchange_def)
  moreover have "ecat_process_frame (Some f) (length f) e \<noteq> None" for f
    using process_frame_ok [of "length f" f s "ecat_stats e"] s(1) by (auto simp: ecat_process_frame_def)
  ultimately show ?thesis using s(1) slave_ok_nibble [OF s(2)] by blast
qed

lemma demo_reach: "ecat_reach demo_config demo_ecat"
  unfolding demo_ecat_def by (rule ecat_reach.step [OF ecat_reach.created ecat_step.init])

theorem ecat_reachable_safe_witness:
  "\<exists>e s. ecat_reach demo_config e \<and> slave e = Some s \<and> al_state s AND 0x0F \<in> al_states \<and>
    ecat_pdo_exchange e \<noteq> None"
  using ecat_reachable_safe [OF demo_reach] demo_reach by (fastforce simp: demo_config_def)

section \<open>What the bus cannot do\<close>

text \<open>
  A run of the bus: each frame is processed, and then the requested state change, as the comment
  in \<open>ecat_reg_write16\<close> has it.
\<close>

fun bus_run :: "u8 list list \<Rightarrow> ecat \<Rightarrow> ecat option" where
  "bus_run [] e = Some e"
| "bus_run (f # fs) e = do {
     (r, f', e1) \<leftarrow> ecat_process_frame (Some f) (length f) e;
     (r', e2) \<leftarrow> ecat_slave_transition e1;
     bus_run fs e2
   }"

lemma bus_run_keeps:
  assumes "slave e = Some s" "al_state s AND 0x0F = requested_state s AND 0x0F"
  shows "\<exists>e' s'. bus_run fs e = Some e' \<and> slave e' = Some s' \<and> regs_only s s'"
  using assms
proof (induction fs arbitrary: e s)
  case (Cons f fs)
  obtain r f' s1 st1 where p: "process_frame f (length f) s (ecat_stats e) = Some (r, f', s1, st1)" "regs_only s s1"
    using process_frame_ok [of "length f" f] by blast
  let ?e = "e\<lparr>slave := Some s1, ecat_stats := st1\<rparr>"
  have "al_state s1 AND 0x0F = requested_state s1 AND 0x0F"
    using regs_only_fields(2,3) [OF p(2)] Cons.prems(2) by simp
  then have "bus_run (f # fs) e = bus_run fs ?e"
    using p(1) Cons.prems(1) by (simp add: ecat_process_frame_def ecat_slave_transition_def transition_def Let_def)
  moreover obtain e' s' where "bus_run fs ?e = Some e' \<and> slave e' = Some s' \<and> regs_only s1 s'"
    using Cons.IH [of ?e s1] \<open>al_state s1 AND 0x0F = _\<close> by auto
  ultimately show ?case using regs_only_trans [OF p(2)] by auto
qed simp

text \<open>
  The master cannot change the slave's state over the bus: datagrams write registers byte by
  byte, and only \<open>ecat_reg_write16\<close> turns a write of the AL control register into a request. A
  slave that is initialised stays in INIT whatever frames arrive, so the process data exchange
  that the master wants to start is refused for ever.
\<close>

theorem ecat_bus_cannot_change_state:
  assumes "slave e = Some s" "full_regs s" "length (fmmu s) = ECAT_FMMU_MAX" "length (sm s) = ECAT_SM_MAX"
  shows "\<exists>e'. bus_run fs (snd (ecat_slave_init e)) = Some e' \<and> ecat_slave_get_state e' = ECAT_STATE_INIT \<and>
    ecat_pdo_exchange e' = Some (- 1, e')"
proof -
  let ?s = "slave_init s" let ?e = "e\<lparr>slave := Some ?s\<rparr>"
  have i: "al_state ?s = ECAT_STATE_INIT" "requested_state ?s = ECAT_STATE_INIT"
    using slave_init_ok [OF assms(2-4)] by simp_all
  obtain e' s' where r: "bus_run fs ?e = Some e'" "slave e' = Some s'" "regs_only ?s s'"
    using bus_run_keeps [of ?e ?s fs] i by auto
  then have "al_state s' = ECAT_STATE_INIT" using i regs_only_fields(2) by simp
  then show ?thesis
    using r assms(1)
    by (simp add: ecat_slave_init_def on_slave_def ecat_slave_get_state_def ecat_pdo_exchange_def pdo_exchange_def)
qed

theorem ecat_bus_cannot_change_state_witness:
  "\<exists>e e'. bus_run [[16, 16, 0x05, 0, 0x20, 0x01, 0x01, 0x10, 2, 0, 0, 0, 2, 0, 0, 0]] (snd (ecat_slave_init e)) = Some e' \<and>
    ecat_slave_get_state e' = ECAT_STATE_INIT"
proof -
  have "length (fmmu demo_slave) = ECAT_FMMU_MAX" "length (sm demo_slave) = ECAT_SM_MAX"
    using demo_slave_ok by (simp_all add: slave_ok_def)
  from ecat_bus_cannot_change_state [OF slave_demo_ecat demo_slave_full this] show ?thesis by blast
qed

section \<open>Operational without outputs\<close>

text \<open>
  The state machine lets a slave go from INIT straight to OP, and then nothing activates the
  process data sync managers: the exchange succeeds and moves no data, so the application sees
  the old outputs and the master the old inputs.
\<close>

theorem ecat_op_moves_no_data:
  assumes "al_state s = ECAT_STATE_INIT" "requested_state s = ECAT_STATE_OP"
    and "sm_activate (sm s ! SM_PROC_OUT) = 0" "sm_activate (sm s ! SM_PROC_IN) = 0"
  shows "\<exists>s' st1 st2. transition s st = Some (0, s', st1) \<and> al_state s' = ECAT_STATE_OP \<and>
    config s' = config s \<and> pdo_exchange s' st1 = Some (0, s', st2)"
proof -
  let ?t = "s\<lparr>al_state := ECAT_STATE_OP, al_status_code := AL_STATUS_OK\<rparr>"
  note ro = write_al_status_regs_only [of ?t]
  have "\<exists>st1. transition s st = Some (0, write_al_status ?t, st1)"
    using assms by (simp add: transition_def Let_def is_valid_state_transition_def enter_state_def state_enter_op_def)
  moreover have "\<exists>st2. pdo_exchange (write_al_status ?t) st1 = Some (0, write_al_status ?t, st2)" for st1
    using regs_only_fields [OF ro] assms(3,4)
    by (auto simp: pdo_exchange_def exchange_outputs_def exchange_inputs_def Let_def split: option.split)
  ultimately show ?thesis using regs_only_fields(1,2) [OF ro] by fastforce
qed

lemma demo_slave_sm: "sm demo_slave = replicate ECAT_SM_MAX zero_sm \<and> config demo_slave = demo_config"
proof -
  define s0 where "s0 = the (slave (ecat_slave_create (Some demo_config) True True
     \<lparr>slave = None, ecat_stats = zero_estats, ethercat_initialized = False\<rparr>))"
  have s0: "full_regs s0" "length (fmmu s0) = ECAT_FMMU_MAX" "length (sm s0) = ECAT_SM_MAX"
    "sm s0 = replicate ECAT_SM_MAX zero_sm" "config s0 = demo_config"
    by (simp_all add: s0_def ecat_slave_create_def full_regs_def)
  have "demo_slave = slave_init s0"
    by (simp add: s0_def demo_slave_def demo_ecat_def ecat_slave_init_def on_slave_def ecat_slave_create_def)
  then show ?thesis using slave_init_ok [OF s0(1-3)] s0(4,5) by simp
qed

theorem ecat_op_moves_no_data_witness:
  "\<exists>s s' st1 st2. transition s zero_estats = Some (0, s', st1) \<and> al_state s' = ECAT_STATE_OP \<and>
    output_size (config s') = 4 \<and> pdo_exchange s' st1 = Some (0, s', st2)"
proof -
  let ?s = "demo_slave\<lparr>requested_state := ECAT_STATE_OP\<rparr>"
  have "al_state ?s = ECAT_STATE_INIT" "requested_state ?s = ECAT_STATE_OP"
    "sm_activate (sm ?s ! SM_PROC_OUT) = 0" "sm_activate (sm ?s ! SM_PROC_IN) = 0"
    using demo_slave_ok demo_slave_sm by (simp_all add: zero_sm_def)
  from ecat_op_moves_no_data [OF this, of zero_estats]
  obtain s' st1 st2 where t: "transition ?s zero_estats = Some (0, s', st1)" "al_state s' = ECAT_STATE_OP"
    "config s' = config ?s" "pdo_exchange s' st1 = Some (0, s', st2)" by blast
  moreover have "output_size (config s') = 4" using t(3) demo_slave_sm by (simp add: demo_config_def)
  ultimately show ?thesis by blast
qed

section \<open>Process data\<close>

text \<open>An active process data slave: SAFEOP or OP, with both sync managers set up apart from each other.\<close>

definition pdo_ready :: "ecat_slave \<Rightarrow> u16 \<Rightarrow> nat \<Rightarrow> u16 \<Rightarrow> nat \<Rightarrow> bool" where
  "pdo_ready s po outs pi ins \<longleftrightarrow>
     full_regs s \<and> buffers_ok s \<and> al_state s AND 0x0F \<in> {ECAT_STATE_SAFEOP, ECAT_STATE_OP} \<and>
     outs = unat (output_size (config s)) \<and> ins = unat (input_size (config s)) \<and> 0 < outs \<and> 0 < ins \<and>
     sm_activate (sm s ! SM_PROC_OUT) \<noteq> 0 \<and> sm_activate (sm s ! SM_PROC_IN) \<noteq> 0 \<and>
     outs \<le> unat (sm_length (sm s ! SM_PROC_OUT)) \<and> ins \<le> unat (sm_length (sm s ! SM_PROC_IN)) \<and>
     po = sm_physical_start (sm s ! SM_PROC_OUT) \<and> pi = sm_physical_start (sm s ! SM_PROC_IN) \<and>
     unat po + outs \<le> 65536 \<and> unat pi + ins \<le> 65536"

lemma unat_offset: "unat (a :: u16) + n \<le> 65536 \<Longrightarrow> i < n \<Longrightarrow> unat (a + of_nat i) = unat a + i"
  by (subst unat_word_ariths) (simp add: unat_of_nat)

lemma register_read_take:
  assumes "registers s = Some r" "length r = 65536" "unat a + n \<le> 65536"
  shows "process_register_read s a n = take n (drop (unat a) r)"
  using assms unat_offset [OF assms(3)]
  by (intro nth_equalityI) (simp_all add: process_register_read_def ecat_reg_read8_def)

lemma exchange_moves:
  assumes "registers s = Some r" "length r = 65536"
  shows "output_data (config s) = Some out \<Longrightarrow> 0 < unat (output_size (config s)) \<Longrightarrow>
      sm_activate (sm s ! SM_PROC_OUT) \<noteq> 0 \<Longrightarrow> unat (output_size (config s)) \<le> unat (sm_length (sm s ! SM_PROC_OUT)) \<Longrightarrow>
      unat (sm_physical_start (sm s ! SM_PROC_OUT)) + unat (output_size (config s)) \<le> 65536 \<Longrightarrow>
      unat (output_size (config s)) \<le> length out \<Longrightarrow>
      exchange_outputs s = Some (0, s\<lparr>config := (config s)\<lparr>output_data := Some (put_bytes 0
        (take (unat (output_size (config s))) (drop (unat (sm_physical_start (sm s ! SM_PROC_OUT))) r)) out)\<rparr>\<rparr>)"
    "input_data (config s) = Some inp \<Longrightarrow> 0 < unat (input_size (config s)) \<Longrightarrow>
      sm_activate (sm s ! SM_PROC_IN) \<noteq> 0 \<Longrightarrow> unat (input_size (config s)) \<le> unat (sm_length (sm s ! SM_PROC_IN)) \<Longrightarrow>
      unat (sm_physical_start (sm s ! SM_PROC_IN)) + unat (input_size (config s)) \<le> 65536 \<Longrightarrow>
      unat (input_size (config s)) \<le> length inp \<Longrightarrow>
      exchange_inputs s = Some (0, s\<lparr>registers := Some (put_bytes (unat (sm_physical_start (sm s ! SM_PROC_IN)))
        (take (unat (input_size (config s))) inp) r)\<rparr>)"
  using assms by (simp_all add: exchange_outputs_def exchange_inputs_def Let_def register_size_def)

text \<open>
  C27. Process data goes through: outputs that the master writes at the output sync manager's
  address by a datagram are in the application's output buffer after the next exchange, and
  the application's inputs are what the master then reads at the input sync manager's address.
\<close>

theorem ecat_process_data_delivered:
  assumes "pdo_ready s po (length d) pi ins"
    and "output_data (config s) = Some out" "input_data (config s) = Some inp"
  shows "\<exists>s1 s2 st'. s1 = process_register_write po d s \<and> pdo_exchange s1 st = Some (0, s2, st') \<and>
    output_data (config s2) = Some (d @ drop (length d) out) \<and>
    process_register_read s2 pi ins = take ins inp"
proof -
  let ?s1 = "process_register_write po d s"
  have ro: "regs_only s ?s1" by simp
  have f: "full_regs s" and b: "length d \<le> length out" "ins \<le> length inp"
    and o: "unat po + length d \<le> 65536" and i: "unat pi + ins \<le> 65536"
    using assms by (auto simp: pdo_ready_def buffers_ok_def)
  obtain r1 where r1: "registers ?s1 = Some r1" "length r1 = 65536"
    using full_regs_only [OF ro f] by (auto simp: full_regs_def)
  have d: "take (length d) (drop (unat po) r1) = d"
    using register_read_take [OF r1 o] register_write_read [OF f, of d po] o by simp
  let ?s2 = "?s1\<lparr>config := (config s)\<lparr>output_data := Some (put_bytes 0 d out)\<rparr>\<rparr>"
  let ?s3 = "?s2\<lparr>registers := Some (put_bytes (unat pi) (take ins inp) r1)\<rparr>"
  have n: "length d = unat (output_size (config s))" "0 < unat (output_size (config s))"
    using assms(1) unfolding pdo_ready_def by linarith+
  note same = regs_only_fields(1) [OF ro] regs_only_fields(5) [OF ro]
  have "exchange_outputs ?s1 = Some (0, ?s2)"
    using assms same d b n(2) o exchange_moves(1) [OF r1, of out] by (simp add: pdo_ready_def n(1))
  moreover have "exchange_inputs ?s2 = Some (0, ?s3)"
    using assms same b i exchange_moves(2) [of ?s2 r1 inp] r1 by (simp add: pdo_ready_def)
  moreover have "al_state ?s1 = al_state s" using regs_only_fields(2) [OF ro] .
  ultimately have ex: "pdo_exchange ?s1 st = Some (0, ?s3, st\<lparr>pdo_cycles := pdo_cycles st + 1\<rparr>)"
    using assms(1) by (simp add: pdo_exchange_def pdo_ready_def Let_def)
  have "process_register_read ?s3 pi ins = take ins inp"
    using i b r1(2) by (subst register_read_take [OF _ _ i, of _ "put_bytes (unat pi) (take ins inp) r1"])
      (auto simp: put_bytes_def)
  moreover have "output_data (config ?s3) = Some (d @ drop (length d) out)" by (simp add: put_bytes_def)
  ultimately show ?thesis using ex by blast
qed

theorem ecat_process_data_delivered_witness:
  "\<exists>s s2 st'. pdo_exchange (process_register_write 0x1100 [1, 2, 3, 4] s) zero_estats = Some (0, s2, st') \<and>
    output_data (config s2) = Some [1, 2, 3, 4] \<and> process_register_read s2 0x1400 2 = [21, 22]"
proof -
  let ?m = "\<lambda>a n. \<lparr>sm_physical_start = a, sm_length = n, sm_control = 0, sm_status = 0, sm_activate = 1, pdi_control = 0\<rparr>"
  let ?s = "demo_slave\<lparr>al_state := ECAT_STATE_SAFEOP, sm := [zero_sm, zero_sm, ?m 0x1100 4, ?m 0x1400 2]\<rparr>"
  have c: "config ?s = demo_config" using demo_slave_sm by simp
  have "full_regs ?s" using demo_slave_full by (simp add: full_regs_def)
  moreover have "buffers_ok ?s" using demo_slave_ok by (simp add: buffers_ok_def)
  ultimately have "pdo_ready ?s 0x1100 (length [1, 2, 3, 4 :: u8]) 0x1400 2"
    using c by (simp add: pdo_ready_def demo_config_def)
  moreover have "output_data (config ?s) = Some [0, 0, 0, 0]" "input_data (config ?s) = Some [21, 22]"
    unfolding c by (simp_all add: demo_config_def)
  ultimately show ?thesis
    using ecat_process_data_delivered [of ?s "0x1100" "[1, 2, 3, 4]" "0x1400" 2 "[0, 0, 0, 0]" "[21, 22]" zero_estats]
    by auto
qed

end
