(* ===== verification/Allocators.thy ===== *)
theory Allocators
  imports Prelude
begin

text \<open>
  What a memory allocator promises its clients, as locales: regions handed out lie in the arena
  and do not overlap, and a region given back may be handed out again. The physical page
  allocator provides the first, the heap both.
\<close>

section \<open>Regions\<close>

definition apart :: "nat \<times> nat \<Rightarrow> nat \<times> nat \<Rightarrow> bool" where
  "apart r q \<longleftrightarrow> fst r + snd r \<le> fst q \<or> fst q + snd q \<le> fst r"

lemma apart_sym: "apart r q \<Longrightarrow> apart q r"
  by (auto simp: apart_def)

lemma apart_bytes: "apart r q \<Longrightarrow> fst r \<le> x \<Longrightarrow> x < fst r + snd r \<Longrightarrow> \<not> (fst q \<le> x \<and> x < fst q + snd q)"
  by (auto simp: apart_def)

text \<open>
  A client: it asks for memory, or gives back the k-th of the regions it holds. The log holds the
  live regions with the sizes asked for, the last one first.
\<close>

datatype request = Get nat | Put nat

definition drop_nth :: "nat \<Rightarrow> 'a list \<Rightarrow> 'a list" where
  "drop_nth k xs = take k xs @ drop (Suc k) xs"

lemma set_drop_nth: "set (drop_nth k xs) \<subseteq> set xs"
  by (auto simp: drop_nth_def dest: in_set_takeD in_set_dropD)

lemma set_drop_nth_distinct:
  assumes "k < length xs" "distinct xs"
  shows "set (drop_nth k xs) = set xs - {xs ! k}"
proof -
  have "distinct (ys @ x # zs) \<Longrightarrow> set (ys @ zs) = set (ys @ x # zs) - {x}" for ys zs and x :: 'a by auto
  moreover have "xs = take k xs @ xs ! k # drop (Suc k) xs" using assms(1) by (rule id_take_nth_drop)
  ultimately show ?thesis unfolding drop_nth_def using assms(2) by metis
qed

lemma distinct_drop_nth: "distinct xs \<Longrightarrow> distinct (drop_nth k xs)"
  unfolding drop_nth_def distinct_append
  using set_take_disj_set_drop_if_distinct [of xs k "Suc k"] by simp

fun serve ::
    "(nat \<Rightarrow> 's \<Rightarrow> (nat option \<times> 's) option) \<Rightarrow> (nat \<Rightarrow> 's \<Rightarrow> 's option) \<Rightarrow>
     request list \<Rightarrow> 's \<Rightarrow> (nat \<times> nat) list \<Rightarrow> ('s \<times> (nat \<times> nat) list) option" where
  "serve get put [] s log = Some (s, log)"
| "serve get put (Get n # rs) s log =
     (case get n s of
        None \<Rightarrow> None
      | Some (p, s') \<Rightarrow> serve get put rs s' (case p of None \<Rightarrow> log | Some a \<Rightarrow> (a, n) # log))"
| "serve get put (Put k # rs) s log =
     (if k < length log
      then (case put (fst (log ! k)) s of
              None \<Rightarrow> None
            | Some s' \<Rightarrow> serve get put rs s' (drop_nth k log))
      else serve get put rs s log)"

definition regions_ok :: "nat \<Rightarrow> nat \<Rightarrow> (nat \<times> nat) list \<Rightarrow> bool" where
  "regions_ok lo hi log \<longleftrightarrow>
     sorted_wrt apart log \<and> (\<forall>(a, n) \<in> set log. lo \<le> a \<and> a + n \<le> hi)"

lemma sorted_wrt_drop_nth:
  assumes "sorted_wrt P xs"
  shows "sorted_wrt P (drop_nth k xs)"
proof (cases "k < length xs")
  case True
  then have "sorted_wrt P (take k xs @ xs ! k # drop (Suc k) xs)" using assms id_take_nth_drop by metis
  then show ?thesis unfolding drop_nth_def by (auto simp: sorted_wrt_append)
qed (simp add: drop_nth_def assms)

lemma regions_ok_drop: "regions_ok lo hi log \<Longrightarrow> regions_ok lo hi (drop_nth k log)"
  unfolding regions_ok_def using sorted_wrt_drop_nth set_drop_nth by fastforce

section \<open>Allocators\<close>

text \<open>
  \<open>inv s log\<close>: the state is consistent and the log is what its clients hold. \<open>ok n\<close>: a size
  that may be asked for.
\<close>

locale region_source =
  fixes inv :: "'s \<Rightarrow> (nat \<times> nat) list \<Rightarrow> bool"
    and get :: "nat \<Rightarrow> 's \<Rightarrow> (nat option \<times> 's) option"
    and ok :: "nat \<Rightarrow> bool"
    and lo :: nat and hi :: nat
  assumes get_defined: "inv s log \<Longrightarrow> ok n \<Longrightarrow> get n s \<noteq> None"
    and get_some: "inv s log \<Longrightarrow> ok n \<Longrightarrow> get n s = Some (Some a, s') \<Longrightarrow> inv s' ((a, n) # log)"
    and get_none: "inv s log \<Longrightarrow> ok n \<Longrightarrow> get n s = Some (None, s') \<Longrightarrow> inv s' log"
    and inv_regions: "inv s log \<Longrightarrow> regions_ok lo hi log"
begin

definition logged :: "nat option \<Rightarrow> nat \<Rightarrow> (nat \<times> nat) list \<Rightarrow> (nat \<times> nat) list" where
  "logged p n log = (case p of None \<Rightarrow> log | Some a \<Rightarrow> (a, n) # log)"

lemma get_step:
  assumes "inv s log" "ok n"
  shows "\<exists>p s1. get n s = Some (p, s1) \<and> inv s1 (logged p n log)"
proof -
  obtain p s1 where "get n s = Some (p, s1)" using get_defined [OF assms] by auto
  then show ?thesis using get_some [OF assms] get_none [OF assms] by (cases p) (auto simp: logged_def)
qed

text \<open>A client that only asks for memory never gets the same byte twice.\<close>

lemma serve_gets:
  assumes "inv s log" "\<forall>n \<in> set ns. ok n"
  shows "\<exists>s' log'. serve get put (map Get ns) s log = Some (s', log') \<and> inv s' log'"
  using assms
proof (induction ns arbitrary: s log)
  case (Cons n ns)
  then obtain p s1 where "get n s = Some (p, s1)" "inv s1 (logged p n log)" using get_step [of s log n] by auto
  then show ?case using Cons.IH [of s1 "logged p n log"] Cons.prems(2) by (simp add: logged_def)
qed simp

end

locale region_allocator = region_source +
  fixes put :: "nat \<Rightarrow> 's \<Rightarrow> 's option"
  assumes put_ok: "inv s log \<Longrightarrow> k < length log \<Longrightarrow>
      \<exists>s'. put (fst (log ! k)) s = Some s' \<and> inv s' (drop_nth k log)"
begin

text \<open>So does one that also gives memory back, in any order.\<close>

lemma serve_all:
  assumes "inv s log" "\<forall>n. Get n \<in> set rs \<longrightarrow> ok n"
  shows "\<exists>s' log'. serve get put rs s log = Some (s', log') \<and> inv s' log' \<and> regions_ok lo hi log'"
  using assms
proof (induction rs arbitrary: s log)
  case Nil
  then show ?case using inv_regions by auto
next
  case (Cons r rs)
  show ?case
  proof (cases r)
    case (Get n)
    then have "ok n" using Cons.prems(2) by simp
    then obtain p s1 where "get n s = Some (p, s1)" "inv s1 (logged p n log)"
      using get_step [of s log n] Cons.prems(1) by auto
    then show ?thesis using Cons.IH [of s1 "logged p n log"] Cons.prems(2) Get by (simp add: logged_def)
  next
    case (Put k)
    show ?thesis
    proof (cases "k < length log")
      case True
      then obtain s1 where "put (fst (log ! k)) s = Some s1" "inv s1 (drop_nth k log)"
        using put_ok [OF Cons.prems(1)] by blast
      then show ?thesis using Cons.IH [of s1 "drop_nth k log"] Cons.prems(2) True Put by auto
    next
      case False
      then show ?thesis using Cons.IH [of s log] Cons.prems Put by auto
    qed
  qed
qed

end

end
