(* ===== verification/Pmm.thy ===== *)
theory Pmm
  imports Allocators
begin

text \<open>
  The physical memory manager of \<^verbatim>\<open>src/kernel/mm/pmm.c\<close>: pages are handed out by a linear
  allocator, and given back to the free lists of a buddy allocator. Addresses are natural numbers
  below \<open>2 ^ 64\<close>, \<open>None\<close> is NULL. The block structure at the start of a page is the entry of the
  page's address in \<open>page_blocks\<close>; pages in use keep whatever their owners wrote there. The
  bitmap is the list of its bytes. An operation is \<open>None\<close> when it accesses the bitmap or the free
  lists out of bounds, or does not end.
\<close>

section \<open>State\<close>

abbreviation (input) PAGE_SIZE :: nat where "PAGE_SIZE \<equiv> 4096"
abbreviation (input) MAX_ORDER :: nat where "MAX_ORDER \<equiv> 18"

record page_block =
  pb_next :: "nat option"
  pb_prev :: "nat option"
  pb_order :: nat
  pb_flags :: u32

record page_list =
  pl_head :: "nat option"
  pl_count :: nat

record pmm =
  free_lists :: "page_list list"
  bitmap :: "u8 list"
  mem_start :: nat
  mem_end :: nat
  total_pages :: nat
  free_pages :: nat
  pmm_initialized :: bool
  next_free_page :: nat
  page_blocks :: "nat \<Rightarrow> page_block"

text \<open>\<open>ALIGN_UP\<close> and \<open>ALIGN_DOWN\<close> to a page.\<close>

definition page_align_up :: "nat \<Rightarrow> nat" where
  "page_align_up x = add64 x (PAGE_SIZE - 1) div PAGE_SIZE * PAGE_SIZE"

definition page_align_down :: "nat \<Rightarrow> nat" where
  "page_align_down x = x div PAGE_SIZE * PAGE_SIZE"

section \<open>The bitmap\<close>

definition bitmap_set :: "nat \<Rightarrow> pmm \<Rightarrow> pmm option" where
  "bitmap_set b s =
     (if b div 8 < length (bitmap s)
      then Some (s\<lparr>bitmap := (bitmap s)[b div 8 := bitmap s ! (b div 8) OR push_bit (b mod 8) 1]\<rparr>)
      else None)"

definition bitmap_clear :: "nat \<Rightarrow> pmm \<Rightarrow> pmm option" where
  "bitmap_clear b s =
     (if b div 8 < length (bitmap s)
      then Some (s\<lparr>bitmap := (bitmap s)[b div 8 := bitmap s ! (b div 8) AND NOT (push_bit (b mod 8) 1)]\<rparr>)
      else None)"

definition bitmap_test :: "nat \<Rightarrow> pmm \<Rightarrow> bool option" where
  "bitmap_test b s =
     (if b div 8 < length (bitmap s) then Some (bitmap s ! (b div 8) AND push_bit (b mod 8) 1 \<noteq> 0) else None)"

section \<open>Pages, addresses and buddies\<close>

definition addr_to_page :: "pmm \<Rightarrow> nat \<Rightarrow> nat" where
  "addr_to_page s a = sub64 a (mem_start s) div PAGE_SIZE"

definition page_to_addr :: "pmm \<Rightarrow> nat \<Rightarrow> nat" where
  "page_to_addr s p = add64 (mem_start s) (p * PAGE_SIZE mod SIZE_MOD)"

definition find_buddy :: "nat \<Rightarrow> nat \<Rightarrow> nat" where
  "find_buddy page order = page XOR 2 ^ order"

section \<open>Free lists\<close>

definition upd_pb :: "nat \<Rightarrow> (page_block \<Rightarrow> page_block) \<Rightarrow> pmm \<Rightarrow> pmm" where
  "upd_pb a f s = s\<lparr>page_blocks := (page_blocks s)(a := f (page_blocks s a))\<rparr>"

definition upd_list :: "nat \<Rightarrow> (page_list \<Rightarrow> page_list) \<Rightarrow> pmm \<Rightarrow> pmm" where
  "upd_list k f s = s\<lparr>free_lists := (free_lists s)[k := f (free_lists s ! k)]\<rparr>"

definition free_list_add :: "nat \<Rightarrow> nat \<Rightarrow> pmm \<Rightarrow> pmm option" where
  "free_list_add block order s =
     (if length (free_lists s) \<le> order then None
      else
        let head = pl_head (free_lists s ! order);
            s = upd_pb block (\<lambda>b. b\<lparr>pb_order := order, pb_next := head, pb_prev := None\<rparr>) s;
            s = (case head of None \<Rightarrow> s | Some h \<Rightarrow> upd_pb h (\<lambda>b. b\<lparr>pb_prev := Some block\<rparr>) s)
        in Some (upd_list order (\<lambda>l. l\<lparr>pl_head := Some block, pl_count := add64 (pl_count l) 1\<rparr>) s))"

definition free_list_remove :: "nat \<Rightarrow> nat \<Rightarrow> pmm \<Rightarrow> pmm option" where
  "free_list_remove block order s =
     (if length (free_lists s) \<le> order then None
      else
        let s = (case pb_prev (page_blocks s block) of
                   Some p \<Rightarrow> upd_pb p (\<lambda>b. b\<lparr>pb_next := pb_next (page_blocks s block)\<rparr>) s
                 | None \<Rightarrow> upd_list order (\<lambda>l. l\<lparr>pl_head := pb_next (page_blocks s block)\<rparr>) s);
            s = (case pb_next (page_blocks s block) of
                   Some n \<Rightarrow> upd_pb n (\<lambda>b. b\<lparr>pb_prev := pb_prev (page_blocks s block)\<rparr>) s
                 | None \<Rightarrow> s)
        in Some (upd_list order (\<lambda>l. l\<lparr>pl_count := sub64 (pl_count l) 1\<rparr>) s))"

text \<open>The loop of \<open>merge_blocks\<close>: the page and order it ends with.\<close>

function merge_loop :: "nat \<Rightarrow> nat \<Rightarrow> pmm \<Rightarrow> (nat \<times> nat \<times> pmm) option" where
  "merge_loop page order s =
     (if MAX_ORDER \<le> order then Some (page, order, s)
      else
        let buddy_page = find_buddy page order; buddy = page_to_addr s buddy_page
        in if total_pages s \<le> buddy_page then Some (page, order, s)
           else do {
             used \<leftarrow> bitmap_test buddy_page s;
             if used \<or> pb_order (page_blocks s buddy) \<noteq> order then Some (page, order, s)
             else do {
               s1 \<leftarrow> free_list_remove buddy order s;
               merge_loop (if buddy_page < page then buddy_page else page) (order + 1) s1
             }
           })"
  by pat_completeness auto
termination by (relation "measure (\<lambda>(page, order, s). MAX_ORDER - order)") auto

declare merge_loop.simps [simp del]

definition merge_blocks :: "nat \<Rightarrow> nat \<Rightarrow> pmm \<Rightarrow> pmm option" where
  "merge_blocks page order s = do {
     (page', order', s') \<leftarrow> merge_loop page order s;
     free_list_add (page_to_addr s' page') order' s'
   }"

section \<open>Initialisation\<close>

fun each :: "('a \<Rightarrow> 's \<Rightarrow> 's option) \<Rightarrow> 'a list \<Rightarrow> 's \<Rightarrow> 's option" where
  "each f [] s = Some s"
| "each f (x # xs) s = f x s \<bind> each f xs"

definition bitmap_pages :: "nat \<Rightarrow> nat" where
  "bitmap_pages npages = page_align_up (npages div 8) div PAGE_SIZE"

definition pmm_init :: "nat \<Rightarrow> nat \<Rightarrow> pmm \<Rightarrow> pmm option" where
  "pmm_init start0 size0 s =
     (let start = page_align_up start0; size = page_align_down size0;
          npages = size div PAGE_SIZE; n = bitmap_pages npages;
          s = s\<lparr>mem_start := start, mem_end := add64 start size, total_pages := npages,
                free_pages := 0, bitmap := replicate (n * PAGE_SIZE) 0\<rparr>
      in do {
        s1 \<leftarrow> each bitmap_set [0..<n] s;
        Some (s1\<lparr>free_lists := replicate (MAX_ORDER + 1) \<lparr>pl_head = None, pl_count = 0\<rparr>,
                 next_free_page := n, free_pages := sub64 npages n, pmm_initialized := True\<rparr>)
      })"

section \<open>Allocation and release\<close>

definition pmm_alloc_pages :: "nat \<Rightarrow> pmm \<Rightarrow> nat option \<times> pmm" where
  "pmm_alloc_pages count s =
     (if \<not> pmm_initialized s \<or> count = 0 then (None, s)
      else if total_pages s < add64 (next_free_page s) count then (None, s)
      else (Some (page_to_addr s (next_free_page s)),
            s\<lparr>next_free_page := add64 (next_free_page s) count, free_pages := sub64 (free_pages s) count\<rparr>))"

definition pmm_alloc_page :: "pmm \<Rightarrow> nat option \<times> pmm" where
  "pmm_alloc_page = pmm_alloc_pages 1"

text \<open>The loop that looks for the order of a count; it does not end when the size wraps to 0.\<close>

partial_function (option) order_of :: "nat \<Rightarrow> nat \<Rightarrow> nat \<Rightarrow> nat option" where
  "order_of count n order =
     (if n < count then order_of count (n * 2 mod SIZE_MOD) (order + 1) else Some order)"

definition pmm_free_pages :: "nat option \<Rightarrow> nat \<Rightarrow> pmm \<Rightarrow> pmm option" where
  "pmm_free_pages addr count s =
     (case addr of
        None \<Rightarrow> Some s
      | Some a \<Rightarrow>
          if \<not> pmm_initialized s \<or> count = 0 then Some s
          else do {
            order \<leftarrow> order_of count 1 0;
            let page = addr_to_page s a;
            s1 \<leftarrow> each (\<lambda>i. bitmap_clear (add64 page i)) [0..<2 ^ order] s;
            merge_blocks page order (s1\<lparr>free_pages := add64 (free_pages s1) (2 ^ order)\<rparr>)
          })"

definition pmm_free_page :: "nat option \<Rightarrow> pmm \<Rightarrow> pmm option" where
  "pmm_free_page addr = pmm_free_pages addr 1"

section \<open>Queries\<close>

definition pmm_available_pages :: "pmm \<Rightarrow> nat" where
  "pmm_available_pages = free_pages"

definition pmm_total_pages :: "pmm \<Rightarrow> nat" where
  "pmm_total_pages = total_pages"

definition pmm_total_memory :: "pmm \<Rightarrow> nat" where
  "pmm_total_memory s = total_pages s * PAGE_SIZE mod SIZE_MOD"

definition pmm_available_memory :: "pmm \<Rightarrow> nat" where
  "pmm_available_memory s = free_pages s * PAGE_SIZE mod SIZE_MOD"

section \<open>The linear allocator\<close>

text \<open>
  The state and the regions its clients hold: pages beyond \<open>next_free_page\<close> were never handed
  out, and the free count is what is left of them.
\<close>

definition pmm_ok :: "nat \<Rightarrow> nat \<Rightarrow> pmm \<Rightarrow> bool" where
  "pmm_ok lo hi s \<longleftrightarrow> pmm_initialized s \<and> mem_start s + total_pages s * PAGE_SIZE = hi \<and> hi < SIZE_MOD \<and>
     mem_start s \<le> lo \<and> lo \<le> mem_start s + next_free_page s * PAGE_SIZE \<and> next_free_page s \<le> total_pages s"

definition pmm_inv :: "nat \<Rightarrow> nat \<Rightarrow> pmm \<Rightarrow> (nat \<times> nat) list \<Rightarrow> bool" where
  "pmm_inv lo hi s log \<longleftrightarrow> pmm_ok lo hi s \<and> regions_ok lo (mem_start s + next_free_page s * PAGE_SIZE) log \<and>
     lo + sum_list (map snd log) = mem_start s + next_free_page s * PAGE_SIZE \<and>
     free_pages s = total_pages s - next_free_page s"

definition page_request :: "nat \<Rightarrow> bool" where
  "page_request n \<longleftrightarrow> n mod PAGE_SIZE = 0 \<and> 0 < n \<and> n < SIZE_MOD"

definition pmm_get :: "nat \<Rightarrow> pmm \<Rightarrow> (nat option \<times> pmm) option" where
  "pmm_get n s = Some (pmm_alloc_pages (n div PAGE_SIZE) s)"

lemma regions_ok_mono: "regions_ok lo hi log \<Longrightarrow> hi \<le> hi' \<Longrightarrow> regions_ok lo hi' log"
  unfolding regions_ok_def by fastforce

lemma regions_ok_wider: "regions_ok lo hi log \<Longrightarrow> lo' \<le> lo \<Longrightarrow> hi \<le> hi' \<Longrightarrow> regions_ok lo' hi' log"
  unfolding regions_ok_def by fastforce

lemma regions_ok_Cons:
  assumes "regions_ok lo a log" "lo \<le> a" "a + n \<le> hi"
  shows "regions_ok lo hi ((a, n) # log)"
  using assms unfolding regions_ok_def apart_def by fastforce

lemma page_request_div:
  assumes "page_request n"
  shows "n div PAGE_SIZE * PAGE_SIZE = n" "0 < n div PAGE_SIZE" "n div PAGE_SIZE \<le> 4503599627370496"
proof -
  show m: "n div PAGE_SIZE * PAGE_SIZE = n" using assms by (simp add: page_request_def mod_0_imp_dvd)
  show "0 < n div PAGE_SIZE" using m assms by (cases "n div PAGE_SIZE") (auto simp: page_request_def)
  show "n div PAGE_SIZE \<le> 4503599627370496" using m assms by (simp add: page_request_def)
qed

lemma page_to_addr_exact:
  "mem_start s + p * PAGE_SIZE < SIZE_MOD \<Longrightarrow> page_to_addr s p = mem_start s + p * PAGE_SIZE"
  by (simp add: page_to_addr_def wrap_simps)

text \<open>A request either gets the next pages or, when they are too many, changes nothing.\<close>

lemma pmm_alloc_cases:
  assumes "pmm_ok lo hi s" "0 < c" "c \<le> 4503599627370496"
  shows "pmm_alloc_pages c s =
    (if next_free_page s + c \<le> total_pages s
     then (Some (mem_start s + next_free_page s * PAGE_SIZE),
           s\<lparr>next_free_page := next_free_page s + c, free_pages := sub64 (free_pages s) c\<rparr>)
     else (None, s))"
proof -
  have b: "mem_start s + next_free_page s * PAGE_SIZE < SIZE_MOD" "next_free_page s + c < SIZE_MOD"
    using assms by (auto simp: pmm_ok_def)
  then show ?thesis
    using assms by (simp add: pmm_alloc_pages_def pmm_ok_def wrap_simps page_to_addr_exact)
qed

lemma pmm_get_some:
  assumes "pmm_inv lo hi s log" "page_request n" "pmm_get n s = Some (Some a, s')"
  shows "pmm_inv lo hi s' ((a, n) # log)"
proof -
  define c where "c = n div PAGE_SIZE"
  have c: "0 < c" "c \<le> 4503599627370496" "n = c * PAGE_SIZE"
    using page_request_div [OF assms(2)] by (simp_all add: c_def)
  have ok: "pmm_ok lo hi s" using assms(1) by (simp add: pmm_inv_def)
  have r: "next_free_page s + c \<le> total_pages s" "a = mem_start s + next_free_page s * PAGE_SIZE"
    "s' = s\<lparr>next_free_page := next_free_page s + c, free_pages := sub64 (free_pages s) c\<rparr>"
    using assms(3) pmm_alloc_cases [OF ok c(1,2)] by (simp_all add: pmm_get_def c_def split: if_splits)
  have top: "mem_start s' + next_free_page s' * PAGE_SIZE = a + n" by (simp add: r c(3) algebra_simps)
  have i: "regions_ok lo a log" "lo + sum_list (map snd log) = a" "lo \<le> a" "free_pages s = total_pages s - next_free_page s"
    using assms(1) by (simp_all add: pmm_inv_def pmm_ok_def r(2))
  have "regions_ok lo (a + n) ((a, n) # log)" by (rule regions_ok_Cons [OF i(1,3)]) simp
  moreover have "pmm_ok lo hi s'"
  proof -
    have sel: "next_free_page s' = next_free_page s + c" "total_pages s' = total_pages s" "mem_start s' = mem_start s"
      "pmm_initialized s'" using ok by (simp_all add: r(3) pmm_ok_def)
    then show ?thesis using ok r(1) top i(3) unfolding pmm_ok_def by auto
  qed
  moreover have "free_pages s' = total_pages s' - next_free_page s'" using i(4) r(1) by (simp add: r(3) wrap_simps)
  ultimately show ?thesis using i(2) by (simp add: pmm_inv_def top)
qed

text \<open>One request for all that is left gets it, up to the end of the pages.\<close>

lemma pmm_all_pages:
  assumes "pmm_inv lo hi s log" "0 < pmm_available_pages s"
  shows "\<exists>a. fst (pmm_alloc_pages (pmm_available_pages s) s) = Some a \<and> a + pmm_available_pages s * PAGE_SIZE = hi"
proof -
  have i: "pmm_ok lo hi s" "free_pages s = total_pages s - next_free_page s"
    "mem_start s + total_pages s * PAGE_SIZE = hi" "hi < SIZE_MOD" "next_free_page s \<le> total_pages s"
    using assms(1) by (simp_all add: pmm_inv_def pmm_ok_def)
  have "free_pages s \<le> 4503599627370496" using i by linarith
  from pmm_alloc_cases [OF i(1) _ this] assms(2) i show ?thesis
    by (auto simp: pmm_available_pages_def add_mult_distrib [symmetric])
qed

lemma pmm_get_none:
  assumes "pmm_inv lo hi s log" "page_request n" "pmm_get n s = Some (None, s')"
  shows "s' = s \<and> hi < mem_start s + next_free_page s * PAGE_SIZE + n"
proof -
  have ok: "pmm_ok lo hi s" using assms(1) by (simp add: pmm_inv_def)
  note p = page_request_div [OF assms(2)]
  have "\<not> next_free_page s + n div PAGE_SIZE \<le> total_pages s" "s' = s"
    using assms(3) pmm_alloc_cases [OF ok p(2,3)] by (auto simp: pmm_get_def split: if_splits)
  moreover have "mem_start s + total_pages s * PAGE_SIZE = hi" using ok by (simp add: pmm_ok_def)
  ultimately show ?thesis using p(1) by (intro conjI) (assumption, linarith)
qed

lemma pmm_inv_regions:
  assumes "pmm_inv lo hi s log"
  shows "regions_ok lo hi log"
  by (rule regions_ok_mono [of lo "mem_start s + next_free_page s * PAGE_SIZE"])
    (use assms in \<open>auto simp: pmm_inv_def pmm_ok_def\<close>)

interpretation pages: region_source "pmm_inv lo hi" pmm_get page_request lo hi for lo hi
proof
  fix s log n s' a
  assume i: "pmm_inv lo hi s log"
  then show "regions_ok lo hi log" by (rule pmm_inv_regions)
  assume n: "page_request n"
  show "pmm_get n s \<noteq> None" by (simp add: pmm_get_def)
  show "pmm_get n s = Some (Some a, s') \<Longrightarrow> pmm_inv lo hi s' ((a, n) # log)" by (rule pmm_get_some [OF i n])
  show "pmm_get n s = Some (None, s') \<Longrightarrow> pmm_inv lo hi s' log" using pmm_get_none [OF i n] i by simp
qed

text \<open>Initialisation.\<close>

lemma bitmap_set_loop:
  assumes "\<forall>i\<in>set is. i div 8 < length (bitmap s)"
  shows "\<exists>b. each bitmap_set is s = Some (s\<lparr>bitmap := b\<rparr>) \<and> length b = length (bitmap s)"
  using assms
proof (induction "is" arbitrary: s)
  case Nil
  show ?case by (rule exI [of _ "bitmap s"]) simp
next
  case (Cons i "is")
  let ?s = "s\<lparr>bitmap := (bitmap s)[i div 8 := bitmap s ! (i div 8) OR push_bit (i mod 8) 1]\<rparr>"
  have "bitmap_set i s = Some ?s" using Cons.prems by (simp add: bitmap_set_def)
  then show ?case using Cons.IH [of ?s] Cons.prems by auto
qed

lemma buddy_div: "find_buddy p k div 2 ^ (k + 1) = p div 2 ^ (k + 1)"
proof -
  have "drop_bit (k + 1) (p XOR 2 ^ k) = drop_bit (k + 1) p"
    by (rule bit_eqI) (auto simp: bit_simps)
  then show ?thesis by (simp add: find_buddy_def drop_bit_eq_div)
qed

lemma buddy_mod: "p mod 2 ^ k = 0 \<Longrightarrow> find_buddy p k mod 2 ^ k = 0"
proof -
  assume "p mod 2 ^ k = 0"
  moreover have "take_bit k (p XOR 2 ^ k) = take_bit k p" by (rule bit_eqI) (auto simp: bit_simps)
  ultimately show ?thesis by (simp add: find_buddy_def take_bit_eq_mod)
qed

lemma buddy_neq: "find_buddy p k \<noteq> p"
proof
  assume "find_buddy p k = p"
  then have "bit (p XOR 2 ^ k) k = bit p k" by (simp add: find_buddy_def)
  then show False by (simp add: bit_simps)
qed

text \<open>The lower of two buddies is aligned to the next order.\<close>

lemma aligned_split:
  fixes x :: nat
  assumes "x mod 2 ^ k = 0"
  shows "x = x div 2 ^ (k + 1) * 2 ^ (k + 1) \<or> x = x div 2 ^ (k + 1) * 2 ^ (k + 1) + 2 ^ k"
proof -
  obtain m where m: "x = m * 2 ^ k" using assms by (metis dvd_def mod_0_imp_dvd mult.commute)
  have "x div (2 ^ k * 2) = m div 2" unfolding div_mult2_eq m by simp
  then have d: "x div 2 ^ (k + 1) = m div 2" by (simp add: mult.commute)
  have "m = m div 2 * 2 \<or> m = m div 2 * 2 + 1" by presburger
  then show ?thesis
  proof
    assume "m = m div 2 * 2"
    then have "x = m div 2 * 2 * 2 ^ k" unfolding m by simp
    then show ?thesis unfolding d by simp
  next
    assume "m = m div 2 * 2 + 1"
    then have "x = (m div 2 * 2 + 1) * 2 ^ k" unfolding m by simp
    then show ?thesis unfolding d by (simp add: algebra_simps)
  qed
qed

lemma buddy_low:
  assumes "p mod 2 ^ k = 0"
  shows "(if find_buddy p k < p then find_buddy p k else p) mod 2 ^ (k + 1) = 0"
proof -
  let ?d = "p div 2 ^ (k + 1) * 2 ^ (k + 1)"
  have "p = ?d \<or> p = ?d + 2 ^ k" by (rule aligned_split [OF assms])
  moreover have "find_buddy p k = ?d \<or> find_buddy p k = ?d + 2 ^ k"
    using aligned_split [OF buddy_mod [OF assms]] unfolding buddy_div .
  moreover have "(0 :: nat) < 2 ^ k" by simp
  ultimately have "(if find_buddy p k < p then find_buddy p k else p) = ?d" using buddy_neq [of p k] by auto
  then show ?thesis by simp
qed

text \<open>
  What releasing changes: the free lists, the bitmap, the free count and the block structures, but
  neither the arena nor the linear allocator.
\<close>

definition same_arena :: "pmm \<Rightarrow> pmm \<Rightarrow> bool" where
  "same_arena s s' \<longleftrightarrow> pmm_initialized s' = pmm_initialized s \<and> mem_start s' = mem_start s \<and>
     total_pages s' = total_pages s \<and> next_free_page s' = next_free_page s"

lemma same_arena_trans: "same_arena a b \<Longrightarrow> same_arena b c \<Longrightarrow> same_arena a c"
  by (simp add: same_arena_def)

lemma list_ops_same:
  "free_list_add b k s = Some s' \<Longrightarrow> same_arena s s' \<and> free_pages s' = free_pages s"
  "free_list_remove b k s = Some s' \<Longrightarrow> same_arena s s' \<and> free_pages s' = free_pages s"
  by (auto simp: free_list_add_def free_list_remove_def Let_def upd_pb_def upd_list_def same_arena_def
      split: if_splits option.splits)

lemma merge_loop_same:
  assumes "merge_loop p k s = Some (p', k', s')"
  shows "same_arena s s' \<and> free_pages s' = free_pages s"
  using assms
proof (induction p k s rule: merge_loop.induct)
  case (1 p k s)
  show ?case
  proof (cases "p' = p \<and> k' = k \<and> s' = s")
    case False
    with "1.prems" obtain used s1 where c: "\<not> MAX_ORDER \<le> k" "\<not> total_pages s \<le> find_buddy p k"
      "bitmap_test (find_buddy p k) s = Some used"
      "\<not> (used \<or> pb_order (page_blocks s (page_to_addr s (find_buddy p k))) \<noteq> k)"
      "free_list_remove (page_to_addr s (find_buddy p k)) k s = Some s1"
      "merge_loop (if find_buddy p k < p then find_buddy p k else p) (k + 1) s1 = Some (p', k', s')"
      by (subst (asm) merge_loop.simps) (auto simp: Let_def split: if_splits bind_splits)
    have "same_arena s1 s' \<and> free_pages s' = free_pages s1"
      by (rule "1.IH" [OF c(1) refl refl c(2,3,4,5,6)])
    then show ?thesis using list_ops_same(2) [OF c(5)] same_arena_trans by auto
  qed (simp add: same_arena_def)
qed

text \<open>The block that a merge ends with covers the pages it started from.\<close>

lemma merge_loop_covers:
  assumes "merge_loop p k s = Some (p', k', s')" "p mod 2 ^ k = 0"
  shows "k \<le> k' \<and> p' mod 2 ^ k' = 0 \<and> p' div 2 ^ k' = p div 2 ^ k'"
  using assms
proof (induction p k s rule: merge_loop.induct)
  case (1 p k s)
  show ?case
  proof (cases "p' = p \<and> k' = k \<and> s' = s")
    case False
    with "1.prems" obtain used s1 where c: "\<not> MAX_ORDER \<le> k" "\<not> total_pages s \<le> find_buddy p k"
      "bitmap_test (find_buddy p k) s = Some used"
      "\<not> (used \<or> pb_order (page_blocks s (page_to_addr s (find_buddy p k))) \<noteq> k)"
      "free_list_remove (page_to_addr s (find_buddy p k)) k s = Some s1"
      "merge_loop (if find_buddy p k < p then find_buddy p k else p) (k + 1) s1 = Some (p', k', s')"
      by (subst (asm) merge_loop.simps) (auto simp: Let_def split: if_splits bind_splits)
    have i: "k + 1 \<le> k' \<and> p' mod 2 ^ k' = 0 \<and> p' div 2 ^ k' = (if find_buddy p k < p then find_buddy p k else p) div 2 ^ k'"
      by (rule "1.IH" [OF c(1) refl refl c(2,3,4,5,6) buddy_low [OF "1.prems"(2)]])
    have "k' = k + 1 + (k' - (k + 1))" using i by simp
    then have "2 ^ k' = 2 ^ (k + 1) * (2 ^ (k' - (k + 1)) :: nat)" by (metis power_add)
    then have "find_buddy p k div 2 ^ k' = p div 2 ^ k'" by (simp only: div_mult2_eq buddy_div)
    with i show ?thesis by auto
  qed (use "1.prems" in simp)
qed

section \<open>Properties\<close>

lemma bitmap_pages_fit: "n < 9223372036854775808 \<Longrightarrow> bitmap_pages n \<le> n"
proof -
  assume n: "n < 9223372036854775808"
  have "add64 (n div 8) 4095 = n div 8 + 4095" using n by (intro add64_exact) simp
  then show ?thesis by (simp add: bitmap_pages_def page_align_up_def)
qed

text \<open>After initialisation everything past the bitmap is free.\<close>

lemma pmm_init_inv:
  assumes "page_align_up start + page_align_down sz < SIZE_MOD" "sz < SIZE_MOD"
  shows "\<exists>s. pmm_init start sz s0 = Some s \<and>
    pmm_inv (page_align_up start + bitmap_pages (sz div PAGE_SIZE) * PAGE_SIZE) (page_align_up start + page_align_down sz) s [] \<and>
    mem_start s = page_align_up start"
proof -
  define np where "np = page_align_down sz div PAGE_SIZE"
  have np: "np = sz div PAGE_SIZE" "page_align_down sz = np * PAGE_SIZE" by (simp_all add: np_def page_align_down_def)
  define n where "n = bitmap_pages np"
  have fit: "n \<le> np" unfolding n_def by (rule bitmap_pages_fit) (use np assms(2) in linarith)
  let ?s = "s0\<lparr>mem_start := page_align_up start, mem_end := add64 (page_align_up start) (page_align_down sz),
      total_pages := np, free_pages := 0, bitmap := replicate (n * PAGE_SIZE) 0\<rparr>"
  have "\<forall>i\<in>set [0..<n]. i div 8 < length (bitmap ?s)" by auto
  then obtain b where b: "each bitmap_set [0..<n] ?s = Some (?s\<lparr>bitmap := b\<rparr>)"
    using bitmap_set_loop by blast
  have "pmm_init start sz s0 = Some (?s\<lparr>bitmap := b, free_lists := replicate (MAX_ORDER + 1) \<lparr>pl_head = None, pl_count = 0\<rparr>,
                 next_free_page := n, free_pages := np - n, pmm_initialized := True\<rparr>)"
    using b fit unfolding pmm_init_def Let_def np_def [symmetric] n_def [symmetric] by (simp add: wrap_simps)
  then show ?thesis
    using assms(1) fit np n_def by (simp add: pmm_inv_def pmm_ok_def regions_ok_def)
qed

lemma pmm_inv_available:
  assumes "pmm_inv lo hi s log"
  shows "pmm_available_memory s + sum_list (map snd log) + lo = hi"
proof -
  have k: "mem_start s + total_pages s * PAGE_SIZE = hi" "hi < SIZE_MOD" "next_free_page s \<le> total_pages s"
    "free_pages s = total_pages s - next_free_page s"
    "lo + sum_list (map snd log) = mem_start s + next_free_page s * PAGE_SIZE"
    using assms by (simp_all add: pmm_inv_def pmm_ok_def)
  have "pmm_available_memory s = free_pages s * PAGE_SIZE"
    unfolding pmm_available_memory_def using k(1,2,4) by (intro mod_less) simp
  moreover have "free_pages s * PAGE_SIZE + next_free_page s * PAGE_SIZE = total_pages s * PAGE_SIZE"
    using k(3,4) by (simp add: add_mult_distrib [symmetric])
  ultimately show ?thesis using k(1,5) by linarith
qed

text \<open>How far the pages reach: to the end of the memory given when its start is page-aligned, otherwise
  less than a page beyond it, and really beyond it when the size is a multiple of the page size.\<close>

lemma page_align_down_le: "page_align_down x \<le> x"
  by (simp add: page_align_down_def)

lemma page_align_up_exact:
  "page_align_up x = (x + 4095) div 4096 * 4096" if "x + 4095 < SIZE_MOD"
  using that by (simp add: page_align_up_def add64_def)

lemma page_align_up_bounds:
  assumes "x + 4095 < SIZE_MOD"
  shows "x \<le> page_align_up x" "page_align_up x < x + PAGE_SIZE" "page_align_up x mod PAGE_SIZE = 0"
proof -
  have "(x + 4095) div 4096 * 4096 + (x + 4095) mod 4096 = x + 4095" by (rule div_mult_mod_eq)
  moreover have "(x + 4095) mod 4096 < 4096" by simp
  ultimately show "x \<le> page_align_up x" "page_align_up x < x + PAGE_SIZE"
    unfolding page_align_up_exact [OF assms] by linarith+
  show "page_align_up x mod PAGE_SIZE = 0" unfolding page_align_up_exact [OF assms] by simp
qed

lemma page_align_up_aligned:
  assumes "x mod PAGE_SIZE = 0" "x + 4095 < SIZE_MOD"
  shows "page_align_up x = x"
proof -
  obtain q where q: "x = 4096 * q" using assms(1) by auto
  have "(4096 * q + 4095) div 4096 = q" by simp
  with q show ?thesis unfolding page_align_up_exact [OF assms(2)] by simp
qed

lemma pages_reach:
  assumes "start + 4095 < SIZE_MOD"
  shows "page_align_up start + page_align_down sz < start + sz + PAGE_SIZE"
    "start mod PAGE_SIZE \<noteq> 0 \<Longrightarrow> sz mod PAGE_SIZE = 0 \<Longrightarrow> start + sz < page_align_up start + page_align_down sz"
proof -
  note u = page_align_up_bounds [OF assms]
  show "page_align_up start + page_align_down sz < start + sz + PAGE_SIZE"
    using u(2) page_align_down_le [of sz] by linarith
  assume n: "start mod PAGE_SIZE \<noteq> 0" "sz mod PAGE_SIZE = 0"
  have "page_align_up start \<noteq> start" using u(3) n(1) by metis
  moreover have "page_align_down sz = sz" using n(2) by (auto simp: page_align_down_def)
  ultimately show "start + sz < page_align_up start + page_align_down sz" using u(1) by linarith
qed

text \<open>
  C36. Whatever page requests follow the initialisation, the regions handed out lie behind the
  bitmap and below the end the manager computes, no two overlap, and the available memory is exact.
  That end is the start rounded up to a page plus the size rounded down. For a page-aligned start the
  regions lie in the memory given. For another start they may leave it by less than a page: the whole
  of the pages behind the bitmap is handed out to one request for all available pages, and when the
  size is a multiple of the page size this region ends behind the memory given.
\<close>

theorem pmm_regions_apart:
  assumes "page_align_up start + page_align_down sz < SIZE_MOD" "sz < SIZE_MOD" "start + 4095 < SIZE_MOD"
    "\<forall>n \<in> set ns. page_request n"
  shows "\<exists>s s' log. pmm_init start sz s0 = Some s \<and>
    serve pmm_get (\<lambda>_. Some) (map Get ns) s [] = Some (s', log) \<and>
    regions_ok (page_align_up start + bitmap_pages (sz div PAGE_SIZE) * PAGE_SIZE)
      (page_align_up start + page_align_down sz) log \<and>
    pmm_available_memory s' + sum_list (map snd log) + bitmap_pages (sz div PAGE_SIZE) * PAGE_SIZE = page_align_down sz \<and>
    (start mod PAGE_SIZE = 0 \<longrightarrow> regions_ok start (start + sz) log) \<and>
    regions_ok start (start + sz + PAGE_SIZE - 1) log \<and>
    (0 < pmm_available_pages s \<longrightarrow> (\<exists>a. fst (pmm_alloc_pages (pmm_available_pages s) s) = Some a \<and>
       (start mod PAGE_SIZE \<noteq> 0 \<and> sz mod PAGE_SIZE = 0 \<longrightarrow> start + sz < a + pmm_available_pages s * PAGE_SIZE)))"
proof -
  let ?lo = "page_align_up start + bitmap_pages (sz div PAGE_SIZE) * PAGE_SIZE"
  let ?hi = "page_align_up start + page_align_down sz"
  obtain s where s: "pmm_init start sz s0 = Some s" "pmm_inv ?lo ?hi s []"
    using pmm_init_inv [OF assms(1,2)] by blast
  obtain s' log where r: "serve pmm_get (\<lambda>_. Some) (map Get ns) s [] = Some (s', log)" "pmm_inv ?lo ?hi s' log"
    using pages.serve_gets [OF s(2), of ns "\<lambda>_. Some"] assms(4) by blast
  note k = pmm_inv_regions [OF r(2)]
  have up: "start \<le> ?lo" using page_align_up_bounds(1) [OF assms(3)] by linarith
  have "regions_ok start (start + sz + PAGE_SIZE - 1) log"
    by (rule regions_ok_wider [OF k up]) (use pages_reach(1) [OF assms(3), of sz] in linarith)
  moreover have "regions_ok start (start + sz) log" if "start mod PAGE_SIZE = 0"
    by (rule regions_ok_wider [OF k up])
      (use page_align_up_aligned [OF that] page_align_down_le [of sz] assms(3) in simp)
  moreover have "pmm_available_memory s' + sum_list (map snd log) + bitmap_pages (sz div PAGE_SIZE) * PAGE_SIZE =
      page_align_down sz"
    using pmm_inv_available [OF r(2)] by simp
  moreover have "\<exists>a. fst (pmm_alloc_pages (pmm_available_pages s) s) = Some a \<and>
      (start mod PAGE_SIZE \<noteq> 0 \<and> sz mod PAGE_SIZE = 0 \<longrightarrow> start + sz < a + pmm_available_pages s * PAGE_SIZE)"
    if "0 < pmm_available_pages s"
    using pmm_all_pages [OF s(2) that] pages_reach(2) [OF assms(3), of sz] by auto
  ultimately show ?thesis
    using s(1) r(1) k by (intro exI [of _ s] exI [of _ s'] exI [of _ log]) simp
qed

text \<open>In a megabyte whose start is not page-aligned the last page lies half behind the memory given.\<close>

theorem pmm_regions_apart_witness:
  "\<exists>s0 s s' log a. pmm_init 0x100800 0x100000 s0 = Some s \<and>
    serve pmm_get (\<lambda>_. Some) (map Get [4096, 8192]) s [] = Some (s', log) \<and>
    regions_ok 0x102000 0x201000 log \<and>
    fst (pmm_alloc_pages (pmm_available_pages s) s) = Some a \<and>
    0x100800 + 0x100000 < a + pmm_available_pages s * PAGE_SIZE"
proof -
  have v: "page_align_up 0x100800 = 0x101000" "page_align_down 0x100000 = 0x100000"
    "bitmap_pages (0x100000 div PAGE_SIZE) = 1"
    by (simp_all add: page_align_up_def page_align_down_def add64_def bitmap_pages_def)
  have q: "\<forall>n\<in>set [4096, 8192]. page_request n" by (simp add: page_request_def)
  obtain s s' log where r: "pmm_init 0x100800 0x100000 s0 = Some s"
    "serve pmm_get (\<lambda>_. Some) (map Get [4096, 8192]) s [] = Some (s', log)" "regions_ok 0x102000 0x201000 log"
    "0 < pmm_available_pages s \<longrightarrow> (\<exists>a. fst (pmm_alloc_pages (pmm_available_pages s) s) = Some a \<and>
       0x100800 + 0x100000 < a + pmm_available_pages s * PAGE_SIZE)"
    using pmm_regions_apart [of "0x100800" "0x100000" "[4096, 8192]" s0] q unfolding v by auto
  have "0 < pmm_available_pages s"
    using r(1) by (auto simp: pmm_init_def Let_def v page_align_up_def page_align_down_def add64_def
        pmm_available_pages_def sub64_def bitmap_pages_def split: bind_splits)
  with r show ?thesis by blast
qed

lemma each_bitmap_clear_same:
  assumes "each (\<lambda>i. bitmap_clear (f i)) is s = Some s'"
  shows "same_arena s s' \<and> free_pages s' = free_pages s \<and> free_lists s' = free_lists s \<and> page_blocks s' = page_blocks s"
  using assms
proof (induction "is" arbitrary: s)
  case (Cons i "is")
  from Cons.prems obtain s1 where s1: "bitmap_clear (f i) s = Some s1" "each (\<lambda>i. bitmap_clear (f i)) is s1 = Some s'"
    by (auto split: bind_splits)
  from s1(1) have "same_arena s s1 \<and> free_pages s1 = free_pages s \<and> free_lists s1 = free_lists s \<and> page_blocks s1 = page_blocks s"
    by (auto simp: bitmap_clear_def same_arena_def split: if_splits)
  with Cons.IH [OF s1(2)] show ?case by (auto simp: same_arena_def)
qed (simp add: same_arena_def)

lemma order_of_one: "order_of 1 1 0 = Some 0"
  by (simp add: order_of.simps)

lemma pmm_free_page_eq:
  "pmm_initialized s \<Longrightarrow> pmm_free_page (Some a) s =
     bitmap_clear (add64 (addr_to_page s a) 0) s \<bind>
     (\<lambda>s1. merge_blocks (addr_to_page s a) 0 (s1\<lparr>free_pages := add64 (free_pages s1) 1\<rparr>))"
  by (simp add: pmm_free_page_def pmm_free_pages_def order_of_one [simplified] Let_def split: bind_splits)

lemma pmm_free_page_steps:
  assumes "pmm_free_page (Some a) s = Some s'" "pmm_initialized s"
  obtains s1 s2 p k where "bitmap_clear (add64 (addr_to_page s a) 0) s = Some s1"
    "merge_loop (addr_to_page s a) 0 (s1\<lparr>free_pages := add64 (free_pages s1) 1\<rparr>) = Some (p, k, s2)"
    "free_list_add (page_to_addr s2 p) k s2 = Some s'"
  using assms by (auto simp: pmm_free_page_eq merge_blocks_def split: bind_splits)

lemma pmm_free_page_same:
  assumes "pmm_free_page (Some a) s = Some s'" "pmm_initialized s"
  shows "same_arena s s' \<and> free_pages s' = add64 (free_pages s) 1"
proof -
  obtain s1 s2 p k where c: "bitmap_clear (add64 (addr_to_page s a) 0) s = Some s1"
    "merge_loop (addr_to_page s a) 0 (s1\<lparr>free_pages := add64 (free_pages s1) 1\<rparr>) = Some (p, k, s2)"
    "free_list_add (page_to_addr s2 p) k s2 = Some s'"
    by (rule pmm_free_page_steps [OF assms])
  from c(1) have "same_arena s s1 \<and> free_pages s1 = free_pages s"
    using each_bitmap_clear_same [of "add64 (addr_to_page s a)" "[0]" s s1] by simp
  with merge_loop_same [OF c(2)] list_ops_same(1) [OF c(3)] show ?thesis by (auto simp: same_arena_def)
qed

text \<open>
  Pages given back are never handed out again: once the linear allocator has reached the end
  of memory every request fails, however many pages are freed, while the count of available pages
  grows with each.
\<close>

theorem pmm_freed_never_reused:
  assumes "pmm_initialized s" "next_free_page s = total_pages s" "0 < c" "total_pages s + c < SIZE_MOD"
    and "each (\<lambda>a. pmm_free_page (Some a)) as s = Some s'" "free_pages s + length as < SIZE_MOD"
  shows "pmm_alloc_pages c s' = (None, s') \<and> pmm_available_pages s' = pmm_available_pages s + length as"
proof -
  have "same_arena s s' \<and> free_pages s' = free_pages s + length as"
    using assms(1,5,6)
  proof (induction as arbitrary: s)
    case (Cons a as)
    from Cons.prems(2) obtain s1 where s1: "pmm_free_page (Some a) s = Some s1"
      "each (\<lambda>a. pmm_free_page (Some a)) as s1 = Some s'"
      by (auto split: bind_splits)
    note f = pmm_free_page_same [OF s1(1) Cons.prems(1)]
    then have n: "free_pages s1 = free_pages s + 1" using Cons.prems(3) by (simp add: wrap_simps)
    have "pmm_initialized s1" using f Cons.prems(1) by (simp add: same_arena_def)
    from Cons.IH [OF this s1(2)] n Cons.prems(3) f show ?case by (auto simp: same_arena_def)
  qed (simp add: same_arena_def)
  then show ?thesis
    using assms(1-4) by (simp add: pmm_alloc_pages_def same_arena_def wrap_simps pmm_available_pages_def)
qed

lemma merge_loop_step:
  assumes "k < MAX_ORDER" "find_buddy p k < total_pages s" "bitmap_test (find_buddy p k) s = Some False"
    and "pb_order (page_blocks s (page_to_addr s (find_buddy p k))) = k"
  shows "merge_loop p k s = free_list_remove (page_to_addr s (find_buddy p k)) k s \<bind>
    merge_loop (if find_buddy p k < p then find_buddy p k else p) (k + 1)"
  using assms by (subst merge_loop.simps) (simp add: Let_def)

text \<open>
  Freeing a page can put a live page on the free lists: allocation sets no bit of the bitmap,
  so when the buddy of the freed page is in use and happens to hold zero where a block keeps its
  order, the two are merged into a free block that covers the page in use.
\<close>

theorem pmm_free_merges_live_buddy:
  assumes "pmm_initialized s" "pmm_free_page (Some a) s = Some s'" "addr_to_page s a < 2 ^ 62"
    and "find_buddy (addr_to_page s a) 0 < total_pages s"
    and "bitmap_test (find_buddy (addr_to_page s a) 0) s = Some False"
    and "pb_order (page_blocks s (page_to_addr s (find_buddy (addr_to_page s a) 0))) = 0"
  shows "\<exists>p k. pl_head (free_lists s' ! k) = Some (page_to_addr s p) \<and>
    find_buddy (addr_to_page s a) 0 \<in> {p..<p + 2 ^ k} \<and> addr_to_page s a \<in> {p..<p + 2 ^ k}"
proof -
  let ?g = "addr_to_page s a" let ?b = "find_buddy ?g 0"
  obtain s1 s2 p k where c: "bitmap_clear (add64 ?g 0) s = Some s1"
    "merge_loop ?g 0 (s1\<lparr>free_pages := add64 (free_pages s1) 1\<rparr>) = Some (p, k, s2)"
    "free_list_add (page_to_addr s2 p) k s2 = Some s'"
    by (rule pmm_free_page_steps [OF assms(2,1)])
  let ?s1 = "s1\<lparr>free_pages := add64 (free_pages s1) 1\<rparr>"
  note s1 = each_bitmap_clear_same [of "add64 ?g" "[0]" s s1]
  have sa: "same_arena s s1" "page_blocks s1 = page_blocks s" using s1 c(1) by simp_all
  have "bitmap_test ?b s1 = Some False"
  proof -
    have "(x AND NOT m) AND n = 0" if "x AND n = 0" for x m n :: u8
    proof -
      have "(x AND NOT m) AND n = (x AND n) AND NOT m" by (rule bit_word_eqI) (auto simp: bit_simps)
      then show ?thesis using that by simp
    qed
    then show ?thesis using c(1) assms(5)
      by (auto simp: bitmap_test_def bitmap_clear_def nth_list_update split: if_splits)
  qed
  moreover have "bitmap_test ?b ?s1 = bitmap_test ?b s1" by (simp add: bitmap_test_def)
  ultimately have t: "bitmap_test ?b ?s1 = Some False" by simp
  have o: "pb_order (page_blocks ?s1 (page_to_addr ?s1 ?b)) = 0" "?b < total_pages ?s1"
    using assms(4,6) sa by (simp_all add: same_arena_def page_to_addr_def)
  obtain s3 where "merge_loop (if ?b < ?g then ?b else ?g) 1 s3 = Some (p, k, s2)"
    using c(2) merge_loop_step [OF _ o(2) t o(1)] by (auto split: bind_splits)
  from merge_loop_covers [OF this] have m: "1 \<le> k" "p mod 2 ^ k = 0" "p div 2 ^ k = (if ?b < ?g then ?b else ?g) div 2 ^ k"
    using buddy_low [of ?g 0] by simp_all
  have "same_arena ?s1 s2" using merge_loop_same [OF c(2)] by simp
  then have "page_to_addr s2 p = page_to_addr s p" using sa by (simp add: same_arena_def page_to_addr_def)
  then have "pl_head (free_lists s' ! k) = Some (page_to_addr s p)"
    using c(3) by (auto simp: free_list_add_def Let_def upd_list_def upd_pb_def split: if_splits option.splits)
  moreover have "?b div 2 ^ k = ?g div 2 ^ k"
  proof -
    have "2 ^ k = 2 ^ (0 + 1) * (2 ^ (k - 1) :: nat)" using m(1) by (cases k) simp_all
    then show ?thesis by (simp only: div_mult2_eq buddy_div)
  qed
  then have "x \<in> {p..<p + 2 ^ k}" if "x = ?b \<or> x = ?g" for x
  proof -
    have "x div 2 ^ k = p div 2 ^ k" using m(3) that \<open>?b div 2 ^ k = ?g div 2 ^ k\<close> by auto
    moreover have "p = p div 2 ^ k * 2 ^ k" using m(2) by auto
    ultimately have "p = x div 2 ^ k * 2 ^ k" by simp
    moreover have "x = x div 2 ^ k * 2 ^ k + x mod 2 ^ k" by (rule div_mult_mod_eq [symmetric])
    moreover have "x mod 2 ^ k < 2 ^ k" by simp
    ultimately have "p \<le> x" "x < p + 2 ^ k" by linarith+
    then show ?thesis by simp
  qed
  ultimately show ?thesis by blast
qed

lemma free_list_add_defined: "k < length (free_lists s) \<Longrightarrow> \<exists>s'. free_list_add b k s = Some s'"
  by (simp add: free_list_add_def Let_def)

text \<open>Eight pages with the bitmap in the first and the others handed out.\<close>

definition demo_pmm :: pmm where
  "demo_pmm = \<lparr>free_lists = replicate (MAX_ORDER + 1) \<lparr>pl_head = None, pl_count = 0\<rparr>, bitmap = [1],
     mem_start = 0x1000000, mem_end = 0x1008000, total_pages = 8, free_pages = 0, pmm_initialized = True,
     next_free_page = 8, page_blocks = (\<lambda>_. \<lparr>pb_next = None, pb_prev = None, pb_order = 0, pb_flags = 0\<rparr>)\<rparr>"

lemma demo_pmm_free:
  "addr_to_page demo_pmm 0x1002000 = 2" "find_buddy 2 0 = 3"
  "\<exists>s'. pmm_free_page (Some 0x1002000) demo_pmm = Some s'"
proof -
  show a: "addr_to_page demo_pmm 0x1002000 = 2" by (simp add: demo_pmm_def addr_to_page_def sub64_def)
  show b: "find_buddy 2 0 = 3" by (simp add: find_buddy_def)
  have m: "find_buddy 2 1 = 0" by (simp add: find_buddy_def)
  let ?s = "demo_pmm\<lparr>free_pages := 1\<rparr>"
  have c: "bitmap_clear 2 demo_pmm = Some demo_pmm" by (simp add: bitmap_clear_def demo_pmm_def)
  have o: "page_to_addr ?s 3 = 0x1003000" by (simp add: page_to_addr_def demo_pmm_def add64_def)
  obtain s1 where r: "free_list_remove 0x1003000 0 ?s = Some s1" "bitmap s1 = [1]" "total_pages s1 = 8"
    "length (free_lists s1) = 19"
    by (simp add: free_list_remove_def demo_pmm_def upd_list_def Let_def)
  have "merge_loop 2 1 s1 = Some (2, 1, s1)"
    using m r by (subst merge_loop.simps) (simp add: bitmap_test_def)
  then have "merge_loop 2 0 ?s = Some (2, 1, s1)"
    using merge_loop_step [of 0 2 ?s] b o r(1) by (simp add: bitmap_test_def demo_pmm_def)
  moreover have "pmm_initialized demo_pmm" "free_pages demo_pmm = 0" "add64 2 0 = 2" "add64 0 1 = 1"
    by (simp_all add: demo_pmm_def add64_def)
  ultimately have "pmm_free_page (Some 0x1002000) demo_pmm = free_list_add (page_to_addr s1 2) 1 s1"
    unfolding pmm_free_page_eq [OF \<open>pmm_initialized demo_pmm\<close>] a by (simp add: c merge_blocks_def)
  then show "\<exists>s'. pmm_free_page (Some 0x1002000) demo_pmm = Some s'"
    using free_list_add_defined [of 1 s1] r(4) by simp
qed

theorem pmm_freed_never_reused_witness:
  "\<exists>s s'. pmm_free_page (Some 0x1002000) s = Some s' \<and> pmm_alloc_pages 1 s' = (None, s') \<and>
    pmm_available_pages s' = pmm_available_pages s + 1"
proof -
  obtain s' where s': "pmm_free_page (Some 0x1002000) demo_pmm = Some s'" using demo_pmm_free(3) by blast
  then have e: "each (\<lambda>a. pmm_free_page (Some a)) [0x1002000] demo_pmm = Some s'" by simp
  have d: "pmm_initialized demo_pmm" "next_free_page demo_pmm = total_pages demo_pmm" "(0 :: nat) < 1"
    "total_pages demo_pmm + 1 < SIZE_MOD" "free_pages demo_pmm + length [0x1002000 :: nat] < SIZE_MOD"
    by (simp_all add: demo_pmm_def)
  from pmm_freed_never_reused [OF d(1-4) e d(5)] s' show ?thesis by auto
qed

theorem pmm_free_merges_live_buddy_witness:
  "\<exists>s s' p k. pmm_free_page (Some 0x1002000) s = Some s' \<and> next_free_page s = 8 \<and>
    pl_head (free_lists s' ! k) = Some (page_to_addr s p) \<and> 3 \<in> {p..<p + 2 ^ k}"
proof -
  obtain s' where s': "pmm_free_page (Some 0x1002000) demo_pmm = Some s'" using demo_pmm_free(3) by blast
  have d: "pmm_initialized demo_pmm" "(2 :: nat) < 2 ^ 62" "3 < total_pages demo_pmm"
    "bitmap_test 3 demo_pmm = Some False" "pb_order (page_blocks demo_pmm (page_to_addr demo_pmm 3)) = 0"
    "next_free_page demo_pmm = 8"
    by (simp_all add: demo_pmm_def bitmap_test_def)
  from pmm_free_merges_live_buddy [OF d(1) s'] d(2-6) s' show ?thesis
    unfolding demo_pmm_free(1,2) by blast
qed

end
