(* ===== verification/Heap.thy ===== *)
theory Heap
  imports Pmm
begin

text \<open>
  The heap of \<^verbatim>\<open>src/kernel/mm/heap.c\<close>: first fit over a doubly linked list of blocks that tile
  one region taken from the page allocator. \<open>blocks\<close> is the header at an address and \<open>stored\<close> the
  pointer that \<open>heap_alloc_aligned\<close> leaves in front of an aligned block; both read as memory, so
  an address with no header has whatever lies there. Sizes and addresses wrap at \<open>2 ^ 64\<close>. The
  diagnostics printed by the code are left out.
\<close>

section \<open>State\<close>

abbreviation (input) MIN_HEAP_SIZE :: nat where "MIN_HEAP_SIZE \<equiv> 67108864"
abbreviation (input) MAX_HEAP_SIZE :: nat where "MAX_HEAP_SIZE \<equiv> 1073741824"
abbreviation (input) HEAP_PERCENT :: nat where "HEAP_PERCENT \<equiv> 70"
abbreviation (input) MIN_BLOCK_SIZE :: nat where "MIN_BLOCK_SIZE \<equiv> 64"
abbreviation (input) ALIGNMENT :: nat where "ALIGNMENT \<equiv> 16"

text \<open>\<open>sizeof(block_header_t)\<close> and \<open>sizeof(void*)\<close>.\<close>

abbreviation (input) HEADER :: nat where "HEADER \<equiv> 32"
abbreviation (input) POINTER :: nat where "POINTER \<equiv> 8"

record block_header =
  bsize :: nat
  bused :: bool
  bnext :: "nat option"
  bprev :: "nat option"

record heap =
  h_start :: nat
  h_end :: nat
  h_free_list :: "nat option"
  h_total_size :: nat
  h_used_size :: nat
  h_initialized :: bool
  blocks :: "nat \<Rightarrow> block_header"
  stored :: "nat \<Rightarrow> nat"
  h_pmm :: pmm

definition upd_block :: "nat \<Rightarrow> (block_header \<Rightarrow> block_header) \<Rightarrow> heap \<Rightarrow> heap" where
  "upd_block b f h = h\<lparr>blocks := (blocks h)(b := f (blocks h b))\<rparr>"

section \<open>Initialisation\<close>

definition calculate_heap_size :: "pmm \<Rightarrow> nat" where
  "calculate_heap_size p =
     (let available = pmm_available_memory p;
          heap_size = (available * HEAP_PERCENT mod SIZE_MOD) div 100;
          heap_size = (if heap_size < MIN_HEAP_SIZE then MIN_HEAP_SIZE else heap_size);
          heap_size = (if MAX_HEAP_SIZE < heap_size then MAX_HEAP_SIZE else heap_size)
      in page_align_down heap_size)"

definition heap_setup :: "nat \<Rightarrow> nat \<Rightarrow> heap \<Rightarrow> heap" where
  "heap_setup mem heap_size h =
     (upd_block mem (\<lambda>b. \<lparr>bsize = sub64 heap_size HEADER, bused = False, bnext = None, bprev = None\<rparr>) h)
       \<lparr>h_start := mem, h_end := add64 mem heap_size, h_total_size := heap_size, h_used_size := HEADER,
        h_free_list := Some mem, h_initialized := True\<rparr>"

definition heap_init :: "heap \<Rightarrow> heap" where
  "heap_init h =
     (let heap_size = calculate_heap_size (h_pmm h)
      in (case pmm_alloc_pages (heap_size div PAGE_SIZE) (h_pmm h) of
            (Some mem, p) \<Rightarrow> heap_setup mem heap_size (h\<lparr>h_pmm := p\<rparr>)
          | (None, p) \<Rightarrow>
              (case pmm_alloc_pages (MIN_HEAP_SIZE div PAGE_SIZE) p of
                 (Some mem, p') \<Rightarrow> heap_setup mem MIN_HEAP_SIZE (h\<lparr>h_pmm := p'\<rparr>)
               | (None, p') \<Rightarrow> h\<lparr>h_pmm := p'\<rparr>)))"

section \<open>Allocation\<close>

definition align_size :: "nat \<Rightarrow> nat" where
  "align_size n = add64 n (ALIGNMENT - 1) div ALIGNMENT * ALIGNMENT"

definition split_block :: "nat \<Rightarrow> nat \<Rightarrow> heap \<Rightarrow> heap" where
  "split_block block n h =
     (let b = blocks h block; total_size = add64 (bsize b) HEADER
      in if add64 (add64 n HEADER) MIN_BLOCK_SIZE \<le> total_size
         then
           let new_block = add64 (add64 block HEADER) n;
               new_size = sub64 (sub64 (sub64 total_size n) HEADER) HEADER;
               h1 = upd_block new_block
                      (\<lambda>_. \<lparr>bsize = new_size, bused = False, bnext = bnext b, bprev = Some block\<rparr>) h;
               h2 = (case bnext (blocks h1 block) of
                       None \<Rightarrow> h1
                     | Some x \<Rightarrow> upd_block x (\<lambda>c. c\<lparr>bprev := Some new_block\<rparr>) h1)
           in upd_block block (\<lambda>c. c\<lparr>bnext := Some new_block, bsize := n\<rparr>) h2
         else h)"

text \<open>The search; the result \<open>None\<close> would be a list that does not end.\<close>

partial_function (option) first_fit :: "heap \<Rightarrow> nat \<Rightarrow> nat option \<Rightarrow> nat option option" where
  "first_fit h n current =
     (case current of
        None \<Rightarrow> Some None
      | Some b \<Rightarrow>
          if \<not> bused (blocks h b) \<and> n \<le> bsize (blocks h b) then Some (Some b)
          else first_fit h n (bnext (blocks h b)))"

definition heap_ready :: "heap \<Rightarrow> heap" where
  "heap_ready h = (if h_initialized h then h else heap_init h)"

definition heap_alloc :: "nat \<Rightarrow> heap \<Rightarrow> (nat option \<times> heap) option" where
  "heap_alloc n0 h0 =
     (let h = heap_ready h0
      in if n0 = 0 then Some (None, h)
         else
           let n = align_size n0
           in do {
             found \<leftarrow> first_fit h n (h_free_list h);
             (case found of
                None \<Rightarrow> Some (None, h)
              | Some b \<Rightarrow>
                  let h1 = upd_block b (\<lambda>c. c\<lparr>bused := True\<rparr>) (split_block b n h)
                  in Some (Some (add64 b HEADER),
                       h1\<lparr>h_used_size := add64 (h_used_size h1) (add64 (bsize (blocks h1 b)) HEADER)\<rparr>))
           })"

section \<open>Release\<close>

definition coalesce_next :: "nat \<Rightarrow> heap \<Rightarrow> heap" where
  "coalesce_next b h =
     (case bnext (blocks h b) of
        None \<Rightarrow> h
      | Some x \<Rightarrow>
          if bused (blocks h x) then h
          else
            let h1 = upd_block b (\<lambda>c. c\<lparr>bsize := add64 (bsize c) (add64 (bsize (blocks h x)) HEADER),
                                    bnext := bnext (blocks h x)\<rparr>) h
            in (case bnext (blocks h1 b) of
                  None \<Rightarrow> h1
                | Some y \<Rightarrow> upd_block y (\<lambda>c. c\<lparr>bprev := Some b\<rparr>) h1))"

definition coalesce_prev :: "nat \<Rightarrow> heap \<Rightarrow> heap" where
  "coalesce_prev b h =
     (case bprev (blocks h b) of
        None \<Rightarrow> h
      | Some p \<Rightarrow>
          if bused (blocks h p) then h
          else
            let h1 = upd_block p (\<lambda>c. c\<lparr>bsize := add64 (bsize c) (add64 (bsize (blocks h b)) HEADER),
                                    bnext := bnext (blocks h b)\<rparr>) h
            in (case bnext (blocks h1 b) of
                  None \<Rightarrow> h1
                | Some y \<Rightarrow> upd_block y (\<lambda>c. c\<lparr>bprev := bprev (blocks h1 b)\<rparr>) h1))"

text \<open>The pointer is 0 when it is NULL.\<close>

definition heap_free :: "nat \<Rightarrow> heap \<Rightarrow> heap" where
  "heap_free ptr h =
     (if ptr = 0 then h
      else
        let b = sub64 ptr HEADER
        in if b < h_start h \<or> h_end h \<le> b then h
           else
             let h1 = upd_block b (\<lambda>c. c\<lparr>bused := False\<rparr>) h;
                 h2 = h1\<lparr>h_used_size := sub64 (h_used_size h1) (add64 (bsize (blocks h1 b)) HEADER)\<rparr>
             in coalesce_prev b (coalesce_next b h2))"

section \<open>Aligned blocks\<close>

definition heap_alloc_aligned :: "nat \<Rightarrow> nat \<Rightarrow> heap \<Rightarrow> (nat option \<times> heap) option" where
  "heap_alloc_aligned n alignment0 h0 =
     (let h = heap_ready h0; alignment = (if alignment0 = 0 then ALIGNMENT else alignment0)
      in if n = 0 then Some (None, h)
         else if alignment AND (alignment - 1) \<noteq> 0 then Some (None, h)
         else if sub64 (sub64 (SIZE_MOD - 1) alignment) POINTER < n then Some (None, h)
         else do {
           (raw, h1) \<leftarrow> heap_alloc (add64 (add64 n alignment) POINTER) h;
           (case raw of
              None \<Rightarrow> Some (None, h1)
            | Some r \<Rightarrow>
                let aligned = sub64 (add64 (add64 r POINTER) alignment) 1 div alignment * alignment
                in Some (Some aligned, h1\<lparr>stored := (stored h1)(sub64 aligned POINTER := r)\<rparr>))
         })"

definition heap_free_aligned :: "nat \<Rightarrow> heap \<Rightarrow> heap" where
  "heap_free_aligned ptr h =
     (if ptr = 0 then h
      else if ptr < add64 (h_start h) POINTER \<or> h_end h \<le> ptr then h
      else
        let raw = stored h (sub64 ptr POINTER)
        in if raw < h_start h \<or> h_end h \<le> raw then h else heap_free raw h)"

end
