(* ===== verification/HeapFlow.thy ===== *)
theory HeapFlow
  imports Heap
begin

text \<open>
  What the heap of \<open>Heap\<close> guarantees. The abstract heap is the list of its blocks, each a size and
  whether it is used; the addresses follow from the sizes since the blocks tile the heap.
\<close>

section \<open>Lists of blocks\<close>

fun segs ::
    "(nat \<Rightarrow> block_header) \<Rightarrow> nat option \<Rightarrow> nat option \<Rightarrow> nat \<Rightarrow> (nat \<times> bool) list \<Rightarrow>
     nat option \<Rightarrow> nat option \<Rightarrow> nat \<Rightarrow> bool" where
  "segs B p q a [] p' q' a' \<longleftrightarrow> p' = p \<and> q' = q \<and> a' = a"
| "segs B p q a ((n, u) # L) p' q' a' \<longleftrightarrow>
     q = Some a \<and> bsize (B a) = n \<and> bused (B a) = u \<and> bprev (B a) = p \<and>
     segs B (Some a) (bnext (B a)) (a + HEADER + n) L p' q' a'"

definition span :: "(nat \<times> bool) list \<Rightarrow> nat" where
  "span L = sum_list (map (\<lambda>(n, u). HEADER + n) L)"

lemma span_simps [simp]:
  "span [] = 0" "span ((n, u) # L) = HEADER + n + span L" "span (L @ M) = span L + span M"
  by (simp_all add: span_def)

lemma segs_append:
  "segs B p q a (L @ M) p' q' a' \<longleftrightarrow>
     (\<exists>p1 q1. segs B p q a L p1 q1 (a + span L) \<and> segs B p1 q1 (a + span L) M p' q' a')"
proof (induction L arbitrary: p q a)
  case (Cons x L)
  obtain n u where "x = (n, u)" by (cases x)
  then show ?case using Cons.IH by (auto simp: algebra_simps)
qed auto

lemma segs_end: "segs B p q a L p' q' a' \<Longrightarrow> a' = a + span L"
proof (induction L arbitrary: p q a)
  case (Cons x L)
  then show ?case by (cases x) (auto dest: Cons.IH)
qed simp

lemma segs_cong:
  "(\<And>x. a \<le> x \<Longrightarrow> x < a + span L \<Longrightarrow> B x = B' x) \<Longrightarrow> segs B p q a L p' q' a' = segs B' p q a L p' q' a'"
proof (induction L arbitrary: p q a)
  case (Cons x L)
  obtain n u where x: "x = (n, u)" by (cases x)
  have "B a = B' a" by (rule Cons.prems) (simp_all add: x)
  moreover have "segs B p1 q1 (a + HEADER + n) L p' q' a' = segs B' p1 q1 (a + HEADER + n) L p' q' a'" for p1 q1
    by (rule Cons.IH, rule Cons.prems) (simp_all add: x)
  ultimately show ?case by (simp add: x)
qed simp

lemma segs_upd_other:
  "b < a \<or> a + span L \<le> b \<Longrightarrow> segs (B(b := v)) p q a L p' q' a' = segs B p q a L p' q' a'"
  by (rule segs_cong) auto

text \<open>Changing the back link of the first block.\<close>

definition relink :: "(nat \<Rightarrow> block_header) \<Rightarrow> nat option \<Rightarrow> nat option \<Rightarrow> nat \<Rightarrow> block_header" where
  "relink B q p = (case q of None \<Rightarrow> B | Some x \<Rightarrow> B(x := (B x)\<lparr>bprev := p\<rparr>))"

lemma segs_relink:
  assumes "segs B p q a L p' None a'"
  shows "\<exists>p''. segs (relink B q p2) p2 q a L p'' None a'"
proof (cases L)
  case Nil
  then show ?thesis using assms by (simp add: relink_def)
next
  case (Cons x M)
  obtain n u where x: "x = (n, u)" by (cases x)
  have "segs B (Some a) (bnext (B a)) (a + HEADER + n) M p' None a'" "q = Some a"
    using assms by (simp_all add: Cons x)
  then show ?thesis
    using assms by (auto simp: Cons x relink_def segs_upd_other)
qed

lemma relink_other: "q \<noteq> Some x \<Longrightarrow> relink B q p x = B x"
  by (auto simp: relink_def split: option.split)

text \<open>The first block of a list lies at its start address.\<close>

lemma segs_first: "segs B p (Some x) a L p' None a' \<Longrightarrow> x = a \<and> L \<noteq> []"
  by (cases L) auto

lemma segs_first_cases: "segs B p q a L p' None a' \<Longrightarrow> q = (if L = [] then None else Some a)"
  by (cases L) auto

section \<open>First fit\<close>

definition fits :: "nat \<Rightarrow> nat \<times> bool \<Rightarrow> bool" where
  "fits n x \<longleftrightarrow> \<not> snd x \<and> n \<le> fst x"

lemma first_fit_segs:
  assumes "segs (blocks h) p q a L p' None a'"
  shows "first_fit h n q = Some (if \<exists>x \<in> set L. fits n x
      then Some (a + span (takeWhile (\<lambda>x. \<not> fits n x) L)) else None)"
  using assms
proof (induction L arbitrary: p q a)
  case Nil
  then show ?case by (simp add: first_fit.simps)
next
  case (Cons x L)
  obtain m u where x: "x = (m, u)" by (cases x)
  with Cons.prems have q: "q = Some a" "bsize (blocks h a) = m" "bused (blocks h a) = u"
    and r: "segs (blocks h) (Some a) (bnext (blocks h a)) (a + HEADER + m) L p' None a'" by simp_all
  show ?case
  proof (cases "fits n x")
    case True
    then show ?thesis using q by (simp add: first_fit.simps [of h n "Some a"] x fits_def)
  next
    case False
    then show ?thesis
      using q Cons.IH [OF r] by (simp add: first_fit.simps [of h n "Some a"] x fits_def)
  qed
qed

section \<open>Taking a block\<close>

text \<open>What taking \<open>n\<close> bytes of a free block of \<open>m\<close> leaves in its place.\<close>

definition cut_block :: "nat \<Rightarrow> nat \<Rightarrow> (nat \<times> bool) list" where
  "cut_block n m = (if n + MIN_BLOCK_SIZE \<le> m then [(n, True), (m - n - HEADER, False)] else [(m, True)])"

lemma span_cut: "n \<le> m \<Longrightarrow> span (cut_block n m) = HEADER + m"
  by (simp add: cut_block_def)

definition take_block :: "nat \<Rightarrow> nat \<Rightarrow> heap \<Rightarrow> heap" where
  "take_block b n h = upd_block b (\<lambda>c. c\<lparr>bused := True\<rparr>) (split_block b n h)"

text \<open>A list of blocks seen from one of them.\<close>

lemma segs_at:
  assumes "segs B p q a (L1 @ (m, u) # L2) p' None a'"
  obtains p1 where "segs B p q a L1 p1 (Some (a + span L1)) (a + span L1)" "bsize (B (a + span L1)) = m"
    "bused (B (a + span L1)) = u" "bprev (B (a + span L1)) = p1"
    "segs B (Some (a + span L1)) (bnext (B (a + span L1))) (a + span L1 + HEADER + m) L2 p' None a'"
  using assms unfolding segs_append by auto

lemma segs_put:
  assumes "segs B p q a L1 p1 (Some b) b" "segs B p1 (Some b) b M p' None a'"
  shows "segs B p q a (L1 @ M) p' None a'"
  using assms segs_end [OF assms(1)] unfolding segs_append by blast

text \<open>Blocks outside a set of addresses are left alone.\<close>

lemma segs_outside:
  assumes "segs B p q a L p' q' a'" "\<And>x. a \<le> x \<Longrightarrow> x < a + span L \<Longrightarrow> B' x = B x"
  shows "segs B' p q a L p' q' a'"
  using assms segs_cong [of a L B B'] by auto

lemma take_block_cut:
  assumes "segs (blocks h) None q a (L1 @ (m, False) # L2) p' None e" "e < SIZE_MOD" "n \<le> m"
    and b: "b = a + span L1" and n: "n + MIN_BLOCK_SIZE \<le> m"
  shows "\<exists>p''. segs (blocks (take_block b n h)) None q a (L1 @ [(n, True), (m - n - HEADER, False)] @ L2) p'' None e"
proof -
  let ?B = "blocks h" let ?new = "b + HEADER + n"
  obtain p1 where s: "segs ?B None q a L1 p1 (Some b) b" "bsize (?B b) = m" "bused (?B b) = False" "bprev (?B b) = p1"
    "segs ?B (Some b) (bnext (?B b)) (b + HEADER + m) L2 p' None e"
    using segs_at [OF assms(1)] unfolding b by metis
  have e: "e = b + HEADER + m + span L2" using segs_end [OF s(5)] by simp
  then have w: "add64 m HEADER = m + HEADER" "add64 (add64 n HEADER) MIN_BLOCK_SIZE = n + HEADER + MIN_BLOCK_SIZE"
    "add64 (add64 b HEADER) n = ?new" "sub64 (sub64 (sub64 (m + HEADER) n) HEADER) HEADER = m - n - HEADER"
    using n assms(2) by (simp_all add: wrap_simps)
  let ?B1 = "?B(?new := \<lparr>bsize = m - n - HEADER, bused = False, bnext = bnext (?B b), bprev = Some b\<rparr>)"
  let ?B2 = "relink ?B1 (bnext (?B b)) (Some ?new)"
  let ?B3 = "?B2(b := (?B2 b)\<lparr>bnext := Some ?new, bsize := n, bused := True\<rparr>)"
  have nb: "?new \<noteq> b" by simp
  have x: "bnext (?B b) = (if L2 = [] then None else Some (b + HEADER + m))" by (rule segs_first_cases [OF s(5)])
  have B3: "blocks (take_block b n h) = ?B3"
    using n nb by (simp add: take_block_def split_block_def Let_def s(2) w upd_block_def relink_def split: option.split)
  have "segs ?B1 (Some b) (bnext (?B b)) (b + HEADER + m) L2 p' None e"
    by (rule segs_outside [OF s(5)]) (use n in auto)
  then obtain p'' where "segs ?B2 (Some ?new) (bnext (?B b)) (b + HEADER + m) L2 p'' None e"
    using segs_relink by blast
  then have r: "segs ?B3 (Some ?new) (bnext (?B b)) (b + HEADER + m) L2 p'' None e"
    by (rule segs_outside) auto
  have rb: "?B2 b = ?B b" "?B2 ?new = ?B1 ?new"
    using x nb n by (auto simp: relink_other)
  have adr: "b + HEADER + n + HEADER + (m - n - HEADER) = b + HEADER + m" using n by simp
  note r' = r [folded adr]
  have "segs ?B3 p1 (Some b) b ([(n, True), (m - n - HEADER, False)] @ L2) p'' None e"
    using r' s(4) rb nb by simp
  moreover have "segs ?B3 None q a L1 p1 (Some b) b"
    by (rule segs_outside [OF s(1)]) (use x b in \<open>auto simp: relink_def split: option.split\<close>)
  ultimately show ?thesis unfolding B3 using segs_put by blast
qed

lemma take_block_whole:
  assumes "segs (blocks h) None q a (L1 @ (m, False) # L2) p' None e" "e + MIN_BLOCK_SIZE < SIZE_MOD" "n \<le> m"
    and b: "b = a + span L1" and n: "\<not> n + MIN_BLOCK_SIZE \<le> m"
  shows "segs (blocks (take_block b n h)) None q a (L1 @ [(m, True)] @ L2) p' None e"
proof -
  let ?B = "blocks h" let ?B3 = "?B(b := (?B b)\<lparr>bused := True\<rparr>)"
  obtain p1 where s: "segs ?B None q a L1 p1 (Some b) b" "bsize (?B b) = m" "bused (?B b) = False" "bprev (?B b) = p1"
    "segs ?B (Some b) (bnext (?B b)) (b + HEADER + m) L2 p' None e"
    using segs_at [OF assms(1)] unfolding b by metis
  have e: "e = b + HEADER + m + span L2" using segs_end [OF s(5)] by simp
  then have "add64 m HEADER = m + HEADER" "add64 (add64 n HEADER) MIN_BLOCK_SIZE = n + HEADER + MIN_BLOCK_SIZE"
    using assms(2,3) by (simp_all add: wrap_simps)
  then have B3: "blocks (take_block b n h) = ?B3"
    using n by (simp add: take_block_def split_block_def Let_def s(2) upd_block_def)
  have "segs ?B3 (Some b) (bnext (?B b)) (b + HEADER + m) L2 p' None e"
    by (rule segs_outside [OF s(5)]) auto
  then have "segs ?B3 p1 (Some b) b ([(m, True)] @ L2) p' None e" using s by simp
  moreover have "segs ?B3 None q a L1 p1 (Some b) b"
    by (rule segs_outside [OF s(1)]) (use b in auto)
  ultimately show ?thesis unfolding B3 using segs_put by blast
qed

lemma take_block_segs:
  assumes "segs (blocks h) None q a (L1 @ (m, False) # L2) p' None e" "e + MIN_BLOCK_SIZE < SIZE_MOD" "n \<le> m" "b = a + span L1"
  shows "\<exists>p''. segs (blocks (take_block b n h)) None q a (L1 @ cut_block n m @ L2) p'' None e"
  using take_block_cut [OF assms(1) _ assms(3,4)] take_block_whole [OF assms] assms(2) by (auto simp: cut_block_def)

lemma take_block_fields:
  "h_start (take_block b n h) = h_start h" "h_end (take_block b n h) = h_end h"
  "h_free_list (take_block b n h) = h_free_list h" "h_used_size (take_block b n h) = h_used_size h"
  "h_initialized (take_block b n h) = h_initialized h" "h_total_size (take_block b n h) = h_total_size h"
  "h_pmm (take_block b n h) = h_pmm h" "stored (take_block b n h) = stored h"
  by (simp_all add: take_block_def split_block_def upd_block_def Let_def split: option.split)

text \<open>The size of the block taken.\<close>

lemma segs_size_at:
  "segs B p q a (L1 @ (m, u) # L2) p' None e \<Longrightarrow> bsize (B (a + span L1)) = m"
  by (erule segs_at) simp

section \<open>The heap and its blocks\<close>

definition used_bytes :: "(nat \<times> bool) list \<Rightarrow> nat" where
  "used_bytes L = sum_list (map (\<lambda>(n, u). if u then HEADER + n else 0) L)"

lemma used_bytes_simps [simp]:
  "used_bytes [] = 0" "used_bytes ((n, u) # L) = (if u then HEADER + n else 0) + used_bytes L"
  "used_bytes (L @ M) = used_bytes L + used_bytes M"
  by (simp_all add: used_bytes_def)

lemma used_bytes_span: "used_bytes L \<le> span L"
  by (induction L) auto

text \<open>No two neighbours are both free.\<close>

fun coalesced :: "(nat \<times> bool) list \<Rightarrow> bool" where
  "coalesced (x # y # L) \<longleftrightarrow> (snd x \<or> snd y) \<and> coalesced (y # L)"
| "coalesced L \<longleftrightarrow> True"

lemma coalesced_Cons: "coalesced (x # L) \<longleftrightarrow> coalesced L \<and> (L \<noteq> [] \<longrightarrow> snd x \<or> snd (hd L))"
  by (cases L) auto

lemma coalesced_append:
  "coalesced (L @ M) \<longleftrightarrow> coalesced L \<and> coalesced M \<and> (L \<noteq> [] \<and> M \<noteq> [] \<longrightarrow> snd (last L) \<or> snd (hd M))"
  by (induction L) (auto simp: coalesced_Cons hd_append)

definition heap_ok :: "heap \<Rightarrow> (nat \<times> bool) list \<Rightarrow> bool" where
  "heap_ok h L \<longleftrightarrow> h_initialized h \<and> h_start h mod ALIGNMENT = 0 \<and> HEADER \<le> h_start h \<and>
     h_end h + MIN_BLOCK_SIZE < SIZE_MOD \<and>
     (\<exists>p'. segs (blocks h) None (h_free_list h) (h_start h) L p' None (h_end h)) \<and> L \<noteq> [] \<and>
     (\<forall>x \<in> set L. fst x mod ALIGNMENT = 0) \<and> coalesced L \<and> h_used_size h = HEADER + used_bytes L"

text \<open>The pointers to the used blocks.\<close>

fun live :: "nat \<Rightarrow> (nat \<times> bool) list \<Rightarrow> (nat \<times> nat) list" where
  "live a [] = []"
| "live a ((n, u) # L) = (if u then [(a + HEADER, n)] else []) @ live (a + HEADER + n) L"

lemma live_append: "live a (L @ M) = live a L @ live (a + span L) M"
  by (induction a L rule: live.induct) (auto simp: algebra_simps)

lemma live_cut: "n \<le> m \<Longrightarrow> live a (cut_block n m) = [(a + HEADER, fst (hd (cut_block n m)))]"
  by (simp add: cut_block_def)

lemma cut_ok: "n \<le> m \<Longrightarrow> n mod ALIGNMENT = 0 \<Longrightarrow> m mod ALIGNMENT = 0 \<Longrightarrow> x \<in> set (cut_block n m) \<Longrightarrow> fst x mod ALIGNMENT = 0"
  by (auto simp: cut_block_def mod_eq_0_iff_dvd dvd_diff_nat split: if_splits)

section \<open>Allocation refines first fit on the list\<close>

definition alloc_list :: "nat \<Rightarrow> (nat \<times> bool) list \<Rightarrow> (nat \<times> (nat \<times> bool) list) option" where
  "alloc_list n L =
     (let L1 = takeWhile (\<lambda>x. \<not> fits n x) L
      in (case dropWhile (\<lambda>x. \<not> fits n x) L of
            [] \<Rightarrow> None
          | x # L2 \<Rightarrow> Some (span L1 + HEADER, L1 @ cut_block n (fst x) @ L2)))"

lemma alloc_list_None: "alloc_list n L = None \<longleftrightarrow> (\<forall>x \<in> set L. \<not> fits n x)"
proof (cases "dropWhile (\<lambda>x. \<not> fits n x) L")
  case Nil
  then have "alloc_list n L = None" unfolding alloc_list_def Let_def by (simp only: list.case)
  then show ?thesis using Nil unfolding dropWhile_eq_Nil_conv by blast
next
  case (Cons x xs)
  then have "alloc_list n L \<noteq> None" "\<not> (\<forall>x \<in> set L. \<not> fits n x)"
    unfolding alloc_list_def Let_def by (simp_all flip: dropWhile_eq_Nil_conv)
  then show ?thesis by blast
qed

lemma alloc_list_SomeE:
  assumes "alloc_list n L = Some (off, L')"
  obtains L1 m L2 where "L = L1 @ (m, False) # L2" "takeWhile (\<lambda>x. \<not> fits n x) L = L1" "n \<le> m"
    "off = span L1 + HEADER" "L' = L1 @ cut_block n m @ L2" "\<exists>x \<in> set L. fits n x"
proof -
  let ?P = "\<lambda>x. \<not> fits n x"
  obtain x L2 where d: "dropWhile ?P L = x # L2" "off = span (takeWhile ?P L) + HEADER"
    "L' = takeWhile ?P L @ cut_block n (fst x) @ L2"
    using assms by (auto simp: alloc_list_def Let_def split: list.splits)
  have "fits n x" using d(1) by (simp add: dropWhile_eq_Cons_conv)
  then have f: "x = (fst x, False)" "n \<le> fst x" by (auto simp: fits_def intro: prod_eqI)
  have "takeWhile ?P L @ dropWhile ?P L = L" by simp
  then have L: "L = takeWhile ?P L @ (fst x, False) # L2" unfolding d(1) using f(1) by simp
  moreover have "x \<in> set L" using d(1) set_dropWhileD [of x ?P L] by simp
  ultimately show ?thesis using that [OF L refl f(2) d(2,3)] \<open>fits n x\<close> by blast
qed

lemma align_size_exact: "n + 15 < SIZE_MOD \<Longrightarrow> align_size n = (n + 15) div 16 * 16"
  by (simp add: align_size_def wrap_simps)

lemma align_size_props:
  assumes "n + 15 < SIZE_MOD"
  shows "n \<le> align_size n" "align_size n mod ALIGNMENT = 0" "0 < n \<Longrightarrow> 0 < align_size n"
  unfolding align_size_exact [OF assms] by simp_all

lemma coalesced_cut:
  assumes "coalesced (L1 @ (m, False) # L2)"
  shows "coalesced (L1 @ cut_block n m @ L2)"
  using assms by (cases L2) (auto simp: coalesced_append cut_block_def)

lemma used_bytes_cut: "used_bytes (cut_block n m) = HEADER + fst (hd (cut_block n m))"
  by (simp add: cut_block_def)

lemma heap_ok_segs:
  assumes "heap_ok h L"
  obtains p' where "segs (blocks h) None (h_free_list h) (h_start h) L p' None (h_end h)"
    "h_end h = h_start h + span L" "h_end h + MIN_BLOCK_SIZE < SIZE_MOD" "HEADER \<le> h_start h"
    "h_used_size h = HEADER + used_bytes L"
  using assms segs_end by (fastforce simp: heap_ok_def)

text \<open>The state after a block is taken and counted.\<close>

definition taken :: "nat \<Rightarrow> nat \<Rightarrow> heap \<Rightarrow> heap" where
  "taken b n h = (let h1 = take_block b n h
     in h1\<lparr>h_used_size := add64 (h_used_size h1) (add64 (bsize (blocks h1 b)) HEADER)\<rparr>)"

lemma taken_fields [simp]:
  "h_start (taken b n h) = h_start h" "h_end (taken b n h) = h_end h"
  "stored (taken b n h) = stored h"
  by (simp_all add: taken_def Let_def take_block_fields)

lemma taken_ok:
  assumes "heap_ok h (L1 @ (m, False) # L2)" "n \<le> m" "n mod ALIGNMENT = 0"
  shows "heap_ok (taken (h_start h + span L1) n h) (L1 @ cut_block n m @ L2)"
proof -
  let ?b = "h_start h + span L1" let ?k = "fst (hd (cut_block n m))" let ?L = "L1 @ cut_block n m @ L2"
  let ?h1 = "take_block ?b n h"
  obtain p' where s: "segs (blocks h) None (h_free_list h) (h_start h) (L1 @ (m, False) # L2) p' None (h_end h)"
    and e: "h_end h = h_start h + span (L1 @ (m, False) # L2)" "h_end h + MIN_BLOCK_SIZE < SIZE_MOD"
    and u: "HEADER \<le> h_start h" "h_used_size h = HEADER + used_bytes (L1 @ (m, False) # L2)"
    by (rule heap_ok_segs [OF assms(1)])
  obtain p'' where s1: "segs (blocks ?h1) None (h_free_list h) (h_start h) ?L p'' None (h_end h)"
    using take_block_segs [OF s e(2) assms(2) refl] by blast
  have cu: "cut_block n m = (?k, True) # tl (cut_block n m)" by (simp add: cut_block_def)
  have "segs (blocks ?h1) None (h_free_list h) (h_start h) (L1 @ (?k, True) # (tl (cut_block n m) @ L2)) p'' None (h_end h)"
    using s1 cu by (metis append_Cons)
  then have k: "bsize (blocks ?h1 ?b) = ?k" by (rule segs_size_at)
  have t: "used_bytes ?L = used_bytes (L1 @ (m, False) # L2) + (HEADER + ?k)" by (simp add: used_bytes_cut)
  have "used_bytes ?L \<le> span ?L" by (rule used_bytes_span)
  then have "h_used_size (taken ?b n h) = HEADER + used_bytes ?L"
    using u e segs_end [OF s1] t unfolding taken_def Let_def by (simp add: k take_block_fields wrap_simps)
  moreover have "\<forall>x \<in> set ?L. fst x mod ALIGNMENT = 0"
    using assms(1) cut_ok [OF assms(2,3)] by (auto simp: heap_ok_def)
  moreover have "coalesced ?L" using assms(1) coalesced_cut by (simp add: heap_ok_def)
  ultimately show ?thesis
    using assms(1) s1 by (auto simp: heap_ok_def taken_def Let_def take_block_fields)
qed

lemma heap_alloc_refines:
  assumes "heap_ok h L" "0 < n" "n + 15 < SIZE_MOD"
  shows "case alloc_list (align_size n) L of
      None \<Rightarrow> heap_alloc n h = Some (None, h)
    | Some (off, L') \<Rightarrow> \<exists>h'. heap_alloc n h = Some (Some (h_start h + off), h') \<and> heap_ok h' L' \<and>
        h_start h' = h_start h \<and> h_end h' = h_end h \<and> stored h' = stored h"
proof -
  let ?n = "align_size n"
  obtain p' where s: "segs (blocks h) None (h_free_list h) (h_start h) L p' None (h_end h)"
    and e: "h_end h = h_start h + span L" "h_end h + MIN_BLOCK_SIZE < SIZE_MOD"
    by (rule heap_ok_segs [OF assms(1)])
  have ready: "heap_ready h = h" using assms(1) by (simp add: heap_ready_def heap_ok_def)
  note ff = first_fit_segs [OF s, of ?n]
  show ?thesis
  proof (cases "alloc_list ?n L")
    case None
    then have "\<not> (\<exists>x \<in> set L. fits ?n x)" by (simp add: alloc_list_None)
    then show ?thesis using None ff assms(2) by (simp add: heap_alloc_def Let_def ready)
  next
    case (Some r)
    obtain off L' where r: "r = (off, L')" by (cases r)
    then obtain L1 m L2 where c: "L = L1 @ (m, False) # L2" "takeWhile (\<lambda>x. \<not> fits ?n x) L = L1" "?n \<le> m"
      "off = span L1 + HEADER" "L' = L1 @ cut_block ?n m @ L2" "\<exists>x \<in> set L. fits ?n x"
      using alloc_list_SomeE Some by metis
    let ?b = "h_start h + span L1"
    have "first_fit h ?n (h_free_list h) = Some (Some ?b)" using ff c(6) unfolding c(2) by simp
    moreover have "add64 ?b HEADER = h_start h + off" using e by (simp add: c(1,4) wrap_simps)
    ultimately have "heap_alloc n h = Some (Some (h_start h + off), taken ?b ?n h)"
      using assms(2) by (simp add: heap_alloc_def Let_def ready take_block_def [symmetric] taken_def)
    then show ?thesis
      using Some taken_ok [OF assms(1) [unfolded c(1)] c(3) align_size_props(2) [OF assms(3)]] by (simp add: r c(5))
  qed
qed

section \<open>Release refines coalescing on the list\<close>

text \<open>Both coalescing steps join a block with the one after it.\<close>

definition join :: "(nat \<Rightarrow> block_header) \<Rightarrow> nat \<Rightarrow> nat \<Rightarrow> nat \<Rightarrow> block_header" where
  "join B p b =
     relink (B(p := (B p)\<lparr>bsize := add64 (bsize (B p)) (add64 (bsize (B b)) HEADER), bnext := bnext (B b)\<rparr>))
       (bnext (B b)) (Some p)"

lemma segs_join:
  assumes "segs B None q a (L1 @ (k, u) # (m, v) # L2) p' None e" "e < SIZE_MOD"
    and p: "p = a + span L1" and b: "b = p + HEADER + k"
  shows "\<exists>p''. segs (join B p b) None q a (L1 @ (k + m + HEADER, u) # L2) p'' None e"
proof -
  obtain p1 where s: "segs B None q a L1 p1 (Some p) p" "bsize (B p) = k" "bused (B p) = u" "bprev (B p) = p1"
    "segs B (Some p) (bnext (B p)) (p + HEADER + k) ((m, v) # L2) p' None e"
    using segs_at [OF assms(1)] unfolding p by metis
  then have t: "bsize (B b) = m" "segs B (Some b) (bnext (B b)) (b + HEADER + m) L2 p' None e"
    by (simp_all add: b)
  have e: "e = b + HEADER + m + span L2" using segs_end [OF t(2)] by simp
  then have w: "add64 k (add64 m HEADER) = k + m + HEADER" using assms(2) b by (simp add: wrap_simps)
  let ?B1 = "B(p := (B p)\<lparr>bsize := k + m + HEADER, bnext := bnext (B b)\<rparr>)"
  have j: "join B p b = relink ?B1 (bnext (B b)) (Some p)" by (simp add: join_def s(2) t(1) w)
  have x: "bnext (B b) = (if L2 = [] then None else Some (b + HEADER + m))" by (rule segs_first_cases [OF t(2)])
  have "segs ?B1 (Some b) (bnext (B b)) (b + HEADER + m) L2 p' None e"
    by (rule segs_outside [OF t(2)]) (use b in auto)
  then obtain p'' where r: "segs (join B p b) (Some p) (bnext (B b)) (b + HEADER + m) L2 p'' None e"
    unfolding j using segs_relink by blast
  have "join B p b p = ?B1 p" unfolding j using x b by (intro relink_other) auto
  moreover have adr: "p + HEADER + (k + m + HEADER) = b + HEADER + m" by (simp add: b)
  ultimately have "segs (join B p b) p1 (Some p) p ((k + m + HEADER, u) # L2) p'' None e"
    using r [folded adr] s(3,4) by simp
  moreover have "join B p b y = B y" if "y < p" for y
    unfolding j using x b that by (subst relink_other) auto
  then have "segs (join B p b) None q a L1 p1 (Some p) p"
    using segs_outside [OF s(1)] p by simp
  ultimately show ?thesis using segs_put by blast
qed

definition next_join :: "nat \<Rightarrow> (nat \<times> bool) list \<Rightarrow> (nat \<times> bool) list" where
  "next_join m L2 = (case L2 of (k, False) # R \<Rightarrow> (m + k + HEADER, False) # R | _ \<Rightarrow> (m, False) # L2)"

lemma coalesce_next_segs:
  assumes "segs (blocks h) None q a (L1 @ (m, False) # L2) p' None e" "e < SIZE_MOD" "b = a + span L1"
  shows "\<exists>p''. segs (blocks (coalesce_next b h)) None q a (L1 @ next_join m L2) p'' None e"
proof -
  obtain p1 where s: "bsize (blocks h b) = m" "segs (blocks h) (Some b) (bnext (blocks h b)) (b + HEADER + m) L2 p' None e"
    using segs_at [OF assms(1)] unfolding assms(3) by metis
  show ?thesis
  proof (cases L2)
    case Nil
    then show ?thesis using assms(1) s(2) by (auto simp: coalesce_next_def next_join_def)
  next
    case (Cons y R)
    obtain k v where y: "y = (k, v)" by (cases y)
    then have n: "bnext (blocks h b) = Some (b + HEADER + m)" "bused (blocks h (b + HEADER + m)) = v"
      using s(2) by (simp_all add: Cons)
    show ?thesis
    proof (cases v)
      case True
      then show ?thesis using assms(1) n by (auto simp: coalesce_next_def next_join_def Cons y)
    next
      case False
      then have "blocks (coalesce_next b h) = join (blocks h) b (b + HEADER + m)"
        using n by (auto simp: coalesce_next_def join_def relink_def upd_block_def Let_def split: option.split)
      then show ?thesis
        using segs_join [OF _ assms(2,3) refl, of "blocks h" q m False k False R p'] assms(1) False
        by (simp add: Cons y next_join_def)
    qed
  qed
qed

lemma segs_last: "segs B p q a (L @ [(n, u)]) p' q' a' \<Longrightarrow> p' = Some (a + span L)"
  by (auto simp: segs_append)

definition prev_join :: "(nat \<times> bool) list \<Rightarrow> (nat \<times> bool) list \<Rightarrow> (nat \<times> bool) list" where
  "prev_join L1 M =
     (if L1 \<noteq> [] \<and> \<not> snd (last L1)
      then butlast L1 @ (fst (last L1) + fst (hd M) + HEADER, False) # tl M
      else L1 @ M)"

lemma coalesce_prev_segs:
  assumes "segs (blocks h) None q a (L1 @ (m, False) # L2) p' None e" "e < SIZE_MOD" "b = a + span L1"
  shows "\<exists>p''. segs (blocks (coalesce_prev b h)) None q a (prev_join L1 ((m, False) # L2)) p'' None e"
proof -
  obtain p1 where s: "segs (blocks h) None q a L1 p1 (Some b) b" "bprev (blocks h b) = p1"
    using segs_at [OF assms(1)] unfolding assms(3) by metis
  show ?thesis
  proof (cases L1 rule: rev_cases)
    case Nil
    then show ?thesis using assms(1) s by (auto simp: coalesce_prev_def prev_join_def)
  next
    case (snoc L0 y)
    obtain k v where y: "y = (k, v)" by (cases y)
    let ?p = "a + span L0"
    have p: "bprev (blocks h b) = Some ?p" "b = ?p + HEADER + k" using s segs_last assms(3) by (auto simp: snoc y)
    have u: "bused (blocks h ?p) = v"
      using assms(1) segs_at [of "blocks h" None q a L0 k v "(m, False) # L2" p' e] by (auto simp: snoc y)
    show ?thesis
    proof (cases v)
      case True
      then show ?thesis using assms(1) p u by (auto simp: coalesce_prev_def prev_join_def snoc y)
    next
      case False
      then have "blocks (coalesce_prev b h) = join (blocks h) ?p b"
        using p u by (auto simp: coalesce_prev_def join_def relink_def upd_block_def Let_def split: option.split)
      then show ?thesis
        using segs_join [OF _ assms(2) refl p(2), of "blocks h" q False m False L2 p'] assms(1) False
        by (simp add: snoc y prev_join_def)
    qed
  qed
qed

definition give_back :: "(nat \<times> bool) list \<Rightarrow> nat \<Rightarrow> (nat \<times> bool) list \<Rightarrow> (nat \<times> bool) list" where
  "give_back L1 m L2 = prev_join L1 (next_join m L2)"

lemma next_join_cases:
  obtains "next_join m L2 = (m, False) # L2" "L2 = [] \<or> snd (hd L2)"
  | k R where "L2 = (k, False) # R" "next_join m L2 = (m + k + HEADER, False) # R"
  by (cases L2; cases "snd (hd L2)") (auto simp: next_join_def)

lemma prev_join_cases:
  obtains "prev_join L1 M = L1 @ M" "L1 = [] \<or> snd (last L1)"
  | L0 k where "L1 = L0 @ [(k, False)]" "prev_join L1 M = L0 @ (k + fst (hd M) + HEADER, False) # tl M"
  by (cases L1 rule: rev_cases; cases "snd (last L1)") (auto simp: prev_join_def)

lemma give_back_live: "live a (give_back L1 m L2) = live a L1 @ live (a + span L1 + HEADER + m) L2"
  unfolding give_back_def
  by (rule next_join_cases [of m L2]; rule prev_join_cases [of L1 "next_join m L2"]) (simp_all add: live_append algebra_simps)

lemma give_back_span: "span (give_back L1 m L2) = span (L1 @ (m, True) # L2)"
  unfolding give_back_def
  by (rule next_join_cases [of m L2]; rule prev_join_cases [of L1 "next_join m L2"]) simp_all

lemma give_back_used: "used_bytes (give_back L1 m L2) + HEADER + m = used_bytes (L1 @ (m, True) # L2)"
  unfolding give_back_def
  by (rule next_join_cases [of m L2]; rule prev_join_cases [of L1 "next_join m L2"]) simp_all

lemma give_back_coalesced:
  assumes "coalesced (L1 @ (m, True) # L2)"
  shows "coalesced (give_back L1 m L2)"
  using assms unfolding give_back_def
  by (rule_tac next_join_cases [of m L2]; rule_tac prev_join_cases [of L1 "next_join m L2"])
    (auto simp: coalesced_append coalesced_Cons)

lemma give_back_aligned:
  assumes "\<forall>x \<in> set (L1 @ (m, True) # L2). fst x mod ALIGNMENT = 0"
  shows "\<forall>x \<in> set (give_back L1 m L2). fst x mod ALIGNMENT = 0"
  using assms unfolding give_back_def
  by (rule_tac next_join_cases [of m L2]; rule_tac prev_join_cases [of L1 "next_join m L2"])
    (auto simp: mod_eq_0_iff_dvd)

lemma coalesce_fields [simp]:
  "h_start (coalesce_next b h) = h_start h" "h_end (coalesce_next b h) = h_end h"
  "h_free_list (coalesce_next b h) = h_free_list h" "h_used_size (coalesce_next b h) = h_used_size h"
  "h_initialized (coalesce_next b h) = h_initialized h" "stored (coalesce_next b h) = stored h"
  "h_start (coalesce_prev b h) = h_start h" "h_end (coalesce_prev b h) = h_end h"
  "h_free_list (coalesce_prev b h) = h_free_list h" "h_used_size (coalesce_prev b h) = h_used_size h"
  "h_initialized (coalesce_prev b h) = h_initialized h" "stored (coalesce_prev b h) = stored h"
  by (simp_all add: coalesce_next_def coalesce_prev_def upd_block_def Let_def split: option.split)

lemma heap_free_refines:
  assumes "heap_ok h (L1 @ (m, True) # L2)" "ptr = h_start h + span L1 + HEADER"
  shows "heap_ok (heap_free ptr h) (give_back L1 m L2) \<and> h_start (heap_free ptr h) = h_start h \<and>
    h_end (heap_free ptr h) = h_end h \<and> stored (heap_free ptr h) = stored h"
proof -
  let ?b = "h_start h + span L1" let ?L = "L1 @ (m, True) # L2" let ?M = "give_back L1 m L2"
  obtain p' where s: "segs (blocks h) None (h_free_list h) (h_start h) ?L p' None (h_end h)"
    and e: "h_end h = h_start h + span ?L" "h_end h + MIN_BLOCK_SIZE < SIZE_MOD"
    and u: "HEADER \<le> h_start h" "h_used_size h = HEADER + used_bytes ?L"
    by (rule heap_ok_segs [OF assms(1)])
  let ?h2 = "(upd_block ?b (\<lambda>c. c\<lparr>bused := False\<rparr>) h)
      \<lparr>h_used_size := sub64 (h_used_size h) (add64 (bsize (blocks h ?b)) HEADER)\<rparr>"
  obtain p1 where t: "segs (blocks h) None (h_free_list h) (h_start h) L1 p1 (Some ?b) ?b" "bsize (blocks h ?b) = m"
    "bprev (blocks h ?b) = p1" "segs (blocks h) (Some ?b) (bnext (blocks h ?b)) (?b + HEADER + m) L2 p' None (h_end h)"
    using segs_at [OF s] by metis
  have f: "heap_free ptr h = coalesce_prev ?b (coalesce_next ?b ?h2)"
    using e u assms(2) by (simp add: heap_free_def Let_def sub64_def upd_block_def)
  have "segs (blocks ?h2) None (h_free_list h) (h_start h) L1 p1 (Some ?b) ?b"
    by (rule segs_outside [OF t(1)]) (simp add: upd_block_def)
  moreover have "segs (blocks ?h2) (Some ?b) (bnext (blocks h ?b)) (?b + HEADER + m) L2 p' None (h_end h)"
    by (rule segs_outside [OF t(4)]) (simp add: upd_block_def)
  then have "segs (blocks ?h2) p1 (Some ?b) ?b ((m, False) # L2) p' None (h_end h)"
    using t(2,3) by (simp add: upd_block_def)
  ultimately have "segs (blocks ?h2) None (h_free_list h) (h_start h) (L1 @ (m, False) # L2) p' None (h_end h)"
    by (rule segs_put)
  from coalesce_next_segs [OF this _ refl] e obtain p2 where
    "segs (blocks (coalesce_next ?b ?h2)) None (h_free_list h) (h_start h) (L1 @ next_join m L2) p2 None (h_end h)" by auto
  moreover obtain m1 R where n: "next_join m L2 = (m1, False) # R" by (rule next_join_cases [of m L2]) auto
  ultimately have "\<exists>p3. segs (blocks (heap_free ptr h)) None (h_free_list h) (h_start h) ?M p3 None (h_end h)"
    using coalesce_prev_segs [of "coalesce_next ?b ?h2"] e(2) unfolding f give_back_def n by auto
  moreover have "h_used_size (heap_free ptr h) = HEADER + used_bytes ?M"
    using u give_back_used [of L1 m L2] used_bytes_span [of ?L] e
    by (simp add: f t(2) wrap_simps upd_block_def)
  moreover have "h_start (heap_free ptr h) = h_start h \<and> h_end (heap_free ptr h) = h_end h \<and>
      stored (heap_free ptr h) = stored h \<and> h_initialized (heap_free ptr h) = h_initialized h \<and>
      h_free_list (heap_free ptr h) = h_free_list h"
    by (simp add: f upd_block_def)
  moreover have "?M \<noteq> []" using give_back_span [of L1 m L2] by auto
  moreover have "coalesced ?M" by (rule give_back_coalesced) (use assms(1) in \<open>simp add: heap_ok_def\<close>)
  moreover have "\<forall>x \<in> set ?M. fst x mod ALIGNMENT = 0"
    by (rule give_back_aligned) (use assms(1) in \<open>simp add: heap_ok_def\<close>)
  moreover have "h_initialized h" "h_start h mod ALIGNMENT = 0" using assms(1) by (simp_all add: heap_ok_def)
  ultimately show ?thesis unfolding heap_ok_def using e(2) u(1) by simp
qed

section \<open>Live blocks\<close>

lemma live_in:
  "(p, m) \<in> set (live a L) \<longleftrightarrow> (\<exists>L1 L2. L = L1 @ (m, True) # L2 \<and> p = a + span L1 + HEADER)"
proof (induction a L rule: live.induct)
  case (2 a n u L)
  show ?case
  proof
    assume "(p, m) \<in> set (live a ((n, u) # L))"
    then consider "u" "p = a + HEADER" "m = n" | "(p, m) \<in> set (live (a + HEADER + n) L)" by (auto split: if_splits)
    then show "\<exists>L1 L2. (n, u) # L = L1 @ (m, True) # L2 \<and> p = a + span L1 + HEADER"
    proof cases
      case 1
      then show ?thesis by (intro exI [of _ "[]"] exI [of _ L]) simp
    next
      case 2
      then obtain L1 L2 where "L = L1 @ (m, True) # L2" "p = a + HEADER + n + span L1 + HEADER" using "2.IH" by blast
      then show ?thesis by (intro exI [of _ "(n, u) # L1"] exI [of _ L2]) simp
    qed
  next
    assume "\<exists>L1 L2. (n, u) # L = L1 @ (m, True) # L2 \<and> p = a + span L1 + HEADER"
    then obtain L1 L2 where s: "(n, u) # L = L1 @ (m, True) # L2" "p = a + span L1 + HEADER" by blast
    then show "(p, m) \<in> set (live a ((n, u) # L))"
      using "2.IH" by (cases L1) auto
  qed
qed simp

text \<open>Live blocks lie one behind the other, with a header between.\<close>

lemma live_bounds: "(p, m) \<in> set (live a L) \<Longrightarrow> a + HEADER \<le> p \<and> p + m \<le> a + span L"
  by (auto simp: live_in)

lemma live_sorted: "sorted_wrt (\<lambda>r q. fst r + snd r < fst q) (live a L)"
proof (induction a L rule: live.induct)
  case (2 a n u L)
  have "a + HEADER + n < p" if "(p, m) \<in> set (live (a + HEADER + n) L)" for p m
    using live_bounds [OF that] by simp
  with 2 show ?case by auto
qed simp

lemma sorted_wrt_either:
  assumes "sorted_wrt P xs" "x \<in> set xs" "y \<in> set xs" "x \<noteq> y"
  shows "P x y \<or> P y x"
  using assms by (induction xs) auto

lemma live_either:
  assumes "r \<in> set (live a L)" "q \<in> set (live a L)" "fst r \<noteq> fst q"
  shows "apart r q"
proof -
  have "r \<noteq> q" using assms(3) by auto
  from sorted_wrt_either [OF live_sorted assms(1,2) this] show ?thesis by (auto simp: apart_def)
qed

lemma live_distinct: "distinct (map fst (live a L))"
proof -
  have "sorted_wrt (\<lambda>r q. fst r < fst q) (live a L)"
    using sorted_wrt_mono_rel [OF _ live_sorted [of a L]] by fastforce
  then have "sorted_wrt (<) (map fst (live a L))" by (simp add: sorted_wrt_map)
  then show ?thesis by (simp add: strict_sorted_iff)
qed

section \<open>The heap as an allocator\<close>

definition heap_inv :: "nat \<Rightarrow> nat \<Rightarrow> heap \<Rightarrow> (nat \<times> nat) list \<Rightarrow> bool" where
  "heap_inv lo hi h log \<longleftrightarrow> (\<exists>L. heap_ok h L \<and> h_start h = lo \<and> h_end h = hi \<and> distinct (map fst log) \<and>
     fst ` set log = fst ` set (live lo L) \<and> (\<forall>r \<in> set log. \<exists>m. snd r \<le> m \<and> (fst r, m) \<in> set (live lo L)))"

definition heap_request :: "nat \<Rightarrow> bool" where
  "heap_request n \<longleftrightarrow> n + 15 < SIZE_MOD"

definition heap_put :: "nat \<Rightarrow> heap \<Rightarrow> heap option" where
  "heap_put p h = Some (heap_free p h)"

lemma heap_inv_regions:
  assumes "heap_inv lo hi h log"
  shows "regions_ok lo hi log"
proof -
  obtain L where L: "heap_ok h L" "h_start h = lo" "h_end h = hi" "distinct (map fst log)"
    "\<forall>r \<in> set log. \<exists>m. snd r \<le> m \<and> (fst r, m) \<in> set (live lo L)"
    using assms by (auto simp: heap_inv_def)
  have hi: "hi = lo + span L" using L(1-3) heap_ok_segs by metis
  have a: "apart r q" if rq: "r \<in> set log" "q \<in> set log" "fst r \<noteq> fst q" for r q
  proof -
    obtain m k where "snd r \<le> m" "(fst r, m) \<in> set (live lo L)" "snd q \<le> k" "(fst q, k) \<in> set (live lo L)"
      using L(5) rq(1,2) by blast
    with live_either [of "(fst r, m)" lo L "(fst q, k)"] rq(3) show ?thesis by (auto simp: apart_def)
  qed
  have "sorted_wrt apart xs" if "set xs \<subseteq> set log" "distinct (map fst xs)" for xs
    using that
  proof (induction xs)
    case (Cons x xs)
    then have "apart x y" if "y \<in> set xs" for y using that by (intro a) (auto simp: image_iff)
    with Cons show ?case by simp
  qed simp
  moreover have "lo \<le> p \<and> p + n \<le> hi" if pn: "(p, n) \<in> set log" for p n
  proof -
    obtain m where "n \<le> m" "(p, m) \<in> set (live lo L)" using bspec [OF L(5) pn] by auto
    with live_bounds [OF this(2)] hi show ?thesis by simp
  qed
  ultimately show ?thesis using L(4) by (auto simp: regions_ok_def)
qed

lemma heap_get:
  assumes "heap_inv lo hi h log" "heap_request n"
  shows "\<exists>p h'. heap_alloc n h = Some (p, h') \<and> heap_inv lo hi h' (case p of None \<Rightarrow> log | Some a \<Rightarrow> (a, n) # log)"
proof (cases "n = 0")
  case True
  have "heap_ready h = h" using assms(1) by (auto simp: heap_inv_def heap_ok_def heap_ready_def)
  then show ?thesis using assms(1) True by (simp add: heap_alloc_def Let_def)
next
  case False
  obtain L where L: "heap_ok h L" "h_start h = lo" "h_end h = hi" "distinct (map fst log)"
    "fst ` set log = fst ` set (live lo L)" "\<forall>r \<in> set log. \<exists>m. snd r \<le> m \<and> (fst r, m) \<in> set (live lo L)"
    using assms(1) by (auto simp: heap_inv_def)
  let ?n = "align_size n"
  have n: "n \<le> ?n" using align_size_props(1) assms(2) by (simp add: heap_request_def)
  note r = heap_alloc_refines [OF L(1) _ assms(2) [unfolded heap_request_def]]
  show ?thesis
  proof (cases "alloc_list ?n L")
    case None
    then show ?thesis using r False assms(1) by simp
  next
    case (Some x)
    obtain off L' where x: "x = (off, L')" by (cases x)
    then obtain h' where h': "heap_alloc n h = Some (Some (lo + off), h')" "heap_ok h' L'" "h_start h' = lo" "h_end h' = hi"
      using r Some False L(2,3) by auto
    obtain L1 m L2 where c: "L = L1 @ (m, False) # L2" "?n \<le> m" "off = span L1 + HEADER" "L' = L1 @ cut_block ?n m @ L2"
      using alloc_list_SomeE Some x by metis
    let ?k = "fst (hd (cut_block ?n m))"
    have k: "?n \<le> ?k" using c(2) by (simp add: cut_block_def)
    have lv: "live lo L' = live lo L1 @ (lo + off, ?k) # live (lo + span L1 + HEADER + m) L2"
      "live lo L = live lo L1 @ live (lo + span L1 + HEADER + m) L2"
      using live_cut [OF c(2), of "lo + span L1"] span_cut [OF c(2)] by (simp_all add: c(1,3,4) live_append add.assoc)
    have "lo + off \<notin> fst ` set (live lo L)" using live_distinct [of lo L'] unfolding lv by auto
    then have "heap_inv lo hi h' ((lo + off, n) # log)"
      unfolding heap_inv_def
    proof (intro exI [of _ L'] conjI)
      show "fst ` set ((lo + off, n) # log) = fst ` set (live lo L')" using L(5) by (simp add: lv)
      show "\<forall>r \<in> set ((lo + off, n) # log). \<exists>m. snd r \<le> m \<and> (fst r, m) \<in> set (live lo L')"
        using L(6) order_trans [OF n k] unfolding lv by auto
    qed (use h'(2-4) L(4,5) in auto)
    with h'(1) show ?thesis by auto
  qed
qed

lemma heap_free_inv:
  assumes "heap_inv lo hi h log" "k < length log"
  shows "heap_inv lo hi (heap_free (fst (log ! k)) h) (drop_nth k log)"
proof -
  obtain L where L: "heap_ok h L" "h_start h = lo" "h_end h = hi" "distinct (map fst log)"
    "fst ` set log = fst ` set (live lo L)" "\<forall>r \<in> set log. \<exists>m. snd r \<le> m \<and> (fst r, m) \<in> set (live lo L)"
    using assms(1) by (auto simp: heap_inv_def)
  let ?p = "fst (log ! k)"
  obtain m where "(?p, m) \<in> set (live lo L)" using L(6) nth_mem [OF assms(2)] by blast
  then obtain L1 L2 where c: "L = L1 @ (m, True) # L2" "?p = lo + span L1 + HEADER" by (auto simp: live_in)
  let ?M = "give_back L1 m L2"
  have f: "heap_ok (heap_free ?p h) ?M" "h_start (heap_free ?p h) = lo" "h_end (heap_free ?p h) = hi"
    using heap_free_refines [OF L(1) [unfolded c(1)], of ?p] c(2) L(2,3) by simp_all
  have lv: "live lo L = live lo L1 @ (?p, m) # live (lo + span L1 + HEADER + m) L2"
    by (simp add: c live_append add.assoc)
  have M: "live lo ?M = live lo L1 @ live (lo + span L1 + HEADER + m) L2" by (rule give_back_live)
  have np: "?p \<notin> fst ` set (live lo ?M)" using live_distinct [of lo L] unfolding lv M by auto
  have mp: "map fst (drop_nth k log) = drop_nth k (map fst log)" by (simp add: drop_nth_def take_map drop_map)
  have "set (map fst (drop_nth k log)) = set (map fst log) - {?p}"
    unfolding mp using set_drop_nth_distinct [of k "map fst log"] L(4) assms(2) by simp
  then have s: "fst ` set (drop_nth k log) = fst ` set log - {?p}" by simp
  have s2: "distinct (map fst (drop_nth k log))" unfolding mp by (rule distinct_drop_nth [OF L(4)])
  show ?thesis
    unfolding heap_inv_def
  proof (intro exI [of _ ?M] conjI ballI)
    show "fst ` set (drop_nth k log) = fst ` set (live lo ?M)" using s L(5) np unfolding lv M by auto
    fix r assume r: "r \<in> set (drop_nth k log)"
    then have "r \<in> set log" using set_drop_nth [of k log] by auto
    then obtain m' where "snd r \<le> m'" "(fst r, m') \<in> set (live lo L)" using L(6) by blast
    moreover have "fst r \<noteq> ?p" using s r by blast
    ultimately show "\<exists>m. snd r \<le> m \<and> (fst r, m) \<in> set (live lo ?M)" unfolding lv M by auto
  qed (use f s2 in auto)
qed

interpretation heap: region_allocator "heap_inv lo hi" heap_alloc heap_request lo hi heap_put for lo hi
proof
  fix h log n h' a k
  assume i: "heap_inv lo hi h log"
  then show "regions_ok lo hi log" by (rule heap_inv_regions)
  show "k < length log \<Longrightarrow> \<exists>s'. heap_put (fst (log ! k)) h = Some s' \<and> heap_inv lo hi s' (drop_nth k log)"
    using heap_free_inv [OF i] by (simp add: heap_put_def)
  assume "heap_request n"
  note g = heap_get [OF i this]
  show "heap_alloc n h \<noteq> None" using g by auto
  show "heap_alloc n h = Some (Some a, h') \<Longrightarrow> heap_inv lo hi h' ((a, n) # log)" using g by auto
  show "heap_alloc n h = Some (None, h') \<Longrightarrow> heap_inv lo hi h' log" using g by auto
qed

text \<open>A heap whose only free block is the last one serves requests from that block.\<close>

lemma align_size_le: "n + 15 < SIZE_MOD \<Longrightarrow> n \<le> align_size n \<and> align_size n \<le> n + 15"
  by (simp add: align_size_def add64_def)

lemma heap_alloc_tail:
  assumes h: "heap_ok h (M @ [(m, False)])" "\<forall>x \<in> set M. snd x" and n: "0 < n" "n + 128 \<le> m" "n + 15 < SIZE_MOD"
  shows "\<exists>p h' M' m'. heap_alloc n h = Some (Some p, h') \<and> heap_ok h' (M' @ [(m', False)])
    \<and> (\<forall>x \<in> set M'. snd x) \<and> m \<le> m' + n + 48"
proof -
  let ?n = "align_size n"
  have a: "n \<le> ?n" "?n \<le> n + 15" using align_size_le [OF n(3)] by simp_all
  have "takeWhile (\<lambda>x. \<not> fits ?n x) (M @ [(m, False)]) = M"
    using h(2) a n(2) by (subst takeWhile_append2) (auto simp: fits_def)
  moreover have "dropWhile (\<lambda>x. \<not> fits ?n x) (M @ [(m, False)]) = [(m, False)]"
    using h(2) a n(2) by (subst dropWhile_append2) (auto simp: fits_def)
  ultimately have "alloc_list ?n (M @ [(m, False)]) = Some (span M + HEADER, M @ cut_block ?n m)"
    by (simp add: alloc_list_def)
  with heap_alloc_refines [OF h(1) n(1,3)] obtain h' where
    h': "heap_alloc n h = Some (Some (h_start h + (span M + HEADER)), h')" "heap_ok h' (M @ cut_block ?n m)"
    by auto
  then have "heap_ok h' ((M @ [(?n, True)]) @ [(m - ?n - HEADER, False)])"
    using a n(2) by (simp add: cut_block_def)
  with h' h(2) a show ?thesis
    by (intro exI [of _ "h_start h + (span M + HEADER)"] exI [of _ h'] exI [of _ "M @ [(?n, True)]"]
        exI [of _ "m - ?n - HEADER"]) auto
qed

section \<open>Setting up\<close>

lemma heap_setup_ok:
  assumes "mem mod ALIGNMENT = 0" "HEADER \<le> mem" "n mod ALIGNMENT = 0" "HEADER \<le> n" "mem + n + MIN_BLOCK_SIZE < SIZE_MOD"
  shows "heap_ok (heap_setup mem n h) [(n - HEADER, False)] \<and> h_start (heap_setup mem n h) = mem \<and>
    h_end (heap_setup mem n h) = mem + n"
proof -
  have "(n - HEADER) mod ALIGNMENT = 0" using assms(3,4) by (simp add: mod_eq_0_iff_dvd dvd_diff_nat)
  then show ?thesis
    using assms by (simp add: heap_ok_def heap_setup_def upd_block_def wrap_simps)
qed

text \<open>The size asked for is a number of pages between 64 MB and 1 GB, and at most 70 percent above 64 MB.\<close>

lemma calculate_heap_size_props:
  assumes "pmm_available_memory p * HEAP_PERCENT < SIZE_MOD"
  shows "MIN_HEAP_SIZE \<le> calculate_heap_size p" "calculate_heap_size p \<le> MAX_HEAP_SIZE"
    "calculate_heap_size p mod PAGE_SIZE = 0"
    "MIN_HEAP_SIZE \<le> pmm_available_memory p \<Longrightarrow> calculate_heap_size p \<le> pmm_available_memory p"
    "MIN_HEAP_SIZE + PAGE_SIZE \<le> pmm_available_memory p \<Longrightarrow> calculate_heap_size p + PAGE_SIZE \<le> pmm_available_memory p"
proof -
  define a where "a = pmm_available_memory p * HEAP_PERCENT div 100"
  define b where "b = (let c = (if a < MIN_HEAP_SIZE then MIN_HEAP_SIZE else a) in if MAX_HEAP_SIZE < c then MAX_HEAP_SIZE else c)"
  have c: "calculate_heap_size p = b div PAGE_SIZE * PAGE_SIZE"
    using assms by (simp add: calculate_heap_size_def a_def b_def Let_def page_align_down_def)
  have b: "MIN_HEAP_SIZE \<le> b" "b \<le> MAX_HEAP_SIZE" by (simp_all add: b_def Let_def)
  show "MIN_HEAP_SIZE \<le> calculate_heap_size p" "calculate_heap_size p \<le> MAX_HEAP_SIZE"
    using div_le_mono [OF b(1), of PAGE_SIZE] b(2) order_trans [OF div_times_less_eq_dividend [of b PAGE_SIZE]]
    unfolding c by simp_all
  show "calculate_heap_size p mod PAGE_SIZE = 0" unfolding c by simp
  have "a \<le> pmm_available_memory p" unfolding a_def by linarith
  then show "MIN_HEAP_SIZE \<le> pmm_available_memory p \<Longrightarrow> calculate_heap_size p \<le> pmm_available_memory p"
    unfolding c b_def by (simp add: Let_def) linarith
  have "100 * a \<le> pmm_available_memory p * HEAP_PERCENT" unfolding a_def by simp
  moreover have "b div PAGE_SIZE * PAGE_SIZE \<le> b" by simp
  moreover have "b \<le> max a MIN_HEAP_SIZE" by (simp add: b_def Let_def)
  ultimately show "MIN_HEAP_SIZE + PAGE_SIZE \<le> pmm_available_memory p \<Longrightarrow> calculate_heap_size p + PAGE_SIZE \<le> pmm_available_memory p"
    unfolding c by (cases "a \<le> MIN_HEAP_SIZE") simp_all
qed

lemma page_aligned: "x mod PAGE_SIZE = 0 \<Longrightarrow> x mod ALIGNMENT = 0"
proof -
  assume "x mod PAGE_SIZE = 0"
  then have "PAGE_SIZE dvd x" by (rule mod_0_imp_dvd)
  moreover have "(ALIGNMENT :: nat) dvd PAGE_SIZE" by simp
  ultimately have "ALIGNMENT dvd x" by (blast intro: dvd_trans)
  then show ?thesis by simp
qed

lemma heap_init_ok:
  assumes "pmm_inv lo hi (h_pmm h) log" "mem_start (h_pmm h) mod PAGE_SIZE = 0" "HEADER \<le> lo"
    and "hi + MIN_BLOCK_SIZE < SIZE_MOD" "pmm_available_memory (h_pmm h) * HEAP_PERCENT < SIZE_MOD"
    and "MIN_HEAP_SIZE \<le> pmm_available_memory (h_pmm h)"
  shows "\<exists>n. heap_ok (heap_init h) [(n - HEADER, False)] \<and> lo \<le> h_start (heap_init h) \<and>
    h_end (heap_init h) = h_start (heap_init h) + n \<and> h_end (heap_init h) \<le> hi \<and>
    MIN_HEAP_SIZE \<le> n \<and> n = calculate_heap_size (h_pmm h) \<and>
    h_end (heap_init h) + pmm_available_memory (h_pmm h) = hi + n"
proof -
  let ?p = "h_pmm h" define n where "n = calculate_heap_size ?p"
  note c = calculate_heap_size_props [OF assms(5)]
  have ok: "pmm_ok lo hi ?p" "free_pages ?p = total_pages ?p - next_free_page ?p" using assms(1) by (simp_all add: pmm_inv_def)
  then have p: "mem_start ?p + total_pages ?p * PAGE_SIZE = hi" "next_free_page ?p \<le> total_pages ?p"
    "lo \<le> mem_start ?p + next_free_page ?p * PAGE_SIZE" by (simp_all add: pmm_ok_def)
  have n: "n mod PAGE_SIZE = 0" "MIN_HEAP_SIZE \<le> n" "n \<le> MAX_HEAP_SIZE" using c(1-3) by (simp_all add: n_def)
  then have nd: "n div PAGE_SIZE * PAGE_SIZE = n" by auto
  have "pmm_available_memory ?p \<le> free_pages ?p * PAGE_SIZE" by (simp add: pmm_available_memory_def)
  then have "n div PAGE_SIZE \<le> free_pages ?p" using c(4) [OF assms(6)] nd by (simp add: n_def [symmetric])
  then have fit: "next_free_page ?p + n div PAGE_SIZE \<le> total_pages ?p" using ok(2) p(2) by simp
  have "0 < n div PAGE_SIZE" "n div PAGE_SIZE \<le> 4503599627370496" using n(2,3) by (simp_all add: div_greater_zero_iff)
  note al = pmm_alloc_cases [OF ok(1) this]
  let ?mem = "mem_start ?p + next_free_page ?p * PAGE_SIZE"
  obtain p' where i: "heap_init h = heap_setup ?mem n (h\<lparr>h_pmm := p'\<rparr>)"
    using al fit by (simp add: heap_init_def Let_def n_def)
  have top: "?mem + n \<le> hi" using mult_le_mono1 [OF fit, of PAGE_SIZE] p(1) nd by (simp add: add_mult_distrib)
  have "?mem mod PAGE_SIZE = 0" using assms(2) by simp
  then have "heap_ok (heap_setup ?mem n h') [(n - HEADER, False)] \<and> h_start (heap_setup ?mem n h') = ?mem \<and>
      h_end (heap_setup ?mem n h') = ?mem + n" for h'
    using n p(3) assms(3,4) top page_aligned by (intro heap_setup_ok) simp_all
  moreover have "?mem + pmm_available_memory ?p = hi"
    using pmm_inv_available [OF assms(1)] assms(1) by (simp add: pmm_inv_def)
  ultimately show ?thesis using i p(3) top n(2) n_def by auto
qed

text \<open>The memory of the kernel after \<open>pmm_init\<close> and \<open>heap_init\<close>.\<close>

lemma booted_heap:
  assumes "pmm_init start sz s0 = Some s" "2 * MIN_HEAP_SIZE \<le> sz" "start + sz < 2 ^ 50" "PAGE_SIZE \<le> start"
    and "h_pmm h0 = s"
  shows "\<exists>n. heap_ok (heap_init h0) [(n - HEADER, False)] \<and> page_align_up start \<le> h_start (heap_init h0) \<and>
    h_end (heap_init h0) = h_start (heap_init h0) + n \<and>
    h_end (heap_init h0) \<le> start + sz \<and> MIN_HEAP_SIZE \<le> n"
proof -
  let ?lo = "page_align_up start + bitmap_pages (sz div PAGE_SIZE) * PAGE_SIZE"
  let ?hi = "page_align_up start + page_align_down sz"
  have d: "page_align_down sz \<le> sz" "sz < page_align_down sz + PAGE_SIZE"
    using div_times_less_eq_dividend [of sz PAGE_SIZE] dividend_less_div_times [of PAGE_SIZE sz] by (simp_all add: page_align_down_def)
  have st: "add64 start 4095 = start + 4095" using assms(3) by (simp add: wrap_simps)
  then have u: "page_align_up start \<le> start + 4095" "PAGE_SIZE \<le> page_align_up start"
    using assms(4) div_le_mono [of PAGE_SIZE "start + 4095" PAGE_SIZE] by (simp_all add: page_align_up_def)
  have i: "pmm_inv ?lo ?hi s []" "mem_start s = page_align_up start"
    using pmm_init_inv [of start sz s0] assms(1,3) d(1) u by auto
  have up: "page_align_up start mod PAGE_SIZE = 0" by (simp add: page_align_up_def)
  have "bitmap_pages (sz div PAGE_SIZE) * PAGE_SIZE \<le> add64 (sz div PAGE_SIZE div 8) 4095"
    by (simp add: bitmap_pages_def page_align_up_def)
  also have "\<dots> \<le> sz div PAGE_SIZE div 8 + 4095" by (rule add64_le_plus)
  also have "\<dots> \<le> sz div 32768 + 4095" by (simp add: div_mult2_eq [symmetric])
  finally have bm: "bitmap_pages (sz div PAGE_SIZE) * PAGE_SIZE \<le> sz div 32768 + 4095" .
  have "32768 * (sz div 32768) \<le> sz" by simp
  then have m: "MIN_HEAP_SIZE + PAGE_SIZE \<le> pmm_available_memory s" "pmm_available_memory s * HEAP_PERCENT < SIZE_MOD"
    using pmm_inv_available [OF i(1)] d assms(2,3) bm by simp_all
  have "?hi + MIN_BLOCK_SIZE < SIZE_MOD" "HEADER \<le> ?lo" using u d assms(3) by simp_all
  then obtain n where n: "heap_ok (heap_init h0) [(n - HEADER, False)]" "?lo \<le> h_start (heap_init h0)"
    "h_end (heap_init h0) = h_start (heap_init h0) + n" "MIN_HEAP_SIZE \<le> n" "n = calculate_heap_size s"
    "h_end (heap_init h0) + pmm_available_memory s = ?hi + n"
    using heap_init_ok [of ?lo ?hi h0 "[]"] i up m assms(5) by auto
  have "n + PAGE_SIZE \<le> pmm_available_memory s" using calculate_heap_size_props(5) [OF m(2,1)] n(5) by simp
  then have "h_end (heap_init h0) \<le> start + sz" using n(6) u(1) d(1) by linarith
  then show ?thesis using n by (intro exI [of _ n]) simp
qed

section \<open>Properties\<close>

definition boots :: "nat \<Rightarrow> nat \<Rightarrow> heap \<Rightarrow> bool" where
  "boots start sz h0 \<longleftrightarrow> (\<exists>s0. pmm_init start sz s0 = Some (h_pmm h0)) \<and> 2 * MIN_HEAP_SIZE \<le> sz \<and>
     start + sz < 2 ^ 50 \<and> PAGE_SIZE \<le> start"

lemma boots_inv:
  assumes "boots start sz h0"
  shows "\<exists>n lo. heap_inv lo (lo + n) (heap_init h0) [] \<and> page_align_up start \<le> lo \<and>
    lo + n \<le> start + sz \<and> MIN_HEAP_SIZE \<le> n \<and> heap_ok (heap_init h0) [(n - HEADER, False)] \<and>
    h_start (heap_init h0) = lo"
proof -
  obtain n where n: "heap_ok (heap_init h0) [(n - HEADER, False)]" "page_align_up start \<le> h_start (heap_init h0)"
    "h_end (heap_init h0) = h_start (heap_init h0) + n"
    "h_end (heap_init h0) \<le> start + sz" "MIN_HEAP_SIZE \<le> n"
    using booted_heap [of start sz _ _ h0] assms unfolding boots_def by blast
  then have "heap_inv (h_start (heap_init h0)) (h_start (heap_init h0) + n) (heap_init h0) []"
    unfolding heap_inv_def by (intro exI [of _ "[(n - HEADER, False)]"]) simp
  with n show ?thesis by fastforce
qed

text \<open>A small heap.\<close>

definition demo_heap :: heap where
  "demo_heap = heap_setup 4096 1024 \<lparr>h_start = 0, h_end = 0, h_free_list = None, h_total_size = 0, h_used_size = 0,
     h_initialized = False, blocks = (\<lambda>_. \<lparr>bsize = 0, bused = False, bnext = None, bprev = None\<rparr>),
     stored = (\<lambda>_. 0), h_pmm = demo_pmm\<rparr>"

lemma demo_heap_ok: "heap_ok demo_heap [(992, False)] \<and> h_start demo_heap = 4096"
  using heap_setup_ok [of 4096 1024] by (simp add: demo_heap_def)

lemma boots_exists:
  assumes "2 * MIN_HEAP_SIZE \<le> sz" "start + sz < 2 ^ 50" "PAGE_SIZE \<le> start"
  shows "\<exists>h0. boots start sz h0"
proof -
  have "page_align_up start < start + PAGE_SIZE" by (rule page_align_up_bounds) (use assms(2) in simp)
  then have "page_align_up start + page_align_down sz < SIZE_MOD" "sz < SIZE_MOD"
    using assms(2) page_align_down_le [of sz] by simp_all
  from pmm_init_inv [OF this] obtain s where "pmm_init start sz demo_pmm = Some s" by blast
  then have "boots start sz (demo_heap\<lparr>h_pmm := s\<rparr>)" using assms by (auto simp: boots_def)
  then show ?thesis by blast
qed

lemma demo_boots: "\<exists>h0. boots 0x200000 0x10000000 h0"
  by (rule boots_exists) simp_all

lemma demo_boots_unaligned: "\<exists>h0. boots 0x200800 0x10000000 h0"
  by (rule boots_exists) simp_all

text \<open>
  C6. From the memory given to \<open>pmm_init\<close> to the pointers of \<open>heap_alloc\<close>: whatever sequence of
  allocations and releases of live blocks follows the boot, every call returns, and the live
  blocks lie inside that memory and do not overlap. The memory is the one given, from its start
  rounded up to a page to its last byte: an unaligned start lets the page manager overrun it by less
  than a page (see the theory of the page manager), but the heap takes no more than 70 percent of the pages, or
  its minimum of 64 megabytes, and so ends a page before. \<open>boots\<close> asks for at least 128 megabytes
  below address \<open>2 ^ 50\<close> that do not start in page 0, and \<open>heap_request\<close> for sizes that do not wrap.
\<close>

theorem heap_blocks_apart:
  assumes "boots start sz h0" "\<forall>n. Get n \<in> set rs \<longrightarrow> heap_request n"
  shows "\<exists>h log. serve heap_alloc heap_put rs (heap_init h0) [] = Some (h, log) \<and>
    regions_ok (page_align_up start) (start + sz) log \<and> start \<le> page_align_up start"
proof -
  obtain n lo where b: "heap_inv lo (lo + n) (heap_init h0) []" "page_align_up start \<le> lo" "lo + n \<le> start + sz"
    using boots_inv [OF assms(1)] by blast
  obtain h log where "serve heap_alloc heap_put rs (heap_init h0) [] = Some (h, log)" "regions_ok lo (lo + n) log"
    using heap.serve_all [OF b(1) assms(2)] by blast
  moreover from regions_ok_wider [OF this(2) b(2,3)] have "regions_ok (page_align_up start) (start + sz) log" .
  moreover have "start \<le> page_align_up start"
    by (rule page_align_up_bounds(1)) (use assms(1) in \<open>simp add: boots_def\<close>)
  ultimately show ?thesis by blast
qed

theorem heap_blocks_apart_witness:
  "\<exists>h0 h log. boots 0x200800 0x10000000 h0 \<and>
    serve heap_alloc heap_put [Get 100, Get 200, Put 1, Get 64] (heap_init h0) [] = Some (h, log) \<and>
    regions_ok 0x201000 0x10200800 log"
proof -
  obtain h0 where b: "boots 0x200800 0x10000000 h0" using demo_boots_unaligned by blast
  have "page_align_up 0x200800 = 0x201000" by (simp add: page_align_up_def add64_def)
  moreover have "\<forall>n. Get n \<in> set [Get 100, Get 200, Put 1, Get 64] \<longrightarrow> heap_request n" by (simp add: heap_request_def)
  from heap_blocks_apart [OF b this] obtain h log where
    "serve heap_alloc heap_put [Get 100, Get 200, Put 1, Get 64] (heap_init h0) [] = Some (h, log)"
    "regions_ok (page_align_up 0x200800) (0x200800 + 0x10000000) log"
    by blast
  ultimately show ?thesis using b by auto
qed

lemma all_free_single:
  assumes "heap_ok h L" "live a L = []"
  shows "\<exists>n. L = [(n, False)]"
proof -
  have f: "\<not> snd x" if "x \<in> set L" for x
    using that assms(2) by (induction a L rule: live.induct) (auto split: if_splits)
  obtain x M where x: "L = x # M" using assms(1) by (cases L) (auto simp: heap_ok_def)
  have "M = []" using assms(1) f x by (cases M) (auto simp: heap_ok_def)
  with f x show ?thesis by (cases x) auto
qed

text \<open>
  C28. Nothing leaks and nothing stays fragmented: when all blocks have been given back, in whatever
  order, the heap is again the single free block it was at boot, and the used size is one header.
\<close>

theorem heap_all_given_back:
  assumes "boots start sz h0" "\<forall>n. Get n \<in> set rs \<longrightarrow> heap_request n"
    and "serve heap_alloc heap_put rs (heap_init h0) [] = Some (h, [])"
  shows "\<exists>n. heap_ok (heap_init h0) [(n, False)] \<and> heap_ok h [(n, False)] \<and> h_used_size h = HEADER"
proof -
  obtain n lo where b: "heap_inv lo (lo + n) (heap_init h0) []" "heap_ok (heap_init h0) [(n - HEADER, False)]" "MIN_HEAP_SIZE \<le> n"
    using boots_inv [OF assms(1)] by blast
  have "heap_inv lo (lo + n) h []"
    using heap.serve_all [OF b(1) assms(2)] assms(3) by auto
  then obtain L where L: "heap_ok h L" "live lo L = []" "h_start h = lo" "h_end h = lo + n" by (auto simp: heap_inv_def)
  obtain k where k: "L = [(k, False)]" using all_free_single [OF L(1,2)] by blast
  have "h_end h = h_start h + span L" by (rule heap_ok_segs [OF L(1)])
  then have "k = n - HEADER" using L(3,4) b(3) by (simp add: k)
  then show ?thesis using b(2) L(1) k by (auto simp: heap_ok_def)
qed

theorem heap_all_given_back_witness:
  "\<exists>h0 h n. serve heap_alloc heap_put [Get 100, Put 0] (heap_init h0) [] = Some (h, []) \<and>
    heap_ok h [(n, False)] \<and> h_used_size h = HEADER"
proof -
  obtain h0 where b: "boots 0x200000 0x10000000 h0" using demo_boots by blast
  have rs: "\<forall>n. Get n \<in> set [Get 100, Put 0] \<longrightarrow> heap_request n" by (simp add: heap_request_def)
  obtain n lo where i: "heap_inv lo (lo + n) (heap_init h0) []" using boots_inv [OF b] by blast
  obtain h log where s: "serve heap_alloc heap_put [Get 100, Put 0] (heap_init h0) [] = Some (h, log)"
    using heap.serve_all [OF i rs] by blast
  then have "log = []" by (auto simp: drop_nth_def split: option.splits)
  with heap_all_given_back [OF b rs] s show ?thesis by blast
qed

text \<open>
  C16. The block list refines a list of sizes: allocation is first fit with splitting, failing only
  when no free block is big enough, and release joins the block with its free neighbours.
\<close>

theorem heap_refines_first_fit:
  assumes "heap_ok h L"
  shows "(0 < n \<and> n + 15 < SIZE_MOD \<longrightarrow>
      (case alloc_list (align_size n) L of
         None \<Rightarrow> heap_alloc n h = Some (None, h)
       | Some (off, L') \<Rightarrow> \<exists>h'. heap_alloc n h = Some (Some (h_start h + off), h') \<and> heap_ok h' L')) \<and>
    (L = L1 @ (m, True) # L2 \<longrightarrow> heap_ok (heap_free (h_start h + span L1 + HEADER) h) (give_back L1 m L2))"
  using heap_alloc_refines [OF assms, of n] heap_free_refines [of h L1 m L2] assms
  by (auto split: option.splits)

theorem heap_refines_first_fit_witness:
  "\<exists>h h'. heap_alloc 100 h = Some (Some 4128, h') \<and> heap_ok h' [(112, True), (848, False)]"
proof -
  have "alloc_list (align_size 100) [(992, False)] = Some (32, [(112, True), (848, False)])"
    by (simp add: alloc_list_def align_size_def add64_def fits_def cut_block_def)
  moreover note heap_refines_first_fit [of demo_heap "[(992, False)]" 100 "[]" 0 "[]"]
  ultimately show ?thesis using demo_heap_ok by auto
qed

text \<open>
  Aligned allocation: the result is a multiple of the alignment, the bytes asked for and the
  pointer stored in front of them lie in one live block, and freeing the result frees that block.
\<close>

theorem heap_aligned_block:
  assumes "heap_ok h L" "0 < n" "0 < al" "al AND (al - 1) = 0" "n + al + 23 < SIZE_MOD"
  shows "\<exists>p h'. heap_alloc_aligned n al h = Some (p, h') \<and>
    (case p of
       None \<Rightarrow> h' = h
     | Some a \<Rightarrow> a mod al = 0 \<and> (\<exists>L' r m. heap_ok h' L' \<and> (r, m) \<in> set (live (h_start h') L') \<and>
         r + POINTER \<le> a \<and> a + n \<le> r + m \<and> heap_free_aligned a h' = heap_free r h'))"
proof -
  let ?n = "n + al + POINTER"
  have ready: "heap_ready h = h" using assms(1) by (simp add: heap_ready_def heap_ok_def)
  have sz: "add64 (add64 n al) POINTER = ?n" "\<not> sub64 (sub64 (SIZE_MOD - 1) al) POINTER < n"
    using assms(5) by (simp_all add: wrap_simps)
  have eq: "heap_alloc_aligned n al h = heap_alloc ?n h \<bind> (\<lambda>(raw, h1). case raw of None \<Rightarrow> Some (None, h1)
      | Some r \<Rightarrow> let a = sub64 (add64 (add64 r POINTER) al) 1 div al * al
          in Some (Some a, h1\<lparr>stored := (stored h1)(sub64 a POINTER := r)\<rparr>))"
    using assms(2-4) sz by (simp add: heap_alloc_aligned_def Let_def ready)
  have "0 < ?n" "?n + 15 < SIZE_MOD" using assms(2,5) by simp_all
  note r = heap_alloc_refines [OF assms(1) this]
  show ?thesis
  proof (cases "alloc_list (align_size ?n) L")
    case None
    then show ?thesis using r by (simp add: eq)
  next
    case (Some x)
    obtain off L' where x: "x = (off, L')" by (cases x)
    obtain h1 where h1: "heap_alloc ?n h = Some (Some (h_start h + off), h1)" "heap_ok h1 L'" "h_start h1 = h_start h"
      using r Some x by auto
    obtain L1 m L2 where c: "align_size ?n \<le> m" "off = span L1 + HEADER" "L' = L1 @ cut_block (align_size ?n) m @ L2"
      using alloc_list_SomeE Some x by metis
    let ?k = "fst (hd (cut_block (align_size ?n) m))" let ?r = "h_start h + off"
    have k: "?n \<le> ?k" using c(1) align_size_props(1) [of ?n] assms(5) by (simp add: cut_block_def)
    have lv: "(?r, ?k) \<in> set (live (h_start h) L')"
      by (simp add: c(2,3) live_append live_cut [OF c(1)])
    have e: "h_end h1 = h_start h + span L'" "h_end h1 + MIN_BLOCK_SIZE < SIZE_MOD"
      using heap_ok_segs [OF h1(2)] h1(3) by metis+
    have b: "h_start h + HEADER \<le> ?r" "?r + ?k \<le> h_end h1" using live_bounds [OF lv] e(1) by simp_all
    define a where "a = (?r + POINTER + al - 1) div al * al"
    have a: "a mod al = 0" "?r + POINTER \<le> a" "a \<le> ?r + POINTER + al - 1"
      using dividend_less_div_times [OF assms(3), of "?r + POINTER + al - 1"] assms(3) by (simp_all add: a_def)
    let ?h' = "h1\<lparr>stored := (stored h1)(a - POINTER := ?r)\<rparr>"
    have res: "heap_alloc_aligned n al h = Some (Some a, ?h')"
      using eq h1(1) b e(2) k a(2) by (simp add: Let_def wrap_simps a_def)
    have ok': "heap_ok ?h' L'" using h1(2) by (simp add: heap_ok_def)
    have "heap_free_aligned a ?h' = heap_free ?r ?h'"
      using a b k e(2) h1(3) assms(2) by (simp add: heap_free_aligned_def Let_def wrap_simps)
    moreover have "a + n \<le> ?r + ?k" using a(3) k assms(3) by linarith
    ultimately show ?thesis using res ok' lv a(1,2) h1(3) by fastforce
  qed
qed

theorem heap_aligned_block_witness:
  "\<exists>h p h'. heap_alloc_aligned 100 64 h = Some (p, h') \<and> (case p of None \<Rightarrow> h' = h | Some a \<Rightarrow> a mod 64 = 0)"
proof -
  have "(64 :: nat) AND (64 - 1) = 0" by simp
  then show ?thesis
    using heap_aligned_block [of demo_heap "[(992, False)]" 100 64] demo_heap_ok
    by (fastforce split: option.splits)
qed

text \<open>
  The size is not checked before it is rounded up: a request for one of the last 15 sizes below
  \<open>2 ^ 64\<close> becomes one for nothing, and succeeds with a block of size 0.
\<close>

theorem heap_alloc_wraps:
  assumes "heap_ok h ((m, False) # L)" "MIN_BLOCK_SIZE \<le> m" "n < SIZE_MOD" "SIZE_MOD \<le> n + 15"
  shows "\<exists>h'. heap_alloc n h = Some (Some (h_start h + HEADER), h') \<and>
    heap_ok h' ((0, True) # (m - HEADER, False) # L)"
proof -
  have a: "align_size n = 0"
  proof -
    have "(n + 15) mod SIZE_MOD = n + 15 - SIZE_MOD" using assms(3,4) by (simp add: mod_if)
    then show ?thesis using assms(3) by (simp add: align_size_def add64_def)
  qed
  obtain p' where s: "segs (blocks h) None (h_free_list h) (h_start h) ((m, False) # L) p' None (h_end h)"
    and e: "h_end h = h_start h + span ((m, False) # L)" "h_end h + MIN_BLOCK_SIZE < SIZE_MOD"
    by (rule heap_ok_segs [OF assms(1)])
  have ready: "heap_ready h = h" using assms(1) by (simp add: heap_ready_def heap_ok_def)
  have "first_fit h 0 (h_free_list h) = Some (Some (h_start h))"
    using first_fit_segs [OF s, of 0] by (simp add: fits_def)
  moreover have "add64 (h_start h) HEADER = h_start h + HEADER" using e by (simp add: wrap_simps)
  ultimately have "heap_alloc n h = Some (Some (h_start h + HEADER), taken (h_start h) 0 h)"
    using assms(4) a by (simp add: heap_alloc_def Let_def ready take_block_def [symmetric] taken_def)
  then show ?thesis
    using taken_ok [of h "[]" m L 0] assms(1,2) by (simp add: cut_block_def)
qed

theorem heap_alloc_wraps_witness:
  "\<exists>h h'. heap_alloc 0xFFFFFFFFFFFFFFFF h = Some (Some 4128, h') \<and> heap_ok h' [(0, True), (960, False)]"
  using heap_alloc_wraps [of demo_heap 992 "[]" "0xFFFFFFFFFFFFFFFF"] demo_heap_ok by auto

end
