(* ===== verification/Bpe.thy ===== *)
theory Bpe
  imports Heap Interfaces
begin

text \<open>
  The tokenizer of \<^verbatim>\<open>src/kernel/ai/bpe_tokenizer.c\<close>: the vocabulary in a chained hash table with
  pooled entries, greedy longest-match encoding and decoding. A C string is the list of its
  bytes before the NUL. The pools and arrays are the blocks that \<open>heap_alloc\<close> of \<open>Heap\<close> returns:
  the state has their addresses and, beside them, their contents. Scores are the bit patterns of
  floats that are only copied. What the tokenizer reads of the loaded model through the accessor
  functions of the GGUF parser is a record.
\<close>

section \<open>State\<close>

abbreviation (input) BPE_MAX_TOKEN_LEN :: nat where "BPE_MAX_TOKEN_LEN \<equiv> 64"
abbreviation (input) BPE_HASH_SIZE :: nat where "BPE_HASH_SIZE \<equiv> 65536"
abbreviation (input) BPE_TYPE_SENTENCEPIECE :: int where "BPE_TYPE_SENTENCEPIECE \<equiv> 1"
abbreviation (input) BPE_TYPE_GPT2 :: int where "BPE_TYPE_GPT2 \<equiv> 2"

text \<open>\<open>sizeof\<close> of a pointer, a float and a \<^verbatim>\<open>struct bpe_vocab_entry\<close>.\<close>

abbreviation (input) FLOAT_SIZE :: nat where "FLOAT_SIZE \<equiv> 4"
abbreviation (input) ENTRY_SIZE :: nat where "ENTRY_SIZE \<equiv> 32"

record vocab_entry =
  etext :: "u8 list"
  token_id :: u32
  score :: u32
  elength :: u8
  enext :: "nat option"

record bpe =
  hash_table :: "nat option"
  id_to_text :: "nat option"
  scores :: "nat option"
  vocab_size :: u32
  bos_token :: u32
  eos_token :: u32
  unk_token :: u32
  tokenizer_type :: int
  initialized :: bool
  entry_pool :: "nat option"
  entry_pool_idx :: u32
  text_pool :: "nat option"
  text_pool_idx :: nat
  text_pool_size :: nat
  buckets :: "nat \<Rightarrow> nat option"
  texts :: "nat \<Rightarrow> u8 list option"
  token_scores :: "nat \<Rightarrow> u32"
  entries :: "nat \<Rightarrow> vocab_entry"

text \<open>The view of the loaded model: vocabulary and architecture.\<close>

record gguf_arch =
  bos_token_id :: u32
  eos_token_id :: u32
  tokenizer_model :: "u8 list"

record gguf =
  vocab_count :: u32
  vocab :: "nat \<Rightarrow> (u8 list option \<times> u32)"
  arch :: "gguf_arch option"

section \<open>The vocabulary\<close>

definition djb2_hash :: "u8 list \<Rightarrow> u32" where
  "djb2_hash str = foldl (\<lambda>hash c. (push_bit 5 hash + hash) + ucast c) 5381 str"

definition bucket_of :: "u8 list \<Rightarrow> nat" where
  "bucket_of text = unat (djb2_hash text) mod BPE_HASH_SIZE"

definition bpe_vocab_insert :: "u8 list option \<Rightarrow> u32 \<Rightarrow> u32 \<Rightarrow> bpe \<Rightarrow> int \<times> bpe" where
  "bpe_vocab_insert text0 tid sc s =
     (case text0 of None \<Rightarrow> (- 1, s) | Some text \<Rightarrow>
      if hash_table s = None \<or> entry_pool s = None \<or> text_pool s = None then (- 1, s)
      else if length text = 0 \<or> BPE_MAX_TOKEN_LEN < length text then (- 1, s)
      else if vocab_size s \<le> entry_pool_idx s then (- 1, s)
      else if text_pool_size s < text_pool_idx s + length text + 1 then (- 1, s)
      else
        let i = unat (entry_pool_idx s);
            hash = bucket_of text;
            e = \<lparr>etext = text, token_id = tid, score = sc, elength = of_nat (length text),
                 enext = buckets s hash\<rparr>;
            s1 = s\<lparr>entry_pool_idx := entry_pool_idx s + 1,
                   text_pool_idx := text_pool_idx s + (length text + 1),
                   entries := (entries s)(i := e),
                   buckets := (buckets s)(hash := Some i)\<rparr>
        in (0, if tid < vocab_size s1
               then s1\<lparr>texts := (texts s1)(unat tid := Some text),
                       token_scores := (token_scores s1)(unat tid := sc)\<rparr>
               else s1))"

text \<open>The walk along a collision chain; \<open>None\<close> would be a chain that does not end.\<close>

partial_function (option) find_entry :: "bpe \<Rightarrow> u8 list \<Rightarrow> nat option \<Rightarrow> int option" where
  "find_entry s text e =
     (case e of
        None \<Rightarrow> Some (- 1)
      | Some i \<Rightarrow>
          if unat (elength (entries s i)) = length text \<and> take (length text) (etext (entries s i)) = text
          then Some (sint (token_id (entries s i)))
          else find_entry s text (enext (entries s i)))"

definition bpe_vocab_lookup :: "u8 list \<Rightarrow> bpe \<Rightarrow> int option" where
  "bpe_vocab_lookup text s =
     (if hash_table s = None \<or> length text = 0 then Some (- 1)
      else find_entry s text (buckets s (bucket_of text)))"

section \<open>Encoding\<close>

text \<open>The search at a position: \<open>rest\<close> is the text from there, \<open>len\<close> the candidate length.\<close>

fun longest_match :: "bpe \<Rightarrow> u8 list \<Rightarrow> nat list \<Rightarrow> int \<times> nat \<Rightarrow> (int \<times> nat) option" where
  "longest_match s rest [] best = Some best"
| "longest_match s rest (len # lens) best = do {
     token_id \<leftarrow> bpe_vocab_lookup (take len rest) s;
     longest_match s rest lens (if 0 \<le> token_id then (token_id, len) else best) }"

definition hex_digits :: "u8 list" where
  "hex_digits = [48, 49, 50, 51, 52, 53, 54, 55, 56, 57, 65, 66, 67, 68, 69, 70]"

definition byte_token :: "u8 \<Rightarrow> u8 list" where
  "byte_token b =
     [60, 48, 120, hex_digits ! unat (drop_bit 4 b), hex_digits ! unat (b AND 0xF), 62]"

definition encode_step :: "bpe \<Rightarrow> u8 list \<Rightarrow> (int \<times> nat) option" where
  "encode_step s rest = do {
     (best_token, best_len) \<leftarrow>
       longest_match s rest [1..<min BPE_MAX_TOKEN_LEN (length rest) + 1] (- 1, 0);
     if 0 \<le> best_token then Some (best_token, best_len)
     else do {
       byte_id \<leftarrow> bpe_vocab_lookup (byte_token (hd rest)) s;
       Some (if 0 \<le> byte_id then byte_id else sint (unk_token s), 1) } }"

partial_function (option) bpe_encode_greedy :: "bpe \<Rightarrow> u8 list \<Rightarrow> int \<Rightarrow> int list option" where
  "bpe_encode_greedy s text max_tokens =
     (if text = [] \<or> max_tokens \<le> 0 then Some []
      else do {
        (tok, len) \<leftarrow> encode_step s text;
        toks \<leftarrow> bpe_encode_greedy s (drop len text) (max_tokens - 1);
        Some (tok # toks) })"

text \<open>The loops of \<open>bpe_preprocess_text\<close>; the limit is the wrapped \<^verbatim>\<open>max_len - 3\<close> or \<^verbatim>\<open>max_len - 4\<close>.\<close>

fun gpt2_loop :: "nat \<Rightarrow> bool \<Rightarrow> u8 list \<Rightarrow> u8 list \<Rightarrow> u8 list" where
  "gpt2_loop lim at_word_start out [] = out"
| "gpt2_loop lim at_word_start out (c # cs) =
     (if length out < lim
      then if c = 32 \<or> c = 9 then gpt2_loop lim True out cs
           else if c = 10 \<or> c = 13 then gpt2_loop lim True (out @ [c]) cs
           else gpt2_loop lim False (out @ (if at_word_start then [0xC4, 0xA0] else []) @ [c]) cs
      else out)"

fun sentencepiece_loop :: "nat \<Rightarrow> bool \<Rightarrow> u8 list \<Rightarrow> u8 list \<Rightarrow> u8 list" where
  "sentencepiece_loop lim at_word_start out [] = out"
| "sentencepiece_loop lim at_word_start out (c # cs) =
     (if length out < lim
      then if c = 32 \<or> c = 9 then sentencepiece_loop lim True out cs
           else if c = 10 \<or> c = 13 then sentencepiece_loop lim True (out @ [c]) cs
           else sentencepiece_loop lim False
             (out @ (if at_word_start \<and> out \<noteq> [] then [0xE2, 0x96, 0x81] else []) @ [c]) cs
      else out)"

definition bpe_preprocess_text :: "bpe \<Rightarrow> u8 list \<Rightarrow> nat \<Rightarrow> u8 list" where
  "bpe_preprocess_text s input max_len =
     (if tokenizer_type s = BPE_TYPE_GPT2 then gpt2_loop (sub64 max_len 3) False [] input
      else sentencepiece_loop (sub64 max_len 4) True [] input)"

text \<open>The text processed is never given back to the heap.\<close>

definition bpe_tokenizer_encode ::
    "u8 list \<Rightarrow> int \<Rightarrow> bool \<Rightarrow> bool \<Rightarrow> bpe \<Rightarrow> heap \<Rightarrow> (int list \<times> heap) option" where
  "bpe_tokenizer_encode text max_tokens add_bos add_eos s h =
     (if \<not> initialized s \<or> max_tokens \<le> 0 then Some ([], h)
      else do {
        let tokens = (if add_bos then [sint (bos_token s)] else []);
        (processed, h1) \<leftarrow> heap_alloc (length text * 4 + 1) h;
        if processed = None then Some (tokens, h1)
        else do {
          encoded \<leftarrow> bpe_encode_greedy s (bpe_preprocess_text s text (length text * 4))
            (max_tokens - int (length tokens) - 1);
          let tokens = tokens @ encoded;
          Some (if add_eos \<and> int (length tokens) < max_tokens then tokens @ [sint (eos_token s)]
                else tokens, h1) } })"

section \<open>Decoding\<close>

text \<open>
  \<open>room\<close> is \<^verbatim>\<open>max_len - 1\<close>; the output so far is \<open>out\<close>. \<open>copy_converted\<close> is the loop that also
  turns the markers of GPT-2 into a space and a newline.
\<close>

fun copy_bounded :: "int \<Rightarrow> u8 list \<Rightarrow> u8 list \<Rightarrow> u8 list" where
  "copy_bounded room out [] = out"
| "copy_bounded room out (c # cs) =
     (if int (length out) < room then copy_bounded room (out @ [c]) cs else out)"

fun copy_converted :: "int \<Rightarrow> u8 list \<Rightarrow> u8 list \<Rightarrow> u8 list" where
  "copy_converted room out [] = out"
| "copy_converted room out [c] = (if int (length out) < room then out @ [c] else out)"
| "copy_converted room out (c # c2 # cs) =
     (if int (length out) < room
      then if c = 0xC4 \<and> c2 = 0xA0 then copy_converted room (out @ [32]) cs
           else if c = 0xC4 \<and> c2 = 0x8A then copy_converted room (out @ [10]) cs
           else copy_converted room (out @ [c]) (c2 # cs)
      else out)"

definition decode_text :: "int \<Rightarrow> u8 list \<Rightarrow> u8 list \<Rightarrow> u8 list" where
  "decode_text room out t =
     (if take 3 t = [0xE2, 0x96, 0x81]
      then copy_bounded room
             (if out \<noteq> [] \<and> int (length out) < room then out @ [32] else out) (drop 3 t)
      else if take 2 t = [0xC4, 0xA0]
      then copy_bounded room (if int (length out) < room then out @ [32] else out) (drop 2 t)
      else copy_converted room out t)"

fun decode_loop :: "bpe \<Rightarrow> int \<Rightarrow> u8 list \<Rightarrow> int list \<Rightarrow> u8 list" where
  "decode_loop s room out [] = out"
| "decode_loop s room out (tok # toks) =
     (if int (length out) < room
      then decode_loop s room
             (if tok = sint (bos_token s) \<or> tok = sint (eos_token s) then out
              else if 0 \<le> tok \<and> tok < sint (vocab_size s)
              then (case texts s (nat tok) of None \<Rightarrow> out | Some t \<Rightarrow> decode_text room out t)
              else out) toks
      else out)"

definition bpe_tokenizer_decode :: "int list \<Rightarrow> int \<Rightarrow> bpe \<Rightarrow> u8 list" where
  "bpe_tokenizer_decode tokens max_len s =
     (if \<not> initialized s \<or> max_len \<le> 0 then [] else decode_loop s (max_len - 1) [] tokens)"

text \<open>The string literals are ASCII: \<^verbatim>\<open><not_init>\<close>, \<^verbatim>\<open><s>\<close>, \<^verbatim>\<open></s>\<close>, \<^verbatim>\<open><unk>\<close> and \<^verbatim>\<open><?>\<close>.\<close>

definition bpe_tokenizer_decode_token :: "int \<Rightarrow> bpe \<Rightarrow> u8 list" where
  "bpe_tokenizer_decode_token tok s =
     (if \<not> initialized s then [60, 110, 111, 116, 95, 105, 110, 105, 116, 62]
      else if tok = sint (bos_token s) then [60, 115, 62]
      else if tok = sint (eos_token s) then [60, 47, 115, 62]
      else if tok = sint (unk_token s) then [60, 117, 110, 107, 62]
      else
        let unknown = [60, 63, 62]
        in if 0 \<le> tok \<and> tok < sint (vocab_size s)
           then (case texts s (nat tok) of
                   None \<Rightarrow> unknown
                 | Some t \<Rightarrow>
                     if take 2 t = [0xC4, 0xA0] then 32 # take (BPE_MAX_TOKEN_LEN - 1) (drop 2 t) else t)
           else unknown)"

section \<open>Initialisation\<close>

text \<open>The names \<^verbatim>\<open>gpt2\<close>, \<^verbatim>\<open>smollm\<close>, \<^verbatim>\<open>llama\<close> and the prefix \<^verbatim>\<open>sentence\<close>.\<close>

definition detect_tokenizer_type :: "u8 list \<Rightarrow> int" where
  "detect_tokenizer_type m =
     (if m \<noteq> [] then
        if m = [103, 112, 116, 50] \<or> m = [115, 109, 111, 108, 108, 109] then BPE_TYPE_GPT2
        else if m = [108, 108, 97, 109, 97] \<or> take 8 m = [115, 101, 110, 116, 101, 110, 99, 101]
        then BPE_TYPE_SENTENCEPIECE
        else BPE_TYPE_GPT2
      else BPE_TYPE_GPT2)"

definition set_special_tokens :: "gguf_arch option \<Rightarrow> bpe \<Rightarrow> bpe" where
  "set_special_tokens a s =
     (case a of
        Some a \<Rightarrow> s\<lparr>bos_token := bos_token_id a, eos_token := eos_token_id a, unk_token := 0,
                    tokenizer_type := detect_tokenizer_type (tokenizer_model a)\<rparr>
      | None \<Rightarrow> s\<lparr>bos_token := 1, eos_token := 2, unk_token := 0, tokenizer_type := BPE_TYPE_GPT2\<rparr>)"

definition load_token :: "gguf \<Rightarrow> nat \<Rightarrow> bpe \<Rightarrow> bpe" where
  "load_token g i s =
     (case vocab g i of
        (Some text, sc) \<Rightarrow> if text \<noteq> [] then snd (bpe_vocab_insert (Some text) (of_nat i) sc s) else s
      | (None, sc) \<Rightarrow> s)"

definition load_tokens :: "gguf \<Rightarrow> nat \<Rightarrow> bpe \<Rightarrow> bpe" where
  "load_tokens g n s = fold (load_token g) [0..<n] s"

definition bpe_tokenizer_init :: "gguf \<Rightarrow> bpe \<Rightarrow> heap \<Rightarrow> (int \<times> bpe \<times> heap) option" where
  "bpe_tokenizer_init g s0 h0 =
     (if vocab_count g = 0 then Some (- 1, s0, h0)
      else
        let n = unat (vocab_count g); s1 = s0\<lparr>vocab_size := vocab_count g\<rparr>
        in do {
          (p1, h1) \<leftarrow> heap_alloc (BPE_HASH_SIZE * POINTER) h0;
          let s2 = s1\<lparr>hash_table := p1\<rparr>;
          if p1 = None then Some (- 1, s2, h1) else do {
          let s2 = s2\<lparr>buckets := \<lambda>_. None\<rparr>;
          (p2, h2) \<leftarrow> heap_alloc (n * POINTER) h1;
          let s3 = s2\<lparr>id_to_text := p2\<rparr>;
          if p2 = None then Some (- 1, s3, h2) else do {
          let s3 = s3\<lparr>texts := \<lambda>_. None\<rparr>;
          (p3, h3) \<leftarrow> heap_alloc (n * FLOAT_SIZE) h2;
          let s4 = s3\<lparr>scores := p3\<rparr>;
          if p3 = None then Some (- 1, s4, h3) else do {
          let s4 = s4\<lparr>token_scores := \<lambda>_. 0\<rparr>;
          (p4, h4) \<leftarrow> heap_alloc (n * ENTRY_SIZE) h3;
          let s5 = s4\<lparr>entry_pool := p4\<rparr>;
          if p4 = None then Some (- 1, s5, h4) else do {
          let s5 = s5\<lparr>entry_pool_idx := 0, text_pool_size := unat (vocab_count g * 16)\<rparr>;
          (p5, h5) \<leftarrow> heap_alloc (text_pool_size s5) h4;
          let s6 = s5\<lparr>text_pool := p5\<rparr>;
          if p5 = None then Some (- 1, s6, h5)
          else
            let s7 = set_special_tokens (arch g) (s6\<lparr>text_pool_idx := 0\<rparr>)
            in Some (0, (load_tokens g n s7)\<lparr>initialized := True\<rparr>, h5) } } } } })"

text \<open>Queries.\<close>

definition bpe_tokenizer_get_vocab_size :: "bpe \<Rightarrow> u32" where
  "bpe_tokenizer_get_vocab_size s = vocab_size s"

definition bpe_tokenizer_get_bos :: "bpe \<Rightarrow> u32" where
  "bpe_tokenizer_get_bos s = bos_token s"

definition bpe_tokenizer_get_eos :: "bpe \<Rightarrow> u32" where
  "bpe_tokenizer_get_eos s = eos_token s"

definition bpe_tokenizer_is_initialized :: "bpe \<Rightarrow> bool" where
  "bpe_tokenizer_is_initialized s = initialized s"

section \<open>The table invariant\<close>

definition entry_index :: "bpe \<Rightarrow> nat list" where
  "entry_index s = rev [0..<unat (entry_pool_idx s)]"

lemma entry_index_iff [simp]: "i \<in> set (entry_index s) \<longleftrightarrow> i < unat (entry_pool_idx s)"
  by (simp add: entry_index_def)

definition bpe_ok :: "bpe \<Rightarrow> bool" where
  "bpe_ok s \<longleftrightarrow> hash_table s \<noteq> None \<and> entry_pool s \<noteq> None \<and> text_pool s \<noteq> None
     \<and> entry_pool_idx s \<le> vocab_size s \<and> unat (vocab_size s) < 2 ^ 31
     \<and> (\<forall>i < unat (entry_pool_idx s). etext (entries s i) \<noteq> []
          \<and> length (etext (entries s i)) \<le> BPE_MAX_TOKEN_LEN
          \<and> elength (entries s i) = of_nat (length (etext (entries s i)))
          \<and> token_id (entries s i) < vocab_size s)
     \<and> (\<forall>b. chain (\<lambda>i. enext (entries s i)) (buckets s b)
          (filter (\<lambda>i. bucket_of (etext (entries s i)) = b) (entry_index s)))"

text \<open>What the table holds: the newest entry with a text counts.\<close>

definition bpe_view :: "bpe \<Rightarrow> u8 list \<Rightarrow> u32 option" where
  "bpe_view s = map_of (map (\<lambda>i. (etext (entries s i), token_id (entries s i))) (entry_index s))"

lemma find_entry_chain:
  assumes "chain (\<lambda>i. enext (entries s i)) p xs"
    and "\<forall>i\<in>set xs. elength (entries s i) = of_nat (length (etext (entries s i)))
           \<and> length (etext (entries s i)) \<le> BPE_MAX_TOKEN_LEN"
  shows "find_entry s t p = Some (case map_of (map (\<lambda>i. (etext (entries s i), token_id (entries s i))) xs) t of
     None \<Rightarrow> - 1 | Some tid \<Rightarrow> sint tid)"
  using assms
proof (induction xs arbitrary: p)
  case Nil
  then show ?case by (simp add: find_entry.simps)
next
  case (Cons i xs)
  have "unat (elength (entries s i)) = length (etext (entries s i))"
    using Cons.prems(2) by (simp add: unat_of_nat)
  then have "unat (elength (entries s i)) = length t \<and> take (length t) (etext (entries s i)) = t
      \<longleftrightarrow> etext (entries s i) = t"
    by auto
  with Cons show ?case
    by (subst find_entry.simps) auto
qed

lemma map_of_filter_key:
  "(\<And>i. i \<in> set xs \<Longrightarrow> f i = t \<Longrightarrow> P i) \<Longrightarrow>
   map_of (map (\<lambda>i. (f i, g i)) (filter P xs)) t = map_of (map (\<lambda>i. (f i, g i)) xs) t"
  by (induction xs) auto

lemma bpe_ok_entry:
  assumes "bpe_ok s" "i < unat (entry_pool_idx s)"
  shows "etext (entries s i) \<noteq> []" "length (etext (entries s i)) \<le> BPE_MAX_TOKEN_LEN"
    "token_id (entries s i) < vocab_size s"
    "elength (entries s i) = of_nat (length (etext (entries s i)))"
  using assms unfolding bpe_ok_def by blast+

lemma bpe_view_less:
  assumes "bpe_ok s" "bpe_view s t = Some tid"
  shows "tid < vocab_size s" "t \<noteq> []" "length t \<le> BPE_MAX_TOKEN_LEN"
proof -
  from assms(2) have "(t, tid) \<in> set (map (\<lambda>i. (etext (entries s i), token_id (entries s i))) (entry_index s))"
    unfolding bpe_view_def by (rule map_of_SomeD)
  then obtain i where "i \<in> set (entry_index s)" "t = etext (entries s i)" "tid = token_id (entries s i)"
    unfolding set_map by blast
  moreover from this have "i < unat (entry_pool_idx s)"
    by simp
  ultimately show "tid < vocab_size s" "t \<noteq> []" "length t \<le> BPE_MAX_TOKEN_LEN"
    using bpe_ok_entry [OF assms(1), of i] by simp_all
qed

lemma sint_small: "unat (x :: u32) < 2 ^ 31 \<Longrightarrow> sint x = int (unat x)"
proof -
  assume "unat x < 2 ^ 31"
  then have "uint x < 2 ^ 31"
    by (metis of_nat_less_iff of_nat_numeral of_nat_power uint_nat)
  moreover have "- 2147483648 \<le> uint x"
    by (rule order_trans [OF _ uint_ge_0]) simp
  ultimately have "sint x = uint x"
    unfolding sint_uint by (intro signed_take_bit_int_eq_self) simp_all
  then show ?thesis by (simp only: uint_nat)
qed

lemma bpe_ok_chain:
  "bpe_ok s \<Longrightarrow> chain (\<lambda>i. enext (entries s i)) (buckets s b)
     (filter (\<lambda>i. bucket_of (etext (entries s i)) = b) (entry_index s))"
  unfolding bpe_ok_def by blast

lemma bpe_lookup:
  assumes "bpe_ok s"
  shows "bpe_vocab_lookup t s = Some (case bpe_view s t of None \<Rightarrow> - 1 | Some tid \<Rightarrow> int (unat tid))"
proof (cases "t = []")
  case True
  then show ?thesis
    using bpe_view_less(2) [OF assms] by (cases "bpe_view s t") (auto simp: bpe_vocab_lookup_def)
next
  case False
  let ?e = "\<lambda>i. etext (entries s i)"
  have "bpe_vocab_lookup t s = Some (case map_of (map (\<lambda>i. (?e i, token_id (entries s i)))
      (filter (\<lambda>i. bucket_of (?e i) = bucket_of t) (entry_index s))) t of None \<Rightarrow> - 1 | Some tid \<Rightarrow> sint tid)"
    using find_entry_chain [OF bpe_ok_chain [OF assms], of "bucket_of t" t] bpe_ok_entry [OF assms]
      assms False
    by (auto simp: bpe_vocab_lookup_def bpe_ok_def)
  then have "bpe_vocab_lookup t s = Some (case bpe_view s t of None \<Rightarrow> - 1 | Some tid \<Rightarrow> sint tid)"
    by (simp add: bpe_view_def map_of_filter_key)
  moreover have "sint tid = int (unat tid)" if "bpe_view s t = Some tid" for tid
    using bpe_view_less(1) [OF assms that] assms
    by (intro sint_small) (simp add: bpe_ok_def word_less_nat_alt)
  ultimately show ?thesis
    by (simp split: option.split)
qed

section \<open>The vocabulary as a lookup table\<close>

definition insertable :: "u8 list \<Rightarrow> bpe \<Rightarrow> bool" where
  "insertable t s \<longleftrightarrow> t \<noteq> [] \<and> length t \<le> BPE_MAX_TOKEN_LEN \<and> entry_pool_idx s < vocab_size s
     \<and> text_pool_idx s + length t + 1 \<le> text_pool_size s"

lemma bpe_insert_refused:
  "bpe_ok s \<Longrightarrow> \<not> insertable t s \<Longrightarrow> bpe_vocab_insert (Some t) tid sc s = (- 1, s)"
  by (auto simp: bpe_vocab_insert_def insertable_def bpe_ok_def)

text \<open>The state after an insertion that is not refused.\<close>

definition inserted :: "u8 list \<Rightarrow> u32 \<Rightarrow> u32 \<Rightarrow> bpe \<Rightarrow> bpe" where
  "inserted t tid sc s =
     (let i = unat (entry_pool_idx s); b = bucket_of t
      in s\<lparr>entry_pool_idx := entry_pool_idx s + 1, text_pool_idx := text_pool_idx s + (length t + 1),
           entries := (entries s)(i := \<lparr>etext = t, token_id = tid, score = sc,
             elength = of_nat (length t), enext = buckets s b\<rparr>),
           buckets := (buckets s)(b := Some i), texts := (texts s)(unat tid := Some t),
           token_scores := (token_scores s)(unat tid := sc)\<rparr>)"

lemma bpe_insert_accepted:
  assumes "bpe_ok s" "insertable t s" "tid < vocab_size s"
  shows "bpe_vocab_insert (Some t) tid sc s = (0, inserted t tid sc s)"
  using assms by (auto simp: bpe_vocab_insert_def insertable_def bpe_ok_def inserted_def Let_def not_le not_less)

lemma idx_succ: "entry_pool_idx s < vocab_size s \<Longrightarrow> unat (entry_pool_idx s + 1) = Suc (unat (entry_pool_idx s))"
  using unsigned_less_nat [of "vocab_size s"] by (simp add: unat_word_ariths word_less_nat_alt)

lemma inserted_index:
  "insertable t s \<Longrightarrow> entry_index (inserted t tid sc s) = unat (entry_pool_idx s) # entry_index s"
  by (simp add: entry_index_def inserted_def insertable_def Let_def idx_succ)

lemma inserted_new:
  "entries (inserted t tid sc s) (unat (entry_pool_idx s)) = \<lparr>etext = t, token_id = tid,
     score = sc, elength = of_nat (length t), enext = buckets s (bucket_of t)\<rparr>"
  by (simp add: inserted_def Let_def)

lemma inserted_old:
  "i \<noteq> unat (entry_pool_idx s) \<Longrightarrow> entries (inserted t tid sc s) i = entries s i"
  by (simp add: inserted_def Let_def)

lemma inserted_buckets: "buckets (inserted t tid sc s) =
    (buckets s)(bucket_of t := Some (unat (entry_pool_idx s)))"
  by (simp add: inserted_def Let_def)

lemma inserted_view:
  assumes "insertable t s"
  shows "bpe_view (inserted t tid sc s) = (bpe_view s)(t \<mapsto> tid)"
proof -
  have "map (\<lambda>i. (etext (entries (inserted t tid sc s) i), token_id (entries (inserted t tid sc s) i))) (entry_index s)
      = map (\<lambda>i. (etext (entries s i), token_id (entries s i))) (entry_index s)"
    by (auto simp: inserted_old)
  then show ?thesis
    unfolding bpe_view_def inserted_index [OF assms] by (simp add: inserted_new del: map_eq_conv)
qed

lemma inserted_ok:
  assumes ok: "bpe_ok s" and t: "insertable t s" and tid: "tid < vocab_size s"
  shows "bpe_ok (inserted t tid sc s)"
proof -
  let ?s = "inserted t tid sc s" and ?i = "unat (entry_pool_idx s)"
  have fresh: "?i \<notin> set (filter P (entry_index s))" for P
    by simp
  have same: "filter (\<lambda>i. bucket_of (etext (entries ?s i)) = b) (entry_index s)
      = filter (\<lambda>i. bucket_of (etext (entries s i)) = b) (entry_index s)" for b
    by (rule filter_cong) (auto simp: inserted_old)
  have old: "chain (\<lambda>i. enext (entries ?s i)) p (filter P (entry_index s))
      = chain (\<lambda>i. enext (entries s i)) p (filter P (entry_index s))" for p P
    by (rule chain_cong) (auto simp: inserted_old)
  have chains: "chain (\<lambda>i. enext (entries ?s i)) (buckets ?s b)
      (filter (\<lambda>i. bucket_of (etext (entries ?s i)) = b) (entry_index ?s))" for b
    using bpe_ok_chain [OF ok, of b]
    by (auto simp: inserted_index [OF t] same old inserted_new inserted_buckets)
  have small: "i < Suc ?i \<Longrightarrow> etext (entries ?s i) \<noteq> []
       \<and> length (etext (entries ?s i)) \<le> BPE_MAX_TOKEN_LEN
       \<and> elength (entries ?s i) = of_nat (length (etext (entries ?s i)))
       \<and> token_id (entries ?s i) < vocab_size s" for i
    using bpe_ok_entry [OF ok, of i] t tid
    by (cases "i = ?i") (auto simp: inserted_new inserted_old insertable_def)
  have fields: "hash_table ?s = hash_table s" "entry_pool ?s = entry_pool s" "text_pool ?s = text_pool s"
    "vocab_size ?s = vocab_size s" "entry_pool_idx ?s = entry_pool_idx s + 1"
    by (simp_all add: inserted_def Let_def)
  have "entry_pool_idx s + 1 \<le> vocab_size s" "unat (entry_pool_idx s + 1) = Suc ?i"
    using t by (auto simp: insertable_def idx_succ inc_le)
  with ok chains small show ?thesis
    unfolding bpe_ok_def fields by simp
qed

definition bpe_get :: "u8 list \<Rightarrow> bpe \<Rightarrow> u32 option option" where
  "bpe_get t s = do { r \<leftarrow> bpe_vocab_lookup t s; Some (if r < 0 then None else Some (of_int r)) }"

definition bpe_put :: "u8 list \<Rightarrow> u32 \<times> u32 \<Rightarrow> bpe \<Rightarrow> bpe option" where
  "bpe_put t x s = (case x of (tid, sc) \<Rightarrow>
     if tid < vocab_size s
     then (case bpe_vocab_insert (Some t) tid sc s of (r, s') \<Rightarrow> if r = 0 then Some s' else None)
     else None)"

lemma bpe_put_alt:
  "bpe_ok s \<Longrightarrow> bpe_put t x s =
     (if fst x < vocab_size s \<and> insertable t s then Some (inserted t (fst x) (snd x) s) else None)"
  by (auto simp: bpe_put_def bpe_insert_refused bpe_insert_accepted split: prod.splits)

interpretation vocab: lookup_table bpe_ok bpe_view fst bpe_get bpe_put
proof
  fix s s' t and x :: "u32 \<times> u32"
  assume ok: "bpe_ok s"
  show "bpe_get t s = Some (bpe_view s t)"
    by (cases "bpe_view s t") (simp_all add: bpe_get_def bpe_lookup [OF ok])
  assume "bpe_put t x s = Some s'"
  then have s': "s' = inserted t (fst x) (snd x) s" "fst x < vocab_size s" "insertable t s"
    by (auto simp: bpe_put_alt [OF ok] split: if_splits)
  show "bpe_ok s'" "bpe_view s' = (bpe_view s)(t \<mapsto> fst x)"
    unfolding s'(1) by (rule inserted_ok inserted_view; use ok s' in simp)+
qed

section \<open>Loading the vocabulary\<close>

definition vocab_pairs :: "gguf \<Rightarrow> nat \<Rightarrow> (u8 list \<times> u32 \<times> u32) list" where
  "vocab_pairs g n = concat (map (\<lambda>i. case vocab g i of
     (Some t, sc) \<Rightarrow> if t = [] then [] else [(t, of_nat i, sc)] | (None, sc) \<Rightarrow> []) [0..<n])"

definition pairs_cost :: "(u8 list \<times> 'x) list \<Rightarrow> nat" where
  "pairs_cost ps = sum_list (map (\<lambda>(t, x). length t + 1) ps)"

lemma vocab_pairs_Suc: "vocab_pairs g (Suc n) = vocab_pairs g n @ (case vocab g n of
     (Some t, sc) \<Rightarrow> if t = [] then [] else [(t, of_nat n, sc)] | (None, sc) \<Rightarrow> [])"
  by (simp add: vocab_pairs_def)

lemma inserted_vocab_size [simp]: "vocab_size (inserted t tid sc s) = vocab_size s"
  by (simp add: inserted_def Let_def)

lemma puts_vocab_size: "bpe_ok s \<Longrightarrow> vocab_size (vocab.puts ps s) = vocab_size s"
proof (induction ps s rule: vocab.puts.induct)
  case (2 t x ps s)
  then show ?case
    by (cases "bpe_put t x s") (auto simp: bpe_put_alt inserted_ok split: if_splits)
qed simp

lemma load_token_put:
  "bpe_ok s \<Longrightarrow> of_nat i < vocab_size s \<Longrightarrow> t \<noteq> [] \<Longrightarrow> vocab g i = (Some t, sc) \<Longrightarrow>
   load_token g i s = vocab.puts [(t, of_nat i, sc)] s"
  by (cases "insertable t s") (simp_all add: load_token_def bpe_put_alt bpe_insert_refused bpe_insert_accepted)

lemma load_tokens_puts:
  assumes "bpe_ok s" "n \<le> unat (vocab_size s)"
  shows "load_tokens g n s = vocab.puts (vocab_pairs g n) s"
  using assms(2)
proof (induction n)
  case 0
  then show ?case by (simp add: load_tokens_def vocab_pairs_def)
next
  case (Suc n)
  let ?s = "vocab.puts (vocab_pairs g n) s"
  have "of_nat n < vocab_size ?s" "bpe_ok ?s"
    using Suc.prems unsigned_less_nat [of "vocab_size s"]
    by (auto simp: puts_vocab_size assms(1) word_less_nat_alt unat_of_nat vocab.puts_inv)
  with Suc show ?case
    by (auto simp: load_tokens_def vocab_pairs_Suc vocab.puts_append load_token_put
        split: prod.splits option.splits) (auto simp: load_token_def)
qed

end
