(* ===== verification/BpeFlow.thy ===== *)
theory BpeFlow
  imports Bpe HeapFlow "HOL-Library.Sublist"
begin

text \<open>
  What the tokenizer of \<open>Bpe\<close> guarantees: initialisation fills the table with the vocabulary of the
  model on a heap that stays consistent, encoding takes the longest token at every position, and
  decoding gives the text back.
\<close>

section \<open>A vocabulary that fits\<close>

definition short_pairs :: "(u8 list \<times> 'x) list \<Rightarrow> (u8 list \<times> 'x) list" where
  "short_pairs ps = filter (\<lambda>(t, x). length t \<le> BPE_MAX_TOKEN_LEN) ps"

lemma short_pairs_simps [simp]:
  "short_pairs [] = []"
  "short_pairs ((t, x) # ps) = (if length t \<le> BPE_MAX_TOKEN_LEN then (t, x) # short_pairs ps else short_pairs ps)"
  by (simp_all add: short_pairs_def)

lemma pairs_cost_simps [simp]:
  "pairs_cost [] = 0" "pairs_cost ((t, x) # ps) = length t + 1 + pairs_cost ps"
  by (simp_all add: pairs_cost_def)

text \<open>Room in both pools, and identifiers in range.\<close>

definition pairs_fit :: "(u8 list \<times> u32 \<times> u32) list \<Rightarrow> bpe \<Rightarrow> bool" where
  "pairs_fit ps s \<longleftrightarrow> (\<forall>(t, tid, sc) \<in> set ps. t \<noteq> [] \<and> tid < vocab_size s)
     \<and> unat (entry_pool_idx s) + length ps \<le> unat (vocab_size s)
     \<and> text_pool_idx s + pairs_cost (short_pairs ps) \<le> text_pool_size s"

lemma pairs_fit_Cons:
  assumes "bpe_ok s" "pairs_fit ((t, tid, sc) # ps) s"
  shows "if length t \<le> BPE_MAX_TOKEN_LEN
    then bpe_put t (tid, sc) s = Some (inserted t tid sc s) \<and> pairs_fit ps (inserted t tid sc s)
    else bpe_put t (tid, sc) s = None \<and> pairs_fit ps s"
proof -
  have r: "t \<noteq> []" "tid < vocab_size s" "unat (entry_pool_idx s) < unat (vocab_size s)"
    using assms(2) by (auto simp: pairs_fit_def)
  show ?thesis
  proof (cases "length t \<le> BPE_MAX_TOKEN_LEN")
    case True
    with assms(2) r have i: "insertable t s"
      by (simp add: insertable_def word_less_nat_alt) (simp add: pairs_fit_def)
    moreover have "pairs_fit ps (inserted t tid sc s)"
      using assms(2) i idx_succ [of s] True
      by (simp add: pairs_fit_def insertable_def) (simp add: inserted_def Let_def)
    ultimately show ?thesis
      using True r assms(1) by (simp add: bpe_put_alt)
  next
    case False
    with assms show ?thesis
      by (simp add: bpe_put_alt insertable_def) (simp add: pairs_fit_def)
  qed
qed

lemma stored_all:
  "bpe_ok s \<Longrightarrow> pairs_fit ps s \<Longrightarrow> vocab.stored ps s = map (\<lambda>(t, x). (t, fst x)) (short_pairs ps)"
proof (induction ps arbitrary: s)
  case (Cons p ps)
  obtain t tid sc where p: "p = (t, tid, sc)" by (cases p)
  note f = pairs_fit_Cons [OF Cons.prems [unfolded p]]
  show ?case
  proof (cases "length t \<le> BPE_MAX_TOKEN_LEN")
    case True
    with f have put: "bpe_put t (tid, sc) s = Some (inserted t tid sc s)" "pairs_fit ps (inserted t tid sc s)"
      by auto
    then have "bpe_ok (inserted t tid sc s)"
      using vocab.put_inv [OF Cons.prems(1)] by blast
    with Cons.IH put True show ?thesis by (simp add: p)
  next
    case False
    with f Cons show ?thesis by (simp add: p)
  qed
qed simp

text \<open>The text of every identifier in the table.\<close>

definition names_ok :: "bpe \<Rightarrow> bool" where
  "names_ok s \<longleftrightarrow> (\<forall>i < unat (entry_pool_idx s).
     texts s (unat (token_id (entries s i))) = Some (etext (entries s i)))"

lemma names_ok_view: "names_ok s \<Longrightarrow> bpe_view s t = Some tid \<Longrightarrow> texts s (unat tid) = Some t"
  unfolding bpe_view_def names_ok_def by (drule map_of_SomeD) auto

definition used_ids :: "bpe \<Rightarrow> u32 set" where
  "used_ids s = (\<lambda>i. token_id (entries s i)) ` {..<unat (entry_pool_idx s)}"

lemma inserted_names:
  assumes "insertable t s" "names_ok s" "tid \<notin> used_ids s"
  shows "names_ok (inserted t tid sc s)" "used_ids (inserted t tid sc s) = insert tid (used_ids s)"
proof -
  let ?s = "inserted t tid sc s" and ?n = "unat (entry_pool_idx s)"
  have n: "unat (entry_pool_idx ?s) = Suc ?n"
    using assms(1) by (simp add: inserted_def Let_def insertable_def idx_succ)
  have texts: "texts ?s = (texts s)(unat tid := Some t)"
    by (simp add: inserted_def Let_def)
  have "texts ?s (unat (token_id (entries ?s i))) = Some (etext (entries ?s i))" if "i < Suc ?n" for i
  proof (cases "i = ?n")
    case False
    with that have "i < ?n" by simp
    moreover from this assms(3) have "token_id (entries s i) \<noteq> tid"
      by (auto simp: used_ids_def)
    ultimately show ?thesis
      using assms(2) word_unat_eq_iff by (auto simp: texts inserted_old names_ok_def)
  qed (simp add: texts inserted_new)
  then show "names_ok ?s"
    by (simp add: names_ok_def n)
  show "used_ids ?s = insert tid (used_ids s)"
    unfolding used_ids_def n lessThan_Suc by (auto simp: inserted_new inserted_old image_iff)
qed

lemma puts_names:
  "bpe_ok s \<Longrightarrow> names_ok s \<Longrightarrow> distinct (map (fst \<circ> snd) ps) \<Longrightarrow> (fst \<circ> snd) ` set ps \<inter> used_ids s = {}
   \<Longrightarrow> names_ok (vocab.puts ps s)"
proof (induction ps arbitrary: s)
  case (Cons p ps)
  obtain t tid sc where p: "p = (t, tid, sc)" by (cases p)
  show ?case
  proof (cases "tid < vocab_size s \<and> insertable t s")
    case True
    with Cons.prems p have "names_ok (inserted t tid sc s)" "used_ids (inserted t tid sc s) = insert tid (used_ids s)"
        "bpe_ok (inserted t tid sc s)"
      using inserted_names [of t s tid sc] inserted_ok [of s t tid sc] by auto
    with Cons p True show ?thesis
      by (auto simp: bpe_put_alt)
  next
    case False
    with Cons p show ?thesis by (auto simp: bpe_put_alt)
  qed
qed simp

lemma vocab_pairs_ids:
  assumes "n < 2 ^ 32"
  shows "distinct (map (fst \<circ> snd) (vocab_pairs g n)) \<and> (\<forall>(t, tid, sc) \<in> set (vocab_pairs g n). t \<noteq> [] \<and> unat tid < n)
    \<and> length (vocab_pairs g n) \<le> n"
  using assms
proof (induction n)
  case 0
  then show ?case by (simp add: vocab_pairs_def)
next
  case (Suc n)
  then have u: "unat (of_nat n :: u32) = n"
    by (simp add: unat_of_nat)
  show ?case
    using Suc u by (auto simp: vocab_pairs_Suc split: prod.splits option.splits)
qed

section \<open>Initialisation\<close>

text \<open>The state just before the vocabulary is loaded.\<close>

definition table_empty :: "gguf \<Rightarrow> bpe \<Rightarrow> bool" where
  "table_empty g s \<longleftrightarrow> hash_table s \<noteq> None \<and> entry_pool s \<noteq> None \<and> text_pool s \<noteq> None
     \<and> vocab_size s = vocab_count g \<and> entry_pool_idx s = 0 \<and> text_pool_idx s = 0
     \<and> text_pool_size s = unat (vocab_count g * 16) \<and> (\<forall>b. buckets s b = None)"

definition allocated ::
    "gguf \<Rightarrow> nat option \<Rightarrow> nat option \<Rightarrow> nat option \<Rightarrow> nat option \<Rightarrow> nat option \<Rightarrow> bpe \<Rightarrow> bpe" where
  "allocated g p1 p2 p3 p4 p5 s = s\<lparr>vocab_size := vocab_count g, hash_table := p1, buckets := \<lambda>_. None,
     id_to_text := p2, texts := \<lambda>_. None, scores := p3, token_scores := \<lambda>_. 0, entry_pool := p4,
     entry_pool_idx := 0, text_pool_size := unat (vocab_count g * 16), text_pool := p5, text_pool_idx := 0\<rparr>"

lemma allocated_empty:
  "p1 \<noteq> (None :: nat option) \<Longrightarrow> p4 \<noteq> None \<Longrightarrow> p5 \<noteq> None \<Longrightarrow>
   table_empty g (set_special_tokens (arch g) (allocated g p1 p2 p3 p4 p5 s))"
  by (simp add: table_empty_def set_special_tokens_def allocated_def split: option.split)

lemma init_allocated:
  assumes "vocab_count g \<noteq> 0"
    and "heap_alloc (BPE_HASH_SIZE * POINTER) h = Some (Some p1, h1)"
    and "heap_alloc (unat (vocab_count g) * POINTER) h1 = Some (Some p2, h2)"
    and "heap_alloc (unat (vocab_count g) * FLOAT_SIZE) h2 = Some (Some p3, h3)"
    and "heap_alloc (unat (vocab_count g) * ENTRY_SIZE) h3 = Some (Some p4, h4)"
    and "heap_alloc (unat (vocab_count g * 16)) h4 = Some (Some p5, h5)"
  shows "bpe_tokenizer_init g s h = Some (0, (load_tokens g (unat (vocab_count g)) (set_special_tokens (arch g)
    (allocated g (Some p1) (Some p2) (Some p3) (Some p4) (Some p5) s)))\<lparr>initialized := True\<rparr>, h5)"
  using assms by (simp add: bpe_tokenizer_init_def Let_def allocated_def)

lemma table_empty_facts:
  assumes "table_empty g s" "unat (vocab_count g) < 2 ^ 31"
  shows "bpe_ok s" "names_ok s" "used_ids s = {}" "bpe_view s = Map.empty"
  using assms by (simp_all add: table_empty_def bpe_ok_def names_ok_def used_ids_def bpe_view_def entry_index_def)

definition token_map :: "gguf \<Rightarrow> u8 list \<Rightarrow> u32 option" where
  "token_map g = map_of (rev (map (\<lambda>(t, x). (t, fst x))
     (short_pairs (vocab_pairs g (unat (vocab_count g))))))"

definition texts_fit :: "gguf \<Rightarrow> bool" where
  "texts_fit g \<longleftrightarrow> 0 < unat (vocab_count g) \<and> unat (vocab_count g) < 2 ^ 28
     \<and> pairs_cost (short_pairs (vocab_pairs g (unat (vocab_count g)))) \<le> unat (vocab_count g) * 16"

text \<open>A loaded tokenizer: consistent, and every identifier of the table has its text.\<close>

definition bpe_loaded :: "bpe \<Rightarrow> bool" where
  "bpe_loaded s \<longleftrightarrow> initialized s \<and> bpe_ok s \<and> names_ok s"

lemma initialized_frame [simp]:
  "bpe_ok (s\<lparr>initialized := b\<rparr>) = bpe_ok s" "names_ok (s\<lparr>initialized := b\<rparr>) = names_ok s"
  "bpe_view (s\<lparr>initialized := b\<rparr>) = bpe_view s"
  by (simp_all add: bpe_ok_def names_ok_def bpe_view_def entry_index_def)

lemma load_tokens_loaded:
  assumes e: "table_empty g s" and f: "texts_fit g"
  shows "bpe_loaded ((load_tokens g (unat (vocab_count g)) s)\<lparr>initialized := True\<rparr>)"
    "bpe_view ((load_tokens g (unat (vocab_count g)) s)\<lparr>initialized := True\<rparr>) = token_map g"
proof -
  let ?n = "unat (vocab_count g)" and ?ps = "vocab_pairs g (unat (vocab_count g))"
  have n: "?n < 2 ^ 28" "?n < 2 ^ 31" "?n < 2 ^ 32"
    using f unsigned_less_nat [of "vocab_count g"] by (simp_all add: texts_fit_def)
  note s = table_empty_facts [OF e n(2)] and ids = vocab_pairs_ids [OF n(3), of g]
  have load: "load_tokens g ?n s = vocab.puts ?ps s"
    using e by (intro load_tokens_puts s) (simp add: table_empty_def)
  have "unat (vocab_count g * 16) = ?n * 16"
    using n(1) by (simp add: unat_word_ariths)
  with e f ids have "pairs_fit ?ps s"
    by (auto simp: pairs_fit_def table_empty_def texts_fit_def word_less_nat_alt)
  from stored_all [OF s(1) this] show "bpe_view ((load_tokens g ?n s)\<lparr>initialized := True\<rparr>) = token_map g"
    using vocab.puts_view [OF s(1), of ?ps] by (simp add: load s(4) token_map_def)
  show "bpe_loaded ((load_tokens g ?n s)\<lparr>initialized := True\<rparr>)"
    using puts_names [OF s(1,2), of ?ps] vocab.puts_inv [OF s(1), of ?ps] ids s(3)
    by (simp add: bpe_loaded_def load)
qed

section \<open>Longest match\<close>

text \<open>
  The pieces a text is cut into: each is the longest prefix of at most 64 bytes in the vocabulary
  \<open>V\<close>, or a single byte with its byte token or the unknown token when no prefix is.
\<close>

definition fallback :: "(u8 list \<Rightarrow> u32 option) \<Rightarrow> u32 \<Rightarrow> u8 \<Rightarrow> int" where
  "fallback V unk b = (case V (byte_token b) of None \<Rightarrow> sint unk | Some tid \<Rightarrow> int (unat tid))"

definition first_piece :: "(u8 list \<Rightarrow> u32 option) \<Rightarrow> u32 \<Rightarrow> u8 list \<Rightarrow> u8 list \<Rightarrow> int \<Rightarrow> bool" where
  "first_piece V unk t p tok \<longleftrightarrow> p \<noteq> [] \<and> length p \<le> BPE_MAX_TOKEN_LEN \<and> take (length p) t = p
     \<and> (\<forall>k \<in> {length p<..min BPE_MAX_TOKEN_LEN (length t)}. V (take k t) = None)
     \<and> (case V p of Some tid \<Rightarrow> tok = int (unat tid)
        | None \<Rightarrow> length p = 1 \<and> tok = fallback V unk (hd p))"

fun greedy_pieces :: "(u8 list \<Rightarrow> u32 option) \<Rightarrow> u32 \<Rightarrow> u8 list \<Rightarrow> (u8 list \<times> int) list \<Rightarrow> bool" where
  "greedy_pieces V unk t [] \<longleftrightarrow> t = []"
| "greedy_pieces V unk t ((p, tok) # ps) \<longleftrightarrow>
     first_piece V unk t p tok \<and> greedy_pieces V unk (drop (length p) t) ps"

lemma longest_match_append:
  "longest_match s rest (ks @ ls) best = do { b \<leftarrow> longest_match s rest ks best; longest_match s rest ls b }"
  by (induction ks arbitrary: best) (auto split: Option.bind_split)

lemma longest_match_result:
  assumes ok: "bpe_ok s"
  shows "\<exists>tok k. longest_match s rest [1..<n + 1] (- 1, 0) = Some (tok, k)
    \<and> (\<forall>j \<in> {k<..n}. bpe_view s (take j rest) = None)
    \<and> (tok = - 1 \<and> k = 0 \<or> 1 \<le> k \<and> k \<le> n \<and> (\<exists>tid. bpe_view s (take k rest) = Some tid \<and> tok = int (unat tid)))"
proof (induction n)
  case (Suc n)
  then obtain tok k where r: "longest_match s rest [1..<n + 1] (- 1, 0) = Some (tok, k)"
    "\<forall>j \<in> {k<..n}. bpe_view s (take j rest) = None"
    "tok = - 1 \<and> k = 0 \<or> 1 \<le> k \<and> k \<le> n \<and> (\<exists>tid. bpe_view s (take k rest) = Some tid \<and> tok = int (unat tid))"
    by blast
  have m: "longest_match s rest [1..<Suc n + 1] (- 1, 0) = longest_match s rest [n + 1] (tok, k)"
    using r(1) by (simp add: longest_match_append)
  show ?case
  proof (cases "bpe_view s (take (n + 1) rest)")
    case None
    then have "longest_match s rest [n + 1] (tok, k) = Some (tok, k)"
      by (simp add: bpe_lookup [OF ok])
    moreover have "\<forall>j \<in> {k<..Suc n}. bpe_view s (take j rest) = None"
      using r(2) None by (auto simp: le_Suc_eq)
    ultimately show ?thesis using m r(3) by (metis le_SucI)
  next
    case (Some tid)
    then have "longest_match s rest [n + 1] (tok, k) = Some (int (unat tid), n + 1)"
      by (simp add: bpe_lookup [OF ok])
    with m Some show ?thesis by (intro exI [of _ "int (unat tid)"] exI [of _ "n + 1"]) auto
  qed
qed simp

lemma encode_step_piece:
  assumes ok: "bpe_ok s" and "rest \<noteq> []"
  shows "\<exists>p tok. encode_step s rest = Some (tok, length p) \<and> first_piece (bpe_view s) (unk_token s) rest p tok"
proof -
  let ?n = "min BPE_MAX_TOKEN_LEN (length rest)"
  obtain tok k where r: "longest_match s rest [1..<?n + 1] (- 1, 0) = Some (tok, k)"
    "\<forall>j \<in> {k<..?n}. bpe_view s (take j rest) = None"
    "tok = - 1 \<and> k = 0 \<or> 1 \<le> k \<and> k \<le> ?n \<and> (\<exists>tid. bpe_view s (take k rest) = Some tid \<and> tok = int (unat tid))"
    using longest_match_result [OF ok, of rest ?n] by blast
  have one: "take 1 rest = [hd rest]" "1 \<le> ?n"
    using assms(2) by (cases rest; simp)+
  from r(3) show ?thesis
  proof
    assume none: "tok = - 1 \<and> k = 0"
    with r have "encode_step s rest = Some (fallback (bpe_view s) (unk_token s) (hd rest), 1)"
      by (cases "bpe_view s (byte_token (hd rest))") (simp_all add: encode_step_def bpe_lookup [OF ok] fallback_def)
    moreover have "bpe_view s [hd rest] = None" "\<forall>j \<in> {1<..?n}. bpe_view s (take j rest) = None"
      using r(2) none one by (auto simp flip: one(1))
    ultimately show ?thesis
      using one by (intro exI [of _ "[hd rest]"]) (auto simp: first_piece_def)
  next
    assume some: "1 \<le> k \<and> k \<le> ?n \<and> (\<exists>tid. bpe_view s (take k rest) = Some tid \<and> tok = int (unat tid))"
    then have k: "1 \<le> k" "length (take k rest) = k" "k \<le> BPE_MAX_TOKEN_LEN" by auto
    have "encode_step s rest = Some (tok, k)"
      using r(1) some by (auto simp: encode_step_def)
    moreover have "first_piece (bpe_view s) (unk_token s) rest (take k rest) tok"
      unfolding first_piece_def k(2) using some k r(2) assms(2) by auto
    ultimately show ?thesis
      using k(2) by metis
  qed
qed

lemma bpe_encode_pieces:
  assumes ok: "bpe_ok s"
  shows "\<exists>ps. greedy_pieces (bpe_view s) (unk_token s) t ps
    \<and> (\<forall>room. bpe_encode_greedy s t room = Some (map snd (take (nat room) ps)))"
proof (induction t rule: length_induct)
  case (1 t)
  show ?case
  proof (cases "t = []")
    case True
    then show ?thesis by (intro exI [of _ "[]"]) (simp add: bpe_encode_greedy.simps)
  next
    case False
    then obtain p tok where p: "encode_step s t = Some (tok, length p)"
      "first_piece (bpe_view s) (unk_token s) t p tok"
      using encode_step_piece [OF ok] by blast
    then have "length (drop (length p) t) < length t"
      using False by (auto simp: first_piece_def)
    with 1 obtain ps where ps: "greedy_pieces (bpe_view s) (unk_token s) (drop (length p) t) ps"
      "\<forall>room. bpe_encode_greedy s (drop (length p) t) room = Some (map snd (take (nat room) ps))"
      by blast
    have "bpe_encode_greedy s t room = Some (map snd (take (nat room) ((p, tok) # ps)))" for room
    proof (cases "room \<le> 0")
      case True
      then show ?thesis by (simp add: bpe_encode_greedy.simps [of s t])
    next
      case pos: False
      then have "nat room = Suc (nat (room - 1))" by simp
      then show ?thesis
        using pos False p(1) ps(2) by (simp add: bpe_encode_greedy.simps [of s t])
    qed
    with p(2) ps(1) show ?thesis
      by (intro exI [of _ "(p, tok) # ps"]) simp
  qed
qed

lemma greedy_pieces_spell: "greedy_pieces V unk t ps \<Longrightarrow> concat (map fst ps) = t"
proof (induction V unk t ps rule: greedy_pieces.induct)
  case (2 V unk t p tok ps)
  then show ?case by (auto simp: first_piece_def) (metis append_take_drop_id)
qed simp

section \<open>Preprocessing for GPT-2\<close>

fun marked :: "u8 list \<Rightarrow> u8 list" where
  "marked [] = []"
| "marked (c # cs) = (if c = 32 then [0xC4, 0xA0] else [c]) @ marked cs"

definition plain :: "u8 list \<Rightarrow> bool" where
  "plain t \<longleftrightarrow> (\<forall>c \<in> set t. 32 \<le> c \<and> c < 128)"

fun single_spaced :: "u8 list \<Rightarrow> bool" where
  "single_spaced [] \<longleftrightarrow> True"
| "single_spaced [c] \<longleftrightarrow> c \<noteq> 32"
| "single_spaced (c # d # cs) \<longleftrightarrow> (c = 32 \<longrightarrow> d \<noteq> 32) \<and> single_spaced (d # cs)"

lemma plain_simps [simp]: "plain []" "plain (c # cs) \<longleftrightarrow> 32 \<le> c \<and> c < 128 \<and> plain cs"
  by (auto simp: plain_def)

lemma single_spaced_tl: "single_spaced (c # cs) \<Longrightarrow> single_spaced cs"
  by (cases cs) auto

lemma length_marked: "length t \<le> length (marked t)" "length (marked t) \<le> 2 * length t"
  by (induction t) auto

lemma gpt2_loop_marked:
  "plain t \<Longrightarrow> single_spaced t \<Longrightarrow> b \<longrightarrow> t \<noteq> [] \<and> hd t \<noteq> 32 \<Longrightarrow>
   length out + (if b then 2 else 0) + 2 * length t \<le> lim + 1 \<Longrightarrow>
   gpt2_loop lim b out t = out @ (if b then [0xC4, 0xA0] else []) @ marked t"
proof (induction t arbitrary: b out)
  case (Cons c cs)
  have c: "c \<noteq> 9" "c \<noteq> 10" "c \<noteq> 13" "length out < lim"
    using Cons.prems by (auto simp: word_le_nat_alt)
  show ?case
  proof (cases "c = 32")
    case True
    with Cons.prems have "\<not> b" "cs \<noteq> [] \<and> hd cs \<noteq> 32"
      by (auto simp: neq_Nil_conv) (cases cs; simp)+
    with True Cons.IH [of True out] Cons.prems c show ?thesis
      by (simp add: single_spaced_tl)
  next
    case False
    with Cons.IH [of False "out @ (if b then [0xC4, 0xA0] else []) @ [c]"] Cons.prems c show ?thesis
      by (auto simp: single_spaced_tl)
  qed
qed simp

lemma preprocess_marked:
  assumes "tokenizer_type s = BPE_TYPE_GPT2" "plain t" "single_spaced t"
  shows "bpe_preprocess_text s t (length t * 4) = marked t"
proof (cases "t = []")
  case False
  then have "3 \<le> length t * 4" "2 * length t \<le> length t * 4 - 3 + 1"
    by (cases t; simp)+
  then show ?thesis
    using assms gpt2_loop_marked [of t False "[]" "length t * 4 - 3"]
    by (simp add: bpe_preprocess_text_def sub64_exact)
qed (use assms in \<open>simp add: bpe_preprocess_text_def\<close>)

section \<open>Decoding what was encoded\<close>

lemma copy_bounded_append:
  "int (length out + length t) \<le> room \<Longrightarrow> copy_bounded room out t = out @ t"
  by (induction t arbitrary: out) auto

lemma copy_converted_append:
  "int (length out + length t) \<le> room \<Longrightarrow> 0xC4 \<notin> set t \<Longrightarrow> copy_converted room out t = out @ t"
  by (induction room out t rule: copy_converted.induct) auto

lemma plain_bytes: "plain t \<Longrightarrow> 128 \<le> b \<Longrightarrow> b \<notin> set t"
  by (auto simp: plain_def)

lemma marked_plain: "32 \<notin> set t \<Longrightarrow> marked t = t"
  by (induction t) auto

lemma space_not_marked: "plain t \<Longrightarrow> 0xC4 \<in> set (marked t) \<longleftrightarrow> 32 \<in> set t"
  by (induction t) (auto simp: word_le_nat_alt word_less_nat_alt)

text \<open>A cut that does not fall between the two bytes of a marker is a cut of the text.\<close>

lemma marked_cut:
  "plain u \<Longrightarrow> p \<noteq> [] \<Longrightarrow> take (length p) (marked u) = p \<Longrightarrow> last p \<noteq> 0xC4 \<Longrightarrow>
   \<exists>j. p = marked (take j u) \<and> drop (length p) (marked u) = marked (drop j u)"
proof (induction u arbitrary: p)
  case (Cons c cs)
  have step: "\<exists>j. q = marked (take j cs) \<and> drop (length q) (marked cs) = marked (drop j cs)"
    if "take (length q) (marked cs) = q" "q \<noteq> [] \<longrightarrow> last q \<noteq> 0xC4" for q
    using Cons.IH [of q] Cons.prems(1) that by (cases "q = []") (auto intro: exI [of _ 0])
  show ?case
  proof (cases "c = 32")
    case False
    with Cons.prems obtain q where q: "p = c # q" "take (length q) (marked cs) = q"
      by (cases p) auto
    then obtain j where "q = marked (take j cs)" "drop (length q) (marked cs) = marked (drop j cs)"
      using step [of q] Cons.prems(4) by (auto split: if_splits)
    with q False show ?thesis
      by (intro exI [of _ "Suc j"]) simp
  next
    case True
    with Cons.prems obtain q where q: "p = 0xC4 # 0xA0 # q" "take (length q) (marked cs) = q"
      by (cases p; cases "tl p") auto
    then obtain j where "q = marked (take j cs)" "drop (length q) (marked cs) = marked (drop j cs)"
      using step [of q] Cons.prems(4) by (auto split: if_splits)
    with q True show ?thesis
      by (intro exI [of _ "Suc j"]) simp
  qed
qed simp

text \<open>A piece whose text has a marker at most at its head is decoded to the text it stands for.\<close>

lemma decode_text_marked:
  assumes "plain v" "0xC4 \<notin> set (tl (marked v))" "int (length out + length v) \<le> room" "v \<noteq> []"
  shows "decode_text room out (marked v) = out @ v"
proof (cases v)
  case (Cons c w)
  have tl: "32 \<notin> set w" "plain w"
    using assms(1,2) Cons space_not_marked [of w] by (auto split: if_splits)
  show ?thesis
  proof (cases "c = 32")
    case True
    then show ?thesis
      using assms(3) tl Cons by (simp add: decode_text_def marked_plain copy_bounded_append)
  next
    case False
    have "c \<noteq> 0xE2" "c \<noteq> 0xC4"
      using assms(1) Cons by (auto simp: word_less_nat_alt)
    with assms Cons tl False plain_bytes [OF assms(1)] show ?thesis
      by (simp add: decode_text_def marked_plain copy_converted_append)
  qed
qed (use assms(4) in simp)

text \<open>
  A vocabulary that covers a text: a token for every character, one for the space marker, and no
  token that could match has a marker behind its head or is a special token.
\<close>

definition covers :: "bpe \<Rightarrow> u8 list \<Rightarrow> bool" where
  "covers s t \<longleftrightarrow>
     (\<forall>c \<in> set t. bpe_view s (if c = 32 then [0xC4, 0xA0] else [c]) \<noteq> None)
     \<and> (\<forall>p \<in> set (sublists (marked t)). case bpe_view s p of None \<Rightarrow> True
          | Some tid \<Rightarrow> 0xC4 \<notin> set (tl p) \<and> tid \<noteq> bos_token s \<and> tid \<noteq> eos_token s)"

lemma coversD:
  assumes "covers s t" "sublist p (marked t)" "bpe_view s p = Some tid"
  shows "0xC4 \<notin> set (tl p)" "tid \<noteq> bos_token s" "tid \<noteq> eos_token s"
proof -
  have "case bpe_view s p of None \<Rightarrow> True
      | Some tid \<Rightarrow> 0xC4 \<notin> set (tl p) \<and> tid \<noteq> bos_token s \<and> tid \<noteq> eos_token s"
    using assms(1,2) unfolding covers_def set_sublists_eq by blast
  with assms(3) show "0xC4 \<notin> set (tl p)" "tid \<noteq> bos_token s" "tid \<noteq> eos_token s" by simp_all
qed

lemma marked_drop: "\<exists>p. marked t = p @ marked (drop j t)"
proof (induction t arbitrary: j)
  case (Cons c cs)
  show ?case
  proof (cases j)
    case (Suc i)
    obtain p where "marked cs = p @ marked (drop i cs)" using Cons.IH by blast
    with Suc show ?thesis by (intro exI [of _ "(if c = 32 then [0xC4, 0xA0] else [c]) @ p"]) simp
  qed simp
qed simp

lemma covers_drop: "covers s t \<Longrightarrow> covers s (drop j t)"
proof -
  assume c: "covers s t"
  obtain p where "marked t = p @ marked (drop j t)" using marked_drop by blast
  then have "sublist (marked (drop j t)) (marked t)"
    by (metis sublist_append_leftI sublist_order.order.refl)
  then have "set (sublists (marked (drop j t))) \<subseteq> set (sublists (marked t))"
    unfolding set_sublists_eq using sublist_order.order_trans by blast
  moreover have "set (drop j t) \<subseteq> set t" by (rule set_drop_subset)
  ultimately show ?thesis
    using c unfolding covers_def by (intro conjI ballI) (erule conjE, drule bspec, erule subsetD, assumption, assumption)+
qed

lemma first_piece_marked:
  assumes f: "first_piece (bpe_view s) unk (marked u) p tok" and u: "plain u" "covers s u" "u \<noteq> []"
  shows "\<exists>j tid. bpe_view s p = Some tid \<and> tok = int (unat tid) \<and> p = marked (take j u)
    \<and> drop (length p) (marked u) = marked (drop j u) \<and> 0xC4 \<notin> set (tl p)
    \<and> tid \<noteq> bos_token s \<and> tid \<noteq> eos_token s \<and> take j u \<noteq> []"
proof -
  obtain c cs where cs: "u = c # cs" using u(3) by (cases u) auto
  have c4: "c \<noteq> 0xC4" using u(1) cs by (auto simp: word_less_nat_alt)
  have p: "p \<noteq> []" "take (length p) (marked u) = p"
    "\<forall>k \<in> {length p<..min 64 (length (marked u))}. bpe_view s (take k (marked u)) = None"
    using f by (auto simp: first_piece_def)
  have head: "hd p = (if c = 32 then 0xC4 else c)"
    using p(1,2) cs by (cases p) (auto split: if_splits)
  have two: "c = 32 \<Longrightarrow> 2 \<le> length p"
  proof (rule ccontr)
    assume 32: "c = 32" and "\<not> 2 \<le> length p"
    then have "2 \<in> {length p<..min 64 (length (marked u))}" using cs by auto
    with p(3) have "bpe_view s (take 2 (marked u)) = None" by blast
    with u(2) 32 cs show False by (simp add: covers_def)
  qed
  have "bpe_view s p \<noteq> None"
  proof
    assume "bpe_view s p = None"
    with f have "length p = 1" by (simp add: first_piece_def)
    with two head have "c \<noteq> 32" "p = [c]" by (cases p; auto)+
    with \<open>bpe_view s p = None\<close> u(2) cs show False by (auto simp: covers_def)
  qed
  then obtain tid where tid: "bpe_view s p = Some tid" "tok = int (unat tid)"
    using f by (auto simp: first_piece_def)
  have "sublist p (marked u)"
    using p(2) by (metis append_take_drop_id sublist_appendI append_Nil)
  note cov = coversD [OF u(2) this tid(1)]
  have "last p \<noteq> 0xC4"
  proof
    assume l: "last p = 0xC4"
    show False
    proof (cases "2 \<le> length p")
      case True
      then have "last p \<in> set (tl p)" by (cases p; cases "tl p") auto
      with l cov(1) show False by simp
    next
      case False
      with p(1) have "p = [hd p]" by (cases p) (auto simp: Suc_le_eq)
      with l head c4 have "c = 32" by (metis last.simps)
      with two False show False by simp
    qed
  qed
  from marked_cut [OF u(1) p(1,2) this] obtain j where
    j: "p = marked (take j u)" "drop (length p) (marked u) = marked (drop j u)" by blast
  then have "take j u \<noteq> []" using p(1) by (metis marked.simps(1))
  with tid cov j show ?thesis by blast
qed

lemma token_value: "bpe_ok s \<Longrightarrow> tid < vocab_size s \<Longrightarrow> int (unat tid) = sint tid"
  by (subst sint_small) (auto simp: bpe_ok_def word_less_nat_alt)

text \<open>One piece decoded.\<close>

lemma decode_known_token:
  assumes ok: "bpe_ok s" "names_ok s" and v: "bpe_view s p = Some tid" "tid \<noteq> bos_token s" "tid \<noteq> eos_token s"
    and room: "int (length out) < room"
  shows "decode_loop s room out (int (unat tid) # toks) = decode_loop s room (decode_text room out p) toks"
proof -
  have tid: "tid < vocab_size s" by (rule bpe_view_less(1) [OF ok(1) v(1)])
  have "int (unat tid) < sint (vocab_size s)"
    using tid ok(1) sint_small [of "vocab_size s"] by (simp add: bpe_ok_def word_less_def)
  moreover have "int (unat tid) \<noteq> sint (bos_token s)" "int (unat tid) \<noteq> sint (eos_token s)"
    using v(2,3) unfolding token_value [OF ok(1) tid] by (auto dest: signed_word_eqI)
  ultimately show ?thesis
    using room names_ok_view [OF ok(2) v(1)] by simp
qed

lemma decode_pieces:
  assumes ok: "bpe_ok s" "names_ok s"
  shows "greedy_pieces (bpe_view s) unk (marked u) ps \<Longrightarrow> plain u \<Longrightarrow> covers s u \<Longrightarrow>
    int (length out + length u) \<le> room \<Longrightarrow> decode_loop s room out (map snd ps @ rest) = decode_loop s room (out @ u) rest"
proof (induction ps arbitrary: u out)
  case Nil
  then have "u = []" using length_marked(1) [of u] by simp
  then show ?case by simp
next
  case (Cons q ps)
  obtain p tok where q: "q = (p, tok)" by (cases q)
  with Cons.prems(1) have f: "first_piece (bpe_view s) unk (marked u) p tok"
    "greedy_pieces (bpe_view s) unk (drop (length p) (marked u)) ps" by auto
  then have "u \<noteq> []" by (auto simp: first_piece_def)
  from first_piece_marked [OF f(1) Cons.prems(2,3) this] obtain j tid where
    j: "bpe_view s p = Some tid" "tok = int (unat tid)" "p = marked (take j u)"
    "drop (length p) (marked u) = marked (drop j u)" "0xC4 \<notin> set (tl p)"
    "tid \<noteq> bos_token s" "tid \<noteq> eos_token s" "take j u \<noteq> []" by blast
  have plain: "plain (take j u)" "plain (drop j u)"
    using Cons.prems(2) by (auto simp: plain_def dest: in_set_takeD in_set_dropD)
  have "u = take j u @ drop j u" by simp
  then have split: "length u = length (take j u) + length (drop j u)"
    by (metis length_append)
  have pos: "0 < length (take j u)" using j(8) by blast
  have "decode_loop s room out (map snd (q # ps) @ rest) = decode_loop s room (out @ take j u) (map snd ps @ rest)"
  proof -
    have room: "int (length out) < room" "int (length out + length (take j u)) \<le> room"
      using Cons.prems(4) split pos by linarith+
    have "decode_text room out p = out @ take j u"
      using decode_text_marked [OF plain(1) _ room(2) j(8)] j(3,5) by simp
    with decode_known_token [OF ok j(1,6,7) room(1)] show ?thesis
      by (simp only: q j(2) list.map append_Cons snd_conv)
  qed
  also have "\<dots> = decode_loop s room ((out @ take j u) @ drop j u) rest"
  proof (rule Cons.IH [OF _ plain(2) covers_drop [OF Cons.prems(3)]])
    show "greedy_pieces (bpe_view s) unk (marked (drop j u)) ps" using f(2) j(4) by simp
    show "int (length (out @ take j u) + length (drop j u)) \<le> room" using Cons.prems(4) split
      by (metis add.assoc length_append)
  qed
  finally show ?case by simp
qed

lemma bpe_loads:
  assumes "heap_ok h (M @ [(m, False)])" "\<forall>x \<in> set M. snd x" "texts_fit g"
    and "2 ^ 20 + 64 * unat (vocab_count g) \<le> m"
  shows "\<exists>s' h'. bpe_tokenizer_init g s h = Some (0, s', h') \<and> bpe_loaded s' \<and> (\<forall>t.
    bpe_vocab_lookup t s' = Some (case token_map g t of None \<Rightarrow> - 1 | Some tid \<Rightarrow> int (unat tid))
    \<and> (\<forall>tid. token_map g t = Some tid \<longrightarrow> texts s' (unat tid) = Some t))"
proof -
  let ?n = "unat (vocab_count g)"
  have n: "0 < ?n" "?n < 2 ^ 28" "unat (vocab_count g * 16) = ?n * 16"
    using assms(3) by (simp_all add: texts_fit_def unat_word_ariths)
  then have v: "vocab_count g \<noteq> 0" by auto
  obtain p1 h1 M1 m1 where 1: "heap_alloc (BPE_HASH_SIZE * POINTER) h = Some (Some p1, h1)"
    "heap_ok h1 (M1 @ [(m1, False)])" "\<forall>x \<in> set M1. snd x" "m \<le> m1 + BPE_HASH_SIZE * POINTER + 48"
    using heap_alloc_tail [OF assms(1,2), of "BPE_HASH_SIZE * POINTER"] assms(4) by auto
  obtain p2 h2 M2 m2 where 2: "heap_alloc (?n * POINTER) h1 = Some (Some p2, h2)"
    "heap_ok h2 (M2 @ [(m2, False)])" "\<forall>x \<in> set M2. snd x" "m1 \<le> m2 + ?n * POINTER + 48"
    using heap_alloc_tail [OF 1(2,3), of "?n * POINTER"] 1(4) assms(4) n by auto
  obtain p3 h3 M3 m3 where 3: "heap_alloc (?n * FLOAT_SIZE) h2 = Some (Some p3, h3)"
    "heap_ok h3 (M3 @ [(m3, False)])" "\<forall>x \<in> set M3. snd x" "m2 \<le> m3 + ?n * FLOAT_SIZE + 48"
    using heap_alloc_tail [OF 2(2,3), of "?n * FLOAT_SIZE"] 1(4) 2(4) assms(4) n by auto
  obtain p4 h4 M4 m4 where 4: "heap_alloc (?n * ENTRY_SIZE) h3 = Some (Some p4, h4)"
    "heap_ok h4 (M4 @ [(m4, False)])" "\<forall>x \<in> set M4. snd x" "m3 \<le> m4 + ?n * ENTRY_SIZE + 48"
    using heap_alloc_tail [OF 3(2,3), of "?n * ENTRY_SIZE"] 1(4) 2(4) 3(4) assms(4) n by auto
  obtain p5 h5 where 5: "heap_alloc (unat (vocab_count g * 16)) h4 = Some (Some p5, h5)"
    using heap_alloc_tail [OF 4(2,3), of "?n * 16"] 1(4) 2(4) 3(4) 4(4) assms(4) n by auto
  let ?s = "(load_tokens g ?n (set_special_tokens (arch g)
    (allocated g (Some p1) (Some p2) (Some p3) (Some p4) (Some p5) s)))\<lparr>initialized := True\<rparr>"
  have s: "bpe_loaded ?s" "bpe_view ?s = token_map g"
    by (rule load_tokens_loaded [OF allocated_empty assms(3)]; simp)+
  then have "bpe_ok ?s" "names_ok ?s" by (simp_all add: bpe_loaded_def)
  from bpe_lookup [OF this(1)] names_ok_view [OF this(2)] init_allocated [OF v 1(1) 2(1) 3(1) 4(1) 5] s
  show ?thesis by (intro exI [of _ ?s] exI [of _ h5]) auto
qed

section \<open>Properties\<close>

text \<open>
  C29. When the free end of the heap has room for its tables and the texts of the model fit in the
  text pool, the initialisation succeeds. The lookup of a text then finds the last token of the
  model with that text of at most 64 bytes and nothing else, and each identifier found has that
  text for the decoder.
\<close>

theorem bpe_init_loads_vocabulary:
  assumes "heap_ok h (M @ [(m, False)])" "\<forall>x \<in> set M. snd x" "texts_fit g"
    and "2 ^ 20 + 64 * unat (vocab_count g) \<le> m"
  shows "\<exists>s' h'. bpe_tokenizer_init g s h = Some (0, s', h') \<and> bpe_loaded s' \<and> (\<forall>t.
    bpe_vocab_lookup t s' = Some (case token_map g t of None \<Rightarrow> - 1 | Some tid \<Rightarrow> int (unat tid))
    \<and> (\<forall>tid. token_map g t = Some tid \<longrightarrow> texts s' (unat tid) = Some t))"
  by (rule bpe_loads [OF assms])

lemma pieces_length: "greedy_pieces V unk t ps \<Longrightarrow> length ps \<le> length t"
proof (induction V unk t ps rule: greedy_pieces.induct)
  case (2 V unk t p tok ps)
  then have "length ps \<le> length t - length p" "p \<noteq> []" "length p \<le> length t"
    by (auto simp: first_piece_def) (metis length_take min.absorb_iff2 nat_le_linear)
  then show ?case by (cases p) auto
qed simp

lemma decode_special:
  assumes "tok = sint (bos_token s) \<or> tok = sint (eos_token s)"
  shows "decode_loop s room out (tok # toks) = (if int (length out) < room then decode_loop s room out toks else out)"
  using assms by auto

text \<open>
  C17. Whatever the vocabulary, encoding ends, and its tokens are the first ones, as many as there is
  room for, of a sequence that cuts the text into the longest prefixes the vocabulary has at each
  position, or a byte with its byte token or the unknown token where it has none. The pieces put
  together are the text.
\<close>

theorem bpe_encode_longest_match:
  assumes "bpe_ok s"
  shows "\<exists>ps. greedy_pieces (bpe_view s) (unk_token s) t ps \<and> concat (map fst ps) = t
    \<and> (\<forall>room. bpe_encode_greedy s t room = Some (map snd (take (nat room) ps)))"
  using bpe_encode_pieces [OF assms, of t] greedy_pieces_spell by blast

text \<open>
  C12. With a GPT-2 vocabulary that covers it, a text of printable characters, single-spaced and not
  ending in a space, is decoded from its tokens to itself, with and without the tokens for begin and
  end, given buffers large enough.
\<close>

theorem bpe_encode_decode_roundtrip:
  assumes s: "bpe_loaded s" "tokenizer_type s = BPE_TYPE_GPT2"
    and t: "plain t" "single_spaced t" "covers s t"
    and buf: "heap_alloc (length t * 4 + 1) h = Some (Some p, h1)"
      "2 * int (length t) + 3 \<le> max_tokens" "int (length t) < max_len"
  shows "\<exists>toks. bpe_tokenizer_encode t max_tokens bos eos s h = Some (toks, h1)
    \<and> int (length toks) \<le> max_tokens \<and> bpe_tokenizer_decode toks max_len s = t"
proof -
  have ok: "bpe_ok s" "names_ok s" "initialized s" using s(1) by (auto simp: bpe_loaded_def)
  define pre where "pre = (if bos then [sint (bos_token s)] else [])"
  define post where "post = (if eos then [sint (eos_token s)] else [])"
  obtain ps where ps: "greedy_pieces (bpe_view s) (unk_token s) (marked t) ps"
    "\<And>room. bpe_encode_greedy s (marked t) room = Some (map snd (take (nat room) ps))"
    using bpe_encode_pieces [OF ok(1)] by blast
  have len: "length ps \<le> 2 * length t" "length pre \<le> 1" "length post \<le> 1"
    using pieces_length [OF ps(1)] length_marked(2) [of t] by (auto simp: pre_def post_def)
  then have "bpe_encode_greedy s (marked t) (max_tokens - int (length pre) - 1) = Some (map snd ps)"
    using ps(2) buf(2) by simp
  then have enc: "bpe_tokenizer_encode t max_tokens bos eos s h = Some (pre @ map snd ps @ post, h1)"
    using ok(3) buf len
    by (simp add: bpe_tokenizer_encode_def preprocess_marked [OF s(2) t(1,2)] pre_def [symmetric] post_def Let_def)
  have "decode_loop s (max_len - 1) [] (map snd ps @ post) = t"
    using decode_pieces [OF ok(1,2) ps(1) t(1,3), of "[]" "max_len - 1" post] buf(3)
    by (auto simp: post_def)
  moreover have "t = []" if "\<not> 1 < max_len" using that buf(3) by (cases t) auto
  ultimately have "decode_loop s (max_len - 1) [] (pre @ map snd ps @ post) = t"
    by (cases "1 < max_len") (simp_all add: pre_def decode_special del: decode_loop.simps(2))
  then show ?thesis
    using enc len buf ok(3) by (simp add: bpe_tokenizer_decode_def)
qed

section \<open>A small vocabulary\<close>

definition demo_gguf :: gguf where
  "demo_gguf = \<lparr>vocab_count = 8,
     vocab = \<lambda>i. (Some ([[60, 117, 110, 107, 62], [60, 115, 62], [60, 47, 115, 62], [97], [98], [97, 98],
       [0xC4, 0xA0], [0xC4, 0xA0, 97, 98]] ! i), 0),
     arch = Some \<lparr>bos_token_id = 1, eos_token_id = 2, tokenizer_model = [103, 112, 116, 50]\<rparr>\<rparr>"

definition zero_bpe :: bpe where
  "zero_bpe = \<lparr>hash_table = None, id_to_text = None, scores = None, vocab_size = 0, bos_token = 0,
     eos_token = 0, unk_token = 0, tokenizer_type = 0, initialized = False, entry_pool = None,
     entry_pool_idx = 0, text_pool = None, text_pool_idx = 0, text_pool_size = 0, buckets = \<lambda>_. None,
     texts = \<lambda>_. None, token_scores = \<lambda>_. 0,
     entries = \<lambda>_. \<lparr>etext = [], token_id = 0, score = 0, elength = 0, enext = None\<rparr>\<rparr>"

definition demo_bpe :: bpe where
  "demo_bpe = (load_tokens demo_gguf 8 (set_special_tokens (arch demo_gguf)
     (allocated demo_gguf (Some 1) (Some 1) (Some 1) (Some 1) (Some 1) zero_bpe)))\<lparr>initialized := True\<rparr>"

lemma demo_pairs: "vocab_pairs demo_gguf 8 = [([60, 117, 110, 107, 62], 0, 0), ([60, 115, 62], 1, 0),
    ([60, 47, 115, 62], 2, 0), ([97], 3, 0), ([98], 4, 0), ([97, 98], 5, 0), ([0xC4, 0xA0], 6, 0),
    ([0xC4, 0xA0, 97, 98], 7, 0)]"
  by (simp add: vocab_pairs_def demo_gguf_def upt_rec)

lemma demo_fits: "texts_fit demo_gguf"
  by (simp add: texts_fit_def demo_pairs [unfolded demo_gguf_def] demo_gguf_def)

lemma demo_loaded: "bpe_loaded demo_bpe" "bpe_view demo_bpe = token_map demo_gguf"
  using load_tokens_loaded [OF allocated_empty demo_fits, of "Some 1" "Some 1" "Some 1" "Some 1" "Some 1" zero_bpe]
  by (simp_all add: demo_bpe_def demo_gguf_def)

lemma demo_map: "token_map demo_gguf = [[60, 117, 110, 107, 62] \<mapsto> 0, [60, 115, 62] \<mapsto> 1,
    [60, 47, 115, 62] \<mapsto> 2, [97] \<mapsto> 3, [98] \<mapsto> 4, [97, 98] \<mapsto> 5, [0xC4, 0xA0] \<mapsto> 6, [0xC4, 0xA0, 97, 98] \<mapsto> 7]"
  by (simp add: token_map_def demo_pairs [unfolded demo_gguf_def] demo_gguf_def)

lemma demo_fresh_heap:
  "\<exists>h m. heap_ok h [(m, False)] \<and> 67108832 \<le> m"
proof -
  obtain h0 where "boots 0x200000 0x10000000 h0" using demo_boots by blast
  from boots_inv [OF this] obtain n where "67108864 \<le> n" "heap_ok (heap_init h0) [(n - 32, False)]" by auto
  then show ?thesis by (intro exI [of _ "heap_init h0"] exI [of _ "n - 32"]) auto
qed

theorem bpe_init_loads_vocabulary_witness:
  "\<exists>h s' h'. bpe_tokenizer_init demo_gguf zero_bpe h = Some (0, s', h')
    \<and> bpe_vocab_lookup [97, 98] s' = Some 5 \<and> bpe_vocab_lookup [99] s' = Some (- 1)
    \<and> texts s' 5 = Some [97, 98]"
proof -
  obtain h m where h: "heap_ok h ([] @ [(m, False)])" "67108832 \<le> m" using demo_fresh_heap by auto
  then obtain s' h' where s: "bpe_tokenizer_init demo_gguf zero_bpe h = Some (0, s', h')"
    "\<And>t. bpe_vocab_lookup t s' = Some (case token_map demo_gguf t of None \<Rightarrow> - 1 | Some tid \<Rightarrow> int (unat tid))"
    "\<And>t tid. token_map demo_gguf t = Some tid \<Longrightarrow> texts s' (unat tid) = Some t"
    using bpe_init_loads_vocabulary [OF h(1) _ demo_fits, of zero_bpe] by (auto simp: demo_gguf_def)
  then show ?thesis
    using s(3) [of "[97, 98]" 5] by (intro exI [of _ h] exI [of _ s'] exI [of _ h']) (simp add: demo_map)
qed

theorem bpe_encode_longest_match_witness:
  "\<exists>ps. greedy_pieces (bpe_view demo_bpe) (unk_token demo_bpe) [97, 98, 97, 99] ps
    \<and> concat (map fst ps) = [97, 98, 97, 99]
    \<and> (\<forall>room. bpe_encode_greedy demo_bpe [97, 98, 97, 99] room = Some (map snd (take (nat room) ps)))"
  using bpe_encode_longest_match [of demo_bpe] demo_loaded(1) by (simp add: bpe_loaded_def)

lemma set_special_frame: "bos_token (load_tokens g n s) = bos_token s"
    "eos_token (load_tokens g n s) = eos_token s" "tokenizer_type (load_tokens g n s) = tokenizer_type s"
proof -
  have step: "bos_token (load_token g i s) = bos_token s \<and> eos_token (load_token g i s) = eos_token s
      \<and> tokenizer_type (load_token g i s) = tokenizer_type s" for i s
    by (auto simp: load_token_def bpe_vocab_insert_def Let_def split: prod.splits option.splits)
  have "bos_token (fold (load_token g) xs s) = bos_token s \<and> eos_token (fold (load_token g) xs s) = eos_token s
      \<and> tokenizer_type (fold (load_token g) xs s) = tokenizer_type s" for xs
    by (induction xs arbitrary: s) (simp_all add: step)
  then show "bos_token (load_tokens g n s) = bos_token s" "eos_token (load_tokens g n s) = eos_token s"
    "tokenizer_type (load_tokens g n s) = tokenizer_type s" by (simp_all add: load_tokens_def)
qed

lemma demo_special: "bos_token demo_bpe = 1" "eos_token demo_bpe = 2" "tokenizer_type demo_bpe = 2"
  by (simp_all add: demo_bpe_def set_special_frame set_special_tokens_def demo_gguf_def detect_tokenizer_type_def)

lemma demo_covers: "covers demo_bpe [97, 98, 32, 97, 98]"
  by (simp add: covers_def demo_loaded(2) demo_map demo_special)

theorem bpe_encode_decode_roundtrip_witness:
  "\<exists>h h1 toks. bpe_tokenizer_encode [97, 98, 32, 97, 98] 64 True True demo_bpe h = Some (toks, h1)
    \<and> int (length toks) \<le> 64 \<and> bpe_tokenizer_decode toks 256 demo_bpe = [97, 98, 32, 97, 98]"
proof -
  obtain h m where h: "heap_ok h ([] @ [(m, False)])" "67108832 \<le> m" using demo_fresh_heap by auto
  then obtain p h1 where "heap_alloc 21 h = Some (Some p, h1)"
    using heap_alloc_tail [OF h(1), of 21] by auto
  then show ?thesis
    using bpe_encode_decode_roundtrip [OF demo_loaded(1) _ _ _ demo_covers, of h p h1 64 256 True True]
    by (auto simp: demo_special)
qed

end
