(* ===== verification/KvCache.thy ===== *)
theory KvCache
  imports Heap
begin

text \<open>
  The key/value cache of the attention layers, \<^verbatim>\<open>src/kernel/ai/kv_cache_enhanced.c\<close>. The two
  buffers of a layer are byte lists of the size that was allocated; a copy that leaves its buffer
  is a fault (\<open>None\<close>). Floats and fixed-point numbers are four bytes that are only copied. Memory
  comes from the heap of \<open>Heap\<close>; \<open>raw p n\<close> is what the \<open>n\<close> bytes of a fresh block at \<open>p\<close> hold.
\<close>

section \<open>State\<close>

abbreviation (input) KV_CACHE_VERSION :: u32 where "KV_CACHE_VERSION \<equiv> 1"
abbreviation (input) KV_CACHE_MAGIC :: u32 where "KV_CACHE_MAGIC \<equiv> 0x4B564341"
abbreviation (input) KV_CACHE_PAGE_SIZE :: nat where "KV_CACHE_PAGE_SIZE \<equiv> 4096"
abbreviation (input) KV_CACHE_ALIGNMENT :: nat where "KV_CACHE_ALIGNMENT \<equiv> 64"

text \<open>\<open>sizeof\<close> of \<^verbatim>\<open>kv_cache_t\<close>, \<^verbatim>\<open>kv_layer_cache_t\<close> and of a float or \<^verbatim>\<open>fixed_t\<close>.\<close>

abbreviation (input) CACHE_STRUCT :: nat where "CACHE_STRUCT \<equiv> 136"
abbreviation (input) LAYER_STRUCT :: nat where "LAYER_STRUCT \<equiv> 56"
abbreviation (input) ELEM :: nat where "ELEM \<equiv> 4"

datatype kv_type = KV_TYPE_FLOAT32 | KV_TYPE_FIXED32 | KV_TYPE_FLOAT16

datatype kv_evict = KV_EVICT_NONE | KV_EVICT_SLIDING | KV_EVICT_RING | KV_EVICT_ATTENTION

record kv_config =
  n_layers :: u32
  n_kv_heads :: u32
  head_dim :: u32
  max_seq_len :: u32
  window_size :: u32
  data_type :: kv_type
  eviction :: kv_evict

record kv_layer_stats =
  cache_hits :: u64
  cache_stores :: u64
  evictions :: u64
  recomputations :: u64

record kv_stats =
  total_hits :: u64
  total_stores :: u64
  total_evictions :: u64
  attention_time_ns :: u64
  no_cache_time_ns :: u64
  memory_used :: u64
  current_seq_len :: u32
  peak_seq_len :: u32
  n_resets :: u32

record kv_layer =
  key_ptr :: "nat option"
  value_ptr :: "nat option"
  key_cache :: "u8 list"
  value_cache :: "u8 list"
  seq_len :: u32
  start_pos :: u32
  lstats :: kv_layer_stats

record kv_cache =
  self :: nat
  magic :: u32
  version :: u32
  config :: kv_config
  stats :: kv_stats
  layers_ptr :: "nat option"
  layers :: "kv_layer list"
  layer_size :: nat
  total_size :: nat
  kv_initialized :: bool
  kv_enabled :: bool

definition zero_layer_stats :: kv_layer_stats where
  "zero_layer_stats = \<lparr>cache_hits = 0, cache_stores = 0, evictions = 0, recomputations = 0\<rparr>"

definition zero_stats :: kv_stats where
  "zero_stats = \<lparr>total_hits = 0, total_stores = 0, total_evictions = 0, attention_time_ns = 0,
     no_cache_time_ns = 0, memory_used = 0, current_seq_len = 0, peak_seq_len = 0, n_resets = 0\<rparr>"

definition zero_layer :: kv_layer where
  "zero_layer = \<lparr>key_ptr = None, value_ptr = None, key_cache = [], value_cache = [], seq_len = 0,
     start_pos = 0, lstats = zero_layer_stats\<rparr>"

definition upd_layer :: "nat \<Rightarrow> (kv_layer \<Rightarrow> kv_layer) \<Rightarrow> kv_cache \<Rightarrow> kv_cache" where
  "upd_layer i f c = c\<lparr>layers := (layers c)[i := f (layers c ! i)]\<rparr>"

section \<open>Sizes\<close>

definition kv_type_size :: "kv_type \<Rightarrow> nat" where
  "kv_type_size t = (case t of KV_TYPE_FLOAT32 \<Rightarrow> 4 | KV_TYPE_FIXED32 \<Rightarrow> 4 | KV_TYPE_FLOAT16 \<Rightarrow> 2)"

definition kv_align_up :: "nat \<Rightarrow> nat \<Rightarrow> nat" where
  "kv_align_up x a = sub64 (add64 x a) 1 div a * a"

definition kv_layer_cache_size :: "kv_config \<Rightarrow> nat" where
  "kv_layer_cache_size c =
     kv_align_up (unat (max_seq_len c) * unat (n_kv_heads c) * unat (head_dim c)
       * kv_type_size (data_type c) mod SIZE_MOD) KV_CACHE_PAGE_SIZE"

definition kv_vector_size :: "kv_config \<Rightarrow> nat \<Rightarrow> nat" where
  "kv_vector_size c elem_size = unat (n_kv_heads c) * unat (head_dim c) * elem_size mod SIZE_MOD"

definition kv_cache_memory_required :: "kv_config option \<Rightarrow> nat" where
  "kv_cache_memory_required cfg =
     (case cfg of None \<Rightarrow> 0 | Some c \<Rightarrow>
        add64 (add64 (kv_align_up CACHE_STRUCT KV_CACHE_ALIGNMENT)
          (kv_align_up (LAYER_STRUCT * unat (n_layers c)) KV_CACHE_ALIGNMENT))
          (kv_layer_cache_size c * 2 * unat (n_layers c) mod SIZE_MOD))"

text \<open>\<open>kv_memcpy\<close> into and out of a buffer; leaving the buffer is a fault.\<close>

definition copy_in :: "nat \<Rightarrow> u8 list \<Rightarrow> nat \<Rightarrow> u8 list \<Rightarrow> u8 list option" where
  "copy_in off src n buf =
     (if length src < n \<or> length buf < off + n then None
      else Some (take off buf @ take n src @ drop (off + n) buf))"

definition copy_out :: "nat \<Rightarrow> nat \<Rightarrow> u8 list \<Rightarrow> u8 list option" where
  "copy_out off n buf = (if length buf < off + n then None else Some (take n (drop off buf)))"

section \<open>Life cycle\<close>

fun alloc_layers :: "(nat \<Rightarrow> nat \<Rightarrow> u8 list) \<Rightarrow> nat \<Rightarrow> nat \<Rightarrow> kv_layer list \<Rightarrow> heap
    \<Rightarrow> ((kv_layer list \<times> bool) \<times> heap) option" where
  "alloc_layers raw sz 0 ls h = Some ((ls, True), h)"
| "alloc_layers raw sz (Suc n) ls h = do {
     (k, h1) \<leftarrow> heap_alloc_aligned sz KV_CACHE_PAGE_SIZE h;
     (case k of
        None \<Rightarrow> Some ((ls, False), h1)
      | Some kp \<Rightarrow> do {
          let l = zero_layer\<lparr>key_ptr := k, key_cache := raw kp sz\<rparr>;
          (v, h2) \<leftarrow> heap_alloc_aligned sz KV_CACHE_PAGE_SIZE h1;
          (case v of
             None \<Rightarrow> Some ((ls @ [l], False), h2)
           | Some vp \<Rightarrow> alloc_layers raw sz n
               (ls @ [l\<lparr>value_ptr := v, value_cache := raw vp sz\<rparr>]) h2) }) }"

definition free_ptr :: "nat option \<Rightarrow> heap \<Rightarrow> heap" where
  "free_ptr p h = (case p of None \<Rightarrow> h | Some a \<Rightarrow> heap_free_aligned a h)"

definition free_layers :: "kv_layer list \<Rightarrow> heap \<Rightarrow> heap" where
  "free_layers ls h = fold (\<lambda>l h. free_ptr (value_ptr l) (free_ptr (key_ptr l) h)) ls h"

definition config_valid :: "kv_config \<Rightarrow> bool" where
  "config_valid c \<longleftrightarrow> \<not> (n_layers c = 0 \<or> 128 < n_layers c) \<and> \<not> (n_kv_heads c = 0 \<or> 256 < n_kv_heads c)
     \<and> \<not> (head_dim c = 0 \<or> 512 < head_dim c) \<and> \<not> (max_seq_len c = 0 \<or> 32768 < max_seq_len c)"

definition kv_cache_create ::
    "(nat \<Rightarrow> nat \<Rightarrow> u8 list) \<Rightarrow> kv_config option \<Rightarrow> heap \<Rightarrow> (kv_cache option \<times> heap) option" where
  "kv_cache_create raw cfg h =
     (case cfg of None \<Rightarrow> Some (None, h) | Some c \<Rightarrow>
      if \<not> config_valid c then Some (None, h)
      else do {
        let sz = kv_layer_cache_size c;
        let total = kv_cache_memory_required cfg;
        (p, h1) \<leftarrow> heap_alloc_aligned (kv_align_up CACHE_STRUCT KV_CACHE_ALIGNMENT) KV_CACHE_PAGE_SIZE h;
        (case p of None \<Rightarrow> Some (None, h1) | Some cache \<Rightarrow> do {
          (q, h2) \<leftarrow> heap_alloc_aligned (kv_align_up (LAYER_STRUCT * unat (n_layers c)) KV_CACHE_ALIGNMENT)
            KV_CACHE_ALIGNMENT h1;
          (case q of None \<Rightarrow> Some (None, heap_free_aligned cache h2) | Some lp \<Rightarrow> do {
            ((ls, ok), h3) \<leftarrow> alloc_layers raw sz (unat (n_layers c)) [] h2;
            if ok then
              Some (Some \<lparr>self = cache, magic = KV_CACHE_MAGIC, version = KV_CACHE_VERSION, config = c,
                stats = zero_stats\<lparr>memory_used := of_nat total\<rparr>, layers_ptr = Some lp, layers = ls,
                layer_size = sz, total_size = total, kv_initialized = True, kv_enabled = True\<rparr>, h3)
            else Some (None, heap_free_aligned cache (heap_free_aligned lp (free_layers ls h3))) }) }) })"

text \<open>The second component is the global instance, by address.\<close>

definition kv_cache_destroy :: "kv_cache option \<Rightarrow> nat option \<Rightarrow> heap \<Rightarrow> nat option \<times> heap" where
  "kv_cache_destroy cache global h =
     (case cache of None \<Rightarrow> (global, h) | Some c \<Rightarrow>
        let global = (if global = Some (self c) then None else global);
            h = (case layers_ptr c of None \<Rightarrow> h | Some lp \<Rightarrow>
                   heap_free_aligned lp (free_layers (take (unat (n_layers (config c))) (layers c)) h))
        in (global, heap_free_aligned (self c) h))"

definition kv_cache_reset :: "kv_cache \<Rightarrow> kv_cache" where
  "kv_cache_reset c =
     (if \<not> kv_initialized c then c
      else
        let c = c\<lparr>layers := map (\<lambda>l. l\<lparr>seq_len := 0, start_pos := 0\<rparr>) (take (unat (n_layers (config c))) (layers c))
                  @ drop (unat (n_layers (config c))) (layers c)\<rparr>
        in c\<lparr>stats := (stats c)\<lparr>current_seq_len := 0, n_resets := n_resets (stats c) + 1\<rparr>\<rparr>)"

section \<open>Storing and reading\<close>

text \<open>
  The copy loop of the sliding window, \<^verbatim>\<open>k[i] = k[drop_offset + i]\<close> for ascending \<open>i\<close>; reading
  past the buffer is a fault.
\<close>

definition shift_left :: "nat \<Rightarrow> nat \<Rightarrow> u8 list \<Rightarrow> u8 list option" where
  "shift_left keep_size drop_offset buf =
     (if 0 < keep_size \<and> length buf < drop_offset + keep_size then None
      else Some (fold (\<lambda>i b. b[i := b ! (drop_offset + i)]) [0..<keep_size] buf))"

definition kv_apply_eviction :: "nat \<Rightarrow> kv_cache \<Rightarrow> kv_cache option" where
  "kv_apply_eviction layer c =
     (let cfg = config c; lc = layers c ! layer in
      if window_size cfg = 0 \<or> eviction cfg = KV_EVICT_NONE then Some c
      else if seq_len lc \<le> window_size cfg then Some c
      else
        let evict_count = seq_len lc - window_size cfg;
            count = (\<lambda>c. c\<lparr>stats := (stats c)\<lparr>total_evictions := total_evictions (stats c) + ucast evict_count\<rparr>\<rparr>)
        in (case eviction cfg of
              KV_EVICT_SLIDING \<Rightarrow> do {
                let vec_size = kv_vector_size cfg (kv_type_size (data_type cfg));
                let keep_size = unat (window_size cfg) * vec_size mod SIZE_MOD;
                let drop_offset = unat evict_count * vec_size mod SIZE_MOD;
                k \<leftarrow> shift_left keep_size drop_offset (key_cache lc);
                v \<leftarrow> shift_left keep_size drop_offset (value_cache lc);
                Some (count (upd_layer layer (\<lambda>l. l\<lparr>key_cache := k, value_cache := v,
                  seq_len := window_size cfg, start_pos := start_pos l + evict_count,
                  lstats := (lstats l)\<lparr>evictions := evictions (lstats l) + ucast evict_count\<rparr>\<rparr>) c)) }
            | KV_EVICT_RING \<Rightarrow>
                Some (count (upd_layer layer (\<lambda>l. l\<lparr>
                  start_pos := (start_pos l + evict_count) mod max_seq_len cfg,
                  lstats := (lstats l)\<lparr>evictions := evictions (lstats l) + ucast evict_count\<rparr>\<rparr>) c))
            | _ \<Rightarrow> Some (count c)))"

text \<open>The vectors copied to a position, for one token or for a batch.\<close>

definition put_vectors :: "nat \<Rightarrow> nat \<Rightarrow> nat \<Rightarrow> u8 list \<Rightarrow> u8 list \<Rightarrow> kv_cache \<Rightarrow> kv_cache option" where
  "put_vectors layer offset n key value c = do {
     k \<leftarrow> copy_in (offset * ELEM) key (n * ELEM) (key_cache (layers c ! layer));
     v \<leftarrow> copy_in (offset * ELEM) value (n * ELEM) (value_cache (layers c ! layer));
     Some (upd_layer layer (\<lambda>l. l\<lparr>key_cache := k, value_cache := v\<rparr>) c) }"

definition track_seq_len :: "nat \<Rightarrow> kv_cache \<Rightarrow> kv_cache" where
  "track_seq_len layer c =
     (let s = stats c; l = seq_len (layers c ! layer);
          cur = (if current_seq_len s < l then l else current_seq_len s)
      in c\<lparr>stats := s\<lparr>current_seq_len := cur, peak_seq_len := (if peak_seq_len s < cur then cur else peak_seq_len s)\<rparr>\<rparr>)"

definition count_stores :: "nat \<Rightarrow> u64 \<Rightarrow> kv_cache \<Rightarrow> kv_cache" where
  "count_stores layer n c =
     (upd_layer layer (\<lambda>l. l\<lparr>lstats := (lstats l)\<lparr>cache_stores := cache_stores (lstats l) + n\<rparr>\<rparr>) c)
       \<lparr>stats := (stats c)\<lparr>total_stores := total_stores (stats c) + n\<rparr>\<rparr>"

text \<open>From the eviction check to the new sequence length, common to both single stores.\<close>

definition store_token :: "nat \<Rightarrow> u32 \<Rightarrow> u8 list \<Rightarrow> u8 list \<Rightarrow> kv_cache \<Rightarrow> (int \<times> kv_cache) option" where
  "store_token layer position key value c =
     (let cfg = config c in
      if max_seq_len cfg \<le> position \<and> eviction cfg = KV_EVICT_NONE then Some (- 4, c)
      else do {
        c1 \<leftarrow> (if max_seq_len cfg \<le> position then kv_apply_eviction layer c else Some c);
        let pos = (if max_seq_len cfg \<le> position then seq_len (layers c1 ! layer) else position);
        let vec_size = unat (n_kv_heads cfg * head_dim cfg);
        c2 \<leftarrow> put_vectors layer (unat pos * vec_size) vec_size key value c1;
        let c3 = (if seq_len (layers c2 ! layer) \<le> pos then upd_layer layer (\<lambda>l. l\<lparr>seq_len := pos + 1\<rparr>) c2 else c2);
        Some (0, count_stores layer 1 c3) })"

definition kv_cache_store_f32 ::
    "nat \<Rightarrow> u32 \<Rightarrow> u8 list option \<Rightarrow> u8 list option \<Rightarrow> kv_cache \<Rightarrow> (int \<times> kv_cache) option" where
  "kv_cache_store_f32 layer position key value c =
     (if \<not> kv_initialized c \<or> \<not> kv_enabled c then Some (- 1, c)
      else if unat (n_layers (config c)) \<le> layer then Some (- 2, c)
      else (case (key, value) of
          (Some k, Some v) \<Rightarrow> do {
            (r, c1) \<leftarrow> store_token layer position k v c;
            Some (r, if r = 0 then track_seq_len layer c1 else c1) }
        | _ \<Rightarrow> Some (- 3, c)))"

definition kv_cache_store_fixed ::
    "nat \<Rightarrow> u32 \<Rightarrow> u8 list option \<Rightarrow> u8 list option \<Rightarrow> kv_cache \<Rightarrow> (int \<times> kv_cache) option" where
  "kv_cache_store_fixed layer position key value c =
     (if \<not> kv_initialized c \<or> \<not> kv_enabled c then Some (- 1, c)
      else if data_type (config c) \<noteq> KV_TYPE_FIXED32 then Some (- 5, c)
      else if unat (n_layers (config c)) \<le> layer then Some (- 2, c)
      else (case (key, value) of
          (Some k, Some v) \<Rightarrow> store_token layer position k v c
        | _ \<Rightarrow> Some (- 3, c)))"

definition kv_cache_store_batch_f32 ::
    "nat \<Rightarrow> u32 \<Rightarrow> u32 \<Rightarrow> u8 list option \<Rightarrow> u8 list option \<Rightarrow> kv_cache \<Rightarrow> (int \<times> kv_cache) option" where
  "kv_cache_store_batch_f32 layer start n_tokens keys values c =
     (if \<not> kv_initialized c \<or> \<not> kv_enabled c then Some (- 1, c)
      else if unat (n_layers (config c)) \<le> layer then Some (- 2, c)
      else (case (keys, values) of
          (Some ks, Some vs) \<Rightarrow>
            if n_tokens = 0 then Some (- 3, c)
            else do {
              let cfg = config c;
              let beyond = (max_seq_len cfg < n_tokens \<or> max_seq_len cfg - n_tokens < start);
              if beyond \<and> eviction cfg = KV_EVICT_NONE then Some (- 4, c)
              else do {
                c1 \<leftarrow> (if beyond then kv_apply_eviction layer c else Some c);
                let vec_size = unat (n_kv_heads cfg) * unat (head_dim cfg);
                c2 \<leftarrow> put_vectors layer (unat start * vec_size) (unat n_tokens * vec_size) ks vs c1;
                let end_pos = start + n_tokens;
                let c3 = (if seq_len (layers c2 ! layer) < end_pos
                          then upd_layer layer (\<lambda>l. l\<lparr>seq_len := end_pos\<rparr>) c2 else c2);
                Some (0, track_seq_len layer (count_stores layer (ucast n_tokens) c3)) } }
        | _ \<Rightarrow> Some (- 3, c)))"

text \<open>\<open>output\<close>: the pointer given is not NULL. The result \<open>None\<close> is a read past the buffer.\<close>

definition kv_cache_get_keys_f32 ::
    "nat \<Rightarrow> u32 \<Rightarrow> u32 \<Rightarrow> bool \<Rightarrow> kv_cache \<Rightarrow> (int \<times> u8 list \<times> kv_cache) option" where
  "kv_cache_get_keys_f32 layer start n_positions output c =
     (if \<not> kv_initialized c then Some (- 1, [], c)
      else if unat (n_layers (config c)) \<le> layer then Some (- 2, [], c)
      else if \<not> output \<or> n_positions = 0 then Some (- 3, [], c)
      else
        let lc = layers c ! layer in
        if seq_len lc < n_positions \<or> seq_len lc - n_positions < start then Some (- 4, [], c)
        else do {
          let vec_size = unat (n_kv_heads (config c)) * unat (head_dim (config c));
          ks \<leftarrow> copy_out (unat start * vec_size * ELEM) (unat n_positions * vec_size * ELEM) (key_cache lc);
          let c = upd_layer layer (\<lambda>l. l\<lparr>lstats := (lstats l)\<lparr>cache_hits := cache_hits (lstats l) + ucast n_positions\<rparr>\<rparr>) c;
          Some (0, ks, c\<lparr>stats := (stats c)\<lparr>total_hits := total_hits (stats c) + ucast n_positions\<rparr>\<rparr>) })"

definition kv_cache_get_values_f32 ::
    "nat \<Rightarrow> u32 \<Rightarrow> u32 \<Rightarrow> bool \<Rightarrow> kv_cache \<Rightarrow> (int \<times> u8 list) option" where
  "kv_cache_get_values_f32 layer start n_positions output c =
     (if \<not> kv_initialized c then Some (- 1, [])
      else if unat (n_layers (config c)) \<le> layer then Some (- 2, [])
      else if \<not> output \<or> n_positions = 0 then Some (- 3, [])
      else
        let lc = layers c ! layer in
        if seq_len lc < n_positions \<or> seq_len lc - n_positions < start then Some (- 4, [])
        else do {
          let vec_size = unat (n_kv_heads (config c)) * unat (head_dim (config c));
          vs \<leftarrow> copy_out (unat start * vec_size * ELEM) (unat n_positions * vec_size * ELEM) (value_cache lc);
          Some (0, vs) })"

text \<open>The fixed-point readers share everything but the buffer.\<close>

definition get_fixed :: "(kv_layer \<Rightarrow> u8 list) \<Rightarrow> nat \<Rightarrow> u32 \<Rightarrow> u32 \<Rightarrow> bool \<Rightarrow> kv_cache \<Rightarrow> (int \<times> u8 list) option" where
  "get_fixed buf layer start n_positions output c =
     (if \<not> kv_initialized c then Some (- 1, [])
      else if data_type (config c) \<noteq> KV_TYPE_FIXED32 then Some (- 5, [])
      else if unat (n_layers (config c)) \<le> layer then Some (- 2, [])
      else if \<not> output \<or> n_positions = 0 then Some (- 3, [])
      else
        let lc = layers c ! layer in
        if seq_len lc < start + n_positions then Some (- 4, [])
        else do {
          let vec_size = unat (n_kv_heads (config c) * head_dim (config c));
          bs \<leftarrow> copy_out (unat start * vec_size * ELEM) (unat n_positions * vec_size * ELEM) (buf lc);
          Some (0, bs) })"

definition kv_cache_get_keys_fixed :: "nat \<Rightarrow> u32 \<Rightarrow> u32 \<Rightarrow> bool \<Rightarrow> kv_cache \<Rightarrow> (int \<times> u8 list) option" where
  "kv_cache_get_keys_fixed = get_fixed key_cache"

definition kv_cache_get_values_fixed :: "nat \<Rightarrow> u32 \<Rightarrow> u32 \<Rightarrow> bool \<Rightarrow> kv_cache \<Rightarrow> (int \<times> u8 list) option" where
  "kv_cache_get_values_fixed = get_fixed value_cache"

section \<open>Queries and statistics\<close>

definition kv_cache_get_seq_len :: "nat \<Rightarrow> kv_cache option \<Rightarrow> u32" where
  "kv_cache_get_seq_len layer cache =
     (case cache of None \<Rightarrow> 0 | Some c \<Rightarrow>
        if \<not> kv_initialized c then 0
        else if unat (n_layers (config c)) \<le> layer then current_seq_len (stats c)
        else seq_len (layers c ! layer))"

definition kv_cache_get_start_pos :: "nat \<Rightarrow> kv_cache option \<Rightarrow> u32" where
  "kv_cache_get_start_pos layer cache =
     (case cache of None \<Rightarrow> 0 | Some c \<Rightarrow>
        if \<not> kv_initialized c \<or> unat (n_layers (config c)) \<le> layer then 0 else start_pos (layers c ! layer))"

definition kv_cache_is_valid :: "kv_cache option \<Rightarrow> bool" where
  "kv_cache_is_valid cache =
     (case cache of None \<Rightarrow> False | Some c \<Rightarrow>
        if magic c \<noteq> KV_CACHE_MAGIC then False
        else if version c \<noteq> KV_CACHE_VERSION then False else kv_initialized c)"

definition kv_cache_reset_stats :: "kv_cache \<Rightarrow> kv_cache" where
  "kv_cache_reset_stats c =
     (if \<not> kv_initialized c then c
      else c\<lparr>stats := (stats c)\<lparr>total_hits := 0, total_stores := 0, total_evictions := 0,
                attention_time_ns := 0, no_cache_time_ns := 0\<rparr>,
             layers := map (\<lambda>l. l\<lparr>lstats := zero_layer_stats\<rparr>) (take (unat (n_layers (config c))) (layers c))
                @ drop (unat (n_layers (config c))) (layers c)\<rparr>)"

definition kv_cache_enable :: "bool \<Rightarrow> kv_cache \<Rightarrow> kv_cache" where
  "kv_cache_enable b c = c\<lparr>kv_enabled := b\<rparr>"

end
