(* ===== verification/KvFlow.thy ===== *)
theory KvFlow
  imports KvCache BpeFlow
begin

text \<open>
  What the key/value cache of \<open>KvCache\<close> guarantees with a sliding window, and what the other
  eviction policies do when the cache is full. The abstract cache is the list of the vectors
  stored so far.
\<close>

section \<open>Buffers of vectors\<close>

definition vectors :: "nat \<Rightarrow> u8 list list \<Rightarrow> bool" where
  "vectors b xs \<longleftrightarrow> (\<forall>x \<in> set xs. length x = b)"

lemma vectors_simps [simp]:
  "vectors b []" "vectors b (x # xs) \<longleftrightarrow> length x = b \<and> vectors b xs"
  "vectors b (xs @ ys) \<longleftrightarrow> vectors b xs \<and> vectors b ys"
  by (auto simp: vectors_def)

lemma vectors_take [simp]: "vectors b xs \<Longrightarrow> vectors b (take n xs)"
  and vectors_drop [simp]: "vectors b xs \<Longrightarrow> vectors b (drop n xs)"
  by (auto simp: vectors_def dest: in_set_takeD in_set_dropD)

lemma length_vectors: "vectors b xs \<Longrightarrow> length (concat xs) = length xs * b"
  by (induction xs) auto

lemma take_vectors: "vectors b xs \<Longrightarrow> take (n * b) (concat xs) = concat (take n xs)"
proof (induction xs arbitrary: n)
  case (Cons x xs)
  then show ?case by (cases n) auto
qed simp

lemma drop_vectors: "vectors b xs \<Longrightarrow> drop (n * b) (concat xs) = concat (drop n xs)"
proof (induction xs arbitrary: n)
  case (Cons x xs)
  then show ?case by (cases n) auto
qed simp

lemma shift_left_exact:
  assumes "d + n \<le> length buf"
  shows "shift_left n d buf = Some (take n (drop d buf) @ drop n buf)"
proof -
  have "fold (\<lambda>i b. b[i := b ! (d + i)]) [0..<n] buf = take n (drop d buf) @ drop n buf"
    using assms
  proof (induction n)
    case (Suc n)
    let ?a = "take n (drop d buf)"
    have a: "length ?a = n" and b: "drop n buf = buf ! n # drop (Suc n) buf"
      using Suc.prems by (simp_all add: Cons_nth_drop_Suc)
    have "(?a @ drop n buf) ! (d + n) = buf ! (d + n)"
      using a Suc.prems by (simp add: nth_append add.commute)
    then have "(?a @ drop n buf)[n := (?a @ drop n buf) ! (d + n)] = ?a @ buf ! (d + n) # drop (Suc n) buf"
      using a by (simp add: list_update_append b)
    with Suc show ?case
      by (simp add: take_Suc_conv_app_nth)
  qed simp
  with assms show ?thesis by (simp add: shift_left_def)
qed

text \<open>\<open>front b xs buf\<close>: the buffer begins with the vectors \<open>xs\<close>.\<close>

definition front :: "nat \<Rightarrow> u8 list list \<Rightarrow> u8 list \<Rightarrow> bool" where
  "front b xs buf \<longleftrightarrow> vectors b xs \<and> length xs * b \<le> length buf \<and> take (length xs * b) buf = concat xs"

lemma front_shift:
  assumes "front b xs buf" "e + w = length xs"
  shows "\<exists>buf'. shift_left (w * b) (e * b) buf = Some buf' \<and> length buf' = length buf \<and> front b (drop e xs) buf'"
proof -
  let ?buf = "take (w * b) (drop (e * b) buf) @ drop (w * b) buf"
  have len: "e * b + w * b \<le> length buf"
    using assms by (simp add: front_def flip: distrib_right)
  have "take (w * b) (drop (e * b) buf) = drop (e * b) (take (e * b + w * b) buf)"
    by (simp add: take_drop add.commute)
  also have "\<dots> = concat (drop e xs)"
    using assms by (simp add: front_def drop_vectors flip: distrib_right)
  finally have c: "take (w * b) (drop (e * b) buf) = concat (drop e xs)" .
  have "length (concat (drop e xs)) = w * b" "length (drop e xs) = w"
    using assms length_vectors [of b "drop e xs"] by (auto simp: front_def)
  then have "front b (drop e xs) ?buf"
    using assms len unfolding c by (auto simp: front_def)
  with shift_left_exact [OF len] len show ?thesis
    by (intro exI [of _ ?buf]) simp
qed

lemma front_copy_in:
  assumes "front b xs buf" "length x = b" "(length xs + 1) * b \<le> length buf"
  shows "\<exists>buf'. copy_in (length xs * b) x b buf = Some buf' \<and> length buf' = length buf \<and> front b (xs @ [x]) buf'"
  using assms length_vectors [of b xs] by (auto simp: copy_in_def front_def)

lemma front_copy_out:
  assumes "front b xs buf" "s + n \<le> length xs"
  shows "copy_out (s * b) (n * b) buf = Some (concat (take n (drop s xs)))"
proof -
  have "s * b + n * b \<le> length xs * b"
    using assms(2) by (metis distrib_right mult_le_mono1)
  then have "take (n * b) (drop (s * b) buf) = take (n * b) (drop (s * b) (take (length xs * b) buf))"
    by (simp add: take_drop min_absorb1 add.commute)
  also have "\<dots> = concat (take n (drop s xs))"
    using assms(1) by (simp add: front_def drop_vectors take_vectors)
  finally show ?thesis
    using assms \<open>s * b + n * b \<le> length xs * b\<close> by (auto simp: copy_out_def front_def)
qed

section \<open>The sliding window\<close>

definition sliding :: "kv_config \<Rightarrow> bool" where
  "sliding c \<longleftrightarrow> config_valid c \<and> eviction c = KV_EVICT_SLIDING \<and> data_type c \<noteq> KV_TYPE_FLOAT16
     \<and> 0 < window_size c \<and> window_size c < max_seq_len c"

definition vbytes :: "kv_config \<Rightarrow> nat" where
  "vbytes c = unat (n_kv_heads c) * unat (head_dim c) * ELEM"

text \<open>How many of \<open>n\<close> vectors stored are kept.\<close>

definition kept :: "kv_config \<Rightarrow> nat \<Rightarrow> nat" where
  "kept c n = (if n \<le> unat (max_seq_len c) then n else unat (window_size c) + 1)"

definition layer_holds :: "kv_config \<Rightarrow> kv_layer \<Rightarrow> nat \<Rightarrow> (u8 list \<times> u8 list) list \<Rightarrow> bool" where
  "layer_holds c l n H \<longleftrightarrow> unat (max_seq_len c) * vbytes c \<le> length (key_cache l)
     \<and> unat (max_seq_len c) * vbytes c \<le> length (value_cache l)
     \<and> unat (seq_len l) = n \<and> n \<le> length H \<and> unat (start_pos l) = length H - n
     \<and> front (vbytes c) (map fst (drop (length H - n) H)) (key_cache l)
     \<and> front (vbytes c) (map snd (drop (length H - n) H)) (value_cache l)"

lemma config_bounds:
  assumes "config_valid c"
  shows "unat (n_kv_heads c) * unat (head_dim c) \<le> 131072" "vbytes c \<le> 524288"
    "unat (max_seq_len c) \<le> 32768" "unat (n_kv_heads c * head_dim c) = unat (n_kv_heads c) * unat (head_dim c)"
    "0 < vbytes c" "0 < unat (n_layers c)"
proof -
  have b: "unat (n_kv_heads c) \<le> 256" "unat (head_dim c) \<le> 512" "unat (max_seq_len c) \<le> 32768"
    "0 < unat (n_kv_heads c)" "0 < unat (head_dim c)" "0 < unat (n_layers c)"
    using assms by (auto simp: config_valid_def word_less_nat_alt unat_gt_0)
  then have "unat (n_kv_heads c) * unat (head_dim c) \<le> 256 * 512" by (intro mult_le_mono)
  with b show "unat (n_kv_heads c) * unat (head_dim c) \<le> 131072" "vbytes c \<le> 524288"
    "unat (max_seq_len c) \<le> 32768" "unat (n_kv_heads c * head_dim c) = unat (n_kv_heads c) * unat (head_dim c)"
    "0 < vbytes c" "0 < unat (n_layers c)"
    by (simp_all add: vbytes_def unat_word_ariths mult.commute)
qed

lemma vector_size_bytes:
  assumes "config_valid c" "data_type c \<noteq> KV_TYPE_FLOAT16"
  shows "kv_vector_size c (kv_type_size (data_type c)) = vbytes c"
  using assms config_bounds [OF assms(1)]
  by (cases "data_type c") (simp_all add: kv_vector_size_def kv_type_size_def vbytes_def)

lemma window_bytes:
  assumes "config_valid c" "n \<le> unat (max_seq_len c)"
  shows "n * vbytes c mod SIZE_MOD = n * vbytes c"
proof -
  have "n * vbytes c \<le> 32768 * 524288"
    using config_bounds [OF assms(1)] assms(2) by (intro mult_le_mono) auto
  then show ?thesis by simp
qed

lemma evict_sliding:
  assumes s: "sliding cfg" and c: "config c = cfg" "i < length (layers c)"
    and l: "layer_holds cfg (layers c ! i) n H" and n: "unat (window_size cfg) < n" "n \<le> unat (max_seq_len cfg)"
      "length H < 2 ^ 32"
  shows "\<exists>c1. kv_apply_eviction i c = Some c1 \<and> config c1 = cfg \<and> length (layers c1) = length (layers c)
    \<and> kv_initialized c1 = kv_initialized c \<and> kv_enabled c1 = kv_enabled c
    \<and> (\<forall>j. j \<noteq> i \<longrightarrow> layers c1 ! j = layers c ! j)
    \<and> layer_holds cfg (layers c1 ! i) (unat (window_size cfg)) H"
proof -
  let ?l = "layers c ! i" and ?w = "unat (window_size cfg)" and ?b = "vbytes cfg"
  let ?e = "n - ?w"
  have v: "config_valid cfg" "eviction cfg = KV_EVICT_SLIDING" "data_type cfg \<noteq> KV_TYPE_FLOAT16" "window_size cfg \<noteq> 0"
    using s by (auto simp: sliding_def)
  have h: "unat (seq_len ?l) = n" "n \<le> length H" "unat (start_pos ?l) = length H - n"
    "front ?b (map fst (drop (length H - n) H)) (key_cache ?l)"
    "front ?b (map snd (drop (length H - n) H)) (value_cache ?l)"
    using l by (auto simp: layer_holds_def)
  have gt: "window_size cfg < seq_len ?l" using n(1) h(1) by (simp add: word_less_nat_alt)
  then have e: "unat (seq_len ?l - window_size cfg) = ?e" using h(1) by (simp add: unat_sub)
  have "length (drop (length H - n) H) = n" using h(2) by simp
  then have "?e + ?w = length (map fst (drop (length H - n) H))" "?e + ?w = length (map snd (drop (length H - n) H))"
    using n(1) by auto
  from front_shift [OF h(4) this(1)] front_shift [OF h(5) this(2)] obtain k v' where
    k: "shift_left (?w * ?b) (?e * ?b) (key_cache ?l) = Some k" "length k = length (key_cache ?l)"
      "front ?b (drop ?e (map fst (drop (length H - n) H))) k" and
    v': "shift_left (?w * ?b) (?e * ?b) (value_cache ?l) = Some v'" "length v' = length (value_cache ?l)"
      "front ?b (drop ?e (map snd (drop (length H - n) H))) v'" by blast
  have "?e + (length H - n) = length H - ?w" using n(1) h(2) by simp
  then have dr: "drop ?e (map f (drop (length H - n) H)) = map f (drop (length H - ?w) H)" for f :: "_ \<Rightarrow> u8 list"
    by (simp add: drop_map)
  have st: "unat (start_pos ?l + (seq_len ?l - window_size cfg)) = length H - ?w"
    using h(2,3) e n by (simp add: unat_word_ariths)
  define cnt where "cnt = (\<lambda>c :: kv_cache. c\<lparr>stats := (stats c)\<lparr>total_evictions :=
    total_evictions (stats c) + ucast (seq_len ?l - window_size cfg)\<rparr>\<rparr>)"
  let ?f = "\<lambda>l. l\<lparr>key_cache := k, value_cache := v', seq_len := window_size cfg,
    start_pos := start_pos l + (seq_len ?l - window_size cfg),
    lstats := (lstats l)\<lparr>evictions := evictions (lstats l) + ucast (seq_len ?l - window_size cfg)\<rparr>\<rparr>"
  have ev: "kv_apply_eviction i c = Some (cnt (upd_layer i ?f c))"
    using gt v k(1) v'(1) window_bytes [OF v(1), of ?w] window_bytes [OF v(1), of ?e] n
    by (simp add: kv_apply_eviction_def c(1) Let_def vector_size_bytes e cnt_def not_le)
  have "layer_holds cfg (?f ?l) ?w H"
    using l k(2,3) v'(2,3) st n(1) h(2) unfolding dr by (simp add: layer_holds_def)
  with ev c show ?thesis
    by (intro exI [of _ "cnt (upd_layer i ?f c)"]) (simp add: cnt_def upd_layer_def)
qed

text \<open>Storing the next vector at the position it has in the sequence.\<close>

definition cache_over :: "kv_config \<Rightarrow> kv_cache \<Rightarrow> bool" where
  "cache_over cfg c \<longleftrightarrow> config c = cfg \<and> kv_initialized c \<and> kv_enabled c
     \<and> length (layers c) = unat (n_layers cfg)"

lemma put_next:
  assumes v: "config_valid cfg" and c: "i < length (layers c)"
    and l: "layer_holds cfg (layers c ! i) n H" and n: "n < unat (max_seq_len cfg)"
    and kv: "length k = vbytes cfg" "length v = vbytes cfg"
  shows "\<exists>c2. put_vectors i (n * unat (n_kv_heads cfg * head_dim cfg)) (unat (n_kv_heads cfg * head_dim cfg)) k v c = Some c2
    \<and> (\<exists>ks vs. c2 = upd_layer i (\<lambda>l. l\<lparr>key_cache := ks, value_cache := vs\<rparr>) c
        \<and> layer_holds cfg ((layers c ! i)\<lparr>key_cache := ks, value_cache := vs, seq_len := of_nat (n + 1)\<rparr>) (n + 1) (H @ [(k, v)]))"
proof -
  let ?l = "layers c ! i" and ?b = "vbytes cfg" and ?D = "drop (length H - n) H"
  have h: "unat (max_seq_len cfg) * ?b \<le> length (key_cache ?l)" "unat (max_seq_len cfg) * ?b \<le> length (value_cache ?l)"
    "n \<le> length H" "unat (start_pos ?l) = length H - n"
    "front ?b (map fst ?D) (key_cache ?l)" "front ?b (map snd ?D) (value_cache ?l)"
    using l by (auto simp: layer_holds_def)
  have D: "length ?D = n" "drop (length (H @ [(k, v)]) - (n + 1)) (H @ [(k, v)]) = ?D @ [(k, v)]"
    using h(3) by auto
  have "(n + 1) * ?b \<le> unat (max_seq_len cfg) * ?b"
    using n by (intro mult_le_mono1) simp
  with h(1,2) D(1) have room: "(length (map fst ?D) + 1) * ?b \<le> length (key_cache ?l)"
    "(length (map snd ?D) + 1) * ?b \<le> length (value_cache ?l)" by simp_all
  from front_copy_in [OF h(5) kv(1) room(1)] front_copy_in [OF h(6) kv(2) room(2)] obtain ks vs where
    k: "copy_in (n * ?b) k ?b (key_cache ?l) = Some ks" "length ks = length (key_cache ?l)" "front ?b (map fst ?D @ [k]) ks" and
    v': "copy_in (n * ?b) v ?b (value_cache ?l) = Some vs" "length vs = length (value_cache ?l)" "front ?b (map snd ?D @ [v]) vs"
    using D(1) by auto
  have b: "unat (n_kv_heads cfg * head_dim cfg) * ELEM = ?b" "n * unat (n_kv_heads cfg * head_dim cfg) * ELEM = n * ?b"
    using config_bounds(4) [OF v] by (simp_all add: vbytes_def)
  have "unat (of_nat (n + 1) :: u32) = n + 1"
    using n config_bounds(3) [OF v] by (simp add: unat_of_nat del: of_nat_add of_nat_Suc)
  then have "layer_holds cfg (?l\<lparr>key_cache := ks, value_cache := vs, seq_len := of_nat (n + 1)\<rparr>) (n + 1) (H @ [(k, v)])"
    using h(1-4) k(2,3) v'(2,3) D(2) by (simp add: layer_holds_def)
  with k(1) v'(1) show ?thesis
    unfolding put_vectors_def b by auto
qed

lemma store_next:
  assumes s: "sliding cfg" and c: "cache_over cfg c" "i < unat (n_layers cfg)"
    and l: "layer_holds cfg (layers c ! i) (kept cfg (length H)) H" and H: "length H < 2 ^ 32 - 1"
    and kv: "length k = vbytes cfg" "length v = vbytes cfg"
  shows "\<exists>c'. kv_cache_store_f32 i (of_nat (length H)) (Some k) (Some v) c = Some (0, c') \<and> cache_over cfg c'
    \<and> layer_holds cfg (layers c' ! i) (kept cfg (length H + 1)) (H @ [(k, v)])
    \<and> (\<forall>j. j \<noteq> i \<longrightarrow> layers c' ! j = layers c ! j)"
proof -
  let ?p = "of_nat (length H) :: u32" and ?vec = "unat (n_kv_heads cfg * head_dim cfg)"
  have v: "config_valid cfg" "eviction cfg \<noteq> KV_EVICT_NONE" "unat (window_size cfg) < unat (max_seq_len cfg)"
    using s by (auto simp: sliding_def word_less_nat_alt)
  have p: "unat ?p = length H" using H by (simp add: unat_of_nat)
  have i: "i < length (layers c)" using c by (simp add: cache_over_def)
  text \<open>The state in which the vector is copied, and how many vectors it holds.\<close>
  obtain c1 n where c1: "(if max_seq_len cfg \<le> ?p then kv_apply_eviction i c else Some c) = Some c1"
    "cache_over cfg c1" "\<forall>j. j \<noteq> i \<longrightarrow> layers c1 ! j = layers c ! j" "layer_holds cfg (layers c1 ! i) n H"
    "n < unat (max_seq_len cfg)" "n + 1 = kept cfg (length H + 1)"
    "(if max_seq_len cfg \<le> ?p then seq_len (layers c1 ! i) else ?p) = of_nat n"
  proof (cases "max_seq_len cfg \<le> ?p")
    case True
    then have le: "unat (max_seq_len cfg) \<le> length H" using p by (simp add: word_le_nat_alt)
    have "unat (window_size cfg) < kept cfg (length H)" "kept cfg (length H) \<le> unat (max_seq_len cfg)"
      using le v(3) by (auto simp: kept_def)
    from evict_sliding [OF s _ i l this] H c obtain c1 where
      e: "kv_apply_eviction i c = Some c1" "cache_over cfg c1" "\<forall>j. j \<noteq> i \<longrightarrow> layers c1 ! j = layers c ! j"
        "layer_holds cfg (layers c1 ! i) (unat (window_size cfg)) H"
      by (auto simp: cache_over_def)
    moreover have "seq_len (layers c1 ! i) = of_nat (unat (window_size cfg))"
      using e(4) by (simp add: layer_holds_def word_unat_eq_iff)
    ultimately show thesis
      using le True v(3) by (intro that [of c1 "unat (window_size cfg)"]) (auto simp: kept_def)
  next
    case False
    then have "length H < unat (max_seq_len cfg)" using p by (simp add: word_le_nat_alt)
    with l False c(1) show thesis
      by (intro that [of c "length H"]) (auto simp: kept_def)
  qed
  have seq: "unat (seq_len (layers c1 ! i)) = n" "unat (of_nat n :: u32) = n"
    using c1(4,5) config_bounds(3) [OF v(1)] by (simp_all add: layer_holds_def unat_of_nat)
  have i1: "i < length (layers c1)" using c c1(2) by (simp add: cache_over_def)
  obtain ks vs where c2: "put_vectors i (n * ?vec) ?vec k v c1
      = Some (upd_layer i (\<lambda>l. l\<lparr>key_cache := ks, value_cache := vs\<rparr>) c1)"
    "layer_holds cfg ((layers c1 ! i)\<lparr>key_cache := ks, value_cache := vs, seq_len := of_nat (n + 1)\<rparr>) (n + 1) (H @ [(k, v)])"
    using put_next [OF v(1) i1 c1(4,5) kv] by blast
  let ?c3 = "upd_layer i (\<lambda>l. l\<lparr>seq_len := of_nat n + 1\<rparr>)
    (upd_layer i (\<lambda>l. l\<lparr>key_cache := ks, value_cache := vs\<rparr>) c1)"
  have cfg: "config c = cfg" "kv_initialized c" "kv_enabled c" using c(1) by (simp_all add: cache_over_def)
  have "seq_len (layers c1 ! i) \<le> of_nat n" using seq by (simp add: word_le_nat_alt)
  then have st: "store_token i ?p k v c = Some (0, count_stores i 1 ?c3)"
    using v(2) c1(1,7) c2(1) seq(2) i1 unfolding store_token_def cfg(1) Let_def
    by (simp add: upd_layer_def del: of_nat_Suc)
  then have "kv_cache_store_f32 i ?p (Some k) (Some v) c = Some (0, track_seq_len i (count_stores i 1 ?c3))"
    using cfg c(2) by (simp add: kv_cache_store_f32_def)
  moreover have "cache_over cfg (track_seq_len i (count_stores i 1 ?c3))"
    using c1(2) by (simp add: cache_over_def track_seq_len_def count_stores_def upd_layer_def Let_def)
  moreover have "layer_holds cfg (layers (track_seq_len i (count_stores i 1 ?c3)) ! i) (n + 1) (H @ [(k, v)])"
    using c2(2) i1 by (simp add: track_seq_len_def count_stores_def upd_layer_def Let_def layer_holds_def add.commute)
  moreover have "\<forall>j. j \<noteq> i \<longrightarrow> layers (track_seq_len i (count_stores i 1 ?c3)) ! j = layers c ! j"
    using c1(3) by (simp add: track_seq_len_def count_stores_def upd_layer_def Let_def)
  ultimately show ?thesis unfolding c1(6) by blast
qed

section \<open>A new cache\<close>

lemma alloc_layers_fresh:
  assumes "alloc_layers raw sz n ls h = Some ((ls', True), h')" "\<And>p n. length (raw p n) = n"
  shows "length ls' = length ls + n \<and> take (length ls) ls' = ls
    \<and> (\<forall>j. length ls \<le> j \<and> j < length ls' \<longrightarrow> seq_len (ls' ! j) = 0 \<and> start_pos (ls' ! j) = 0
         \<and> length (key_cache (ls' ! j)) = sz \<and> length (value_cache (ls' ! j)) = sz)"
  using assms(1)
proof (induction n arbitrary: ls h)
  case (Suc n)
  then obtain kp h1 vp h2 where a: "heap_alloc_aligned sz KV_CACHE_PAGE_SIZE h = Some (Some kp, h1)"
    "heap_alloc_aligned sz KV_CACHE_PAGE_SIZE h1 = Some (Some vp, h2)"
    "alloc_layers raw sz n (ls @ [zero_layer\<lparr>key_ptr := Some kp, key_cache := raw kp sz, value_ptr := Some vp,
       value_cache := raw vp sz\<rparr>]) h2 = Some ((ls', True), h')"
    by (auto simp: Let_def split: Option.bind_splits option.splits prod.splits)
  have r: "length ls' = Suc (length ls) + n" "take (Suc (length ls)) ls' = ls @ [zero_layer\<lparr>key_ptr := Some kp,
       key_cache := raw kp sz, value_ptr := Some vp, value_cache := raw vp sz\<rparr>]"
    "\<forall>j. Suc (length ls) \<le> j \<and> j < length ls' \<longrightarrow> seq_len (ls' ! j) = 0 \<and> start_pos (ls' ! j) = 0
         \<and> length (key_cache (ls' ! j)) = sz \<and> length (value_cache (ls' ! j)) = sz"
    using Suc.IH [OF a(3)] by simp_all
  have "ls' ! length ls = take (Suc (length ls)) ls' ! length ls"
    using r(1) by simp
  then have new: "ls' ! length ls = zero_layer\<lparr>key_ptr := Some kp, key_cache := raw kp sz,
      value_ptr := Some vp, value_cache := raw vp sz\<rparr>"
    unfolding r(2) by simp
  have "seq_len (ls' ! j) = 0 \<and> start_pos (ls' ! j) = 0 \<and> length (key_cache (ls' ! j)) = sz
      \<and> length (value_cache (ls' ! j)) = sz" if "length ls \<le> j" "j < length ls'" for j
    using r(3) that new assms(2) by (cases "j = length ls") (simp_all add: zero_layer_def)
  moreover have "take (length ls) ls' = ls"
    using arg_cong [OF r(2), of "take (length ls)"] by simp
  ultimately show ?case
    using r(1) by simp
qed auto

lemma create_fresh:
  assumes "kv_cache_create raw (Some cfg) h = Some (Some c, h')" "\<And>p n. length (raw p n) = n"
  shows "config_valid cfg \<and> cache_over cfg c \<and> (\<forall>i < unat (n_layers cfg). seq_len (layers c ! i) = 0
    \<and> start_pos (layers c ! i) = 0 \<and> length (key_cache (layers c ! i)) = kv_layer_cache_size cfg
    \<and> length (value_cache (layers c ! i)) = kv_layer_cache_size cfg)"
proof -
  obtain ls h2 h3 where a: "config_valid cfg"
    "alloc_layers raw (kv_layer_cache_size cfg) (unat (n_layers cfg)) [] h2 = Some ((ls, True), h3)"
    "layers c = ls" "config c = cfg" "kv_initialized c" "kv_enabled c"
    using assms(1) by (auto simp: kv_cache_create_def Let_def split: if_splits Option.bind_splits option.splits prod.splits)
  from alloc_layers_fresh [OF a(2) assms(2)] a show ?thesis
    by (simp add: cache_over_def)
qed

lemma layer_size_enough:
  assumes "config_valid c" "data_type c \<noteq> KV_TYPE_FLOAT16"
  shows "unat (max_seq_len c) * vbytes c \<le> kv_layer_cache_size c"
proof -
  let ?n = "unat (max_seq_len c) * vbytes c"
  have n: "?n \<le> 32768 * 524288"
    using config_bounds [OF assms(1)] by (intro mult_le_mono) auto
  have eq: "unat (max_seq_len c) * unat (n_kv_heads c) * unat (head_dim c) * kv_type_size (data_type c) = ?n"
    using assms(2) by (cases "data_type c") (simp_all add: vbytes_def kv_type_size_def)
  have "kv_layer_cache_size c = (?n + 4095) div 4096 * 4096"
    unfolding kv_layer_cache_size_def eq using n by (simp add: kv_align_up_def add64_def sub64_def)
  then show "?n \<le> kv_layer_cache_size c"
    by linarith
qed

section \<open>Sequences of stores\<close>

text \<open>
  Storing the vectors of a sequence at their positions, from \<open>p\<close> on. The run ends with 0 when every
  store succeeded and with the code of the first store that is refused, which leaves the rest out;
  it is \<open>None\<close> only for a store that accesses memory outside a buffer.
\<close>

fun store_run :: "nat \<Rightarrow> nat \<Rightarrow> (u8 list \<times> u8 list) list \<Rightarrow> kv_cache \<Rightarrow> (int \<times> kv_cache) option" where
  "store_run i p [] c = Some (0, c)"
| "store_run i p ((k, v) # kvs) c = do {
     (r, c') \<leftarrow> kv_cache_store_f32 i (of_nat p) (Some k) (Some v) c;
     if r = 0 then store_run i (p + 1) kvs c' else Some (r, c') }"

lemma store_run_append:
  assumes "store_run i p xs c = Some (0, c1)"
  shows "store_run i p (xs @ ys) c = store_run i (p + length xs) ys c1"
  using assms
proof (induction xs arbitrary: p c)
  case (Cons x xs)
  then show ?case by (cases x) (auto split: bind_splits if_splits)
qed simp

lemma store_run_window:
  assumes "sliding cfg" "cache_over cfg c" "i < unat (n_layers cfg)"
    "layer_holds cfg (layers c ! i) (kept cfg (length H)) H" "length H + length kvs < 2 ^ 32"
    "\<forall>(k, v) \<in> set kvs. length k = vbytes cfg \<and> length v = vbytes cfg"
  shows "\<exists>c'. store_run i (length H) kvs c = Some (0, c') \<and> cache_over cfg c'
    \<and> layer_holds cfg (layers c' ! i) (kept cfg (length (H @ kvs))) (H @ kvs)"
  using assms(2,4-6)
proof (induction kvs arbitrary: c H)
  case (Cons q kvs)
  obtain k v where q: "q = (k, v)" by (cases q)
  from store_next [OF assms(1) Cons.prems(1) assms(3) Cons.prems(2), of k v] obtain c1 where
    c1: "kv_cache_store_f32 i (of_nat (length H)) (Some k) (Some v) c = Some (0, c1)" "cache_over cfg c1"
      "layer_holds cfg (layers c1 ! i) (kept cfg (length (H @ [(k, v)]))) (H @ [(k, v)])"
    using Cons.prems q by auto
  from Cons.IH [OF c1(2,3)] Cons.prems q c1(1) show ?case by auto
qed auto

lemma get_held:
  assumes c: "cache_over cfg c" "config_valid cfg" "i < unat (n_layers cfg)" "layer_holds cfg (layers c ! i) m H"
    and sn: "0 < n" "s + n \<le> m" "m < 2 ^ 32"
  shows "\<exists>c'. kv_cache_get_keys_f32 i (of_nat s) (of_nat n) True c =
      Some (0, concat (map fst (take n (drop s (drop (length H - m) H)))), c')"
    "kv_cache_get_values_f32 i (of_nat s) (of_nat n) True c =
      Some (0, concat (map snd (take n (drop s (drop (length H - m) H)))))"
proof -
  define W where "W = drop (length H - m) H"
  have l: "unat (seq_len (layers c ! i)) = m" "front (vbytes cfg) (map fst W) (key_cache (layers c ! i))"
    "front (vbytes cfg) (map snd W) (value_cache (layers c ! i))" "s + n \<le> length W"
    using c(4) sn(2) by (auto simp: layer_holds_def W_def)
  have u: "unat (of_nat s :: u32) = s" "unat (of_nat n :: u32) = n" "(of_nat n :: u32) \<noteq> 0"
    using sn by (auto simp: unat_of_nat unat_eq_0 [symmetric] simp del: unat_eq_0)
  have b: "x * (unat (n_kv_heads cfg) * unat (head_dim cfg)) * ELEM = x * vbytes cfg" for x
    by (simp add: vbytes_def)
  from u have "\<not> seq_len (layers c ! i) < of_nat n" "\<not> seq_len (layers c ! i) - of_nat n < of_nat s"
    using l(1) sn(2) by (simp_all add: word_less_nat_alt unat_sub word_le_nat_alt)
  moreover have "config c = cfg" "kv_initialized c" using c(1) by (simp_all add: cache_over_def)
  ultimately show "\<exists>c'. kv_cache_get_keys_f32 i (of_nat s) (of_nat n) True c =
      Some (0, concat (map fst (take n (drop s W))), c')"
    "kv_cache_get_values_f32 i (of_nat s) (of_nat n) True c = Some (0, concat (map snd (take n (drop s W))))"
    using c(3) u front_copy_out [OF l(2), of s n] front_copy_out [OF l(3), of s n] l(4)
    unfolding W_def [symmetric]
    by (simp_all add: kv_cache_get_keys_f32_def kv_cache_get_values_f32_def Let_def take_map drop_map not_le b)
qed

section \<open>Policies that do not make room\<close>

text \<open>
  The configurations with which eviction leaves a layer of \<open>n\<close> vectors as it is. A sliding window
  as large as the layer is one of them: eviction returns early while the layer holds no more than
  the window.
\<close>

definition never_evicts :: "kv_config \<Rightarrow> nat \<Rightarrow> bool" where
  "never_evicts c n \<longleftrightarrow> eviction c = KV_EVICT_RING \<or> eviction c = KV_EVICT_ATTENTION
     \<or> eviction c = KV_EVICT_SLIDING \<and> (window_size c = 0 \<or> n \<le> unat (window_size c))"

lemma never_evicts_fewer: "never_evicts c n \<Longrightarrow> m \<le> n \<Longrightarrow> never_evicts c m"
  by (auto simp: never_evicts_def)

lemma evict_nothing:
  assumes "never_evicts (config c) (unat (seq_len (layers c ! i)))" "i < length (layers c)"
  obtains c1 where "kv_apply_eviction i c = Some c1" "config c1 = config c" "seq_len (layers c1 ! i) = seq_len (layers c ! i)"
    "length (layers c1) = length (layers c)" "key_cache (layers c1 ! i) = key_cache (layers c ! i)"
    "value_cache (layers c1 ! i) = value_cache (layers c ! i)" "kv_initialized c1 = kv_initialized c" "kv_enabled c1 = kv_enabled c"
proof -
  have "\<exists>c1. kv_apply_eviction i c = Some c1"
    using assms(1) by (auto simp: kv_apply_eviction_def never_evicts_def word_le_nat_alt Let_def)
  then obtain c1 where c1: "kv_apply_eviction i c = Some c1" by blast
  then have "config c1 = config c \<and> seq_len (layers c1 ! i) = seq_len (layers c ! i) \<and> length (layers c1) = length (layers c)
    \<and> key_cache (layers c1 ! i) = key_cache (layers c ! i) \<and> value_cache (layers c1 ! i) = value_cache (layers c ! i)
    \<and> kv_initialized c1 = kv_initialized c \<and> kv_enabled c1 = kv_enabled c"
    using assms by (auto simp: kv_apply_eviction_def never_evicts_def word_le_nat_alt Let_def upd_layer_def split: if_splits kv_evict.splits)
  with c1 show thesis by (intro that [of c1]) simp_all
qed

text \<open>
  What a store at the end of the sequence does with these policies: it copies the vectors to the
  position behind the last one, in a state whose buffers are the same.
\<close>

definition room_made :: "nat \<Rightarrow> nat \<Rightarrow> kv_cache \<Rightarrow> kv_cache option" where
  "room_made i p c = (if max_seq_len (config c) \<le> of_nat p then kv_apply_eviction i c else Some c)"

lemma store_at_end:
  assumes ne: "never_evicts cfg p" and c: "cache_over cfg c" "i < unat (n_layers cfg)"
    and p: "unat (seq_len (layers c ! i)) = p" "p < 2 ^ 32 - 1"
  obtains c1 where "room_made i p c = Some c1" "cache_over cfg c1" "seq_len (layers c1 ! i) = of_nat p"
    "key_cache (layers c1 ! i) = key_cache (layers c ! i)" "value_cache (layers c1 ! i) = value_cache (layers c ! i)"
    "kv_cache_store_f32 i (of_nat p) (Some k) (Some v) c = do {
       c2 \<leftarrow> put_vectors i (p * unat (n_kv_heads cfg * head_dim cfg)) (unat (n_kv_heads cfg * head_dim cfg)) k v c1;
       Some (0, track_seq_len i (count_stores i 1 (upd_layer i (\<lambda>l. l\<lparr>seq_len := of_nat p + 1\<rparr>) c2))) }"
proof -
  have cfg: "config c = cfg" "kv_initialized c" "kv_enabled c" "i < length (layers c)" "eviction cfg \<noteq> KV_EVICT_NONE"
    using c ne by (auto simp: cache_over_def never_evicts_def)
  have sl: "seq_len (layers c ! i) = of_nat p" using p(1) by auto
  obtain c1 where c1: "room_made i p c = Some c1" "cache_over cfg c1" "seq_len (layers c1 ! i) = of_nat p"
    "key_cache (layers c1 ! i) = key_cache (layers c ! i)" "value_cache (layers c1 ! i) = value_cache (layers c ! i)"
  proof (cases "max_seq_len cfg \<le> of_nat p")
    case True
    obtain c1 where "kv_apply_eviction i c = Some c1" "config c1 = config c" "seq_len (layers c1 ! i) = seq_len (layers c ! i)"
      "length (layers c1) = length (layers c)" "key_cache (layers c1 ! i) = key_cache (layers c ! i)"
      "value_cache (layers c1 ! i) = value_cache (layers c ! i)" "kv_initialized c1 = kv_initialized c" "kv_enabled c1 = kv_enabled c"
      by (rule evict_nothing [of c i]) (use ne cfg p(1) in simp_all)
    with True c(1) sl cfg(1) show thesis by (intro that [of c1]) (simp_all add: room_made_def cache_over_def)
  next
    case False
    then show thesis using c(1) sl cfg(1) by (intro that [of c]) (simp_all add: room_made_def)
  qed
  have pos: "(if max_seq_len cfg \<le> of_nat p then seq_len (layers c1 ! i) else of_nat p) = of_nat p" using c1(3) by simp
  have up: "unat (of_nat p :: u32) = p" using p(2) by (simp add: unat_of_nat)
  have keep: "seq_len (layers c2 ! i) = of_nat p" if "put_vectors i a b k v c1 = Some c2" for a b c2
    using that c1(2,3) c(2) by (auto simp: put_vectors_def upd_layer_def cache_over_def split: bind_splits)
  have "store_token i (of_nat p) k v c = do {
      c2 \<leftarrow> put_vectors i (p * unat (n_kv_heads cfg * head_dim cfg)) (unat (n_kv_heads cfg * head_dim cfg)) k v c1;
      Some (0, count_stores i 1 (upd_layer i (\<lambda>l. l\<lparr>seq_len := of_nat p + 1\<rparr>) c2)) }"
    using c1(1) cfg(5) pos up unfolding store_token_def room_made_def cfg(1) Let_def
    by (auto dest: keep split: bind_splits)
  then have "kv_cache_store_f32 i (of_nat p) (Some k) (Some v) c = do {
       c2 \<leftarrow> put_vectors i (p * unat (n_kv_heads cfg * head_dim cfg)) (unat (n_kv_heads cfg * head_dim cfg)) k v c1;
       Some (0, track_seq_len i (count_stores i 1 (upd_layer i (\<lambda>l. l\<lparr>seq_len := of_nat p + 1\<rparr>) c2))) }"
    using cfg c(2) by (auto simp: kv_cache_store_f32_def split: bind_splits)
  with c1 that show thesis by blast
qed

lemma copy_in_fits:
  "length x = n \<Longrightarrow> off + n \<le> length buf \<Longrightarrow> \<exists>buf'. copy_in off x n buf = Some buf' \<and> length buf' = length buf"
  by (simp add: copy_in_def)

lemma elem_bytes:
  assumes "config_valid cfg"
  shows "unat (n_kv_heads cfg * head_dim cfg) * ELEM = vbytes cfg" "p * unat (n_kv_heads cfg * head_dim cfg) * ELEM = p * vbytes cfg"
  using config_bounds(4) [OF assms] by (simp_all add: vbytes_def)

text \<open>A store that fits succeeds and leaves one vector more in buffers of the same sizes.\<close>

lemma store_fits:
  assumes ne: "never_evicts cfg p" "config_valid cfg" and c: "cache_over cfg c" "i < unat (n_layers cfg)"
    and p: "unat (seq_len (layers c ! i)) = p" "p < 2 ^ 32 - 1"
    and kv: "length k = vbytes cfg" "length v = vbytes cfg"
    and fit: "p * vbytes cfg + vbytes cfg \<le> length (key_cache (layers c ! i))"
      "p * vbytes cfg + vbytes cfg \<le> length (value_cache (layers c ! i))"
  obtains c' where "kv_cache_store_f32 i (of_nat p) (Some k) (Some v) c = Some (0, c')" "cache_over cfg c'"
    "unat (seq_len (layers c' ! i)) = p + 1" "length (key_cache (layers c' ! i)) = length (key_cache (layers c ! i))"
    "length (value_cache (layers c' ! i)) = length (value_cache (layers c ! i))"
proof -
  let ?vec = "unat (n_kv_heads cfg * head_dim cfg)"
  obtain c1 where c1: "cache_over cfg c1"
    "key_cache (layers c1 ! i) = key_cache (layers c ! i)" "value_cache (layers c1 ! i) = value_cache (layers c ! i)"
    "kv_cache_store_f32 i (of_nat p) (Some k) (Some v) c = do {
       c2 \<leftarrow> put_vectors i (p * ?vec) ?vec k v c1;
       Some (0, track_seq_len i (count_stores i 1 (upd_layer i (\<lambda>l. l\<lparr>seq_len := of_nat p + 1\<rparr>) c2))) }"
    by (rule store_at_end [OF ne(1) c p, of k v]) blast
  obtain ks vs where b: "copy_in (p * vbytes cfg) k (vbytes cfg) (key_cache (layers c1 ! i)) = Some ks"
    "length ks = length (key_cache (layers c ! i))"
    "copy_in (p * vbytes cfg) v (vbytes cfg) (value_cache (layers c1 ! i)) = Some vs"
    "length vs = length (value_cache (layers c ! i))"
    using copy_in_fits [OF kv(1) fit(1)] copy_in_fits [OF kv(2) fit(2)] c1(2,3) by auto
  let ?c2 = "upd_layer i (\<lambda>l. l\<lparr>key_cache := ks, value_cache := vs\<rparr>) c1"
  have "put_vectors i (p * ?vec) ?vec k v c1 = Some ?c2"
    unfolding put_vectors_def elem_bytes [OF ne(2)] using b by simp
  then have st: "kv_cache_store_f32 i (of_nat p) (Some k) (Some v) c =
      Some (0, track_seq_len i (count_stores i 1 (upd_layer i (\<lambda>l. l\<lparr>seq_len := of_nat p + 1\<rparr>) ?c2)))"
    using c1(4) by simp
  have "unat (of_nat p + 1 :: u32) = p + 1" using p(2) by (simp add: unat_of_nat unat_word_ariths)
  then show thesis
    using c1(1) c(2) b(2,4)
    by (intro that [OF st]) (simp_all add: cache_over_def track_seq_len_def count_stores_def upd_layer_def Let_def)
qed

text \<open>All vectors that fit are stored.\<close>

lemma store_run_fits:
  assumes "never_evicts cfg (p + length kvs)" "config_valid cfg" "cache_over cfg c" "i < unat (n_layers cfg)"
    "unat (seq_len (layers c ! i)) = p" "p + length kvs < 2 ^ 32" "\<forall>(k, v) \<in> set kvs. length k = vbytes cfg \<and> length v = vbytes cfg"
    "(p + length kvs) * vbytes cfg \<le> length (key_cache (layers c ! i))"
    "(p + length kvs) * vbytes cfg \<le> length (value_cache (layers c ! i))"
  shows "\<exists>c'. store_run i p kvs c = Some (0, c') \<and> cache_over cfg c' \<and> unat (seq_len (layers c' ! i)) = p + length kvs \<and>
    length (key_cache (layers c' ! i)) = length (key_cache (layers c ! i)) \<and>
    length (value_cache (layers c' ! i)) = length (value_cache (layers c ! i))"
  using assms(1,3,5-9)
proof (induction kvs arbitrary: p c)
  case (Cons q kvs)
  obtain k v where q: "q = (k, v)" by (cases q)
  have ne: "never_evicts cfg p" "never_evicts cfg (p + 1 + length kvs)"
    using Cons.prems(1) never_evicts_fewer [OF Cons.prems(1), of p] by simp_all
  have kv: "length k = vbytes cfg" "length v = vbytes cfg" using Cons.prems(5) q by simp_all
  have p: "p < 2 ^ 32 - 1" using Cons.prems(4) by simp
  have le: "p * vbytes cfg + vbytes cfg \<le> (p + length (q # kvs)) * vbytes cfg" by (simp add: add_mult_distrib)
  obtain c1 where c1: "kv_cache_store_f32 i (of_nat p) (Some k) (Some v) c = Some (0, c1)" "cache_over cfg c1"
    "unat (seq_len (layers c1 ! i)) = p + 1" "length (key_cache (layers c1 ! i)) = length (key_cache (layers c ! i))"
    "length (value_cache (layers c1 ! i)) = length (value_cache (layers c ! i))"
    by (rule store_fits [OF ne(1) assms(2) Cons.prems(2) assms(4) Cons.prems(3) p kv
          order_trans [OF le Cons.prems(6)] order_trans [OF le Cons.prems(7)]])
  have "p + 1 + length kvs < 2 ^ 32" "(p + 1 + length kvs) * vbytes cfg = (p + length (q # kvs)) * vbytes cfg"
    using Cons.prems(4) by simp_all
  from Cons.IH [OF ne(2) c1(2,3) this(1)] this(2) Cons.prems(5-7) c1(1,4,5) q show ?case by simp
qed simp

section \<open>Properties\<close>

text \<open>
  C14. With the sliding-window policy, a window of at least one vector that is smaller than
  \<open>max_seq_len\<close> and elements of 32 bits (not \<open>KV_TYPE_FLOAT16\<close>), any number of vectors below
  \<open>2 ^ 32\<close> can be stored at their positions in a layer of a new cache. All vectors are kept until the buffer is full; then the layer
  holds the last \<open>window_size + 1\<close>, in order. Every range of what is kept is read back exactly.
\<close>

theorem kv_sliding_window_keeps_latest:
  assumes "kv_cache_create raw (Some cfg) h = Some (Some c, h')" "\<And>p n. length (raw p n) = n"
    and "sliding cfg" "i < unat (n_layers cfg)" "length kvs < 2 ^ 32"
    and "\<forall>(k, v) \<in> set kvs. length k = vbytes cfg \<and> length v = vbytes cfg"
  shows "\<exists>c'. store_run i 0 kvs c = Some (0, c') \<and> (\<forall>s n. 0 < n \<and> s + n \<le> kept cfg (length kvs) \<longrightarrow>
    (let W = drop (length kvs - kept cfg (length kvs)) kvs in
      (\<exists>c''. kv_cache_get_keys_f32 i (of_nat s) (of_nat n) True c' = Some (0, concat (map fst (take n (drop s W))), c''))
      \<and> kv_cache_get_values_f32 i (of_nat s) (of_nat n) True c' = Some (0, concat (map snd (take n (drop s W))))))"
proof -
  have cfg: "config_valid cfg" "data_type cfg \<noteq> KV_TYPE_FLOAT16" using assms(3) by (auto simp: sliding_def)
  have f: "cache_over cfg c" "seq_len (layers c ! i) = 0" "start_pos (layers c ! i) = 0"
    "length (key_cache (layers c ! i)) = kv_layer_cache_size cfg" "length (value_cache (layers c ! i)) = kv_layer_cache_size cfg"
    using create_fresh [OF assms(1,2)] assms(4) by auto
  then have "layer_holds cfg (layers c ! i) (kept cfg (length [])) []"
    using layer_size_enough(1) [OF cfg] by (simp add: layer_holds_def kept_def front_def)
  from store_run_window [OF assms(3) f(1) assms(4) this, of kvs] assms(5,6) obtain c' where
    c': "store_run i 0 kvs c = Some (0, c')" "cache_over cfg c'" "layer_holds cfg (layers c' ! i) (kept cfg (length kvs)) kvs"
    by auto
  have "kept cfg (length kvs) < 2 ^ 32"
    using assms(5) unsigned_less_nat [of "window_size cfg"] assms(3) config_bounds(3) [OF cfg(1)]
    by (auto simp: kept_def sliding_def word_less_nat_alt)
  with get_held [OF c'(2) cfg(1) assms(4) c'(3)] c'(1) show ?thesis by (simp add: Let_def)
qed

text \<open>
  C35. With the ring or attention policy, a sliding window of size 0, or a window that holds at least
  as many vectors as the buffers, nothing makes room. A layer
  of a new cache takes as many vectors as fit in its buffers, each store returning 0. The next store
  is not refused: its range of the key and of the value buffer starts at or reaches behind the end
  of the buffer, after what eviction there is, and the copy faults.
\<close>

theorem kv_full_buffer_overflows:
  assumes "kv_cache_create raw (Some cfg) h = Some (Some c, h')" "\<And>p n. length (raw p n) = n"
    and "never_evicts cfg (length kvs)" "i < unat (n_layers cfg)" "length kvs + 1 < 2 ^ 32"
    and "\<forall>(k, v) \<in> set kvs. length k = vbytes cfg \<and> length v = vbytes cfg"
    and "length kvs = kv_layer_cache_size cfg div vbytes cfg" "length k = vbytes cfg" "length v = vbytes cfg"
  shows "\<exists>c1 c2. store_run i 0 kvs c = Some (0, c1)
    \<and> room_made i (length kvs) c1 = Some c2 \<and> seq_len (layers c2 ! i) = of_nat (length kvs)
    \<and> length (key_cache (layers c2 ! i)) < length kvs * vbytes cfg + length k
    \<and> length (value_cache (layers c2 ! i)) < length kvs * vbytes cfg + length v
    \<and> copy_in (length kvs * vbytes cfg) k (vbytes cfg) (key_cache (layers c2 ! i)) = None
    \<and> kv_cache_store_f32 i (of_nat (length kvs)) (Some k) (Some v) c1 = None
    \<and> store_run i 0 (kvs @ [(k, v)]) c = None"
proof -
  let ?n = "length kvs" and ?b = "vbytes cfg" and ?vec = "unat (n_kv_heads cfg * head_dim cfg)"
  have f: "config_valid cfg" "cache_over cfg c" "unat (seq_len (layers c ! i)) = 0"
    "length (key_cache (layers c ! i)) = kv_layer_cache_size cfg" "length (value_cache (layers c ! i)) = kv_layer_cache_size cfg"
    using create_fresh [OF assms(1,2)] assms(4) by auto
  have fits: "(0 + ?n) * ?b \<le> kv_layer_cache_size cfg" unfolding assms(7) by simp
  have full: "kv_layer_cache_size cfg < ?n * ?b + ?b"
    unfolding assms(7) using dividend_less_div_times [OF config_bounds(5) [OF f(1)]] by (simp add: add.commute)
  have n: "0 + ?n < 2 ^ 32" "?n < 2 ^ 32 - 1" using assms(5) by simp_all
  obtain c1 where c1: "store_run i 0 kvs c = Some (0, c1)" "cache_over cfg c1" "unat (seq_len (layers c1 ! i)) = ?n"
    "length (key_cache (layers c1 ! i)) = kv_layer_cache_size cfg" "length (value_cache (layers c1 ! i)) = kv_layer_cache_size cfg"
    using store_run_fits [OF _ f(1,2) assms(4) f(3) n(1) assms(6)] assms(3) fits f(4,5) by auto
  obtain c2 where c2: "room_made i ?n c1 = Some c2" "seq_len (layers c2 ! i) = of_nat ?n"
    "key_cache (layers c2 ! i) = key_cache (layers c1 ! i)" "value_cache (layers c2 ! i) = value_cache (layers c1 ! i)"
    "kv_cache_store_f32 i (of_nat ?n) (Some k) (Some v) c1 = do {
       c3 \<leftarrow> put_vectors i (?n * ?vec) ?vec k v c2;
       Some (0, track_seq_len i (count_stores i 1 (upd_layer i (\<lambda>l. l\<lparr>seq_len := of_nat ?n + 1\<rparr>) c3))) }"
    by (rule store_at_end [OF assms(3) c1(2) assms(4) c1(3) n(2), of k v]) blast
  have cp: "copy_in (?n * ?b) k ?b (key_cache (layers c2 ! i)) = None"
    using full c1(4) c2(3) by (simp add: copy_in_def)
  then have st: "kv_cache_store_f32 i (of_nat ?n) (Some k) (Some v) c1 = None"
    unfolding c2(5) put_vectors_def elem_bytes [OF f(1)] by simp
  then have "store_run i 0 (kvs @ [(k, v)]) c = None"
    unfolding store_run_append [OF c1(1)] by simp
  with c1(1,4,5) c2(1-4) cp st full assms(8,9) show ?thesis by auto
qed

section \<open>A small cache\<close>

lemma heap_ok_stored [simp]: "heap_ok (h\<lparr>stored := f\<rparr>) L = heap_ok h L"
  by (simp add: heap_ok_def)

lemma heap_alloc_aligned_tail:
  assumes h: "heap_ok h (M @ [(m, False)])" "\<forall>x \<in> set M. snd x"
    and n: "0 < n" "a AND (a - 1) = 0" "0 < a" "n + a + 136 \<le> m" "n + a + 32 < SIZE_MOD"
  shows "\<exists>p h' M' m'. heap_alloc_aligned n a h = Some (Some p, h') \<and> heap_ok h' (M' @ [(m', False)])
    \<and> (\<forall>x \<in> set M'. snd x) \<and> m \<le> m' + n + a + 56"
proof -
  have r: "heap_ready h = h" using h(1) by (simp add: heap_ready_def heap_ok_def)
  have s: "add64 (add64 n a) POINTER = n + a + 8" "\<not> sub64 (sub64 (SIZE_MOD - 1) a) POINTER < n"
    using n by (simp_all add: add64_def sub64_def) arith
  obtain p h' M' m' where a: "heap_alloc (n + a + 8) h = Some (Some p, h')" "heap_ok h' (M' @ [(m', False)])"
    "\<forall>x \<in> set M'. snd x" "m \<le> m' + (n + a + 8) + 48"
    using heap_alloc_tail [OF h, of "n + a + 8"] n by auto
  with r s n show ?thesis
    by (auto simp: heap_alloc_aligned_def Let_def intro!: exI [of _ M'] exI [of _ m'])
qed

definition demo_kv :: kv_config where
  "demo_kv = \<lparr>n_layers = 1, n_kv_heads = 1, head_dim = 1, max_seq_len = 4, window_size = 2,
     data_type = KV_TYPE_FLOAT32, eviction = KV_EVICT_SLIDING\<rparr>"

definition blank :: "nat \<Rightarrow> nat \<Rightarrow> u8 list" where
  "blank p n = replicate n 0"

lemma demo_create:
  assumes "config_valid c" "n_layers c = 1" "kv_layer_cache_size c = 4096"
  shows "\<exists>h kv h'. kv_cache_create blank (Some c) h = Some (Some kv, h')"
proof -
  obtain h m where h: "heap_ok h ([] @ [(m, False)])" "67108832 \<le> m" using demo_fresh_heap by auto
  obtain p1 h1 M1 m1 where 1: "heap_alloc_aligned 192 4096 h = Some (Some p1, h1)" "heap_ok h1 (M1 @ [(m1, False)])"
    "\<forall>x \<in> set M1. snd x" "m \<le> m1 + 192 + 4096 + 56"
    using heap_alloc_aligned_tail [OF h(1), of 192 4096] h(2) by auto
  obtain p2 h2 M2 m2 where 2: "heap_alloc_aligned 64 64 h1 = Some (Some p2, h2)" "heap_ok h2 (M2 @ [(m2, False)])"
    "\<forall>x \<in> set M2. snd x" "m1 \<le> m2 + 64 + 64 + 56"
    using heap_alloc_aligned_tail [OF 1(2,3), of 64 64] 1(4) h(2) by auto
  obtain p3 h3 M3 m3 where 3: "heap_alloc_aligned 4096 4096 h2 = Some (Some p3, h3)" "heap_ok h3 (M3 @ [(m3, False)])"
    "\<forall>x \<in> set M3. snd x" "m2 \<le> m3 + 4096 + 4096 + 56"
    using heap_alloc_aligned_tail [OF 2(2,3), of 4096 4096] 1(4) 2(4) h(2) by auto
  obtain p4 h4 where 4: "heap_alloc_aligned 4096 4096 h3 = Some (Some p4, h4)"
    using heap_alloc_aligned_tail [OF 3(2,3), of 4096 4096] 1(4) 2(4) 3(4) h(2) by auto
  have "kv_align_up 136 64 = 192" "kv_align_up 56 64 = 64"
    by (simp_all add: kv_align_up_def add64_def sub64_def)
  then show ?thesis
    using assms 1(1) 2(1) 3(1) 4 by (intro exI [of _ h]) (simp add: kv_cache_create_def Let_def)
qed

lemma demo_kv_facts: "sliding demo_kv" "config_valid demo_kv" "kv_layer_cache_size demo_kv = 4096"
  by (simp_all add: demo_kv_def sliding_def config_valid_def kv_layer_cache_size_def kv_align_up_def
      kv_type_size_def add64_def sub64_def)

theorem kv_sliding_window_keeps_latest_witness:
  "\<exists>h c h' c' c''. kv_cache_create blank (Some demo_kv) h = Some (Some c, h')
    \<and> store_run 0 0 (map (\<lambda>i. ([i, 0, 0, 0], [i, 1, 1, 1])) [1, 2, 3, 4, 5, 6]) c = Some (0, c')
    \<and> kv_cache_get_keys_f32 0 0 3 True c' = Some (0, [4, 0, 0, 0, 5, 0, 0, 0, 6, 0, 0, 0], c'')"
proof -
  let ?kvs = "map (\<lambda>i. ([i, 0, 0, 0] :: u8 list, [i, 1, 1, 1] :: u8 list)) [1, 2, 3, 4, 5, 6]"
  obtain h c h' where c: "kv_cache_create blank (Some demo_kv) h = Some (Some c, h')"
    using demo_create [OF demo_kv_facts(2) _ demo_kv_facts(3)] by (auto simp: demo_kv_def)
  have b: "length (blank p n) = n" for p n by (simp add: blank_def)
  have k: "kept demo_kv (length ?kvs) = 3" by (simp add: kept_def demo_kv_def)
  obtain c' where c': "store_run 0 0 ?kvs c = Some (0, c')" "\<forall>s n. 0 < n \<and> s + n \<le> kept demo_kv (length ?kvs) \<longrightarrow>
    (let W = drop (length ?kvs - kept demo_kv (length ?kvs)) ?kvs in
      (\<exists>c''. kv_cache_get_keys_f32 0 (of_nat s) (of_nat n) True c' = Some (0, concat (map fst (take n (drop s W))), c''))
      \<and> kv_cache_get_values_f32 0 (of_nat s) (of_nat n) True c' = Some (0, concat (map snd (take n (drop s W)))))"
    using kv_sliding_window_keeps_latest [OF c b demo_kv_facts(1), of 0 ?kvs]
    by (auto simp: demo_kv_def vbytes_def)
  from spec [OF spec [OF c'(2) [unfolded k], of 0], of 3] have
    "\<exists>c''. kv_cache_get_keys_f32 0 0 3 True c' = Some (0, [4, 0, 0, 0, 5, 0, 0, 0, 6, 0, 0, 0], c'')"
    by (simp add: Let_def numeral_3_eq_3)
  with c c'(1) show ?thesis by blast
qed

definition ring_kv :: kv_config where
  "ring_kv = \<lparr>n_layers = 1, n_kv_heads = 2, head_dim = 512, max_seq_len = 1, window_size = 1,
     data_type = KV_TYPE_FIXED32, eviction = KV_EVICT_RING\<rparr>"

definition page_vector :: "u8 list" where
  "page_vector = replicate 4096 7"

theorem kv_full_buffer_overflows_witness:
  "\<exists>h c h' c1. kv_cache_create blank (Some ring_kv) h = Some (Some c, h')
    \<and> kv_cache_store_f32 0 0 (Some page_vector) (Some page_vector) c = Some (0, c1)
    \<and> kv_cache_store_f32 0 1 (Some page_vector) (Some page_vector) c1 = None"
proof -
  have v: "config_valid ring_kv" "kv_layer_cache_size ring_kv = 4096" "never_evicts ring_kv 1" "n_layers ring_kv = 1"
      "vbytes ring_kv = 4096"
    by (simp_all add: ring_kv_def never_evicts_def config_valid_def kv_layer_cache_size_def kv_align_up_def
        kv_type_size_def add64_def sub64_def vbytes_def)
  obtain h c h' where c: "kv_cache_create blank (Some ring_kv) h = Some (Some c, h')"
    using demo_create [OF v(1,4,2)] by blast
  have b: "length (blank p n) = n" for p n by (simp add: blank_def)
  have "length page_vector = 4096" by (simp add: page_vector_def)
  with kv_full_buffer_overflows [OF c b, of "[(page_vector, page_vector)]" 0 page_vector page_vector] v
  obtain c1 where "store_run 0 0 [(page_vector, page_vector)] c = Some (0, c1)"
    "kv_cache_store_f32 0 1 (Some page_vector) (Some page_vector) c1 = None"
    by auto
  moreover from this(1) have "kv_cache_store_f32 0 0 (Some page_vector) (Some page_vector) c = Some (0, c1)"
    by (auto split: bind_splits if_splits)
  ultimately show ?thesis using c by blast
qed

end
