(* ===== verification/Locks.thy ===== *)
theory Locks
  imports Interfaces
begin

text \<open>
  The locks of \<^verbatim>\<open>src/kernel/include/embodios/spinlock.h\<close> and \<^verbatim>\<open>mutex.h\<close>: ticket spinlock,
  reader/writer lock, mutex, semaphore and completion. Threads run concurrently: each has a
  program counter, and a step of a thread is one access to an atomic variable, so that every
  interleaving of the accesses of the code is a run of the model. The accesses are sequentially
  consistent. A thread that has spun too often panics and makes no further step.
\<close>

section \<open>Atomic variables\<close>

text \<open>The operations of \<^verbatim>\<open>atomic.h\<close>: the value returned and the new value of the variable.\<close>

definition atomic_add_return :: "u32 \<Rightarrow> u32 \<Rightarrow> u32 \<times> u32" where
  "atomic_add_return i v = (v + i, v + i)"

definition atomic_inc :: "u32 \<Rightarrow> u32" where
  "atomic_inc v = v + 1"

definition atomic_dec :: "u32 \<Rightarrow> u32" where
  "atomic_dec v = v - 1"

definition atomic_cmpxchg :: "u32 \<Rightarrow> u32 \<Rightarrow> u32 \<Rightarrow> u32 \<times> u32" where
  "atomic_cmpxchg old new v = (v, if v = old then new else v)"

section \<open>Threads\<close>

record ('l, 'p) threads =
  shared :: 'l
  pcs :: "nat \<Rightarrow> 'p"

text \<open>
  A thread below \<open>N\<close> either goes on in the function it is in (\<open>exec\<close>) or, between two calls,
  makes the next one (\<open>calls\<close>).
\<close>

inductive thread_step ::
    "nat \<Rightarrow> ('p \<Rightarrow> 'p \<Rightarrow> bool) \<Rightarrow> ('p \<Rightarrow> 'l \<Rightarrow> 'p \<times> 'l) \<Rightarrow> nat \<Rightarrow> ('l, 'p) threads \<Rightarrow> ('l, 'p) threads \<Rightarrow> bool"
  for N calls exec where
  call: "t < N \<Longrightarrow> calls (pcs s t) p \<Longrightarrow> thread_step N calls exec t s (s\<lparr>pcs := (pcs s)(t := p)\<rparr>)"
| exec: "t < N \<Longrightarrow> exec (pcs s t) (shared s) = (p, l) \<Longrightarrow>
    thread_step N calls exec t s (s\<lparr>shared := l, pcs := (pcs s)(t := p)\<rparr>)"

lemma thread_step_frame:
  assumes "thread_step N calls exec t s s'"
  shows "t < N" "u \<noteq> t \<Longrightarrow> pcs s' u = pcs s u"
  using assms by (auto elim: thread_step.cases)

section \<open>The ticket spinlock\<close>

abbreviation (input) SPINLOCK_MAX_SPINS :: nat where "SPINLOCK_MAX_SPINS \<equiv> 10000000"

record raw_spinlock =
  rs_next :: u32
  rs_owner :: u32

text \<open>
  Where a thread is: before taking its ticket, spinning with a ticket, inside the critical
  section, before the increment of the owner; before the three accesses of the trylock.
\<close>

datatype spin_pc =
    SpinIdle
  | SpinTake
  | SpinWait u32 nat
  | SpinHeld
  | SpinRelease
  | TryNext
  | TryOwner u32
  | TryCas u32
  | SpinPanic u32

definition spin_lock_init :: raw_spinlock where
  "spin_lock_init = \<lparr>rs_next = 0, rs_owner = 0\<rparr>"

text \<open>\<open>__raw_spin_lock\<close>: drawing the ticket, and one turn of the waiting loop.\<close>

definition spin_take :: "'a raw_spinlock_scheme \<Rightarrow> spin_pc \<times> 'a raw_spinlock_scheme" where
  "spin_take l = (let (r, v) = atomic_add_return 1 (rs_next l) in (SpinWait (r - 1) 0, l\<lparr>rs_next := v\<rparr>))"

definition spin_wait :: "u32 \<Rightarrow> nat \<Rightarrow> 'a raw_spinlock_scheme \<Rightarrow> spin_pc \<times> 'a raw_spinlock_scheme" where
  "spin_wait ticket spins l =
     (if rs_owner l \<noteq> ticket
      then if SPINLOCK_MAX_SPINS < spins + 1 then (SpinPanic ticket, l) else (SpinWait ticket (spins + 1), l)
      else (SpinHeld, l))"

definition raw_spin_unlock :: "'a raw_spinlock_scheme \<Rightarrow> spin_pc \<times> 'a raw_spinlock_scheme" where
  "raw_spin_unlock l = (SpinIdle, l\<lparr>rs_owner := atomic_inc (rs_owner l)\<rparr>)"

text \<open>\<open>__raw_spin_trylock\<close>: two reads, then the exchange.\<close>

definition trylock_owner :: "u32 \<Rightarrow> 'a raw_spinlock_scheme \<Rightarrow> spin_pc \<times> 'a raw_spinlock_scheme" where
  "trylock_owner nxt l = (if nxt \<noteq> rs_owner l then SpinIdle else TryCas nxt, l)"

definition trylock_cas :: "u32 \<Rightarrow> 'a raw_spinlock_scheme \<Rightarrow> spin_pc \<times> 'a raw_spinlock_scheme" where
  "trylock_cas nxt l =
     (let (r, v) = atomic_cmpxchg nxt (nxt + 1) (rs_next l)
      in (if r = nxt then SpinHeld else SpinIdle, l\<lparr>rs_next := v\<rparr>))"

fun spin_exec :: "spin_pc \<Rightarrow> 'a raw_spinlock_scheme \<Rightarrow> spin_pc \<times> 'a raw_spinlock_scheme" where
  "spin_exec SpinTake l = spin_take l"
| "spin_exec (SpinWait k n) l = spin_wait k n l"
| "spin_exec SpinRelease l = raw_spin_unlock l"
| "spin_exec TryNext l = (TryOwner (rs_next l), l)"
| "spin_exec (TryOwner n) l = trylock_owner n l"
| "spin_exec (TryCas n) l = trylock_cas n l"
| "spin_exec p l = (p, l)"

text \<open>The calls: lock or, where \<open>trying\<close> is set, trylock when idle; unlock when holding the lock.\<close>

fun spin_calls :: "bool \<Rightarrow> spin_pc \<Rightarrow> spin_pc \<Rightarrow> bool" where
  "spin_calls trying SpinIdle p \<longleftrightarrow> p = SpinTake \<or> trying \<and> p = TryNext"
| "spin_calls trying SpinHeld p \<longleftrightarrow> p = SpinRelease"
| "spin_calls trying _ p \<longleftrightarrow> False"

definition raw_spin_is_locked :: "'a raw_spinlock_scheme \<Rightarrow> bool" where
  "raw_spin_is_locked l \<longleftrightarrow> rs_next l \<noteq> rs_owner l"

text \<open>
  The number of tickets drawn so far, as an auxiliary variable: tickets are 32 bits wide, so the
  trylock is right only while they have not come round.
\<close>

record counted_lock = raw_spinlock +
  tickets :: nat

definition counted_exec :: "spin_pc \<Rightarrow> counted_lock \<Rightarrow> spin_pc \<times> counted_lock" where
  "counted_exec p l =
     (let (p', l') = spin_exec p l
      in (p', l'\<lparr>tickets := tickets l + (if rs_next l' = rs_next l then 0 else 1)\<rparr>))"

type_synonym spin_sys = "(counted_lock, spin_pc) threads"

definition spin_start :: "spin_sys \<Rightarrow> bool" where
  "spin_start s \<longleftrightarrow> shared s = raw_spinlock.extend spin_lock_init \<lparr>tickets = 0\<rparr> \<and> pcs s = (\<lambda>_. SpinIdle)"

definition spin_step :: "nat \<Rightarrow> bool \<Rightarrow> nat \<Rightarrow> spin_sys \<Rightarrow> spin_sys \<Rightarrow> bool" where
  "spin_step N trying t s s' \<longleftrightarrow> thread_step N (spin_calls trying) counted_exec t s s'"

definition spin_holds :: "spin_sys \<Rightarrow> nat \<Rightarrow> bool" where
  "spin_holds s t \<longleftrightarrow> pcs s t = SpinHeld \<or> pcs s t = SpinRelease"

text \<open>
  The queue behind the lock: \<open>q\<close> lists the threads with a ticket in the order of their tickets;
  only its head can be past the waiting loop.
\<close>

fun has_ticket :: "spin_pc \<Rightarrow> bool" where
  "has_ticket (SpinWait k n) \<longleftrightarrow> True"
| "has_ticket SpinHeld \<longleftrightarrow> True"
| "has_ticket SpinRelease \<longleftrightarrow> True"
| "has_ticket (SpinPanic k) \<longleftrightarrow> True"
| "has_ticket _ \<longleftrightarrow> False"

definition place_ok :: "u32 \<Rightarrow> nat \<Rightarrow> spin_pc \<Rightarrow> bool" where
  "place_ok w i p \<longleftrightarrow> (case p of SpinWait k n \<Rightarrow> k = w + of_nat i | SpinPanic k \<Rightarrow> k = w + of_nat i | _ \<Rightarrow> i = 0)"

definition ticket_queue :: "nat \<Rightarrow> u32 \<Rightarrow> u32 \<Rightarrow> (nat \<Rightarrow> spin_pc) \<Rightarrow> nat list \<Rightarrow> bool" where
  "ticket_queue N nxt w P q \<longleftrightarrow> N < 2 ^ 32 \<and> distinct q \<and> set q = {t. has_ticket (P t)} \<and> set q \<subseteq> {..<N}
     \<and> nxt = w + of_nat (length q) \<and> (\<forall>i < length q. place_ok w i (P (q ! i)))"

lemma ticket_queue_length: "ticket_queue N nxt w P q \<Longrightarrow> length q \<le> N \<and> N < 2 ^ 32"
  unfolding ticket_queue_def by (metis card_lessThan card_mono distinct_card finite_lessThan)

lemma ticket_queue_member:
  assumes "ticket_queue N nxt w P q" "has_ticket (P t)"
  obtains i where "i < length q" "q ! i = t" "place_ok w i (P t)"
  using assms unfolding ticket_queue_def by (metis in_set_conv_nth mem_Collect_eq)

lemma ticket_queue_head:
  assumes q: "ticket_queue N nxt w P q" and t: "has_ticket (P t)"
    and p: "P t = SpinWait w n \<or> P t = SpinHeld \<or> P t = SpinRelease"
  obtains q' where "q = t # q'"
proof -
  from q t obtain i where i: "i < length q" "q ! i = t" "place_ok w i (P t)" by (rule ticket_queue_member)
  have "i < 2 ^ 32" using i(1) ticket_queue_length [OF q] by linarith
  then have "w = w + word_of_nat i \<Longrightarrow> i = 0" by (auto simp: word_of_nat_eq_0_iff dest: nat_dvd_not_less)
  with i(3) p have "i = 0" by (auto simp: place_ok_def)
  with i(1,2) that show thesis by (cases q) auto
qed

text \<open>The changes of the queue: another program counter, a new ticket, the owner moved on.\<close>

lemma ticket_queue_move:
  assumes "ticket_queue N nxt w P q" "has_ticket p = has_ticket (P t)"
    "\<And>i. i < length q \<Longrightarrow> q ! i = t \<Longrightarrow> place_ok w i p"
  shows "ticket_queue N nxt w (P(t := p)) q"
  using assms unfolding ticket_queue_def by auto

lemma ticket_queue_take:
  assumes q: "ticket_queue N nxt w P q" and t: "t < N" "\<not> has_ticket (P t)"
    and p: "p = SpinWait nxt n \<or> p = SpinHeld \<and> q = []"
  shows "ticket_queue N (nxt + 1) w (P(t := p)) (q @ [t])"
proof -
  have "t \<notin> set q" using q t(2) by (auto simp: ticket_queue_def)
  moreover from this have "\<And>i. i < length q \<Longrightarrow> q ! i \<noteq> t" by auto
  ultimately show ?thesis
    using assms by (auto simp: ticket_queue_def nth_append less_Suc_eq place_ok_def)
qed

lemma ticket_queue_release:
  assumes q: "ticket_queue N nxt w P (t # q)" and p: "\<not> has_ticket p"
  shows "ticket_queue N nxt (w + 1) (P(t := p)) q"
proof -
  have other: "\<And>u. u \<in> set q \<Longrightarrow> u \<noteq> t" and set: "set q = {u. has_ticket ((P(t := p)) u)}"
    using assms by (auto simp: ticket_queue_def)
  moreover have "place_ok (w + 1) i ((P(t := p)) (q ! i))" if i: "i < length q" for i
  proof -
    have "place_ok w (Suc i) (P (q ! i))" using q i by (auto simp: ticket_queue_def)
    moreover have "has_ticket (P (q ! i))" using set other i by (metis fun_upd_other mem_Collect_eq nth_mem)
    ultimately show ?thesis using other [OF nth_mem [OF i]]
      by (cases "P (q ! i)") (auto simp: place_ok_def algebra_simps)
  qed
  ultimately show ?thesis using q by (auto simp: ticket_queue_def algebra_simps)
qed

text \<open>
  The trylock: what it has read is the number of a ticket, and once it has seen the lock free,
  the lock is still free as long as no further ticket has been drawn.
\<close>

fun try_pc :: "bool \<Rightarrow> nat \<Rightarrow> nat \<Rightarrow> spin_pc \<Rightarrow> bool" where
  "try_pc trying c d TryNext \<longleftrightarrow> trying"
| "try_pc trying c d (TryOwner n) \<longleftrightarrow> trying \<and> unat n \<le> c"
| "try_pc trying c d (TryCas n) \<longleftrightarrow> trying \<and> unat n + d \<le> c"
| "try_pc trying c d _ \<longleftrightarrow> True"

definition trying_ok :: "bool \<Rightarrow> spin_sys \<Rightarrow> nat list \<Rightarrow> bool" where
  "trying_ok trying s q \<longleftrightarrow> rs_next (shared s) = of_nat (tickets (shared s)) \<and> length q \<le> tickets (shared s)
     \<and> (\<forall>t. try_pc trying (tickets (shared s)) (length q) (pcs s t))"

definition spin_inv :: "nat \<Rightarrow> bool \<Rightarrow> spin_sys \<Rightarrow> nat list \<Rightarrow> bool" where
  "spin_inv N trying s q \<longleftrightarrow> (trying \<longrightarrow> tickets (shared s) < 2 ^ 32)
     \<and> ticket_queue N (rs_next (shared s)) (rs_owner (shared s)) (pcs s) q \<and> trying_ok trying s q"

text \<open>What a step of a thread may do to a queue.\<close>

definition queue_step :: "nat \<Rightarrow> nat list \<Rightarrow> nat list \<Rightarrow> bool" where
  "queue_step t q q' \<longleftrightarrow> q' = q \<or> t \<notin> set q \<and> q' = q @ [t] \<or> q = t # q'"

lemma try_pc_mono: "try_pc trying c d p \<Longrightarrow> c \<le> c' \<Longrightarrow> d' + c \<le> d + c' \<Longrightarrow> try_pc trying c' d' p"
  by (cases p) auto

lemma spin_inv_move:
  assumes inv: "spin_inv N trying s q" and l: "trying \<Longrightarrow> tickets l < 2 ^ 32" "rs_next l = of_nat (tickets l)"
      "tickets (shared s) \<le> tickets l"
    and q: "ticket_queue N (rs_next l) (rs_owner l) ((pcs s)(t := p)) q'"
      "length q' + tickets (shared s) \<le> length q + tickets l"
    and p: "try_pc trying (tickets l) (length q') p"
  shows "spin_inv N trying (s\<lparr>shared := l, pcs := (pcs s)(t := p)\<rparr>) q'"
proof -
  have "length q' \<le> tickets l" using inv q(2) by (auto simp: spin_inv_def trying_ok_def)
  moreover have "try_pc trying (tickets l) (length q') (pcs s u)" for u
    using inv l(3) q(2) by (auto simp: spin_inv_def trying_ok_def intro: try_pc_mono)
  ultimately show ?thesis using l(1,2) q(1) p by (auto simp: spin_inv_def trying_ok_def)
qed

lemma spin_inv_keep:
  assumes inv: "spin_inv N trying s q" and p: "has_ticket p = has_ticket (pcs s t)"
    "\<And>i. i < length q \<Longrightarrow> q ! i = t \<Longrightarrow> place_ok (rs_owner (shared s)) i p"
    "try_pc trying (tickets (shared s)) (length q) p"
  shows "spin_inv N trying (s\<lparr>pcs := (pcs s)(t := p)\<rparr>) q"
proof -
  have "spin_inv N trying (s\<lparr>shared := shared s, pcs := (pcs s)(t := p)\<rparr>) q"
    by (rule spin_inv_move [OF inv]) (use inv p in \<open>auto simp: spin_inv_def trying_ok_def intro!: ticket_queue_move\<close>)
  then show ?thesis by simp
qed

lemma spin_inv_facts:
  assumes "spin_inv N trying s q"
  shows "ticket_queue N (rs_next (shared s)) (rs_owner (shared s)) (pcs s) q" "length q \<le> tickets (shared s)"
    "rs_next (shared s) = of_nat (tickets (shared s))" "try_pc trying (tickets (shared s)) (length q) (pcs s t)"
    "trying \<Longrightarrow> tickets (shared s) < 2 ^ 32"
  using assms by (auto simp: spin_inv_def trying_ok_def)

lemma spin_inv_loose:
  assumes inv: "spin_inv N trying s q" and p: "\<not> has_ticket (pcs s t)" "\<not> has_ticket p"
    "try_pc trying (tickets (shared s)) (length q) p"
  shows "spin_inv N trying (s\<lparr>pcs := (pcs s)(t := p)\<rparr>) q"
proof (rule spin_inv_keep [OF inv _ _ p(3)])
  fix i assume "i < length q" "q ! i = t"
  then show "place_ok (rs_owner (shared s)) i p"
    using spin_inv_facts(1) [OF inv] p(1) nth_mem by (fastforce simp: ticket_queue_def)
qed (use p in simp)

text \<open>The steps that change the queue.\<close>

lemma spin_inv_take:
  assumes inv: "spin_inv N trying s q" and t: "t < N" "\<not> has_ticket (pcs s t)"
    and l: "rs_next l = rs_next (shared s) + 1" "rs_owner l = rs_owner (shared s)" "tickets l = tickets (shared s) + 1"
    and p: "p = SpinWait (rs_next (shared s)) n \<or> p = SpinHeld \<and> q = []" and lim: "trying \<Longrightarrow> tickets l < 2 ^ 32"
  shows "spin_inv N trying (s\<lparr>shared := l, pcs := (pcs s)(t := p)\<rparr>) (q @ [t])" "t \<notin> set q"
proof -
  note f = spin_inv_facts [OF inv]
  show "spin_inv N trying (s\<lparr>shared := l, pcs := (pcs s)(t := p)\<rparr>) (q @ [t])"
  proof (rule spin_inv_move [OF inv lim])
    show "ticket_queue N (rs_next l) (rs_owner l) ((pcs s)(t := p)) (q @ [t])"
      unfolding l(1,2) by (rule ticket_queue_take [OF f(1) t p])
    show "try_pc trying (tickets l) (length (q @ [t])) p" using p by auto
  qed (simp_all add: l f(3))
  show "t \<notin> set q" using f(1) t(2) by (auto simp: ticket_queue_def)
qed

lemma spin_inv_release:
  assumes inv: "spin_inv N trying s q" and t: "pcs s t = SpinRelease"
  shows "\<exists>q'. q = t # q' \<and> spin_inv N trying
    (s\<lparr>shared := (shared s)\<lparr>rs_owner := rs_owner (shared s) + 1\<rparr>, pcs := (pcs s)(t := SpinIdle)\<rparr>) q'"
proof -
  note f = spin_inv_facts [OF inv]
  obtain q' where q': "q = t # q'" by (rule ticket_queue_head [OF f(1), of t 0]) (use t in auto)
  with f(1,2,3,5) show ?thesis
    by (auto intro!: spin_inv_move [OF inv] ticket_queue_release)
qed

lemma counted_exec_simps:
  "counted_exec SpinTake l = (SpinWait (rs_next l) 0, l\<lparr>rs_next := rs_next l + 1, tickets := tickets l + 1\<rparr>)"
  "counted_exec (SpinWait k n) l = (fst (spin_wait k n l), l)"
  "counted_exec SpinRelease l = (SpinIdle, l\<lparr>rs_owner := rs_owner l + 1\<rparr>)"
  "counted_exec TryNext l = (TryOwner (rs_next l), l)"
  "counted_exec (TryOwner m) l = (if m \<noteq> rs_owner l then SpinIdle else TryCas m, l)"
  "counted_exec (TryCas m) l = (if rs_next l = m then (SpinHeld, l\<lparr>rs_next := m + 1, tickets := tickets l + 1\<rparr>)
     else (SpinIdle, l))"
  "p = SpinIdle \<or> p = SpinHeld \<or> p = SpinPanic k \<Longrightarrow> counted_exec p l = (p, l)"
  by (auto simp: counted_exec_def spin_take_def atomic_add_return_def spin_wait_def raw_spin_unlock_def
      trylock_owner_def trylock_cas_def atomic_cmpxchg_def atomic_inc_def)

lemma owner_count:
  assumes "ticket_queue N nxt w P q" "nxt = of_nat c" "length q \<le> c"
  shows "unat w \<le> c - length q"
proof -
  have "w = of_nat (c - length q)"
    using assms by (simp add: ticket_queue_def of_nat_diff eq_diff_eq)
  then show ?thesis by (simp add: unat_of_nat)
qed

lemma spin_exec_inv:
  assumes inv: "spin_inv N trying s q" and t: "t < N" and e: "counted_exec (pcs s t) (shared s) = (p, l)"
    and lim: "trying \<Longrightarrow> tickets l < 2 ^ 32"
  shows "\<exists>q'. spin_inv N trying (s\<lparr>shared := l, pcs := (pcs s)(t := p)\<rparr>) q' \<and> queue_step t q q'"
proof -
  note f = spin_inv_facts [OF inv]
  have same: ?thesis if "l = shared s" "spin_inv N trying (s\<lparr>pcs := (pcs s)(t := p)\<rparr>) q"
    using that by (auto simp: queue_step_def)
  have stay: ?thesis if "p = pcs s t" "l = shared s"
    using that inv by (auto simp: queue_step_def)
  have place: "i < length q \<Longrightarrow> q ! i = t \<Longrightarrow> place_ok (rs_owner (shared s)) i (pcs s t)" for i
    using f(1) by (auto simp: ticket_queue_def)
  have new: ?thesis if "\<not> has_ticket (pcs s t)" "l = (shared s)\<lparr>rs_next := rs_next (shared s) + 1, tickets := tickets (shared s) + 1\<rparr>"
    "p = SpinWait (rs_next (shared s)) 0 \<or> p = SpinHeld \<and> q = []"
    using spin_inv_take [OF inv t that(1) _ _ _ that(3) lim] that(2) by (auto simp: queue_step_def)
  show ?thesis
  proof (cases "pcs s t")
    case SpinTake
    with e new show ?thesis by (auto simp: counted_exec_simps)
  next
    case (SpinWait k n)
    with e have p: "l = shared s" "p = fst (spin_wait k n (shared s))" by (auto simp: counted_exec_simps)
    have "place_ok (rs_owner (shared s)) i p" if "i < length q" "q ! i = t" for i
    proof -
      have "k = rs_owner (shared s) + of_nat i" using place [OF that] SpinWait by (simp add: place_ok_def)
      moreover have "rs_owner (shared s) = k \<Longrightarrow> i = 0"
        using ticket_queue_head [OF f(1), of t n] SpinWait that f(1)
        by (metis has_ticket.simps(1) nth_Cons_0 nth_eq_iff_index_eq ticket_queue_def length_greater_0_conv list.discI)
      ultimately show ?thesis using p by (auto simp: spin_wait_def place_ok_def)
    qed
    then show ?thesis using p SpinWait by (intro same spin_inv_keep [OF inv]) (auto simp: spin_wait_def)
  next
    case SpinRelease
    with e spin_inv_release [OF inv] show ?thesis by (auto simp: counted_exec_simps queue_step_def)
  next
    case TryNext
    with e f(3) f(4) [of t] show ?thesis
      by (intro same spin_inv_loose [OF inv]) (auto simp: counted_exec_simps unat_of_nat)
  next
    case (TryOwner m)
    have "trying \<Longrightarrow> m = rs_owner (shared s) \<Longrightarrow> unat m + length q \<le> tickets (shared s)"
      using owner_count [OF f(1) f(3) f(2)] f(2) by (simp add: le_diff_conv2)
    with e f(4) [of t] TryOwner show ?thesis
      by (intro same spin_inv_loose [OF inv]) (auto simp: counted_exec_simps split: if_splits)
  next
    case (TryCas m)
    show ?thesis
    proof (cases "rs_next (shared s) = m")
      case True
      from f(4) [of t] TryCas have "trying" "unat m + length q \<le> tickets (shared s)" by auto
      with True f(3) f(5) have "q = []" by (auto simp: unat_of_nat)
      with e True TryCas show ?thesis by (intro new) (auto simp: counted_exec_simps)
    next
      case False
      with e TryCas show ?thesis by (intro same spin_inv_loose [OF inv]) (auto simp: counted_exec_simps)
    qed
  qed (rule stay; use e in \<open>auto simp: counted_exec_simps\<close>)+
qed

lemma spin_step_inv:
  assumes inv: "spin_inv N trying s q" and step: "spin_step N trying t s s'" and lim: "trying \<Longrightarrow> tickets (shared s') < 2 ^ 32"
  shows "\<exists>q'. spin_inv N trying s' q' \<and> queue_step t q q'"
  using step unfolding spin_step_def
proof cases
  case (call p)
  have "spin_inv N trying s' q"
  proof (cases "pcs s t = SpinHeld")
    case True
    then show ?thesis using call spin_inv_facts(1) [OF inv]
      by (auto intro!: spin_inv_keep [OF inv] simp: ticket_queue_def place_ok_def split: spin_pc.splits)
  next
    case False
    then show ?thesis using call by (cases "pcs s t") (auto intro!: spin_inv_loose [OF inv])
  qed
  then show ?thesis by (auto simp: queue_step_def)
next
  case (exec p l)
  with spin_exec_inv [OF inv exec(2,3)] lim show ?thesis by auto
qed

lemma spin_start_inv: "spin_start s \<Longrightarrow> N < 2 ^ 32 \<Longrightarrow> spin_inv N trying s []"
  by (auto simp: spin_start_def spin_inv_def ticket_queue_def trying_ok_def spin_lock_init_def raw_spinlock.defs)

lemma spin_step_tickets: "spin_step N trying t s s' \<Longrightarrow> tickets (shared s) \<le> tickets (shared s')"
  unfolding spin_step_def
  by (erule thread_step.cases) (auto simp: counted_exec_def split: prod.splits if_splits)

lemma spin_runs_inv:
  assumes "runs (spin_step N trying) s s'" "spin_start s" "N < 2 ^ 32" "trying \<Longrightarrow> tickets (shared s') < 2 ^ 32"
  shows "\<exists>q. spin_inv N trying s' q"
  using assms
proof induction
  case (runs_refl)
  then show ?case using spin_start_inv by blast
next
  case (runs_step s1 t s2)
  then show ?case using spin_step_inv spin_step_tickets by (meson le_less_trans)
qed

lemma spin_inv_holds:
  assumes "spin_inv N trying s q" "spin_holds s t"
  obtains q' where "q = t # q'"
proof (rule ticket_queue_head [OF spin_inv_facts(1) [OF assms(1)], of t 0])
qed (use assms(2) in \<open>auto simp: spin_holds_def\<close>)

text \<open>
  The lock as a protocol: steps in which the tickets have not come round while trylocks are used.
\<close>

definition spin_system :: "nat \<Rightarrow> bool \<Rightarrow> nat \<Rightarrow> spin_sys \<Rightarrow> spin_sys \<Rightarrow> bool" where
  "spin_system N trying t s s' \<longleftrightarrow> spin_step N trying t s s' \<and> N < 2 ^ 32 \<and> (trying \<longrightarrow> tickets (shared s') < 2 ^ 32)"

lemma spin_step_frame: "spin_step N trying t s s' \<Longrightarrow> u \<noteq> t \<Longrightarrow> spin_holds s' u = spin_holds s u"
  by (simp add: spin_step_def spin_holds_def thread_step_frame(2))

lemma spin_one_holder: "spin_inv N trying s q \<Longrightarrow> spin_holds s t \<Longrightarrow> spin_holds s u \<Longrightarrow> t = u"
  using spin_inv_holds [of N trying s q t] spin_inv_holds [of N trying s q u] by (metis list.inject)

lemma spin_system_inv: "spin_inv N trying s q \<Longrightarrow> spin_system N trying t s s' \<Longrightarrow> \<exists>q'. spin_inv N trying s' q'"
  unfolding spin_system_def using spin_step_inv by blast

interpretation spin: lock_protocol "\<lambda>s. spin_start s \<and> N < 2 ^ 32" "spin_system N trying" "\<lambda>s. \<exists>q. spin_inv N trying s q"
  spin_holds for N trying
proof unfold_locales
  show "spin_start s \<and> N < 2 ^ 32 \<Longrightarrow> \<exists>q. spin_inv N trying s q" for s
    using spin_start_inv by blast
  show "\<exists>q. spin_inv N trying s q \<Longrightarrow> spin_system N trying t s s' \<Longrightarrow> \<exists>q. spin_inv N trying s' q" for s t s'
    using spin_system_inv by blast
  show "\<exists>q. spin_inv N trying s q \<Longrightarrow> spin_holds s t \<Longrightarrow> spin_holds s u \<Longrightarrow> t = u" for s t u
    using spin_one_holder by blast
  show "spin_system N trying t s s' \<Longrightarrow> u \<noteq> t \<Longrightarrow> spin_holds s' u = spin_holds s u" for s s' t u
    unfolding spin_system_def using spin_step_frame by blast
qed

section \<open>The reader/writer lock\<close>

text \<open>\<open>rw\<close> is 0 when free, -1 for a writer, else the number of readers.\<close>

datatype rw_pc =
    RwIdle
  | ReadLoad nat
  | ReadCas u32 nat
  | Reading
  | ReadUnlock
  | WriteCas nat
  | Writing
  | WriteUnlock
  | RwPanic

text \<open>A failed turn of a waiting loop, which goes on at \<open>p\<close> or panics.\<close>

definition rw_again :: "nat \<Rightarrow> (nat \<Rightarrow> rw_pc) \<Rightarrow> rw_pc" where
  "rw_again spins p = (if SPINLOCK_MAX_SPINS < spins + 1 then RwPanic else p (spins + 1))"

definition read_lock_load :: "nat \<Rightarrow> u32 \<Rightarrow> rw_pc \<times> u32" where
  "read_lock_load spins v = (if 0 \<le> sint v then ReadCas v spins else rw_again spins ReadLoad, v)"

definition read_lock_cas :: "u32 \<Rightarrow> nat \<Rightarrow> u32 \<Rightarrow> rw_pc \<times> u32" where
  "read_lock_cas val spins v =
     (let (r, v') = atomic_cmpxchg val (val + 1) v
      in (if r = val then Reading else rw_again spins ReadLoad, v'))"

definition write_lock_cas :: "nat \<Rightarrow> u32 \<Rightarrow> rw_pc \<times> u32" where
  "write_lock_cas spins v =
     (let (r, v') = atomic_cmpxchg 0 (- 1) v
      in (if r \<noteq> 0 then rw_again spins WriteCas else Writing, v'))"

definition read_unlock :: "u32 \<Rightarrow> rw_pc \<times> u32" where
  "read_unlock v = (RwIdle, atomic_dec v)"

definition write_unlock :: "u32 \<Rightarrow> rw_pc \<times> u32" where
  "write_unlock v = (RwIdle, 0)"

fun rw_exec :: "rw_pc \<Rightarrow> u32 \<Rightarrow> rw_pc \<times> u32" where
  "rw_exec (ReadLoad n) v = read_lock_load n v"
| "rw_exec (ReadCas k n) v = read_lock_cas k n v"
| "rw_exec ReadUnlock v = read_unlock v"
| "rw_exec (WriteCas n) v = write_lock_cas n v"
| "rw_exec WriteUnlock v = write_unlock v"
| "rw_exec p v = (p, v)"

fun rw_calls :: "rw_pc \<Rightarrow> rw_pc \<Rightarrow> bool" where
  "rw_calls RwIdle p \<longleftrightarrow> p = ReadLoad 0 \<or> p = WriteCas 0"
| "rw_calls Reading p \<longleftrightarrow> p = ReadUnlock"
| "rw_calls Writing p \<longleftrightarrow> p = WriteUnlock"
| "rw_calls _ p \<longleftrightarrow> False"

type_synonym rw_sys = "(u32, rw_pc) threads"

definition rwlock_init :: u32 where
  "rwlock_init = 0"

definition rw_start :: "rw_sys \<Rightarrow> bool" where
  "rw_start s \<longleftrightarrow> shared s = rwlock_init \<and> pcs s = (\<lambda>_. RwIdle)"

definition rw_step :: "nat \<Rightarrow> nat \<Rightarrow> rw_sys \<Rightarrow> rw_sys \<Rightarrow> bool" where
  "rw_step N t s s' \<longleftrightarrow> thread_step N rw_calls rw_exec t s s'"

definition rw_writes :: "rw_sys \<Rightarrow> nat \<Rightarrow> bool" where
  "rw_writes s t \<longleftrightarrow> pcs s t = Writing \<or> pcs s t = WriteUnlock"

definition rw_reads :: "rw_sys \<Rightarrow> nat \<Rightarrow> bool" where
  "rw_reads s t \<longleftrightarrow> pcs s t = Reading \<or> pcs s t = ReadUnlock"

definition readers :: "rw_sys \<Rightarrow> nat set" where
  "readers s = {t. rw_reads s t}"

definition writers :: "rw_sys \<Rightarrow> nat set" where
  "writers s = {t. rw_writes s t}"

lemma mem_readers [simp]: "t \<in> readers s \<longleftrightarrow> rw_reads s t"
  by (simp add: readers_def)

lemma mem_writers [simp]: "t \<in> writers s \<longleftrightarrow> rw_writes s t"
  by (simp add: writers_def)

definition rw_inv :: "nat \<Rightarrow> rw_sys \<Rightarrow> bool" where
  "rw_inv N s \<longleftrightarrow> N < 2 ^ 31 \<and> (\<forall>t k n. pcs s t = ReadCas k n \<longrightarrow> 0 \<le> sint k) \<and> readers s \<union> writers s \<subseteq> {..<N}
     \<and> (if writers s = {} then shared s = of_nat (card (readers s))
        else shared s = - 1 \<and> readers s = {} \<and> (\<exists>w. writers s = {w}))"

lemma rw_sets:
  "readers (s\<lparr>shared := v, pcs := (pcs s)(t := p)\<rparr>) =
     (if p = Reading \<or> p = ReadUnlock then insert t (readers s) else readers s - {t})"
  "writers (s\<lparr>shared := v, pcs := (pcs s)(t := p)\<rparr>) =
     (if p = Writing \<or> p = WriteUnlock then insert t (writers s) else writers s - {t})"
  by (auto simp: readers_def writers_def rw_reads_def rw_writes_def split: if_splits)

lemma rw_inv_free:
  assumes "rw_inv N s" "shared s \<noteq> - 1 \<or> rw_reads s t"
  shows "writers s = {}" "shared s = of_nat (card (readers s))"
    "card (readers s) \<le> N" "finite (readers s)"
proof -
  show "writers s = {}" "shared s = of_nat (card (readers s))"
    using assms by (auto simp: rw_inv_def split: if_splits)
  have "readers s \<subseteq> {..<N}" using assms(1) by (auto simp: rw_inv_def)
  then show "card (readers s) \<le> N" "finite (readers s)"
    using card_mono [of "{..<N}"] by (auto intro: finite_subset)
qed

lemma rw_again_cases: "rw_again n f = RwPanic \<or> (\<exists>m. rw_again n f = f m)"
  by (auto simp: rw_again_def)

lemma rw_exec_inv:
  assumes inv: "rw_inv N s" and t: "t < N" and e: "rw_exec (pcs s t) (shared s) = (p, v)"
  shows "rw_inv N (s\<lparr>shared := v, pcs := (pcs s)(t := p)\<rparr>)"
proof -
  let ?s = "s\<lparr>shared := v, pcs := (pcs s)(t := p)\<rparr>"
  have N: "N < 2 ^ 31" and cas: "\<And>u k n. pcs s u = ReadCas k n \<Longrightarrow> 0 \<le> sint k"
    and sub: "readers s \<union> writers s \<subseteq> {..<N}"
    using inv unfolding rw_inv_def by blast+
  have stay: ?thesis if "p = pcs s t" "v = shared s"
    using that inv by simp
  have other: ?thesis if "p \<noteq> Reading" "p \<noteq> ReadUnlock" "p \<noteq> Writing" "p \<noteq> WriteUnlock"
    "\<not> rw_reads s t" "\<not> rw_writes s t" "v = shared s" "\<And>k n. p = ReadCas k n \<Longrightarrow> 0 \<le> sint k"
    using that inv unfolding rw_inv_def rw_sets by (auto split: if_splits)
  have upd: ?thesis if "\<And>k n. p \<noteq> ReadCas k n" "readers ?s \<subseteq> {..<N}" "writers ?s \<subseteq> {..<N}"
    "writers ?s = {} \<and> v = of_nat (card (readers ?s)) \<or> (\<exists>w. writers ?s = {w}) \<and> v = - 1 \<and> readers ?s = {}"
    using that N cas unfolding rw_inv_def by auto
  show ?thesis
  proof (cases "pcs s t")
    case (ReadLoad n)
    with e show ?thesis
      using rw_again_cases [of n ReadLoad]
      by (intro other) (auto simp: read_lock_load_def rw_reads_def rw_writes_def split: if_splits)
  next
    case (ReadCas k n)
    show ?thesis
    proof (cases "shared s = k")
      case True
      with cas [OF ReadCas] have "shared s \<noteq> - 1" by auto
      note f = rw_inv_free [OF inv disjI1 [OF this]]
      from e ReadCas True have "p = Reading" "v = shared s + 1"
        by (auto simp: read_lock_cas_def atomic_cmpxchg_def)
      moreover have "\<not> rw_reads s t" using ReadCas by (simp add: rw_reads_def)
      ultimately show ?thesis using f N sub t by (intro upd) (auto simp: rw_sets ac_simps)
    next
      case False
      with e ReadCas show ?thesis
        using rw_again_cases [of n ReadLoad]
        by (intro other) (auto simp: read_lock_cas_def atomic_cmpxchg_def rw_reads_def rw_writes_def)
    qed
  next
    case ReadUnlock
    then have r: "rw_reads s t" by (simp add: rw_reads_def)
    note f = rw_inv_free [OF inv disjI2 [OF r]]
    from e ReadUnlock have "p = RwIdle" "v = shared s - 1" by (auto simp: read_unlock_def atomic_dec_def)
    moreover have "card (readers s - {t}) = card (readers s) - 1" "0 < card (readers s)"
      using r f(4) by (auto simp: card_gt_0_iff)
    ultimately show ?thesis using f N sub by (intro upd) (auto simp: rw_sets of_nat_diff)
  next
    case (WriteCas n)
    show ?thesis
    proof (cases "shared s = 0")
      case True
      then have "shared s \<noteq> - 1" by simp
      note f = rw_inv_free [OF inv disjI1 [OF this]]
      have "card (readers s) = 0"
        using True f(2,3) N by (auto simp: word_of_nat_eq_0_iff dest: nat_dvd_not_less)
      with f(4) have "readers s = {}" by simp
      moreover from e WriteCas True have "p = Writing" "v = - 1"
        by (auto simp: write_lock_cas_def atomic_cmpxchg_def)
      ultimately show ?thesis using f(1) t by (intro upd) (auto simp: rw_sets)
    next
      case False
      with e WriteCas show ?thesis
        using rw_again_cases [of n WriteCas]
        by (intro other) (auto simp: write_lock_cas_def atomic_cmpxchg_def rw_reads_def rw_writes_def)
    qed
  next
    case WriteUnlock
    then have "rw_writes s t" by (simp add: rw_writes_def)
    then have "t \<in> writers s" by simp
    with inv have "readers s = {}" "\<exists>w. writers s = {w}" unfolding rw_inv_def by (auto split: if_splits)
    with \<open>t \<in> writers s\<close> have r: "readers s = {}" and w: "writers s = {t}" by (blast, metis singletonD)
    from e WriteUnlock have p: "p = RwIdle" "v = 0" by (auto simp: write_unlock_def)
    show ?thesis using p by (intro upd) (simp_all add: rw_sets r w)
  qed (rule stay; use e in auto)+
qed

lemma rw_step_inv:
  assumes inv: "rw_inv N s" and step: "rw_step N t s s'"
  shows "rw_inv N s'"
  using step unfolding rw_step_def
proof cases
  case (call p)
  then have "rw_reads s' = rw_reads s" "rw_writes s' = rw_writes s" "\<And>k n. p \<noteq> ReadCas k n"
    by (cases "pcs s t"; auto simp: rw_reads_def rw_writes_def fun_eq_iff)+
  then have "readers s' = readers s" "writers s' = writers s" by (simp_all add: readers_def writers_def)
  with inv call \<open>\<And>k n. p \<noteq> ReadCas k n\<close> show ?thesis unfolding rw_inv_def by auto
next
  case (exec p l)
  with rw_exec_inv [OF inv exec(2,3)] show ?thesis by simp
qed

lemma rw_start_inv: "rw_start s \<Longrightarrow> N < 2 ^ 31 \<Longrightarrow> rw_inv N s"
proof -
  assume s: "rw_start s" "N < 2 ^ 31"
  then have "readers s = {}" "writers s = {}"
    by (auto simp: rw_start_def readers_def writers_def rw_reads_def rw_writes_def)
  with s show "rw_inv N s" by (simp add: rw_start_def rw_inv_def rwlock_init_def)
qed

lemma rw_frame: "rw_step N t s s' \<Longrightarrow> u \<noteq> t \<Longrightarrow> rw_writes s' u = rw_writes s u"
  by (simp add: rw_step_def rw_writes_def thread_step_frame(2))

interpretation rw: shared_lock_protocol "\<lambda>s. rw_start s \<and> N < 2 ^ 31" "rw_step N" "rw_inv N" rw_writes rw_reads for N
proof unfold_locales
  fix s t u assume i: "rw_inv N s" and w: "rw_writes s t"
  from w have "t \<in> writers s" by simp
  with i have e: "readers s = {}" "\<exists>w. writers s = {w}" unfolding rw_inv_def by (auto split: if_splits)
  from e(1) show "\<not> rw_reads s u" using mem_readers by blast
  assume "rw_writes s u"
  with w e(2) show "t = u" using mem_writers by (metis singletonD)
qed (use rw_start_inv rw_step_inv rw_frame in auto)

section \<open>The mutex\<close>

abbreviation (input) MUTEX_MAX_TOTAL_SPINS :: nat where "MUTEX_MAX_TOTAL_SPINS \<equiv> 50000000"

text \<open>The count of spins since the last yield has no effect and is left out.\<close>

datatype mutex_pc =
    MutexIdle
  | MutexCas nat
  | MutexSpin nat
  | MutexTry
  | MutexHeld
  | MutexUnlock
  | MutexPanic

definition mutex_init :: u32 where
  "mutex_init = 0"

definition mutex_lock_cas :: "nat \<Rightarrow> u32 \<Rightarrow> mutex_pc \<times> u32" where
  "mutex_lock_cas total_spins v =
     (let (r, v') = atomic_cmpxchg 0 1 v in (if r = 0 then MutexHeld else MutexSpin total_spins, v'))"

definition mutex_lock_spin :: "nat \<Rightarrow> u32 \<Rightarrow> mutex_pc \<times> u32" where
  "mutex_lock_spin total_spins v =
     (if MUTEX_MAX_TOTAL_SPINS < total_spins + 1 then MutexPanic
      else if v \<noteq> 0 then MutexSpin (total_spins + 1) else MutexCas (total_spins + 1), v)"

definition mutex_trylock :: "u32 \<Rightarrow> mutex_pc \<times> u32" where
  "mutex_trylock v = (let (r, v') = atomic_cmpxchg 0 1 v in (if r = 0 then MutexHeld else MutexIdle, v'))"

definition mutex_unlock :: "u32 \<Rightarrow> mutex_pc \<times> u32" where
  "mutex_unlock v = (MutexIdle, 0)"

definition mutex_is_locked :: "u32 \<Rightarrow> bool" where
  "mutex_is_locked v \<longleftrightarrow> v \<noteq> 0"

fun mutex_exec :: "mutex_pc \<Rightarrow> u32 \<Rightarrow> mutex_pc \<times> u32" where
  "mutex_exec (MutexCas n) v = mutex_lock_cas n v"
| "mutex_exec (MutexSpin n) v = mutex_lock_spin n v"
| "mutex_exec MutexTry v = mutex_trylock v"
| "mutex_exec MutexUnlock v = mutex_unlock v"
| "mutex_exec p v = (p, v)"

fun mutex_calls :: "mutex_pc \<Rightarrow> mutex_pc \<Rightarrow> bool" where
  "mutex_calls MutexIdle p \<longleftrightarrow> p = MutexCas 0 \<or> p = MutexTry"
| "mutex_calls MutexHeld p \<longleftrightarrow> p = MutexUnlock"
| "mutex_calls _ p \<longleftrightarrow> False"

type_synonym mutex_sys = "(u32, mutex_pc) threads"

definition mutex_start :: "mutex_sys \<Rightarrow> bool" where
  "mutex_start s \<longleftrightarrow> shared s = mutex_init \<and> pcs s = (\<lambda>_. MutexIdle)"

definition mutex_step :: "nat \<Rightarrow> nat \<Rightarrow> mutex_sys \<Rightarrow> mutex_sys \<Rightarrow> bool" where
  "mutex_step N t s s' \<longleftrightarrow> thread_step N mutex_calls mutex_exec t s s'"

definition mutex_holds :: "mutex_sys \<Rightarrow> nat \<Rightarrow> bool" where
  "mutex_holds s t \<longleftrightarrow> pcs s t = MutexHeld \<or> pcs s t = MutexUnlock"

definition mutex_inv :: "mutex_sys \<Rightarrow> bool" where
  "mutex_inv s \<longleftrightarrow> (\<forall>t. mutex_holds s t \<longrightarrow> shared s \<noteq> 0 \<and> (\<forall>u. mutex_holds s u \<longrightarrow> u = t))"

lemma mutex_exec_inv:
  assumes inv: "mutex_inv s" and e: "mutex_exec (pcs s t) (shared s) = (p, v)"
  shows "mutex_inv (s\<lparr>shared := v, pcs := (pcs s)(t := p)\<rparr>)"
  using assms
  by (cases "pcs s t")
    (auto simp: mutex_inv_def mutex_holds_def mutex_lock_cas_def mutex_lock_spin_def mutex_trylock_def mutex_unlock_def
      atomic_cmpxchg_def split: if_splits)

lemma mutex_step_inv:
  assumes "mutex_inv s" "mutex_step N t s s'"
  shows "mutex_inv s'"
  using assms(2) unfolding mutex_step_def
proof cases
  case (call p)
  then have "mutex_holds s' = mutex_holds s" by (cases "pcs s t"; auto simp: mutex_holds_def fun_eq_iff)
  with assms(1) call show ?thesis by (simp add: mutex_inv_def)
next
  case (exec p l)
  with mutex_exec_inv [OF assms(1) exec(3)] show ?thesis by simp
qed

lemma mutex_frame: "mutex_step N t s s' \<Longrightarrow> u \<noteq> t \<Longrightarrow> mutex_holds s' u = mutex_holds s u"
  by (simp add: mutex_step_def mutex_holds_def thread_step_frame(2))

interpretation mutex: lock_protocol mutex_start "mutex_step N" mutex_inv mutex_holds for N
proof unfold_locales
  show "mutex_start s \<Longrightarrow> mutex_inv s" for s
    by (simp add: mutex_start_def mutex_inv_def mutex_holds_def)
  show "mutex_inv s \<Longrightarrow> mutex_step N t s s' \<Longrightarrow> mutex_inv s'" for s t s'
    by (rule mutex_step_inv)
  show "mutex_inv s \<Longrightarrow> mutex_holds s t \<Longrightarrow> mutex_holds s u \<Longrightarrow> t = u" for s t u
    unfolding mutex_inv_def by blast
  show "mutex_step N t s s' \<Longrightarrow> u \<noteq> t \<Longrightarrow> mutex_holds s' u = mutex_holds s u" for s s' t u
    by (rule mutex_frame)
qed

section \<open>The semaphore\<close>

datatype sem_pc =
    SemIdle
  | DownRead nat
  | DownCas u32 nat
  | DownTry
  | DownTryCas u32
  | SemHeld
  | SemUp
  | SemPanic

definition sem_again :: "nat \<Rightarrow> sem_pc" where
  "sem_again spins = (if MUTEX_MAX_TOTAL_SPINS < spins + 1 then SemPanic else DownRead (spins + 1))"

definition down_read :: "nat \<Rightarrow> u32 \<Rightarrow> sem_pc \<times> u32" where
  "down_read spins v = (if 0 < sint v then DownCas v spins else sem_again spins, v)"

definition down_cas :: "u32 \<Rightarrow> nat \<Rightarrow> u32 \<Rightarrow> sem_pc \<times> u32" where
  "down_cas c spins v =
     (let (r, v') = atomic_cmpxchg c (c - 1) v in (if r = c then SemHeld else sem_again spins, v'))"

definition down_trylock_read :: "u32 \<Rightarrow> sem_pc \<times> u32" where
  "down_trylock_read v = (if 0 < sint v then DownTryCas v else SemIdle, v)"

definition down_trylock_cas :: "u32 \<Rightarrow> u32 \<Rightarrow> sem_pc \<times> u32" where
  "down_trylock_cas c v =
     (let (r, v') = atomic_cmpxchg c (c - 1) v in (if r = c then SemHeld else SemIdle, v'))"

definition up :: "u32 \<Rightarrow> sem_pc \<times> u32" where
  "up v = (SemIdle, atomic_inc v)"

fun sem_exec :: "sem_pc \<Rightarrow> u32 \<Rightarrow> sem_pc \<times> u32" where
  "sem_exec (DownRead n) v = down_read n v"
| "sem_exec (DownCas c n) v = down_cas c n v"
| "sem_exec DownTry v = down_trylock_read v"
| "sem_exec (DownTryCas c) v = down_trylock_cas c v"
| "sem_exec SemUp v = up v"
| "sem_exec p v = (p, v)"

fun sem_calls :: "sem_pc \<Rightarrow> sem_pc \<Rightarrow> bool" where
  "sem_calls SemIdle p \<longleftrightarrow> p = DownRead 0 \<or> p = DownTry"
| "sem_calls SemHeld p \<longleftrightarrow> p = SemUp"
| "sem_calls _ p \<longleftrightarrow> False"

type_synonym sem_sys = "(u32, sem_pc) threads"

text \<open>\<open>sema_init\<close> with the given value.\<close>

definition sem_start :: "nat \<Rightarrow> sem_sys \<Rightarrow> bool" where
  "sem_start val s \<longleftrightarrow> shared s = of_nat val \<and> pcs s = (\<lambda>_. SemIdle)"

definition sem_step :: "nat \<Rightarrow> nat \<Rightarrow> sem_sys \<Rightarrow> sem_sys \<Rightarrow> bool" where
  "sem_step N t s s' \<longleftrightarrow> thread_step N sem_calls sem_exec t s s'"

definition sem_holders :: "sem_sys \<Rightarrow> nat set" where
  "sem_holders s = {t. pcs s t = SemHeld \<or> pcs s t = SemUp}"

definition sem_inv :: "nat \<Rightarrow> nat \<Rightarrow> sem_sys \<Rightarrow> bool" where
  "sem_inv N val s \<longleftrightarrow> val < 2 ^ 31 \<and> sem_holders s \<subseteq> {..<N} \<and> card (sem_holders s) \<le> val
     \<and> shared s = of_nat (val - card (sem_holders s))
     \<and> (\<forall>t c n. pcs s t = DownCas c n \<or> pcs s t = DownTryCas c \<longrightarrow> 0 < sint c)"

lemma sem_free:
  assumes "sem_inv N val s" "0 < sint (shared s)"
  shows "card (sem_holders s) < val"
proof (rule ccontr)
  assume "\<not> card (sem_holders s) < val"
  with assms(1) have "shared s = 0" by (simp add: sem_inv_def)
  with assms(2) show False by simp
qed

lemma sem_holders_upd:
  "sem_holders (s\<lparr>shared := v, pcs := (pcs s)(t := p)\<rparr>) =
     (if p = SemHeld \<or> p = SemUp then insert t (sem_holders s) else sem_holders s - {t})"
  by (auto simp: sem_holders_def split: if_splits)

lemma sem_acquire:
  assumes inv: "sem_inv N val s" and t: "t < N" "pcs s t = DownCas c n \<or> pcs s t = DownTryCas c" and c: "shared s = c"
  shows "sem_inv N val (s\<lparr>shared := c - 1, pcs := (pcs s)(t := SemHeld)\<rparr>)"
proof -
  have "0 < sint c" using inv t(2) unfolding sem_inv_def by blast
  with c sem_free [OF inv] have lt: "card (sem_holders s) < val" by simp
  have "t \<notin> sem_holders s" using t(2) by (auto simp: sem_holders_def)
  moreover have "finite (sem_holders s)" using inv by (auto simp: sem_inv_def intro: finite_subset)
  ultimately have "card (insert t (sem_holders s)) = Suc (card (sem_holders s))" by simp
  moreover have "c - 1 = of_nat (val - Suc (card (sem_holders s)))"
    using c inv lt by (simp add: sem_inv_def of_nat_diff Suc_diff_Suc)
  ultimately show ?thesis using inv t(1) lt unfolding sem_inv_def sem_holders_upd by auto
qed

lemma sem_exec_inv:
  assumes inv: "sem_inv N val s" and t: "t < N" and e: "sem_exec (pcs s t) (shared s) = (p, v)"
  shows "sem_inv N val (s\<lparr>shared := v, pcs := (pcs s)(t := p)\<rparr>)"
proof -
  have stay: ?thesis if "p = pcs s t" "v = shared s"
    using that inv by simp
  have other: ?thesis if "p \<noteq> SemHeld" "p \<noteq> SemUp" "t \<notin> sem_holders s" "v = shared s"
    "\<And>c n. p = DownCas c n \<or> p = DownTryCas c \<Longrightarrow> 0 < sint c"
  proof -
    have "sem_holders (s\<lparr>shared := v, pcs := (pcs s)(t := p)\<rparr>) = sem_holders s"
      using that(1-3) by (simp add: sem_holders_upd)
    with inv that(4,5) show ?thesis unfolding sem_inv_def by auto
  qed
  have again: "sem_again n = SemPanic \<or> (\<exists>m. sem_again n = DownRead m)" for n
    by (simp add: sem_again_def)
  show ?thesis
  proof (cases "pcs s t")
    case (DownRead n)
    with e again [of n] show ?thesis by (intro other) (auto simp: down_read_def sem_holders_def split: if_splits)
  next
    case (DownCas c n)
    show ?thesis
    proof (cases "shared s = c")
      case True
      with e DownCas sem_acquire [OF inv t disjI1 [OF DownCas]] show ?thesis
        by (auto simp: down_cas_def atomic_cmpxchg_def)
    next
      case False
      with e DownCas again [of n] show ?thesis
        by (intro other) (auto simp: down_cas_def atomic_cmpxchg_def sem_holders_def)
    qed
  next
    case DownTry
    with e show ?thesis by (intro other) (auto simp: down_trylock_read_def sem_holders_def split: if_splits)
  next
    case (DownTryCas c)
    show ?thesis
    proof (cases "shared s = c")
      case True
      with e DownTryCas sem_acquire [OF inv t disjI2 [OF DownTryCas]] show ?thesis
        by (auto simp: down_trylock_cas_def atomic_cmpxchg_def)
    next
      case False
      with e DownTryCas show ?thesis
        by (intro other) (auto simp: down_trylock_cas_def atomic_cmpxchg_def sem_holders_def)
    qed
  next
    case SemUp
    then have r: "t \<in> sem_holders s" by (simp add: sem_holders_def)
    have "finite (sem_holders s)" using inv by (auto simp: sem_inv_def intro: finite_subset)
    with r have c: "card (sem_holders s - {t}) = card (sem_holders s) - 1" "0 < card (sem_holders s)"
      by (auto simp: card_gt_0_iff)
    from e SemUp have p: "p = SemIdle" "v = shared s + 1" by (auto simp: up_def atomic_inc_def)
    have "val - (card (sem_holders s) - 1) = Suc (val - card (sem_holders s))"
      using c(2) inv by (auto simp: sem_inv_def)
    with c p inv show ?thesis unfolding sem_inv_def sem_holders_upd by auto
  qed (rule stay; use e in auto)+
qed

lemma sem_step_inv:
  assumes "sem_inv N val s" "sem_step N t s s'"
  shows "sem_inv N val s'"
  using assms(2) unfolding sem_step_def
proof cases
  case (call p)
  then have "sem_holders s' = sem_holders s" "\<And>c n. p \<noteq> DownCas c n \<and> p \<noteq> DownTryCas c"
    by (cases "pcs s t"; auto simp: sem_holders_def)+
  with assms(1) call show ?thesis unfolding sem_inv_def by auto
next
  case (exec p l)
  with sem_exec_inv [OF assms(1) exec(2,3)] show ?thesis by simp
qed

lemma sem_runs_inv:
  assumes "runs (sem_step N) s s'" "sem_start val s" "val < 2 ^ 31"
  shows "sem_inv N val s'"
  using assms
proof induction
  case (runs_refl s)
  then have "sem_holders s = {}" by (auto simp: sem_start_def sem_holders_def)
  with runs_refl show ?case by (simp add: sem_inv_def sem_start_def)
qed (blast intro: sem_step_inv)

section \<open>The completion\<close>

datatype wait_pc =
    WaitRead nat
  | WaitCas u32 nat
  | WaitDone
  | WaitPanic

definition complete :: "u32 \<Rightarrow> u32" where
  "complete d = 1"

definition complete_all :: "u32 \<Rightarrow> u32" where
  "complete_all d = 0xFFFFFFFF"

definition init_completion :: u32 where
  "init_completion = 0"

definition wait_for_completion_read :: "nat \<Rightarrow> u32 \<Rightarrow> wait_pc \<times> u32" where
  "wait_for_completion_read spins d =
     (if 0 < sint d then
        if d = 0xFFFFFFFF then WaitDone else WaitCas d spins
      else if MUTEX_MAX_TOTAL_SPINS < spins + 1 then WaitPanic
      else WaitRead (spins + 1), d)"

definition wait_for_completion_cas :: "u32 \<Rightarrow> nat \<Rightarrow> u32 \<Rightarrow> wait_pc \<times> u32" where
  "wait_for_completion_cas old spins d =
     (let (r, v) = atomic_cmpxchg old (old - 1) d in (if r = old then WaitDone else WaitRead spins, v))"

text \<open>The polling form: the first access, and the exchange; the result is a flag.\<close>

definition try_wait_read :: "u32 \<Rightarrow> bool + u32" where
  "try_wait_read d = (if d = 0 then Inl False else if d = 0xFFFFFFFF then Inl True else Inr d)"

definition try_wait_cas :: "u32 \<Rightarrow> u32 \<Rightarrow> bool option \<times> u32" where
  "try_wait_cas old d = (let (r, v) = atomic_cmpxchg old (old - 1) d in (if r = old then Some True else None, v))"

fun wait_exec :: "wait_pc \<Rightarrow> u32 \<Rightarrow> wait_pc \<times> u32" where
  "wait_exec (WaitRead n) v = wait_for_completion_read n v"
| "wait_exec (WaitCas d n) v = wait_for_completion_cas d n v"
| "wait_exec p v = (p, v)"

definition completion_done :: "u32 \<Rightarrow> bool" where
  "completion_done d \<longleftrightarrow> d \<noteq> 0"

text \<open>A waiter that runs alone for \<open>k\<close> steps.\<close>

definition wait_loop :: "nat \<Rightarrow> wait_pc \<times> u32 \<Rightarrow> wait_pc \<times> u32" where
  "wait_loop k = (\<lambda>(p, v). wait_exec p v) ^^ k"

lemma wait_loop_simps: "wait_loop 0 x = x" "wait_loop (Suc k) x = wait_exec (fst (wait_loop k x)) (snd (wait_loop k x))"
  by (simp_all add: wait_loop_def split_def)

lemma wait_all_loop:
  "wait_loop k (WaitRead 0, 0xFFFFFFFF) = (if k \<le> MUTEX_MAX_TOTAL_SPINS then WaitRead k else WaitPanic, 0xFFFFFFFF)"
proof (induction k)
  case (Suc k)
  then show ?case
    by (cases "k \<le> MUTEX_MAX_TOTAL_SPINS") (auto simp: wait_loop_simps wait_for_completion_read_def)
qed (simp add: wait_loop_simps)

lemma wait_complete_loop: "wait_loop (Suc (Suc 0)) (WaitRead n, 1) = (WaitDone, 0)"
  by (simp add: wait_loop_simps wait_for_completion_read_def wait_for_completion_cas_def atomic_cmpxchg_def)

section \<open>Properties\<close>

text \<open>
  C5. The ticket lock is a queue: in every reachable state the threads with a ticket form a queue
  in the order of the tickets, a step of a thread leaves it, appends that thread or removes it
  from the head, whoever holds the lock is the head, and a waiting head enters with its next
  step. Trylocks are allowed as long as fewer than \<open>2 ^ 32\<close> tickets have been drawn.
\<close>

theorem ticket_lock_fifo:
  assumes "runs (spin_step N trying) s0 s" "spin_start s0" "N < 2 ^ 32" "spin_step N trying t s s'"
    and "trying \<Longrightarrow> tickets (shared s') < 2 ^ 32"
  shows "\<exists>q q'. ticket_queue N (rs_next (shared s)) (rs_owner (shared s)) (pcs s) q
    \<and> ticket_queue N (rs_next (shared s')) (rs_owner (shared s')) (pcs s') q' \<and> queue_step t q q'
    \<and> (\<forall>u. spin_holds s u \<longrightarrow> (\<exists>r. q = u # r))
    \<and> (\<forall>u r k n. q = u # r \<and> pcs s u = SpinWait k n \<longrightarrow> counted_exec (pcs s u) (shared s) = (SpinHeld, shared s))"
proof -
  have "trying \<Longrightarrow> tickets (shared s) < 2 ^ 32" using spin_step_tickets [OF assms(4)] assms(5) by linarith
  with spin_runs_inv [OF assms(1-3)] obtain q where q: "spin_inv N trying s q" by blast
  from spin_step_inv [OF q assms(4,5)] obtain q' where q': "spin_inv N trying s' q'" "queue_step t q q'" by blast
  have "\<forall>u. spin_holds s u \<longrightarrow> (\<exists>r. q = u # r)" by (metis q spin_inv_holds)
  moreover have "counted_exec (pcs s u) (shared s) = (SpinHeld, shared s)" if "q = u # r" "pcs s u = SpinWait k n" for u r k n
    using spin_inv_facts(1) [OF q] that by (auto simp: ticket_queue_def place_ok_def counted_exec_simps spin_wait_def)
  ultimately show ?thesis using spin_inv_facts(1) [OF q] spin_inv_facts(1) [OF q'(1)] q'(2) by blast
qed

text \<open>A thread that calls, draws its ticket and enters.\<close>

definition demo_spin :: "nat \<Rightarrow> spin_pc \<Rightarrow> spin_sys" where
  "demo_spin n p = \<lparr>shared = \<lparr>rs_next = of_nat n, rs_owner = 0, tickets = n\<rparr>, pcs = (\<lambda>_. SpinIdle)(0 := p)\<rparr>"

lemma demo_spin_steps:
  "spin_start (demo_spin 0 SpinIdle)"
  "spin_step 2 True 0 (demo_spin 0 SpinIdle) (demo_spin 0 SpinTake)"
  "spin_step 2 True 0 (demo_spin 0 SpinTake) (demo_spin 1 (SpinWait 0 0))"
  "spin_step 2 True 0 (demo_spin 1 (SpinWait 0 0)) (demo_spin 1 SpinHeld)"
proof -
  show "spin_start (demo_spin 0 SpinIdle)"
    by (auto simp: spin_start_def demo_spin_def spin_lock_init_def raw_spinlock.defs)
  show "spin_step 2 True 0 (demo_spin 0 SpinIdle) (demo_spin 0 SpinTake)"
    using thread_step.call [of 0 2 "spin_calls True" "demo_spin 0 SpinIdle" SpinTake counted_exec]
    by (simp add: spin_step_def demo_spin_def)
  show "spin_step 2 True 0 (demo_spin 0 SpinTake) (demo_spin 1 (SpinWait 0 0))"
    using thread_step.exec [of 0 2 counted_exec "demo_spin 0 SpinTake" "SpinWait 0 0" "shared (demo_spin 1 SpinIdle)" "spin_calls True"]
    by (simp add: spin_step_def demo_spin_def counted_exec_simps)
  show "spin_step 2 True 0 (demo_spin 1 (SpinWait 0 0)) (demo_spin 1 SpinHeld)"
    using thread_step.exec [of 0 2 counted_exec "demo_spin 1 (SpinWait 0 0)" SpinHeld "shared (demo_spin 1 SpinIdle)" "spin_calls True"]
    by (simp add: spin_step_def demo_spin_def counted_exec_simps spin_wait_def)
qed

theorem ticket_lock_fifo_witness:
  "\<exists>q q'. ticket_queue 2 1 0 (pcs (demo_spin 1 (SpinWait 0 0))) q' \<and> queue_step 0 q q'"
proof -
  have "runs (spin_step 2 True) (demo_spin 0 SpinIdle) (demo_spin 0 SpinTake)"
    by (rule runs_step [where step = "spin_step 2 True", OF runs_refl]) (rule demo_spin_steps(2))
  from ticket_lock_fifo [OF this demo_spin_steps(1) _ demo_spin_steps(3)] show ?thesis
    by (auto simp: demo_spin_def)
qed

text \<open>
  C22. The ticket lock protects data: when threads read a counter while they hold the lock and
  write it back incremented before they release it, no update is lost, whatever the interleaving.
\<close>

theorem ticket_lock_no_lost_update:
  assumes "runs (guarded_step (spin_system N trying) spin_holds) g g'" "spin_start (g_lock g)" "N < 2 ^ 32"
    and "g_count g = 0" "g_done g = 0" "g_local g = Map.empty"
  shows "g_count g' = g_done g'"
  using spin.no_lost_update [OF assms(1) _ assms(4,5,6)] assms(2,3) by blast

definition demo_guarded :: "nat \<Rightarrow> spin_pc \<Rightarrow> nat \<Rightarrow> nat option \<Rightarrow> spin_sys guarded" where
  "demo_guarded n p c v = \<lparr>g_lock = demo_spin n p, g_count = c, g_local = Map.empty(0 := v), g_done = c\<rparr>"

lemma demo_guarded_steps:
  "runs (guarded_step (spin_system 2 True) spin_holds) (demo_guarded 0 SpinIdle 0 None) (demo_guarded 1 SpinHeld 1 None)"
proof -
  let ?step = "guarded_step (spin_system 2 True) spin_holds 0"
  note step = runs_step [where step = "guarded_step (spin_system 2 True) spin_holds" and t = 0]
  have lock: "?step (demo_guarded n p 0 None) (demo_guarded m p' 0 None)"
    if "spin_step 2 True 0 (demo_spin n p) (demo_spin m p')" "m < 2 ^ 32" for n p m p'
    using g_lock_step [of "spin_system 2 True" 0 "demo_guarded n p 0 None" "demo_spin m p'" spin_holds] that
    by (simp add: demo_guarded_def spin_system_def demo_spin_def)
  have r: "?step (demo_guarded 1 SpinHeld 0 None) (demo_guarded 1 SpinHeld 0 (Some 0))"
    using g_read [of spin_holds "demo_guarded 1 SpinHeld 0 None" 0]
    by (simp add: demo_guarded_def demo_spin_def spin_holds_def)
  have w: "?step (demo_guarded 1 SpinHeld 0 (Some 0)) (demo_guarded 1 SpinHeld 1 None)"
    using g_write [of "demo_guarded 1 SpinHeld 0 (Some 0)" 0 0] by (simp add: demo_guarded_def)
  show ?thesis
    by (rule step [OF step [OF step [OF step [OF step [OF runs_refl lock [OF demo_spin_steps(2)]]
        lock [OF demo_spin_steps(3)]] lock [OF demo_spin_steps(4)]] r] w]) simp_all
qed

theorem ticket_lock_no_lost_update_witness: "g_count (demo_guarded 1 SpinHeld 1 None) = 1"
proof -
  have "g_count (demo_guarded 1 SpinHeld 1 None) = g_done (demo_guarded 1 SpinHeld 1 None)"
    by (rule ticket_lock_no_lost_update [OF demo_guarded_steps])
      (simp_all add: demo_guarded_def demo_spin_steps(1))
  then show ?thesis by (simp add: demo_guarded_def)
qed

text \<open>
  C21. The other locks: a reader/writer lock has one writer and no reader beside it, a mutex has
  one holder, and a semaphore started with \<open>val\<close> has at most \<open>val\<close> holders.
\<close>

theorem locks_exclude:
  assumes "runs (rw_step N) r0 r" "rw_start r0" "N < 2 ^ 31"
    and "runs (mutex_step M) m0 m" "mutex_start m0"
    and "runs (sem_step K) z0 z" "sem_start val z0" "val < 2 ^ 31"
  shows "(\<forall>t. rw_writes r t \<longrightarrow> (\<forall>u. \<not> rw_reads r u) \<and> (\<forall>u. rw_writes r u \<longrightarrow> u = t))
    \<and> (\<forall>t u. mutex_holds m t \<and> mutex_holds m u \<longrightarrow> t = u) \<and> finite (sem_holders z) \<and> card (sem_holders z) \<le> val"
proof -
  have "sem_inv K val z" by (rule sem_runs_inv [OF assms(6-8)])
  then have "finite (sem_holders z) \<and> card (sem_holders z) \<le> val"
    by (auto simp: sem_inv_def intro: finite_subset)
  then show ?thesis
    using rw.exclusion [OF assms(1)] rw.readers_alone [OF assms(1)] mutex.exclusion [OF assms(4,5)] assms(2,3) by blast
qed

theorem locks_exclude_witness:
  "\<exists>r :: rw_sys. \<exists>m :: mutex_sys. \<exists>z. mutex_holds m 0 \<and> (\<forall>u. mutex_holds m u \<longrightarrow> u = 0) \<and> card (sem_holders z) \<le> 3"
proof -
  let ?r = "\<lparr>shared = 0, pcs = \<lambda>_. RwIdle\<rparr> :: rw_sys" and ?z = "\<lparr>shared = 3, pcs = \<lambda>_. SemIdle\<rparr> :: sem_sys"
  let ?m = "\<lambda>v p. \<lparr>shared = v, pcs = (\<lambda>_. MutexIdle)(0 := p)\<rparr> :: mutex_sys"
  have "mutex_step 2 0 (?m 0 MutexIdle) (?m 0 MutexTry)"
    using thread_step.call [of 0 2 mutex_calls "?m 0 MutexIdle" MutexTry mutex_exec] by (simp add: mutex_step_def)
  moreover have "mutex_step 2 0 (?m 0 MutexTry) (?m 1 MutexHeld)"
    using thread_step.exec [of 0 2 mutex_exec "?m 0 MutexTry" MutexHeld 1 mutex_calls]
    by (simp add: mutex_step_def mutex_trylock_def atomic_cmpxchg_def)
  ultimately have m: "runs (mutex_step 2) (?m 0 MutexIdle) (?m 1 MutexHeld)"
    by (blast intro: runs_refl runs_step)
  have "mutex_holds (?m 1 MutexHeld) 0" by (simp add: mutex_holds_def)
  moreover have "(\<forall>t u. mutex_holds (?m 1 MutexHeld) t \<and> mutex_holds (?m 1 MutexHeld) u \<longrightarrow> t = u) \<and> card (sem_holders ?z) \<le> 3"
    using locks_exclude [OF runs_refl [of "rw_step 2" ?r] _ _ m _ runs_refl [of "sem_step 2" ?z], of 3]
    by (simp add: rw_start_def rwlock_init_def mutex_start_def mutex_init_def sem_start_def fun_eq_iff)
  ultimately show ?thesis by blast
qed

text \<open>
  C20. \<open>complete_all\<close> wakes nobody: it stores a value that is negative for the waiters, so a waiter
  spins until it panics, while the polling functions report the completion. A single
  \<open>complete\<close> lets one waiter through, and a second one before that is lost.
\<close>

theorem complete_all_wakes_nobody:
  "fst (wait_loop k (WaitRead 0, complete_all d)) = (if k \<le> 50000000 then WaitRead k else WaitPanic)
   \<and> completion_done (complete_all d) \<and> try_wait_read (complete_all d) = Inl True
   \<and> wait_loop 2 (WaitRead n, complete (complete d)) = (WaitDone, init_completion)"
  using wait_all_loop [of k] wait_complete_loop [of n, folded numeral_2_eq_2]
  by (simp add: complete_all_def completion_done_def try_wait_read_def complete_def init_completion_def)

end
