(* ===== verification/Gguf.thy ===== *)
theory Gguf
  imports HeapFlow "HOL-Library.Monad_Syntax" "HOL-Library.Char_ord"
begin

text \<open>
  The parser of model files, \<^verbatim>\<open>src/kernel/ai/gguf_parser.c\<close>. The file is a buffer in memory; a
  reader takes an address and returns the value read, or \<open>None\<close> for an error return, and the
  address after it. An access outside the buffer makes the whole result \<open>None\<close>. Addresses and
  sizes are 64 bits wide and wrap as pointers do. Floats are their bit patterns.
\<close>

abbreviation (input) GGUF_MAX_KV_PAIRS :: nat where "GGUF_MAX_KV_PAIRS \<equiv> 4096"
abbreviation (input) GGUF_MAX_TENSORS :: nat where "GGUF_MAX_TENSORS \<equiv> 65536"
abbreviation (input) GGUF_MAX_STRING_LEN :: nat where "GGUF_MAX_STRING_LEN \<equiv> 1048576"
abbreviation (input) GGUF_MAX_ARRAY_LEN :: nat where "GGUF_MAX_ARRAY_LEN \<equiv> 16777216"
abbreviation (input) GGUF_MAX_KEY_LEN :: nat where "GGUF_MAX_KEY_LEN \<equiv> 256"
abbreviation (input) GGUF_MAX_VOCAB_SIZE :: nat where "GGUF_MAX_VOCAB_SIZE \<equiv> 256000"
abbreviation (input) GGUF_MAX_STORED_TENSORS :: nat where "GGUF_MAX_STORED_TENSORS \<equiv> 4096"
abbreviation (input) GGUF_MAX_TENSOR_NAME :: nat where "GGUF_MAX_TENSOR_NAME \<equiv> 128"
abbreviation (input) GGUF_MAX_TENSOR_DIMS :: nat where "GGUF_MAX_TENSOR_DIMS \<equiv> 4"

text \<open>\<open>sizeof\<close> of \<^verbatim>\<open>struct gguf_vocab_token\<close> and \<^verbatim>\<open>struct gguf_tensor_info\<close>.\<close>

abbreviation (input) VOCAB_TOKEN_SIZE :: nat where "VOCAB_TOKEN_SIZE \<equiv> 16"
abbreviation (input) TENSOR_INFO_SIZE :: nat where "TENSOR_INFO_SIZE \<equiv> 192"

abbreviation (input) GGUF_TYPE_UINT8 :: u32 where "GGUF_TYPE_UINT8 \<equiv> 0"
abbreviation (input) GGUF_TYPE_INT8 :: u32 where "GGUF_TYPE_INT8 \<equiv> 1"
abbreviation (input) GGUF_TYPE_UINT16 :: u32 where "GGUF_TYPE_UINT16 \<equiv> 2"
abbreviation (input) GGUF_TYPE_INT16 :: u32 where "GGUF_TYPE_INT16 \<equiv> 3"
abbreviation (input) GGUF_TYPE_UINT32 :: u32 where "GGUF_TYPE_UINT32 \<equiv> 4"
abbreviation (input) GGUF_TYPE_INT32 :: u32 where "GGUF_TYPE_INT32 \<equiv> 5"
abbreviation (input) GGUF_TYPE_FLOAT32 :: u32 where "GGUF_TYPE_FLOAT32 \<equiv> 6"
abbreviation (input) GGUF_TYPE_BOOL :: u32 where "GGUF_TYPE_BOOL \<equiv> 7"
abbreviation (input) GGUF_TYPE_STRING :: u32 where "GGUF_TYPE_STRING \<equiv> 8"
abbreviation (input) GGUF_TYPE_ARRAY :: u32 where "GGUF_TYPE_ARRAY \<equiv> 9"
abbreviation (input) GGUF_TYPE_UINT64 :: u32 where "GGUF_TYPE_UINT64 \<equiv> 10"
abbreviation (input) GGUF_TYPE_INT64 :: u32 where "GGUF_TYPE_INT64 \<equiv> 11"
abbreviation (input) GGUF_TYPE_FLOAT64 :: u32 where "GGUF_TYPE_FLOAT64 \<equiv> 12"

section \<open>The buffer and its readers\<close>

record gbuf =
  b_start :: nat
  b_bytes :: "u8 list"

definition b_end :: "gbuf \<Rightarrow> nat" where
  "b_end b = add64 (b_start b) (length (b_bytes b))"

definition peek :: "gbuf \<Rightarrow> nat \<Rightarrow> nat \<Rightarrow> u8 list option" where
  "peek b p n =
     (if n = 0 then Some []
      else if b_start b \<le> p \<and> p + n \<le> b_start b + length (b_bytes b)
      then Some (take n (drop (p - b_start b) (b_bytes b))) else None)"

fun le_nat :: "u8 list \<Rightarrow> nat" where
  "le_nat [] = 0"
| "le_nat (x # xs) = unat x + 256 * le_nat xs"

text \<open>\<open>safe_read_u8\<close>, \<open>u32\<close>, \<open>u64\<close>, \<open>f32\<close> and \<open>f64\<close> differ in the width only.\<close>

definition safe_read :: "nat \<Rightarrow> gbuf \<Rightarrow> nat \<Rightarrow> (u8 list option \<times> nat) option" where
  "safe_read n b p =
     (if b_end b < add64 p n then Some (None, p)
      else do { d \<leftarrow> peek b p n; Some (Some d, add64 p n) })"

definition safe_read_u32 :: "gbuf \<Rightarrow> nat \<Rightarrow> (u32 option \<times> nat) option" where
  "safe_read_u32 b p = do { (d, p') \<leftarrow> safe_read 4 b p; Some (map_option (\<lambda>d. of_nat (le_nat d)) d, p') }"

definition safe_read_u64 :: "gbuf \<Rightarrow> nat \<Rightarrow> (nat option \<times> nat) option" where
  "safe_read_u64 b p = do { (d, p') \<leftarrow> safe_read 8 b p; Some (map_option le_nat d, p') }"

definition safe_read_f64 :: "gbuf \<Rightarrow> nat \<Rightarrow> (u64 option \<times> nat) option" where
  "safe_read_f64 b p = do { (d, p') \<leftarrow> safe_read 8 b p; Some (map_option (\<lambda>d. of_nat (le_nat d)) d, p') }"

text \<open>The float is stored before it is looked at, and what it is only changes a debug message.\<close>

definition safe_read_f32 :: "gbuf \<Rightarrow> nat \<Rightarrow> (u32 option \<times> nat) option" where
  "safe_read_f32 b p = safe_read_u32 b p"

definition is_valid_float32 :: "u32 \<Rightarrow> bool" where
  "is_valid_float32 bits =
     (let exponent = drop_bit 23 bits AND 0xFF; mantissa = bits AND 0x7FFFFF
      in \<not> (exponent = 0xFF \<and> mantissa \<noteq> 0) \<and> \<not> (exponent = 0xFF \<and> mantissa = 0)
         \<and> \<not> (exponent = 0 \<and> mantissa \<noteq> 0))"

definition is_valid_float64 :: "u64 \<Rightarrow> bool" where
  "is_valid_float64 bits =
     (let exponent = drop_bit 52 bits AND 0x7FF; mantissa = bits AND 0xFFFFFFFFFFFFF
      in \<not> (exponent = 0x7FF \<and> mantissa \<noteq> 0) \<and> \<not> (exponent = 0x7FF \<and> mantissa = 0)
         \<and> \<not> (exponent = 0 \<and> mantissa \<noteq> 0))"

text \<open>
  The cast from \<open>double\<close> to \<open>float\<close> for finite normal numbers and zero: the exponent is moved, the
  mantissa rounded to nearest even, with overflow to infinity and gradual underflow.
\<close>

definition round_shift :: "nat \<Rightarrow> nat \<Rightarrow> nat" where
  "round_shift k m =
     (let q = m div 2 ^ k; r = m mod 2 ^ k
      in if 2 ^ k < 2 * r \<or> 2 * r = 2 ^ k \<and> odd q then q + 1 else q)"

definition double_to_float :: "u64 \<Rightarrow> u32" where
  "double_to_float bits =
     (let s = unat (drop_bit 63 bits); e = unat (drop_bit 52 bits AND 0x7FF); m = unat (bits AND 0xFFFFFFFFFFFFF);
          magnitude =
            (if e = 0 then 0
             else if 897 \<le> e then min (0x7F800000) ((e - 897) * 2 ^ 23 + round_shift 29 (2 ^ 52 + m))
             else round_shift (29 + (897 - e)) (2 ^ 52 + m))
      in of_nat (s * 2 ^ 31 + magnitude))"

text \<open>\<open>out_size\<close> 0 stands for a null output buffer, to which nothing is copied.\<close>

definition safe_read_string :: "gbuf \<Rightarrow> nat \<Rightarrow> nat \<Rightarrow> (u8 list option \<times> nat) option" where
  "safe_read_string b out_size p = do {
     (len, p1) \<leftarrow> safe_read_u64 b p;
     (case len of
        None \<Rightarrow> Some (None, p1)
      | Some len \<Rightarrow>
          if GGUF_MAX_STRING_LEN < len \<or> b_end b < add64 p1 len then Some (None, p1)
          else do {
            out \<leftarrow> peek b p1 (if out_size = 0 then 0 else min len (out_size - 1));
            Some (Some out, add64 p1 len)
          }) }"

text \<open>The C string in a buffer filled with \<open>d\<close> and a NUL.\<close>

definition cstring :: "u8 list \<Rightarrow> string" where
  "cstring d = map (\<lambda>x. char_of (unat x)) (takeWhile (\<lambda>x. x \<noteq> 0) d)"

section \<open>Skipping values\<close>

text \<open>The width of the scalar types; \<open>None\<close> for strings, arrays and unknown types.\<close>

definition scalar_width :: "u32 \<Rightarrow> nat option" where
  "scalar_width ty =
     (if ty = GGUF_TYPE_UINT8 \<or> ty = GGUF_TYPE_INT8 \<or> ty = GGUF_TYPE_BOOL then Some 1
      else if ty = GGUF_TYPE_UINT16 \<or> ty = GGUF_TYPE_INT16 then Some 2
      else if ty = GGUF_TYPE_UINT32 \<or> ty = GGUF_TYPE_INT32 \<or> ty = GGUF_TYPE_FLOAT32 then Some 4
      else if ty = GGUF_TYPE_UINT64 \<or> ty = GGUF_TYPE_INT64 \<or> ty = GGUF_TYPE_FLOAT64 then Some 8
      else None)"

definition skip_scalar :: "gbuf \<Rightarrow> nat \<Rightarrow> nat \<Rightarrow> bool \<times> nat" where
  "skip_scalar b w p = (if b_end b < add64 p w then (False, p) else (True, add64 p w))"

text \<open>
  The loop of \<open>gguf_skip_array\<close> over \<open>n\<close> elements of type \<open>ty\<close>, with the body of \<open>gguf_skip_value\<close>,
  which calls it again for nested arrays.
\<close>

partial_function (option) skip_values :: "gbuf \<Rightarrow> u32 \<Rightarrow> nat \<Rightarrow> nat \<Rightarrow> (bool \<times> nat) option" where
  "skip_values b ty n p =
     (if n = 0 then Some (True, p)
      else do {
        (ok, p1) \<leftarrow>
          (case scalar_width ty of
             Some w \<Rightarrow> Some (skip_scalar b w p)
           | None \<Rightarrow>
               if ty = GGUF_TYPE_STRING then do {
                 (r, p1) \<leftarrow> safe_read_string b 0 p;
                 Some (r \<noteq> None, p1)
               }
               else if ty = GGUF_TYPE_ARRAY then do {
                 (arr_type, p1) \<leftarrow> safe_read_u32 b p;
                 (case arr_type of
                    None \<Rightarrow> Some (False, p1)
                  | Some arr_type \<Rightarrow> do {
                      (arr_len, p2) \<leftarrow> safe_read_u64 b p1;
                      (case arr_len of
                         None \<Rightarrow> Some (False, p2)
                       | Some arr_len \<Rightarrow>
                           if GGUF_MAX_ARRAY_LEN < arr_len then Some (False, p2)
                           else skip_values b arr_type arr_len p2) }) }
               else Some (False, p));
        if ok then skip_values b ty (n - 1) p1 else Some (False, p1) })"

definition gguf_skip_value :: "gbuf \<Rightarrow> u32 \<Rightarrow> nat \<Rightarrow> (bool \<times> nat) option" where
  "gguf_skip_value b ty p = skip_values b ty 1 p"

text \<open>The loops of the parser that skip \<open>n\<close> values and do not look at the result.\<close>

fun skip_regardless :: "gbuf \<Rightarrow> u32 \<Rightarrow> nat \<Rightarrow> nat \<Rightarrow> nat option" where
  "skip_regardless b ty 0 p = Some p"
| "skip_regardless b ty (Suc n) p = do { (_, p1) \<leftarrow> gguf_skip_value b ty p; skip_regardless b ty n p1 }"

section \<open>The parser's context\<close>

text \<open>The fields of \<^verbatim>\<open>struct gguf_model_arch\<close> that the parser sets, strings up to their NUL.\<close>

record model_arch =
  general_architecture :: string
  general_name :: string
  general_file_type :: u32
  general_quantization_version :: u32
  general_alignment :: u32
  context_length :: u32
  embedding_length :: u32
  block_count :: u32
  feed_forward_length :: u32
  attention_head_count :: u32
  attention_head_count_kv :: u32
  attention_layer_norm_rms_epsilon :: u32
  rope_dimension_count :: u32
  rope_freq_base :: u32
  arch_vocab_size :: u32
  arch_bos_token_id :: u32
  arch_eos_token_id :: u32
  pad_token_id :: u32
  arch_tokenizer_model :: string

record tensor_info =
  t_name :: string
  t_n_dims :: u32
  t_dims :: "nat list"
  t_type :: u32
  t_offset :: nat
  t_size :: nat

text \<open>
  Pointers into the file are addresses. The vocabulary and the tensor table are the addresses of
  their blocks and their contents; the text of a token is its block and the bytes before the NUL
  written behind them.
\<close>

record gguf_ctx =
  g_version :: u32
  g_n_tensors :: nat
  g_n_kv :: nat
  kv_start :: nat
  tensor_info_start :: nat
  tensor_data_start :: nat
  g_alignment :: nat
  g_arch :: model_arch
  g_vocab :: "nat option"
  g_vocab_count :: u32
  vocab_texts :: "nat \<Rightarrow> (nat \<times> u8 list) option"
  g_vocab_scores :: "(nat \<times> (nat \<Rightarrow> u32)) option"
  g_vocab_types :: "nat option"
  g_tensors :: "nat option"
  tensors :: "tensor_info list"
  predominant_type :: u32
  g_is_valid :: bool

definition zero_arch :: model_arch where
  "zero_arch = \<lparr>general_architecture = [], general_name = [], general_file_type = 0,
     general_quantization_version = 0, general_alignment = 0, context_length = 0, embedding_length = 0,
     block_count = 0, feed_forward_length = 0, attention_head_count = 0, attention_head_count_kv = 0,
     attention_layer_norm_rms_epsilon = 0, rope_dimension_count = 0, rope_freq_base = 0, arch_vocab_size = 0,
     arch_bos_token_id = 0, arch_eos_token_id = 0, pad_token_id = 0, arch_tokenizer_model = []\<rparr>"

definition zero_ctx :: gguf_ctx where
  "zero_ctx = \<lparr>g_version = 0, g_n_tensors = 0, g_n_kv = 0, kv_start = 0, tensor_info_start = 0,
     tensor_data_start = 0, g_alignment = 0, g_arch = zero_arch, g_vocab = None, g_vocab_count = 0,
     vocab_texts = (\<lambda>_. None), g_vocab_scores = None, g_vocab_types = None,
     g_tensors = None, tensors = [], predominant_type = 0, g_is_valid = False\<rparr>"

definition upd_arch :: "(model_arch \<Rightarrow> model_arch) \<Rightarrow> gguf_ctx \<Rightarrow> gguf_ctx" where
  "upd_arch f c = c\<lparr>g_arch := f (g_arch c)\<rparr>"

section \<open>The header\<close>

text \<open>The counts are 32 bits wide in versions 1 and 2.\<close>

definition gguf_parse_header :: "gbuf \<Rightarrow> gguf_ctx \<Rightarrow> (bool \<times> gguf_ctx) option" where
  "gguf_parse_header b c =
     (let p = b_start b; size = length (b_bytes b)
      in if size < 16 then Some (False, c)
         else do {
           magic \<leftarrow> peek b p 4;
           if le_nat magic \<noteq> 0x46554747 then Some (False, c)
           else do {
             v \<leftarrow> peek b (add64 p 4) 4;
             let version = of_nat (le_nat v);
             let c1 = c\<lparr>g_version := version\<rparr>;
             (ok, c2) \<leftarrow>
               (if version = 1 \<or> version = 2 then do {
                  nt \<leftarrow> peek b (add64 p 8) 4;
                  nk \<leftarrow> peek b (add64 p 12) 4;
                  Some (True, c1\<lparr>g_n_tensors := le_nat nt, g_n_kv := le_nat nk, kv_start := add64 p 16\<rparr>)
                }
                else if version = 3 then
                  if size < 24 then Some (False, c1)
                  else do {
                    nt \<leftarrow> peek b (add64 p 8) 8;
                    nk \<leftarrow> peek b (add64 p 16) 8;
                    Some (True, c1\<lparr>g_n_tensors := le_nat nt, g_n_kv := le_nat nk, kv_start := add64 p 24\<rparr>)
                  }
                else Some (False, c1));
             if \<not> ok then Some (False, c2)
             else if GGUF_MAX_KV_PAIRS < g_n_kv c2 then Some (False, c2)
             else if GGUF_MAX_TENSORS < g_n_tensors c2 then Some (False, c2)
             else Some (True, c2\<lparr>g_alignment := 32\<rparr>)
           } })"

section \<open>Metadata\<close>

type_synonym kv_result = "(bool \<times> nat \<times> gguf_ctx \<times> heap) option"

text \<open>The fields that are read without further checks.\<close>

definition kv_field ::
    "(gbuf \<Rightarrow> nat \<Rightarrow> ('v option \<times> nat) option) \<Rightarrow> ('v \<Rightarrow> model_arch \<Rightarrow> model_arch) \<Rightarrow> gbuf \<Rightarrow> nat \<Rightarrow> gguf_ctx \<Rightarrow> heap \<Rightarrow> kv_result" where
  "kv_field read upd b p c h = do {
     (v, p1) \<leftarrow> read b p;
     (case v of None \<Rightarrow> Some (False, p1, c, h) | Some v \<Rightarrow> Some (True, p1, upd_arch (upd v) c, h)) }"

definition kv_string :: "nat \<Rightarrow> (string \<Rightarrow> model_arch \<Rightarrow> model_arch) \<Rightarrow> gbuf \<Rightarrow> nat \<Rightarrow> gguf_ctx \<Rightarrow> heap \<Rightarrow> kv_result" where
  "kv_string out_size upd = kv_field (\<lambda>b. safe_read_string b out_size) (\<lambda>d. upd (cstring d))"

text \<open>Double precision: rejected when not zero or normal, then cast.\<close>

definition kv_double :: "(u32 \<Rightarrow> model_arch \<Rightarrow> model_arch) \<Rightarrow> gbuf \<Rightarrow> nat \<Rightarrow> gguf_ctx \<Rightarrow> heap \<Rightarrow> kv_result" where
  "kv_double upd b p c h = do {
     (v, p1) \<leftarrow> safe_read_f64 b p;
     (case v of
        None \<Rightarrow> Some (False, p1, c, h)
      | Some v \<Rightarrow>
          if \<not> is_valid_float64 v then Some (False, p1, c, h)
          else Some (True, p1, upd_arch (upd (double_to_float v)) c, h)) }"

definition kv_alignment :: "gbuf \<Rightarrow> nat \<Rightarrow> gguf_ctx \<Rightarrow> heap \<Rightarrow> kv_result" where
  "kv_alignment b p c h = do {
     (v, p1) \<leftarrow> safe_read_u32 b p;
     (case v of
        None \<Rightarrow> Some (False, p1, c, h)
      | Some a \<Rightarrow>
          let a' = (if a = 0 \<or> a AND (a - 1) \<noteq> 0 \<or> 1024 * 1024 < a then 32 else a)
          in Some (True, p1, (upd_arch (\<lambda>x. x\<lparr>general_alignment := a'\<rparr>) c)\<lparr>g_alignment := unat a'\<rparr>, h)) }"

text \<open>
  The token strings. A token longer than 1024 bytes, or running past the end, is left out without
  skipping its bytes.
\<close>

fun load_token_texts :: "gbuf \<Rightarrow> nat \<Rightarrow> nat \<Rightarrow> nat \<Rightarrow> gguf_ctx \<Rightarrow> heap \<Rightarrow> (nat \<times> gguf_ctx \<times> heap) option" where
  "load_token_texts b 0 i p c h = Some (p, c, h)"
| "load_token_texts b (Suc n) i p c h =
     (if b_end b < add64 p 8 then Some (p, c, h)
      else do {
        d \<leftarrow> peek b p 8;
        let len = le_nat d;
        let p1 = add64 p 8;
        if 1024 < len \<or> b_end b < add64 p1 len then load_token_texts b n (i + 1) p1 c h
        else do {
          (q, h1) \<leftarrow> heap_alloc (len + 1) h;
          text \<leftarrow> (if q = None then Some [] else peek b p1 len);
          load_token_texts b n (i + 1) (add64 p1 len)
            (c\<lparr>vocab_texts := (vocab_texts c)(i := map_option (\<lambda>q. (q, text)) q)\<rparr>) h1
        } })"

fun skip_strings :: "gbuf \<Rightarrow> nat \<Rightarrow> nat \<Rightarrow> nat option" where
  "skip_strings b 0 p = Some p"
| "skip_strings b (Suc n) p = do { (_, p1) \<leftarrow> safe_read_string b 0 p; skip_strings b n p1 }"

text \<open>Type and length of an array, then the action on them.\<close>

definition kv_array :: "(u32 \<Rightarrow> nat \<Rightarrow> nat \<Rightarrow> kv_result) \<Rightarrow> gbuf \<Rightarrow> nat \<Rightarrow> gguf_ctx \<Rightarrow> heap \<Rightarrow> kv_result" where
  "kv_array act b p c h = do {
     (ty, p1) \<leftarrow> safe_read_u32 b p;
     (case ty of
        None \<Rightarrow> Some (False, p1, c, h)
      | Some ty \<Rightarrow> do {
          (len, p2) \<leftarrow> safe_read_u64 b p1;
          (case len of None \<Rightarrow> Some (False, p2, c, h) | Some len \<Rightarrow> act ty len p2) }) }"

definition token_array :: "gbuf \<Rightarrow> gguf_ctx \<Rightarrow> heap \<Rightarrow> u32 \<Rightarrow> nat \<Rightarrow> nat \<Rightarrow> kv_result" where
  "token_array b c h ty len p2 =
     (if ty \<noteq> GGUF_TYPE_STRING then do { p3 \<leftarrow> skip_regardless b ty len p2; Some (True, p3, c, h) }
     else
       let n = min len GGUF_MAX_VOCAB_SIZE;
           c1 = (upd_arch (\<lambda>x. x\<lparr>arch_vocab_size := of_nat n\<rparr>) c)\<lparr>g_vocab_count := of_nat n\<rparr>
       in do {
         (v, h1) \<leftarrow> heap_alloc (n * VOCAB_TOKEN_SIZE) h;
         (case v of
            None \<Rightarrow> do { p3 \<leftarrow> skip_strings b n p2; Some (True, p3, c1\<lparr>g_vocab := None\<rparr>, h1) }
          | Some q \<Rightarrow> do {
              (p3, c2, h2) \<leftarrow> load_token_texts b n 0 p2 (c1\<lparr>g_vocab := Some q, vocab_texts := \<lambda>_. None\<rparr>) h1;
              Some (True, p3, c2, h2) }) })"

definition kv_tokens :: "gbuf \<Rightarrow> nat \<Rightarrow> gguf_ctx \<Rightarrow> heap \<Rightarrow> kv_result" where
  "kv_tokens b p c h = kv_array (token_array b c h) b p c h"

text \<open>Scores and token types are stepped over; the step is not checked against the end.\<close>

definition kv_scores :: "gbuf \<Rightarrow> nat \<Rightarrow> gguf_ctx \<Rightarrow> heap \<Rightarrow> kv_result" where
  "kv_scores b p c h = kv_array (\<lambda>ty len p2.
     if ty = GGUF_TYPE_FLOAT32 \<and> len \<le> GGUF_MAX_VOCAB_SIZE then Some (True, add64 p2 (len * 4), c, h)
     else do { p3 \<leftarrow> skip_regardless b ty len p2; Some (True, p3, c, h) }) b p c h"

definition kv_skip :: "u32 \<Rightarrow> gbuf \<Rightarrow> nat \<Rightarrow> gguf_ctx \<Rightarrow> heap \<Rightarrow> kv_result" where
  "kv_skip ty b p c h = do { (ok, p1) \<leftarrow> gguf_skip_value b ty p; Some (ok, p1, c, h) }"

text \<open>
  With another element type or a longer array the code falls through to the skipping of unknown
  keys, behind the type and length it has already read.
\<close>

definition kv_token_types :: "gbuf \<Rightarrow> nat \<Rightarrow> gguf_ctx \<Rightarrow> heap \<Rightarrow> kv_result" where
  "kv_token_types b p c h = kv_array (\<lambda>ty len p2.
     if ty = GGUF_TYPE_INT32 \<and> len \<le> GGUF_MAX_VOCAB_SIZE then Some (True, add64 p2 (len * 4), c, h)
     else kv_skip GGUF_TYPE_ARRAY b p2 c h) b p c h"

text \<open>The parameters of the architecture, behind the prefix of a model family.\<close>

definition arch_prefixes :: "string list" where
  "arch_prefixes = [''llama.'', ''phi.'', ''mistral.'', ''qwen.'', ''qwen2.'', ''gemma.'']"

definition arch_field :: "string \<Rightarrow> u32 \<Rightarrow> (gbuf \<Rightarrow> nat \<Rightarrow> gguf_ctx \<Rightarrow> heap \<Rightarrow> kv_result) option" where
  "arch_field subkey ty =
     (if subkey = ''context_length'' \<and> ty = GGUF_TYPE_UINT32
      then Some (kv_field safe_read_u32 (\<lambda>v a. a\<lparr>context_length := v\<rparr>))
      else if subkey = ''embedding_length'' \<and> ty = GGUF_TYPE_UINT32
      then Some (kv_field safe_read_u32 (\<lambda>v a. a\<lparr>embedding_length := v\<rparr>))
      else if subkey = ''block_count'' \<and> ty = GGUF_TYPE_UINT32
      then Some (kv_field safe_read_u32 (\<lambda>v a. a\<lparr>block_count := v\<rparr>))
      else if subkey = ''feed_forward_length'' \<and> ty = GGUF_TYPE_UINT32
      then Some (kv_field safe_read_u32 (\<lambda>v a. a\<lparr>feed_forward_length := v\<rparr>))
      else if subkey = ''attention.head_count'' \<and> ty = GGUF_TYPE_UINT32
      then Some (kv_field safe_read_u32 (\<lambda>v a. a\<lparr>attention_head_count := v\<rparr>))
      else if subkey = ''attention.head_count_kv'' \<and> ty = GGUF_TYPE_UINT32
      then Some (kv_field safe_read_u32 (\<lambda>v a. a\<lparr>attention_head_count_kv := v\<rparr>))
      else if subkey = ''attention.layer_norm_rms_epsilon'' \<and> ty = GGUF_TYPE_FLOAT32
      then Some (kv_field safe_read_f32 (\<lambda>v a. a\<lparr>attention_layer_norm_rms_epsilon := v\<rparr>))
      else if subkey = ''attention.layer_norm_rms_epsilon'' \<and> ty = GGUF_TYPE_FLOAT64
      then Some (kv_double (\<lambda>v a. a\<lparr>attention_layer_norm_rms_epsilon := v\<rparr>))
      else if subkey = ''rope.freq_base'' \<and> ty = GGUF_TYPE_FLOAT32
      then Some (kv_field safe_read_f32 (\<lambda>v a. a\<lparr>rope_freq_base := v\<rparr>))
      else if subkey = ''rope.freq_base'' \<and> ty = GGUF_TYPE_FLOAT64
      then Some (kv_double (\<lambda>v a. a\<lparr>rope_freq_base := v\<rparr>))
      else if subkey = ''rope.dimension_count'' \<and> ty = GGUF_TYPE_UINT32
      then Some (kv_field safe_read_u32 (\<lambda>v a. a\<lparr>rope_dimension_count := v\<rparr>))
      else None)"

fun prefixed_field :: "string list \<Rightarrow> string \<Rightarrow> u32 \<Rightarrow> (gbuf \<Rightarrow> nat \<Rightarrow> gguf_ctx \<Rightarrow> heap \<Rightarrow> kv_result) option" where
  "prefixed_field [] key ty = None"
| "prefixed_field (p # ps) key ty =
     (if take (length p) key \<noteq> p then prefixed_field ps key ty
      else case arch_field (drop (length p) key) ty of
             None \<Rightarrow> prefixed_field ps key ty
           | Some f \<Rightarrow> Some f)"

definition kv_value :: "string \<Rightarrow> u32 \<Rightarrow> gbuf \<Rightarrow> nat \<Rightarrow> gguf_ctx \<Rightarrow> heap \<Rightarrow> kv_result" where
  "kv_value key ty =
     (if key = ''general.architecture'' \<and> ty = GGUF_TYPE_STRING
      then kv_string 64 (\<lambda>v a. a\<lparr>general_architecture := v\<rparr>)
      else if key = ''general.name'' \<and> ty = GGUF_TYPE_STRING
      then kv_string 128 (\<lambda>v a. a\<lparr>general_name := v\<rparr>)
      else if key = ''general.alignment'' \<and> ty = GGUF_TYPE_UINT32 then kv_alignment
      else if key = ''general.file_type'' \<and> ty = GGUF_TYPE_UINT32
      then kv_field safe_read_u32 (\<lambda>v a. a\<lparr>general_file_type := v\<rparr>)
      else if key = ''general.quantization_version'' \<and> ty = GGUF_TYPE_UINT32
      then kv_field safe_read_u32 (\<lambda>v a. a\<lparr>general_quantization_version := v\<rparr>)
      else case prefixed_field arch_prefixes key ty of
        Some f \<Rightarrow> f
      | None \<Rightarrow>
          if key = ''tokenizer.ggml.model'' \<and> ty = GGUF_TYPE_STRING
          then kv_string 64 (\<lambda>v a. a\<lparr>arch_tokenizer_model := v\<rparr>)
          else if key = ''tokenizer.ggml.bos_token_id'' \<and> ty = GGUF_TYPE_UINT32
          then kv_field safe_read_u32 (\<lambda>v a. a\<lparr>arch_bos_token_id := v\<rparr>)
          else if key = ''tokenizer.ggml.eos_token_id'' \<and> ty = GGUF_TYPE_UINT32
          then kv_field safe_read_u32 (\<lambda>v a. a\<lparr>arch_eos_token_id := v\<rparr>)
          else if key = ''tokenizer.ggml.padding_token_id'' \<and> ty = GGUF_TYPE_UINT32
          then kv_field safe_read_u32 (\<lambda>v a. a\<lparr>pad_token_id := v\<rparr>)
          else if key = ''tokenizer.ggml.tokens'' \<and> ty = GGUF_TYPE_ARRAY then kv_tokens
          else if key = ''tokenizer.ggml.scores'' \<and> ty = GGUF_TYPE_ARRAY then kv_scores
          else if key = ''tokenizer.ggml.token_type'' \<and> ty = GGUF_TYPE_ARRAY then kv_token_types
          else kv_skip ty)"

definition gguf_parse_kv_pair :: "gbuf \<Rightarrow> nat \<Rightarrow> gguf_ctx \<Rightarrow> heap \<Rightarrow> kv_result" where
  "gguf_parse_kv_pair b p c h = do {
     (key, p1) \<leftarrow> safe_read_string b GGUF_MAX_KEY_LEN p;
     (case key of
        None \<Rightarrow> Some (False, p1, c, h)
      | Some key \<Rightarrow> do {
          (ty, p2) \<leftarrow> safe_read_u32 b p1;
          (case ty of
             None \<Rightarrow> Some (False, p2, c, h)
           | Some ty \<Rightarrow> kv_value (cstring key) ty b p2 c h) }) }"

fun parse_kv_pairs :: "gbuf \<Rightarrow> nat \<Rightarrow> nat \<Rightarrow> gguf_ctx \<Rightarrow> heap \<Rightarrow> kv_result" where
  "parse_kv_pairs b 0 p c h = Some (True, p, c, h)"
| "parse_kv_pairs b (Suc n) p c h = do {
     (ok, p1, c1, h1) \<leftarrow> gguf_parse_kv_pair b p c h;
     if ok then parse_kv_pairs b n p1 c1 h1 else Some (False, p1, c1, h1) }"

definition gguf_parse_metadata :: "gbuf \<Rightarrow> gguf_ctx \<Rightarrow> heap \<Rightarrow> (bool \<times> gguf_ctx \<times> heap) option" where
  "gguf_parse_metadata b c h =
     (let a = zero_arch\<lparr>attention_layer_norm_rms_epsilon := 0x3727c5ac, rope_freq_base := 0x461c4000\<rparr>
      in do {
        (ok, p, c1, h1) \<leftarrow> parse_kv_pairs b (g_n_kv c) (kv_start c) (c\<lparr>g_arch := a\<rparr>) h;
        Some (ok, if ok then c1\<lparr>tensor_info_start := p\<rparr> else c1, h1) })"

section \<open>Tensors\<close>

text \<open>Sizes and elements of the blocks of a type; the types 4 and 5 do not exist.\<close>

definition ggml_block_sizes :: "nat list" where
  "ggml_block_sizes = [4, 2, 18, 20, 0, 0, 22, 24, 34, 36, 84, 110, 144, 176, 210, 292]"

definition ggml_block_elements :: "nat list" where
  "ggml_block_elements = [1, 1, 32, 32, 0, 0, 32, 32, 32, 32, 256, 256, 256, 256, 256, 256]"

definition ggml_type_block_size :: "u32 \<Rightarrow> nat" where
  "ggml_type_block_size ty = (if ty < 16 then ggml_block_sizes ! unat ty else 0)"

definition ggml_type_block_elements :: "u32 \<Rightarrow> nat" where
  "ggml_type_block_elements ty = (if ty < 16 then ggml_block_elements ! unat ty else 0)"

definition calc_tensor_size :: "u32 \<Rightarrow> nat \<Rightarrow> nat" where
  "calc_tensor_size ty n_elements =
     (let e = ggml_type_block_elements ty
      in if e = 0 then 0
         else (add64 n_elements (e - 1) div e * ggml_type_block_size ty) mod SIZE_MOD)"

fun read_dims :: "gbuf \<Rightarrow> nat \<Rightarrow> nat \<Rightarrow> nat list \<Rightarrow> (nat list option \<times> nat) option" where
  "read_dims b 0 p ds = Some (Some ds, p)"
| "read_dims b (Suc n) p ds = do {
     (d, p1) \<leftarrow> safe_read_u64 b p;
     (case d of None \<Rightarrow> Some (None, p1) | Some d \<Rightarrow> read_dims b n p1 (ds @ [d])) }"

text \<open>
  One entry of the tensor table. The length of the name is compared with the end only after it
  has been added to the pointer.
\<close>

definition parse_tensor :: "gbuf \<Rightarrow> bool \<Rightarrow> nat \<Rightarrow> (tensor_info option \<times> nat) option" where
  "parse_tensor b store p = do {
     (len, p1) \<leftarrow> safe_read_u64 b p;
     (case len of
        None \<Rightarrow> Some (None, p1)
      | Some len \<Rightarrow>
          if b_end b < add64 p1 len then Some (None, p1)
          else do {
            name \<leftarrow> (if store then peek b p1 (min len (GGUF_MAX_TENSOR_NAME - 1)) else Some []);
            let p2 = add64 p1 len;
            (n_dims, p3) \<leftarrow> safe_read_u32 b p2;
            (case n_dims of
               None \<Rightarrow> Some (None, p3)
             | Some n_dims \<Rightarrow> do {
                 (dims, p4) \<leftarrow> read_dims b (unat n_dims) p3 [];
                 (case dims of
                    None \<Rightarrow> Some (None, p4)
                  | Some dims \<Rightarrow>
                      if b_end b < add64 p4 12 then Some (None, p4)
                      else do {
                        ty \<leftarrow> peek b p4 4;
                        off \<leftarrow> peek b (add64 p4 4) 8;
                        let ty = of_nat (le_nat ty);
                        Some (Some \<lparr>t_name = cstring name, t_n_dims = n_dims,
                          t_dims = take GGUF_MAX_TENSOR_DIMS (dims @ replicate GGUF_MAX_TENSOR_DIMS 0),
                          t_type = ty, t_offset = le_nat off,
                          t_size = calc_tensor_size ty (prod_list dims mod SIZE_MOD)\<rparr>, add64 p4 12)
                      }) }) }) }"

definition zero_tensor :: tensor_info where
  "zero_tensor = \<lparr>t_name = [], t_n_dims = 0, t_dims = [0, 0, 0, 0], t_type = 0, t_offset = 0, t_size = 0\<rparr>"

fun parse_tensors :: "gbuf \<Rightarrow> nat \<Rightarrow> nat \<Rightarrow> nat \<Rightarrow> tensor_info list \<Rightarrow> (bool \<times> nat \<times> tensor_info list) option" where
  "parse_tensors b 0 i p ts = Some (True, p, ts)"
| "parse_tensors b (Suc n) i p ts = do {
     (t, p1) \<leftarrow> parse_tensor b (i < length ts) p;
     (case t of None \<Rightarrow> Some (False, p1, ts) | Some t \<Rightarrow> parse_tensors b n (i + 1) p1 (ts[i := t])) }"

text \<open>Rounding up with \<^verbatim>\<open>(m + a - 1) & ~(a - 1)\<close>; \<open>a\<close> is a power of two.\<close>

definition gguf_align :: "nat \<Rightarrow> nat \<Rightarrow> nat" where
  "gguf_align a m = unat ((of_nat (add64 m (a - 1)) :: u64) AND NOT (of_nat a - 1))"

definition gguf_parse_tensor_info :: "gbuf \<Rightarrow> gguf_ctx \<Rightarrow> heap \<Rightarrow> (bool \<times> gguf_ctx \<times> heap) option" where
  "gguf_parse_tensor_info b c h =
     (let n_to_store = min (g_n_tensors c) GGUF_MAX_STORED_TENSORS
      in do {
        (t, h1) \<leftarrow> heap_alloc (n_to_store * TENSOR_INFO_SIZE) h;
        (case t of
           None \<Rightarrow> Some (False, c\<lparr>g_tensors := None\<rparr>, h1)
         | Some q \<Rightarrow> do {
             (ok, p, ts) \<leftarrow> parse_tensors b (g_n_tensors c) 0 (tensor_info_start c) (replicate n_to_store zero_tensor);
             let c1 = c\<lparr>g_tensors := Some q, tensors := ts\<rparr>;
             Some (if \<not> ok then (False, c1, h1)
               else (True, c1\<lparr>tensor_data_start := add64 (b_start b) (gguf_align (g_alignment c) (sub64 p (b_start b))),
                         g_is_valid := True\<rparr>, h1)) }) })"

section \<open>Validation and loading\<close>

definition gguf_validate :: "gbuf \<Rightarrow> gguf_ctx \<Rightarrow> bool \<times> gguf_ctx" where
  "gguf_validate b c =
     (let a = g_arch c
      in if embedding_length a = 0 \<or> block_count a = 0 \<or> attention_head_count a = 0 then (False, c)
         else
           let a1 = a\<lparr>attention_head_count_kv :=
                 if attention_head_count_kv a = 0 then attention_head_count a else attention_head_count_kv a\<rparr>;
               a2 = a1\<lparr>feed_forward_length :=
                 if feed_forward_length a1 = 0 then embedding_length a1 * 4 else feed_forward_length a1\<rparr>;
               a3 = a2\<lparr>context_length := if context_length a2 = 0 then 2048 else context_length a2\<rparr>;
               a4 = a3\<lparr>arch_vocab_size :=
                 if arch_vocab_size a3 = 0 \<and> 0 < g_vocab_count c then g_vocab_count c else arch_vocab_size a3\<rparr>;
               c1 = c\<lparr>g_arch := a4\<rparr>
           in if b_end b \<le> tensor_data_start c1 then (False, c1) else (True, c1\<lparr>g_is_valid := True\<rparr>))"

text \<open>\<open>kfree\<close> is \<open>heap_free\<close>: the slab allocator is never switched on.\<close>

definition kfree :: "nat option \<Rightarrow> heap \<Rightarrow> heap" where
  "kfree p h = (case p of None \<Rightarrow> h | Some q \<Rightarrow> heap_free q h)"

fun free_texts :: "gguf_ctx \<Rightarrow> nat \<Rightarrow> nat \<Rightarrow> heap \<Rightarrow> heap" where
  "free_texts c i 0 h = h"
| "free_texts c i (Suc n) h =
     free_texts c (i + 1) n (kfree (map_option fst (vocab_texts c i)) h)"

definition gguf_parser_free :: "gguf_ctx \<Rightarrow> heap \<Rightarrow> gguf_ctx \<times> heap" where
  "gguf_parser_free c h =
     (let h1 = (if g_vocab c = None then h
                else kfree (g_vocab c) (free_texts c 0 (unat (g_vocab_count c)) h));
          h2 = kfree (map_option fst (g_vocab_scores c)) h1;
          h3 = kfree (g_vocab_types c) h2
      in (zero_ctx, kfree (g_tensors c) h3))"

definition parse_failed :: "gguf_ctx \<Rightarrow> heap \<Rightarrow> int \<times> gguf_ctx \<times> heap" where
  "parse_failed c h = (- 1, gguf_parser_free c h)"

definition gguf_parser_load :: "gbuf \<Rightarrow> heap \<Rightarrow> (int \<times> gguf_ctx \<times> heap) option" where
  "gguf_parser_load b h = do {
     (ok, c) \<leftarrow> gguf_parse_header b zero_ctx;
     if \<not> ok then Some (parse_failed c h) else do {
     (ok, c1, h1) \<leftarrow> gguf_parse_metadata b c h;
     if \<not> ok then Some (parse_failed c1 h1) else do {
     (ok, c2, h2) \<leftarrow> gguf_parse_tensor_info b c1 h1;
     if \<not> ok then Some (parse_failed c2 h2)
     else
       let (ok, c3) = gguf_validate b c2
       in Some (if ok then (0, c3, h2) else parse_failed c3 h2) } } }"

section \<open>Queries\<close>

definition gguf_parser_get_arch :: "gguf_ctx \<Rightarrow> model_arch option" where
  "gguf_parser_get_arch c = (if g_is_valid c then Some (g_arch c) else None)"

definition gguf_parser_get_token :: "gguf_ctx \<Rightarrow> u32 \<Rightarrow> u8 list option" where
  "gguf_parser_get_token c i =
     (if g_vocab c = None \<or> g_vocab_count c \<le> i then None
      else map_option (\<lambda>(_, d). takeWhile (\<lambda>x. x \<noteq> 0) d) (vocab_texts c (unat i)))"

definition gguf_parser_get_token_score :: "gguf_ctx \<Rightarrow> u32 \<Rightarrow> u32" where
  "gguf_parser_get_token_score c i =
     (case g_vocab_scores c of
        None \<Rightarrow> 0
      | Some (_, scores) \<Rightarrow> if g_vocab_count c \<le> i then 0 else scores (unat i))"

definition gguf_parser_get_model_quant_type :: "gguf_ctx \<Rightarrow> u32" where
  "gguf_parser_get_model_quant_type c = predominant_type c"

definition gguf_parser_get_tensor_by_index :: "gguf_ctx \<Rightarrow> nat \<Rightarrow> tensor_info option" where
  "gguf_parser_get_tensor_by_index c i =
     (if g_tensors c = None \<or> length (tensors c) \<le> i then None else Some (tensors c ! i))"

definition gguf_parser_get_tensor_by_name :: "gguf_ctx \<Rightarrow> string \<Rightarrow> tensor_info option" where
  "gguf_parser_get_tensor_by_name c name =
     (if g_tensors c = None then None else find (\<lambda>t. t_name t = name) (tensors c))"

definition gguf_parser_get_tensor_data_ptr :: "gguf_ctx \<Rightarrow> tensor_info \<Rightarrow> nat option" where
  "gguf_parser_get_tensor_data_ptr c t =
     (if tensor_data_start c = 0 then None else Some (add64 (tensor_data_start c) (t_offset t)))"

end
