(* ===== verification/GgufFlow.thy ===== *)
theory GgufFlow
  imports Gguf
begin

text \<open>
  What the parser of \<open>Gguf\<close> guarantees: the header and the metadata of any file are read without
  leaving the buffer, and what a hostile tensor name can do.
\<close>

section \<open>Reading stays in the buffer\<close>

text \<open>
  The file does not lie at the very end of the address space, and the pointer has not run further
  past its end than the unchecked steps over scores and token types allow.
\<close>

definition buf_ok :: "gbuf \<Rightarrow> bool" where
  "buf_ok b \<longleftrightarrow> b_start b + length (b_bytes b) + 2 ^ 21 \<le> SIZE_MOD"

definition ptr_ok :: "gbuf \<Rightarrow> nat \<Rightarrow> bool" where
  "ptr_ok b p \<longleftrightarrow> b_start b \<le> p \<and> p \<le> b_start b + length (b_bytes b) + GGUF_MAX_VOCAB_SIZE * 4"

lemma b_end_eq [simp]: "buf_ok b \<Longrightarrow> b_end b = b_start b + length (b_bytes b)"
  by (simp add: buf_ok_def b_end_def add64_def)

lemma ptr_add: "buf_ok b \<Longrightarrow> ptr_ok b p \<Longrightarrow> n \<le> 1048576 \<Longrightarrow> add64 p n = p + n"
  by (simp add: buf_ok_def ptr_ok_def add64_def)

lemma ptr_inside: "b_start b \<le> p \<Longrightarrow> p \<le> b_start b + length (b_bytes b) \<Longrightarrow> ptr_ok b p"
  by (simp add: ptr_ok_def)

lemma safe_read_eq:
  assumes "buf_ok b" "ptr_ok b p" "n \<le> 8"
  shows "safe_read n b p = (if b_end b < p + n then Some (None, p)
    else Some (Some (take n (drop (p - b_start b) (b_bytes b))), p + n))"
  using assms ptr_add [OF assms(1,2), of n] by (auto simp: safe_read_def peek_def ptr_ok_def)

text \<open>What a reader does: it fails where it is, or moves on to a place inside the buffer.\<close>

definition reads_ok :: "gbuf \<Rightarrow> nat \<Rightarrow> ('v option \<times> nat) option \<Rightarrow> bool" where
  "reads_ok b p r \<longleftrightarrow> (\<exists>v p'. r = Some (v, p') \<and> p \<le> p' \<and> (p' = p \<or> p' \<le> b_end b) \<and> (v \<noteq> None \<longrightarrow> p < p'))"

lemma reads_okE:
  assumes "reads_ok b p r" "buf_ok b" "ptr_ok b p"
  obtains v p' where "r = Some (v, p')" "p \<le> p'" "ptr_ok b p'" "p' = p \<or> p' \<le> b_end b" "v \<noteq> None \<Longrightarrow> p < p' \<and> p' \<le> b_end b"
proof -
  from assms(1) obtain v p' where r: "r = Some (v, p')" "p \<le> p'" "p' = p \<or> p' \<le> b_end b" "v \<noteq> None \<Longrightarrow> p < p'"
    unfolding reads_ok_def by blast
  moreover from this assms(2,3) have "ptr_ok b p'" by (auto simp: ptr_ok_def)
  ultimately show thesis using that by force
qed

lemma reads_u32: "buf_ok b \<Longrightarrow> ptr_ok b p \<Longrightarrow> reads_ok b p (safe_read_u32 b p)"
  by (simp add: safe_read_u32_def safe_read_eq reads_ok_def)

lemma reads_u64: "buf_ok b \<Longrightarrow> ptr_ok b p \<Longrightarrow> reads_ok b p (safe_read_u64 b p)"
  by (simp add: safe_read_u64_def safe_read_eq reads_ok_def)

lemma reads_f64: "buf_ok b \<Longrightarrow> ptr_ok b p \<Longrightarrow> reads_ok b p (safe_read_f64 b p)"
  by (simp add: safe_read_f64_def safe_read_eq reads_ok_def)

lemma reads_f32: "buf_ok b \<Longrightarrow> ptr_ok b p \<Longrightarrow> reads_ok b p (safe_read_f32 b p)"
  by (simp add: safe_read_f32_def reads_u32)

lemma reads_string:
  assumes b: "buf_ok b" "ptr_ok b p"
  shows "reads_ok b p (safe_read_string b out p)"
proof (rule reads_okE [OF reads_u64 [OF b] b])
  fix len p1
  assume r: "safe_read_u64 b p = Some (len, p1)" "p \<le> p1" "ptr_ok b p1" "p1 = p \<or> p1 \<le> b_end b"
    "len \<noteq> None \<Longrightarrow> p < p1 \<and> p1 \<le> b_end b"
  show ?thesis
  proof (cases len)
    case None
    with r show ?thesis by (simp add: safe_read_string_def reads_ok_def)
  next
    case (Some n)
    show ?thesis
    proof (cases "n \<le> GGUF_MAX_STRING_LEN \<and> p1 + n \<le> b_end b")
      case True
      with b ptr_add [OF b(1) r(3), of n] r(3) have "\<exists>d. peek b p1 (if out = 0 then 0 else min n (out - 1)) = Some d"
        by (auto simp: peek_def ptr_ok_def)
      with True Some r ptr_add [OF b(1) r(3), of n] show ?thesis
        by (auto simp: safe_read_string_def reads_ok_def)
    next
      case False
      with Some r ptr_add [OF b(1) r(3), of n] show ?thesis
        by (cases "n \<le> GGUF_MAX_STRING_LEN") (auto simp: safe_read_string_def reads_ok_def)
    qed
  qed
qed

section \<open>Skipping ends\<close>

definition skips_ok :: "gbuf \<Rightarrow> nat \<Rightarrow> (bool \<times> nat) option \<Rightarrow> bool" where
  "skips_ok b p r \<longleftrightarrow> (\<exists>ok p'. r = Some (ok, p') \<and> p \<le> p' \<and> (p' = p \<or> p' \<le> b_end b))"

lemma skips_okI: "p \<le> p' \<Longrightarrow> p' = p \<or> p' \<le> b_end b \<Longrightarrow> skips_ok b p (Some (ok, p'))"
  by (simp add: skips_ok_def)

lemma skips_ok_later: "skips_ok b p1 r \<Longrightarrow> p \<le> p1 \<Longrightarrow> p1 \<le> b_end b \<Longrightarrow> skips_ok b p r"
  by (auto simp: skips_ok_def)

lemma skip_scalar_cases:
  assumes "buf_ok b" "ptr_ok b p" "scalar_width ty = Some w"
  shows "skip_scalar b w p = (if b_end b < p + w then (False, p) else (True, p + w))" "0 < w"
proof -
  have "0 < w \<and> w \<le> 8" using assms(3) by (auto simp: scalar_width_def split: if_splits)
  then show "0 < w" "skip_scalar b w p = (if b_end b < p + w then (False, p) else (True, p + w))"
    using ptr_add [OF assms(1,2), of w] by (simp_all add: skip_scalar_def)
qed

text \<open>One value, with the loop over the elements of an array as it is.\<close>

definition skip_array :: "gbuf \<Rightarrow> nat \<Rightarrow> (bool \<times> nat) option" where
  "skip_array b p = do {
     (arr_type, p1) \<leftarrow> safe_read_u32 b p;
     (case arr_type of
        None \<Rightarrow> Some (False, p1)
      | Some arr_type \<Rightarrow> do {
          (arr_len, p2) \<leftarrow> safe_read_u64 b p1;
          (case arr_len of
             None \<Rightarrow> Some (False, p2)
           | Some arr_len \<Rightarrow>
               if GGUF_MAX_ARRAY_LEN < arr_len then Some (False, p2)
               else skip_values b arr_type arr_len p2) }) }"

definition skip_one :: "gbuf \<Rightarrow> u32 \<Rightarrow> nat \<Rightarrow> (bool \<times> nat) option" where
  "skip_one b ty p =
     (case scalar_width ty of
        Some w \<Rightarrow> Some (skip_scalar b w p)
      | None \<Rightarrow>
          if ty = GGUF_TYPE_STRING then do { (r, p1) \<leftarrow> safe_read_string b 0 p; Some (r \<noteq> None, p1) }
          else if ty = GGUF_TYPE_ARRAY then skip_array b p
          else Some (False, p))"

lemma skip_values_unfold:
  "skip_values b ty n p =
     (if n = 0 then Some (True, p)
      else do {
        (ok, p1) \<leftarrow> skip_one b ty p;
        if ok then skip_values b ty (n - 1) p1 else Some (False, p1) })"
  unfolding skip_one_def skip_array_def by (subst skip_values.simps) (rule refl)

definition skips_on :: "gbuf \<Rightarrow> nat \<Rightarrow> (bool \<times> nat) option \<Rightarrow> bool" where
  "skips_on b p r \<longleftrightarrow> (\<exists>ok p'. r = Some (ok, p') \<and> p \<le> p' \<and> (p' = p \<or> p' \<le> b_end b) \<and> (ok \<longrightarrow> p < p'))"

lemma skip_array_on:
  assumes b: "buf_ok b" "ptr_ok b p"
    and deeper: "\<And>ty n p'. p < p' \<Longrightarrow> p' \<le> b_end b \<Longrightarrow> skips_ok b p' (skip_values b ty n p')"
  shows "skips_on b p (skip_array b p)"
proof (rule reads_okE [OF reads_u32 [OF b] b])
  fix at p1
  assume r: "safe_read_u32 b p = Some (at, p1)" "p \<le> p1" "ptr_ok b p1" "p1 = p \<or> p1 \<le> b_end b"
    "at \<noteq> None \<Longrightarrow> p < p1 \<and> p1 \<le> b_end b"
  show ?thesis
  proof (rule reads_okE [OF reads_u64 [OF b(1) r(3)] b(1) r(3)])
    fix al p2
    assume q: "safe_read_u64 b p1 = Some (al, p2)" "p1 \<le> p2" "ptr_ok b p2" "p2 = p1 \<or> p2 \<le> b_end b"
      "al \<noteq> None \<Longrightarrow> p1 < p2 \<and> p2 \<le> b_end b"
    show ?thesis
    proof (cases "at \<noteq> None \<and> al \<noteq> None \<and> the al \<le> GGUF_MAX_ARRAY_LEN")
      case True
      with r q have p2: "p < p2" "p2 \<le> b_end b" by auto
      from deeper [OF this, of "the at" "the al"] True r(1) q(1) p2 show ?thesis
        by (auto simp: skip_array_def skips_on_def skips_ok_def)
    next
      case False
      with r q show ?thesis by (auto simp: skip_array_def skips_on_def split: option.splits)
    qed
  qed
qed

lemma skip_one_on:
  assumes b: "buf_ok b" "ptr_ok b p"
    and deeper: "\<And>ty n p'. p < p' \<Longrightarrow> p' \<le> b_end b \<Longrightarrow> skips_ok b p' (skip_values b ty n p')"
  shows "skips_on b p (skip_one b ty p)"
proof (cases "scalar_width ty")
  case (Some w)
  with skip_scalar_cases [OF b Some] show ?thesis by (auto simp: skip_one_def skips_on_def)
next
  case None
  have "reads_ok b p (safe_read_string b 0 p)" by (rule reads_string [OF b])
  then have "skips_on b p (do { (r, p1) \<leftarrow> safe_read_string b 0 p; Some (r \<noteq> None, p1) })"
    by (auto simp: reads_ok_def skips_on_def)
  with None skip_array_on [OF assms] show ?thesis by (auto simp: skip_one_def skips_on_def)
qed

lemma skip_values_ok:
  assumes b: "buf_ok b"
  shows "ptr_ok b p \<Longrightarrow> skips_ok b p (skip_values b ty n p)"
proof (induction "b_end b - p" arbitrary: ty n p rule: less_induct)
  case less
  have deeper: "skips_ok b p' (skip_values b ty' m p')" if "p < p'" "p' \<le> b_end b" for ty' m p'
  proof (rule less.hyps)
    show "b_end b - p' < b_end b - p" using that by linarith
    show "ptr_ok b p'" using that less.prems b by (auto simp: ptr_ok_def)
  qed
  from skip_one_on [OF b less.prems deeper, of ty] obtain ok p1 where
    one: "skip_one b ty p = Some (ok, p1)" "p \<le> p1" "p1 = p \<or> p1 \<le> b_end b" "ok \<Longrightarrow> p < p1"
    by (auto simp: skips_on_def)
  have "ok \<Longrightarrow> skips_ok b p (skip_values b ty (n - 1) p1)"
    using one deeper [of p1 ty "n - 1"] skips_ok_later [of b p1 _ p] by auto
  with one show ?case
    by (subst skip_values_unfold) (auto simp: skips_okI)
qed

lemma skip_value_ok: "buf_ok b \<Longrightarrow> ptr_ok b p \<Longrightarrow> skips_ok b p (gguf_skip_value b ty p)"
  by (simp add: gguf_skip_value_def skip_values_ok)

lemma skips_ptr: "buf_ok b \<Longrightarrow> ptr_ok b p \<Longrightarrow> p \<le> p' \<Longrightarrow> p' = p \<or> p' \<le> b_end b \<Longrightarrow> ptr_ok b p'"
  by (auto simp: ptr_ok_def)

lemma skip_regardless_ok:
  "buf_ok b \<Longrightarrow> ptr_ok b p \<Longrightarrow> \<exists>p'. skip_regardless b ty n p = Some p' \<and> p \<le> p' \<and> (p' = p \<or> p' \<le> b_end b)"
proof (induction n arbitrary: p)
  case (Suc n)
  from skip_value_ok [OF Suc.prems, of ty] obtain ok p1 where
    p1: "gguf_skip_value b ty p = Some (ok, p1)" "p \<le> p1" "p1 = p \<or> p1 \<le> b_end b" by (auto simp: skips_ok_def)
  from Suc.IH [OF Suc.prems(1) skips_ptr [OF Suc.prems p1(2,3)]] p1 show ?case by auto
qed simp

lemma skip_strings_ok:
  "buf_ok b \<Longrightarrow> ptr_ok b p \<Longrightarrow> \<exists>p'. skip_strings b n p = Some p' \<and> p \<le> p' \<and> (p' = p \<or> p' \<le> b_end b)"
proof (induction n arbitrary: p)
  case (Suc n)
  from reads_string [OF Suc.prems, of 0] obtain r p1 where
    p1: "safe_read_string b 0 p = Some (r, p1)" "p \<le> p1" "p1 = p \<or> p1 \<le> b_end b" by (auto simp: reads_ok_def)
  from Suc.IH [OF Suc.prems(1) skips_ptr [OF Suc.prems p1(2,3)]] p1 show ?case by auto
qed simp

section \<open>The metadata\<close>

definition heap_good :: "heap \<Rightarrow> bool" where
  "heap_good h \<longleftrightarrow> (\<exists>L. heap_ok h L)"

lemma heap_alloc_good:
  assumes "heap_good h" "n + 15 < SIZE_MOD"
  shows "\<exists>q h'. heap_alloc n h = Some (q, h') \<and> heap_good h'"
proof -
  from assms(1) obtain L where L: "heap_ok h L" by (auto simp: heap_good_def)
  show ?thesis
  proof (cases "n = 0")
    case True
    have "heap_ready h = h" using L by (simp add: heap_ready_def heap_ok_def)
    with True assms(1) show ?thesis by (simp add: heap_alloc_def)
  next
    case False
    with heap_alloc_refines [OF L _ assms(2)] L show ?thesis
      by (auto simp: heap_good_def split: option.splits)
  qed
qed

definition kv_ok :: "gbuf \<Rightarrow> kv_result \<Rightarrow> bool" where
  "kv_ok b r \<longleftrightarrow> (\<exists>ok p c h. r = Some (ok, p, c, h) \<and> ptr_ok b p \<and> heap_good h)"

lemma kv_okI: "ptr_ok b p \<Longrightarrow> heap_good h \<Longrightarrow> kv_ok b (Some (ok, p, c, h))"
  by (simp add: kv_ok_def)

lemma kv_field_ok:
  assumes r: "reads_ok b p (read b p)" and b: "buf_ok b" "ptr_ok b p" and h: "heap_good h"
  shows "kv_ok b (kv_field read upd b p c h)"
  by (rule reads_okE [OF r b]) (use h in \<open>auto simp: kv_field_def kv_ok_def split: option.splits\<close>)

lemma kv_double_ok:
  assumes b: "buf_ok b" "ptr_ok b p" and h: "heap_good h"
  shows "kv_ok b (kv_double upd b p c h)"
  by (rule reads_okE [OF reads_f64 [OF b] b]) (use h in \<open>auto simp: kv_double_def kv_ok_def split: option.splits\<close>)

lemma kv_alignment_ok:
  assumes b: "buf_ok b" "ptr_ok b p" and h: "heap_good h"
  shows "kv_ok b (kv_alignment b p c h)"
  by (rule reads_okE [OF reads_u32 [OF b] b]) (use h in \<open>auto simp: kv_alignment_def kv_ok_def Let_def split: option.splits\<close>)

lemma kv_skip_ok:
  assumes b: "buf_ok b" "ptr_ok b p" and h: "heap_good h"
  shows "kv_ok b (kv_skip ty b p c h)"
  using skip_value_ok [OF b, of ty] skips_ptr [OF b] h by (auto simp: kv_skip_def skips_ok_def kv_ok_def)

lemma kv_array_ok:
  assumes b: "buf_ok b" "ptr_ok b p" and h: "heap_good h"
    and act: "\<And>ty len p2. ptr_ok b p2 \<Longrightarrow> p2 \<le> b_end b \<Longrightarrow> kv_ok b (act ty len p2)"
  shows "kv_ok b (kv_array act b p c h)"
proof (rule reads_okE [OF reads_u32 [OF b] b])
  fix at p1
  assume r: "safe_read_u32 b p = Some (at, p1)" "p \<le> p1" "ptr_ok b p1" "p1 = p \<or> p1 \<le> b_end b"
    "at \<noteq> None \<Longrightarrow> p < p1 \<and> p1 \<le> b_end b"
  show ?thesis
  proof (rule reads_okE [OF reads_u64 [OF b(1) r(3)] b(1) r(3)])
    fix al p2
    assume q: "safe_read_u64 b p1 = Some (al, p2)" "p1 \<le> p2" "ptr_ok b p2" "p2 = p1 \<or> p2 \<le> b_end b"
      "al \<noteq> None \<Longrightarrow> p1 < p2 \<and> p2 \<le> b_end b"
    with r h act [of p2] show ?thesis by (auto simp: kv_array_def kv_okI split: option.splits)
  qed
qed

lemma peek_inside:
  assumes "b_start b \<le> p" "p + n \<le> b_start b + length (b_bytes b)"
  shows "peek b p n = Some (take n (drop (p - b_start b) (b_bytes b)))"
  using assms by (auto simp: peek_def)

lemma load_token_texts_ok:
  assumes b: "buf_ok b"
  shows "ptr_ok b p \<Longrightarrow> heap_good h \<Longrightarrow>
    \<exists>p' c' h'. load_token_texts b n i p c h = Some (p', c', h') \<and> ptr_ok b p' \<and> heap_good h'"
proof (induction n arbitrary: i p c h)
  case (Suc n)
  note add = ptr_add [OF b Suc.prems(1), of 8]
  show ?case
  proof (cases "p + 8 \<le> b_end b")
    case True
    then obtain d where d: "peek b p 8 = Some d"
      using peek_inside [of b p 8] Suc.prems(1) b by (auto simp: ptr_ok_def)
    have p1: "ptr_ok b (p + 8)" using True b Suc.prems(1) by (auto simp: ptr_ok_def)
    note add1 = ptr_add [OF b p1, of "le_nat d"]
    show ?thesis
    proof (cases "le_nat d \<le> 1024 \<and> p + 8 + le_nat d \<le> b_end b")
      case len: True
      obtain q h1 where a: "heap_alloc (le_nat d + 1) h = Some (q, h1)" "heap_good h1"
        using heap_alloc_good [OF Suc.prems(2), of "le_nat d + 1"] len by auto
      have t: "\<exists>t. (if q = None then Some [] else peek b (p + 8) (le_nat d)) = Some t"
        using peek_inside [of b "p + 8" "le_nat d"] len Suc.prems(1) b by (auto simp: ptr_ok_def)
      have "ptr_ok b (p + 8 + le_nat d)" using len b Suc.prems(1) by (auto simp: ptr_ok_def)
      from t Suc.IH [OF this a(2)] True d len a(1) add add1 show ?thesis by auto
    next
      case False
      with True d add add1 Suc.IH [OF p1 Suc.prems(2)] show ?thesis
        by (cases "le_nat d \<le> 1024") auto
    qed
  next
    case False
    with add Suc.prems show ?thesis by simp
  qed
qed simp

lemma kv_tokens_ok:
  assumes b: "buf_ok b" "ptr_ok b p" and h: "heap_good h"
  shows "kv_ok b (kv_tokens b p c h)"
  unfolding kv_tokens_def
proof (rule kv_array_ok [OF b h])
  fix ty len p2
  assume p2: "ptr_ok b p2" "p2 \<le> b_end b"
  let ?n = "min len GGUF_MAX_VOCAB_SIZE"
  have "?n * VOCAB_TOKEN_SIZE + 15 < SIZE_MOD" by (simp add: min_def)
  from heap_alloc_good [OF h this] obtain q h1 where a: "heap_alloc (?n * VOCAB_TOKEN_SIZE) h = Some (q, h1)" "heap_good h1"
    by blast
  show "kv_ok b (token_array b c h ty len p2)"
  proof (cases "ty = GGUF_TYPE_STRING")
    case False
    with skip_regardless_ok [OF b(1) p2(1), of ty len] skips_ptr [OF b(1) p2(1)] h show ?thesis
      by (auto simp: token_array_def kv_ok_def)
  next
    case True
    from skip_strings_ok [OF b(1) p2(1), of ?n] skips_ptr [OF b(1) p2(1)] obtain p3 where
      "skip_strings b ?n p2 = Some p3" "ptr_ok b p3" by auto
    moreover obtain p' c' h' where
      "load_token_texts b ?n 0 p2 ((upd_arch (\<lambda>x. x\<lparr>arch_vocab_size := of_nat ?n\<rparr>) c)\<lparr>g_vocab_count := of_nat ?n,
        g_vocab := q, vocab_texts := \<lambda>_. None\<rparr>) h1 = Some (p', c', h')" "ptr_ok b p'" "heap_good h'"
      using load_token_texts_ok [OF b(1) p2(1) a(2)] by blast
    ultimately show ?thesis using True a by (cases q) (auto simp: token_array_def Let_def kv_ok_def)
  qed
qed

lemma kv_scores_ok:
  assumes b: "buf_ok b" "ptr_ok b p" and h: "heap_good h"
  shows "kv_ok b (kv_scores b p c h)"
  unfolding kv_scores_def
proof (rule kv_array_ok [OF b h])
  fix ty len p2
  assume p2: "ptr_ok b p2" "p2 \<le> b_end b"
  from p2 b(1) have "len \<le> GGUF_MAX_VOCAB_SIZE \<Longrightarrow> add64 p2 (len * 4) = p2 + len * 4 \<and> ptr_ok b (p2 + len * 4)"
    using ptr_add [OF b(1) p2(1), of "len * 4"] by (auto simp: ptr_ok_def)
  with skip_regardless_ok [OF b(1) p2(1), of ty len] skips_ptr [OF b(1) p2(1)] h
  show "kv_ok b (if ty = GGUF_TYPE_FLOAT32 \<and> len \<le> GGUF_MAX_VOCAB_SIZE then Some (True, add64 p2 (len * 4), c, h)
     else do { p3 \<leftarrow> skip_regardless b ty len p2; Some (True, p3, c, h) })"
    by (auto simp: kv_ok_def)
qed

lemma kv_token_types_ok:
  assumes b: "buf_ok b" "ptr_ok b p" and h: "heap_good h"
  shows "kv_ok b (kv_token_types b p c h)"
  unfolding kv_token_types_def
proof (rule kv_array_ok [OF b h])
  fix ty len p2
  assume p2: "ptr_ok b p2" "p2 \<le> b_end b"
  from p2 b(1) have "len \<le> GGUF_MAX_VOCAB_SIZE \<Longrightarrow> add64 p2 (len * 4) = p2 + len * 4 \<and> ptr_ok b (p2 + len * 4)"
    using ptr_add [OF b(1) p2(1), of "len * 4"] by (auto simp: ptr_ok_def)
  with kv_skip_ok [OF b(1) p2(1) h] h
  show "kv_ok b (if ty = GGUF_TYPE_INT32 \<and> len \<le> GGUF_MAX_VOCAB_SIZE then Some (True, add64 p2 (len * 4), c, h)
     else kv_skip GGUF_TYPE_ARRAY b p2 c h)"
    by (auto simp: kv_okI)
qed

lemmas kv_oks = kv_double_ok kv_alignment_ok kv_tokens_ok kv_scores_ok kv_token_types_ok kv_skip_ok

lemma kv_u32_ok: "buf_ok b \<Longrightarrow> ptr_ok b p \<Longrightarrow> heap_good h \<Longrightarrow> kv_ok b (kv_field safe_read_u32 upd b p c h)"
  by (rule kv_field_ok [OF reads_u32])

lemma kv_f32_ok: "buf_ok b \<Longrightarrow> ptr_ok b p \<Longrightarrow> heap_good h \<Longrightarrow> kv_ok b (kv_field safe_read_f32 upd b p c h)"
  by (rule kv_field_ok [OF reads_f32])

lemma kv_string_ok: "buf_ok b \<Longrightarrow> ptr_ok b p \<Longrightarrow> heap_good h \<Longrightarrow> kv_ok b (kv_string out upd b p c h)"
  unfolding kv_string_def by (rule kv_field_ok [OF reads_string])

lemma arch_field_ok:
  assumes "arch_field key ty = Some f" "buf_ok b" "ptr_ok b p" "heap_good h"
  shows "kv_ok b (f b p c h)"
  using assms(1) kv_u32_ok [OF assms(2-4)] kv_f32_ok [OF assms(2-4)] kv_double_ok [OF assms(2-4)]
  unfolding arch_field_def by (auto split: if_splits)

lemma prefixed_field_ok:
  assumes "prefixed_field ps key ty = Some f" "buf_ok b" "ptr_ok b p" "heap_good h"
  shows "kv_ok b (f b p c h)"
  using assms(1) arch_field_ok [OF _ assms(2-4)]
  by (induction ps) (auto split: if_splits option.splits)

lemma kv_if_ok:
  "kv_ok b (f b p c h) \<Longrightarrow> kv_ok b (g b p c h) \<Longrightarrow> kv_ok b ((if P then f else g) b p c h)"
  by simp

lemma kv_value_ok:
  assumes b: "buf_ok b" "ptr_ok b p" and h: "heap_good h"
  shows "kv_ok b (kv_value key ty b p c h)"
proof (cases "prefixed_field arch_prefixes key ty")
  case None
  show ?thesis
    unfolding kv_value_def None option.case
    by (intro kv_if_ok kv_u32_ok kv_string_ok kv_oks b h)
next
  case (Some f)
  show ?thesis
    unfolding kv_value_def Some option.case
    by (intro kv_if_ok kv_u32_ok kv_string_ok kv_oks prefixed_field_ok [OF Some] b h)
qed

lemma kv_pair_ok:
  assumes b: "buf_ok b" "ptr_ok b p" and h: "heap_good h"
  shows "kv_ok b (gguf_parse_kv_pair b p c h)"
proof (rule reads_okE [OF reads_string [OF b, of GGUF_MAX_KEY_LEN] b])
  fix key p1
  assume r: "safe_read_string b GGUF_MAX_KEY_LEN p = Some (key, p1)" "ptr_ok b p1"
  show ?thesis
  proof (rule reads_okE [OF reads_u32 [OF b(1) r(2)] b(1) r(2)])
    fix ty p2
    assume q: "safe_read_u32 b p1 = Some (ty, p2)" "ptr_ok b p2"
    with r h kv_value_ok [OF b(1) q(2) h] show ?thesis
      by (auto simp: gguf_parse_kv_pair_def kv_okI split: option.split)
  qed
qed

lemma kv_pairs_ok:
  assumes b: "buf_ok b"
  shows "ptr_ok b p \<Longrightarrow> heap_good h \<Longrightarrow> kv_ok b (parse_kv_pairs b n p c h)"
proof (induction n arbitrary: p c h)
  case (Suc n)
  from kv_pair_ok [OF b Suc.prems, of c] obtain ok p1 c1 h1 where
    "gguf_parse_kv_pair b p c h = Some (ok, p1, c1, h1)" "ptr_ok b p1" "heap_good h1" by (auto simp: kv_ok_def)
  with Suc.IH [of p1 h1 c1] show ?case by (simp add: kv_okI)
qed (simp add: kv_okI)

lemma header_ok:
  assumes b: "buf_ok b"
  shows "\<exists>ok c'. gguf_parse_header b c = Some (ok, c') \<and> (ok \<longrightarrow> ptr_ok b (kv_start c') \<and> g_alignment c' = 32)"
proof (cases "length (b_bytes b) < 16")
  case False
  have add: "add64 (b_start b) n = b_start b + n" if "n \<le> 24" for n
    using ptr_add [OF b, of "b_start b" n] that by (simp add: ptr_ok_def)
  have pk: "\<exists>d. peek b (b_start b + n) m = Some d" if "n + m \<le> length (b_bytes b)" for n m
    using peek_inside [of b "b_start b + n" m] that by simp
  from pk [of 0 4] pk [of 4 4] pk [of 8 4] pk [of 12 4] False obtain d0 d1 d2 d3 where
    d: "peek b (b_start b) 4 = Some d0" "peek b (b_start b + 4) 4 = Some d1"
      "peek b (b_start b + 8) 4 = Some d2" "peek b (b_start b + 12) 4 = Some d3" by auto
  have "24 \<le> length (b_bytes b) \<Longrightarrow> \<exists>e0 e1. peek b (b_start b + 8) 8 = Some e0 \<and> peek b (b_start b + 16) 8 = Some e1"
    using pk [of 8 8] pk [of 16 8] by auto
  with False d show ?thesis
    by (cases "24 \<le> length (b_bytes b)") (auto simp: gguf_parse_header_def add Let_def ptr_ok_def)
qed (auto simp: gguf_parse_header_def)

lemma metadata_ok:
  assumes b: "buf_ok b" and p: "ptr_ok b (kv_start c)" and h: "heap_good h"
  shows "\<exists>ok c' h'. gguf_parse_metadata b c h = Some (ok, c', h') \<and> heap_good h' \<and> (ok \<longrightarrow> ptr_ok b (tensor_info_start c'))"
proof -
  obtain ok p' c1 h1 where "parse_kv_pairs b (g_n_kv c) (kv_start c) (c\<lparr>g_arch := zero_arch
      \<lparr>attention_layer_norm_rms_epsilon := 0x3727c5ac, rope_freq_base := 0x461c4000\<rparr>\<rparr>) h = Some (ok, p', c1, h1)"
    "ptr_ok b p'" "heap_good h1"
    using kv_pairs_ok [OF b p h] unfolding kv_ok_def by blast
  then show ?thesis by (auto simp: gguf_parse_metadata_def)
qed

section \<open>The tensor table\<close>

text \<open>No eight bytes of the file are a number so large that adding it to an address wraps.\<close>

definition no_huge :: "gbuf \<Rightarrow> bool" where
  "no_huge b \<longleftrightarrow> (\<forall>i < length (b_bytes b). i + 8 \<le> length (b_bytes b) \<longrightarrow>
     b_start b + length (b_bytes b) + le_nat (take 8 (drop i (b_bytes b))) < SIZE_MOD)"

lemma read_u64_no_huge:
  assumes b: "buf_ok b" "no_huge b" and p: "ptr_ok b p" and r: "safe_read_u64 b p = Some (Some n, p1)"
  shows "add64 p1 n = p1 + n" "p1 \<le> b_end b" "p < p1" "ptr_ok b p1"
proof -
  have e: "p + 8 \<le> b_end b" and n: "n = le_nat (take 8 (drop (p - b_start b) (b_bytes b)))" and p1: "p1 = p + 8"
    using r safe_read_eq [OF b(1) p, of 8] by (auto simp: safe_read_u64_def split: if_splits)
  have "b_start b \<le> p" using p by (simp add: ptr_ok_def)
  with e b have "b_start b + length (b_bytes b) + n < SIZE_MOD"
    unfolding n no_huge_def by (auto dest!: spec [of _ "p - b_start b"])
  with e p1 b(1) show "add64 p1 n = p1 + n" by (simp add: add64_def)
  show "p1 \<le> b_end b" "p < p1" "ptr_ok b p1" using e p1 b(1) p by (auto simp: ptr_ok_def)
qed

lemma read_dims_ok:
  assumes b: "buf_ok b"
  shows "ptr_ok b p \<Longrightarrow> \<exists>r p'. read_dims b n p ds = Some (r, p') \<and> ptr_ok b p'"
proof (induction n arbitrary: p ds)
  case (Suc n)
  show ?case
    by (rule reads_okE [OF reads_u64 [OF b Suc.prems] b Suc.prems]) (use Suc.IH in \<open>auto split: option.split\<close>)
qed simp

lemma parse_tensor_ok:
  assumes b: "buf_ok b" "no_huge b" and p: "ptr_ok b p"
  shows "\<exists>t p'. parse_tensor b st p = Some (t, p') \<and> ptr_ok b p'"
proof (rule reads_okE [OF reads_u64 [OF b(1) p] b(1) p])
  fix len p1
  assume r: "safe_read_u64 b p = Some (len, p1)" "ptr_ok b p1"
  show ?thesis
  proof (cases "\<exists>n. len = Some n \<and> p1 + n \<le> b_end b")
    case False
    with r read_u64_no_huge(1) [OF b p] show ?thesis by (cases len) (auto simp: parse_tensor_def)
  next
    case True
    then obtain n where n: "len = Some n" "p1 + n \<le> b_end b" by blast
    with r read_u64_no_huge(1) [OF b p] have add: "add64 p1 n = p1 + n" by simp
    have p2: "ptr_ok b (p1 + n)" using n(2) r(2) b(1) by (auto simp: ptr_ok_def)
    have nm: "\<exists>name. (if st then peek b p1 (min n (GGUF_MAX_TENSOR_NAME - 1)) else Some []) = Some name"
      using peek_inside [of b p1 "min n (GGUF_MAX_TENSOR_NAME - 1)"] n(2) r(2) b(1) by (auto simp: ptr_ok_def)
    show ?thesis
    proof (rule reads_okE [OF reads_u32 [OF b(1) p2] b(1) p2])
      fix nd p3
      assume q: "safe_read_u32 b (p1 + n) = Some (nd, p3)" "ptr_ok b p3"
      obtain dims p4 where dims: "read_dims b (unat (the nd)) p3 [] = Some (dims, p4)" "ptr_ok b p4"
        using read_dims_ok [OF b(1) q(2)] by blast
      note a4 = ptr_add [OF b(1) dims(2), of 12] ptr_add [OF b(1) dims(2), of 4]
      have tail: "p4 + 12 \<le> b_end b \<Longrightarrow> \<exists>ty off. peek b p4 4 = Some ty \<and> peek b (p4 + 4) 8 = Some off"
        using peek_inside [of b p4 4] peek_inside [of b "p4 + 4" 8] dims(2) b(1) by (auto simp: ptr_ok_def)
      have p5: "p4 + 12 \<le> b_end b \<Longrightarrow> ptr_ok b (p4 + 12)" using dims(2) b(1) by (auto simp: ptr_ok_def)
      show ?thesis
        using r n add nm q dims a4 tail p5 by (cases nd; cases dims; cases "p4 + 12 \<le> b_end b") (auto simp: parse_tensor_def Let_def)
    qed
  qed
qed

lemma parse_tensors_ok:
  assumes b: "buf_ok b" "no_huge b"
  shows "ptr_ok b p \<Longrightarrow> \<exists>ok p' ts'. parse_tensors b n i p ts = Some (ok, p', ts')"
proof (induction n arbitrary: i p ts)
  case (Suc n)
  from parse_tensor_ok [OF b Suc.prems] obtain t p' where
    t: "parse_tensor b (i < length ts) p = Some (t, p')" "ptr_ok b p'" by blast
  show ?case
  proof (cases t)
    case None
    with t show ?thesis by auto
  next
    case (Some x)
    from Suc.IH [OF t(2), of "i + 1" "ts[i := x]"] t Some show ?thesis by auto
  qed
qed auto

lemma tensor_info_ok:
  assumes b: "buf_ok b" "no_huge b" and p: "ptr_ok b (tensor_info_start c)" and h: "heap_good h"
  shows "\<exists>r. gguf_parse_tensor_info b c h = Some r"
proof -
  let ?n = "min (g_n_tensors c) GGUF_MAX_STORED_TENSORS"
  have "?n * TENSOR_INFO_SIZE + 15 < SIZE_MOD" by (simp add: min_def)
  from heap_alloc_good [OF h this] obtain q h1 where "heap_alloc (?n * TENSOR_INFO_SIZE) h = Some (q, h1)" by blast
  moreover obtain ok p' ts where "parse_tensors b (g_n_tensors c) 0 (tensor_info_start c) (replicate ?n zero_tensor) = Some (ok, p', ts)"
    using parse_tensors_ok [OF b p] by blast
  ultimately show ?thesis by (auto simp: gguf_parse_tensor_info_def Let_def split: option.split)
qed

lemma load_ok:
  assumes b: "buf_ok b" "no_huge b" and h: "heap_good h"
  shows "\<exists>r. gguf_parser_load b h = Some r"
proof -
  obtain ok c where c: "gguf_parse_header b zero_ctx = Some (ok, c)" "ok \<Longrightarrow> ptr_ok b (kv_start c)"
    using header_ok [OF b(1)] by blast
  show ?thesis
  proof (cases ok)
    case False
    with c show ?thesis by (simp add: gguf_parser_load_def del: split_paired_Ex)
  next
    case ok: True
    obtain ok1 c1 h1 where m: "gguf_parse_metadata b c h = Some (ok1, c1, h1)" "heap_good h1" "ok1 \<Longrightarrow> ptr_ok b (tensor_info_start c1)"
      using metadata_ok [OF b(1) c(2) [OF ok] h] by blast
    show ?thesis
    proof (cases ok1)
      case False
      with ok c m show ?thesis by (simp add: gguf_parser_load_def del: split_paired_Ex)
    next
      case True
      from tensor_info_ok [OF b m(3) [OF True] m(2)] obtain ok2 c2 h2 where
        "gguf_parse_tensor_info b c1 h1 = Some (ok2, c2, h2)" by auto
      with True ok c m show ?thesis by (simp add: gguf_parser_load_def split: prod.split del: split_paired_Ex)
    qed
  qed
qed

text \<open>
  The 32 bytes of a version 3 file without metadata and with one tensor, whose name is said to be
  \<open>2 ^ 64 - 1\<close> bytes long.
\<close>

definition hostile_file :: "u8 list" where
  "hostile_file = [0x47, 0x47, 0x55, 0x46, 3, 0, 0, 0, 1, 0, 0, 0, 0, 0, 0, 0, 0, 0, 0, 0, 0, 0, 0, 0,
     0xFF, 0xFF, 0xFF, 0xFF, 0xFF, 0xFF, 0xFF, 0xFF]"

lemma hostile_header:
  assumes "buf_ok b" "b_bytes b = hostile_file"
  shows "\<exists>c. gguf_parse_header b zero_ctx = Some (True, c) \<and> g_n_tensors c = 1 \<and> g_n_kv c = 0 \<and> kv_start c = b_start b + 24"
proof -
  have add: "add64 (b_start b) n = b_start b + n" if "n \<le> 24" for n
    using ptr_add [OF assms(1), of "b_start b" n] that by (simp add: ptr_ok_def)
  have pk: "peek b (b_start b + n) m = Some (take m (drop n hostile_file))" if "n + m \<le> 32" for n m
    using peek_inside [of b "b_start b + n" m] that assms(2) by (simp add: hostile_file_def)
  show ?thesis
    using pk [of 0 4] assms(2)
    by (simp add: gguf_parse_header_def add pk Let_def) (simp add: hostile_file_def)
qed

lemma hostile_tensor:
  assumes b: "buf_ok b" "b_bytes b = hostile_file"
  shows "parse_tensor b True (b_start b + 24) = None"
proof -
  let ?p = "b_start b + 24"
  have p: "ptr_ok b ?p" "b_end b = b_start b + 32" using b by (simp_all add: ptr_ok_def hostile_file_def)
  have r: "safe_read_u64 b ?p = Some (Some (2 ^ 64 - 1), b_start b + 32)"
    using safe_read_eq [OF b(1) p(1), of 8] p(2) b(2) by (simp add: safe_read_u64_def hostile_file_def)
  have a: "add64 (b_start b + 32) (2 ^ 64 - 1) = b_start b + 31"
  proof -
    have "b_start b + 32 + (2 ^ 64 - 1) = SIZE_MOD + (b_start b + 31)" "b_start b + 31 < SIZE_MOD"
      using b(1) by (simp_all add: buf_ok_def)
    then show ?thesis unfolding add64_def by (simp only: mod_add_self1 mod_less)
  qed
  have "peek b (b_start b + 32) 127 = None"
    using b(2) by (simp add: peek_def hostile_file_def)
  with r a p(2) show ?thesis by (simp add: parse_tensor_def)
qed

lemma le_nat_small: "\<forall>x \<in> set d. unat x \<le> 127 \<Longrightarrow> 2 * le_nat d < 256 ^ length d"
  by (induction d) auto

section \<open>Properties\<close>

text \<open>
  C9. Loading a file, whatever its bytes, ends and reads no byte outside the buffer, provided no
  eight bytes of the file make a number that wraps when it is added to an address. Header and
  metadata need no such condition.
\<close>

theorem gguf_load_safe:
  assumes "buf_ok b" "heap_ok h L"
  shows "(\<exists>ok c. gguf_parse_header b zero_ctx = Some (ok, c) \<and>
      (ok \<longrightarrow> (\<exists>r. gguf_parse_metadata b c h = Some r)))
    \<and> (no_huge b \<longrightarrow> (\<exists>r. gguf_parser_load b h = Some r))"
proof -
  have h: "heap_good h" using assms(2) by (auto simp: heap_good_def)
  obtain ok c where c: "gguf_parse_header b zero_ctx = Some (ok, c)" "ok \<Longrightarrow> ptr_ok b (kv_start c)"
    using header_ok [OF assms(1)] by blast
  moreover have "ok \<Longrightarrow> \<exists>r. gguf_parse_metadata b c h = Some r"
    using metadata_ok [OF assms(1) c(2) h] by blast
  ultimately show ?thesis using load_ok [OF assms(1) _ h] by blast
qed

theorem gguf_load_safe_witness:
  "\<exists>r. gguf_parser_load \<lparr>b_start = 0x1000, b_bytes = take 24 hostile_file\<rparr> demo_heap = Some r"
proof -
  let ?b = "\<lparr>b_start = 0x1000, b_bytes = take 24 hostile_file\<rparr>"
  have "buf_ok ?b" by (simp add: buf_ok_def hostile_file_def)
  moreover have "no_huge ?b"
  proof -
    have small: "\<forall>x \<in> set (take 24 hostile_file). unat x \<le> 127" by (simp add: hostile_file_def)
    have "le_nat (take 8 (drop i (take 24 hostile_file))) < 2 ^ 63" for i
    proof -
      let ?d = "take 8 (drop i (take 24 hostile_file))"
      have "\<forall>x \<in> set ?d. unat x \<le> 127" using small by (meson in_set_dropD in_set_takeD)
      from le_nat_small [OF this] have "2 * le_nat ?d < 256 ^ length ?d" .
      also have "\<dots> \<le> (256 :: nat) ^ 8" by (rule power_increasing) simp_all
      finally show ?thesis by simp
    qed
    then have "4120 + le_nat (take 8 (drop i (take 24 hostile_file))) < SIZE_MOD" for i
      by (rule less_le_trans [OF add_strict_left_mono]) simp
    moreover have "length (take 24 hostile_file) = 24" by (simp add: hostile_file_def)
    ultimately show ?thesis unfolding no_huge_def by simp
  qed
  ultimately show ?thesis
    using gguf_load_safe [of ?b demo_heap "[(992, False)]"] demo_heap_ok by blast
qed

text \<open>
  C18. A name length near \<open>2 ^ 64\<close> passes the check of the parser, because the pointer wraps before
  it is compared, and the name is read from behind the buffer.
\<close>

theorem gguf_name_length_wraps:
  assumes "buf_ok b" "b_bytes b = hostile_file" "heap_ok h (M @ [(m, False)])" "\<forall>x \<in> set M. snd x" "320 \<le> m"
  shows "gguf_parser_load b h = None"
proof -
  obtain c where c: "gguf_parse_header b zero_ctx = Some (True, c)" "g_n_tensors c = 1" "g_n_kv c = 0" "kv_start c = b_start b + 24"
    using hostile_header [OF assms(1,2)] by blast
  obtain p h1 where a: "heap_alloc TENSOR_INFO_SIZE h = Some (Some p, h1)"
    using heap_alloc_tail [OF assms(3,4), of TENSOR_INFO_SIZE] assms(5) by auto
  have "gguf_parse_metadata b c h = Some (True, c\<lparr>g_arch := zero_arch\<lparr>attention_layer_norm_rms_epsilon := 0x3727c5ac,
      rope_freq_base := 0x461c4000\<rparr>, tensor_info_start := b_start b + 24\<rparr>, h)"
    using c by (simp add: gguf_parse_metadata_def Let_def)
  then show ?thesis
    using c a hostile_tensor [OF assms(1,2)] by (simp add: gguf_parser_load_def gguf_parse_tensor_info_def Let_def)
qed

theorem gguf_name_length_wraps_witness:
  "\<exists>h. gguf_parser_load \<lparr>b_start = 0x1000, b_bytes = hostile_file\<rparr> h = None"
proof -
  have "heap_ok demo_heap ([] @ [(992, False)])" using demo_heap_ok by simp
  from gguf_name_length_wraps [OF _ _ this, of "\<lparr>b_start = 0x1000, b_bytes = hostile_file\<rparr>"] show ?thesis
    by (auto simp: buf_ok_def hostile_file_def)
qed

end
