(* ===== verification/GgufFile.thy ===== *)
theory GgufFile
  imports GgufFlow
begin

text \<open>
  Model files as byte strings, and what the parser of \<open>Gguf\<close> makes of them: an encoder for metadata
  entries and tensor descriptions, and the lemmas that each part is read back as what was encoded.
\<close>

section \<open>Files\<close>

fun le_bytes :: "nat \<Rightarrow> nat \<Rightarrow> u8 list" where
  "le_bytes 0 v = []"
| "le_bytes (Suc n) v = of_nat v # le_bytes n (v div 256)"

lemma length_le_bytes [simp]: "length (le_bytes n v) = n"
  by (induction n arbitrary: v) auto

lemma le_nat_le_bytes: "le_nat (le_bytes n v) = v mod 256 ^ n"
proof (induction n arbitrary: v)
  case (Suc n)
  have "v mod (256 * 256 ^ n) = 256 * (v div 256 mod 256 ^ n) + v mod 256" by (rule mod_mult2_eq)
  with Suc show ?case by (simp add: unat_of_nat)
qed simp

text \<open>The bytes \<open>d\<close> stand at \<open>p\<close>.\<close>

definition has_bytes :: "gbuf \<Rightarrow> nat \<Rightarrow> u8 list \<Rightarrow> bool" where
  "has_bytes b p d \<longleftrightarrow> b_start b \<le> p \<and> p + length d \<le> b_start b + length (b_bytes b)
     \<and> take (length d) (drop (p - b_start b) (b_bytes b)) = d"

lemma has_bytes_append:
  "has_bytes b p (d @ e) \<longleftrightarrow> has_bytes b p d \<and> has_bytes b (p + length d) e"
proof (cases "b_start b \<le> p \<and> p + length d + length e \<le> b_start b + length (b_bytes b)")
  case True
  let ?x = "drop (p - b_start b) (b_bytes b)"
  have "length d \<le> length (b_bytes b) - (p - b_start b)" using True by linarith
  then have "length (take (length d) ?x) = length d" by simp
  then have "take (length d + length e) ?x = d @ e \<longleftrightarrow> take (length d) ?x = d \<and> take (length e) (drop (length d) ?x) = e"
    unfolding take_add by (rule append_eq_append_conv [OF disjI1])
  moreover have "drop (length d) ?x = drop (p + length d - b_start b) (b_bytes b)"
    using True by (simp add: add.commute)
  ultimately show ?thesis using True by (simp add: has_bytes_def add.assoc)
qed (auto simp: has_bytes_def)

lemma has_bytes_ptr: "has_bytes b p d \<Longrightarrow> ptr_ok b p \<and> ptr_ok b (p + length d)"
  by (simp add: has_bytes_def ptr_ok_def)

lemma peek_has_bytes: "has_bytes b p d \<Longrightarrow> n \<le> length d \<Longrightarrow> peek b p n = Some (take n d)"
proof -
  assume d: "has_bytes b p d" and n: "n \<le> length d"
  then have "take n d = take n (drop (p - b_start b) (b_bytes b))"
    unfolding has_bytes_def by (metis min.absorb1 take_take)
  with peek_inside [of b p n] d n show "peek b p n = Some (take n d)" by (simp add: has_bytes_def)
qed

lemma safe_read_bytes:
  assumes "buf_ok b" "has_bytes b p d" "length d \<le> 8"
  shows "safe_read (length d) b p = Some (Some d, p + length d)"
  using safe_read_eq [OF assms(1) conjunct1 [OF has_bytes_ptr [OF assms(2)]] assms(3)] assms(1,2)
  by (simp add: has_bytes_def)

lemma read_u32_bytes:
  assumes "buf_ok b" "has_bytes b p (le_bytes 4 (unat v))"
  shows "safe_read_u32 b p = Some (Some v, p + 4)"
proof -
  have "unat v < 256 ^ 4" using unsigned_less_nat [of v] by simp
  with safe_read_bytes [OF assms] show ?thesis by (simp add: safe_read_u32_def le_nat_le_bytes)
qed

lemma read_u64_bytes:
  assumes "buf_ok b" "has_bytes b p (le_bytes 8 n)" "n < SIZE_MOD"
  shows "safe_read_u64 b p = Some (Some n, p + 8)"
  using safe_read_bytes [OF assms(1,2)] assms(3) by (simp add: safe_read_u64_def le_nat_le_bytes)

definition enc_string :: "u8 list \<Rightarrow> u8 list" where
  "enc_string s = le_bytes 8 (length s) @ s"

lemma length_enc_string [simp]: "length (enc_string s) = 8 + length s"
  by (simp add: enc_string_def)

lemma read_string_bytes:
  assumes b: "buf_ok b" "has_bytes b p (enc_string s)" and s: "length s \<le> GGUF_MAX_STRING_LEN"
  shows "safe_read_string b out p = Some (Some (take (if out = 0 then 0 else out - 1) s), p + length (enc_string s))"
proof -
  have l: "has_bytes b p (le_bytes 8 (length s))" and d: "has_bytes b (p + 8) s"
    using b(2) by (auto simp: enc_string_def has_bytes_append)
  have "p + 8 + length s \<le> b_end b" using d b(1) by (simp add: has_bytes_def)
  moreover have "add64 (p + 8) (length s) = p + 8 + length s"
    using ptr_add [OF b(1) conjunct1 [OF has_bytes_ptr [OF d]]] s by simp
  moreover have "peek b (p + 8) (if out = 0 then 0 else min (length s) (out - 1)) = Some (take (if out = 0 then 0 else out - 1) s)"
    using peek_has_bytes [OF d, of "if out = 0 then 0 else min (length s) (out - 1)"] by (auto simp: min_def)
  ultimately show ?thesis
    using read_u64_bytes [OF b(1) l] s by (simp add: safe_read_string_def)
qed

section \<open>Values of any type are skipped\<close>

datatype gval =
    GScalar u32 "u8 list"
  | GString "u8 list"
  | GArray u32 "gval list"

fun gval_type :: "gval \<Rightarrow> u32" where
  "gval_type (GScalar ty d) = ty"
| "gval_type (GString s) = GGUF_TYPE_STRING"
| "gval_type (GArray ty vs) = GGUF_TYPE_ARRAY"

fun enc_val :: "gval \<Rightarrow> u8 list" where
  "enc_val (GScalar ty d) = d"
| "enc_val (GString s) = enc_string s"
| "enc_val (GArray ty vs) = le_bytes 4 (unat ty) @ le_bytes 8 (length vs) @ concat (map enc_val vs)"

fun gval_ok :: "gval \<Rightarrow> bool" where
  "gval_ok (GScalar ty d) \<longleftrightarrow> scalar_width ty = Some (length d)"
| "gval_ok (GString s) \<longleftrightarrow> length s \<le> GGUF_MAX_STRING_LEN"
| "gval_ok (GArray ty vs) \<longleftrightarrow> length vs \<le> GGUF_MAX_ARRAY_LEN \<and> (\<forall>v \<in> set vs. gval_ok v \<and> gval_type v = ty)"

lemma skip_one_enc:
  assumes b: "buf_ok b" and v: "gval_ok v" "has_bytes b p (enc_val v)"
    and arr: "\<And>ty vs p. v = GArray ty vs \<Longrightarrow> has_bytes b p (concat (map enc_val vs)) \<Longrightarrow>
      skip_values b ty (length vs) p = Some (True, p + length (concat (map enc_val vs)))"
  shows "skip_one b (gval_type v) p = Some (True, p + length (enc_val v))"
proof (cases v)
  case (GScalar ty d)
  with v b skip_scalar_cases [OF b conjunct1 [OF has_bytes_ptr [OF v(2)]], of ty "length d"] show ?thesis
    by (auto simp: skip_one_def has_bytes_def)
next
  case (GString s)
  with v read_string_bytes [OF b, of p s 0] show ?thesis
    by (simp add: skip_one_def scalar_width_def)
next
  case (GArray ty vs)
  with v(2) have "has_bytes b p (le_bytes 4 (unat ty))" "has_bytes b (p + 4) (le_bytes 8 (length vs))"
    "has_bytes b (p + 12) (concat (map enc_val vs))" by (auto simp: has_bytes_append add.assoc)
  note r = read_u32_bytes [OF b this(1)] read_u64_bytes [OF b this(2)] arr [OF GArray this(3)]
  have "length vs \<le> GGUF_MAX_ARRAY_LEN" using GArray v(1) by simp
  with r GArray show ?thesis
    by (simp add: skip_one_def scalar_width_def skip_array_def add.assoc)
qed

lemma skip_values_enc:
  assumes b: "buf_ok b"
  shows "gval_ok v \<Longrightarrow> has_bytes b p (enc_val v) \<Longrightarrow> skip_one b (gval_type v) p = Some (True, p + length (enc_val v))"
proof (induction v arbitrary: p)
  case (GArray ty vs)
  have "skip_values b ty (length us) q = Some (True, q + length (concat (map enc_val us)))"
    if "set us \<subseteq> set vs" "has_bytes b q (concat (map enc_val us))" for us q
    using that
  proof (induction us arbitrary: q)
    case (Cons u us)
    then have u: "u \<in> set vs" "has_bytes b q (enc_val u)" "has_bytes b (q + length (enc_val u)) (concat (map enc_val us))"
      by (auto simp: has_bytes_append)
    with GArray.prems(1) GArray.IH have "skip_one b ty q = Some (True, q + length (enc_val u))" by auto
    with Cons.IH u(3) Cons.prems(1) show ?case by (subst skip_values_unfold) (simp add: add.assoc)
  qed (simp add: skip_values_unfold)
  with skip_one_enc [OF b GArray.prems] show ?case by auto
qed (rule skip_one_enc [OF b]; simp)+

lemma skip_value_enc:
  "buf_ok b \<Longrightarrow> gval_ok v \<Longrightarrow> has_bytes b p (enc_val v) \<Longrightarrow>
    gguf_skip_value b (gval_type v) p = Some (True, p + length (enc_val v))"
  using skip_values_enc [of b v p] skip_values_unfold [of b "gval_type v" 1 p] skip_values_unfold [of b "gval_type v" 0]
  by (simp add: gguf_skip_value_def)

section \<open>Metadata of a file\<close>

definition bytes_of :: "string \<Rightarrow> u8 list" where
  "bytes_of k = map (\<lambda>c. of_nat (of_char c)) k"

definition key_ok :: "string \<Rightarrow> bool" where
  "key_ok k \<longleftrightarrow> length k < GGUF_MAX_KEY_LEN \<and> CHR 0x00 \<notin> set k"

lemma cstring_bytes_of:
  assumes "CHR 0x00 \<notin> set k"
  shows "cstring (bytes_of k) = k"
proof -
  have "(of_nat (of_char c) :: u8) \<noteq> 0" if "c \<in> set k" for c
  proof
    assume "(of_nat (of_char c) :: u8) = 0"
    then have "256 dvd (of_char c :: nat)" by (simp add: word_of_nat_eq_0_iff)
    moreover have "(of_char c :: nat) < 256" by simp
    ultimately have "(of_char c :: nat) = 0" using nat_dvd_not_less [of "of_char c" 256] by blast
    then have "of_char c = (of_char (CHR 0x00) :: nat)" by simp
    then have "c = CHR 0x00" by (simp only: of_char_eq_iff)
    with assms that show False by simp
  qed
  then have all: "takeWhile (\<lambda>x. x \<noteq> 0) (bytes_of k) = bytes_of k"
    by (auto simp: bytes_of_def takeWhile_eq_all_conv)
  have "char_of (unat (of_nat (of_char c) :: u8)) = c" for c :: char
    by (simp add: unat_of_nat)
  then show ?thesis unfolding cstring_def all by (simp add: bytes_of_def comp_def map_idI)
qed

text \<open>The parameters the parser knows, with the field each sets.\<close>

definition u32_table :: "(string \<times> (u32 \<Rightarrow> model_arch \<Rightarrow> model_arch)) list" where
  "u32_table =
     [(''general.file_type'', \<lambda>v a. a\<lparr>general_file_type := v\<rparr>),
      (''general.quantization_version'', \<lambda>v a. a\<lparr>general_quantization_version := v\<rparr>),
      (''llama.context_length'', \<lambda>v a. a\<lparr>context_length := v\<rparr>),
      (''llama.embedding_length'', \<lambda>v a. a\<lparr>embedding_length := v\<rparr>),
      (''llama.block_count'', \<lambda>v a. a\<lparr>block_count := v\<rparr>),
      (''llama.feed_forward_length'', \<lambda>v a. a\<lparr>feed_forward_length := v\<rparr>),
      (''llama.attention.head_count'', \<lambda>v a. a\<lparr>attention_head_count := v\<rparr>),
      (''llama.attention.head_count_kv'', \<lambda>v a. a\<lparr>attention_head_count_kv := v\<rparr>),
      (''llama.rope.dimension_count'', \<lambda>v a. a\<lparr>rope_dimension_count := v\<rparr>),
      (''tokenizer.ggml.bos_token_id'', \<lambda>v a. a\<lparr>arch_bos_token_id := v\<rparr>),
      (''tokenizer.ggml.eos_token_id'', \<lambda>v a. a\<lparr>arch_eos_token_id := v\<rparr>),
      (''tokenizer.ggml.padding_token_id'', \<lambda>v a. a\<lparr>pad_token_id := v\<rparr>)]"

definition string_table :: "(string \<times> nat \<times> (string \<Rightarrow> model_arch \<Rightarrow> model_arch)) list" where
  "string_table =
     [(''general.architecture'', 64, \<lambda>v a. a\<lparr>general_architecture := v\<rparr>),
      (''general.name'', 128, \<lambda>v a. a\<lparr>general_name := v\<rparr>),
      (''tokenizer.ggml.model'', 64, \<lambda>v a. a\<lparr>arch_tokenizer_model := v\<rparr>)]"

definition u32_field :: "string \<Rightarrow> (u32 \<Rightarrow> model_arch \<Rightarrow> model_arch) option" where
  "u32_field = map_of u32_table"

definition string_field :: "string \<Rightarrow> (nat \<times> (string \<Rightarrow> model_arch \<Rightarrow> model_arch)) option" where
  "string_field = map_of string_table"

definition other_keys :: "string list" where
  "other_keys = [''general.alignment'', ''tokenizer.ggml.tokens'', ''tokenizer.ggml.scores'', ''tokenizer.ggml.token_type'']"

definition unknown_key :: "string \<Rightarrow> bool" where
  "unknown_key k \<longleftrightarrow> u32_field k = None \<and> string_field k = None \<and> k \<notin> set other_keys
     \<and> (\<forall>p \<in> set arch_prefixes. take (length p) k \<noteq> p)"

lemma u32_table_values:
  "list_all (\<lambda>(k, f). kv_value k GGUF_TYPE_UINT32 = kv_field safe_read_u32 f) u32_table"
  unfolding u32_table_def list.pred_inject prod.case
  by (intro conjI TrueI; simp add: kv_value_def arch_prefixes_def arch_field_def)

lemma string_table_values:
  "list_all (\<lambda>(k, n, f). kv_value k GGUF_TYPE_STRING = kv_string n f) string_table"
  unfolding string_table_def list.pred_inject prod.case
  by (intro conjI TrueI; simp add: kv_value_def arch_prefixes_def arch_field_def)

lemma table_keys:
  "list_all (\<lambda>(k, f). key_ok k) u32_table" "list_all (\<lambda>(k, n, f). key_ok k \<and> n \<noteq> 0) string_table"
  by (simp_all add: u32_table_def string_table_def key_ok_def)

lemma kv_value_u32:
  assumes "u32_field k = Some f"
  shows "kv_value k GGUF_TYPE_UINT32 = kv_field safe_read_u32 f" "key_ok k"
  using assms u32_table_values table_keys(1) by (auto simp: u32_field_def list_all_iff dest: map_of_SomeD)

lemma kv_value_string:
  assumes "string_field k = Some (n, f)"
  shows "kv_value k GGUF_TYPE_STRING = kv_string n f" "key_ok k" "n \<noteq> 0"
  using assms string_table_values table_keys(2) by (auto simp: string_field_def list_all_iff dest: map_of_SomeD)

lemma prefixed_field_none: "\<forall>p \<in> set ps. take (length p) k \<noteq> p \<Longrightarrow> prefixed_field ps k ty = None"
  by (induction ps) auto

lemma kv_value_unknown:
  assumes "unknown_key k"
  shows "kv_value k ty = kv_skip ty"
proof -
  have "k \<notin> fst ` set u32_table" "k \<notin> fst ` set string_table"
    using assms by (simp_all add: unknown_key_def u32_field_def string_field_def map_of_eq_None_iff)
  then have "k \<noteq> ''general.file_type''" "k \<noteq> ''general.quantization_version''" "k \<noteq> ''tokenizer.ggml.bos_token_id''"
    "k \<noteq> ''tokenizer.ggml.eos_token_id''" "k \<noteq> ''tokenizer.ggml.padding_token_id''"
    "k \<noteq> ''general.architecture''" "k \<noteq> ''general.name''" "k \<noteq> ''tokenizer.ggml.model''"
    by (auto simp: u32_table_def string_table_def)
  moreover have "k \<noteq> ''general.alignment''" "k \<noteq> ''tokenizer.ggml.tokens''" "k \<noteq> ''tokenizer.ggml.scores''"
    "k \<noteq> ''tokenizer.ggml.token_type''" using assms by (auto simp: unknown_key_def other_keys_def)
  moreover have "prefixed_field arch_prefixes k ty = None"
    using assms by (simp add: unknown_key_def prefixed_field_none)
  ultimately show ?thesis unfolding kv_value_def by (simp only: simp_thms if_False option.case)
qed

lemma kv_value_arrays:
  "kv_value ''tokenizer.ggml.tokens'' GGUF_TYPE_ARRAY = kv_tokens"
  "kv_value ''tokenizer.ggml.scores'' GGUF_TYPE_ARRAY = kv_scores"
  "kv_value ''tokenizer.ggml.token_type'' GGUF_TYPE_ARRAY = kv_token_types"
  by (simp_all add: kv_value_def arch_prefixes_def)

datatype gkv =
    KvU32 string u32
  | KvString string "u8 list"
  | KvTokens "u8 list list"
  | KvScores "u32 list"
  | KvTypes "u32 list"
  | KvOther string gval

fun gkv_key :: "gkv \<Rightarrow> string" where
  "gkv_key (KvU32 k v) = k"
| "gkv_key (KvString k d) = k"
| "gkv_key (KvTokens ts) = ''tokenizer.ggml.tokens''"
| "gkv_key (KvScores vs) = ''tokenizer.ggml.scores''"
| "gkv_key (KvTypes vs) = ''tokenizer.ggml.token_type''"
| "gkv_key (KvOther k v) = k"

fun gkv_type :: "gkv \<Rightarrow> u32" where
  "gkv_type (KvU32 k v) = GGUF_TYPE_UINT32"
| "gkv_type (KvString k d) = GGUF_TYPE_STRING"
| "gkv_type (KvOther k v) = gval_type v"
| "gkv_type _ = GGUF_TYPE_ARRAY"

definition enc_words :: "u32 \<Rightarrow> u32 list \<Rightarrow> u8 list" where
  "enc_words ty vs = le_bytes 4 (unat ty) @ le_bytes 8 (length vs) @ concat (map (\<lambda>v. le_bytes 4 (unat v)) vs)"

fun gkv_payload :: "gkv \<Rightarrow> u8 list" where
  "gkv_payload (KvU32 k v) = le_bytes 4 (unat v)"
| "gkv_payload (KvString k d) = enc_string d"
| "gkv_payload (KvTokens ts) =
     le_bytes 4 (unat GGUF_TYPE_STRING) @ le_bytes 8 (length ts) @ concat (map enc_string ts)"
| "gkv_payload (KvScores vs) = enc_words GGUF_TYPE_FLOAT32 vs"
| "gkv_payload (KvTypes vs) = enc_words GGUF_TYPE_INT32 vs"
| "gkv_payload (KvOther k v) = enc_val v"

definition enc_kv :: "gkv \<Rightarrow> u8 list" where
  "enc_kv kv = enc_string (bytes_of (gkv_key kv)) @ le_bytes 4 (unat (gkv_type kv)) @ gkv_payload kv"

fun gkv_ok :: "gkv \<Rightarrow> bool" where
  "gkv_ok (KvU32 k v) \<longleftrightarrow> u32_field k \<noteq> None"
| "gkv_ok (KvString k d) \<longleftrightarrow> string_field k \<noteq> None \<and> length d \<le> GGUF_MAX_STRING_LEN"
| "gkv_ok (KvTokens ts) \<longleftrightarrow> ts \<noteq> [] \<and> length ts \<le> GGUF_MAX_VOCAB_SIZE \<and> (\<forall>t \<in> set ts. length t \<le> 1024)"
| "gkv_ok (KvScores vs) \<longleftrightarrow> length vs \<le> GGUF_MAX_VOCAB_SIZE"
| "gkv_ok (KvTypes vs) \<longleftrightarrow> length vs \<le> GGUF_MAX_VOCAB_SIZE"
| "gkv_ok (KvOther k v) \<longleftrightarrow> key_ok k \<and> unknown_key k \<and> gval_ok v"

text \<open>What an entry means for the architecture and the vocabulary.\<close>

fun kv_effect :: "gkv \<Rightarrow> model_arch \<times> u8 list list \<Rightarrow> model_arch \<times> u8 list list" where
  "kv_effect (KvU32 k v) (a, ts) = (the (u32_field k) v a, ts)"
| "kv_effect (KvString k d) (a, ts) =
     (let (n, f) = the (string_field k) in (f (cstring (take (n - 1) d)) a, ts))"
| "kv_effect (KvTokens us) (a, ts) = (a\<lparr>arch_vocab_size := of_nat (length us)\<rparr>, us)"
| "kv_effect _ V = V"

definition view_is :: "gguf_ctx \<Rightarrow> model_arch \<times> u8 list list \<Rightarrow> bool" where
  "view_is c V \<longleftrightarrow> g_arch c = fst V \<and> unat (g_vocab_count c) = length (snd V) \<and> (snd V \<noteq> [] \<longrightarrow> g_vocab c \<noteq> None)
     \<and> (\<forall>i < length (snd V). map_option snd (vocab_texts c i) = Some (snd V ! i))"

text \<open>A heap with room for allocations of \<open>k\<close> bytes, their headers included, behind its blocks.\<close>

definition room :: "heap \<Rightarrow> nat \<Rightarrow> bool" where
  "room h k \<longleftrightarrow> (\<exists>M m. heap_ok h (M @ [(m, False)]) \<and> (\<forall>x \<in> set M. snd x) \<and> k + 128 \<le> m)"

lemma roomI: "heap_ok h ([] @ [(m, False)]) \<Longrightarrow> k + 128 \<le> m \<Longrightarrow> room h k"
  unfolding room_def by (intro exI [of _ "[]"] exI [of _ m]) simp

lemma room_alloc:
  assumes "room h (n + 48 + k)" "0 < n" "n + 15 < SIZE_MOD"
  shows "\<exists>p h'. heap_alloc n h = Some (Some p, h') \<and> room h' k"
proof -
  from assms(1) obtain M m where M: "heap_ok h (M @ [(m, False)])" "\<forall>x \<in> set M. snd x" "n + 48 + k + 128 \<le> m"
    by (auto simp: room_def)
  from heap_alloc_tail [OF M(1,2) assms(2) _ assms(3)] M(3) obtain p h' M' m' where
    "heap_alloc n h = Some (Some p, h')" "heap_ok h' (M' @ [(m', False)])" "\<forall>x \<in> set M'. snd x" "m \<le> m' + n + 48" by auto
  moreover have "k + 128 \<le> m'" using M(3) \<open>m \<le> m' + n + 48\<close> by linarith
  ultimately have "room h' k" unfolding room_def by blast
  with \<open>heap_alloc n h = Some (Some p, h')\<close> show ?thesis by blast
qed

definition text_cost :: "u8 list list \<Rightarrow> nat" where
  "text_cost ts = sum_list (map (\<lambda>t. length t + 49) ts)"

fun kv_cost :: "gkv \<Rightarrow> nat" where
  "kv_cost (KvTokens ts) = length ts * VOCAB_TOKEN_SIZE + 48 + text_cost ts"
| "kv_cost _ = 0"

lemma load_token_texts_enc:
  assumes b: "buf_ok b"
  shows "has_bytes b p (concat (map enc_string ts)) \<Longrightarrow> \<forall>t \<in> set ts. length t \<le> 1024 \<Longrightarrow> room h (text_cost ts + k) \<Longrightarrow>
    \<exists>g h'. load_token_texts b (length ts) i p c h = Some (p + length (concat (map enc_string ts)), c\<lparr>vocab_texts := g\<rparr>, h')
      \<and> room h' k \<and> (\<forall>j. map_option snd (g j) = (if i \<le> j \<and> j < i + length ts then Some (ts ! (j - i)) else map_option snd (vocab_texts c j)))"
proof (induction ts arbitrary: i p c h)
  case Nil
  then show ?case by (auto simp: text_cost_def intro!: exI [of _ "vocab_texts c"])
next
  case (Cons t ts)
  have et: "has_bytes b p (enc_string t)" and r: "has_bytes b (p + 8 + length t) (concat (map enc_string ts))"
    using Cons.prems(1) by (simp_all add: has_bytes_append add.assoc)
  from et have l: "has_bytes b p (le_bytes 8 (length t))" and t: "has_bytes b (p + 8) t"
    by (simp_all add: enc_string_def has_bytes_append)
  have len: "length t \<le> 1024" using Cons.prems(2) by simp
  have add: "add64 p 8 = p + 8" "add64 (p + 8) (length t) = p + 8 + length t"
    using ptr_add [OF b conjunct1 [OF has_bytes_ptr [OF l]], of 8]
      ptr_add [OF b conjunct1 [OF has_bytes_ptr [OF t]], of "length t"] len by simp_all
  have e: "p + 8 \<le> b_end b" "p + 8 + length t \<le> b_end b" using l t b by (simp_all add: has_bytes_def)
  have d: "peek b p 8 = Some (le_bytes 8 (length t))" "peek b (p + 8) (length t) = Some t"
    using peek_has_bytes [OF l, of 8] peek_has_bytes [OF t, of "length t"] by simp_all
  have n: "le_nat (le_bytes 8 (length t)) = length t" using len by (simp add: le_nat_le_bytes)
  obtain q h1 where a: "heap_alloc (length t + 1) h = Some (Some q, h1)" "room h1 (text_cost ts + k)"
    using room_alloc [of h "length t + 1" "text_cost ts + k"] Cons.prems(3) len by (auto simp: text_cost_def algebra_simps)
  from Cons.IH [OF r _ a(2), of "i + 1" "c\<lparr>vocab_texts := (vocab_texts c)(i := Some (q, t))\<rparr>"] Cons.prems(2)
  obtain g h' where g: "load_token_texts b (length ts) (i + 1) (p + 8 + length t) (c\<lparr>vocab_texts := (vocab_texts c)(i := Some (q, t))\<rparr>) h1
      = Some (p + 8 + length t + length (concat (map enc_string ts)), c\<lparr>vocab_texts := g\<rparr>, h')" "room h' k"
    "\<And>j. map_option snd (g j) = (if i + 1 \<le> j \<and> j < i + 1 + length ts then Some (ts ! (j - (i + 1)))
       else map_option snd (((vocab_texts c)(i := Some (q, t))) j))" by auto
  have "map_option snd (g j) = (if i \<le> j \<and> j < i + length (t # ts) then Some ((t # ts) ! (j - i)) else map_option snd (vocab_texts c j))" for j
    using g(3) [of j] by (cases "j = i") (auto simp: nth_Cons' Suc_diff_le)
  moreover have "load_token_texts b (length (t # ts)) i p c h = Some (p + length (concat (map enc_string (t # ts))), c\<lparr>vocab_texts := g\<rparr>, h')"
    using add e d n a(1) g(1) len by (simp add: add.assoc)
  ultimately show ?case using g(2) by blast
qed

text \<open>An entry is read: the fields change as it says, and nothing the tensor table depends on.\<close>

definition kv_read :: "gkv \<Rightarrow> gbuf \<Rightarrow> nat \<Rightarrow> gguf_ctx \<Rightarrow> model_arch \<times> u8 list list \<Rightarrow> nat \<Rightarrow> kv_result \<Rightarrow> nat \<Rightarrow> bool" where
  "kv_read kv b p c V k r n \<longleftrightarrow> (\<exists>c' h'. r = Some (True, p + n, c', h')
     \<and> view_is c' (kv_effect kv V) \<and> room h' k \<and> g_n_tensors c' = g_n_tensors c \<and> g_alignment c' = g_alignment c)"

lemma kv_readI:
  "view_is c' (kv_effect kv V) \<Longrightarrow> room h' k \<Longrightarrow> g_n_tensors c' = g_n_tensors c \<Longrightarrow> g_alignment c' = g_alignment c
    \<Longrightarrow> p' = p + n \<Longrightarrow> kv_read kv b p c V k (Some (True, p', c', h')) n"
  by (auto simp: kv_read_def)

lemma upd_arch_view: "view_is c (a, ts) \<Longrightarrow> view_is (upd_arch f c) (f a, ts)"
  by (simp add: view_is_def upd_arch_def)

lemma upd_arch_fields [simp]:
  "g_n_tensors (upd_arch f c) = g_n_tensors c" "g_alignment (upd_arch f c) = g_alignment c"
  by (simp_all add: upd_arch_def)

lemma kv_array_bytes:
  assumes b: "buf_ok b" "has_bytes b p (le_bytes 4 (unat ty) @ le_bytes 8 n @ d)" and n: "n \<le> GGUF_MAX_VOCAB_SIZE"
  shows "kv_array act b p c h = act ty n (p + 12)" "has_bytes b (p + 12) d"
proof -
  have h: "has_bytes b p (le_bytes 4 (unat ty))" "has_bytes b (p + 4) (le_bytes 8 n)" "has_bytes b (p + 12) d"
    using b(2) by (simp_all add: has_bytes_append add.assoc)
  then show "has_bytes b (p + 12) d" by simp
  have "n < SIZE_MOD" using n by simp
  with read_u32_bytes [OF b(1) h(1)] read_u64_bytes [OF b(1) h(2)] show "kv_array act b p c h = act ty n (p + 12)"
    by (simp add: kv_array_def add.assoc)
qed

lemma words_step:
  assumes b: "buf_ok b" "has_bytes b p (concat (map (\<lambda>v. le_bytes 4 (unat v)) vs))" and n: "length vs \<le> GGUF_MAX_VOCAB_SIZE"
  shows "add64 p (length vs * 4) = p + length vs * 4" "length (concat (map (\<lambda>v. le_bytes 4 (unat v)) vs)) = length vs * 4"
proof -
  show "length (concat (map (\<lambda>v. le_bytes 4 (unat v)) vs)) = length vs * 4" by (induction vs) auto
  show "add64 p (length vs * 4) = p + length vs * 4"
    using ptr_add [OF b(1) conjunct1 [OF has_bytes_ptr [OF b(2)]], of "length vs * 4"] n by simp
qed

lemma kv_tokens_enc:
  assumes b: "buf_ok b" "has_bytes b p (gkv_payload (KvTokens ts))" and ok: "gkv_ok (KvTokens ts)"
    and V: "view_is c V" and h: "room h (kv_cost (KvTokens ts) + k)"
  shows "kv_read (KvTokens ts) b p c V k (kv_tokens b p c h) (length (gkv_payload (KvTokens ts)))"
proof -
  let ?n = "length ts"
  let ?c1 = "(upd_arch (\<lambda>x. x\<lparr>arch_vocab_size := of_nat ?n\<rparr>) c)\<lparr>g_vocab_count := of_nat ?n\<rparr>"
  have n: "0 < ?n" "?n \<le> GGUF_MAX_VOCAB_SIZE" using ok by auto
  note arr = kv_array_bytes [OF b(1) b(2) [unfolded gkv_payload.simps] n(2)]
  obtain q h1 where q: "heap_alloc (?n * VOCAB_TOKEN_SIZE) h = Some (Some q, h1)" "room h1 (text_cost ts + k)"
    using room_alloc [of h "?n * VOCAB_TOKEN_SIZE" "text_cost ts + k"] h n by (auto simp: add.assoc)
  let ?c2 = "?c1\<lparr>g_vocab := Some q, vocab_texts := \<lambda>_. None\<rparr>"
  have "\<forall>t \<in> set ts. length t \<le> 1024" using ok by simp
  from load_token_texts_enc [OF b(1) arr(2) this q(2), of 0 ?c2] obtain g h2 where g:
    "load_token_texts b ?n 0 (p + 12) ?c2 h1 = Some (p + 12 + length (concat (map enc_string ts)), ?c2\<lparr>vocab_texts := g\<rparr>, h2)"
    "room h2 k" "\<forall>j. map_option snd (g j) = (if 0 \<le> j \<and> j < 0 + ?n then Some (ts ! (j - 0)) else map_option snd (vocab_texts ?c2 j))"
    by blast
  have gs: "\<And>j. j < ?n \<Longrightarrow> map_option snd (g j) = Some (ts ! j)" using g(3) by (metis add_0 diff_zero zero_le)
  have m: "min ?n GGUF_MAX_VOCAB_SIZE = ?n" using n by simp
  have "kv_tokens b p c h = Some (True, p + 12 + length (concat (map enc_string ts)), ?c1\<lparr>g_vocab := Some q, vocab_texts := g\<rparr>, h2)"
    unfolding kv_tokens_def arr(1) token_array_def Let_def m using q(1) g(1) by simp
  moreover have "view_is (?c1\<lparr>g_vocab := Some q, vocab_texts := g\<rparr>) (kv_effect (KvTokens ts) V)"
    using V gs n by (cases V) (simp add: view_is_def upd_arch_def unat_of_nat)
  ultimately show ?thesis using g(2) by (auto intro!: kv_readI)
qed

lemma kv_value_enc:
  assumes b: "buf_ok b" "has_bytes b p (gkv_payload kv)" and ok: "gkv_ok kv"
    and V: "view_is c V" and h: "room h (kv_cost kv + k)"
  shows "kv_read kv b p c V k (kv_value (gkv_key kv) (gkv_type kv) b p c h) (length (gkv_payload kv))"
proof (cases kv)
  case (KvU32 k' v)
  with ok obtain f where f: "u32_field k' = Some f" by auto
  have "has_bytes b p (le_bytes 4 (unat v))" using b(2) KvU32 by simp
  from read_u32_bytes [OF b(1) this] have "kv_value k' 4 b p c h = Some (True, p + 4, upd_arch (f v) c, h)"
    by (simp add: kv_value_u32 [OF f] kv_field_def)
  with KvU32 f V h show ?thesis by (cases V) (auto intro!: kv_readI upd_arch_view)
next
  case (KvString k' d)
  with ok obtain n f where f: "string_field k' = Some (n, f)" by auto
  have d: "has_bytes b p (enc_string d)" "length d \<le> GGUF_MAX_STRING_LEN" using b(2) ok KvString by simp_all
  from read_string_bytes [OF b(1) d, of n] have
    "kv_value k' 8 b p c h = Some (True, p + length (enc_string d), upd_arch (f (cstring (take (n - 1) d))) c, h)"
    by (simp add: kv_value_string [OF f] kv_string_def kv_field_def)
  with KvString f V h show ?thesis by (cases V) (auto intro!: kv_readI upd_arch_view)
next
  case (KvTokens ts)
  with kv_tokens_enc [OF b(1), of p ts c V h k] b(2) ok V h show ?thesis by (simp only: gkv_key.simps gkv_type.simps kv_value_arrays)
next
  case (KvScores vs)
  with ok have n: "length vs \<le> GGUF_MAX_VOCAB_SIZE" by simp
  note arr = kv_array_bytes [OF b(1) b(2) [unfolded KvScores gkv_payload.simps enc_words_def] n]
  note st = words_step [OF b(1) arr(2) n]
  show ?thesis unfolding KvScores gkv_key.simps gkv_type.simps kv_value_arrays kv_scores_def arr(1)
    using n st V h by (cases V) (auto simp: enc_words_def KvScores intro!: kv_readI)
next
  case (KvTypes vs)
  with ok have n: "length vs \<le> GGUF_MAX_VOCAB_SIZE" by simp
  note arr = kv_array_bytes [OF b(1) b(2) [unfolded KvTypes gkv_payload.simps enc_words_def] n]
  note st = words_step [OF b(1) arr(2) n]
  show ?thesis unfolding KvTypes gkv_key.simps gkv_type.simps kv_value_arrays kv_token_types_def arr(1)
    using n st V h by (cases V) (auto simp: enc_words_def KvTypes intro!: kv_readI)
next
  case (KvOther k' v)
  with ok b(2) have "gval_ok v" "has_bytes b p (enc_val v)" "unknown_key k'" by simp_all
  with skip_value_enc [OF b(1), of v p] KvOther V h show ?thesis
    by (cases V) (auto simp: kv_value_unknown kv_skip_def intro!: kv_readI)
qed

lemma gkv_key_ok: "gkv_ok kv \<Longrightarrow> key_ok (gkv_key kv)"
proof (cases kv)
  case (KvU32 k v)
  assume "gkv_ok kv"
  with KvU32 kv_value_u32(2) [of k] show ?thesis by auto
next
  case (KvString k d)
  assume "gkv_ok kv"
  with KvString kv_value_string(2) [of k] show ?thesis by auto
qed (auto simp: key_ok_def)

lemma length_bytes_of [simp]: "length (bytes_of k) = length k"
  by (simp add: bytes_of_def)

lemma kv_pair_enc:
  assumes b: "buf_ok b" "has_bytes b p (enc_kv kv)" and ok: "gkv_ok kv"
    and V: "view_is c V" and h: "room h (kv_cost kv + k)"
  shows "kv_read kv b p c V k (gguf_parse_kv_pair b p c h) (length (enc_kv kv))"
proof -
  let ?k = "bytes_of (gkv_key kv)"
  let ?p1 = "p + length (enc_string ?k)"
  have d: "has_bytes b p (enc_string ?k)" "has_bytes b ?p1 (le_bytes 4 (unat (gkv_type kv)))"
    "has_bytes b (?p1 + 4) (gkv_payload kv)" using b(2) by (simp_all add: enc_kv_def has_bytes_append add.assoc)
  have key: "length (gkv_key kv) < GGUF_MAX_KEY_LEN" "cstring ?k = gkv_key kv"
    using gkv_key_ok [OF ok] cstring_bytes_of by (auto simp: key_ok_def)
  have r: "safe_read_string b GGUF_MAX_KEY_LEN p = Some (Some ?k, ?p1)"
    using read_string_bytes [OF b(1) d(1), of GGUF_MAX_KEY_LEN] key(1) by simp
  have "gguf_parse_kv_pair b p c h = kv_value (gkv_key kv) (gkv_type kv) b (?p1 + 4) c h"
    unfolding gguf_parse_kv_pair_def r using read_u32_bytes [OF b(1) d(2)] key(2) by simp
  with kv_value_enc [OF b(1) d(3) ok V h] show ?thesis
    by (auto simp: kv_read_def enc_kv_def add.assoc)
qed

definition kvs_cost :: "gkv list \<Rightarrow> nat" where
  "kvs_cost kvs = sum_list (map kv_cost kvs)"

lemma kv_pairs_enc:
  assumes b: "buf_ok b"
  shows "has_bytes b p (concat (map enc_kv kvs)) \<Longrightarrow> \<forall>kv \<in> set kvs. gkv_ok kv \<Longrightarrow> view_is c V \<Longrightarrow> room h (kvs_cost kvs + k) \<Longrightarrow>
    \<exists>c' h'. parse_kv_pairs b (length kvs) p c h = Some (True, p + length (concat (map enc_kv kvs)), c', h')
      \<and> view_is c' (fold kv_effect kvs V) \<and> room h' k \<and> g_n_tensors c' = g_n_tensors c \<and> g_alignment c' = g_alignment c"
proof (induction kvs arbitrary: p c h V)
  case (Cons kv kvs)
  have d: "has_bytes b p (enc_kv kv)" "has_bytes b (p + length (enc_kv kv)) (concat (map enc_kv kvs))"
    using Cons.prems(1) by (simp_all add: has_bytes_append)
  have "gkv_ok kv" "room h (kv_cost kv + (kvs_cost kvs + k))" using Cons.prems(2,4) by (simp_all add: kvs_cost_def add.assoc)
  from kv_pair_enc [OF b d(1) this(1) Cons.prems(3) this(2)] obtain c1 h1 where 1:
    "gguf_parse_kv_pair b p c h = Some (True, p + length (enc_kv kv), c1, h1)" "view_is c1 (kv_effect kv V)"
    "room h1 (kvs_cost kvs + k)" "g_n_tensors c1 = g_n_tensors c" "g_alignment c1 = g_alignment c"
    by (auto simp: kv_read_def)
  from Cons.IH [OF d(2) _ 1(2,3)] Cons.prems(2) 1 show ?case by (auto simp: add.assoc)
qed (simp add: kvs_cost_def)

section \<open>The tensor table of a file\<close>

record gtensor =
  gt_name :: string
  gt_dims :: "nat list"
  gt_type :: u32
  gt_offset :: nat

definition enc_tensor :: "gtensor \<Rightarrow> u8 list" where
  "enc_tensor t = enc_string (bytes_of (gt_name t)) @ le_bytes 4 (length (gt_dims t)) @ concat (map (le_bytes 8) (gt_dims t))
     @ le_bytes 4 (unat (gt_type t)) @ le_bytes 8 (gt_offset t)"

definition gtensor_ok :: "gtensor \<Rightarrow> bool" where
  "gtensor_ok t \<longleftrightarrow> length (gt_name t) < GGUF_MAX_TENSOR_NAME \<and> CHR 0x00 \<notin> set (gt_name t)
     \<and> length (gt_dims t) \<le> GGUF_MAX_TENSOR_DIMS \<and> (\<forall>d \<in> set (gt_dims t). d < SIZE_MOD) \<and> gt_offset t < SIZE_MOD"

definition info_of :: "gtensor \<Rightarrow> tensor_info" where
  "info_of t = \<lparr>t_name = gt_name t, t_n_dims = of_nat (length (gt_dims t)),
     t_dims = gt_dims t @ replicate (GGUF_MAX_TENSOR_DIMS - length (gt_dims t)) 0, t_type = gt_type t, t_offset = gt_offset t,
     t_size = calc_tensor_size (gt_type t) (prod_list (gt_dims t) mod SIZE_MOD)\<rparr>"

lemma length_concat_le_bytes [simp]: "length (concat (map (le_bytes n) ds)) = n * length ds"
  by (induction ds) auto

lemma read_dims_enc:
  assumes b: "buf_ok b"
  shows "has_bytes b p (concat (map (le_bytes 8) ds)) \<Longrightarrow> \<forall>d \<in> set ds. d < SIZE_MOD \<Longrightarrow>
    read_dims b (length ds) p es = Some (Some (es @ ds), p + 8 * length ds)"
proof (induction ds arbitrary: p es)
  case (Cons d ds)
  then have "has_bytes b p (le_bytes 8 d)" "has_bytes b (p + 8) (concat (map (le_bytes 8) ds))" "d < SIZE_MOD"
    by (simp_all add: has_bytes_append)
  with read_u64_bytes [OF b this(1,3)] Cons.IH [OF this(2)] Cons.prems(2) show ?case by simp
qed simp

lemma parse_tensor_enc:
  assumes b: "buf_ok b" "has_bytes b p (enc_tensor t)" and ok: "gtensor_ok t"
  shows "parse_tensor b True p = Some (Some (info_of t), p + length (enc_tensor t))"
proof -
  let ?n = "bytes_of (gt_name t)" and ?m = "length (gt_name t)" and ?ds = "gt_dims t"
  let ?p4 = "p + 12 + ?m + 8 * length ?ds"
  have en: "has_bytes b p (enc_string ?n)" and nd: "has_bytes b (p + 8 + ?m) (le_bytes 4 (length ?ds))"
    and ds: "has_bytes b (p + 12 + ?m) (concat (map (le_bytes 8) ?ds))"
    and ty: "has_bytes b ?p4 (le_bytes 4 (unat (gt_type t)))" and off: "has_bytes b (?p4 + 4) (le_bytes 8 (gt_offset t))"
    using b(2) by (simp_all add: enc_tensor_def has_bytes_append ac_simps)
  have l: "has_bytes b p (le_bytes 8 ?m)" and n: "has_bytes b (p + 8) ?n"
    using en by (simp_all add: enc_string_def has_bytes_append)
  have small: "?m < 128" "length ?ds \<le> 4" "\<forall>d \<in> set ?ds. d < SIZE_MOD" "gt_offset t < SIZE_MOD"
    using ok by (simp_all add: gtensor_ok_def)
  have name: "cstring ?n = gt_name t" using ok by (simp add: gtensor_ok_def cstring_bytes_of)
  have r1: "safe_read_u64 b p = Some (Some ?m, p + 8)" using read_u64_bytes [OF b(1) l] small(1) by simp
  have a1: "add64 (p + 8) ?m = p + 8 + ?m" "p + 8 + ?m \<le> b_end b"
    using ptr_add [OF b(1) conjunct1 [OF has_bytes_ptr [OF n]], of ?m] small(1) n b(1) by (simp_all add: has_bytes_def)
  have pk: "peek b (p + 8) (min ?m 127) = Some ?n" using peek_has_bytes [OF n, of ?m] small(1) by simp
  have r2: "safe_read_u32 b (p + 8 + ?m) = Some (Some (of_nat (length ?ds)), p + 12 + ?m)"
  proof -
    have "unat (of_nat (length ?ds) :: u32) = length ?ds" using small(2) by (simp add: unat_of_nat)
    with read_u32_bytes [OF b(1), of "p + 8 + ?m" "of_nat (length ?ds)"] nd show ?thesis by simp
  qed
  have ul: "unat (of_nat (length ?ds) :: u32) = length ?ds" using small(2) by (simp add: unat_of_nat)
  have r3: "read_dims b (length ?ds) (p + 12 + ?m) [] = Some (Some ?ds, ?p4)"
    using read_dims_enc [OF b(1) ds small(3), of "[]"] by simp
  have a4: "add64 ?p4 12 = ?p4 + 12" "add64 ?p4 4 = ?p4 + 4" "?p4 + 12 \<le> b_end b"
    using ptr_add [OF b(1) conjunct1 [OF has_bytes_ptr [OF ty]]] off b(1) by (simp_all add: has_bytes_def)
  have p4: "peek b ?p4 4 = Some (le_bytes 4 (unat (gt_type t)))" "peek b (?p4 + 4) 8 = Some (le_bytes 8 (gt_offset t))"
    using peek_has_bytes [OF ty, of 4] peek_has_bytes [OF off, of 8] by simp_all
  have "unat (gt_type t) < 256 ^ 4" using unsigned_less_nat [of "gt_type t"] by simp
  then have v: "(of_nat (le_nat (le_bytes 4 (unat (gt_type t)))) :: u32) = gt_type t" "le_nat (le_bytes 8 (gt_offset t)) = gt_offset t"
    using small(4) by (simp_all add: le_nat_le_bytes)
  have len: "length (enc_tensor t) = 24 + ?m + 8 * length ?ds" by (simp add: enc_tensor_def)
  show ?thesis
    unfolding parse_tensor_def r1 using a1 pk r2 ul r3 a4 p4 v name small(2)
    by (simp add: info_of_def len Let_def)
qed

lemma parse_tensors_enc:
  assumes b: "buf_ok b"
  shows "has_bytes b p (concat (map enc_tensor ts)) \<Longrightarrow> \<forall>t \<in> set ts. gtensor_ok t \<Longrightarrow> i + length ts = length us \<Longrightarrow>
    parse_tensors b (length ts) i p us = Some (True, p + length (concat (map enc_tensor ts)), take i us @ map info_of ts)"
proof (induction ts arbitrary: i p us)
  case (Cons t ts)
  have d: "has_bytes b p (enc_tensor t)" "has_bytes b (p + length (enc_tensor t)) (concat (map enc_tensor ts))"
    using Cons.prems(1) by (simp_all add: has_bytes_append)
  have i: "i < length us" using Cons.prems(3) by simp
  have "parse_tensor b True p = Some (Some (info_of t), p + length (enc_tensor t))"
    using parse_tensor_enc [OF b d(1)] Cons.prems(2) by simp
  moreover have "take (i + 1) (us[i := info_of t]) = take i us @ [info_of t]"
    using i by (simp add: take_Suc_conv_app_nth)
  ultimately show ?case
    using Cons.IH [OF d(2), of "i + 1" "us[i := info_of t]"] Cons.prems(2,3) i by (simp add: add.assoc)
qed simp

lemma and_not_mask:
  fixes x :: "'a::len word"
  shows "x AND NOT (mask n) = push_bit n (drop_bit n x)"
  by (rule bit_word_eqI) (auto simp: bit_simps)

lemma gguf_align_32:
  assumes "m + 31 < SIZE_MOD"
  shows "gguf_align 32 m = (m + 31) div 32 * 32"
proof -
  let ?x = "of_nat (m + 31) :: u64"
  have "(32 :: u64) - 1 = mask 5" by (simp add: mask_eq_exp_minus_1)
  then have "?x AND NOT (of_nat 32 - 1) = push_bit 5 (drop_bit 5 ?x)" by (simp only: of_nat_numeral and_not_mask)
  moreover have "unat (push_bit 5 (drop_bit 5 ?x)) = (m + 31) div 32 * 32"
  proof -
    have x: "unat ?x = m + 31" using assms by (subst unat_of_nat) simp
    have "(m + 31) div 32 * 32 \<le> m + 31" by simp
    with assms have "(m + 31) div 32 * 32 < SIZE_MOD" by linarith
    moreover have "unat (push_bit 5 (drop_bit 5 ?x)) = take_bit 64 (push_bit 5 (drop_bit 5 (m + 31)))"
    proof -
      have "take_bit 64 (m + 31) = m + 31" using assms by (simp add: take_bit_eq_mod)
      then show ?thesis unfolding unsigned_push_bit_eq unsigned_drop_bit_eq x by simp
    qed
    ultimately show ?thesis by (simp add: push_bit_eq_mult drop_bit_eq_div take_bit_eq_mod)
  qed
  moreover have "add64 m (32 - 1) = m + 31" using assms by (simp add: add64_def)
  ultimately show ?thesis by (simp only: gguf_align_def)
qed

section \<open>Whole files\<close>

definition gguf_head :: "nat \<Rightarrow> nat \<Rightarrow> u8 list" where
  "gguf_head n_tensors n_kv = le_bytes 4 0x46554747 @ le_bytes 4 3 @ le_bytes 8 n_tensors @ le_bytes 8 n_kv"

lemma length_gguf_head [simp]: "length (gguf_head n m) = 24"
  by (simp add: gguf_head_def)

definition enc_table :: "gkv list \<Rightarrow> gtensor list \<Rightarrow> u8 list" where
  "enc_table kvs ts = gguf_head (length ts) (length kvs) @ concat (map enc_kv kvs) @ concat (map enc_tensor ts)"

text \<open>The data of the tensors begins at the next multiple of 32.\<close>

definition padding :: "nat \<Rightarrow> nat" where
  "padding n = (n + 31) div 32 * 32 - n"

definition enc_file :: "gkv list \<Rightarrow> gtensor list \<Rightarrow> u8 list \<Rightarrow> u8 list" where
  "enc_file kvs ts d = (let t = enc_table kvs ts in t @ replicate (padding (length t)) 0 @ d)"

lemma padding_up: "n + padding n = (n + 31) div 32 * 32"
  by (simp add: padding_def)

lemma header_enc:
  assumes b: "buf_ok b" "has_bytes b (b_start b) (gguf_head n m)" and n: "n \<le> GGUF_MAX_TENSORS" "m \<le> GGUF_MAX_KV_PAIRS"
  shows "gguf_parse_header b zero_ctx = Some (True, zero_ctx\<lparr>g_version := 3, g_n_tensors := n, g_n_kv := m,
    kv_start := b_start b + 24, g_alignment := 32\<rparr>)"
proof -
  let ?s = "b_start b"
  have d: "has_bytes b ?s (le_bytes 4 0x46554747)" "has_bytes b (?s + 4) (le_bytes 4 3)"
    "has_bytes b (?s + 8) (le_bytes 8 n)" "has_bytes b (?s + 16) (le_bytes 8 m)"
    using b(2) by (simp_all add: gguf_head_def has_bytes_append add.assoc)
  have len: "24 \<le> length (b_bytes b)" using b(2) by (simp add: has_bytes_def)
  have pk: "peek b ?s 4 = Some (le_bytes 4 0x46554747)" "peek b (?s + 4) 4 = Some (le_bytes 4 3)"
    "peek b (?s + 8) 8 = Some (le_bytes 8 n)" "peek b (?s + 16) 8 = Some (le_bytes 8 m)"
    using peek_has_bytes [OF d(1), of 4] peek_has_bytes [OF d(2), of 4] peek_has_bytes [OF d(3), of 8] peek_has_bytes [OF d(4), of 8]
    by simp_all
  have a: "add64 ?s j = ?s + j" if "j \<le> 24" for j
    using ptr_add [OF b(1), of ?s j] that by (simp add: ptr_ok_def)
  have v: "le_nat (le_bytes 4 0x46554747) = 0x46554747" "le_nat (le_bytes 4 3) = 3" "le_nat (le_bytes 8 n) = n" "le_nat (le_bytes 8 m) = m"
    using n by (simp_all add: le_nat_le_bytes)
  show ?thesis using len n pk v by (simp add: gguf_parse_header_def a Let_def)
qed

definition base_arch :: model_arch where
  "base_arch = zero_arch\<lparr>attention_layer_norm_rms_epsilon := 0x3727c5ac, rope_freq_base := 0x461c4000\<rparr>"

definition complete_arch :: "model_arch \<Rightarrow> bool" where
  "complete_arch a \<longleftrightarrow> embedding_length a \<noteq> 0 \<and> block_count a \<noteq> 0 \<and> attention_head_count a \<noteq> 0"

definition or_else :: "u32 \<Rightarrow> u32 \<Rightarrow> u32" where
  "or_else v d = (if v = 0 then d else v)"

definition with_defaults :: "nat \<Rightarrow> model_arch \<Rightarrow> model_arch" where
  "with_defaults n a = a\<lparr>attention_head_count_kv := or_else (attention_head_count_kv a) (attention_head_count a),
     feed_forward_length := or_else (feed_forward_length a) (4 * embedding_length a),
     context_length := or_else (context_length a) 2048,
     arch_vocab_size := or_else (arch_vocab_size a) (of_nat n)\<rparr>"

lemma validate_complete:
  assumes "complete_arch (g_arch c)" "tensor_data_start c < b_end b" "unat (g_vocab_count c) = n"
  shows "gguf_validate b c = (True, c\<lparr>g_arch := with_defaults n (g_arch c), g_is_valid := True\<rparr>)"
proof -
  have "g_vocab_count c = of_nat n" unfolding assms(3) [symmetric] by simp
  moreover have "0 < g_vocab_count c \<or> g_vocab_count c = 0" by (simp add: word_gt_0)
  ultimately show ?thesis
    using assms(1,2) by (auto simp: gguf_validate_def complete_arch_def with_defaults_def or_else_def Let_def mult.commute)
qed

lemma metadata_enc:
  assumes b: "buf_ok b" "has_bytes b (kv_start c) (concat (map enc_kv kvs))" and kvs: "\<forall>kv \<in> set kvs. gkv_ok kv" "g_n_kv c = length kvs"
    and V: "g_vocab_count c = 0" and h: "room h (kvs_cost kvs + k)"
  shows "\<exists>c' h'. gguf_parse_metadata b c h = Some (True, c', h') \<and> view_is c' (fold kv_effect kvs (base_arch, []))
    \<and> room h' k \<and> g_n_tensors c' = g_n_tensors c \<and> g_alignment c' = g_alignment c
    \<and> tensor_info_start c' = kv_start c + length (concat (map enc_kv kvs))"
proof -
  have "view_is (c\<lparr>g_arch := base_arch\<rparr>) (base_arch, [])" using V by (simp add: view_is_def)
  from kv_pairs_enc [OF b kvs(1) this h] obtain c1 h1 where
    1: "parse_kv_pairs b (length kvs) (kv_start c) (c\<lparr>g_arch := base_arch\<rparr>) h = Some (True, kv_start c + length (concat (map enc_kv kvs)), c1, h1)"
    "view_is c1 (fold kv_effect kvs (base_arch, []))" "room h1 k" "g_n_tensors c1 = g_n_tensors c" "g_alignment c1 = g_alignment c"
    by auto
  let ?c = "c1\<lparr>tensor_info_start := kv_start c + length (concat (map enc_kv kvs))\<rparr>"
  have "gguf_parse_metadata b c h = Some (True, ?c, h1)"
    using 1(1) kvs(2) by (simp add: gguf_parse_metadata_def base_arch_def Let_def)
  moreover have "view_is ?c (fold kv_effect kvs (base_arch, []))" using 1(2) by (simp add: view_is_def)
  ultimately show ?thesis using 1(3,4,5) by auto
qed

lemma tensor_info_enc:
  assumes b: "buf_ok b" "has_bytes b p (concat (map enc_tensor ts))" and ts: "\<forall>t \<in> set ts. gtensor_ok t" "ts \<noteq> []" "length ts \<le> GGUF_MAX_STORED_TENSORS"
    and c: "tensor_info_start c = p" "g_n_tensors c = length ts" "g_alignment c = 32" and h: "room h (length ts * TENSOR_INFO_SIZE + 48 + k)"
  shows "\<exists>q h'. gguf_parse_tensor_info b c h = Some (True, c\<lparr>g_tensors := Some q, tensors := map info_of ts,
    tensor_data_start := b_start b + (p + length (concat (map enc_tensor ts)) - b_start b + 31) div 32 * 32, g_is_valid := True\<rparr>, h') \<and> room h' k"
proof -
  let ?n = "length ts" and ?e = "p + length (concat (map enc_tensor ts))"
  have n: "min ?n GGUF_MAX_STORED_TENSORS = ?n" "0 < ?n" using ts by simp_all
  obtain q h1 where q: "heap_alloc (?n * TENSOR_INFO_SIZE) h = Some (Some q, h1)" "room h1 k"
    using room_alloc [of h "?n * TENSOR_INFO_SIZE" k] h n ts(3) by auto
  have r: "parse_tensors b ?n 0 p (replicate ?n zero_tensor) = Some (True, ?e, map info_of ts)"
    using parse_tensors_enc [OF b ts(1), of 0 "replicate ?n zero_tensor"] by simp
  have e: "b_start b \<le> ?e" "?e \<le> b_start b + length (b_bytes b)" using b(2) by (simp_all add: has_bytes_def)
  have s: "sub64 ?e (b_start b) = ?e - b_start b" "gguf_align 32 (?e - b_start b) = (?e - b_start b + 31) div 32 * 32"
    using e b(1) by (simp_all add: sub64_def buf_ok_def gguf_align_32)
  have "(?e - b_start b + 31) div 32 * 32 \<le> ?e - b_start b + 31" by simp
  then have "b_start b + (?e - b_start b + 31) div 32 * 32 < SIZE_MOD" using e b(1) by (simp add: buf_ok_def)
  then have a: "add64 (b_start b) ((?e - b_start b + 31) div 32 * 32) = b_start b + (?e - b_start b + 31) div 32 * 32"
    by (simp add: add64_def)
  show ?thesis
    using n c q r s a by (auto simp: gguf_parse_tensor_info_def Let_def)
qed

lemma has_bytes_self: "has_bytes b (b_start b) (b_bytes b)"
  by (simp add: has_bytes_def)

lemma has_bytes_inside: "buf_ok b \<Longrightarrow> has_bytes b p d \<Longrightarrow> d \<noteq> [] \<Longrightarrow> p < b_end b"
  by (cases d) (auto simp: has_bytes_def)

lemma load_enc:
  assumes b: "buf_ok b" "b_bytes b = enc_file kvs ts d" and d: "d \<noteq> []"
    and kvs: "\<forall>kv \<in> set kvs. gkv_ok kv" "length kvs \<le> GGUF_MAX_KV_PAIRS"
    and ts: "\<forall>t \<in> set ts. gtensor_ok t" "ts \<noteq> []" "length ts \<le> GGUF_MAX_STORED_TENSORS"
    and h: "room h (kvs_cost kvs + (length ts * TENSOR_INFO_SIZE + 48 + k))"
    and V: "fold kv_effect kvs (base_arch, []) = (a, toks)" "complete_arch a"
  shows "\<exists>c h'. gguf_parser_load b h = Some (0, c, h') \<and> view_is c (with_defaults (length toks) a, toks)
    \<and> g_is_valid c \<and> g_tensors c \<noteq> None \<and> tensors c = map info_of ts \<and> 0 < tensor_data_start c \<and> has_bytes b (tensor_data_start c) d \<and> room h' k"
proof -
  let ?s = "b_start b" and ?k = "concat (map enc_kv kvs)" and ?t = "concat (map enc_tensor ts)"
  let ?l = "24 + length ?k + length ?t"
  have len: "length (enc_table kvs ts) = ?l" by (simp add: enc_table_def)
  have "has_bytes b ?s (enc_table kvs ts @ replicate (padding ?l) 0 @ d)"
    using has_bytes_self [of b] b(2) len by (simp add: enc_file_def Let_def)
  then have t: "has_bytes b ?s (enc_table kvs ts)" and data: "has_bytes b (?s + (?l + padding ?l)) d"
    by (simp_all add: has_bytes_append len add.assoc)
  from t have hd: "has_bytes b ?s (gguf_head (length ts) (length kvs))" and kk: "has_bytes b (?s + 24) ?k"
    and tt: "has_bytes b (?s + 24 + length ?k) ?t"
    by (simp_all add: enc_table_def has_bytes_append add.assoc)
  let ?c0 = "zero_ctx\<lparr>g_version := 3, g_n_tensors := length ts, g_n_kv := length kvs, kv_start := ?s + 24, g_alignment := 32\<rparr>"
  have H: "gguf_parse_header b zero_ctx = Some (True, ?c0)" using header_enc [OF b(1) hd] kvs(2) ts(3) by simp
  have "kv_start ?c0 = ?s + 24" "g_n_kv ?c0 = length kvs" "g_vocab_count ?c0 = 0" by (simp_all add: zero_ctx_def)
  with metadata_enc [OF b(1), of ?c0 kvs h "length ts * TENSOR_INFO_SIZE + 48 + k"] kk kvs(1) h obtain c1 h1 where
    M: "gguf_parse_metadata b ?c0 h = Some (True, c1, h1)" "view_is c1 (a, toks)" "room h1 (length ts * TENSOR_INFO_SIZE + 48 + k)"
      "g_n_tensors c1 = length ts" "g_alignment c1 = 32" "tensor_info_start c1 = ?s + 24 + length ?k"
    unfolding V(1) by auto
  let ?D = "?s + (?s + 24 + length ?k + length ?t - ?s + 31) div 32 * 32"
  from tensor_info_enc [OF b(1) tt ts M(6,4,5,3)] obtain q h2 where
    T: "gguf_parse_tensor_info b c1 h1 = Some (True, c1\<lparr>g_tensors := Some q, tensors := map info_of ts,
        tensor_data_start := ?D, g_is_valid := True\<rparr>, h2)" "room h2 k" by auto
  let ?c2 = "c1\<lparr>g_tensors := Some q, tensors := map info_of ts, tensor_data_start := ?D, g_is_valid := True\<rparr>"
  have D: "?D = ?s + (?l + padding ?l)" unfolding padding_up by (simp add: add.assoc)
  have inside: "?D < b_end b" using has_bytes_inside [OF b(1) data d] unfolding D .
  have v: "complete_arch (g_arch ?c2)" "unat (g_vocab_count ?c2) = length toks" using M(2) V(2) by (simp_all add: view_is_def)
  note val = validate_complete [OF v(1) _ v(2), of b]
  let ?c3 = "?c2\<lparr>g_arch := with_defaults (length toks) a\<rparr>"
  have "gguf_parser_load b h = Some (0, ?c3, h2)"
    using val inside M(2) by (simp add: gguf_parser_load_def H M(1) T(1) view_is_def)
  moreover have "view_is ?c3 (with_defaults (length toks) a, toks)" using M(2) by (simp add: view_is_def)
  moreover have "has_bytes b (tensor_data_start ?c3) d" using data D by simp
  moreover have "0 < tensor_data_start ?c3" unfolding D by simp
  ultimately show ?thesis by (intro exI [of _ ?c3] exI [of _ h2]) (simp add: T(2))
qed

lemma peek_data:
  assumes "buf_ok b" "has_bytes b p d" "off + n \<le> length d"
  shows "add64 p off = p + off" "peek b (p + off) n = Some (take n (drop off d))"
proof -
  have "p + off < SIZE_MOD" using assms by (simp add: has_bytes_def buf_ok_def)
  then show "add64 p off = p + off" by (simp add: add64_def)
  have "has_bytes b p (take off d @ drop off d)" using assms(2) by simp
  then have "has_bytes b (p + off) (drop off d)" using assms(3) by (simp only: has_bytes_append) simp
  with peek_has_bytes [OF this, of n] assms(3) show "peek b (p + off) n = Some (take n (drop off d))" by simp
qed


definition small_kvs :: "gkv list" where
  "small_kvs = [KvU32 ''llama.embedding_length'' 64, KvU32 ''llama.block_count'' 2, KvU32 ''llama.attention.head_count'' 4,
     KvOther ''note'' (GArray GGUF_TYPE_UINT8 [GScalar GGUF_TYPE_UINT8 [7]]), KvTokens [[97], [98, 99]]]"

definition small_tensors :: "gtensor list" where
  "small_tensors = [\<lparr>gt_name = ''w'', gt_dims = [2], gt_type = 0, gt_offset = 0\<rparr>]"

definition small_file :: gbuf where
  "small_file = \<lparr>b_start = 0x1000, b_bytes = enc_file small_kvs small_tensors [1, 2, 3, 4, 5, 6, 7, 8]\<rparr>"

lemma small_kvs_effect:
  "fold kv_effect small_kvs (base_arch, []) =
     (base_arch\<lparr>embedding_length := 64, block_count := 2, attention_head_count := 4, arch_vocab_size := 2\<rparr>, [[97], [98, 99]])"
  by (simp add: small_kvs_def u32_field_def u32_table_def)

lemma small_file_ok:
  shows "\<forall>kv \<in> set small_kvs. gkv_ok kv" "length small_kvs \<le> GGUF_MAX_KV_PAIRS"
    and "\<forall>t \<in> set small_tensors. gtensor_ok t" "small_tensors \<noteq> []" "length small_tensors \<le> GGUF_MAX_STORED_TENSORS"
    and "buf_ok small_file" "b_bytes small_file = enc_file small_kvs small_tensors [1, 2, 3, 4, 5, 6, 7, 8]"
    and "kvs_cost small_kvs + (length small_tensors * TENSOR_INFO_SIZE + 48) \<le> 512"
    and "complete_arch (base_arch\<lparr>embedding_length := 64, block_count := 2, attention_head_count := 4, arch_vocab_size := 2\<rparr>)"
proof -
  show "\<forall>kv \<in> set small_kvs. gkv_ok kv" "length small_kvs \<le> GGUF_MAX_KV_PAIRS"
    by (simp_all add: small_kvs_def u32_field_def u32_table_def string_field_def string_table_def key_ok_def unknown_key_def
        other_keys_def arch_prefixes_def scalar_width_def)
  show "\<forall>t \<in> set small_tensors. gtensor_ok t" "small_tensors \<noteq> []" "length small_tensors \<le> GGUF_MAX_STORED_TENSORS"
    by (simp_all add: small_tensors_def gtensor_ok_def)
  show "buf_ok small_file" "b_bytes small_file = enc_file small_kvs small_tensors [1, 2, 3, 4, 5, 6, 7, 8]"
    by (simp_all add: small_file_def buf_ok_def enc_file_def Let_def padding_def enc_table_def small_kvs_def small_tensors_def
        enc_kv_def enc_tensor_def)
  show "kvs_cost small_kvs + (length small_tensors * TENSOR_INFO_SIZE + 48) \<le> 512"
    by (simp add: kvs_cost_def small_kvs_def small_tensors_def text_cost_def)
  show "complete_arch (base_arch\<lparr>embedding_length := 64, block_count := 2, attention_head_count := 4, arch_vocab_size := 2\<rparr>)"
    by (simp add: complete_arch_def)
qed


end
