(* ===== verification/ModelFlow.thy ===== *)
theory ModelFlow
  imports GgufFile BpeFlow
begin

text \<open>
  From the model file to the tokenizer: the tokenizer reads its vocabulary through the accessors of
  the parser of \<open>Gguf\<close>, so the texts of the file are what the lookup of \<open>Bpe\<close> finds.
\<close>

text \<open>What the tokenizer sees of the parser.\<close>

definition bpe_source :: "gguf_ctx \<Rightarrow> gguf" where
  "bpe_source c = \<lparr>vocab_count = g_vocab_count c,
     vocab = (\<lambda>i. (gguf_parser_get_token c (of_nat i), gguf_parser_get_token_score c (of_nat i))),
     arch = map_option (\<lambda>a. \<lparr>bos_token_id = arch_bos_token_id a, eos_token_id = arch_eos_token_id a,
       tokenizer_model = bytes_of (arch_tokenizer_model a)\<rparr>) (gguf_parser_get_arch c)\<rparr>"

text \<open>Token texts the tokenizer keeps as they are.\<close>

definition token_texts_ok :: "u8 list list \<Rightarrow> bool" where
  "token_texts_ok ts \<longleftrightarrow> ts \<noteq> [] \<and> length ts < 2 ^ 28 \<and> distinct ts \<and> (\<forall>t \<in> set ts. t \<noteq> [] \<and> 0 \<notin> set t \<and> length t \<le> BPE_MAX_TOKEN_LEN)
     \<and> sum_list (map (\<lambda>t. length t + 1) ts) \<le> length ts * 16"

lemma loaded_token:
  assumes "view_is c (a, ts)" "i < length ts" "0 \<notin> set (ts ! i)"
  shows "gguf_parser_get_token c (of_nat i) = Some (ts ! i)"
proof -
  have c: "unat (g_vocab_count c) = length ts" "g_vocab c \<noteq> None" "map_option snd (vocab_texts c i) = Some (ts ! i)"
    using assms(1,2) by (auto simp: view_is_def)
  have "i < 2 ^ 32" using assms(2) c(1) unsigned_less_nat [of "g_vocab_count c"] by simp
  then have i: "unat (of_nat i :: u32) = i" by (simp add: unat_of_nat)
  have "takeWhile (\<lambda>x. x \<noteq> 0) (ts ! i) = ts ! i" using assms(3) by (auto simp: takeWhile_eq_all_conv)
  with c i assms(2) show ?thesis by (auto simp: gguf_parser_get_token_def word_le_nat_alt)
qed

lemma source_pairs:
  assumes c: "view_is c (a, ts)" and ok: "\<forall>t \<in> set ts. t \<noteq> [] \<and> 0 \<notin> set t"
  shows "n \<le> length ts \<Longrightarrow> vocab_pairs (bpe_source c) n = map (\<lambda>i. (ts ! i, of_nat i, gguf_parser_get_token_score c (of_nat i))) [0..<n]"
proof (induction n)
  case (Suc n)
  with loaded_token [OF c, of n] ok show ?case
    by (simp add: vocab_pairs_Suc bpe_source_def)
qed (simp add: vocab_pairs_def)

lemma map_of_rev_Some:
  assumes "distinct ts" "i < length ts"
  shows "map_of (rev (map (\<lambda>i. (ts ! i, of_nat i :: u32)) [0..<length ts])) (ts ! i) = Some (of_nat i)"
proof -
  have "map fst (map (\<lambda>i. (ts ! i, of_nat i :: u32)) [0..<length ts]) = ts"
    by (simp add: comp_def map_nth)
  then have "distinct (map fst (rev (map (\<lambda>i. (ts ! i, of_nat i :: u32)) [0..<length ts])))"
    unfolding rev_map [symmetric] distinct_rev using assms(1) by simp
  then show ?thesis using assms(2) by (intro map_of_is_SomeI) auto
qed

lemma source_token_map:
  assumes c: "view_is c (a, ts)" and ok: "token_texts_ok ts"
  shows "texts_fit (bpe_source c)" "i < length ts \<Longrightarrow> token_map (bpe_source c) (ts ! i) = Some (of_nat i)"
    "t \<notin> set ts \<Longrightarrow> token_map (bpe_source c) t = None"
proof -
  let ?g = "bpe_source c" and ?sc = "\<lambda>i. gguf_parser_get_token_score c (of_nat i)"
  have n: "unat (vocab_count ?g) = length ts" using c by (simp add: bpe_source_def view_is_def)
  have ps: "vocab_pairs ?g (length ts) = map (\<lambda>i. (ts ! i, of_nat i, ?sc i)) [0..<length ts]"
    using source_pairs [OF c] ok by (simp add: token_texts_ok_def)
  have sh: "short_pairs (vocab_pairs ?g (length ts)) = vocab_pairs ?g (length ts)"
    unfolding ps short_pairs_def using ok by (auto simp: token_texts_ok_def filter_id_conv)
  have "map (\<lambda>(t, x). length t + 1) (vocab_pairs ?g (length ts)) = map (\<lambda>t. length t + 1) ts"
    unfolding ps by (rule nth_equalityI) auto
  with n sh ok show "texts_fit ?g" by (simp add: texts_fit_def pairs_cost_def token_texts_ok_def)
  have m: "token_map ?g = map_of (rev (map (\<lambda>i. (ts ! i, of_nat i)) [0..<length ts]))"
    unfolding token_map_def n sh unfolding ps by (simp add: comp_def)
  show "i < length ts \<Longrightarrow> token_map ?g (ts ! i) = Some (of_nat i)"
    unfolding m using ok by (intro map_of_rev_Some) (auto simp: token_texts_ok_def)
  show "t \<notin> set ts \<Longrightarrow> token_map ?g t = None"
    unfolding m by (auto simp: map_of_eq_None_iff)
qed

text \<open>
  C13. A model file made of well-formed entries, with a complete architecture, is loaded and the
  tokenizer initialised from it. When the texts of its tokens are distinct, not empty, free of NUL
  bytes, at most 64 bytes long and at most 15 bytes on average (\<open>token_texts_ok\<close>: the text pool of the
  tokenizer has 16 bytes a token, one of them for the end), and the heap has room for both, the lookup of a token
  of the file gives its index and the index gives the token's text; other texts are not found.
\<close>

theorem model_vocabulary_reaches_tokenizer:
  assumes b: "buf_ok b" "b_bytes b = enc_file kvs ts d" and d: "d \<noteq> []"
    and kvs: "\<forall>kv \<in> set kvs. gkv_ok kv" "length kvs \<le> GGUF_MAX_KV_PAIRS"
    and ts: "\<forall>t \<in> set ts. gtensor_ok t" "ts \<noteq> []" "length ts \<le> GGUF_MAX_STORED_TENSORS"
    and V: "fold kv_effect kvs (base_arch, []) = (a, toks)" "complete_arch a" and toks: "token_texts_ok toks"
    and h: "room h (kvs_cost kvs + (length ts * TENSOR_INFO_SIZE + 48 + (2 ^ 20 + 64 * length toks)))"
  shows "\<exists>c h1 s1 h2. gguf_parser_load b h = Some (0, c, h1) \<and> bpe_tokenizer_init (bpe_source c) s h1 = Some (0, s1, h2)
    \<and> (\<forall>i < length toks. bpe_vocab_lookup (toks ! i) s1 = Some (int i) \<and> texts s1 i = Some (toks ! i))
    \<and> (\<forall>t. t \<notin> set toks \<longrightarrow> bpe_vocab_lookup t s1 = Some (- 1))"
proof -
  obtain c h1 where c: "gguf_parser_load b h = Some (0, c, h1)" "view_is c (with_defaults (length toks) a, toks)"
    "room h1 (2 ^ 20 + 64 * length toks)" using load_enc [OF b d kvs ts h V] by blast
  note g = source_token_map [OF c(2) toks]
  obtain M m where M: "heap_ok h1 (M @ [(m, False)])" "\<forall>x \<in> set M. snd x" "2 ^ 20 + 64 * length toks \<le> m"
    using c(3) by (auto simp: room_def)
  have n: "unat (vocab_count (bpe_source c)) = length toks" using c(2) by (simp add: bpe_source_def view_is_def)
  obtain s1 h2 where s: "bpe_tokenizer_init (bpe_source c) s h1 = Some (0, s1, h2)"
    "\<And>t. bpe_vocab_lookup t s1 = Some (case token_map (bpe_source c) t of None \<Rightarrow> - 1 | Some tid \<Rightarrow> int (unat tid))"
    "\<And>t tid. token_map (bpe_source c) t = Some tid \<Longrightarrow> texts s1 (unat tid) = Some t"
    using bpe_loads [OF M(1,2) g(1), of s] M(3) unfolding n by blast
  have "length toks < 2 ^ 28" using toks by (simp add: token_texts_ok_def)
  then have u: "unat (of_nat i :: u32) = i" if "i < length toks" for i using that by (simp add: unat_of_nat)
  have "bpe_vocab_lookup (toks ! i) s1 = Some (int i) \<and> texts s1 i = Some (toks ! i)" if "i < length toks" for i
    using s(2) [of "toks ! i"] s(3) [OF g(2) [OF that]] g(2) [OF that] u [OF that] by simp
  moreover have "t \<notin> set toks \<Longrightarrow> bpe_vocab_lookup t s1 = Some (- 1)" for t
    using s(2) [of t] g(3) by simp
  ultimately show ?thesis using c(1) s(1) by blast
qed

theorem model_vocabulary_reaches_tokenizer_witness:
  "\<exists>h c h1 s1 h2. gguf_parser_load small_file h = Some (0, c, h1) \<and> bpe_tokenizer_init (bpe_source c) zero_bpe h1 = Some (0, s1, h2)
    \<and> bpe_vocab_lookup [98, 99] s1 = Some 1 \<and> bpe_vocab_lookup [98] s1 = Some (- 1)"
proof -
  obtain h m where "heap_ok h ([] @ [(m, False)])" "67108832 \<le> m" using demo_fresh_heap by auto
  then have h: "room h (kvs_cost small_kvs + (length small_tensors * TENSOR_INFO_SIZE + 48 + (2 ^ 20 + 64 * length [[97], [98, 99 :: u8]])))"
    using small_file_ok(8) by (intro roomI [where m = m]) simp_all
  have "token_texts_ok [[97], [98, 99]]" by (simp add: token_texts_ok_def)
  from model_vocabulary_reaches_tokenizer [OF small_file_ok(6,7) _ small_file_ok(1-5) small_kvs_effect small_file_ok(9) this h, of zero_bpe]
  obtain c h1 s1 h2 where "gguf_parser_load small_file h = Some (0, c, h1)" "bpe_tokenizer_init (bpe_source c) zero_bpe h1 = Some (0, s1, h2)"
    "\<forall>i < length [[97], [98, 99 :: u8]]. bpe_vocab_lookup ([[97], [98, 99]] ! i) s1 = Some (int i) \<and> texts s1 i = Some ([[97], [98, 99]] ! i)"
    "\<forall>t. t \<notin> set [[97], [98, 99]] \<longrightarrow> bpe_vocab_lookup t s1 = Some (- 1)" by blast
  moreover from this(3) have "bpe_vocab_lookup [98, 99] s1 = Some 1" by (auto dest: spec [of _ 1])
  moreover from calculation(4) have "bpe_vocab_lookup [98] s1 = Some (- 1)" by simp
  ultimately show ?thesis by blast
qed

end
