(* ===== verification/ModelRegistry.thy ===== *)
theory ModelRegistry
  imports Gguf
begin

text \<open>
  The registry of loaded models, \<^verbatim>\<open>src/kernel/ai/model_registry.c\<close>: eight slots, of which one
  is active, with the models and their workspaces on the modelled heap. The loader
  (\<^verbatim>\<open>src/kernel/ai/model_loader.c\<close>) is modelled up to its GGUF branch, which fills tables of
  floats and is an argument. \<open>get_cycles\<close> is the counter of the targets other than x86.
\<close>

abbreviation (input) MODEL_REGISTRY_MAX_MODELS :: nat where "MODEL_REGISTRY_MAX_MODELS \<equiv> 8"
abbreviation (input) MODEL_ID_INVALID :: int where "MODEL_ID_INVALID \<equiv> - 1"

text \<open>\<open>sizeof(struct embodios_model)\<close>\<close>

abbreviation (input) MODEL_SIZE :: nat where "MODEL_SIZE \<equiv> 192"

datatype model_slot_state =
  MODEL_SLOT_FREE | MODEL_SLOT_LOADING | MODEL_SLOT_READY | MODEL_SLOT_ACTIVE | MODEL_SLOT_UNLOADING

text \<open>The fields of \<^verbatim>\<open>struct embodios_model\<close> the registry reads.\<close>

record embodios_model =
  m_magic :: u32
  m_name :: string
  m_arch :: string
  memory_required :: nat
  m_capabilities :: u32
  m_size :: nat

record model_slot =
  slot_id :: int
  slot_state :: model_slot_state
  slot_model :: "(nat \<times> embodios_model) option"
  slot_workspace :: "nat option"
  workspace_size :: nat
  load_time :: u64
  last_used :: u64
  inference_count :: u32
  slot_capabilities :: u32
  source_path :: string

record registry =
  reg_initialized :: bool
  reg_slots :: "model_slot list"
  active_id :: int
  total_loads :: u32
  total_unloads :: u32
  total_switches :: u32
  current_count :: u32
  total_memory_used :: u64
  cycle_counter :: u64

abbreviation (input) MODEL_REG_OK :: int where "MODEL_REG_OK \<equiv> 0"
abbreviation (input) MODEL_REG_ERR_NOT_INIT :: int where "MODEL_REG_ERR_NOT_INIT \<equiv> - 1"
abbreviation (input) MODEL_REG_ERR_NO_SLOT :: int where "MODEL_REG_ERR_NO_SLOT \<equiv> - 2"
abbreviation (input) MODEL_REG_ERR_INVALID_DATA :: int where "MODEL_REG_ERR_INVALID_DATA \<equiv> - 3"
abbreviation (input) MODEL_REG_ERR_NO_MEMORY :: int where "MODEL_REG_ERR_NO_MEMORY \<equiv> - 4"
abbreviation (input) MODEL_REG_ERR_INVALID_ID :: int where "MODEL_REG_ERR_INVALID_ID \<equiv> - 5"
abbreviation (input) MODEL_REG_ERR_NOT_LOADED :: int where "MODEL_REG_ERR_NOT_LOADED \<equiv> - 6"
abbreviation (input) MODEL_REG_ERR_NOT_FOUND :: int where "MODEL_REG_ERR_NOT_FOUND \<equiv> - 8"

section \<open>The loader\<close>

text \<open>A loader gives the address and the contents of the model it made, and the heap.\<close>

type_synonym loader = "heap \<Rightarrow> ((nat \<times> embodios_model) option \<times> heap) option"

text \<open>
  The placeholder models of the GGML and SafeTensors formats. \<open>kmalloc\<close> does not clear the block, so
  the other fields keep what it held: \<open>old\<close>.
\<close>

definition load_placeholder :: "string \<Rightarrow> nat \<Rightarrow> embodios_model \<Rightarrow> loader" where
  "load_placeholder name sz old h = do {
     (p, h1) \<leftarrow> heap_alloc MODEL_SIZE h;
     Some (map_option (\<lambda>p. (p, old\<lparr>m_magic := 0x454D424F, m_name := name, m_arch := ''unknown'', m_size := sz\<rparr>)) p, h1) }"

definition load_model_from_memory :: "gbuf \<Rightarrow> loader \<Rightarrow> embodios_model \<Rightarrow> loader" where
  "load_model_from_memory b load_gguf_model old h =
     (let sz = length (b_bytes b)
      in if sz < 16 then Some (None, h)
         else do {
           d \<leftarrow> peek b (b_start b) 4;
           let magic = le_nat d;
           if magic = 0x46554747 then load_gguf_model h
           else if magic = 0x67676d6c then load_placeholder ''GGML Model'' sz old h
           else if magic = 0x7B226865 then load_placeholder ''SafeTensors Model'' sz old h
           else Some (None, h)
         })"

section \<open>Slots\<close>

definition upd_slot :: "nat \<Rightarrow> (model_slot \<Rightarrow> model_slot) \<Rightarrow> registry \<Rightarrow> registry" where
  "upd_slot i f r = r\<lparr>reg_slots := (reg_slots r)[i := f (reg_slots r ! i)]\<rparr>"

definition get_cycles :: "registry \<Rightarrow> u64 \<times> registry" where
  "get_cycles r = (cycle_counter r, r\<lparr>cycle_counter := cycle_counter r + 1\<rparr>)"

definition safe_strncpy :: "string \<Rightarrow> nat \<Rightarrow> string" where
  "safe_strncpy src n = take (n - 1) src"

definition find_free_slot :: "registry \<Rightarrow> nat option" where
  "find_free_slot r = find (\<lambda>i. slot_state (reg_slots r ! i) = MODEL_SLOT_FREE) [0..<MODEL_REGISTRY_MAX_MODELS]"

definition is_valid_id :: "int \<Rightarrow> bool" where
  "is_valid_id i \<longleftrightarrow> 0 \<le> i \<and> i < int MODEL_REGISTRY_MAX_MODELS"

definition empty_slot :: "nat \<Rightarrow> model_slot" where
  "empty_slot i = \<lparr>slot_id = int i, slot_state = MODEL_SLOT_FREE, slot_model = None, slot_workspace = None,
     workspace_size = 0, load_time = 0, last_used = 0, inference_count = 0, slot_capabilities = 0, source_path = []\<rparr>"

definition model_registry_init :: "registry \<Rightarrow> registry" where
  "model_registry_init r =
     (if reg_initialized r then r
      else r\<lparr>reg_slots := map empty_slot [0..<MODEL_REGISTRY_MAX_MODELS], total_loads := 0, total_unloads := 0,
        total_switches := 0, current_count := 0, total_memory_used := 0, active_id := MODEL_ID_INVALID,
        reg_initialized := True\<rparr>)"

section \<open>Switching, loading, unloading\<close>

definition model_registry_switch :: "int \<Rightarrow> registry \<Rightarrow> int \<times> registry" where
  "model_registry_switch i r =
     (if \<not> reg_initialized r then (MODEL_REG_ERR_NOT_INIT, r)
      else if \<not> is_valid_id i then (MODEL_REG_ERR_INVALID_ID, r)
      else
        let st = slot_state (reg_slots r ! nat i)
        in if st \<noteq> MODEL_SLOT_READY \<and> st \<noteq> MODEL_SLOT_ACTIVE then (MODEL_REG_ERR_NOT_LOADED, r)
           else if active_id r = i then (MODEL_REG_OK, r)
           else
             let r1 = (if active_id r \<noteq> MODEL_ID_INVALID
                       then upd_slot (nat (active_id r)) (\<lambda>s. s\<lparr>slot_state := MODEL_SLOT_READY\<rparr>) r else r);
                 r2 = upd_slot (nat i) (\<lambda>s. s\<lparr>slot_state := MODEL_SLOT_ACTIVE\<rparr>) r1;
                 (t, r3) = get_cycles r2;
                 r4 = upd_slot (nat i) (\<lambda>s. s\<lparr>last_used := t\<rparr>) r3
             in (MODEL_REG_OK, r4\<lparr>active_id := i, total_switches := total_switches r4 + 1\<rparr>))"

definition model_registry_load :: "loader \<Rightarrow> string option \<Rightarrow> registry \<Rightarrow> heap \<Rightarrow> (int \<times> registry \<times> heap) option" where
  "model_registry_load load_model name r h =
     (if \<not> reg_initialized r then Some (MODEL_REG_ERR_NOT_INIT, r, h)
      else case find_free_slot r of
        None \<Rightarrow> Some (MODEL_REG_ERR_NO_SLOT, r, h)
      | Some i \<Rightarrow>
          let r1 = upd_slot i (\<lambda>s. s\<lparr>slot_state := MODEL_SLOT_LOADING\<rparr>) r;
              free = upd_slot i (\<lambda>s. s\<lparr>slot_state := MODEL_SLOT_FREE\<rparr>) r1
          in do {
            (mdl, h1) \<leftarrow> load_model h;
            (case mdl of
               None \<Rightarrow> Some (MODEL_REG_ERR_INVALID_DATA, free, h1)
             | Some (p, m) \<Rightarrow>
                 let n = (if memory_required m = 0 then 32 * 1024 * 1024 else memory_required m)
                 in do {
                   (w, h2) \<leftarrow> heap_alloc n h1;
                   (case w of
                      None \<Rightarrow> Some (MODEL_REG_ERR_NO_MEMORY, free, kfree (Some p) h2)
                    | Some w \<Rightarrow>
                        let (t, r2) = get_cycles r1;
                            path = (case name of
                                Some s \<Rightarrow> if s \<noteq> [] then safe_strncpy s 128 else safe_strncpy (m_name m) 128
                              | None \<Rightarrow> safe_strncpy (m_name m) 128);
                            r3 = upd_slot i (\<lambda>s. s\<lparr>slot_model := Some (p, m), slot_workspace := Some w, workspace_size := n,
                                   load_time := t, last_used := t, inference_count := 0, slot_capabilities := m_capabilities m,
                                   source_path := path, slot_state := MODEL_SLOT_READY\<rparr>) r2;
                            r4 = r3\<lparr>total_loads := total_loads r3 + 1, current_count := current_count r3 + 1,
                                   total_memory_used := total_memory_used r3 + of_nat (m_size m + n)\<rparr>;
                            r5 = (if current_count r4 = 1 then snd (model_registry_switch (int i) r4) else r4)
                        in Some (int i, r5, h2)) }) })"

definition find_alternative :: "nat \<Rightarrow> registry \<Rightarrow> nat option" where
  "find_alternative i r =
     find (\<lambda>j. j \<noteq> i \<and> slot_state (reg_slots r ! j) = MODEL_SLOT_READY) [0..<MODEL_REGISTRY_MAX_MODELS]"

definition model_registry_unload :: "int \<Rightarrow> registry \<Rightarrow> heap \<Rightarrow> int \<times> registry \<times> heap" where
  "model_registry_unload i r h =
     (if \<not> reg_initialized r then (MODEL_REG_ERR_NOT_INIT, r, h)
      else if \<not> is_valid_id i then (MODEL_REG_ERR_INVALID_ID, r, h)
      else if slot_state (reg_slots r ! nat i) = MODEL_SLOT_FREE then (MODEL_REG_ERR_NOT_LOADED, r, h)
      else
        let r1 = (if active_id r = i
                  then (case find_alternative (nat i) r of
                          Some j \<Rightarrow> snd (model_registry_switch (int j) r)
                        | None \<Rightarrow> r\<lparr>active_id := MODEL_ID_INVALID\<rparr>)
                  else r);
            r2 = upd_slot (nat i) (\<lambda>s. s\<lparr>slot_state := MODEL_SLOT_UNLOADING\<rparr>) r1;
            s = reg_slots r2 ! nat i;
            freed = workspace_size s + (case slot_model s of None \<Rightarrow> 0 | Some (_, m) \<Rightarrow> m_size m);
            h1 = kfree (slot_workspace s) h;
            h2 = kfree (map_option fst (slot_model s)) h1;
            r3 = upd_slot (nat i) (\<lambda>s. s\<lparr>slot_workspace := None, slot_model := None, slot_state := MODEL_SLOT_FREE,
                   workspace_size := 0, load_time := 0, last_used := 0, inference_count := 0, slot_capabilities := 0,
                   source_path := []\<rparr>) r2
        in (MODEL_REG_OK, r3\<lparr>total_unloads := total_unloads r3 + 1, current_count := current_count r3 - 1,
              total_memory_used := total_memory_used r3 - of_nat freed\<rparr>, h2))"

fun unload_all :: "nat list \<Rightarrow> registry \<Rightarrow> heap \<Rightarrow> registry \<times> heap" where
  "unload_all [] r h = (r, h)"
| "unload_all (i # js) r h =
     (if slot_state (reg_slots r ! i) \<noteq> MODEL_SLOT_FREE
      then let (_, r1, h1) = model_registry_unload (int i) r h in unload_all js r1 h1
      else unload_all js r h)"

definition model_registry_shutdown :: "registry \<Rightarrow> heap \<Rightarrow> registry \<times> heap" where
  "model_registry_shutdown r h =
     (if \<not> reg_initialized r then (r, h)
      else let (r1, h1) = unload_all [0..<MODEL_REGISTRY_MAX_MODELS] r h
           in (r1\<lparr>reg_initialized := False, active_id := MODEL_ID_INVALID\<rparr>, h1))"

text \<open>The embedded model: the bytes between two linker symbols.\<close>

definition model_registry_load_embedded :: "nat \<Rightarrow> loader \<Rightarrow> string \<Rightarrow> registry \<Rightarrow> heap \<Rightarrow> (int \<times> registry \<times> heap) option" where
  "model_registry_load_embedded n load_model name r h =
     (if (name = ''tinystories'' \<or> name = ''tinystories-15m'') \<and> 0 < n \<and> n < 1024 * 1024 * 1024
      then model_registry_load load_model (Some ''TinyStories-15M'') r h
      else Some (MODEL_REG_ERR_NOT_FOUND, r, h))"

definition model_registry_record_inference :: "registry \<Rightarrow> registry" where
  "model_registry_record_inference r =
     (if \<not> reg_initialized r \<or> active_id r = MODEL_ID_INVALID then r
      else
        let i = nat (active_id r); (t, r1) = get_cycles r
        in upd_slot i (\<lambda>s. s\<lparr>inference_count := inference_count s + 1, last_used := t\<rparr>) r1)"

section \<open>Queries\<close>

definition model_registry_get_active :: "registry \<Rightarrow> (nat \<times> embodios_model) option" where
  "model_registry_get_active r =
     (if \<not> reg_initialized r \<or> active_id r = MODEL_ID_INVALID then None
      else slot_model (reg_slots r ! nat (active_id r)))"

definition model_registry_get_active_id :: "registry \<Rightarrow> int" where
  "model_registry_get_active_id r = (if \<not> reg_initialized r then MODEL_ID_INVALID else active_id r)"

definition model_registry_get :: "int \<Rightarrow> registry \<Rightarrow> (nat \<times> embodios_model) option" where
  "model_registry_get i r =
     (if \<not> reg_initialized r \<or> \<not> is_valid_id i then None else slot_model (reg_slots r ! nat i))"

definition model_registry_get_capabilities :: "int \<Rightarrow> registry \<Rightarrow> u32" where
  "model_registry_get_capabilities i r =
     (if \<not> reg_initialized r \<or> \<not> is_valid_id i then 0
      else if slot_state (reg_slots r ! nat i) = MODEL_SLOT_FREE then 0
      else slot_capabilities (reg_slots r ! nat i))"

definition model_registry_find_by_name :: "string \<Rightarrow> registry \<Rightarrow> int" where
  "model_registry_find_by_name name r =
     (if \<not> reg_initialized r then MODEL_ID_INVALID
      else case find (\<lambda>i. let s = reg_slots r ! i
             in slot_state s \<noteq> MODEL_SLOT_FREE \<and> (source_path s = name \<or> (case slot_model s of None \<Rightarrow> False | Some (_, m) \<Rightarrow> m_name m = name)))
             [0..<MODEL_REGISTRY_MAX_MODELS] of
             None \<Rightarrow> MODEL_ID_INVALID | Some i \<Rightarrow> int i)"

definition model_registry_count :: "registry \<Rightarrow> u32" where
  "model_registry_count r = (if \<not> reg_initialized r then 0 else current_count r)"

definition model_registry_has_free_slot :: "registry \<Rightarrow> bool" where
  "model_registry_has_free_slot r \<longleftrightarrow> find_free_slot r \<noteq> None"

end
