(* ===== verification/Pools.thy ===== *)
theory Pools
  imports Allocators "HOL-Library.Multiset"
begin

text \<open>
  The allocator seen by clients that share it: \<open>holds s M\<close> says which blocks are live, and a
  client that keeps its own apart from the rest of \<open>M\<close> need not know that rest.
\<close>

definition block_of :: "nat option \<Rightarrow> nat multiset" where
  "block_of p = (case p of None \<Rightarrow> {#} | Some a \<Rightarrow> {#a#})"

lemma block_of_simps [simp]: "block_of None = {#}" "block_of (Some a) = {#a#}"
  by (simp_all add: block_of_def)

locale block_pool =
  fixes holds :: "'s \<Rightarrow> nat multiset \<Rightarrow> bool"
    and get :: "nat \<Rightarrow> 's \<Rightarrow> (nat option \<times> 's) option"
    and put :: "nat \<Rightarrow> 's \<Rightarrow> 's"
    and ok :: "nat \<Rightarrow> bool"
  assumes get_holds: "holds s M \<Longrightarrow> ok n \<Longrightarrow> \<exists>p s'. get n s = Some (p, s') \<and> holds s' (M + block_of p)"
    and put_holds: "holds s (M + {#p#}) \<Longrightarrow> holds (put p s) M"
begin

definition put_opt :: "nat option \<Rightarrow> 's \<Rightarrow> 's" where
  "put_opt p s = (case p of None \<Rightarrow> s | Some a \<Rightarrow> put a s)"

lemma put_opt_holds: "holds s (M + block_of p) \<Longrightarrow> holds (put_opt p s) M"
  by (cases p) (simp_all add: put_opt_def put_holds)

lemma put_two_holds: "holds s (M + (block_of p + block_of q)) \<Longrightarrow> holds (put_opt p (put_opt q s)) M"
  by (intro put_opt_holds) (simp add: add.assoc)

end

end
