(* ===== verification/RegistryFlow.thy ===== *)
theory RegistryFlow
  imports ModelRegistry Pools
begin

text \<open>
  The registry of \<open>ModelRegistry\<close> over any sequence of calls: its invariant, and that the heap holds
  its models and workspaces and gets all of them back.
\<close>

section \<open>Slots in a list\<close>

lemma sum_list_upd:
  fixes g :: "'a \<Rightarrow> 'b::comm_monoid_add"
  assumes "i < length xs"
  shows "sum_list (map g (xs[i := y])) + g (xs ! i) = sum_list (map g xs) + g y"
proof -
  have "sum_list (map g xs) = sum_list (map g (take i xs @ xs ! i # drop (Suc i) xs))"
    using id_take_nth_drop [OF assms] by simp
  then show ?thesis unfolding upd_conv_take_nth_drop [OF assms] by (simp add: ac_simps)
qed

definition slot_ids :: "model_slot list \<Rightarrow> bool" where
  "slot_ids xs \<longleftrightarrow> length xs = MODEL_REGISTRY_MAX_MODELS \<and> (\<forall>i < length xs. slot_id (xs ! i) = int i)"

lemma slot_ids_upd: "slot_ids xs \<Longrightarrow> slot_id y = int i \<Longrightarrow> slot_ids (xs[i := y])"
  by (cases "i < length xs") (auto simp: slot_ids_def nth_list_update)

lemma slot_at_id: "slot_ids xs \<Longrightarrow> i < MODEL_REGISTRY_MAX_MODELS \<Longrightarrow> slot_id (xs ! i) = int i"
  by (simp add: slot_ids_def)

lemma slots_upd_slot [simp]:
  "reg_slots (upd_slot i f r) = (reg_slots r)[i := f (reg_slots r ! i)]"
  "active_id (upd_slot i f r) = active_id r" "reg_initialized (upd_slot i f r) = reg_initialized r"
  "total_loads (upd_slot i f r) = total_loads r" "total_unloads (upd_slot i f r) = total_unloads r"
  "current_count (upd_slot i f r) = current_count r" "total_memory_used (upd_slot i f r) = total_memory_used r"
  by (simp_all add: upd_slot_def)

section \<open>The blocks of the heap\<close>

definition heap_holds :: "nat \<Rightarrow> nat \<Rightarrow> heap \<Rightarrow> nat multiset \<Rightarrow> bool" where
  "heap_holds lo hi h M \<longleftrightarrow> (\<exists>log. heap_inv lo hi h log \<and> mset (map fst log) = M)"

lemma heap_holds_distinct: "heap_holds lo hi h (M + N) \<Longrightarrow> set_mset M \<inter> set_mset N = {}"
proof -
  assume "heap_holds lo hi h (M + N)"
  then obtain log :: "(nat \<times> nat) list" where "distinct (map fst log)" "mset (map fst log) = M + N"
    unfolding heap_holds_def heap_inv_def by (elim exE conjE) (rule that)
  then have c: "count (M + N) x \<le> 1" for x by (metis distinct_count_atmost_1 le_zero_eq linear zero_le_one)
  have False if "x \<in># M" "x \<in># N" for x
  proof -
    have "0 < count M x" "0 < count N x" using that by simp_all
    with c [of x] show False by simp
  qed
  then show ?thesis by blast
qed

lemma heap_alloc_holds:
  assumes "heap_holds lo hi h M" "heap_request n"
  shows "\<exists>p h'. heap_alloc n h = Some (p, h') \<and> heap_holds lo hi h' (M + block_of p)"
proof -
  obtain log where l: "heap_inv lo hi h log" "mset (map fst log) = M" using assms(1) by (auto simp: heap_holds_def)
  obtain p h' where p: "heap_alloc n h = Some (p, h')" "heap_inv lo hi h' (case p of None \<Rightarrow> log | Some a \<Rightarrow> (a, n) # log)"
    using heap_get [OF l(1) assms(2)] by blast
  have "mset (map fst (case p of None \<Rightarrow> log | Some a \<Rightarrow> (a, n) # log)) = M + block_of p"
    using l(2) by (cases p) auto
  with p show ?thesis by (auto simp: heap_holds_def)
qed

lemma heap_free_holds:
  assumes "heap_holds lo hi h (M + {#p#})"
  shows "heap_holds lo hi (heap_free p h) M"
proof -
  obtain log where l: "heap_inv lo hi h log" "mset (map fst log) = M + {#p#}" using assms by (auto simp: heap_holds_def)
  have "p \<in> set (map fst log)" unfolding set_mset_mset [symmetric] l(2) by simp
  then obtain k where k: "k < length log" "fst (log ! k) = p" by (auto simp: in_set_conv_nth)
  have "mset log = mset (drop_nth k log) + {#log ! k#}"
    using id_take_nth_drop [OF k(1)] by (metis drop_nth_def mset.simps(2) mset_append union_mset_add_mset_right add_mset_add_single)
  then have "mset (map fst log) = mset (map fst (drop_nth k log)) + {#p#}" using k(2) by simp
  with l(2) have "mset (map fst (drop_nth k log)) = M" by simp
  with heap_free_inv [OF l(1) k(1)] k(2) show ?thesis by (auto simp: heap_holds_def)
qed

interpretation pool: block_pool "heap_holds lo hi" heap_alloc heap_free heap_request for lo hi
  by unfold_locales (rule heap_alloc_holds heap_free_holds; assumption)+

lemma kfree_pool: "kfree = pool.put_opt"
  by (intro ext) (simp add: kfree_def pool.put_opt_def)

section \<open>The invariant\<close>

definition slot_data :: "model_slot \<Rightarrow> bool" where
  "slot_data s \<longleftrightarrow> (slot_state s \<noteq> MODEL_SLOT_FREE \<longleftrightarrow> slot_model s \<noteq> None)
     \<and> (slot_state s \<noteq> MODEL_SLOT_FREE \<longleftrightarrow> slot_workspace s \<noteq> None)
     \<and> (slot_state s = MODEL_SLOT_FREE \<longrightarrow> workspace_size s = 0)"

definition slot_ok :: "int \<Rightarrow> model_slot \<Rightarrow> bool" where
  "slot_ok a s \<longleftrightarrow> slot_state s \<in> {MODEL_SLOT_FREE, MODEL_SLOT_READY, MODEL_SLOT_ACTIVE}
     \<and> (slot_state s = MODEL_SLOT_ACTIVE \<longleftrightarrow> slot_id s = a)"

definition slot_count :: "model_slot \<Rightarrow> nat" where
  "slot_count s = (if slot_state s = MODEL_SLOT_FREE then 0 else 1)"

definition slot_mem :: "model_slot \<Rightarrow> nat" where
  "slot_mem s = workspace_size s + (case slot_model s of None \<Rightarrow> 0 | Some (_, m) \<Rightarrow> m_size m)"

text \<open>The blocks of the heap a slot, and the registry, hold.\<close>

definition slot_blocks :: "model_slot \<Rightarrow> nat multiset" where
  "slot_blocks s = (case slot_model s of None \<Rightarrow> {#} | Some (p, _) \<Rightarrow> {#p#})
     + (case slot_workspace s of None \<Rightarrow> {#} | Some w \<Rightarrow> {#w#})"

definition held :: "registry \<Rightarrow> nat multiset" where
  "held r = sum_list (map slot_blocks (reg_slots r))"

definition reg_counts :: "registry \<Rightarrow> bool" where
  "reg_counts r \<longleftrightarrow> current_count r = of_nat (sum_list (map slot_count (reg_slots r)))
     \<and> total_loads r = total_unloads r + current_count r
     \<and> total_memory_used r = of_nat (sum_list (map slot_mem (reg_slots r)))"

text \<open>The invariant, with the slot \<open>i\<close> between two states.\<close>

definition reg_ok_except :: "int \<Rightarrow> registry \<Rightarrow> bool" where
  "reg_ok_except i r \<longleftrightarrow> reg_initialized r \<and> slot_ids (reg_slots r) \<and> reg_counts r
     \<and> (active_id r = MODEL_ID_INVALID \<or> is_valid_id (active_id r))
     \<and> (\<forall>j < MODEL_REGISTRY_MAX_MODELS. slot_data (reg_slots r ! j) \<and> (int j \<noteq> i \<longrightarrow>
          slot_ok (active_id r) (reg_slots r ! j)
          \<and> (active_id r = MODEL_ID_INVALID \<longrightarrow> slot_state (reg_slots r ! j) = MODEL_SLOT_FREE)))"

text \<open>
  Each slot is free and empty or holds a model; the active slot is the one \<open>active_id\<close> names; when
  a model is loaded, one is active; the counters are those of the slots.
\<close>

definition reg_ok :: "registry \<Rightarrow> bool" where
  "reg_ok r \<longleftrightarrow> reg_ok_except MODEL_ID_INVALID r"

lemma reg_okI:
  assumes "reg_ok_except (int i) r" "slot_ok (active_id r) (reg_slots r ! i)"
    "active_id r = MODEL_ID_INVALID \<Longrightarrow> slot_state (reg_slots r ! i) = MODEL_SLOT_FREE"
  shows "reg_ok r"
  using assms unfolding reg_ok_def reg_ok_except_def by (metis of_nat_eq_iff)

lemma reg_ok_except: "reg_ok r \<Longrightarrow> reg_ok_except i r"
  by (simp add: reg_ok_def reg_ok_except_def)

lemma reg_ok_slots:
  assumes "reg_ok r"
  shows "i < MODEL_REGISTRY_MAX_MODELS \<Longrightarrow> slot_ok (active_id r) (reg_slots r ! i)"
    "i < MODEL_REGISTRY_MAX_MODELS \<Longrightarrow> slot_data (reg_slots r ! i)"
    "i < MODEL_REGISTRY_MAX_MODELS \<Longrightarrow> active_id r = MODEL_ID_INVALID \<Longrightarrow> slot_state (reg_slots r ! i) = MODEL_SLOT_FREE"
    "slot_ids (reg_slots r)" "reg_initialized r" "active_id r = MODEL_ID_INVALID \<or> is_valid_id (active_id r)"
  using assms by (simp_all add: reg_ok_def reg_ok_except_def)

lemma reg_init_ok: "\<not> reg_initialized r \<Longrightarrow> reg_ok (model_registry_init r)" "\<not> reg_initialized r \<Longrightarrow> held (model_registry_init r) = {#}"
proof -
  have m: "sum_list (map (f \<circ> empty_slot) xs) = 0" if "\<And>i. f (empty_slot i) = 0" for f :: "model_slot \<Rightarrow> 'a::comm_monoid_add" and xs
    using that by (induction xs) auto
  show "\<not> reg_initialized r \<Longrightarrow> held (model_registry_init r) = {#}"
    unfolding held_def model_registry_init_def
    by (simp add: m slot_blocks_def empty_slot_def del: upt_Suc)
  show "\<not> reg_initialized r \<Longrightarrow> reg_ok (model_registry_init r)"
    unfolding reg_ok_def reg_ok_except_def reg_counts_def model_registry_init_def
    by (auto simp: m slot_count_def slot_mem_def empty_slot_def slot_ids_def slot_data_def slot_ok_def simp del: upt_Suc)
qed

section \<open>Changing one slot\<close>

text \<open>The counters after a change of slot \<open>i\<close>.\<close>

lemma reg_counts_same:
  assumes "reg_counts r" "slot_ids (reg_slots r)" "i < MODEL_REGISTRY_MAX_MODELS"
    and "slot_count (f (reg_slots r ! i)) = slot_count (reg_slots r ! i)" "slot_mem (f (reg_slots r ! i)) = slot_mem (reg_slots r ! i)"
  shows "reg_counts (upd_slot i f r)"
proof -
  have "i < length (reg_slots r)" using assms(2,3) by (simp add: slot_ids_def)
  from sum_list_upd [OF this, of slot_count "f (reg_slots r ! i)"] sum_list_upd [OF this, of slot_mem "f (reg_slots r ! i)"] assms
  show ?thesis by (simp add: reg_counts_def)
qed

lemma held_upd:
  assumes "slot_ids (reg_slots r)" "i < MODEL_REGISTRY_MAX_MODELS"
  shows "held (upd_slot i f r) + slot_blocks (reg_slots r ! i) = held r + slot_blocks (f (reg_slots r ! i))"
proof -
  have "i < length (reg_slots r)" using assms by (simp add: slot_ids_def)
  then show ?thesis by (simp add: held_def sum_list_upd)
qed

lemma held_same:
  "slot_ids (reg_slots r) \<Longrightarrow> i < MODEL_REGISTRY_MAX_MODELS \<Longrightarrow> slot_blocks (f (reg_slots r ! i)) = slot_blocks (reg_slots r ! i)
    \<Longrightarrow> held (upd_slot i f r) = held r"
  using held_upd [of r i f] by simp

text \<open>A change of the state, or of the time, of a loaded slot.\<close>

lemma slot_restate:
  "slot_count (s\<lparr>slot_state := x\<rparr>) = (if x = MODEL_SLOT_FREE then 0 else 1)" "slot_mem (s\<lparr>slot_state := x\<rparr>) = slot_mem s"
  "slot_blocks (s\<lparr>slot_state := x\<rparr>) = slot_blocks s" "slot_count (s\<lparr>last_used := t\<rparr>) = slot_count s"
  "slot_mem (s\<lparr>last_used := t\<rparr>) = slot_mem s" "slot_blocks (s\<lparr>last_used := t\<rparr>) = slot_blocks s"
  "slot_data s \<Longrightarrow> slot_state s \<noteq> MODEL_SLOT_FREE \<Longrightarrow> x \<noteq> MODEL_SLOT_FREE \<Longrightarrow> slot_data (s\<lparr>slot_state := x\<rparr>)"
  "slot_data (s\<lparr>last_used := t\<rparr>) = slot_data s" "slot_ok a (s\<lparr>last_used := t\<rparr>) = slot_ok a s"
  by (auto simp: slot_count_def slot_mem_def slot_blocks_def slot_data_def slot_ok_def)

lemma slot_ok_state: "slot_ok a (s\<lparr>slot_state := x\<rparr>) \<longleftrightarrow> x \<in> {MODEL_SLOT_FREE, MODEL_SLOT_READY, MODEL_SLOT_ACTIVE}
    \<and> (x = MODEL_SLOT_ACTIVE \<longleftrightarrow> slot_id s = a)"
  by (simp add: slot_ok_def)

lemma get_cycles_eq: "get_cycles r = (cycle_counter r, r\<lparr>cycle_counter := cycle_counter r + 1\<rparr>)"
  by (simp add: get_cycles_def)

lemma held_fields [simp]:
  "held (r\<lparr>cycle_counter := t\<rparr>) = held r" "held (r\<lparr>active_id := a\<rparr>) = held r" "held (r\<lparr>total_switches := n\<rparr>) = held r"
  "held (r\<lparr>total_loads := x\<rparr>) = held r" "held (r\<lparr>current_count := y\<rparr>) = held r" "held (r\<lparr>total_memory_used := z\<rparr>) = held r"
  "held (r\<lparr>total_unloads := u\<rparr>) = held r" "held (r\<lparr>reg_initialized := v\<rparr>) = held r"
  by (simp_all add: held_def)

lemma counts_fields [simp]:
  "reg_counts (r\<lparr>cycle_counter := t\<rparr>) = reg_counts r" "reg_counts (r\<lparr>active_id := a\<rparr>) = reg_counts r"
  "reg_counts (r\<lparr>total_switches := n\<rparr>) = reg_counts r"
  by (simp_all add: reg_counts_def)

lemma switch_ok:
  assumes r: "reg_ok_except (int i) r" and i: "i < MODEL_REGISTRY_MAX_MODELS" and ok: "slot_ok (active_id r) (reg_slots r ! i)"
    and st: "slot_state (reg_slots r ! i) \<noteq> MODEL_SLOT_FREE"
  shows "\<exists>r'. model_registry_switch (int i) r = (MODEL_REG_OK, r') \<and> reg_ok r' \<and> held r' = held r \<and> active_id r' = int i
    \<and> (\<forall>j < MODEL_REGISTRY_MAX_MODELS. slot_model (reg_slots r' ! j) = slot_model (reg_slots r ! j)
        \<and> (slot_state (reg_slots r' ! j) = MODEL_SLOT_FREE \<longleftrightarrow> slot_state (reg_slots r ! j) = MODEL_SLOT_FREE))"
proof (cases "active_id r = int i")
  case True
  have "slot_state (reg_slots r ! i) = MODEL_SLOT_READY \<or> slot_state (reg_slots r ! i) = MODEL_SLOT_ACTIVE"
    using ok st by (auto simp: slot_ok_def)
  then have "model_registry_switch (int i) r = (MODEL_REG_OK, r)"
    using r i True by (simp add: model_registry_switch_def is_valid_id_def reg_ok_except_def Let_def)
  with True reg_okI [OF r ok] show ?thesis by simp
next
  case False
  let ?a = "active_id r" and ?R = "reg_slots r"
  have ids: "slot_ids ?R" and len: "length ?R = 8" using r by (simp_all add: reg_ok_except_def slot_ids_def)
  have valid: "?a = MODEL_ID_INVALID \<or> is_valid_id ?a" using r by (simp add: reg_ok_except_def)
  define r1 where "r1 = (if ?a \<noteq> MODEL_ID_INVALID then upd_slot (nat ?a) (\<lambda>s. s\<lparr>slot_state := MODEL_SLOT_READY\<rparr>) r else r)"
  define r2 where "r2 = upd_slot i (\<lambda>s. s\<lparr>slot_state := MODEL_SLOT_ACTIVE\<rparr>) r1"
  define r3 where "r3 = r2\<lparr>cycle_counter := cycle_counter r2 + 1\<rparr>"
  define r4 where "r4 = upd_slot i (\<lambda>s. s\<lparr>last_used := cycle_counter r2\<rparr>) r3"
  define r' where "r' = r4\<lparr>active_id := int i, total_switches := total_switches r4 + 1\<rparr>"
  have sw: "model_registry_switch (int i) r = (MODEL_REG_OK, r')"
    using r i False ok st by (auto simp: model_registry_switch_def is_valid_id_def reg_ok_except_def get_cycles_eq Let_def slot_ok_def
      r1_def r2_def r3_def r4_def r'_def)
  have i': "i < length ?R" using i len by simp
  have at: "reg_slots r' ! j = (if j = i then (?R ! i)\<lparr>slot_state := MODEL_SLOT_ACTIVE, last_used := cycle_counter r2\<rparr>
      else if int j = ?a then (?R ! j)\<lparr>slot_state := MODEL_SLOT_READY\<rparr> else ?R ! j)" if "j < MODEL_REGISTRY_MAX_MODELS" for j
    using that i' len False valid by (auto simp: nth_list_update is_valid_id_def r1_def r2_def r3_def r4_def r'_def)
  have id: "slot_id (?R ! j) = int j" if "j < MODEL_REGISTRY_MAX_MODELS" for j using ids that len by (simp add: slot_ids_def)
  have act: "slot_state (?R ! nat ?a) = MODEL_SLOT_ACTIVE" "slot_data (?R ! nat ?a)" "nat ?a < length ?R" "nat ?a \<noteq> i" if "?a \<noteq> MODEL_ID_INVALID"
  proof -
    have "is_valid_id ?a" using valid that by blast
    then have k: "nat ?a < 8" "int (nat ?a) = ?a" by (auto simp: is_valid_id_def)
    then have "slot_ok ?a (?R ! nat ?a) \<and> slot_data (?R ! nat ?a)" using r False by (metis reg_ok_except_def)
    with id [OF k(1)] k False show "slot_state (?R ! nat ?a) = MODEL_SLOT_ACTIVE" "slot_data (?R ! nat ?a)" "nat ?a < length ?R" "nat ?a \<noteq> i"
      using len by (auto simp: slot_ok_def)
  qed
  have 1: "reg_counts r1 \<and> held r1 = held r \<and> slot_ids (reg_slots r1) \<and> reg_slots r1 ! i = ?R ! i"
  proof (cases "?a = MODEL_ID_INVALID")
    case True
    with r show ?thesis by (simp add: reg_ok_except_def r1_def)
  next
    case False
    note a = act [OF False]
    have "nat ?a < 8" using a(3) len by simp
    with a id [of "nat ?a"] r ids False show ?thesis
      by (auto simp: reg_ok_except_def slot_restate slot_count_def r1_def intro!: reg_counts_same held_same slot_ids_upd)
  qed
  have data: "slot_data (?R ! i)" using r i by (simp add: reg_ok_except_def)
  have 2: "reg_counts r2 \<and> held r2 = held r \<and> slot_ids (reg_slots r2)"
    using 1 i i' st id [OF i] reg_counts_same [of r1 i] held_same [of r1 i]
    by (simp add: slot_restate slot_count_def slot_ids_upd r2_def)
  then have 3: "reg_counts r3 \<and> held r3 = held r \<and> slot_ids (reg_slots r3)" by (simp add: r3_def)
  then have 4: "reg_counts r4 \<and> held r4 = held r \<and> slot_ids (reg_slots r4)"
    using i reg_counts_same [of r3 i] held_same [of r3 i] by (simp add: slot_restate slot_ids_upd slot_at_id r4_def)
  have f: "reg_counts r' \<and> held r' = held r \<and> slot_ids (reg_slots r') \<and> active_id r' = int i \<and> reg_initialized r'"
  proof -
    have "reg_initialized r'" using r by (simp add: r1_def r2_def r3_def r4_def r'_def reg_ok_except_def)
    with 4 show ?thesis by (simp add: r'_def)
  qed
  have others: "slot_ok (int i) (reg_slots r' ! j) \<and> slot_data (reg_slots r' ! j)
      \<and> slot_model (reg_slots r' ! j) = slot_model (?R ! j)
      \<and> (slot_state (reg_slots r' ! j) = MODEL_SLOT_FREE \<longleftrightarrow> slot_state (?R ! j) = MODEL_SLOT_FREE)" if j: "j < MODEL_REGISTRY_MAX_MODELS" for j
  proof (cases "j = i")
    case True
    with at [OF j] id [OF j] data st show ?thesis by (simp add: slot_ok_def slot_restate slot_data_def)
  next
    case ne: False
    have old: "slot_ok ?a (?R ! j)" "slot_data (?R ! j)" using r j ne by (simp_all add: reg_ok_except_def)
    show ?thesis
    proof (cases "int j = ?a")
      case True
      then have "slot_state (?R ! j) = MODEL_SLOT_ACTIVE" using old(1) id [OF j] by (simp add: slot_ok_def)
      with at [OF j] ne True id [OF j] old show ?thesis by (simp add: slot_ok_def slot_restate slot_data_def)
    next
      case False
      with at [OF j] ne id [OF j] old show ?thesis by (auto simp: slot_ok_def)
    qed
  qed
  have ok': "reg_ok r'"
    unfolding reg_ok_def reg_ok_except_def using f others i by (simp add: is_valid_id_def)
  show ?thesis
    using sw ok' f others by (intro exI [of _ r'] conjI) simp_all
qed


section \<open>Unloading\<close>

lemma clear_ok:
  assumes r: "reg_ok_except (int i) r" and i: "i < MODEL_REGISTRY_MAX_MODELS" and a: "active_id r \<noteq> int i"
    and st: "slot_state (reg_slots r ! i) \<noteq> MODEL_SLOT_FREE" and h: "heap_holds lo hi h (E + held r)"
    and r2: "r2 = upd_slot i (\<lambda>s. s\<lparr>slot_state := MODEL_SLOT_UNLOADING\<rparr>) r" and s: "s = reg_slots r2 ! i"
    and r3: "r3 = upd_slot i (\<lambda>s. s\<lparr>slot_workspace := None, slot_model := None, slot_state := MODEL_SLOT_FREE,
      workspace_size := 0, load_time := 0, last_used := 0, inference_count := 0, slot_capabilities := 0, source_path := []\<rparr>) r2"
    and r': "r' = r3\<lparr>total_unloads := total_unloads r3 + 1, current_count := current_count r3 - 1,
      total_memory_used := total_memory_used r3 - of_nat (workspace_size s + (case slot_model s of None \<Rightarrow> 0 | Some (_, m) \<Rightarrow> m_size m))\<rparr>"
  shows "reg_ok r'" "heap_holds lo hi (kfree (map_option fst (slot_model s)) (kfree (slot_workspace s) h)) (E + held r')"
    "j < MODEL_REGISTRY_MAX_MODELS \<Longrightarrow> slot_state (reg_slots r' ! j) = MODEL_SLOT_FREE \<longleftrightarrow> j = i \<or> slot_state (reg_slots r ! j) = MODEL_SLOT_FREE"
proof -
  let ?R = "reg_slots r" and ?e = "(empty_slot i)\<lparr>slot_id := slot_id (reg_slots r ! i)\<rparr>"
  have ids: "slot_ids ?R" and c: "reg_counts r" using r by (simp_all add: reg_ok_except_def)
  have li: "i < length ?R" using ids i by (simp add: slot_ids_def)
  have s': "s = (?R ! i)\<lparr>slot_state := MODEL_SLOT_UNLOADING\<rparr>" using li by (simp add: s r2)
  have R3: "reg_slots r3 = ?R[i := ?e]"
    using li by (cases "?R ! i") (simp add: r3 r2 empty_slot_def)
  have e: "slot_count ?e = 0" "slot_mem ?e = 0" "slot_blocks ?e = {#}" "slot_data ?e" "slot_state ?e = MODEL_SLOT_FREE" "slot_id ?e = int i"
    using slot_at_id [OF ids i] by (simp_all add: empty_slot_def slot_count_def slot_mem_def slot_blocks_def slot_data_def)
  have blocks: "held r3 + slot_blocks (?R ! i) = held r"
    using sum_list_upd [OF li, of slot_blocks ?e] e(3) by (simp add: held_def R3)
  have "slot_blocks (?R ! i) = block_of (map_option fst (slot_model s)) + block_of (slot_workspace s)"
    by (auto simp: slot_blocks_def s' split: option.splits)
  with h blocks have "heap_holds lo hi h (E + held r3 + (block_of (map_option fst (slot_model s)) + block_of (slot_workspace s)))"
    by (metis add.assoc)
  from pool.put_two_holds [OF this]
  show "heap_holds lo hi (kfree (map_option fst (slot_model s)) (kfree (slot_workspace s) h)) (E + held r')"
    by (simp add: kfree_pool r')
  show "j < MODEL_REGISTRY_MAX_MODELS \<Longrightarrow> slot_state (reg_slots r' ! j) = MODEL_SLOT_FREE \<longleftrightarrow> j = i \<or> slot_state (?R ! j) = MODEL_SLOT_FREE"
    using li e(5) by (auto simp: r' R3 nth_list_update empty_slot_def)
  have cnt: "sum_list (map slot_count (reg_slots r3)) + 1 = sum_list (map slot_count ?R)"
    using sum_list_upd [OF li, of slot_count ?e] e(1) st by (simp add: R3 slot_count_def)
  have mem: "sum_list (map slot_mem (reg_slots r3)) + slot_mem s = sum_list (map slot_mem ?R)"
    using sum_list_upd [OF li, of slot_mem ?e] e(2) by (simp add: R3 s' slot_restate)
  have flds: "current_count r3 = current_count r" "total_loads r3 = total_loads r" "total_unloads r3 = total_unloads r"
    "total_memory_used r3 = total_memory_used r" "active_id r3 = active_id r" "reg_initialized r3 = reg_initialized r"
    by (simp_all add: r3 r2)
  have "reg_counts r'"
    using c unfolding reg_counts_def r' by (simp add: flds cnt [symmetric] mem [symmetric] slot_mem_def [symmetric])
  then show "reg_ok r'"
    using r e li a ids slot_ids_upd [OF ids e(6)] unfolding reg_ok_def reg_ok_except_def r'
    by (auto simp: flds R3 nth_list_update slot_ok_def)
qed


lemma find_alternative_Some:
  assumes "find_alternative i r = Some j"
  shows "j < MODEL_REGISTRY_MAX_MODELS" "j \<noteq> i" "slot_state (reg_slots r ! j) = MODEL_SLOT_READY"
  using assms by (auto simp: find_alternative_def find_Some_iff simp del: upt_Suc)

lemma find_alternative_None:
  assumes "find_alternative i r = None" "j < MODEL_REGISTRY_MAX_MODELS" "j \<noteq> i"
  shows "slot_state (reg_slots r ! j) \<noteq> MODEL_SLOT_READY"
  using assms by (auto simp: find_alternative_def find_None_iff simp del: upt_Suc)

lemma unload_ok:
  assumes r: "reg_ok r" and i: "is_valid_id i" and st: "slot_state (reg_slots r ! nat i) \<noteq> MODEL_SLOT_FREE"
    and h: "heap_holds lo hi h (E + held r)"
  shows "\<exists>r' h'. model_registry_unload i r h = (MODEL_REG_OK, r', h') \<and> reg_ok r' \<and> heap_holds lo hi h' (E + held r')
    \<and> (\<forall>j < MODEL_REGISTRY_MAX_MODELS. slot_state (reg_slots r' ! j) = MODEL_SLOT_FREE \<longleftrightarrow>
        j = nat i \<or> slot_state (reg_slots r ! j) = MODEL_SLOT_FREE)"
proof -
  let ?i = "nat i"
  have n: "?i < MODEL_REGISTRY_MAX_MODELS" "int ?i = i" using i by (auto simp: is_valid_id_def)
  define r1 where "r1 = (if active_id r = i
    then (case find_alternative ?i r of Some j \<Rightarrow> snd (model_registry_switch (int j) r) | None \<Rightarrow> r\<lparr>active_id := MODEL_ID_INVALID\<rparr>)
    else r)"
  have 1: "reg_ok_except (int ?i) r1 \<and> active_id r1 \<noteq> int ?i \<and> slot_state (reg_slots r1 ! ?i) \<noteq> MODEL_SLOT_FREE \<and> held r1 = held r
    \<and> (\<forall>j < MODEL_REGISTRY_MAX_MODELS. slot_state (reg_slots r1 ! j) = MODEL_SLOT_FREE \<longleftrightarrow> slot_state (reg_slots r ! j) = MODEL_SLOT_FREE)"
  proof (cases "active_id r = i")
    case False
    with r st n(2) reg_ok_except [OF r] show ?thesis by (simp add: r1_def)
  next
    case act: True
    show ?thesis
    proof (cases "find_alternative ?i r")
      case (Some j)
      note j = find_alternative_Some [OF Some]
      obtain r' where r': "model_registry_switch (int j) r = (MODEL_REG_OK, r')" "reg_ok r'" "held r' = held r" "active_id r' = int j"
        "slot_state (reg_slots r' ! ?i) \<noteq> MODEL_SLOT_FREE"
        "\<forall>j < MODEL_REGISTRY_MAX_MODELS. slot_state (reg_slots r' ! j) = MODEL_SLOT_FREE \<longleftrightarrow> slot_state (reg_slots r ! j) = MODEL_SLOT_FREE"
        using switch_ok [OF reg_ok_except [OF r] j(1) reg_ok_slots(1) [OF r j(1)]] j(3) n(1) st by auto
      have "r1 = r'" by (simp add: r1_def act Some r'(1))
      moreover have "int j \<noteq> int ?i" using j(2) by (simp only: of_nat_eq_iff not_False_eq_True)
      ultimately show ?thesis using r' reg_ok_except [OF r'(2), of "int ?i"] by (simp only: not_False_eq_True)
    next
      case None
      have e: "r1 = r\<lparr>active_id := MODEL_ID_INVALID\<rparr>" by (simp add: r1_def act None)
      have "slot_state (reg_slots r ! j) = MODEL_SLOT_FREE" if "j < MODEL_REGISTRY_MAX_MODELS" "int j \<noteq> int ?i" for j
      proof -
        have "j \<noteq> ?i" using that(2) by auto
        with find_alternative_None [OF None that(1)] reg_ok_slots(1) [OF r that(1)] slot_at_id [OF reg_ok_slots(4) [OF r] that(1)] act n(2)
        show ?thesis by (auto simp: slot_ok_def)
      qed
      with r st n show ?thesis
        by (auto simp: e reg_ok_def reg_ok_except_def slot_ok_def slot_at_id)
    qed
  qed
  have "heap_holds lo hi h (E + held r1)" using h 1 by simp
  note c = clear_ok [OF conjunct1 [OF 1] n(1) _ _ this refl refl refl refl]
  show ?thesis
    using r i st c 1 reg_ok_slots(5) [OF r] unfolding model_registry_unload_def r1_def [symmetric] by (auto simp: Let_def)
qed


section \<open>Loading\<close>

text \<open>
  What the registry relies on: the loader ends, keeps besides the model it returns either nothing
  or one of the sets of new blocks \<open>K\<close> (the embedding tables of the GGUF branch), and asks for a
  workspace whose size does not wrap when it is rounded up.
\<close>

definition loader_ok :: "nat \<Rightarrow> nat \<Rightarrow> nat multiset set \<Rightarrow> loader \<Rightarrow> bool" where
  "loader_ok lo hi K ld \<longleftrightarrow> (\<forall>h M. heap_holds lo hi h M \<longrightarrow> (\<exists>mdl h' N. ld h = Some (mdl, h') \<and> N \<in> insert {#} K
     \<and> heap_holds lo hi h' (M + N + block_of (map_option fst mdl))
     \<and> (\<forall>p m. mdl = Some (p, m) \<longrightarrow> heap_request (memory_required m))))"

lemma loading_undone:
  assumes "slot_state (reg_slots r ! i) = MODEL_SLOT_FREE" "i < length (reg_slots r)"
  shows "upd_slot i (\<lambda>s. s\<lparr>slot_state := MODEL_SLOT_FREE\<rparr>) (upd_slot i (\<lambda>s. s\<lparr>slot_state := MODEL_SLOT_LOADING\<rparr>) r) = r"
proof -
  have "(reg_slots r ! i)\<lparr>slot_state := MODEL_SLOT_FREE\<rparr> = reg_slots r ! i"
    using assms(1) by (cases "reg_slots r ! i") simp
  with assms(2) show ?thesis by (simp add: upd_slot_def)
qed

lemma fill_ok:
  assumes r: "reg_ok r" and i: "i < MODEL_REGISTRY_MAX_MODELS" and st: "slot_state (reg_slots r ! i) = MODEL_SLOT_FREE"
    and s: "slot_id s = int i" "slot_state s = MODEL_SLOT_READY" "slot_data s" "slot_mem s = k"
    and r': "reg_slots r' = (reg_slots r)[i := s]" "active_id r' = active_id r" "reg_initialized r'"
      "total_loads r' = total_loads r + 1" "total_unloads r' = total_unloads r" "current_count r' = current_count r + 1"
      "total_memory_used r' = total_memory_used r + of_nat k"
  shows "reg_ok_except (int i) r'" "held r' = held r + slot_blocks s" "slot_ok (active_id r') (reg_slots r' ! i)"
    "current_count r' \<noteq> 1 \<Longrightarrow> active_id r' \<noteq> MODEL_ID_INVALID"
proof -
  let ?R = "reg_slots r"
  have ids: "slot_ids ?R" by (rule reg_ok_slots(4) [OF r])
  have c: "reg_counts r" using r by (simp add: reg_ok_def reg_ok_except_def)
  have li: "i < length ?R" using ids i by (simp add: slot_ids_def)
  have d: "slot_data (?R ! i)" by (rule reg_ok_slots(2) [OF r i])
  have e: "slot_count (?R ! i) = 0" "slot_mem (?R ! i) = 0" "slot_blocks (?R ! i) = {#}" "slot_count s = 1"
    using d st s(2) by (auto simp: slot_data_def slot_count_def slot_mem_def slot_blocks_def split: option.splits)
  have na: "active_id r \<noteq> int i"
    using reg_ok_slots(1) [OF r i] st slot_at_id [OF ids i] by (simp add: slot_ok_def)
  have sums: "sum_list (map slot_count (?R[i := s])) = sum_list (map slot_count ?R) + 1"
    "sum_list (map slot_mem (?R[i := s])) = sum_list (map slot_mem ?R) + k"
    "sum_list (map slot_blocks (?R[i := s])) = sum_list (map slot_blocks ?R) + slot_blocks s"
    using sum_list_upd [OF li, of slot_count s] sum_list_upd [OF li, of slot_mem s] sum_list_upd [OF li, of slot_blocks s] e s(4)
    by simp_all
  show "held r' = held r + slot_blocks s" by (simp add: held_def r'(1) sums)
  show "slot_ok (active_id r') (reg_slots r' ! i)" using li na s by (simp add: r'(1,2) slot_ok_def)
  have "reg_counts r'" using c by (simp add: reg_counts_def r' sums)
  then show "reg_ok_except (int i) r'"
    using r li s slot_ids_upd [OF ids s(1)] by (auto simp: reg_ok_def reg_ok_except_def r' nth_list_update)
  show "active_id r' \<noteq> MODEL_ID_INVALID" if n: "current_count r' \<noteq> 1"
  proof
    assume "active_id r' = MODEL_ID_INVALID"
    then have "slot_state (?R ! j) = MODEL_SLOT_FREE" if "j < length ?R" for j
      using reg_ok_slots(3) [OF r] that ids by (simp add: r'(2) slot_ids_def)
    then have "\<forall>x \<in> set ?R. slot_count x = 0" by (auto simp: in_set_conv_nth slot_count_def)
    then have "sum_list (map slot_count ?R) = 0" by simp
    with c n show False by (simp add: reg_counts_def r'(6))
  qed
qed


lemma reg_load_ok:
  assumes r: "reg_ok r" and ld: "loader_ok lo hi K ld" and h: "heap_holds lo hi h (E + held r)"
  shows "\<exists>c r' h' N. model_registry_load ld name r h = Some (c, r', h') \<and> N \<in> insert {#} K \<and> reg_ok r'
    \<and> heap_holds lo hi h' (E + N + held r')"
proof (cases "find_free_slot r")
  case None
  with r h reg_ok_slots(5) [OF r] show ?thesis
    by (auto simp: model_registry_load_def intro!: exI [of _ "{#}"])
next
  case (Some i)
  then have i: "i < MODEL_REGISTRY_MAX_MODELS" "slot_state (reg_slots r ! i) = MODEL_SLOT_FREE"
    by (auto simp: find_free_slot_def find_Some_iff simp del: upt_Suc)
  have ids: "slot_ids (reg_slots r)" by (rule reg_ok_slots(4) [OF r])
  have li: "i < length (reg_slots r)" using ids i by (simp add: slot_ids_def)
  note undo = loading_undone [OF i(2) li]
  let ?r1 = "upd_slot i (\<lambda>s. s\<lparr>slot_state := MODEL_SLOT_LOADING\<rparr>) r"
  obtain mdl h1 N where N: "N \<in> insert {#} K" and l: "ld h = Some (mdl, h1)" "heap_holds lo hi h1 (E + held r + N + block_of (map_option fst mdl))"
    "\<And>p m. mdl = Some (p, m) \<Longrightarrow> heap_request (memory_required m)"
    using ld h unfolding loader_ok_def by blast
  show ?thesis
  proof (cases mdl)
    case None
    with l have "heap_holds lo hi h1 (E + N + held r)" by (simp add: ac_simps)
    with N l(1) None Some undo r reg_ok_slots(5) [OF r] show ?thesis
      by (auto simp: model_registry_load_def Let_def)
  next
    case mdl: (Some pm)
    obtain p m where pm: "mdl = Some (p, m)" using mdl by (cases pm) auto
    define n where "n = (if memory_required m = 0 then 32 * 1024 * 1024 else memory_required m)"
    have "heap_request n" using l(3) [OF pm] by (simp add: n_def heap_request_def)
    from heap_alloc_holds [OF l(2) this] obtain w h2 where
      w: "heap_alloc n h1 = Some (w, h2)" "heap_holds lo hi h2 (E + held r + N + block_of (map_option fst mdl) + block_of w)" by blast
    show ?thesis
    proof (cases w)
      case None
      have "heap_holds lo hi h2 (E + N + held r + block_of (Some p))" using w(2) None pm by (simp add: ac_simps)
      from pool.put_opt_holds [OF this] have "heap_holds lo hi (kfree (Some p) h2) (E + N + held r)" by (simp add: kfree_pool)
      with N l(1) w(1) None Some undo pm r reg_ok_slots(5) [OF r] show ?thesis
        by (auto simp: model_registry_load_def Let_def n_def [symmetric])
    next
      case (Some q)
      define path where "path = (case name of Some s \<Rightarrow> if s \<noteq> [] then safe_strncpy s 128 else safe_strncpy (m_name m) 128
        | None \<Rightarrow> safe_strncpy (m_name m) 128)"
      define r2 where "r2 = ?r1\<lparr>cycle_counter := cycle_counter ?r1 + 1\<rparr>"
      define r3 where "r3 = upd_slot i (\<lambda>s. s\<lparr>slot_model := Some (p, m), slot_workspace := Some q, workspace_size := n,
        load_time := cycle_counter ?r1, last_used := cycle_counter ?r1, inference_count := 0, slot_capabilities := m_capabilities m,
        source_path := path, slot_state := MODEL_SLOT_READY\<rparr>) r2"
      define r4 where "r4 = r3\<lparr>total_loads := total_loads r3 + 1, current_count := current_count r3 + 1,
        total_memory_used := total_memory_used r3 + of_nat (m_size m + n)\<rparr>"
      let ?s = "reg_slots r4 ! i"
      have s: "slot_id ?s = int i" "slot_state ?s = MODEL_SLOT_READY" "slot_data ?s" "slot_mem ?s = m_size m + n"
        "slot_blocks ?s = {#p#} + {#q#}"
        using li slot_at_id [OF ids i(1)] by (simp_all add: r4_def r3_def r2_def slot_data_def slot_mem_def slot_blocks_def)
      have f: "reg_slots r4 = (reg_slots r)[i := ?s]" "active_id r4 = active_id r" "reg_initialized r4"
        "total_loads r4 = total_loads r + 1" "total_unloads r4 = total_unloads r" "current_count r4 = current_count r + 1"
        "total_memory_used r4 = total_memory_used r + of_nat (m_size m + n)"
        using li reg_ok_slots(5) [OF r] by (simp_all add: r4_def r3_def r2_def)
      note fill = fill_ok [OF r i s(1-4) f]
      have h4: "heap_holds lo hi h2 (E + N + held r4)"
        using w(2) Some pm by (simp add: fill(2) s(5) ac_simps add_mset_commute)
      define r5 where "r5 = (if current_count r4 = 1 then snd (model_registry_switch (int i) r4) else r4)"
      have 5: "reg_ok r5 \<and> held r5 = held r4"
      proof (cases "current_count r4 = 1")
        case True
        have "slot_state ?s \<noteq> MODEL_SLOT_FREE" using s(2) by simp
        from switch_ok [OF fill(1) i(1) fill(3) this] True show ?thesis by (auto simp: r5_def)
      next
        case False
        with reg_okI [OF fill(1,3)] fill(4) show ?thesis by (simp add: r5_def)
      qed
      have "model_registry_load ld name r h = Some (int i, r5, h2)"
        using reg_ok_slots(5) [OF r] \<open>find_free_slot r = Some i\<close> l(1) w(1) Some pm
        unfolding model_registry_load_def r5_def r4_def r3_def r2_def path_def n_def get_cycles_def
        by (simp add: Let_def)
      with 5 h4 N show ?thesis by auto
    qed
  qed
qed


section \<open>Any sequence of calls\<close>

datatype registry_call = CallLoad loader "string option" | CallUnload int | CallSwitch int | CallInference

fun reg_call :: "registry_call \<Rightarrow> registry \<Rightarrow> heap \<Rightarrow> (registry \<times> heap) option" where
  "reg_call (CallLoad ld name) r h = map_option snd (model_registry_load ld name r h)"
| "reg_call (CallUnload i) r h = Some (snd (model_registry_unload i r h))"
| "reg_call (CallSwitch i) r h = Some (snd (model_registry_switch i r), h)"
| "reg_call CallInference r h = Some (model_registry_record_inference r, h)"

fun reg_calls :: "registry_call list \<Rightarrow> registry \<Rightarrow> heap \<Rightarrow> (registry \<times> heap) option" where
  "reg_calls [] r h = Some (r, h)"
| "reg_calls (c # cs) r h = Option.bind (reg_call c r h) (\<lambda>(r', h'). reg_calls cs r' h')"

fun call_ok :: "nat \<Rightarrow> nat \<Rightarrow> nat multiset set \<Rightarrow> registry_call \<Rightarrow> bool" where
  "call_ok lo hi K (CallLoad ld name) \<longleftrightarrow> loader_ok lo hi K ld"
| "call_ok lo hi K _ \<longleftrightarrow> True"

lemma switch_keeps:
  assumes r: "reg_ok r"
  shows "reg_ok (snd (model_registry_switch i r)) \<and> held (snd (model_registry_switch i r)) = held r"
proof (cases "is_valid_id i \<and> slot_state (reg_slots r ! nat i) \<in> {MODEL_SLOT_READY, MODEL_SLOT_ACTIVE}")
  case True
  then have i: "nat i < MODEL_REGISTRY_MAX_MODELS" "int (nat i) = i" "slot_state (reg_slots r ! nat i) \<noteq> MODEL_SLOT_FREE"
    by (auto simp: is_valid_id_def)
  from switch_ok [OF reg_ok_except [OF r] i(1) reg_ok_slots(1) [OF r i(1)] i(3)] show ?thesis
    unfolding i(2) by auto
next
  case False
  with r show ?thesis by (auto simp: model_registry_switch_def Let_def)
qed

lemma unload_keeps:
  assumes r: "reg_ok r" and h: "heap_holds lo hi h (E + held r)"
  shows "\<exists>c r' h'. model_registry_unload i r h = (c, r', h') \<and> reg_ok r' \<and> heap_holds lo hi h' (E + held r')"
proof (cases "is_valid_id i \<and> slot_state (reg_slots r ! nat i) \<noteq> MODEL_SLOT_FREE")
  case True
  with unload_ok [OF r _ _ h] show ?thesis by blast
next
  case False
  with r h show ?thesis by (auto simp: model_registry_unload_def)
qed

lemma inference_keeps:
  assumes r: "reg_ok r"
  shows "reg_ok (model_registry_record_inference r) \<and> held (model_registry_record_inference r) = held r"
proof (cases "active_id r = MODEL_ID_INVALID")
  case True
  with r show ?thesis by (simp add: model_registry_record_inference_def)
next
  case False
  then have i: "nat (active_id r) < MODEL_REGISTRY_MAX_MODELS" using reg_ok_slots(6) [OF r] by (auto simp: is_valid_id_def)
  let ?i = "nat (active_id r)"
  define r1 where "r1 = r\<lparr>cycle_counter := cycle_counter r + 1\<rparr>"
  define f :: "model_slot \<Rightarrow> model_slot" where "f = (\<lambda>s. s\<lparr>inference_count := inference_count s + 1, last_used := cycle_counter r\<rparr>)"
  have e: "model_registry_record_inference r = upd_slot ?i f r1"
    using False reg_ok_slots(5) [OF r] by (simp add: model_registry_record_inference_def get_cycles_def r1_def f_def Let_def)
  have s: "slot_count (f s) = slot_count s" "slot_mem (f s) = slot_mem s" "slot_blocks (f s) = slot_blocks s"
    "slot_data (f s) = slot_data s" "slot_ok a (f s) = slot_ok a s" "slot_id (f s) = slot_id s" "slot_state (f s) = slot_state s" for s a
    by (auto simp: f_def slot_count_def slot_mem_def slot_blocks_def slot_data_def slot_ok_def)
  have ids: "slot_ids (reg_slots r1)" "reg_counts r1" using r by (simp_all add: r1_def reg_ok_def reg_ok_except_def)
  have "held (upd_slot ?i f r1) = held r" using held_same [OF ids(1) i, of f] s by (simp add: r1_def)
  moreover have "reg_counts (upd_slot ?i f r1)" by (rule reg_counts_same [OF ids(2,1) i]) (simp_all add: s)
  moreover have "slot_ids (reg_slots (upd_slot ?i f r1))" using slot_ids_upd [OF ids(1), of _ ?i] slot_at_id [OF ids(1) i] s(6) by simp
  ultimately show ?thesis
    using r i ids(1) unfolding e reg_ok_def reg_ok_except_def
    by (auto simp: nth_list_update s slot_ids_def) (simp_all add: r1_def)
qed

lemma reg_call_keep:
  assumes r: "reg_ok r" and h: "heap_holds lo hi h (E + held r)" and c: "call_ok lo hi K c"
  shows "\<exists>r' h' N. reg_call c r h = Some (r', h') \<and> N \<in> insert {#} K \<and> reg_ok r' \<and> heap_holds lo hi h' (E + N + held r')"
proof (cases c)
  case (CallLoad ld name)
  with reg_load_ok [OF r _ h, of K ld name] c show ?thesis by fastforce
next
  case (CallUnload i)
  from unload_keeps [OF r h, of i] obtain c' r' h' where
    "model_registry_unload i r h = (c', r', h')" "reg_ok r'" "heap_holds lo hi h' (E + held r')" by blast
  with CallUnload show ?thesis by (auto intro!: exI [of _ "{#}"])
next
  case (CallSwitch i)
  with switch_keeps [OF r, of i] h show ?thesis by (auto intro!: exI [of _ "{#}"])
next
  case CallInference
  with inference_keeps [OF r] h show ?thesis by (auto intro!: exI [of _ "{#}"])
qed

lemma reg_calls_keep:
  "reg_ok r \<Longrightarrow> heap_holds lo hi h (E + held r) \<Longrightarrow> \<forall>c \<in> set cs. call_ok lo hi K c \<Longrightarrow>
    \<exists>r' h' Ns. reg_calls cs r h = Some (r', h') \<and> set Ns \<subseteq> insert {#} K \<and> reg_ok r' \<and> heap_holds lo hi h' (E + sum_list Ns + held r')"
proof (induction cs arbitrary: r h E)
  case Nil
  then show ?case by (auto intro!: exI [of _ "[]"])
next
  case (Cons c cs)
  from reg_call_keep [OF Cons.prems(1,2), of K c] Cons.prems(3) obtain r1 h1 N where
    1: "reg_call c r h = Some (r1, h1)" "N \<in> insert {#} K" "reg_ok r1" "heap_holds lo hi h1 (E + N + held r1)" by auto
  from Cons.IH [OF 1(3,4)] Cons.prems(3) obtain r' h' Ns where
    "reg_calls cs r1 h1 = Some (r', h')" "set Ns \<subseteq> insert {#} K" "reg_ok r'" "heap_holds lo hi h' (E + N + sum_list Ns + held r')" by auto
  with 1(1,2) show ?case by (auto simp: add.assoc intro!: exI [of _ "N # Ns"])
qed

section \<open>Shutting down\<close>

lemma unload_all_ok:
  "reg_ok r \<Longrightarrow> heap_holds lo hi h (E + held r) \<Longrightarrow> \<forall>j \<in> set js. j < MODEL_REGISTRY_MAX_MODELS \<Longrightarrow>
    \<exists>r' h'. unload_all js r h = (r', h') \<and> reg_ok r' \<and> heap_holds lo hi h' (E + held r')
      \<and> (\<forall>j < MODEL_REGISTRY_MAX_MODELS. j \<in> set js \<or> slot_state (reg_slots r ! j) = MODEL_SLOT_FREE \<longrightarrow>
          slot_state (reg_slots r' ! j) = MODEL_SLOT_FREE)"
proof (induction js arbitrary: r h)
  case (Cons i js)
  show ?case
  proof (cases "slot_state (reg_slots r ! i) = MODEL_SLOT_FREE")
    case True
    with Cons.IH [OF Cons.prems(1,2)] Cons.prems(3) show ?thesis by auto
  next
    case False
    have "is_valid_id (int i)" using Cons.prems(3) by (simp add: is_valid_id_def)
    from unload_ok [OF Cons.prems(1) this _ Cons.prems(2)] False obtain r1 h1 where
      1: "model_registry_unload (int i) r h = (MODEL_REG_OK, r1, h1)" "reg_ok r1" "heap_holds lo hi h1 (E + held r1)"
      "\<forall>j < MODEL_REGISTRY_MAX_MODELS. slot_state (reg_slots r1 ! j) = MODEL_SLOT_FREE \<longleftrightarrow>
        j = i \<or> slot_state (reg_slots r ! j) = MODEL_SLOT_FREE" by auto
    from Cons.IH [OF 1(2,3)] Cons.prems(3) obtain r' h' where
      "unload_all js r1 h1 = (r', h')" "reg_ok r'" "heap_holds lo hi h' (E + held r')"
      "\<forall>j < MODEL_REGISTRY_MAX_MODELS. j \<in> set js \<or> slot_state (reg_slots r1 ! j) = MODEL_SLOT_FREE \<longrightarrow>
          slot_state (reg_slots r' ! j) = MODEL_SLOT_FREE" by auto
    with False 1(1,4) show ?thesis by auto
  qed
qed auto

lemma held_none:
  assumes "reg_ok r" "\<forall>j < MODEL_REGISTRY_MAX_MODELS. slot_state (reg_slots r ! j) = MODEL_SLOT_FREE"
  shows "held r = {#}"
proof -
  have "slot_blocks (reg_slots r ! j) = {#}" if "j < MODEL_REGISTRY_MAX_MODELS" for j
    using reg_ok_slots(2) [OF assms(1) that] assms(2) that by (auto simp: slot_data_def slot_blocks_def split: option.splits)
  then have "\<forall>x \<in> set (reg_slots r). slot_blocks x = {#}"
    using reg_ok_slots(4) [OF assms(1)] by (auto simp: in_set_conv_nth slot_ids_def)
  moreover have "\<forall>x \<in> set xs. slot_blocks x = {#} \<Longrightarrow> sum_list (map slot_blocks xs) = {#}" for xs by (induction xs) auto
  ultimately show ?thesis unfolding held_def by blast
qed

lemma shutdown_ok:
  assumes r: "reg_ok r" and h: "heap_holds lo hi h (E + held r)"
  shows "\<exists>r' h'. model_registry_shutdown r h = (r', h') \<and> \<not> reg_initialized r' \<and> heap_holds lo hi h' E"
proof -
  have "\<forall>j \<in> set [0..<MODEL_REGISTRY_MAX_MODELS]. j < MODEL_REGISTRY_MAX_MODELS" by (auto simp only: set_upt atLeastLessThan_iff)
  from unload_all_ok [OF r h this] obtain r1 h1 where
    1: "unload_all [0..<MODEL_REGISTRY_MAX_MODELS] r h = (r1, h1)" "reg_ok r1" "heap_holds lo hi h1 (E + held r1)"
    "\<forall>j < MODEL_REGISTRY_MAX_MODELS. slot_state (reg_slots r1 ! j) = MODEL_SLOT_FREE" by (auto simp del: upt_Suc unload_all.simps)
  with held_none [OF 1(2,4)] reg_ok_slots(5) [OF r] show ?thesis
    by (simp add: model_registry_shutdown_def del: upt_Suc unload_all.simps upt_rec_numeral)
qed

section \<open>Properties\<close>

lemma active_iff_loaded:
  assumes "reg_ok r"
  shows "model_registry_get_active r = None \<longleftrightarrow> (\<forall>i < MODEL_REGISTRY_MAX_MODELS. slot_state (reg_slots r ! i) = MODEL_SLOT_FREE)"
proof (cases "active_id r = MODEL_ID_INVALID")
  case True
  with reg_ok_slots(3) [OF assms] show ?thesis by (simp add: model_registry_get_active_def)
next
  case False
  then have i: "nat (active_id r) < MODEL_REGISTRY_MAX_MODELS" "int (nat (active_id r)) = active_id r"
    using reg_ok_slots(6) [OF assms] by (auto simp: is_valid_id_def)
  then have "slot_state (reg_slots r ! nat (active_id r)) = MODEL_SLOT_ACTIVE"
    using reg_ok_slots(1) [OF assms i(1)] slot_at_id [OF reg_ok_slots(4) [OF assms] i(1)] by (simp add: slot_ok_def)
  with False i(1) reg_ok_slots(2) [OF assms i(1)] reg_ok_slots(5) [OF assms] show ?thesis
    by (auto simp: model_registry_get_active_def slot_data_def)
qed

text \<open>
  C11. Whatever sequence of loads, unloads, switches and inferences follows the initialisation, every
  call returns and keeps the invariant of the registry; some model is active exactly when one is
  loaded; the heap holds each model and workspace of the registry as a block of its own, and after
  a shutdown it holds only what it held before and what the loaders kept for themselves.
\<close>

theorem registry_calls_safe:
  assumes "\<not> reg_initialized r0" "heap_holds lo hi h0 E" "\<forall>c \<in> set cs. call_ok lo hi K c"
  shows "\<exists>r h Ns. reg_calls cs (model_registry_init r0) h0 = Some (r, h) \<and> set Ns \<subseteq> insert {#} K \<and> reg_ok r
    \<and> (model_registry_get_active r = None \<longleftrightarrow> (\<forall>i < MODEL_REGISTRY_MAX_MODELS. slot_state (reg_slots r ! i) = MODEL_SLOT_FREE))
    \<and> heap_holds lo hi h (E + sum_list Ns + held r)
    \<and> heap_holds lo hi (snd (model_registry_shutdown r h)) (E + sum_list Ns)"
proof -
  have "heap_holds lo hi h0 (E + held (model_registry_init r0))" using assms(2) reg_init_ok(2) [OF assms(1)] by simp
  from reg_calls_keep [OF reg_init_ok(1) [OF assms(1)] this assms(3)] obtain r h Ns where
    r: "reg_calls cs (model_registry_init r0) h0 = Some (r, h)" "set Ns \<subseteq> insert {#} K" "reg_ok r"
      "heap_holds lo hi h (E + sum_list Ns + held r)" by blast
  with shutdown_ok [OF r(3,4)] active_iff_loaded [OF r(3)] show ?thesis
    by (intro exI [of _ r] exI [of _ h] exI [of _ Ns]) auto
qed

text \<open>A model of the SafeTensors format.\<close>

definition tiny_model :: gbuf where
  "tiny_model = \<lparr>b_start = 0x1000, b_bytes = [0x65, 0x68, 0x22, 0x7B] @ replicate 12 0\<rparr>"

definition zero_model :: embodios_model where
  "zero_model = \<lparr>m_magic = 0, m_name = [], m_arch = [], memory_required = 0, m_capabilities = 0, m_size = 0\<rparr>"

definition zero_registry :: registry where
  "zero_registry = \<lparr>reg_initialized = False, reg_slots = [], active_id = MODEL_ID_INVALID, total_loads = 0, total_unloads = 0,
     total_switches = 0, current_count = 0, total_memory_used = 0, cycle_counter = 0\<rparr>"

lemma placeholder_loader_ok: "heap_request (memory_required old) \<Longrightarrow> loader_ok lo hi {} (load_placeholder name sz old)"
proof -
  assume old: "heap_request (memory_required old)"
  have "heap_request MODEL_SIZE" by (simp add: heap_request_def)
  show ?thesis
    unfolding loader_ok_def
  proof (intro allI impI)
    fix h M
    assume "heap_holds lo hi h M"
    from heap_alloc_holds [OF this \<open>heap_request MODEL_SIZE\<close>] obtain p h' where
      p: "heap_alloc MODEL_SIZE h = Some (p, h')" "heap_holds lo hi h' (M + block_of p)" by blast
    let ?m = "old\<lparr>m_magic := 0x454D424F, m_name := name, m_arch := ''unknown'', m_size := sz\<rparr>"
    have "load_placeholder name sz old h = Some (map_option (\<lambda>p. (p, ?m)) p, h')"
      using p(1) by (simp add: load_placeholder_def)
    moreover have "map_option fst (map_option (\<lambda>p. (p, ?m)) p) = p" by (cases p) simp_all
    ultimately show "\<exists>mdl h' N. load_placeholder name sz old h = Some (mdl, h') \<and> N \<in> insert {#} {} \<and>
        heap_holds lo hi h' (M + N + block_of (map_option fst mdl)) \<and>
        (\<forall>p m. mdl = Some (p, m) \<longrightarrow> heap_request (memory_required m))"
      using p(2) old by (intro exI [of _ "map_option (\<lambda>p. (p, ?m)) p"] exI [of _ h'] exI [of _ "{#}"]) auto
  qed
qed

theorem registry_calls_safe_witness:
  "\<exists>lo hi h0 r h. reg_calls [CallLoad (load_model_from_memory tiny_model (\<lambda>h. Some (None, h)) zero_model) None, CallUnload 0]
      (model_registry_init zero_registry) h0 = Some (r, h) \<and> reg_ok r
    \<and> heap_holds lo hi (snd (model_registry_shutdown r h)) {#}"
proof -
  let ?ld = "load_model_from_memory tiny_model (\<lambda>h. Some (None, h)) zero_model"
  have e: "?ld = load_placeholder ''SafeTensors Model'' 16 zero_model"
    by (intro ext) (simp add: load_model_from_memory_def tiny_model_def peek_def Let_def)
  have ld: "loader_ok lo hi {} ?ld" for lo hi
    unfolding e by (rule placeholder_loader_ok) (simp add: zero_model_def heap_request_def)
  obtain h0 where b: "boots 0x200000 0x10000000 h0" using demo_boots by blast
  obtain n lo where i: "heap_inv lo (lo + n) (heap_init h0) []" using boots_inv [OF b] by blast
  then have h: "heap_holds lo (lo + n) (heap_init h0) {#}" unfolding heap_holds_def by (intro exI [of _ "[]"]) simp
  have "\<forall>c \<in> set [CallLoad ?ld None, CallUnload 0]. call_ok lo (lo + n) {} c" using ld by simp
  moreover have "\<not> reg_initialized zero_registry" by (simp add: zero_registry_def)
  ultimately obtain r h Ns where
    r: "reg_calls [CallLoad ?ld None, CallUnload 0] (model_registry_init zero_registry) (heap_init h0) = Some (r, h)" "reg_ok r"
    "set Ns \<subseteq> insert {#} {}" "heap_holds lo (lo + n) (snd (model_registry_shutdown r h)) ({#} + sum_list Ns)"
    using registry_calls_safe [OF _ h, of zero_registry "[CallLoad ?ld None, CallUnload 0]" "{}"] by blast
  moreover from r(3) have "sum_list Ns = {#}" by (induction Ns) auto
  ultimately have "heap_holds lo (lo + n) (snd (model_registry_shutdown r h)) {#}" by simp
  with r(1,2) show ?thesis by blast
qed

end
