(* ===== verification/Spec2Isabelle.thy ===== *)
theory Spec2Isabelle
  imports Prelude CString Can Sched TcpSockets ModbusServer EthercatStates HeapFlow BpeFlow KvFlow Locks ModelFlow RegistryFlow
begin

text \<open>
  EMBODIOS is an operating system kernel that runs a language model on bare metal. This
  development models the parts of the kernel that keep state of their own and decide something:
  memory, tasks, locks, the network with its industrial protocols, the CAN bus, and the parts of
  the inference engine that are not arithmetic: the parser of model files, the model
  registry, the tokenizer and the key/value cache. All paths below are relative to \<^verbatim>\<open>src/kernel\<close>.

  \<^bold>\<open>How the parts interact.\<close> At boot the memory map goes to the page allocator, a run of pages
  becomes the arena of the heap, and the heap serves the model parser and registry, the tokenizer, the cache,
  the task stacks and the contexts of the drivers. The timer interrupt drives the scheduler. The network stack
  is polled; the Modbus client and server use its sockets, the EtherCAT slave and the CAN
  controller get frames of their own. These components run on one processor and every operation
  runs to its end; interrupts are steps between operations (a tick, a received frame). The locks
  for several processors are a component of their own, with threads that interleave at every
  atomic access.

  \<^bold>\<open>Conventions.\<close> A struct is a record, an enumeration a datatype or the constants of the code,
  an integer of w bits a word, so that additions wrap as in C. Global variables are the fields of
  one state record that each operation takes and returns. An operation that returns an error code
  has it as a value. \<open>None\<close> stands for what C leaves undefined and the kernel would not
  survive: an access outside an array, a null or dangling pointer, division by zero, and, for
  loops over linked structures (\<open>partial_function (option)\<close>), not returning. So a theorem that
  an operation gives \<open>Some\<close> says that it ends and stays within its memory. Outcomes the model
  cannot know are arguments: the clock, the frames the network card has, the success of an
  allocation where the component does not run on the modelled heap.

  \<^bold>\<open>The theories.\<close>
  \<^item> \<open>Prelude\<close>: word types, indices into rings, chains of linked nodes.
    \<open>Interfaces\<close>: the locales of the components: bounded queues, ordered queues of nodes, tables
    read and written by ranges, lookup tables. \<open>Allocators\<close>: the locales of memory allocators. \<open>Pools\<close>:
    an allocator shared by clients that know only their own blocks.
    Every locale is interpreted on the model's functions in the theory of its provider.
  \<^item> \<open>CString\<close> (\<^verbatim>\<open>lib/string.c\<close>): the functions on a memory of bytes with addresses, null
    bytes searched without bound as in the code. \<open>memcpy\<close> and \<open>memset\<close> have their word path;
    it is proved equal to the byte loop.
  \<^item> \<open>Pmm\<close> (\<^verbatim>\<open>mm/pmm.c\<close>): bitmap, free lists and the linear allocator over a memory of list
    nodes at page addresses. \<open>Heap\<close> (\<^verbatim>\<open>mm/heap.c\<close>): the doubly linked list of block headers as
    a map from addresses. \<open>HeapFlow\<close>: the list of segments it represents, first fit with
    splitting and coalescing as the refined functions, and \<open>serve\<close> of \<open>Allocators\<close> for any
    sequence of requests and releases.
  \<^item> \<open>Locks\<close> (\<^verbatim>\<open>include/embodios/spinlock.h\<close>, \<^verbatim>\<open>mutex.h\<close>, \<^verbatim>\<open>atomic.h\<close>): a program
    counter per thread and one function per lock (\<open>spin_exec\<close>, \<open>rw_exec\<close>, \<open>mutex_exec\<close>, \<open>sem_exec\<close>) that makes its next atomic access;
    \<open>thread_step\<close> lets any thread go on. The invariant of the ticket lock is a queue of threads.
  \<^item> \<open>TaskQueues\<close>, \<open>Sched\<close> (\<^verbatim>\<open>core/task.c\<close>): task control blocks in a map, the ready queue
    and the deadline list as linked nodes with their heads, then deadline checks, priority
    inheritance, selection and switch, the timer tick and the task API. \<open>sched_inv\<close> is the
    invariant of all of them.
  \<^item> \<open>Can\<close> (\<^verbatim>\<open>drivers/can/can.c\<close>): frame validation, filters, the transmit ring of 32
    and the receive ring of 64 entries, the error state.
  \<^item> \<open>NetCodec\<close>, \<open>Tcpip\<close> (\<^verbatim>\<open>net/tcpip.c\<close>): bytes of headers and checksums; then the stack
    with ARP cache and socket table, one function per C function. \<open>TcpFlow\<close> connects two stacks by
    a wire that delivers every frame: a connection is a queue of bytes, from which a segment that
    does not fit in the receive buffer is missing; \<open>TcpSockets\<close> holds the invariant of the socket table.
  \<^item> \<open>ModbusPdu\<close>, \<open>Modbus\<close> (\<^verbatim>\<open>net/modbus.c\<close>): encoders, decoders and CRC, then the request
    handlers and the client and server on the sockets of \<open>Tcpip\<close>. \<open>ModbusFlow\<close> and
    \<open>ModbusServer\<close> compose both with the stack.
  \<^item> \<open>Ethercat\<close> (\<^verbatim>\<open>net/ethercat.c\<close>): the register space, datagrams, frames, sync managers,
    clock and watchdog. \<open>EthercatFlow\<close>: frames. \<open>EthercatStates\<close>: the state machine as an
    inductive relation on the states the code allows, reachability and its invariant.
  \<^item> \<open>Gguf\<close> (\<^verbatim>\<open>ai/gguf_parser.c\<close>): readers on a buffer at an address, with
    pointers that wrap, the table of metadata keys, the tensor table, over the modelled heap.
    \<open>GgufFlow\<close>: which buffers it stays within, and one that makes it read behind the end.
    \<open>GgufFile\<close>: an encoder of files, and that loading gives back what was encoded. \<open>ModelFlow\<close>:
    the vocabulary of a file as the tokenizer finds it.
  \<^item> \<open>Bpe\<close> (\<^verbatim>\<open>ai/bpe_tokenizer.c\<close>): hash table with chained entries and two pools, over the
    modelled heap. \<open>BpeFlow\<close>: loading the vocabulary, longest match, round trip.
  \<^item> \<open>ModelRegistry\<close> (\<^verbatim>\<open>ai/model_registry.c\<close> and the format detection of
    \<^verbatim>\<open>ai/model_loader.c\<close>): eight slots with their models and workspaces on the modelled heap.
    \<open>RegistryFlow\<close>: any sequence of calls, with the blocks the registry holds as a multiset.
  \<^item> \<open>KvCache\<close> (\<^verbatim>\<open>ai/kv_cache_enhanced.c\<close>): buffers as byte lists, over the modelled heap.
    \<open>KvFlow\<close>: sliding window and overflow.

  \<^bold>\<open>What the lemmas show.\<close> For each component an invariant, kept by each operation and so in
  every reachable state; what each operation does in terms of an abstract state (a list for a
  queue, ring, heap or table, a map for the vocabulary, a relation for the state machine); and
  what the composition gives: a stream that fits the buffers arrives whole and in order, a request is answered, a text is encoded
  and decoded. Where the code does not do what it means to, the theorem says what it does: a
  missed deadline can make the scheduler loop, freed pages are not reused, an unaligned start lets
  the pages overrun the memory, the Modbus client does not wait for its response, the Modbus
  server never answers because nothing accepts its connections, a full cache is written past its
  end, a completion signalled to all wakes nobody, a model file
  can make its parser read behind the buffer.

  \<^bold>\<open>Bounds and fuel.\<close> Tables have the sizes of the code (64 received CAN frames, 16 sockets, 4096 bytes
  in a receive buffer and so on). Loops with a static bound recurse on it; loops over links are
  \<open>partial_function\<close>s and their termination is proved from the invariant. The polling loop of
  \<open>can_receive\<close> removes a frame from the ring in each turn, so it ends with the ring.

  \<^bold>\<open>Not modelled.\<close> The vendored llama.cpp and ggml, the archived code, tests and scripts; the
  inference engine itself, whose results depend on the rounding of C floats; the loader that
  reads a model from a block device into the buffer of \<open>Gguf\<close>, and the GGUF branch of the model
  loader, which fills tables of floats; assembly, page
  tables, interrupt controllers and timers; the drivers of PCI, NVMe, virtio, e1000e, I2C,
  SPI and GPIO, whose behaviour lies in the device; console, boot and panic, which print.
  Floats that the modelled code only stores (scores, vectors) are their bit patterns.
\<close>

end
